(* ===== verification/Go_Prelude.thy ===== *)
theory Go_Prelude
  imports Main "HOL-Library.Word" "HOL-Library.Char_ord" "HOL-Library.List_Lexorder"
    "HOL-Library.Multiset"
begin

text \<open>
  Shared vocabulary of the development: the part of Go's \<open>strings\<close>, \<open>path\<close> and \<open>sort\<close>
  packages that the modelled code calls, error results as sums, and the generic lemmas the
  component theories rest on.

  A Go \<open>string\<close> is a byte sequence, so it is a HOL \<open>string\<close> (a list of 8-bit characters) and
  Go's \<open><\<close> on strings is the lexicographic order of \<open>HOL-Library.List_Lexorder\<close> over the byte
  order of \<open>HOL-Library.Char_ord\<close>.  Case mapping, case folding and white space are those of the
  ASCII range; bytes outside ASCII are left alone, which is where the model is coarser than the
  Unicode tables of Go.
\<close>

named_theorems go_string_simps \<open>unfolding rules of the string helpers\<close>
named_theorems blob_simps \<open>unfolding rules of the blob stores\<close>
named_theorems gc_simps \<open>unfolding rules of the Docker store and its garbage collector\<close>

type_synonym bytes = "8 word list"
type_synonym unix_time = int

section \<open>Error results\<close>

abbreviation Err :: "'e \<Rightarrow> 'e + 'a" where "Err \<equiv> Inl"
abbreviation Ok :: "'a \<Rightarrow> 'e + 'a" where "Ok \<equiv> Inr"

definition bind_res :: "'e + 'a \<Rightarrow> ('a \<Rightarrow> 'e + 'b) \<Rightarrow> 'e + 'b" where
  "bind_res m f = (case m of Inl e \<Rightarrow> Inl e | Inr a \<Rightarrow> f a)"

lemma bind_res_simps [simp]: "bind_res (Inl e) f = Inl e" "bind_res (Inr a) f = f a"
  by (simp_all add: bind_res_def)

lemma bind_res_Ok_iff: "bind_res m f = Inr b \<longleftrightarrow> (\<exists>a. m = Inr a \<and> f a = Inr b)"
  by (cases m) simp_all

section \<open>Package strings\<close>

definition has_prefix :: "string \<Rightarrow> string \<Rightarrow> bool" where
  "has_prefix s p \<longleftrightarrow> take (length p) s = p"

definition has_suffix :: "string \<Rightarrow> string \<Rightarrow> bool" where
  "has_suffix s p \<longleftrightarrow> length p \<le> length s \<and> drop (length s - length p) s = p"

definition trim_prefix :: "string \<Rightarrow> string \<Rightarrow> string" where
  "trim_prefix s p = (if has_prefix s p then drop (length p) s else s)"

definition trim_suffix :: "string \<Rightarrow> string \<Rightarrow> string" where
  "trim_suffix s p = (if has_suffix s p then take (length s - length p) s else s)"

text \<open>\<open>strings.IndexByte\<close>: \<open>None\<close> is Go's \<open>-1\<close>.\<close>

fun index_byte :: "string \<Rightarrow> char \<Rightarrow> nat option" where
  "index_byte [] c = None"
| "index_byte (x # xs) c = (if x = c then Some 0 else map_option Suc (index_byte xs c))"

text \<open>\<open>strings.Cut\<close> at a one-byte separator: the parts before and after it, and whether it was found.\<close>

definition cut :: "string \<Rightarrow> char \<Rightarrow> string \<times> string \<times> bool" where
  "cut s c = (case index_byte s c of None \<Rightarrow> (s, [], False)
                | Some i \<Rightarrow> (take i s, drop (Suc i) s, True))"

text \<open>\<open>strings.Split\<close> with a one-byte separator and \<open>strings.Join\<close> with the same.\<close>

definition last_index :: "string \<Rightarrow> char \<Rightarrow> nat option" where
  "last_index s c = map_option (\<lambda>i. length s - 1 - i) (index_byte (rev s) c)"

fun split_on :: "char \<Rightarrow> string \<Rightarrow> string list" where
  "split_on c [] = [[]]"
| "split_on c (x # xs) =
     (if x = c then [] # split_on c xs
      else (case split_on c xs of [] \<Rightarrow> [[x]] | y # ys \<Rightarrow> (x # y) # ys))"

fun join_on :: "char \<Rightarrow> string list \<Rightarrow> string" where
  "join_on c [] = []"
| "join_on c [x] = x"
| "join_on c (x # y # ys) = x @ c # join_on c (y # ys)"

text \<open>\<open>strings.Contains\<close>.\<close>

fun contains :: "string \<Rightarrow> string \<Rightarrow> bool" where
  "contains [] p \<longleftrightarrow> p = []"
| "contains (c # s) p \<longleftrightarrow> has_prefix (c # s) p \<or> contains s p"

definition is_space :: "char \<Rightarrow> bool" where
  "is_space c \<longleftrightarrow> c \<in> {CHR '' '', CHR 0x09, CHR 0x0A, CHR 0x0B, CHR 0x0C, CHR 0x0D}"

definition trim_left_func :: "(char \<Rightarrow> bool) \<Rightarrow> string \<Rightarrow> string" where
  "trim_left_func p s = dropWhile p s"

definition trim_right_func :: "(char \<Rightarrow> bool) \<Rightarrow> string \<Rightarrow> string" where
  "trim_right_func p s = rev (dropWhile p (rev s))"

definition trim_func :: "(char \<Rightarrow> bool) \<Rightarrow> string \<Rightarrow> string" where
  "trim_func p s = trim_right_func p (trim_left_func p s)"

definition trim_space :: "string \<Rightarrow> string" where
  "trim_space s = trim_func is_space s"

definition is_digit :: "char \<Rightarrow> bool" where
  "is_digit c \<longleftrightarrow> CHR ''0'' \<le> c \<and> c \<le> CHR ''9''"

definition is_upper :: "char \<Rightarrow> bool" where
  "is_upper c \<longleftrightarrow> CHR ''A'' \<le> c \<and> c \<le> CHR ''Z''"

definition is_lower :: "char \<Rightarrow> bool" where
  "is_lower c \<longleftrightarrow> CHR ''a'' \<le> c \<and> c \<le> CHR ''z''"

definition lower_char :: "char \<Rightarrow> char" where
  "lower_char c = (if is_upper c then char_of (of_char c + 32 :: nat) else c)"

definition upper_char :: "char \<Rightarrow> char" where
  "upper_char c = (if is_lower c then char_of (of_char c - 32 :: nat) else c)"

definition to_lower :: "string \<Rightarrow> string" where
  "to_lower s = map lower_char s"

definition to_upper :: "string \<Rightarrow> string" where
  "to_upper s = map upper_char s"

definition equal_fold :: "string \<Rightarrow> string \<Rightarrow> bool" where
  "equal_fold s t \<longleftrightarrow> to_lower s = to_lower t"

definition str_cmp :: "string \<Rightarrow> string \<Rightarrow> int" where
  "str_cmp a b = (if a < b then -1 else if b < a then 1 else 0)"

definition digit_val :: "char \<Rightarrow> nat" where
  "digit_val c = of_char c - 48"

text \<open>Decimal printing: \<open>%d\<close> of a non-negative integer.\<close>

fun dec_nat :: "nat \<Rightarrow> string" where
  "dec_nat n = (if n < 10 then [char_of (48 + n)] else dec_nat (n div 10) @ [char_of (48 + n mod 10)])"

declare dec_nat.simps [simp del]

text \<open>\<open>strings.Fields\<close>.\<close>

fun str_fields_from :: "string \<Rightarrow> string \<Rightarrow> string list" where
  "str_fields_from acc [] = (if acc = [] then [] else [acc])"
| "str_fields_from acc (c # cs) =
     (if is_space c then (if acc = [] then str_fields_from [] cs else acc # str_fields_from [] cs)
      else str_fields_from (acc @ [c]) cs)"

definition str_fields :: "string \<Rightarrow> string list" where
  "str_fields s = str_fields_from [] s"

lemmas [go_string_simps] = has_prefix_def has_suffix_def trim_prefix_def trim_suffix_def cut_def
  trim_space_def trim_func_def trim_left_func_def trim_right_func_def is_space_def
  to_lower_def to_upper_def equal_fold_def

subsection \<open>Facts about strings\<close>

lemma has_prefix_iff: "has_prefix s p \<longleftrightarrow> (\<exists>r. s = p @ r)"
  by (metis append_eq_conv_conj append_take_drop_id has_prefix_def)

lemma has_suffix_iff: "has_suffix s p \<longleftrightarrow> (\<exists>r. s = r @ p)"
proof
  assume "has_suffix s p"
  then show "\<exists>r. s = r @ p"
    by (metis append_take_drop_id has_suffix_def)
next
  assume "\<exists>r. s = r @ p"
  then show "has_suffix s p" by (auto simp: has_suffix_def)
qed

lemma trim_prefix_append [simp]: "trim_prefix (p @ s) p = s"
  by (simp add: trim_prefix_def has_prefix_def)

lemma trim_suffix_append [simp]: "trim_suffix (s @ p) p = s"
  by (simp add: trim_suffix_def has_suffix_def)

lemma set_map_filter_iff [simp]: "x \<in> set (List.map_filter f xs) \<longleftrightarrow> (\<exists>y\<in>set xs. f y = Some x)"
  by (force simp: List.map_filter_def)

lemma trim_func_id: "(\<And>c. c \<in> set s \<Longrightarrow> \<not> p c) \<Longrightarrow> trim_func p s = s"
proof -
  assume n: "\<And>c. c \<in> set s \<Longrightarrow> \<not> p c"
  have "dropWhile p s = s" "dropWhile p (rev s) = rev s" using n hd_in_set [of s] hd_in_set [of "rev s"]
    by (auto simp: dropWhile_eq_self_iff)
  then show ?thesis by (simp add: trim_func_def trim_left_func_def trim_right_func_def)
qed

lemma trim_space_Nil [simp]: "trim_space [] = []"
  by (simp add: trim_space_def trim_func_def trim_left_func_def trim_right_func_def)

lemma to_lower_Nil [simp]: "to_lower [] = []"
  by (simp add: to_lower_def)

lemma index_byte_Some:
  "index_byte s c = Some i \<Longrightarrow> i < length s \<and> s ! i = c \<and> c \<notin> set (take i s)"
proof (induction s arbitrary: i)
  case (Cons x xs)
  then show ?case by (cases i) (auto split: if_splits)
qed simp

lemma index_byte_None_iff: "index_byte s c = None \<longleftrightarrow> c \<notin> set s"
  by (induction s) auto

lemma index_byte_append: "c \<notin> set s \<Longrightarrow> index_byte (s @ c # t) c = Some (length s)"
  by (induction s) auto

lemma split_on_not_Nil [simp]: "split_on c s \<noteq> []"
  by (induction s) (auto split: list.splits)

lemma join_split [simp]: "join_on c (split_on c s) = s"
proof (induction s)
  case (Cons x xs)
  show ?case
  proof (cases "split_on c xs")
    case Nil
    then show ?thesis by simp
  next
    case (Cons y ys)
    with Cons.IH show ?thesis by (cases ys) auto
  qed
qed simp

lemma split_on_no_sep: "p \<in> set (split_on c s) \<Longrightarrow> c \<notin> set p"
proof (induction s arbitrary: p)
  case (Cons x xs)
  then show ?case by (cases "split_on c xs") (auto split: if_splits)
qed simp

lemma split_on_single: "c \<notin> set s \<Longrightarrow> split_on c s = [s]"
  by (induction s) auto

lemma split_on_append: "c \<notin> set s \<Longrightarrow> split_on c (s @ c # t) = s # split_on c t"
  by (induction s) auto

lemma split_join:
  "xs \<noteq> [] \<Longrightarrow> (\<And>x. x \<in> set xs \<Longrightarrow> c \<notin> set x) \<Longrightarrow> split_on c (join_on c xs) = xs"
  by (induction c xs rule: join_on.induct) (auto simp: split_on_single split_on_append)

lemma cut_split:
  assumes "cut s c = (h, r, f)"
  shows "f \<longrightarrow> split_on c s = h # split_on c r \<and> s = h @ c # r" "\<not> f \<longrightarrow> split_on c s = [h] \<and> r = [] \<and> s = h"
proof -
  have "(f \<longrightarrow> split_on c s = h # split_on c r \<and> s = h @ c # r) \<and> (\<not> f \<longrightarrow> split_on c s = [h] \<and> r = [] \<and> s = h)"
  proof (cases "index_byte s c")
    case None
    then have "h = s" "r = []" "\<not> f" using assms by (auto simp: cut_def)
    then show ?thesis using None by (simp add: index_byte_None_iff split_on_single)
  next
    case (Some i)
    then have hr: "h = take i s" "r = drop (Suc i) s" "f" using assms by (auto simp: cut_def)
    have "i < length s" "s ! i = c" "c \<notin> set (take i s)" using index_byte_Some [OF Some] by auto
    then have "s = h @ c # r" "c \<notin> set h" using hr id_take_nth_drop by auto
    then show ?thesis using hr split_on_append by metis
  qed
  then show "f \<longrightarrow> split_on c s = h # split_on c r \<and> s = h @ c # r" "\<not> f \<longrightarrow> split_on c s = [h] \<and> r = [] \<and> s = h"
    by blast+
qed

lemma find_append: "find P (xs @ ys) = (case find P xs of None \<Rightarrow> find P ys | Some x \<Rightarrow> Some x)"
  by (induction xs) auto

lemma find_someD: "find P xs = Some x \<Longrightarrow> x \<in> set xs \<and> P x"
  by (induction xs) (auto split: if_splits)

lemma find_none: "(\<And>x. x \<in> set xs \<Longrightarrow> \<not> P x) \<Longrightarrow> find P xs = None"
  by (simp add: find_None_iff)

lemma char_le_iff: "(c::char) \<le> d \<longleftrightarrow> (of_char c :: nat) \<le> of_char d"
  by (simp add: less_eq_char_def)

lemma lower_char_idem [simp]: "lower_char (lower_char c) = lower_char c"
  by (auto simp: lower_char_def is_upper_def char_le_iff of_char_of)

lemma to_lower_idem [simp]: "to_lower (to_lower s) = to_lower s"
  by (simp add: to_lower_def)

lemma length_to_lower [simp]: "length (to_lower s) = length s"
  by (simp add: to_lower_def)

lemma equal_fold_equiv:
  "equal_fold s s" "equal_fold s t \<longleftrightarrow> equal_fold t s"
  "equal_fold s t \<Longrightarrow> equal_fold t u \<Longrightarrow> equal_fold s u"
  by (auto simp: equal_fold_def)

lemma to_lower_equal_fold [simp]: "equal_fold (to_lower s) s"
  by (simp add: equal_fold_def)

lemma str_cmp_simps [simp]:
  "str_cmp a a = 0" "str_cmp a b = 0 \<longleftrightarrow> a = b"
  by (auto simp: str_cmp_def)

lemma str_cmp_swap: "str_cmp b a = - str_cmp a b"
  by (auto simp: str_cmp_def)

lemma str_cmp_le_iff: "str_cmp a b \<le> 0 \<longleftrightarrow> a \<le> b"
  by (auto simp: str_cmp_def)

section \<open>Three-way comparators and sort.SliceStable\<close>

text \<open>
  \<open>sort.SliceStable\<close> moves each element left past its predecessors while it is less than the
  predecessor.  The model keeps the sorted prefix reversed, so that the element is inserted at
  the head.  Go runs exactly this insertion on slices of up to twenty elements and merges blocks
  beyond that; for a comparator that is a strict weak order both give the one stable result.
\<close>

fun insert_back :: "('a \<Rightarrow> 'a \<Rightarrow> bool) \<Rightarrow> 'a \<Rightarrow> 'a list \<Rightarrow> 'a list" where
  "insert_back lt x [] = [x]"
| "insert_back lt x (y # ys) = (if lt x y then y # insert_back lt x ys else x # y # ys)"

definition slice_stable :: "('a \<Rightarrow> 'a \<Rightarrow> bool) \<Rightarrow> 'a list \<Rightarrow> 'a list" where
  "slice_stable lt xs = rev (fold (insert_back lt) xs [])"

lemma mset_insert_back [simp]: "mset (insert_back lt x ys) = add_mset x (mset ys)"
  by (induction ys) auto

lemma mset_fold_insert_back: "mset (fold (insert_back lt) xs acc) = mset xs + mset acc"
  by (induction xs arbitrary: acc) auto

lemma mset_slice_stable [simp]: "mset (slice_stable lt xs) = mset xs"
  by (simp add: slice_stable_def mset_fold_insert_back)

lemma set_slice_stable [simp]: "set (slice_stable lt xs) = set xs"
  using mset_slice_stable by (metis set_mset_mset)

lemma length_slice_stable [simp]: "length (slice_stable lt xs) = length xs"
  using mset_slice_stable by (metis size_mset)

text \<open>
  The contract of a version comparator: on the inputs in \<open>carrier\<close> it is antisymmetric and its
  "not after" relation is transitive.  Its clients are the stable sorts and the maximum search.
\<close>

locale comparator =
  fixes cmp :: "'a \<Rightarrow> 'a \<Rightarrow> int" and carrier :: "'a \<Rightarrow> bool"
  assumes cmp_swap: "carrier a \<Longrightarrow> carrier b \<Longrightarrow> cmp b a = - cmp a b"
    and cmp_trans: "carrier a \<Longrightarrow> carrier b \<Longrightarrow> carrier c \<Longrightarrow>
      cmp a b \<le> 0 \<Longrightarrow> cmp b c \<le> 0 \<Longrightarrow> cmp a c \<le> 0"
begin

lemma cmp_refl: "carrier a \<Longrightarrow> cmp a a = 0"
  using cmp_swap [of a a] by simp

lemma cmp_eq_trans:
  "carrier a \<Longrightarrow> carrier b \<Longrightarrow> carrier c \<Longrightarrow> cmp a b = 0 \<Longrightarrow> cmp b c = 0 \<Longrightarrow> cmp a c = 0"
  using cmp_trans [of a b c] cmp_trans [of c b a] cmp_swap [of a b] cmp_swap [of b c]
    cmp_swap [of a c] by simp

lemma cmp_less_trans:
  assumes "carrier a" "carrier b" "carrier c" "cmp a b \<le> 0" "cmp b c < 0"
  shows "cmp a c < 0"
proof (rule ccontr)
  assume "\<not> cmp a c < 0"
  with assms have "cmp c a \<le> 0" using cmp_swap [of a c] by simp
  with assms have "cmp c b \<le> 0" using cmp_trans [of c a b] by simp
  with assms show False using cmp_swap [of b c] by simp
qed

lemma insert_back_sorted:
  "carrier x \<Longrightarrow> \<forall>y \<in> set ys. carrier y \<Longrightarrow> sorted_wrt (\<lambda>a b. cmp b a \<le> 0) ys \<Longrightarrow>
   sorted_wrt (\<lambda>a b. cmp b a \<le> 0) (insert_back (\<lambda>a b. cmp a b < 0) x ys)"
proof (induction ys)
  case (Cons y ys)
  show ?case
  proof (cases "cmp x y < 0")
    case True
    have "set (insert_back (\<lambda>a b. cmp a b < 0) x ys) = insert x (set ys)"
      by (metis mset_insert_back set_mset_add_mset_insert set_mset_mset)
    with Cons True show ?thesis by auto
  next
    case False
    with Cons.prems have "cmp y x \<le> 0" using cmp_swap [of x y] by simp
    moreover from Cons.prems this have "\<forall>z \<in> set ys. cmp z x \<le> 0"
      using cmp_trans by (metis list.set_intros(1,2) sorted_wrt.simps(2))
    ultimately show ?thesis using False Cons.prems by simp
  qed
qed simp

lemma fold_insert_back_sorted:
  "\<forall>x \<in> set xs. carrier x \<Longrightarrow> \<forall>y \<in> set ys. carrier y \<Longrightarrow> sorted_wrt (\<lambda>a b. cmp b a \<le> 0) ys \<Longrightarrow>
   sorted_wrt (\<lambda>a b. cmp b a \<le> 0) (fold (insert_back (\<lambda>a b. cmp a b < 0)) xs ys)"
proof (induction xs arbitrary: ys)
  case (Cons x xs)
  have "set (insert_back (\<lambda>a b. cmp a b < 0) x ys) = insert x (set ys)"
    by (metis mset_insert_back set_mset_add_mset_insert set_mset_mset)
  with Cons insert_back_sorted [of x ys] show ?case by simp
qed simp

lemma slice_stable_sorted:
  "\<forall>x \<in> set xs. carrier x \<Longrightarrow>
   sorted_wrt (\<lambda>a b. cmp a b \<le> 0) (slice_stable (\<lambda>a b. cmp a b < 0) xs)"
  using fold_insert_back_sorted [of xs "[]"] by (simp add: slice_stable_def sorted_wrt_rev)

lemma insert_back_filter:
  "carrier x \<Longrightarrow> carrier k \<Longrightarrow> \<forall>y \<in> set ys. carrier y \<Longrightarrow>
   filter (\<lambda>y. cmp y k = 0) (insert_back (\<lambda>a b. cmp a b < 0) x ys) =
   filter (\<lambda>y. cmp y k = 0) (x # ys)"
proof (induction ys)
  case (Cons y ys)
  have "\<not> (cmp x k = 0 \<and> cmp y k = 0)" if "cmp x y < 0"
  proof
    assume "cmp x k = 0 \<and> cmp y k = 0"
    with Cons.prems have "cmp x y = 0"
      using cmp_eq_trans [of x k y] cmp_swap [of y k] by simp
    with that show False by simp
  qed
  with Cons show ?case by auto
qed simp

lemma fold_insert_back_filter:
  "carrier k \<Longrightarrow> \<forall>x \<in> set xs. carrier x \<Longrightarrow> \<forall>y \<in> set ys. carrier y \<Longrightarrow>
   filter (\<lambda>y. cmp y k = 0) (fold (insert_back (\<lambda>a b. cmp a b < 0)) xs ys) =
   rev (filter (\<lambda>y. cmp y k = 0) xs) @ filter (\<lambda>y. cmp y k = 0) ys"
proof (induction xs arbitrary: ys)
  case (Cons x xs)
  have "set (insert_back (\<lambda>a b. cmp a b < 0) x ys) = insert x (set ys)"
    by (metis mset_insert_back set_mset_add_mset_insert set_mset_mset)
  with Cons insert_back_filter [of x k ys] show ?case by simp
qed simp

lemma slice_stable_stable:
  "carrier k \<Longrightarrow> \<forall>x \<in> set xs. carrier x \<Longrightarrow>
   filter (\<lambda>y. cmp y k = 0) (slice_stable (\<lambda>a b. cmp a b < 0) xs) = filter (\<lambda>y. cmp y k = 0) xs"
  using fold_insert_back_filter [of k xs "[]"] by (simp add: slice_stable_def flip: rev_filter)

end

text \<open>Sorting newest first is sorting by the swapped comparator.\<close>

sublocale comparator \<subseteq> desc: comparator "\<lambda>a b. cmp b a" carrier
  using cmp_swap cmp_trans by unfold_locales blast+

end
