(* ===== verification/Semver.thy ===== *)
theory Semver
  imports Go_Prelude
begin

text \<open>
  The version comparators: \<open>internal/registry/common/semver/semver.go\<close> (Go, npm and Helm
  versions) and \<open>internal/registry/pkgbase/version.go\<close> (every other ecosystem).  Go's \<open>int\<close> is a
  64-bit word compared as signed, so the numeric components wrap; \<open>strconv.ParseInt\<close> saturates.
\<close>

section \<open>Package semver\<close>

datatype mode = ModeStrict | ModeLenient

text \<open>One numeric component: the loop \<open>n = n*10 + int(c-'0')\<close> on a 64-bit \<open>int\<close>.\<close>

fun parse_digits :: "64 word \<Rightarrow> string \<Rightarrow> 64 word option" where
  "parse_digits n [] = Some n"
| "parse_digits n (c # cs) =
     (if c < CHR ''0'' \<or> c > CHR ''9'' then None
      else parse_digits (n * 10 + of_nat (digit_val c)) cs)"

fun parse_parts :: "string list \<Rightarrow> 64 word list option" where
  "parse_parts [] = Some []"
| "parse_parts (p # ps) =
     (if p = [] then None
      else case parse_digits 0 p of None \<Rightarrow> None
           | Some n \<Rightarrow> map_option (Cons n) (parse_parts ps))"

definition strip_v :: "string \<Rightarrow> mode \<Rightarrow> string option" where
  "strip_v v m = (case m of
     ModeStrict \<Rightarrow> if has_prefix v ''v'' then Some (drop 1 v) else None
   | ModeLenient \<Rightarrow> Some (trim_prefix v ''v''))"

definition split_version :: "string \<Rightarrow> mode \<Rightarrow> (64 word list \<times> string) option" where
  "split_version v m = (case strip_v v m of None \<Rightarrow> None
     | Some v1 \<Rightarrow>
         if v1 = [] then None
         else let v2 = (case index_byte v1 CHR ''+'' of Some i \<Rightarrow> take i v1 | None \<Rightarrow> v1);
                  (v3, pre) = (case index_byte v2 CHR ''-'' of
                                 Some i \<Rightarrow> (take i v2, drop (Suc i) v2) | None \<Rightarrow> (v2, []))
              in map_option (\<lambda>ns. (ns, pre)) (parse_parts (split_on CHR ''.'' v3)))"

text \<open>The component loop: a missing component is zero.\<close>

fun cmp_nums :: "64 word list \<Rightarrow> 64 word list \<Rightarrow> int" where
  "cmp_nums [] [] = 0"
| "cmp_nums (a # as) [] = (if a \<noteq> 0 then (if sint a < 0 then -1 else 1) else cmp_nums as [])"
| "cmp_nums [] (b # bs) = (if 0 \<noteq> b then (if 0 < sint b then -1 else 1) else cmp_nums [] bs)"
| "cmp_nums (a # as) (b # bs) =
     (if a \<noteq> b then (if sint a < sint b then -1 else 1) else cmp_nums as bs)"

definition cmp_pre :: "string \<Rightarrow> string \<Rightarrow> int" where
  "cmp_pre p q = (if p = [] \<and> q = [] then 0 else if p = [] then 1 else if q = [] then -1
                  else str_cmp p q)"

definition Compare :: "string \<Rightarrow> string \<Rightarrow> mode \<Rightarrow> int" where
  "Compare a b m =
     (if a = b then 0
      else case (split_version a m, split_version b m) of
        (Some (an, apre), Some (bn, bpre)) \<Rightarrow>
          (let c = cmp_nums an bn in if c \<noteq> 0 then c else cmp_pre apre bpre)
      | _ \<Rightarrow> str_cmp a b)"

definition SortDesc :: "string list \<Rightarrow> mode \<Rightarrow> string list" where
  "SortDesc versions m = slice_stable (\<lambda>x y. Compare x y m > 0) versions"

section \<open>Package pkgbase\<close>

datatype token = NumTok int | AlphaTok string

definition max_int64 :: int where "max_int64 = 2 ^ 63 - 1"

fun dec_value :: "nat \<Rightarrow> string \<Rightarrow> nat" where
  "dec_value n [] = n"
| "dec_value n (c # cs) = dec_value (n * 10 + digit_val c) cs"

definition is_letter :: "char \<Rightarrow> bool" where
  "is_letter c \<longleftrightarrow> is_upper c \<or> is_lower c"

text \<open>The closure \<open>flush\<close>; \<open>strconv.ParseInt\<close> returns the largest \<open>int64\<close> when out of range.\<close>

definition flush_token :: "bool \<Rightarrow> string \<Rightarrow> token list" where
  "flush_token curNum cur =
     (if cur = [] then []
      else if curNum then [NumTok (min (int (dec_value 0 cur)) max_int64)]
      else [AlphaTok cur])"

fun tokenize_from :: "bool \<Rightarrow> string \<Rightarrow> string \<Rightarrow> token list" where
  "tokenize_from curNum cur [] = flush_token curNum cur"
| "tokenize_from curNum cur (r # rs) =
     (if is_digit r then
        (if cur \<noteq> [] \<and> \<not> curNum then flush_token curNum cur @ tokenize_from True [r] rs
         else tokenize_from True (cur @ [r]) rs)
      else if is_letter r then
        (if cur \<noteq> [] \<and> curNum then flush_token curNum cur @ tokenize_from False [lower_char r] rs
         else tokenize_from False (cur @ [lower_char r]) rs)
      else flush_token curNum cur @ tokenize_from curNum [] rs)"

definition tokenize :: "string \<Rightarrow> token list" where
  "tokenize v = tokenize_from False [] v"

fun is_num :: "token \<Rightarrow> bool" where
  "is_num (NumTok _) = True"
| "is_num (AlphaTok _) = False"

fun compareTokens :: "token list \<Rightarrow> token list \<Rightarrow> int" where
  "compareTokens [] [] = 0"
| "compareTokens [] (y # ys) = (if \<not> is_num y then 1 else -1)"
| "compareTokens (x # xs) [] = (if \<not> is_num x then -1 else 1)"
| "compareTokens (x # xs) (y # ys) = (case (x, y) of
     (NumTok a, NumTok b) \<Rightarrow>
       (if a \<noteq> b then (if a < b then -1 else 1) else compareTokens xs ys)
   | (NumTok _, AlphaTok _) \<Rightarrow> 1
   | (AlphaTok _, NumTok _) \<Rightarrow> -1
   | (AlphaTok s, AlphaTok t) \<Rightarrow>
       (let c = str_cmp s t in if c \<noteq> 0 then c else compareTokens xs ys))"

definition splitPre :: "string \<Rightarrow> string \<times> string" where
  "splitPre v = (case index_byte v CHR ''-'' of
     Some i \<Rightarrow> if i > 0 then (take i v, drop (Suc i) v) else (v, [])
   | None \<Rightarrow> (v, []))"

definition strip_version :: "string \<Rightarrow> string" where
  "strip_version a0 =
     (let a = trim_prefix (trim_prefix a0 ''v'') ''V''
      in case index_byte a CHR ''+'' of Some i \<Rightarrow> take i a | None \<Rightarrow> a)"

definition CompareVersions :: "string \<Rightarrow> string \<Rightarrow> int" where
  "CompareVersions a b =
     (if a = b then 0
      else let (ac, apre) = splitPre (strip_version a); (bc, bpre) = splitPre (strip_version b);
               c = compareTokens (tokenize ac) (tokenize bc)
           in if c \<noteq> 0 then c
              else if apre = [] \<and> bpre = [] then 0
              else if apre = [] then 1
              else if bpre = [] then -1
              else compareTokens (tokenize apre) (tokenize bpre))"

definition SortVersions :: "string list \<Rightarrow> string list" where
  "SortVersions vs = slice_stable (\<lambda>x y. CompareVersions x y < 0) vs"

definition Latest :: "string list \<Rightarrow> string" where
  "Latest vs = fold (\<lambda>v best. if best = [] \<or> CompareVersions v best > 0 then v else best) vs []"

section \<open>Both comparators are total preorders\<close>

lemma sint_inj [simp]: "sint a = sint b \<longleftrightarrow> a = b" for a b :: "64 word"
  using signed_word_eqI by blast

lemma sint_eq_0 [simp]: "sint a = 0 \<longleftrightarrow> a = 0" for a :: "64 word"
  using sint_inj [of a 0] by simp

lemma cmp_nums_swap: "cmp_nums bs as = - cmp_nums as bs"
  by (induction as bs rule: cmp_nums.induct) (auto dest: order_antisym)

lemma cmp_nums_trans:
  "cmp_nums as bs \<le> 0 \<Longrightarrow> cmp_nums bs cs \<le> 0 \<Longrightarrow> cmp_nums as cs \<le> 0"
proof (induction as bs arbitrary: cs rule: cmp_nums.induct)
  case 1
  then show ?case by simp
next
  case (2 a as)
  then show ?case by (cases cs) (auto split: if_splits)
next
  case (3 b bs)
  then show ?case by (cases cs) (auto split: if_splits)
next
  case (4 a as b bs)
  then show ?case by (cases cs) (auto split: if_splits)
qed

lemma cmp_pre_swap: "cmp_pre q p = - cmp_pre p q"
  by (simp add: cmp_pre_def str_cmp_swap [of p q])

lemma cmp_pre_trans: "cmp_pre p q \<le> 0 \<Longrightarrow> cmp_pre q r \<le> 0 \<Longrightarrow> cmp_pre p r \<le> 0"
  by (auto simp: cmp_pre_def str_cmp_le_iff split: if_splits)

text \<open>Comparing by a first key and breaking ties by a second keeps both laws.\<close>

lemma lex_cmp_trans:
  fixes c1 :: "'a \<Rightarrow> 'a \<Rightarrow> int" and c2 :: "'b \<Rightarrow> 'b \<Rightarrow> int"
  assumes le: "(if c1 a b \<noteq> 0 then c1 a b else c2 p q) \<le> 0"
            "(if c1 b c \<noteq> 0 then c1 b c else c2 q r) \<le> 0"
    and swap: "\<And>x y. c1 y x = - c1 x y"
    and trans1: "\<And>x y z. c1 x y \<le> 0 \<Longrightarrow> c1 y z \<le> 0 \<Longrightarrow> c1 x z \<le> 0"
    and trans2: "c2 p q \<le> 0 \<Longrightarrow> c2 q r \<le> 0 \<Longrightarrow> c2 p r \<le> 0"
  shows "(if c1 a c \<noteq> 0 then c1 a c else c2 p r) \<le> 0"
proof -
  from le have ab: "c1 a b \<le> 0" and bc: "c1 b c \<le> 0" by (auto split: if_splits)
  then have ac: "c1 a c \<le> 0" by (rule trans1)
  show ?thesis
  proof (cases "c1 a c = 0")
    case True
    then have "c1 c a \<le> 0" using swap [of a c] by simp
    then have "c1 b a \<le> 0" and "c1 c b \<le> 0"
      using trans1 [OF bc] trans1 [OF _ ab] by blast+
    with ab bc have "c1 a b = 0" "c1 b c = 0" using swap [of a b] swap [of b c] by auto
    with le True show ?thesis using trans2 by simp
  next
    case False
    with ac show ?thesis by simp
  qed
qed

definition version_key :: "64 word list \<times> string \<Rightarrow> 64 word list \<times> string \<Rightarrow> int" where
  "version_key x y = (let c = cmp_nums (fst x) (fst y) in if c \<noteq> 0 then c else cmp_pre (snd x) (snd y))"

lemma version_key_swap: "version_key y x = - version_key x y"
  using cmp_nums_swap [of "fst x" "fst y"] cmp_pre_swap [of "snd x" "snd y"]
  by (simp add: version_key_def Let_def)

lemma version_key_trans:
  assumes "version_key x y \<le> 0" "version_key y z \<le> 0"
  shows "version_key x z \<le> 0"
  using assms unfolding version_key_def Let_def
  by (rule lex_cmp_trans [where ?c1.0 = cmp_nums and ?c2.0 = cmp_pre])
    (rule cmp_nums_swap, erule (1) cmp_nums_trans, erule (1) cmp_pre_trans)

lemma version_key_refl [simp]: "version_key x x = 0"
  using version_key_swap [of x x] by simp

lemma Compare_parsed:
  assumes "split_version a m = Some x" "split_version b m = Some y"
  shows "Compare a b m = version_key x y"
proof (cases "a = b")
  case True
  with assms show ?thesis by (simp add: Compare_def)
next
  case False
  with assms show ?thesis by (cases x; cases y) (simp add: Compare_def version_key_def Let_def)
qed

lemma Compare_unparsed:
  "split_version a m = None \<or> split_version b m = None \<Longrightarrow> Compare a b m = str_cmp a b"
  by (auto simp: Compare_def split: option.splits)

text \<open>\<open>parsed m v\<close>: the version fits the shape \<open>split\<close> accepts under the mode.\<close>

definition parsed :: "mode \<Rightarrow> string \<Rightarrow> bool" where
  "parsed m v \<longleftrightarrow> split_version v m \<noteq> None"

lemma Compare_swap: "Compare b a m = - Compare a b m"
proof (cases "split_version a m = None \<or> split_version b m = None")
  case True
  then have "Compare b a m = str_cmp b a" "Compare a b m = str_cmp a b"
    using Compare_unparsed by blast+
  then show ?thesis using str_cmp_swap [of a b] by simp
next
  case False
  then obtain x y where "split_version a m = Some x" "split_version b m = Some y" by auto
  then show ?thesis using version_key_swap [of x y] by (simp add: Compare_parsed)
qed

interpretation semver: comparator "\<lambda>a b. Compare a b m" "parsed m"
proof
  fix a b c
  show "Compare b a m = - Compare a b m" by (rule Compare_swap)
  assume "parsed m a" "parsed m b" "parsed m c" "Compare a b m \<le> 0" "Compare b c m \<le> 0"
  then show "Compare a c m \<le> 0"
    by (auto simp: parsed_def Compare_parsed dest: version_key_trans)
qed

subsection \<open>The tolerant comparator\<close>

definition cmp_tok :: "token \<Rightarrow> token \<Rightarrow> int" where
  "cmp_tok x y = (case (x, y) of
     (NumTok a, NumTok b) \<Rightarrow> if a = b then 0 else if a < b then -1 else 1
   | (NumTok _, AlphaTok _) \<Rightarrow> 1
   | (AlphaTok _, NumTok _) \<Rightarrow> -1
   | (AlphaTok s, AlphaTok t) \<Rightarrow> str_cmp s t)"

lemma cmp_tok_swap: "cmp_tok y x = - cmp_tok x y"
  by (cases x; cases y) (auto simp: cmp_tok_def str_cmp_def)

lemma cmp_tok_trans: "cmp_tok x y \<le> 0 \<Longrightarrow> cmp_tok y z \<le> 0 \<Longrightarrow> cmp_tok x z \<le> 0"
  by (cases x; cases y; cases z) (auto simp: cmp_tok_def str_cmp_le_iff split: if_splits)

lemma compareTokens_Cons:
  "compareTokens (x # xs) (y # ys) =
   (if cmp_tok x y \<noteq> 0 then cmp_tok x y else compareTokens xs ys)"
  by (cases x; cases y) (simp_all add: cmp_tok_def Let_def)

lemma compareTokens_swap: "compareTokens ys xs = - compareTokens xs ys"
proof (induction xs ys rule: compareTokens.induct)
  case (4 x xs y ys)
  then show ?case
    using cmp_tok_swap [of x y]
    by (cases x; cases y) (auto simp: compareTokens_Cons cmp_tok_def simp del: compareTokens.simps)
qed auto

lemma compareTokens_trans:
  "compareTokens xs ys \<le> 0 \<Longrightarrow> compareTokens ys zs \<le> 0 \<Longrightarrow> compareTokens xs zs \<le> 0"
proof (induction xs arbitrary: ys zs)
  case Nil
  then show ?case
    by (cases ys; cases zs) (auto simp: compareTokens_Cons cmp_tok_def
        split: if_splits token.splits simp del: compareTokens.simps(4))
next
  case (Cons x xs)
  show ?case
  proof (cases "ys = [] \<or> zs = []")
    case True
    with Cons.prems show ?thesis
      by (cases ys; cases zs) (auto simp: compareTokens_Cons cmp_tok_def
          split: if_splits token.splits simp del: compareTokens.simps(4))
  next
    case False
    then obtain y ys' z zs' where eq: "ys = y # ys'" "zs = z # zs'"
      by (meson list.exhaust)
    show ?thesis
      using Cons.prems unfolding eq compareTokens_Cons
      by (rule lex_cmp_trans [where ?c1.0 = cmp_tok and ?c2.0 = compareTokens])
        (rule cmp_tok_swap, erule (1) cmp_tok_trans, erule (1) Cons.IH)
  qed
qed

definition tolerant_key :: "string \<Rightarrow> token list \<times> bool \<times> token list" where
  "tolerant_key a = (let (ac, apre) = splitPre (strip_version a)
                     in (tokenize ac, apre = [], tokenize apre))"

definition cmp_suffix :: "bool \<times> token list \<Rightarrow> bool \<times> token list \<Rightarrow> int" where
  "cmp_suffix p q = (if fst p \<and> fst q then 0 else if fst p then 1 else if fst q then -1
                     else compareTokens (snd p) (snd q))"

lemma cmp_suffix_swap: "cmp_suffix q p = - cmp_suffix p q"
  using compareTokens_swap [of "snd p" "snd q"] by (simp add: cmp_suffix_def)

lemma cmp_suffix_trans: "cmp_suffix p q \<le> 0 \<Longrightarrow> cmp_suffix q r \<le> 0 \<Longrightarrow> cmp_suffix p r \<le> 0"
  by (auto simp: cmp_suffix_def split: if_splits dest: compareTokens_trans)

lemma compareTokens_refl [simp]: "compareTokens x x = 0"
  using compareTokens_swap [of x x] by simp

lemma CompareVersions_key:
  "CompareVersions a b =
     (let c = compareTokens (fst (tolerant_key a)) (fst (tolerant_key b))
      in if c \<noteq> 0 then c else cmp_suffix (snd (tolerant_key a)) (snd (tolerant_key b)))"
  by (cases "a = b") (simp_all add: CompareVersions_def tolerant_key_def cmp_suffix_def
      case_prod_beta Let_def)

lemma CompareVersions_swap: "CompareVersions b a = - CompareVersions a b"
  using compareTokens_swap [of "fst (tolerant_key a)" "fst (tolerant_key b)"]
    cmp_suffix_swap [of "snd (tolerant_key a)" "snd (tolerant_key b)"]
  by (simp add: CompareVersions_key Let_def)

interpretation tolerant: comparator CompareVersions "\<lambda>_. True"
proof
  fix a b c
  show "CompareVersions b a = - CompareVersions a b" by (rule CompareVersions_swap)
  assume "CompareVersions a b \<le> 0" "CompareVersions b c \<le> 0"
  then show "CompareVersions a c \<le> 0"
    unfolding CompareVersions_key Let_def
    by (rule lex_cmp_trans [where ?c1.0 = compareTokens and ?c2.0 = cmp_suffix])
      (rule compareTokens_swap, erule (1) compareTokens_trans, erule (1) cmp_suffix_trans)
qed

section \<open>Sorting and the numeric components\<close>

text \<open>
  Newest first.  On versions that parse under the mode, \<open>SortDesc\<close> returns a permutation of
  its input in which no version is followed by a newer one, and versions of equal precedence
  keep their input order.
\<close>

theorem SortDesc_correct:
  assumes "\<forall>v \<in> set vs. parsed m v" and "parsed m k"
  shows "mset (SortDesc vs m) = mset vs
    \<and> sorted_wrt (\<lambda>a b. Compare a b m \<ge> 0) (SortDesc vs m)
    \<and> filter (\<lambda>v. Compare v k m = 0) (SortDesc vs m) = filter (\<lambda>v. Compare v k m = 0) vs"
proof -
  have flip: "0 < Compare x y m \<longleftrightarrow> Compare y x m < 0" for x y
    using Compare_swap [of x y m] by auto
  have eq: "SortDesc vs m = slice_stable (\<lambda>a b. Compare b a m < 0) vs"
    by (simp add: SortDesc_def flip)
  have "sorted_wrt (\<lambda>a b. Compare b a m \<le> 0) (SortDesc vs m)"
    unfolding eq using assms(1) by (rule semver.desc.slice_stable_sorted)
  moreover have "0 \<le> Compare x y m" if "Compare y x m \<le> 0" for x y
    using that Compare_swap [of x y m] by auto
  ultimately have sorted: "sorted_wrt (\<lambda>a b. Compare a b m \<ge> 0) (SortDesc vs m)"
    by (metis (no_types, lifting) sorted_wrt_mono_rel)
  have "(\<lambda>v. Compare v k m = 0) = (\<lambda>v. Compare k v m = 0)"
    using Compare_swap [of _ k m] by (auto simp: fun_eq_iff)
  then have "filter (\<lambda>v. Compare v k m = 0) (SortDesc vs m) = filter (\<lambda>v. Compare v k m = 0) vs"
    using semver.desc.slice_stable_stable [OF assms(2,1)] by (simp only: eq)
  with sorted show ?thesis by (simp add: SortDesc_def)
qed

theorem SortDesc_correct_witness:
  "mset (SortDesc [''v1.2.3'', ''v2.0.0'', ''v1.2.3+b''] ModeStrict) =
     mset [''v1.2.3'', ''v2.0.0'', ''v1.2.3+b'']
   \<and> sorted_wrt (\<lambda>a b. Compare a b ModeStrict \<ge> 0)
       (SortDesc [''v1.2.3'', ''v2.0.0'', ''v1.2.3+b''] ModeStrict)
   \<and> filter (\<lambda>v. Compare v ''v1.2.3'' ModeStrict = 0)
       (SortDesc [''v1.2.3'', ''v2.0.0'', ''v1.2.3+b''] ModeStrict) = [''v1.2.3'', ''v1.2.3+b'']"
proof -
  let ?vs = "[''v1.2.3'', ''v2.0.0'', ''v1.2.3+b'']"
  have h: "\<forall>v \<in> set ?vs. parsed ModeStrict v" by code_simp
  have k: "parsed ModeStrict ''v1.2.3''" by code_simp
  have f: "filter (\<lambda>v. Compare v ''v1.2.3'' ModeStrict = 0) ?vs = [''v1.2.3'', ''v1.2.3+b'']"
    by code_simp
  show ?thesis
    using SortDesc_correct [OF h k] f by simp
qed

text \<open>
  The fallback breaks the order.  When one side does not parse, \<open>Compare\<close> falls back to the
  byte order, and then three versions can beat each other in a circle, so no list that holds
  them is sorted under \<open>Compare\<close>.
\<close>

theorem Compare_mixed_cycle:
  "Compare ''v9.0.0'' ''v10.0.0'' ModeStrict < 0 \<and> Compare ''v10.0.0'' ''v1x'' ModeStrict < 0
   \<and> Compare ''v1x'' ''v9.0.0'' ModeStrict < 0"
  by code_simp

lemma parse_digits_dec:
  "list_all is_digit s \<Longrightarrow> parse_digits (of_nat n) s = Some (of_nat (dec_value n s))"
proof (induction s arbitrary: n)
  case (Cons c s)
  then show ?case using Cons.IH [of "n * 10 + digit_val c"] by (auto simp: is_digit_def not_less)
qed simp

lemma parse_digits_iff: "parse_digits w s \<noteq> None \<longleftrightarrow> list_all is_digit s"
  by (induction s arbitrary: w) (auto simp: is_digit_def not_less not_le)

text \<open>
  A numeric component is its decimal value modulo \<open>2 ^ 64\<close>, read as a signed number: it is
  exact for every component below \<open>2 ^ 63\<close>, and a component is accepted when and only when
  all its bytes are digits.
\<close>

theorem parse_digits_value:
  "parse_digits 0 s = (if list_all is_digit s then Some (of_nat (dec_value 0 s)) else None)
   \<and> (dec_value 0 s < 2 ^ 63 \<longrightarrow>
        sint (of_nat (dec_value 0 s) :: 64 word) = int (dec_value 0 s))"
proof -
  have "parse_digits 0 s = (if list_all is_digit s then Some (of_nat (dec_value 0 s)) else None)"
    using parse_digits_dec [of s 0] parse_digits_iff [of 0 s] by auto
  moreover have "sint (of_nat n :: 64 word) = int n" if "n < 2 ^ 63" for n
  proof -
    have "signed_take_bit 63 (int n) = int n"
      using that by (intro signed_take_bit_int_eq_self) auto
    then show ?thesis by (simp add: signed_of_nat)
  qed
  ultimately show ?thesis by blast
qed

theorem parse_digits_value_witness:
  "parse_digits 0 ''120'' = Some (of_nat (dec_value 0 ''120''))
   \<and> sint (of_nat (dec_value 0 ''120'') :: 64 word) = int (dec_value 0 ''120'')"
proof -
  have d: "list_all is_digit ''120''" by code_simp
  have h: "dec_value 0 ''120'' < 2 ^ 63" by (simp add: digit_val_def)
  show ?thesis using parse_digits_value [of "''120''"] h d by simp
qed

text \<open>
  Beyond \<open>2 ^ 63\<close> the component wraps, so a larger release number sorts below a smaller one.
\<close>

theorem Compare_overflow_inverts:
  "Compare ''v9223372036854775808.0.0'' ''v1.0.0'' ModeStrict = -1"
  by code_simp

section \<open>The newest version\<close>

lemma Latest_step:
  "[] \<notin> set vs \<Longrightarrow> best \<noteq> [] \<Longrightarrow>
   (let r = fold (\<lambda>v best. if best = [] \<or> CompareVersions v best > 0 then v else best) vs best
    in r \<noteq> [] \<and> r \<in> insert best (set vs) \<and> (\<forall>v \<in> insert best (set vs). CompareVersions v r \<le> 0))"
proof (induction vs arbitrary: best)
  case Nil
  then show ?case by (simp add: tolerant.cmp_refl)
next
  case (Cons v vs)
  show ?case
  proof (cases "CompareVersions v best > 0")
    case True
    then have "CompareVersions best v \<le> 0" using CompareVersions_swap [of best v] by simp
    with True Cons.prems Cons.IH [of v] show ?thesis
      by (auto simp: Let_def intro: tolerant.cmp_trans)
  next
    case False
    with Cons.prems Cons.IH [of best] show ?thesis
      by (auto simp: Let_def not_less intro: tolerant.cmp_trans)
  qed
qed

text \<open>
  \<open>Latest\<close> of a list of non-empty versions is one of them and no other is newer; the
  tolerant comparator is a total preorder on all strings, so this needs no shape of the versions.
\<close>

theorem Latest_is_newest:
  assumes "vs \<noteq> []" and "[] \<notin> set vs"
  shows "Latest vs \<in> set vs \<and> (\<forall>v \<in> set vs. CompareVersions v (Latest vs) \<le> 0)"
proof -
  obtain v ws where vs: "vs = v # ws" using assms(1) by (cases vs) auto
  have "Latest vs = fold (\<lambda>v best. if best = [] \<or> CompareVersions v best > 0 then v else best) ws v"
    by (simp add: Latest_def vs)
  moreover have "[] \<notin> set ws" "v \<noteq> []" using assms(2) vs by auto
  ultimately show ?thesis
    using Latest_step [of ws v] by (auto simp: Let_def vs)
qed

theorem Latest_is_newest_witness:
  "let vs = [''1.2.0-rc1'', ''1.10.0'', ''1.9'']
   in Latest vs \<in> set vs \<and> list_all (\<lambda>v. CompareVersions v (Latest vs) \<le> 0) vs \<and> Latest vs = ''1.10.0''"
proof -
  let ?vs = "[''1.2.0-rc1'', ''1.10.0'', ''1.9'']"
  have h: "?vs \<noteq> []" "[] \<notin> set ?vs" by simp_all
  have l: "Latest ?vs = ''1.10.0''" by code_simp
  show ?thesis using Latest_is_newest [OF h] l unfolding Let_def list_all_iff by blast
qed

text \<open>
  Oldest first.  \<open>SortVersions\<close> returns a permutation of its input, ascending under
  \<open>CompareVersions\<close>, and versions that compare equal keep their input order; this holds of every
  list of strings.
\<close>

theorem SortVersions_correct:
  "mset (SortVersions vs) = mset vs
   \<and> sorted_wrt (\<lambda>a b. CompareVersions a b \<le> 0) (SortVersions vs)
   \<and> filter (\<lambda>v. CompareVersions v k = 0) (SortVersions vs) =
     filter (\<lambda>v. CompareVersions v k = 0) vs"
  using tolerant.slice_stable_sorted [of vs] tolerant.slice_stable_stable [of vs k]
  by (simp add: SortVersions_def)

end
