(* ===== verification/Digest.thy ===== *)
theory Digest
  imports Go_Prelude
begin

text \<open>
  \<open>internal/registry/blobstore/digest.go\<close>: content digests, their canonical string form and its
  parser, and the streaming \<open>HashingWriter\<close>.  The SHA-2 functions are a parameter \<open>hsum\<close> of the
  model (algorithm name and data to hash bytes); what the code relies on is \<open>sum_length\<close>, that they
  return 32 and 64 bytes.
\<close>

record digest =
  Algorithm :: string
  Hex :: string

datatype digest_error = MissingSeparator | UnknownAlgorithm | BadHexLength | InvalidHex

type_synonym hash_fun = "string \<Rightarrow> bytes \<Rightarrow> bytes"

section \<open>Hexadecimal\<close>

definition hex_digit :: "nat \<Rightarrow> char" where
  "hex_digit n = (if n < 10 then char_of (48 + n) else char_of (87 + n))"

definition hex_byte :: "8 word \<Rightarrow> string" where
  "hex_byte b = [hex_digit (unat b div 16), hex_digit (unat b mod 16)]"

definition hex_encode :: "bytes \<Rightarrow> string" where
  "hex_encode bs = concat (map hex_byte bs)"

definition is_hex_char :: "char \<Rightarrow> bool" where
  "is_hex_char c \<longleftrightarrow> is_digit c \<or> (CHR ''a'' \<le> c \<and> c \<le> CHR ''f'') \<or> (CHR ''A'' \<le> c \<and> c \<le> CHR ''F'')"

text \<open>\<open>hex.DecodeString\<close> succeeds exactly on an even number of hexadecimal characters.\<close>

definition hex_decodes :: "string \<Rightarrow> bool" where
  "hex_decodes s \<longleftrightarrow> even (length s) \<and> list_all is_hex_char s"

section \<open>Digests\<close>

definition digest_string :: "digest \<Rightarrow> string" where
  "digest_string d = (if Algorithm d = [] \<or> Hex d = [] then [] else Algorithm d @ '':'' @ Hex d)"

definition IsZero :: "digest \<Rightarrow> bool" where
  "IsZero d \<longleftrightarrow> Algorithm d = [] \<and> Hex d = []"

definition Equal :: "digest \<Rightarrow> digest \<Rightarrow> bool" where
  "Equal d other \<longleftrightarrow> (if Algorithm d \<noteq> Algorithm other then False else equal_fold (Hex d) (Hex other))"

definition algorithmHexLength :: "string \<Rightarrow> nat option" where
  "algorithmHexLength alg = (if alg = ''sha256'' then Some (32 * 2)
     else if alg = ''sha512'' then Some (64 * 2) else None)"

definition ParseDigest :: "string \<Rightarrow> digest_error + digest" where
  "ParseDigest s = (case index_byte s CHR '':'' of
     None \<Rightarrow> Err MissingSeparator
   | Some idx \<Rightarrow>
       if idx = 0 \<or> idx = length s - 1 then Err MissingSeparator
       else let alg = take idx s; hx = drop (Suc idx) s
            in case algorithmHexLength alg of
                 None \<Rightarrow> Err UnknownAlgorithm
               | Some wantLen \<Rightarrow>
                   if length hx \<noteq> wantLen then Err BadHexLength
                   else if \<not> hex_decodes hx then Err InvalidHex
                   else Ok \<lparr>Algorithm = alg, Hex = to_lower hx\<rparr>)"

text \<open>\<open>NewHasher\<close> fails on every other algorithm.\<close>

definition NewHasher :: "hash_fun \<Rightarrow> string \<Rightarrow> (bytes \<Rightarrow> bytes) option" where
  "NewHasher hsum alg = (if alg = ''sha256'' \<or> alg = ''sha512'' then Some (hsum alg) else None)"

definition DigestFromHash :: "string \<Rightarrow> bytes \<Rightarrow> digest" where
  "DigestFromHash alg h = \<lparr>Algorithm = alg, Hex = hex_encode h\<rparr>"

text \<open>
  \<open>HashingWriter\<close>: the wrapped writer is a function from its state and the bytes offered to the
  next state, the number of bytes it took and whether it failed.
\<close>

record 'w hashing_writer =
  hw_w :: 'w
  hw_hashed :: bytes
  hw_alg :: string
  hw_n :: nat

definition NewHashingWriter :: "hash_fun \<Rightarrow> 'w \<Rightarrow> string \<Rightarrow> 'w hashing_writer option" where
  "NewHashingWriter hsum w alg = (case NewHasher hsum alg of None \<Rightarrow> None
     | Some _ \<Rightarrow> Some \<lparr>hw_w = w, hw_hashed = [], hw_alg = alg, hw_n = 0\<rparr>)"

definition hw_Write ::
  "('w \<Rightarrow> bytes \<Rightarrow> 'w \<times> nat \<times> bool) \<Rightarrow> 'w hashing_writer \<Rightarrow> bytes \<Rightarrow> 'w hashing_writer \<times> nat \<times> bool" where
  "hw_Write wr hw p =
     (let (w', n, failed) = wr (hw_w hw) p; hw' = hw\<lparr>hw_w := w'\<rparr>
      in (if n > 0 then hw'\<lparr>hw_hashed := hw_hashed hw @ take n p, hw_n := hw_n hw + n\<rparr> else hw',
          n, failed))"

definition hw_Digest :: "hash_fun \<Rightarrow> 'w hashing_writer \<Rightarrow> digest" where
  "hw_Digest hsum hw = DigestFromHash (hw_alg hw) (hsum (hw_alg hw) (hw_hashed hw))"

text \<open>A sequence of writes, and the bytes the wrapped writer accepted of them.\<close>

fun hw_writes ::
  "('w \<Rightarrow> bytes \<Rightarrow> 'w \<times> nat \<times> bool) \<Rightarrow> 'w hashing_writer \<Rightarrow> bytes list \<Rightarrow> 'w hashing_writer" where
  "hw_writes wr hw [] = hw"
| "hw_writes wr hw (p # ps) = hw_writes wr (fst (hw_Write wr hw p)) ps"

fun accepted :: "('w \<Rightarrow> bytes \<Rightarrow> 'w \<times> nat \<times> bool) \<Rightarrow> 'w \<Rightarrow> bytes list \<Rightarrow> bytes" where
  "accepted wr w [] = []"
| "accepted wr w (p # ps) = (let (w', n, _) = wr w p in take n p @ accepted wr w' ps)"

section \<open>Well-formed digests\<close>

definition supported :: "string \<Rightarrow> bool" where
  "supported alg \<longleftrightarrow> alg = ''sha256'' \<or> alg = ''sha512''"

definition lower_hex :: "string \<Rightarrow> bool" where
  "lower_hex s \<longleftrightarrow> list_all is_hex_char s \<and> to_lower s = s"

text \<open>The digests \<open>ParseDigest\<close> returns, which are the storage keys.\<close>

definition valid_digest :: "digest \<Rightarrow> bool" where
  "valid_digest d \<longleftrightarrow> algorithmHexLength (Algorithm d) = Some (length (Hex d)) \<and> lower_hex (Hex d)"

definition digest_of :: "hash_fun \<Rightarrow> string \<Rightarrow> bytes \<Rightarrow> digest" where
  "digest_of hsum alg b = DigestFromHash alg (hsum alg b)"

definition sum_length :: "hash_fun \<Rightarrow> bool" where
  "sum_length hsum \<longleftrightarrow>
     (\<forall>b. length (hsum ''sha256'' b) = 32) \<and> (\<forall>b. length (hsum ''sha512'' b) = 64)"

text \<open>A function with the lengths of SHA-2, for concrete evaluations.\<close>

definition sample_sum :: hash_fun where
  "sample_sum alg b = replicate (if alg = ''sha256'' then 32 else 64) (fold (+) b 0)"

lemma sample_sum_length: "sum_length sample_sum"
  by (simp add: sum_length_def sample_sum_def)

lemma is_hex_char_lower [simp]: "is_hex_char (lower_char c) \<longleftrightarrow> is_hex_char c"
  by (auto simp: is_hex_char_def is_digit_def lower_char_def is_upper_def char_le_iff of_char_of)

lemma list_all_hex_lower [simp]: "list_all is_hex_char (to_lower s) \<longleftrightarrow> list_all is_hex_char s"
  by (induction s) (simp_all add: to_lower_def)

lemma hex_digit_props:
  "n < 16 \<Longrightarrow> is_hex_char (hex_digit n) \<and> lower_char (hex_digit n) = hex_digit n"
  by (auto simp: hex_digit_def is_hex_char_def is_digit_def lower_char_def is_upper_def
      char_le_iff of_char_of)

lemma hex_digit_inj: "m < 16 \<Longrightarrow> n < 16 \<Longrightarrow> hex_digit m = hex_digit n \<Longrightarrow> m = n"
  by (auto simp: hex_digit_def of_char_of split: if_splits dest!: arg_cong [where f = "of_char :: char \<Rightarrow> nat"])

lemma unat_byte: "unat (b :: 8 word) < 256"
  using unsigned_less [of b] by simp

lemma length_hex_encode [simp]: "length (hex_encode bs) = 2 * length bs"
  by (induction bs) (simp_all add: hex_encode_def hex_byte_def)

lemma lower_hex_encode: "lower_hex (hex_encode bs)"
proof (induction bs)
  case (Cons b bs)
  have "unat b div 16 < 16" "unat b mod 16 < 16" using unat_byte [of b] by auto
  then show ?case using Cons hex_digit_props
    by (auto simp: lower_hex_def hex_encode_def hex_byte_def to_lower_def)
qed (simp add: lower_hex_def hex_encode_def to_lower_def)

lemma hex_byte_inj: "hex_byte a = hex_byte b \<Longrightarrow> a = b"
proof -
  assume "hex_byte a = hex_byte b"
  then have "unat a div 16 = unat b div 16" "unat a mod 16 = unat b mod 16"
    using unat_byte [of a] unat_byte [of b] by (auto simp: hex_byte_def intro!: hex_digit_inj)
  then have "unat a = unat b" by (metis mult_div_mod_eq)
  then show "a = b" by (simp add: word_unat_eq_iff)
qed

lemma hex_encode_inj: "hex_encode as = hex_encode bs \<Longrightarrow> as = bs"
proof (induction as arbitrary: bs)
  case Nil
  then show ?case by (cases bs) (simp_all add: hex_encode_def hex_byte_def)
next
  case (Cons a as)
  then show ?case
    by (cases bs) (auto simp: hex_encode_def hex_byte_def dest!: hex_byte_inj [unfolded hex_byte_def, simplified])
qed

lemma supported_hex_length: "supported alg \<longleftrightarrow> algorithmHexLength alg \<noteq> None"
  by (auto simp: supported_def algorithmHexLength_def)

lemma NewHasher_supported: "NewHasher hsum alg = (if supported alg then Some (hsum alg) else None)"
  by (simp add: NewHasher_def supported_def)

lemma valid_digest_of: "sum_length hsum \<Longrightarrow> supported alg \<Longrightarrow> valid_digest (digest_of hsum alg b)"
  using lower_hex_encode
  by (auto simp: valid_digest_def digest_of_def DigestFromHash_def algorithmHexLength_def
      supported_def sum_length_def)

lemma Algorithm_digest_of [simp]: "Algorithm (digest_of hsum alg b) = alg"
  by (simp add: digest_of_def DigestFromHash_def)

lemma Equal_lower:
  "lower_hex (Hex d) \<Longrightarrow> lower_hex (Hex e) \<Longrightarrow> Equal d e \<longleftrightarrow> d = e"
  by (auto simp: Equal_def lower_hex_def equal_fold_def)

lemma valid_digestD:
  assumes "valid_digest d"
  shows "supported (Algorithm d)" "Hex d \<noteq> []" "length (Hex d) \<ge> 2" "CHR '':'' \<notin> set (Algorithm d)"
    "\<not> IsZero d" "digest_string d = Algorithm d @ '':'' @ Hex d"
  using assms
  by (auto simp: valid_digest_def algorithmHexLength_def supported_def IsZero_def digest_string_def
      split: if_splits)

lemma digest_string_inj: "valid_digest d \<Longrightarrow> valid_digest e \<Longrightarrow> digest_string d = digest_string e \<Longrightarrow> d = e"
proof -
  assume v: "valid_digest d" "valid_digest e" and eq: "digest_string d = digest_string e"
  then have "Algorithm d @ '':'' @ Hex d = Algorithm e @ '':'' @ Hex e"
    by (simp add: valid_digestD(6))
  moreover have "Algorithm d = Algorithm e"
    using calculation valid_digestD(4) [OF v(1)] valid_digestD(4) [OF v(2)]
      index_byte_append [of "CHR '':''" "Algorithm d" "Hex d"]
      index_byte_append [of "CHR '':''" "Algorithm e" "Hex e"]
    by (simp add: append_eq_append_conv)
  ultimately show "d = e" by simp
qed

lemma ParseDigest_valid: "ParseDigest s = Ok d \<Longrightarrow> valid_digest d"
  by (auto simp: ParseDigest_def valid_digest_def lower_hex_def hex_decodes_def Let_def
      split: option.splits if_splits)

lemma ParseDigest_print:
  assumes v: "valid_digest d"
  shows "ParseDigest (digest_string d) = Ok d"
proof -
  note vd = valid_digestD [OF v]
  have idx: "index_byte (digest_string d) CHR '':'' = Some (length (Algorithm d))"
    using vd(4,6) by (simp add: index_byte_append)
  have "length (Algorithm d) > 0" using vd(1) by (auto simp: supported_def)
  moreover have "even (length (Hex d))"
    using v by (auto simp: valid_digest_def algorithmHexLength_def split: if_splits)
  ultimately show ?thesis
    using v vd unfolding ParseDigest_def idx
    by (simp add: valid_digest_def lower_hex_def hex_decodes_def Let_def)
qed

section \<open>Properties\<close>

text \<open>
  Round trip.  Every digest \<open>ParseDigest\<close> accepts is well formed, and printing a well-formed
  digest and parsing it again gives it back; so a storage key is canonical.
\<close>

theorem ParseDigest_roundtrip:
  "(ParseDigest s = Ok d \<longrightarrow> valid_digest d) \<and> (valid_digest d \<longrightarrow> ParseDigest (digest_string d) = Ok d)"
  by (simp add: ParseDigest_valid ParseDigest_print)

theorem ParseDigest_roundtrip_witness:
  "ParseDigest (digest_string \<lparr>Algorithm = ''sha256'', Hex = replicate 64 CHR ''a''\<rparr>) =
     Ok \<lparr>Algorithm = ''sha256'', Hex = replicate 64 CHR ''a''\<rparr>"
proof -
  have "valid_digest \<lparr>Algorithm = ''sha256'', Hex = replicate 64 CHR ''a''\<rparr>" by code_simp
  then show ?thesis using ParseDigest_roundtrip by blast
qed

text \<open>
  Case does not matter.  Two strings that differ only in the case of the hexadecimal part
  parse to the same digest, so a client cannot address one blob under two keys.
\<close>

theorem ParseDigest_case_insensitive:
  assumes "ParseDigest (alg @ '':'' @ hx) = Ok d" and "CHR '':'' \<notin> set alg"
    and "to_lower hx' = to_lower hx"
  shows "ParseDigest (alg @ '':'' @ hx') = Ok d"
proof -
  have len: "length hx' = length hx" using assms(3) length_to_lower by metis
  have "hex_decodes hx' = hex_decodes hx"
    using len assms(3) list_all_hex_lower by (metis hex_decodes_def)
  with assms len show ?thesis
    by (auto simp: ParseDigest_def index_byte_append Let_def split: option.splits if_splits)
qed

theorem ParseDigest_case_insensitive_witness:
  "ParseDigest (''sha256'' @ '':'' @ replicate 64 CHR ''A'') =
     Ok \<lparr>Algorithm = ''sha256'', Hex = replicate 64 CHR ''a''\<rparr>"
proof -
  have h: "ParseDigest (''sha256'' @ '':'' @ replicate 64 CHR ''a'') =
      Ok \<lparr>Algorithm = ''sha256'', Hex = replicate 64 CHR ''a''\<rparr>" by code_simp
  have c: "CHR '':'' \<notin> set ''sha256''" by simp
  have l: "to_lower (replicate 64 CHR ''A'') = to_lower (replicate 64 CHR ''a'')" by code_simp
  show ?thesis using ParseDigest_case_insensitive [OF h c l] .
qed

lemma hw_writes_hashed:
  assumes "\<And>w p w' n f. wr w p = (w', n, f) \<Longrightarrow> n \<le> length p"
  shows "hw_hashed (hw_writes wr hw ps) = hw_hashed hw @ accepted wr (hw_w hw) ps
    \<and> hw_n (hw_writes wr hw ps) = hw_n hw + length (accepted wr (hw_w hw) ps)
    \<and> hw_alg (hw_writes wr hw ps) = hw_alg hw"
proof (induction ps arbitrary: hw)
  case (Cons p ps)
  obtain w' n f where wr: "wr (hw_w hw) p = (w', n, f)" by (cases "wr (hw_w hw) p")
  with assms have "n \<le> length p" by blast
  with wr Cons show ?case by (auto simp: hw_Write_def Let_def)
qed simp

text \<open>
  A short write never poisons the digest.  After any sequence of writes through a
  \<open>HashingWriter\<close>, whatever the wrapped writer accepted of each, the digest is that of exactly the
  accepted bytes and \<open>BytesWritten\<close> is their number.
\<close>

theorem HashingWriter_digest:
  assumes "\<And>w p w' n f. wr w p = (w', n, f) \<Longrightarrow> n \<le> length p"
    and "NewHashingWriter hsum w alg = Some hw"
  shows "hw_Digest hsum (hw_writes wr hw ps) = digest_of hsum alg (accepted wr w ps)
    \<and> hw_n (hw_writes wr hw ps) = length (accepted wr w ps)"
  using hw_writes_hashed [of wr hw ps] assms
  by (auto simp: NewHashingWriter_def hw_Digest_def digest_of_def split: option.splits)

theorem HashingWriter_digest_witness:
  "let wr = (\<lambda>w p. (w @ take 1 p, min 1 (length p), False)) :: bytes \<Rightarrow> bytes \<Rightarrow> bytes \<times> nat \<times> bool;
       hsum = (\<lambda>alg b. b) :: hash_fun;
       hw = \<lparr>hw_w = [], hw_hashed = [], hw_alg = ''sha256'', hw_n = 0\<rparr>
   in hw_Digest hsum (hw_writes wr hw [[1, 2], [3]]) = digest_of hsum ''sha256'' [1, 3]"
proof -
  let ?wr = "(\<lambda>w p. (w @ take 1 p, min 1 (length p), False)) :: bytes \<Rightarrow> bytes \<Rightarrow> bytes \<times> nat \<times> bool"
  let ?hsum = "(\<lambda>alg b. b) :: hash_fun"
  let ?hw = "\<lparr>hw_w = [], hw_hashed = [], hw_alg = ''sha256'', hw_n = 0\<rparr> :: bytes hashing_writer"
  have w: "\<And>w p w' n f. ?wr w p = (w', n, f) \<Longrightarrow> n \<le> length p" by auto
  have n: "NewHashingWriter ?hsum [] ''sha256'' = Some ?hw"
    by (simp add: NewHashingWriter_def NewHasher_def)
  have a: "accepted ?wr [] [[1, 2], [3]] = [1, 3]" by simp
  have "hw_Digest ?hsum (hw_writes ?wr ?hw [[1, 2], [3]]) = digest_of ?hsum ''sha256'' (accepted ?wr [] [[1, 2], [3]])
      \<and> hw_n (hw_writes ?wr ?hw [[1, 2], [3]]) = length (accepted ?wr [] [[1, 2], [3]])"
    by (rule HashingWriter_digest [OF w n])
  then show ?thesis unfolding a Let_def by (rule conjunct1)
qed

end
