(* ===== verification/Json.thy ===== *)
theory Json
  imports Go_Prelude
begin

text \<open>
  Decoded JSON values, as \<open>encoding/json\<close> puts them into \<open>any\<close>: the shape in which manifests, token
  claims and package metadata are read.
\<close>

datatype json = JNull | JBool bool | JNum string | JStr string | JArr "json list"
  | JObj "(string \<times> json) list"

fun json_field :: "json \<Rightarrow> string \<Rightarrow> json option" where
  "json_field (JObj kvs) k = map_of kvs k"
| "json_field _ k = None"

end
