(* ===== verification/Raw_FS.thy ===== *)
theory Raw_FS
  imports Go_Prelude
begin

text \<open>
  Raw file systems (the interface of \<open>internal/rawfs/rawfs.go\<close>).  A raw file system is the list of its files, each with its
  path as a list of segments below the root; a directory is there when a file is below it.
\<close>

section \<open>Raw file systems\<close>

record rfile =
  rf_data :: string
  rf_mtime :: unix_time

type_synonym path = "string list"
type_synonym rawfs = "(path \<times> rfile) list"

definition fs_read :: "rawfs \<Rightarrow> path \<Rightarrow> rfile option" where
  "fs_read fs p = map_of fs p"

definition fs_write :: "rawfs \<Rightarrow> path \<Rightarrow> string \<Rightarrow> unix_time \<Rightarrow> rawfs" where
  "fs_write fs p body now = (p, \<lparr>rf_data = body, rf_mtime = now\<rparr>) # filter (\<lambda>x. fst x \<noteq> p) fs"

definition fs_delete :: "rawfs \<Rightarrow> path \<Rightarrow> rawfs" where
  "fs_delete fs p = filter (\<lambda>x. fst x \<noteq> p) fs"

text \<open>The files directly in a directory, and the directories directly in it, without repetition.\<close>

definition dir_files :: "rawfs \<Rightarrow> path \<Rightarrow> string list" where
  "dir_files fs d = remdups (List.map_filter (\<lambda>(p, _).
     if length p = Suc (length d) \<and> take (length d) p = d then Some (p ! length d) else None) fs)"

definition dir_dirs :: "rawfs \<Rightarrow> path \<Rightarrow> string list" where
  "dir_dirs fs d = remdups (List.map_filter (\<lambda>(p, _).
     if length p > Suc (length d) \<and> take (length d) p = d then Some (p ! length d) else None) fs)"

definition path_exists :: "rawfs \<Rightarrow> path \<Rightarrow> bool" where
  "path_exists fs d \<longleftrightarrow> list_ex (\<lambda>(p, _). take (length d) p = d) fs"

section \<open>Facts\<close>

lemma fs_read_write [simp]:
  "fs_read (fs_write fs p b t) q = (if q = p then Some \<lparr>rf_data = b, rf_mtime = t\<rparr> else fs_read fs q)"
  by (auto simp: fs_read_def fs_write_def map_of_filter_in map_of_eq_None_iff)
     (induction fs, auto)

lemma fs_read_delete [simp]: "fs_read (fs_delete fs p) q = (if q = p then None else fs_read fs q)"
  by (induction fs) (auto simp: fs_read_def fs_delete_def)

lemma fs_read_mem: "fs_read fs p = Some f \<Longrightarrow> (p, f) \<in> set fs"
  by (simp add: fs_read_def map_of_SomeD)

lemma take_eq_iff: "take (length d) p = d \<longleftrightarrow> (\<exists>rest. p = d @ rest)"
  by (metis append_eq_conv_conj)

lemma path_exists_iff: "path_exists fs d \<longleftrightarrow> (\<exists>rest. d @ rest \<in> fst ` set fs)"
proof -
  have "path_exists fs d \<longleftrightarrow> (\<exists>x\<in>set fs. take (length d) (fst x) = d)"
    by (simp add: path_exists_def list_ex_iff case_prod_beta)
  then show ?thesis unfolding take_eq_iff image_iff by metis
qed

lemma dir_dirs_iff: "e \<in> set (dir_dirs fs d) \<longleftrightarrow> (\<exists>rest. rest \<noteq> [] \<and> d @ e # rest \<in> fst ` set fs)"
proof
  assume "e \<in> set (dir_dirs fs d)"
  then obtain p f where p: "(p, f) \<in> set fs" "length p > Suc (length d)" "take (length d) p = d" "p ! length d = e"
    by (auto simp: dir_dirs_def split: if_splits)
  then obtain q where q: "p = d @ q" using take_eq_iff by blast
  with p obtain rest where "q = e # rest" "rest \<noteq> []" by (cases q) auto
  with p q show "\<exists>rest. rest \<noteq> [] \<and> d @ e # rest \<in> fst ` set fs" by force
next
  assume "\<exists>rest. rest \<noteq> [] \<and> d @ e # rest \<in> fst ` set fs"
  then obtain rest f where "rest \<noteq> []" "(d @ e # rest, f) \<in> set fs" by auto
  then show "e \<in> set (dir_dirs fs d)" by (force simp: dir_dirs_def)
qed

lemma dir_files_iff: "e \<in> set (dir_files fs d) \<longleftrightarrow> d @ [e] \<in> fst ` set fs"
proof
  assume "e \<in> set (dir_files fs d)"
  then obtain p f where p: "(p, f) \<in> set fs" "length p = Suc (length d)" "take (length d) p = d" "p ! length d = e"
    by (auto simp: dir_files_def split: if_splits)
  then obtain q where q: "p = d @ q" using take_eq_iff by blast
  with p have "q = [e]" by (cases q) auto
  with p q show "d @ [e] \<in> fst ` set fs" by force
next
  assume "d @ [e] \<in> fst ` set fs"
  then obtain f where "(d @ [e], f) \<in> set fs" by auto
  then show "e \<in> set (dir_files fs d)" by (force simp: dir_files_def)
qed

end
