(* ===== verification/Path_Clean.thy ===== *)
theory Path_Clean
  imports Raw_FS
begin

text \<open>
  Go's package \<open>path\<close> on segment lists: \<open>path.Clean\<close> of a rooted path, which is what every raw file system does with the
  paths it is given (\<open>safePath\<close> in \<open>internal/rawfs/localfs/localfs.go\<close>), and \<open>path.Join\<close>.  Elements may hold slashes
  and dots; a path that climbs above the root stays at the root.
\<close>

section \<open>Cleaning\<close>

text \<open>The segments of \<open>path.Clean\<close> of a rooted path.\<close>

definition abs_step :: "path \<Rightarrow> string \<Rightarrow> path" where
  "abs_step acc seg = (if seg = [] \<or> seg = ''.'' then acc else if seg = ''..'' then butlast acc else acc @ [seg])"

definition clean_abs :: "string \<Rightarrow> path" where
  "clean_abs p = foldl abs_step [] (split_on CHR ''/'' p)"

text \<open>\<open>path.Join\<close> of relative elements; the empty result stands for the dot.\<close>

definition rel_step :: "path \<Rightarrow> string \<Rightarrow> path" where
  "rel_step acc seg =
     (if seg = [] \<or> seg = ''.'' then acc
      else if seg = ''..'' then (if acc = [] \<or> last acc = ''..'' then acc @ [''..''] else butlast acc)
      else acc @ [seg])"

definition path_join :: "string list \<Rightarrow> string" where
  "path_join parts = join_on CHR ''/'' (foldl rel_step [] (concat (map (split_on CHR ''/'') parts)))"

section \<open>Clean segments\<close>

definition segment_ok :: "string \<Rightarrow> bool" where
  "segment_ok seg \<longleftrightarrow> seg \<noteq> [] \<and> seg \<noteq> ''.'' \<and> seg \<noteq> ''..'' \<and> CHR ''/'' \<notin> set seg"

lemma abs_steps: "list_all segment_ok segs \<Longrightarrow> foldl abs_step acc segs = acc @ segs"
  by (induction segs arbitrary: acc) (auto simp: abs_step_def segment_ok_def)

lemma rel_steps: "list_all segment_ok segs \<Longrightarrow> foldl rel_step acc segs = acc @ segs"
  by (induction segs arbitrary: acc) (auto simp: rel_step_def segment_ok_def)

lemma clean_join: "list_all segment_ok segs \<Longrightarrow> clean_abs (join_on CHR ''/'' segs) = segs"
proof (cases segs)
  case (Cons a b)
  assume ok: "list_all segment_ok segs"
  then have "split_on CHR ''/'' (join_on CHR ''/'' segs) = segs"
    by (intro split_join) (auto simp: Cons segment_ok_def list_all_iff)
  then show ?thesis using ok by (simp add: clean_abs_def abs_steps)
qed (simp add: clean_abs_def abs_step_def)

lemma clean_path_join:
  "list_all segment_ok (concat (map (split_on CHR ''/'') parts)) \<Longrightarrow>
   clean_abs (path_join parts) = concat (map (split_on CHR ''/'') parts)"
  by (simp add: path_join_def rel_steps clean_join)

lemma foldl_abs_no_dots: "''..'' \<notin> set acc \<Longrightarrow> ''..'' \<notin> set (foldl abs_step acc segs)"
  by (induction segs arbitrary: acc) (auto simp: abs_step_def dest: in_set_butlastD)

lemma clean_abs_no_dots: "''..'' \<notin> set (clean_abs p)"
  unfolding clean_abs_def by (rule foldl_abs_no_dots) simp

lemma foldl_abs_ok: "list_all segment_ok acc \<Longrightarrow> list_all (\<lambda>x. CHR ''/'' \<notin> set x) segs \<Longrightarrow> list_all segment_ok (foldl abs_step acc segs)"
proof (induction segs arbitrary: acc)
  case (Cons seg segs)
  have "list_all segment_ok (butlast acc)" using Cons.prems(1) by (meson in_set_butlastD list_all_iff)
  then have "list_all segment_ok (abs_step acc seg)" using Cons.prems segment_ok_def [of seg] by (simp add: abs_step_def)
  then show ?case using Cons.IH Cons.prems(2) by simp
qed simp

lemma clean_abs_ok [simp]: "list_all segment_ok (clean_abs p)"
  unfolding clean_abs_def by (rule foldl_abs_ok) (auto simp: list_all_iff dest: split_on_no_sep)

lemma clean_abs_Nil [simp]: "clean_abs [] = []"
  by (simp add: clean_abs_def abs_step_def)

text \<open>Segments without a slash and without dots are what they are.\<close>

lemma segments_single: "list_all segment_ok segs \<Longrightarrow> concat (map (split_on CHR ''/'') segs) = segs"
  by (induction segs) (auto simp: segment_ok_def split_on_single)

text \<open>A last segment that is neither empty nor a dot ends the cleaned path.\<close>

lemma abs_steps_last: "segment_ok seg \<Longrightarrow> foldl abs_step acc (segs @ [seg]) = foldl abs_step acc segs @ [seg]"
  by (simp add: abs_step_def segment_ok_def)

end
