(* ===== verification/Docker_Store.thy ===== *)
theory Docker_Store
  imports Digest Json Path_Clean
begin

text \<open>
  \<open>internal/registry/docker/\<close>: reference validation (\<open>name.go\<close>), the storage layout
  (\<open>store.go\<close>), the OCI descriptors (\<open>oci.go\<close>) and the operations of a local repository that
  change tags and manifests (\<open>local.go\<close>); the collector is in \<open>Docker_GC\<close>.  The path of a referrers index is cleaned
  as \<open>path.Join\<close> does it: the subject of a pushed manifest is not validated, so it can climb out of its directory.

  Package \<open>encoding/json\<close> is a record of decoders, one per target shape the code decodes into.
\<close>

section \<open>Documents\<close>

record manifest_descriptor =
  md_MediaType :: string
  md_ArtifactType :: string
  md_Digest :: string
  md_Size :: nat

record inspected_manifest =
  im_ArtifactType :: string
  im_Config :: "string option"
  im_Subject :: "string option"

record oci_index =
  oi_SchemaVersion :: int
  oi_MediaType :: string
  oi_Manifests :: "manifest_descriptor list"

record codec =
  j_any :: "string \<Rightarrow> json option"
  j_inspect :: "string \<Rightarrow> inspected_manifest option"
  j_index :: "string \<Rightarrow> oci_index option"
  j_index_out :: "oci_index \<Rightarrow> string"

definition newEmptyReferrersIndex :: oci_index where
  "newEmptyReferrersIndex = \<lparr>oi_SchemaVersion = 2,
     oi_MediaType = ''application/vnd.oci.image.index.v1+json'', oi_Manifests = []\<rparr>"

definition effectiveArtifactType :: "inspected_manifest \<Rightarrow> string" where
  "effectiveArtifactType m =
     (if im_ArtifactType m \<noteq> [] then im_ArtifactType m
      else case im_Config m of
        Some mt \<Rightarrow>
          (if mt = [] then []
           else if mt = ''application/vnd.oci.image.config.v1+json''
                 \<or> mt = ''application/vnd.docker.container.image.v1+json'' then []
           else mt)
      | None \<Rightarrow> [])"

section \<open>Names\<close>

datatype docker_error = ErrNameInvalid | ErrDigestInvalid digest_error | ErrTagUnknown | ErrManifestUnknown
  | ErrTagImmutable | ErrReadOnlyBackend | ErrTagDigest digest_error | ErrDenied | ErrTooLarge

definition is_lower_alnum :: "char \<Rightarrow> bool" where
  "is_lower_alnum c \<longleftrightarrow> is_lower c \<or> is_digit c"

text \<open>
  \<open>repoNameRegexp\<close>, read as an automaton over one path component: runs of lower-case letters and
  digits joined by one dot, one or two underscores, or any number of dashes.
\<close>

datatype comp_state = CStart | CAlnum | CSep | CUnder | CDash

fun comp_step :: "comp_state \<Rightarrow> char \<Rightarrow> comp_state option" where
  "comp_step CStart c = (if is_lower_alnum c then Some CAlnum else None)"
| "comp_step CAlnum c = (if is_lower_alnum c then Some CAlnum
     else if c = CHR ''.'' then Some CSep
     else if c = CHR ''_'' then Some CUnder
     else if c = CHR ''-'' then Some CDash else None)"
| "comp_step CUnder c = (if is_lower_alnum c then Some CAlnum
     else if c = CHR ''_'' then Some CSep else None)"
| "comp_step CDash c = (if is_lower_alnum c then Some CAlnum
     else if c = CHR ''-'' then Some CDash else None)"
| "comp_step CSep c = (if is_lower_alnum c then Some CAlnum else None)"

fun comp_run :: "comp_state \<Rightarrow> string \<Rightarrow> bool" where
  "comp_run q [] = (q = CAlnum)"
| "comp_run q (c # cs) = (case comp_step q c of None \<Rightarrow> False | Some q' \<Rightarrow> comp_run q' cs)"

definition repoNameMatches :: "string \<Rightarrow> bool" where
  "repoNameMatches name \<longleftrightarrow> list_all (comp_run CStart) (split_on CHR ''/'' name)"

definition ValidateRepoName :: "string \<Rightarrow> docker_error option" where
  "ValidateRepoName name =
     (if name = [] then Some ErrNameInvalid
      else if length name > 255 then Some ErrNameInvalid
      else if \<not> repoNameMatches name then Some ErrNameInvalid else None)"

definition IsDigestReference :: "string \<Rightarrow> bool" where
  "IsDigestReference ref \<longleftrightarrow> CHR '':'' \<in> set ref"

definition tag_first :: "char \<Rightarrow> bool" where
  "tag_first c \<longleftrightarrow> is_upper c \<or> is_lower c \<or> is_digit c \<or> c = CHR ''_''"

definition tag_rest :: "char \<Rightarrow> bool" where
  "tag_rest c \<longleftrightarrow> is_upper c \<or> is_lower c \<or> is_digit c \<or> c = CHR ''.'' \<or> c = CHR ''_'' \<or> c = CHR ''-''"

definition ValidateTag :: "string \<Rightarrow> docker_error option" where
  "ValidateTag tag = (case tag of
     [] \<Rightarrow> Some ErrNameInvalid
   | c # cs \<Rightarrow>
       if length tag > 128 then Some ErrNameInvalid
       else if \<not> tag_first c then Some ErrNameInvalid
       else if \<not> list_all tag_rest cs then Some ErrNameInvalid else None)"

section \<open>The store\<close>

record docker_store =
  st_fs :: rawfs
  st_writable :: bool
  st_base :: path

definition store_join :: "docker_store \<Rightarrow> path \<Rightarrow> path" where
  "store_join s parts = st_base s @ parts"

definition repoDir :: "docker_store \<Rightarrow> string \<Rightarrow> path" where
  "repoDir s name = store_join s (''repositories'' # split_on CHR ''/'' name)"

definition manifestPath :: "docker_store \<Rightarrow> string \<Rightarrow> digest \<Rightarrow> path" where
  "manifestPath s name d = repoDir s name @ [''manifests'', digest_string d @ ''.json'']"

definition mediaPath :: "docker_store \<Rightarrow> string \<Rightarrow> digest \<Rightarrow> path" where
  "mediaPath s name d = repoDir s name @ [''manifests'', digest_string d @ ''.json.media'']"

definition tagPath :: "docker_store \<Rightarrow> string \<Rightarrow> string \<Rightarrow> path" where
  "tagPath s name tag = repoDir s name @ [''tags'', tag]"

text \<open>
  The subject comes from the manifest as it was pushed and is not checked: \<open>path.Join\<close> resolves the dots in it, so that
  \<open>../tags/v1\<close> names the tag file \<open>v1.json\<close>.
\<close>

definition referrersIndexPath :: "docker_store \<Rightarrow> string \<Rightarrow> string \<Rightarrow> path" where
  "referrersIndexPath s name subject =
     foldl abs_step (repoDir s name @ [''_referrers'']) (split_on CHR ''/'' (subject @ ''.json''))"

record manifest_record =
  mr_Body :: string
  mr_ContentType :: string
  mr_Digest :: digest

definition put_file :: "docker_store \<Rightarrow> path \<Rightarrow> string \<Rightarrow> unix_time \<Rightarrow> docker_store" where
  "put_file s p body now = s\<lparr>st_fs := fs_write (st_fs s) p body now\<rparr>"

definition drop_file :: "docker_store \<Rightarrow> path \<Rightarrow> docker_store" where
  "drop_file s p = s\<lparr>st_fs := fs_delete (st_fs s) p\<rparr>"

definition WriteManifest ::
  "docker_store \<Rightarrow> string \<Rightarrow> digest \<Rightarrow> string \<Rightarrow> string \<Rightarrow> unix_time \<Rightarrow> docker_store \<times> docker_error option" where
  "WriteManifest s name d body ct now =
     (if \<not> st_writable s then (s, Some ErrReadOnlyBackend)
      else (put_file (put_file s (manifestPath s name d) body now) (mediaPath s name d) ct now, None))"

definition ReadManifest :: "docker_store \<Rightarrow> string \<Rightarrow> digest \<Rightarrow> docker_error + manifest_record" where
  "ReadManifest s name d = (case fs_read (st_fs s) (manifestPath s name d) of
     None \<Rightarrow> Err ErrManifestUnknown
   | Some f \<Rightarrow>
       let ct = (case fs_read (st_fs s) (mediaPath s name d) of
                   Some m \<Rightarrow> if rf_data m \<noteq> [] then trim_space (rf_data m)
                             else ''application/vnd.docker.distribution.manifest.v2+json''
                 | None \<Rightarrow> ''application/vnd.docker.distribution.manifest.v2+json'')
       in Ok \<lparr>mr_Body = rf_data f, mr_ContentType = ct, mr_Digest = d\<rparr>)"

definition DeleteManifest :: "docker_store \<Rightarrow> string \<Rightarrow> digest \<Rightarrow> docker_store \<times> docker_error option" where
  "DeleteManifest s name d =
     (if \<not> st_writable s then (s, Some ErrReadOnlyBackend)
      else case fs_read (st_fs s) (manifestPath s name d) of
        None \<Rightarrow> (s, Some ErrManifestUnknown)
      | Some _ \<Rightarrow> (drop_file (drop_file s (manifestPath s name d)) (mediaPath s name d), None))"

definition ManifestModTime :: "docker_store \<Rightarrow> string \<Rightarrow> digest \<Rightarrow> unix_time" where
  "ManifestModTime s name d = (case fs_read (st_fs s) (manifestPath s name d) of
     None \<Rightarrow> 0 | Some f \<Rightarrow> rf_mtime f)"

definition SetTag ::
  "docker_store \<Rightarrow> string \<Rightarrow> string \<Rightarrow> digest \<Rightarrow> unix_time \<Rightarrow> docker_store \<times> docker_error option" where
  "SetTag s name tag d now =
     (if \<not> st_writable s then (s, Some ErrReadOnlyBackend)
      else (put_file s (tagPath s name tag) (digest_string d) now, None))"

definition ReadTag :: "docker_store \<Rightarrow> string \<Rightarrow> string \<Rightarrow> docker_error + digest" where
  "ReadTag s name tag = (case fs_read (st_fs s) (tagPath s name tag) of
     None \<Rightarrow> Err ErrTagUnknown
   | Some f \<Rightarrow> (case ParseDigest (trim_space (rf_data f)) of
       Inl e \<Rightarrow> Err (ErrTagDigest e) | Inr d \<Rightarrow> Ok d))"

definition DeleteTag :: "docker_store \<Rightarrow> string \<Rightarrow> string \<Rightarrow> docker_store \<times> docker_error option" where
  "DeleteTag s name tag =
     (if \<not> st_writable s then (s, Some ErrReadOnlyBackend)
      else case fs_read (st_fs s) (tagPath s name tag) of
        None \<Rightarrow> (s, Some ErrTagUnknown)
      | Some _ \<Rightarrow> (drop_file s (tagPath s name tag), None))"

definition ListTags :: "docker_store \<Rightarrow> string \<Rightarrow> string list" where
  "ListTags s name = sort (filter (\<lambda>n. n \<noteq> []) (dir_files (st_fs s) (repoDir s name @ [''tags''])))"

definition ReadReferrers :: "codec \<Rightarrow> docker_store \<Rightarrow> string \<Rightarrow> string \<Rightarrow> oci_index" where
  "ReadReferrers c s name subject = (case fs_read (st_fs s) (referrersIndexPath s name subject) of
     None \<Rightarrow> newEmptyReferrersIndex
   | Some f \<Rightarrow> (case j_index c (rf_data f) of None \<Rightarrow> newEmptyReferrersIndex | Some idx \<Rightarrow> idx))"

definition writeReferrers ::
  "codec \<Rightarrow> docker_store \<Rightarrow> string \<Rightarrow> string \<Rightarrow> oci_index \<Rightarrow> unix_time \<Rightarrow> docker_store" where
  "writeReferrers c s name subject idx now =
     put_file s (referrersIndexPath s name subject) (j_index_out c idx) now"

text \<open>The loop of \<open>AddReferrer\<close>: the first entry with the digest is replaced, else the entry is appended.\<close>

fun upsert_referrer :: "manifest_descriptor \<Rightarrow> manifest_descriptor list \<Rightarrow> manifest_descriptor list" where
  "upsert_referrer desc [] = [desc]"
| "upsert_referrer desc (m # ms) =
     (if md_Digest m = md_Digest desc then desc # ms else m # upsert_referrer desc ms)"

definition AddReferrer ::
  "codec \<Rightarrow> docker_store \<Rightarrow> string \<Rightarrow> string \<Rightarrow> manifest_descriptor \<Rightarrow> unix_time \<Rightarrow>
   docker_store \<times> docker_error option" where
  "AddReferrer c s name subject desc now =
     (if \<not> st_writable s then (s, Some ErrReadOnlyBackend)
      else let idx = ReadReferrers c s name subject
           in (writeReferrers c s name subject
                 (idx\<lparr>oi_Manifests := upsert_referrer desc (oi_Manifests idx)\<rparr>) now, None))"

definition RemoveReferrer ::
  "codec \<Rightarrow> docker_store \<Rightarrow> string \<Rightarrow> string \<Rightarrow> string \<Rightarrow> unix_time \<Rightarrow> docker_store \<times> docker_error option" where
  "RemoveReferrer c s name subject referrer now =
     (if \<not> st_writable s then (s, Some ErrReadOnlyBackend)
      else let idx = ReadReferrers c s name subject;
               out = filter (\<lambda>m. md_Digest m \<noteq> referrer) (oi_Manifests idx)
           in if out = [] then (drop_file s (referrersIndexPath s name subject), None)
              else (writeReferrers c s name subject (idx\<lparr>oi_Manifests := out\<rparr>) now, None))"

definition DeleteReferrersIndex :: "docker_store \<Rightarrow> string \<Rightarrow> string \<Rightarrow> docker_store \<times> docker_error option" where
  "DeleteReferrersIndex s name subject =
     (if \<not> st_writable s then (s, Some ErrReadOnlyBackend)
      else (drop_file s (referrersIndexPath s name subject), None))"

text \<open>
  \<open>walkRepos\<close> descends until a directory has \<open>tags\<close> or \<open>manifests\<close>.  The fuel is the depth left;
  the longest path bounds the depth of the tree.
\<close>

fun walkRepos :: "nat \<Rightarrow> rawfs \<Rightarrow> path \<Rightarrow> string \<Rightarrow> string list" where
  "walkRepos 0 fs dir prefix = []"
| "walkRepos (Suc n) fs dir prefix = concat (map (\<lambda>e.
     let name = (if prefix \<noteq> [] then prefix @ ''/'' @ e else e)
     in if path_exists fs (dir @ [e, ''tags'']) then [name]
        else if path_exists fs (dir @ [e, ''manifests'']) then [name]
        else walkRepos n fs (dir @ [e]) name) (dir_dirs fs dir))"

definition max_depth :: "rawfs \<Rightarrow> nat" where
  "max_depth fs = fold max (map (length \<circ> fst) fs) 0"

definition ListRepositories :: "docker_store \<Rightarrow> string list" where
  "ListRepositories s = sort (walkRepos (Suc (max_depth (st_fs s))) (st_fs s) (store_join s [''repositories'']) [])"

lemmas [gc_simps] = fs_read_def fs_write_def fs_delete_def put_file_def drop_file_def

section \<open>Facts about paths\<close>

lemma st_fields [simp]:
  "st_writable (put_file s p b t) = st_writable s" "st_base (put_file s p b t) = st_base s"
  "st_writable (drop_file s p) = st_writable s" "st_base (drop_file s p) = st_base s"
  "st_fs (put_file s p b t) = fs_write (st_fs s) p b t" "st_fs (drop_file s p) = fs_delete (st_fs s) p"
  by (simp_all add: put_file_def drop_file_def)

lemma paths_cong:
  assumes "st_base s' = st_base s"
  shows "repoDir s' = repoDir s" "manifestPath s' = manifestPath s" "mediaPath s' = mediaPath s"
    "tagPath s' = tagPath s" "referrersIndexPath s' = referrersIndexPath s"
  using assms by (simp_all add: repoDir_def store_join_def manifestPath_def mediaPath_def tagPath_def
      referrersIndexPath_def fun_eq_iff)

lemma paths_file [simp]:
  "repoDir (put_file s p b t) = repoDir s" "manifestPath (put_file s p b t) = manifestPath s"
  "mediaPath (put_file s p b t) = mediaPath s" "tagPath (put_file s p b t) = tagPath s"
  "referrersIndexPath (put_file s p b t) = referrersIndexPath s"
  "repoDir (drop_file s p) = repoDir s" "manifestPath (drop_file s p) = manifestPath s"
  "mediaPath (drop_file s p) = mediaPath s" "tagPath (drop_file s p) = tagPath s"
  "referrersIndexPath (drop_file s p) = referrersIndexPath s"
  by (rule paths_cong, simp)+

lemma split_on_inj: "split_on c a = split_on c b \<longleftrightarrow> a = b"
  by (metis join_split)

lemma repoDir_inj [simp]: "repoDir s a = repoDir s b \<longleftrightarrow> a = b"
  by (simp add: repoDir_def store_join_def split_on_inj)

lemma json_suffix: "a @ ''.json'' \<noteq> b @ ''.json.media''"
proof
  assume "a @ ''.json'' = b @ ''.json.media''"
  then have "last (a @ ''.json'') = last (b @ ''.json.media'')" by simp
  then show False by simp
qed

lemma two_snoc: "xs @ [a, b] = ys @ [c, d] \<longleftrightarrow> xs = ys \<and> a = c \<and> b = d"
  by (metis append_eq_append_conv append_same_eq length_Cons list.inject)

lemma path_classes [simp]:
  "manifestPath s n d \<noteq> mediaPath s n' d'" "mediaPath s n' d' \<noteq> manifestPath s n d"
  "manifestPath s n d \<noteq> tagPath s n' t" "tagPath s n' t \<noteq> manifestPath s n d"
  "mediaPath s n d \<noteq> tagPath s n' t" "tagPath s n' t \<noteq> mediaPath s n d"
  by (simp_all add: manifestPath_def mediaPath_def tagPath_def two_snoc json_suffix json_suffix[symmetric])

text \<open>A subject that is a plain name, as every digest is, keeps its index among the referrers of the repository.\<close>

definition plain_subject :: "string \<Rightarrow> bool" where
  "plain_subject x \<longleftrightarrow> CHR ''/'' \<notin> set x"

lemma plain_index:
  assumes "plain_subject x"
  shows "referrersIndexPath s n x = repoDir s n @ [''_referrers'', x @ ''.json'']"
proof -
  have "segment_ok (x @ ''.json'')" using assms by (cases x) (auto simp: segment_ok_def plain_subject_def)
  then have "list_all segment_ok [x @ ''.json'']" by simp
  then show ?thesis using assms abs_steps [of "[x @ ''.json'']" "repoDir s n @ [''_referrers'']"]
    by (simp add: referrersIndexPath_def plain_subject_def split_on_single)
qed

lemma index_classes:
  "plain_subject x \<Longrightarrow> referrersIndexPath s n x \<noteq> tagPath s n' t"
  "plain_subject x \<Longrightarrow> referrersIndexPath s n x \<noteq> manifestPath s n' d"
  "plain_subject x \<Longrightarrow> referrersIndexPath s n x \<noteq> mediaPath s n' d"
  by (simp_all add: plain_index manifestPath_def mediaPath_def tagPath_def two_snoc)

lemma parse_plain: "ParseDigest x = Ok d \<Longrightarrow> plain_subject x"
proof -
  assume p: "ParseDigest x = Ok d"
  then obtain idx where i: "index_byte x CHR '':'' = Some idx" by (auto simp: ParseDigest_def split: option.splits)
  then have x: "x = take idx x @ CHR '':'' # drop (Suc idx) x" using index_byte_Some [OF i] id_take_nth_drop by metis
  have "take idx x = ''sha256'' \<or> take idx x = ''sha512''" "list_all is_hex_char (drop (Suc idx) x)"
    using p i by (auto simp: ParseDigest_def algorithmHexLength_def hex_decodes_def Let_def split: if_splits option.splits)
  then have "CHR ''/'' \<notin> set (take idx x)" "CHR ''/'' \<notin> set (drop (Suc idx) x)"
    by (auto simp: list_all_iff is_hex_char_def is_digit_def)
  then show ?thesis unfolding plain_subject_def by (subst x) simp
qed

lemma digest_plain: "valid_digest d \<Longrightarrow> plain_subject (digest_string d)"
  using parse_plain ParseDigest_print by blast

text \<open>A subject that climbs once and goes on with clean segments.\<close>

lemma climbing_index:
  assumes "list_all segment_ok (split_on CHR ''/'' (x @ ''.json''))"
  shows "referrersIndexPath s n (''../'' @ x) = repoDir s n @ split_on CHR ''/'' (x @ ''.json'')"
proof -
  have "split_on CHR ''/'' (''..'' @ CHR ''/'' # (x @ ''.json'')) = ''..'' # split_on CHR ''/'' (x @ ''.json'')"
    by (rule split_on_append) simp
  then show ?thesis using abs_steps [OF assms] by (simp add: referrersIndexPath_def abs_step_def)
qed

lemma path_inj [simp]:
  "tagPath s n t = tagPath s n' t' \<longleftrightarrow> n = n' \<and> t = t'"
  "manifestPath s n d = manifestPath s n' d' \<longleftrightarrow> n = n' \<and> digest_string d = digest_string d'"
  "mediaPath s n d = mediaPath s n' d' \<longleftrightarrow> n = n' \<and> digest_string d = digest_string d'"
  by (auto simp: tagPath_def manifestPath_def mediaPath_def two_snoc)

lemma ReadManifest_Ok:
  assumes "ReadManifest s name d = Ok r"
  obtains f where "fs_read (st_fs s) (manifestPath s name d) = Some f" "mr_Body r = rf_data f"
  using assms by (auto simp: ReadManifest_def Let_def split: option.splits)

lemma ReadManifest_cong:
  assumes "st_base s' = st_base s"
    "fs_read (st_fs s') (manifestPath s name d) = fs_read (st_fs s) (manifestPath s name d)"
    "fs_read (st_fs s') (mediaPath s name d) = fs_read (st_fs s) (mediaPath s name d)"
  shows "ReadManifest s' name d = ReadManifest s name d"
  unfolding ReadManifest_def paths_cong [OF assms(1)] assms(2,3) ..

lemma ReadTag_cong:
  assumes "st_base s' = st_base s" "fs_read (st_fs s') (tagPath s name t) = fs_read (st_fs s) (tagPath s name t)"
  shows "ReadTag s' name t = ReadTag s name t"
  unfolding ReadTag_def paths_cong [OF assms(1)] assms(2) ..

section \<open>Which repositories are listed\<close>

text \<open>A file system whose path segments are neither empty nor contain a slash.\<close>

definition fs_ok :: "rawfs \<Rightarrow> bool" where
  "fs_ok fs \<longleftrightarrow> (\<forall>x\<in>set fs. \<forall>seg\<in>set (fst x). seg \<noteq> [] \<and> CHR ''/'' \<notin> set seg)"

definition leaf :: "rawfs \<Rightarrow> path \<Rightarrow> bool" where
  "leaf fs d \<longleftrightarrow> path_exists fs (d @ [''tags'']) \<or> path_exists fs (d @ [''manifests''])"

lemma ListTags_iff: "t \<in> set (ListTags s name) \<longleftrightarrow> t \<noteq> [] \<and> fs_read (st_fs s) (tagPath s name t) \<noteq> None"
  by (auto simp: ListTags_def dir_files_iff fs_read_def map_of_eq_None_iff tagPath_def)

lemma leaf_dir: "leaf fs (d @ e # segs) \<Longrightarrow> e \<in> set (dir_dirs fs d)"
  unfolding leaf_def path_exists_iff dir_dirs_iff by (metis append_Cons append_assoc append_is_Nil_conv list.distinct(1))

lemma join_on_Nil: "[] \<notin> set pre \<Longrightarrow> join_on c pre = [] \<longleftrightarrow> pre = []"
  by (induction c pre rule: join_on.induct) auto

lemma join_on_snoc: "[] \<notin> set pre \<Longrightarrow>
   (if join_on c pre \<noteq> [] then join_on c pre @ [c] @ e else e) = join_on c (pre @ [e])"
proof (induction c pre rule: join_on.induct)
  case (3 c x y ys)
  then show ?case using join_on_Nil [of "y # ys" c] by (cases "ys") auto
qed auto

text \<open>The walk from \<open>dir\<close> along \<open>segs\<close> stops at the end of \<open>segs\<close> and not before.\<close>

fun topmost :: "rawfs \<Rightarrow> path \<Rightarrow> string list \<Rightarrow> bool" where
  "topmost fs dir [] = False"
| "topmost fs dir (e # segs) =
     (if segs = [] then leaf fs (dir @ [e]) else \<not> leaf fs (dir @ [e]) \<and> topmost fs (dir @ [e]) segs)"

lemma topmost_iff:
  "topmost fs dir segs \<longleftrightarrow> segs \<noteq> [] \<and> leaf fs (dir @ segs) \<and>
   (\<forall>k. 0 < k \<longrightarrow> k < length segs \<longrightarrow> \<not> leaf fs (dir @ take k segs))"
proof (induction fs dir segs rule: topmost.induct)
  case (2 fs dir e segs)
  have "(\<forall>k. 0 < k \<longrightarrow> k < Suc (length segs) \<longrightarrow> \<not> leaf fs (dir @ take k (e # segs))) \<longleftrightarrow>
      (segs \<noteq> [] \<longrightarrow> \<not> leaf fs (dir @ [e])) \<and> (\<forall>k. 0 < k \<longrightarrow> k < length segs \<longrightarrow> \<not> leaf fs (dir @ e # take k segs))"
    (is "?L \<longleftrightarrow> ?R")
  proof
    assume l: ?L
    show ?R using l [rule_format, of 1] l [rule_format, of "Suc _"] by auto
  next
    assume r: ?R
    have "\<not> leaf fs (dir @ take k (e # segs))" if "0 < k" "k < Suc (length segs)" for k
      using r that by (cases k; cases "k = 1") auto
    then show ?L by blast
  qed
  with 2 show ?case by auto
qed simp

lemma walkRepos_iff:
  assumes "fs_ok fs" "[] \<notin> set pre"
  shows "x \<in> set (walkRepos n fs dir (join_on CHR ''/'' pre)) \<longleftrightarrow>
    (\<exists>segs. length segs \<le> n \<and> x = join_on CHR ''/'' (pre @ segs) \<and> topmost fs dir segs)"
  using assms(2)
proof (induction n arbitrary: dir pre)
  case (Suc n)
  have walk: "x \<in> set (walkRepos (Suc n) fs dir (join_on CHR ''/'' pre)) \<longleftrightarrow> (\<exists>e\<in>set (dir_dirs fs dir).
      if leaf fs (dir @ [e]) then x = join_on CHR ''/'' (pre @ [e])
      else x \<in> set (walkRepos n fs (dir @ [e]) (join_on CHR ''/'' (pre @ [e]))))"
    using join_on_snoc [OF Suc.prems, of "CHR ''/''"] by (auto simp: leaf_def Let_def split: if_splits)
  have sub: "x \<in> set (walkRepos n fs (dir @ [e]) (join_on CHR ''/'' (pre @ [e]))) \<longleftrightarrow>
      (\<exists>segs. length segs \<le> n \<and> x = join_on CHR ''/'' (pre @ e # segs) \<and> topmost fs (dir @ [e]) segs)"
    if "e \<in> set (dir_dirs fs dir)" for e
  proof -
    have "e \<noteq> []" using that assms(1) by (fastforce simp: fs_ok_def dir_dirs_iff)
    then have "[] \<notin> set (pre @ [e])" using Suc.prems by auto
    from Suc.IH [OF this] show ?thesis by simp
  qed
  show ?case
  proof
    assume "x \<in> set (walkRepos (Suc n) fs dir (join_on CHR ''/'' pre))"
    then obtain e where e: "e \<in> set (dir_dirs fs dir)" "if leaf fs (dir @ [e]) then x = join_on CHR ''/'' (pre @ [e])
      else x \<in> set (walkRepos n fs (dir @ [e]) (join_on CHR ''/'' (pre @ [e])))" using walk by blast
    show "\<exists>segs. length segs \<le> Suc n \<and> x = join_on CHR ''/'' (pre @ segs) \<and> topmost fs dir segs"
    proof (cases "leaf fs (dir @ [e])")
      case True
      with e show ?thesis by (intro exI [of _ "[e]"]) simp
    next
      case False
      with e sub obtain segs where "length segs \<le> n" "x = join_on CHR ''/'' (pre @ e # segs)" "topmost fs (dir @ [e]) segs"
        by auto
      with False show ?thesis by (intro exI [of _ "e # segs"]) auto
    qed
  next
    assume "\<exists>segs. length segs \<le> Suc n \<and> x = join_on CHR ''/'' (pre @ segs) \<and> topmost fs dir segs"
    then obtain e segs where r: "length segs \<le> n" "x = join_on CHR ''/'' (pre @ e # segs)" "topmost fs dir (e # segs)"
      by (metis Suc_le_mono length_Cons topmost.elims(2))
    have "e \<in> set (dir_dirs fs dir)" using r(3) by (intro leaf_dir [of _ _ _ segs]) (simp only: topmost_iff)
    with r sub show "x \<in> set (walkRepos (Suc n) fs dir (join_on CHR ''/'' pre))"
      unfolding walk by (intro bexI [of _ e]) (auto split: if_splits)
  qed
qed (auto elim: topmost.elims)

lemma max_depth_ge: "x \<in> set fs \<Longrightarrow> length (fst x) \<le> max_depth fs"
proof -
  have base: "a \<le> fold max ys a" for ys and a :: nat
    by (induction ys arbitrary: a) (auto intro: order_trans [OF max.cobounded2])
  have "y \<in> set ys \<Longrightarrow> y \<le> fold max ys a" for y ys and a :: nat
    by (induction ys arbitrary: a) (auto intro: order_trans [OF max.cobounded1 base])
  then show "x \<in> set fs \<Longrightarrow> length (fst x) \<le> max_depth fs"
    by (auto simp: max_depth_def)
qed

text \<open>
  A repository is listed exactly when it has a \<open>tags\<close> or \<open>manifests\<close> directory and no repository
  contains it: the walk stops at the first directory that looks like a repository, so \<open>team/app\<close> is
  not listed once \<open>team\<close> has an image of its own.
\<close>

theorem ListRepositories_exact:
  assumes "fs_ok (st_fs s)"
  shows "name \<in> set (ListRepositories s) \<longleftrightarrow> leaf (st_fs s) (repoDir s name) \<and>
    (\<forall>k. 0 < k \<longrightarrow> k < length (split_on CHR ''/'' name) \<longrightarrow>
      \<not> leaf (st_fs s) (store_join s (''repositories'' # take k (split_on CHR ''/'' name))))"
proof -
  let ?dir = "store_join s [''repositories'']" and ?segs = "split_on CHR ''/'' name"
  have "name \<in> set (ListRepositories s) \<longleftrightarrow>
      (\<exists>segs. length segs \<le> Suc (max_depth (st_fs s)) \<and> name = join_on CHR ''/'' segs \<and> topmost (st_fs s) ?dir segs)"
    using walkRepos_iff [OF assms, of "[]" name "Suc (max_depth (st_fs s))" ?dir] by (simp add: ListRepositories_def)
  also have "\<dots> \<longleftrightarrow> topmost (st_fs s) ?dir ?segs" (is "?L \<longleftrightarrow> ?R")
  proof -
    have bounded: "length segs \<le> Suc (max_depth (st_fs s)) \<and> (\<forall>seg\<in>set segs. CHR ''/'' \<notin> set seg)"
      if "topmost (st_fs s) ?dir segs" for segs
    proof -
      from that obtain x rest where x: "x \<in> set (st_fs s)" "fst x = ?dir @ segs @ rest"
        by (auto simp: topmost_iff leaf_def path_exists_iff image_iff)
      then show ?thesis using max_depth_ge [OF x(1)] assms by (fastforce simp: fs_ok_def)
    qed
    show ?thesis
    proof
      assume ?L
      then obtain segs where t: "topmost (st_fs s) ?dir segs" "name = join_on CHR ''/'' segs" by blast
      then have "?segs = segs" using bounded [OF t(1)] by (auto intro!: split_join simp: topmost_iff)
      with t show ?R by simp
    qed (use bounded in force)
  qed
  finally show ?thesis by (simp add: topmost_iff repoDir_def store_join_def)
qed

definition nested_fs :: rawfs where
  "nested_fs = map (\<lambda>(p, b). (''repositories'' # p, \<lparr>rf_data = b, rf_mtime = 0\<rparr>))
     [([''team'', ''tags'', ''v1''], ''x''), ([''team'', ''app'', ''tags'', ''v1''], ''x''),
      ([''lib'', ''app'', ''tags'', ''v1''], ''x'')]"

definition nested_store :: docker_store where
  "nested_store = \<lparr>st_fs = nested_fs, st_writable = True, st_base = []\<rparr>"

theorem ListRepositories_exact_witness:
  "fs_ok (st_fs nested_store) \<and> ''team'' \<in> set (ListRepositories nested_store) \<and>
   ''lib/app'' \<in> set (ListRepositories nested_store) \<and> ''team/app'' \<notin> set (ListRepositories nested_store)"
proof -
  have ok: "fs_ok (st_fs nested_store)" by code_simp
  have l: "leaf (st_fs nested_store) (repoDir nested_store ''team'')" "leaf (st_fs nested_store) (repoDir nested_store ''lib/app'')"
    "leaf (st_fs nested_store) (store_join nested_store [''repositories'', ''team''])"
    "\<not> leaf (st_fs nested_store) (store_join nested_store [''repositories'', ''lib''])" by code_simp+
  have sp: "split_on CHR ''/'' ''team'' = [''team'']" "split_on CHR ''/'' ''lib/app'' = [''lib'', ''app'']"
    "split_on CHR ''/'' ''team/app'' = [''team'', ''app'']" by simp_all
  have one: "0 < k \<and> k < Suc (Suc 0) \<longleftrightarrow> k = 1" for k by auto
  show ?thesis
    unfolding ListRepositories_exact [OF ok] sp using ok l
    by (simp add: imp_conjL [symmetric] one del: imp_conjL)
qed

end
