(* ===== verification/Blob_Store.thy ===== *)
theory Blob_Store
  imports Digest
begin

text \<open>
  \<open>internal/registry/blobstore/blobstore.go\<close>: the contract of a content-addressable store as a
  locale, with what every client of the interface can rely on proved once.  The stores that
  implement it are in \<open>Mem_Blob\<close> and \<open>Local_Blob\<close>.

  An upload session is an object a client keeps a reference to, so a store's operations take
  a handle; the session table maps session ids to handles.  Random ids and the clock are
  arguments.
\<close>

datatype blob_error =
    ErrNotFound
  | ErrDigestMismatch digest
  | ErrSessionLost digest
  | ErrSessionNotFound
  | ErrSessionClosed
  | ErrReadOnly
  | ErrHasher
  | ErrRandom
  | ErrIO
  | Panic

record blob_info =
  bi_Digest :: digest
  bi_Size :: nat
  bi_ModTime :: "unix_time"

text \<open>
  The interface.  \<open>blobs_of\<close> is what \<open>Get\<close> serves and \<open>open_of\<close> the bytes received so far by each
  session that is neither committed nor cancelled.
\<close>

locale blob_store =
  fixes hsum :: hash_fun
    and invar :: "'s \<Rightarrow> bool"
    and blobs_of :: "'s \<Rightarrow> digest \<Rightarrow> bytes option"
    and open_of :: "'s \<Rightarrow> nat \<Rightarrow> bytes option"
    and get :: "'s \<Rightarrow> digest \<Rightarrow> blob_error + bytes"
    and delete :: "'s \<Rightarrow> digest \<Rightarrow> 's \<times> (blob_error + unit)"
    and start :: "'s \<Rightarrow> string \<Rightarrow> 's \<times> (blob_error + nat)"
    and "write" :: "'s \<Rightarrow> nat \<Rightarrow> bytes \<Rightarrow> 's \<times> (blob_error + nat)"
    and commit :: "'s \<Rightarrow> nat \<Rightarrow> digest \<Rightarrow> unix_time \<Rightarrow> 's \<times> (blob_error + digest)"
    and cancel :: "'s \<Rightarrow> nat \<Rightarrow> 's"
  assumes sum_len: "invar s \<Longrightarrow> sum_length hsum"
    and get_law: "invar s \<Longrightarrow> valid_digest d \<Longrightarrow>
      get s d = (case blobs_of s d of None \<Rightarrow> Err ErrNotFound | Some b \<Rightarrow> Ok b)"
    and start_law: "invar s \<Longrightarrow> start s i = (s', Ok h) \<Longrightarrow>
      invar s' \<and> open_of s h = None \<and> open_of s' = (open_of s)(h \<mapsto> []) \<and> blobs_of s' = blobs_of s"
    and write_law: "invar s \<Longrightarrow> open_of s h = Some b \<Longrightarrow>
      \<exists>s'. write s h p = (s', Ok (length p)) \<and> invar s' \<and>
        open_of s' = (open_of s)(h \<mapsto> b @ p) \<and> blobs_of s' = blobs_of s"
    and write_closed: "invar s \<Longrightarrow> open_of s h = None \<Longrightarrow> write s h p = (s, Err ErrSessionClosed)"
    and commit_law: "invar s \<Longrightarrow> open_of s h = Some b \<Longrightarrow> supported alg \<Longrightarrow>
      \<exists>s'. commit s h (digest_of hsum alg b) now = (s', Ok (digest_of hsum alg b)) \<and> invar s' \<and>
        open_of s' = (open_of s)(h := None) \<and>
        (\<forall>e. valid_digest e \<longrightarrow> blobs_of s' e = ((blobs_of s)(digest_of hsum alg b \<mapsto> b)) e)"
    and commit_mismatch: "invar s \<Longrightarrow> open_of s h = Some b \<Longrightarrow> valid_digest d \<Longrightarrow>
      d \<noteq> digest_of hsum (Algorithm d) b \<Longrightarrow>
      commit s h d now = (s, Err (ErrDigestMismatch (digest_of hsum (Algorithm d) b)))"
    and commit_closed: "invar s \<Longrightarrow> open_of s h = None \<Longrightarrow> commit s h d now = (s, Err ErrSessionClosed)"
    and cancel_law: "invar s \<Longrightarrow>
      invar (cancel s h) \<and> open_of (cancel s h) = (open_of s)(h := None) \<and> blobs_of (cancel s h) = blobs_of s"
    and delete_law: "invar s \<Longrightarrow> valid_digest d \<Longrightarrow> delete s d = (s', r) \<Longrightarrow>
      invar s' \<and> open_of s' = open_of s \<and>
      (\<forall>e. valid_digest e \<longrightarrow> blobs_of s' e = ((blobs_of s)(d := None)) e) \<and>
      r = (if blobs_of s d = None then Err ErrNotFound else Ok ())"
begin

text \<open>Writing a list of chunks; the first error stops, as a client's loop does.\<close>

fun write_all :: "'s \<Rightarrow> nat \<Rightarrow> bytes list \<Rightarrow> 's \<times> (blob_error + unit)" where
  "write_all s h [] = (s, Ok ())"
| "write_all s h (p # ps) = (case write s h p of
     (s', Inl e) \<Rightarrow> (s', Inl e) | (s', Inr _) \<Rightarrow> write_all s' h ps)"

lemma write_all_ok:
  "invar s \<Longrightarrow> open_of s h = Some b \<Longrightarrow>
   \<exists>s'. write_all s h ps = (s', Ok ()) \<and> invar s' \<and>
     open_of s' = (open_of s)(h \<mapsto> b @ concat ps) \<and> blobs_of s' = blobs_of s"
proof (induction ps arbitrary: s b)
  case Nil
  then show ?case by (auto simp: fun_upd_idem)
next
  case (Cons p ps)
  obtain s1 where s1: "write s h p = (s1, Ok (length p))" "invar s1"
      "open_of s1 = (open_of s)(h \<mapsto> b @ p)" "blobs_of s1 = blobs_of s"
    using write_law [OF Cons.prems] by blast
  have "open_of s1 h = Some (b @ p)" by (simp add: s1)
  from Cons.IH [OF s1(2) this] s1 show ?case by (auto simp: fun_eq_iff)
qed

text \<open>A whole upload: start, any chunks, commit under the digest of their concatenation, read back.\<close>

lemma upload_roundtrip:
  assumes "invar s" "start s i = (s1, Ok h)" "write_all s1 h ps = (s2, r)" "supported alg"
    and "commit s2 h (digest_of hsum alg (concat ps)) now = (s3, r')"
  shows "r = Ok () \<and> r' = Ok (digest_of hsum alg (concat ps)) \<and> invar s3 \<and>
    get s3 (digest_of hsum alg (concat ps)) = Ok (concat ps) \<and>
    open_of s3 = open_of s \<and>
    (\<forall>e. valid_digest e \<and> e \<noteq> digest_of hsum alg (concat ps) \<longrightarrow> get s3 e = get s e)"
proof -
  have s1: "invar s1" "open_of s h = None" "open_of s1 = (open_of s)(h \<mapsto> [])" "blobs_of s1 = blobs_of s"
    using start_law [OF assms(1,2)] by auto
  then have "open_of s1 h = Some []" by simp
  from write_all_ok [OF s1(1) this, of ps] assms(3)
  have s2: "r = Ok ()" "invar s2" "open_of s2 = (open_of s)(h \<mapsto> concat ps)" "blobs_of s2 = blobs_of s"
    using s1 by auto
  then have "open_of s2 h = Some (concat ps)" by simp
  from commit_law [OF s2(2) this assms(4), of now] assms(5)
  have s3: "r' = Ok (digest_of hsum alg (concat ps))" "invar s3" "open_of s3 = (open_of s2)(h := None)"
    "\<And>e. valid_digest e \<Longrightarrow> blobs_of s3 e = ((blobs_of s2)(digest_of hsum alg (concat ps) \<mapsto> concat ps)) e"
    by auto
  have "open_of s3 = open_of s" using s1(2) s2(3) s3(3) by (auto simp: fun_eq_iff)
  then show ?thesis
    using s2 s3 get_law [OF s3(2)] get_law [OF assms(1)] valid_digest_of [OF sum_len [OF assms(1)] assms(4)] by simp
qed

text \<open>A commit that succeeds under an expected digest has verified it.\<close>

lemma commit_sound:
  assumes "invar s" "valid_digest d" "commit s h d now = (s', Ok g)"
  shows "\<exists>b. open_of s h = Some b \<and> d = digest_of hsum (Algorithm d) b \<and> g = d \<and>
    get s' d = Ok b"
proof (cases "open_of s h")
  case None
  then show ?thesis using commit_closed [OF assms(1) None, of d now] assms(3) by simp
next
  case (Some b)
  show ?thesis
  proof (cases "d = digest_of hsum (Algorithm d) b")
    case True
    have sup: "supported (Algorithm d)" using assms(2) by (rule valid_digestD)
    obtain s'' where s'': "commit s h d now = (s'', Ok d)" "invar s''"
      "\<And>e. valid_digest e \<Longrightarrow> blobs_of s'' e = ((blobs_of s)(d \<mapsto> b)) e"
      using commit_law [OF assms(1) Some sup, of now] True by auto
    then have "get s'' d = Ok b" using get_law [OF s''(2) assms(2)] assms(2) by simp
    with s'' assms(3) True Some show ?thesis by simp
  next
    case False
    with commit_mismatch [OF assms(1) Some assms(2) False, of now] assms(3) show ?thesis by simp
  qed
qed

text \<open>A mismatch keeps the session: the client can commit again under the right digest.\<close>

lemma commit_retry:
  assumes "invar s" "open_of s h = Some b" "valid_digest d" "d \<noteq> digest_of hsum (Algorithm d) b"
    and "commit s h d now = (s', r)"
  shows "r = Err (ErrDigestMismatch (digest_of hsum (Algorithm d) b)) \<and>
    (\<exists>s''. commit s' h (digest_of hsum (Algorithm d) b) now' = (s'', Ok (digest_of hsum (Algorithm d) b)) \<and>
       get s'' (digest_of hsum (Algorithm d) b) = Ok b)"
proof -
  have sup: "supported (Algorithm d)" using assms(3) by (rule valid_digestD)
  have eq: "s' = s" "r = Err (ErrDigestMismatch (digest_of hsum (Algorithm d) b))"
    using commit_mismatch [OF assms(1-4), of now] assms(5) by simp_all
  from commit_law [OF assms(1,2) sup, of now'] obtain s'' where
    s'': "commit s h (digest_of hsum (Algorithm d) b) now' = (s'', Ok (digest_of hsum (Algorithm d) b))"
    "invar s''" "\<And>e. valid_digest e \<Longrightarrow> blobs_of s'' e = ((blobs_of s)(digest_of hsum (Algorithm d) b \<mapsto> b)) e"
    by auto
  with get_law [OF s''(2)] valid_digest_of [OF sum_len [OF assms(1)] sup] eq show ?thesis by simp
qed

text \<open>After a commit or a cancel the session takes no more bytes and cannot be committed.\<close>

lemma closed_is_final:
  assumes "invar s" "s' = cancel s h \<or> (open_of s h = Some b \<and> supported alg \<and>
      commit s h (digest_of hsum alg b) now = (s', r))"
  shows "write s' h p = (s', Err ErrSessionClosed) \<and> commit s' h d now' = (s', Err ErrSessionClosed)"
proof -
  have "invar s' \<and> open_of s' h = None"
    using assms(2)
  proof (elim disjE conjE)
    assume "s' = cancel s h"
    then show ?thesis using cancel_law [OF assms(1)] by simp
  next
    assume "open_of s h = Some b" "supported alg" "commit s h (digest_of hsum alg b) now = (s', r)"
    then show ?thesis using commit_law [OF assms(1), of h b alg now] by auto
  qed
  then show ?thesis using write_closed commit_closed by blast
qed

end

end
