(* ===== verification/Mem_Blob.thy ===== *)
theory Mem_Blob
  imports Blob_Store
begin

text \<open>
  \<open>internal/registry/blobstore/memblob.go\<close>: the in-memory store.  Sessions are heap objects, so
  \<open>ms_heap\<close> maps handles to them and \<open>ms_sessions\<close> is the session table; a handle stays usable
  by its holder after the session has left the table.
\<close>

record mem_blob =
  mb_data :: bytes
  mb_modTime :: unix_time

record mem_session =
  se_id :: string
  se_buf :: "bytes option"
  se_closed :: bool

record mem_store =
  ms_blobs :: "string \<Rightarrow> mem_blob option"
  ms_sessions :: "string \<Rightarrow> nat option"
  ms_heap :: "nat \<Rightarrow> mem_session option"
  ms_next :: nat

definition NewMemBlobStore :: mem_store where
  "NewMemBlobStore = \<lparr>ms_blobs = Map.empty, ms_sessions = Map.empty, ms_heap = Map.empty, ms_next = 0\<rparr>"

definition mem_info :: "digest \<Rightarrow> mem_blob \<Rightarrow> blob_info" where
  "mem_info d b = \<lparr>bi_Digest = d, bi_Size = length (mb_data b), bi_ModTime = mb_modTime b\<rparr>"

definition mem_Get :: "mem_store \<Rightarrow> digest \<Rightarrow> blob_error + bytes \<times> blob_info" where
  "mem_Get m d = (case ms_blobs m (digest_string d) of
     None \<Rightarrow> Err ErrNotFound | Some b \<Rightarrow> Ok (mb_data b, mem_info d b))"

definition mem_Stat :: "mem_store \<Rightarrow> digest \<Rightarrow> blob_error + blob_info" where
  "mem_Stat m d = (case ms_blobs m (digest_string d) of
     None \<Rightarrow> Err ErrNotFound | Some b \<Rightarrow> Ok (mem_info d b))"

definition mem_Delete :: "mem_store \<Rightarrow> digest \<Rightarrow> mem_store \<times> (blob_error + unit)" where
  "mem_Delete m d = (case ms_blobs m (digest_string d) of
     None \<Rightarrow> (m, Err ErrNotFound)
   | Some _ \<Rightarrow> (m\<lparr>ms_blobs := (ms_blobs m)(digest_string d := None)\<rparr>, Ok ()))"

text \<open>The random id is the argument; \<open>None\<close> is a failed read of the random source.\<close>

definition mem_StartUpload :: "mem_store \<Rightarrow> string option \<Rightarrow> mem_store \<times> (blob_error + nat)" where
  "mem_StartUpload m rid = (case rid of
     None \<Rightarrow> (m, Err ErrRandom)
   | Some i \<Rightarrow> let h = ms_next m
       in (m\<lparr>ms_heap := (ms_heap m)(h \<mapsto> \<lparr>se_id = i, se_buf = Some [], se_closed = False\<rparr>),
             ms_sessions := (ms_sessions m)(i \<mapsto> h), ms_next := Suc h\<rparr>, Ok h))"

definition mem_ResumeUpload :: "mem_store \<Rightarrow> string \<Rightarrow> blob_error + nat" where
  "mem_ResumeUpload m i = (case ms_sessions m i of
     None \<Rightarrow> Err ErrSessionNotFound
   | Some h \<Rightarrow> (case ms_heap m h of
       None \<Rightarrow> Err Panic
     | Some s \<Rightarrow> if se_closed s then Err ErrSessionClosed else Ok h))"

text \<open>\<open>ListBlobs\<close> over a snapshot of the keys (the iteration order of a Go map is not fixed).\<close>

definition mem_ListBlobs :: "mem_store \<Rightarrow> string list \<Rightarrow> (digest \<times> blob_info) list" where
  "mem_ListBlobs m ks = List.map_filter (\<lambda>k. case (ms_blobs m k, ParseDigest k) of
     (Some b, Inr d) \<Rightarrow> Some (d, mem_info d b) | _ \<Rightarrow> None) ks"

text \<open>A handle no session was allocated under stands for a nil session.\<close>

definition mem_Write :: "mem_store \<Rightarrow> nat \<Rightarrow> bytes \<Rightarrow> mem_store \<times> (blob_error + nat)" where
  "mem_Write m h p = (case ms_heap m h of
     None \<Rightarrow> (m, Err ErrSessionClosed)
   | Some s \<Rightarrow>
       if se_closed s then (m, Err ErrSessionClosed)
       else case se_buf s of
         None \<Rightarrow> (m, Err Panic)
       | Some b \<Rightarrow> (m\<lparr>ms_heap := (ms_heap m)(h \<mapsto> s\<lparr>se_buf := Some (b @ p)\<rparr>)\<rparr>, Ok (length p)))"

text \<open>\<open>Offset\<close> dereferences the buffer, which \<open>Cancel\<close> sets to nil.\<close>

definition mem_Offset :: "mem_store \<Rightarrow> nat \<Rightarrow> blob_error + nat" where
  "mem_Offset m h = (case ms_heap m h of
     None \<Rightarrow> Err Panic
   | Some s \<Rightarrow> (case se_buf s of None \<Rightarrow> Err Panic | Some b \<Rightarrow> Ok (length b)))"

definition mem_close :: "mem_store \<Rightarrow> nat \<Rightarrow> mem_session \<Rightarrow> mem_store" where
  "mem_close m h s = m\<lparr>ms_heap := (ms_heap m)(h \<mapsto> s\<lparr>se_closed := True\<rparr>),
                       ms_sessions := (ms_sessions m)(se_id s := None)\<rparr>"

definition mem_Commit ::
  "hash_fun \<Rightarrow> mem_store \<Rightarrow> nat \<Rightarrow> digest \<Rightarrow> unix_time \<Rightarrow> mem_store \<times> (blob_error + digest)" where
  "mem_Commit hsum m h expected now = (case ms_heap m h of
     None \<Rightarrow> (m, Err ErrSessionClosed)
   | Some s \<Rightarrow>
       if se_closed s then (m, Err ErrSessionClosed)
       else let alg = (if Algorithm expected = [] then ''sha256'' else Algorithm expected)
            in case NewHasher hsum alg of
                 None \<Rightarrow> (m, Err ErrHasher)
               | Some hf \<Rightarrow>
                   (case se_buf s of None \<Rightarrow> (m, Err Panic)
                    | Some data \<Rightarrow>
                        let got = DigestFromHash alg (hf data)
                        in if \<not> IsZero expected \<and> \<not> Equal expected got
                           then (m, Err (ErrDigestMismatch got))
                           else (mem_close (m\<lparr>ms_blobs := (ms_blobs m)(digest_string got \<mapsto>
                                    \<lparr>mb_data = data, mb_modTime = now\<rparr>)\<rparr>) h s, Ok got)))"

definition mem_Cancel :: "mem_store \<Rightarrow> nat \<Rightarrow> mem_store" where
  "mem_Cancel m h = (case ms_heap m h of
     None \<Rightarrow> m
   | Some s \<Rightarrow> if se_closed s then m else mem_close m h (s\<lparr>se_buf := None\<rparr>))"

lemmas [blob_simps] = NewMemBlobStore_def mem_Get_def mem_Stat_def mem_Delete_def mem_StartUpload_def
  mem_ResumeUpload_def mem_Write_def mem_Offset_def mem_close_def mem_Commit_def mem_Cancel_def

section \<open>All interleavings of clients\<close>

text \<open>
  One step of the store: any client performs any operation on any session.  The rules have one
  case per mutating method; the arguments are the client's.
\<close>

inductive mem_step :: "hash_fun \<Rightarrow> mem_store \<Rightarrow> mem_store \<Rightarrow> bool" for hsum where
  step_start: "mem_StartUpload m rid = (m', r) \<Longrightarrow> mem_step hsum m m'"
| step_write: "mem_Write m h p = (m', r) \<Longrightarrow> mem_step hsum m m'"
| step_commit: "mem_Commit hsum m h d now = (m', r) \<Longrightarrow> mem_step hsum m m'"
| step_cancel: "mem_step hsum m (mem_Cancel m h)"
| step_delete: "mem_Delete m d = (m', r) \<Longrightarrow> mem_step hsum m m'"

inductive mem_reachable :: "hash_fun \<Rightarrow> mem_store \<Rightarrow> bool" for hsum where
  reach_new: "mem_reachable hsum NewMemBlobStore"
| reach_step: "mem_reachable hsum m \<Longrightarrow> mem_step hsum m m' \<Longrightarrow> mem_reachable hsum m'"

inductive_cases mem_stepE: "mem_step hsum m m'"

text \<open>
  The invariant: every blob sits under the digest of its bytes; a session in the table is open
  and carries that id; an open session has a buffer; handles are below the allocation mark.
\<close>

definition blobs_addressed :: "hash_fun \<Rightarrow> (string \<Rightarrow> mem_blob option) \<Rightarrow> bool" where
  "blobs_addressed hsum bl \<longleftrightarrow> (\<forall>k b. bl k = Some b \<longrightarrow>
     (\<exists>alg. supported alg \<and> k = digest_string (digest_of hsum alg (mb_data b))))"

definition table_ok :: "(string \<Rightarrow> nat option) \<Rightarrow> (nat \<Rightarrow> mem_session option) \<Rightarrow> bool" where
  "table_ok tab hp \<longleftrightarrow> (\<forall>i h. tab i = Some h \<longrightarrow>
     (\<exists>s. hp h = Some s \<and> se_id s = i \<and> \<not> se_closed s))"

definition heap_ok :: "(nat \<Rightarrow> mem_session option) \<Rightarrow> nat \<Rightarrow> bool" where
  "heap_ok hp n \<longleftrightarrow> (\<forall>h s. hp h = Some s \<longrightarrow> h < n \<and> (se_closed s \<or> se_buf s \<noteq> None))"

definition mem_inv :: "hash_fun \<Rightarrow> mem_store \<Rightarrow> bool" where
  "mem_inv hsum m \<longleftrightarrow> blobs_addressed hsum (ms_blobs m) \<and> table_ok (ms_sessions m) (ms_heap m) \<and>
     heap_ok (ms_heap m) (ms_next m)"

lemma mem_inv_new: "mem_inv hsum NewMemBlobStore"
  by (simp add: mem_inv_def blobs_addressed_def table_ok_def heap_ok_def NewMemBlobStore_def)

lemma heap_ok_upd:
  "heap_ok hp n \<Longrightarrow> h < n \<Longrightarrow> se_closed s \<or> se_buf s \<noteq> None \<Longrightarrow> heap_ok (hp(h \<mapsto> s)) n"
  by (auto simp: heap_ok_def)

lemma heap_ok_less: "heap_ok hp n \<Longrightarrow> hp h = Some s \<Longrightarrow> h < n"
  by (auto simp: heap_ok_def)

lemma heap_ok_fresh: "heap_ok hp n \<Longrightarrow> hp n = None"
  by (metis heap_ok_less less_irrefl option.exhaust)

lemma heap_ok_Suc: "heap_ok hp n \<Longrightarrow> heap_ok hp (Suc n)"
  by (auto simp: heap_ok_def less_Suc_eq)

lemma table_ok_new:
  "table_ok tab hp \<Longrightarrow> hp h = None \<Longrightarrow> se_id s = i \<Longrightarrow> \<not> se_closed s \<Longrightarrow>
   table_ok (tab(i \<mapsto> h)) (hp(h \<mapsto> s))"
  by (auto simp: table_ok_def) (metis option.distinct(1))

lemma table_ok_write:
  "table_ok tab hp \<Longrightarrow> hp h = Some s \<Longrightarrow> se_id s' = se_id s \<Longrightarrow> se_closed s' = se_closed s \<Longrightarrow>
   table_ok tab (hp(h \<mapsto> s'))"
  by (fastforce simp: table_ok_def)

lemma table_ok_close:
  "table_ok tab hp \<Longrightarrow> hp h = Some s \<Longrightarrow> se_id s' = se_id s \<Longrightarrow>
   table_ok (tab(se_id s' := None)) (hp(h \<mapsto> s'))"
  by (fastforce simp: table_ok_def)

lemma mem_inv_start:
  assumes "mem_inv hsum m" "mem_StartUpload m rid = (m', r)"
  shows "mem_inv hsum m'"
proof (cases rid)
  case (Some i)
  have fresh: "ms_heap m (ms_next m) = None"
    using assms(1) by (auto simp: mem_inv_def intro: heap_ok_fresh)
  with Some assms show ?thesis
    by (auto simp: mem_inv_def mem_StartUpload_def Let_def
        intro!: table_ok_new heap_ok_upd [OF heap_ok_Suc])
qed (use assms in \<open>simp add: mem_StartUpload_def\<close>)

lemma mem_inv_write: "mem_inv hsum m \<Longrightarrow> mem_Write m h p = (m', r) \<Longrightarrow> mem_inv hsum m'"
  by (auto simp: mem_inv_def mem_Write_def intro!: heap_ok_upd elim!: table_ok_write dest: heap_ok_less
      split: option.splits if_splits)

lemma mem_inv_close:
  "mem_inv hsum m \<Longrightarrow> ms_heap m h = Some s \<Longrightarrow> se_id s' = se_id s \<Longrightarrow> mem_inv hsum (mem_close m h s')"
  using table_ok_close [of "ms_sessions m" "ms_heap m" h s "s'\<lparr>se_closed := True\<rparr>"]
  by (auto simp: mem_inv_def mem_close_def intro: heap_ok_upd heap_ok_less)

lemma mem_inv_cancel: "mem_inv hsum m \<Longrightarrow> mem_inv hsum (mem_Cancel m h)"
  by (auto simp: mem_Cancel_def intro: mem_inv_close split: option.splits)

lemma mem_inv_delete: "mem_inv hsum m \<Longrightarrow> mem_Delete m d = (m', r) \<Longrightarrow> mem_inv hsum m'"
  by (auto simp: mem_inv_def mem_Delete_def blobs_addressed_def split: option.splits if_splits)

lemma mem_inv_put:
  "mem_inv hsum m \<Longrightarrow> supported alg \<Longrightarrow>
   mem_inv hsum (m\<lparr>ms_blobs := (ms_blobs m)(digest_string (digest_of hsum alg data) \<mapsto>
     \<lparr>mb_data = data, mb_modTime = now\<rparr>)\<rparr>)"
  by (auto simp: mem_inv_def blobs_addressed_def)

lemma mem_inv_commit:
  assumes "mem_inv hsum m" "mem_Commit hsum m h d now = (m', r)"
  shows "mem_inv hsum m'"
proof (cases "m' = m")
  case False
  with assms(2) obtain s data alg where
    "ms_heap m h = Some s" "supported alg"
    "m' = mem_close (m\<lparr>ms_blobs := (ms_blobs m)(digest_string (digest_of hsum alg data) \<mapsto>
      \<lparr>mb_data = data, mb_modTime = now\<rparr>)\<rparr>) h s"
    by (auto simp: mem_Commit_def NewHasher_supported Let_def digest_of_def
        split: option.splits if_splits)
  with mem_inv_put [OF assms(1)] show ?thesis by (auto intro: mem_inv_close)
qed (use assms in simp)

lemma mem_step_inv: "mem_step hsum m m' \<Longrightarrow> mem_inv hsum m \<Longrightarrow> mem_inv hsum m'"
  by (erule mem_stepE)
    (auto intro: mem_inv_start mem_inv_write mem_inv_commit mem_inv_cancel mem_inv_delete)

lemma mem_reachable_inv: "mem_reachable hsum m \<Longrightarrow> mem_inv hsum m"
  by (induction rule: mem_reachable.induct) (auto intro: mem_inv_new mem_step_inv)

section \<open>The store implements the contract\<close>

definition mem_blobs_of :: "mem_store \<Rightarrow> digest \<Rightarrow> bytes option" where
  "mem_blobs_of m d = map_option mb_data (ms_blobs m (digest_string d))"

definition mem_open_of :: "mem_store \<Rightarrow> nat \<Rightarrow> bytes option" where
  "mem_open_of m h = (case ms_heap m h of
     None \<Rightarrow> None | Some s \<Rightarrow> if se_closed s then None else se_buf s)"

lemma mem_open_of_upd:
  "mem_open_of (m\<lparr>ms_heap := (ms_heap m)(h \<mapsto> s)\<rparr>) =
   (mem_open_of m)(h := (if se_closed s then None else se_buf s))"
  by (auto simp: mem_open_of_def fun_eq_iff)

lemma mem_open_of_cong: "ms_heap m' = ms_heap m \<Longrightarrow> mem_open_of m' = mem_open_of m"
  by (simp add: mem_open_of_def fun_eq_iff)

lemma mem_blobs_of_cong: "ms_blobs m' = ms_blobs m \<Longrightarrow> mem_blobs_of m' = mem_blobs_of m"
  by (simp add: mem_blobs_of_def fun_eq_iff)

lemma mem_open_of_Some:
  "mem_inv hsum m \<Longrightarrow> mem_open_of m h = Some b \<longleftrightarrow>
   (\<exists>s. ms_heap m h = Some s \<and> \<not> se_closed s \<and> se_buf s = Some b)"
  by (auto simp: mem_open_of_def split: option.splits if_splits)

lemma mem_open_of_None:
  "mem_inv hsum m \<Longrightarrow> mem_open_of m h = None \<longleftrightarrow>
   (\<forall>s. ms_heap m h = Some s \<longrightarrow> se_closed s)"
  by (auto simp: mem_open_of_def mem_inv_def heap_ok_def split: option.splits if_splits)

lemma mem_open_of_close:
  "mem_open_of (mem_close m h s) = (mem_open_of m)(h := None)"
  by (auto simp: mem_open_of_def mem_close_def fun_eq_iff)

lemma mem_blobs_of_close [simp]: "mem_blobs_of (mem_close m h s) = mem_blobs_of m"
  by (rule mem_blobs_of_cong) (simp add: mem_close_def)

lemma mem_Commit_ok:
  assumes "mem_inv hsum m" "mem_open_of m h = Some b" "supported alg" "sum_length hsum"
  shows "mem_Commit hsum m h (digest_of hsum alg b) now =
    (mem_close (m\<lparr>ms_blobs := (ms_blobs m)(digest_string (digest_of hsum alg b) \<mapsto>
       \<lparr>mb_data = b, mb_modTime = now\<rparr>)\<rparr>) h (the (ms_heap m h)), Ok (digest_of hsum alg b))"
proof -
  obtain s where s: "ms_heap m h = Some s" "\<not> se_closed s" "se_buf s = Some b"
    using assms(1,2) by (auto simp: mem_open_of_Some)
  have "alg \<noteq> []" using assms(3) by (auto simp: supported_def)
  moreover have "Equal (digest_of hsum alg b) (digest_of hsum alg b)"
    by (simp add: Equal_def equal_fold_def)
  ultimately show ?thesis
    using s assms(3) by (simp add: mem_Commit_def NewHasher_supported Let_def flip: digest_of_def)
qed

lemma mem_Commit_mismatch:
  assumes "mem_inv hsum m" "mem_open_of m h = Some b" "valid_digest d" "sum_length hsum"
    and "d \<noteq> digest_of hsum (Algorithm d) b"
  shows "mem_Commit hsum m h d now = (m, Err (ErrDigestMismatch (digest_of hsum (Algorithm d) b)))"
proof -
  obtain s where s: "ms_heap m h = Some s" "\<not> se_closed s" "se_buf s = Some b"
    using assms(1,2) by (auto simp: mem_open_of_Some)
  note v = valid_digestD [OF assms(3)]
  have "\<not> Equal d (digest_of hsum (Algorithm d) b)"
    using assms(3,5) valid_digest_of [OF assms(4) v(1)] Equal_lower by (metis valid_digest_def)
  moreover have "Algorithm d \<noteq> []" using v(1) by (auto simp: supported_def)
  ultimately show ?thesis
    using s v by (simp add: mem_Commit_def NewHasher_supported Let_def flip: digest_of_def)
qed

text \<open>The laws of the contract, one operation at a time.\<close>

lemma mem_start_law:
  assumes inv: "mem_inv hsum m" and st: "mem_StartUpload m (Some i) = (m', Ok h)"
  shows "mem_inv hsum m' \<and> mem_open_of m h = None \<and>
    mem_open_of m' = (mem_open_of m)(h \<mapsto> []) \<and> mem_blobs_of m' = mem_blobs_of m"
proof -
  have "ms_heap m (ms_next m) = None" using inv heap_ok_fresh by (simp add: mem_inv_def)
  then show ?thesis
    using st mem_inv_start [OF inv st]
    by (auto simp: mem_StartUpload_def Let_def mem_open_of_def mem_blobs_of_def fun_eq_iff)
qed

lemma mem_write_law:
  assumes inv: "mem_inv hsum m" and op: "mem_open_of m h = Some b"
  shows "\<exists>m'. mem_Write m h p = (m', Ok (length p)) \<and> mem_inv hsum m' \<and>
    mem_open_of m' = (mem_open_of m)(h \<mapsto> b @ p) \<and> mem_blobs_of m' = mem_blobs_of m"
proof -
  obtain s where s: "ms_heap m h = Some s" "\<not> se_closed s" "se_buf s = Some b"
    using inv op by (auto simp: mem_open_of_Some)
  then have w: "mem_Write m h p =
      (m\<lparr>ms_heap := (ms_heap m)(h \<mapsto> s\<lparr>se_buf := Some (b @ p)\<rparr>)\<rparr>, Ok (length p))"
    by (simp add: mem_Write_def)
  with mem_inv_write [OF inv w] s show ?thesis
    by (simp add: mem_open_of_upd mem_blobs_of_def fun_eq_iff)
qed

lemma mem_closed_law:
  assumes "mem_inv hsum m" "mem_open_of m h = None"
  shows "mem_Write m h p = (m, Err ErrSessionClosed)"
    and "mem_Commit hsum m h d now = (m, Err ErrSessionClosed)"
  using assms by (auto simp: mem_open_of_None mem_Write_def mem_Commit_def split: option.splits)

lemma mem_commit_law:
  assumes inv: "mem_inv hsum m" and op: "mem_open_of m h = Some b" and sup: "supported alg"
    and len: "sum_length hsum"
  shows "\<exists>m'. mem_Commit hsum m h (digest_of hsum alg b) now = (m', Ok (digest_of hsum alg b)) \<and>
    mem_inv hsum m' \<and> mem_open_of m' = (mem_open_of m)(h := None) \<and>
    (\<forall>e. valid_digest e \<longrightarrow> mem_blobs_of m' e = ((mem_blobs_of m)(digest_of hsum alg b \<mapsto> b)) e)"
proof -
  note c = mem_Commit_ok [OF inv op sup len, of now]
  have "mem_blobs_of (m\<lparr>ms_blobs := (ms_blobs m)(digest_string (digest_of hsum alg b) \<mapsto>
       \<lparr>mb_data = b, mb_modTime = now\<rparr>)\<rparr>) e = ((mem_blobs_of m)(digest_of hsum alg b \<mapsto> b)) e"
    if "valid_digest e" for e
    using digest_string_inj [OF that valid_digest_of [OF len sup, of b]] by (auto simp: mem_blobs_of_def)
  with mem_inv_commit [OF inv c] c show ?thesis
    by (simp add: mem_open_of_close mem_open_of_cong [of "m\<lparr>ms_blobs := _\<rparr>" m])
qed

lemma mem_cancel_law:
  assumes inv: "mem_inv hsum m"
  shows "mem_inv hsum (mem_Cancel m h) \<and> mem_open_of (mem_Cancel m h) = (mem_open_of m)(h := None) \<and>
    mem_blobs_of (mem_Cancel m h) = mem_blobs_of m"
proof -
  have "mem_open_of m h = None \<or> (\<exists>s. mem_Cancel m h = mem_close m h s)" and
    "mem_open_of m h = None \<Longrightarrow> mem_Cancel m h = m"
    using inv by (auto simp: mem_Cancel_def mem_open_of_None split: option.splits)
  then have "mem_open_of (mem_Cancel m h) = (mem_open_of m)(h := None)"
    by (auto simp: mem_open_of_close)
  moreover have "mem_blobs_of (mem_Cancel m h) = mem_blobs_of m"
    by (auto simp: mem_Cancel_def split: option.splits)
  ultimately show ?thesis using mem_inv_cancel [OF inv] by simp
qed

lemma mem_delete_law:
  assumes inv: "mem_inv hsum m" and v: "valid_digest d" and del: "mem_Delete m d = (m', r)"
  shows "mem_inv hsum m' \<and> mem_open_of m' = mem_open_of m \<and>
    (\<forall>e. valid_digest e \<longrightarrow> mem_blobs_of m' e = ((mem_blobs_of m)(d := None)) e) \<and>
    r = (if mem_blobs_of m d = None then Err ErrNotFound else Ok ())"
proof -
  have "\<forall>e. valid_digest e \<longrightarrow> mem_blobs_of m' e = ((mem_blobs_of m)(d := None)) e"
    using del digest_string_inj [OF _ v]
    by (auto simp: mem_Delete_def mem_blobs_of_def split: option.splits)
  moreover have "mem_open_of m' = mem_open_of m"
    using del by (auto simp: mem_Delete_def intro!: mem_open_of_cong split: option.splits)
  moreover have "r = (if mem_blobs_of m d = None then Err ErrNotFound else Ok ())"
    using del by (auto simp: mem_Delete_def mem_blobs_of_def split: option.splits)
  ultimately show ?thesis using mem_inv_delete [OF inv del] by simp
qed

definition mem_invar :: "hash_fun \<Rightarrow> mem_store \<Rightarrow> bool" where
  "mem_invar hsum m \<longleftrightarrow> sum_length hsum \<and> mem_inv hsum m"

interpretation mem: blob_store hsum "mem_invar hsum" mem_blobs_of mem_open_of
  "\<lambda>m d. map_sum id fst (mem_Get m d)" mem_Delete "\<lambda>m i. mem_StartUpload m (Some i)"
  mem_Write "mem_Commit hsum" mem_Cancel
proof (unfold_locales, goal_cases)
  case 2
  then show ?case by (simp add: mem_Get_def mem_blobs_of_def split: option.splits)
next
  case (6 m h b alg now)
  then show ?case using mem_commit_law [of hsum m h b alg now] by (auto simp: mem_invar_def simp del: fun_upd_apply)
qed (auto simp: mem_invar_def mem_Commit_mismatch
    dest: mem_start_law mem_delete_law mem_cancel_law intro: mem_closed_law mem_write_law)

section \<open>Properties of the in-memory store\<close>

text \<open>
  Content addressing.  However any number of clients interleave starting, writing, committing,
  cancelling and deleting, every blob the store serves is stored under the digest of its own bytes:
  an unfinished or corrupted upload never becomes addressable.
\<close>

theorem mem_content_addressed:
  assumes "mem_reachable hsum m" and "ms_blobs m k = Some b"
  shows "\<exists>alg. supported alg \<and> k = digest_string (digest_of hsum alg (mb_data b))"
  using mem_reachable_inv [OF assms(1)] assms(2) by (simp add: mem_inv_def blobs_addressed_def)

theorem mem_content_addressed_witness:
  "\<exists>m b. mem_reachable (\<lambda>a d. d) m \<and>
     ms_blobs m (digest_string (digest_of (\<lambda>a d. d) ''sha256'' [7])) = Some b \<and>
     (\<exists>alg. supported alg \<and>
        digest_string (digest_of (\<lambda>a d. d) ''sha256'' [7]) = digest_string (digest_of (\<lambda>a d. d) alg (mb_data b)))"
proof -
  let ?f = "(\<lambda>a d. d) :: hash_fun"
  define m1 where "m1 = fst (mem_StartUpload NewMemBlobStore (Some ''u1''))"
  define m2 where "m2 = fst (mem_Write m1 0 [7])"
  define m3 where "m3 = fst (mem_Commit ?f m2 0 \<lparr>Algorithm = [], Hex = []\<rparr> 100)"
  have "mem_reachable ?f m1"
    unfolding m1_def by (rule reach_step [OF reach_new]) (rule step_start, rule prod.collapse [symmetric])
  then have "mem_reachable ?f m2"
    unfolding m2_def by (rule reach_step) (rule step_write, rule prod.collapse [symmetric])
  then have r: "mem_reachable ?f m3"
    unfolding m3_def by (rule reach_step) (rule step_commit, rule prod.collapse [symmetric])
  have "ms_blobs m3 (digest_string (digest_of ?f ''sha256'' [7])) = Some \<lparr>mb_data = [7], mb_modTime = 100\<rparr>"
    by (simp add: m3_def m2_def m1_def blob_simps Let_def NewHasher_def IsZero_def digest_of_def)
  then show ?thesis using r mem_content_addressed [OF r] by blast
qed

text \<open>
  An upload reads back.  On any store state reached, starting a session, writing any chunks and
  committing under the digest of their concatenation succeeds, makes exactly those bytes available
  under that digest, and changes neither any other blob nor any other session.
\<close>

theorem mem_upload_roundtrip:
  assumes "sum_length hsum" and "mem_reachable hsum m"
    and "mem_StartUpload m (Some i) = (m1, Ok h)"
    and "mem.write_all m1 h ps = (m2, r)" and "supported alg"
    and "mem_Commit hsum m2 h (digest_of hsum alg (concat ps)) now = (m3, r')"
  shows "r = Ok () \<and> r' = Ok (digest_of hsum alg (concat ps)) \<and>
    map_sum id fst (mem_Get m3 (digest_of hsum alg (concat ps))) = Ok (concat ps) \<and>
    mem_open_of m3 = mem_open_of m \<and>
    (\<forall>e. valid_digest e \<and> e \<noteq> digest_of hsum alg (concat ps) \<longrightarrow>
       map_sum id fst (mem_Get m3 e) = map_sum id fst (mem_Get m e))"
proof -
  have "mem_invar hsum m" using assms(1,2) by (simp add: mem_invar_def mem_reachable_inv)
  from mem.upload_roundtrip [OF this assms(3-6)] show ?thesis by blast
qed

theorem mem_upload_roundtrip_witness:
  "\<exists>m1 h m2 r m3 r'. mem_StartUpload NewMemBlobStore (Some ''u'') = (m1, Ok h) \<and>
     mem.write_all m1 h [[1], [2, 3]] = (m2, r) \<and>
     mem_Commit sample_sum m2 h (digest_of sample_sum ''sha256'' (concat [[1], [2, 3]])) 9 = (m3, r') \<and>
     map_sum id fst (mem_Get m3 (digest_of sample_sum ''sha256'' (concat [[1], [2, 3]]))) =
       Ok (concat [[1], [2, 3]])"
proof -
  obtain m1 h where st: "mem_StartUpload NewMemBlobStore (Some ''u'') = (m1, Ok h)"
    by (simp add: mem_StartUpload_def Let_def)
  obtain m2 r where wr: "mem.write_all m1 h [[1], [2, 3]] = (m2, r)" by fastforce
  obtain m3 r' where cm: "mem_Commit sample_sum m2 h
      (digest_of sample_sum ''sha256'' (concat [[1], [2, 3]])) 9 = (m3, r')" by fastforce
  have "supported ''sha256''" by (simp add: supported_def)
  from mem_upload_roundtrip [OF sample_sum_length reach_new st wr this cm] st wr cm show ?thesis by blast
qed

text \<open>
  The doc comment promises that every method of a finished session reports \<open>ErrSessionClosed\<close>;
  \<open>Offset\<close> after \<open>Cancel\<close> dereferences a nil buffer instead.
\<close>

theorem mem_Offset_after_Cancel_panics:
  assumes "mem_inv hsum m" and "mem_open_of m h = Some b"
  shows "mem_Offset (mem_Cancel m h) h = Err Panic \<and>
    mem_Write (mem_Cancel m h) h p = (mem_Cancel m h, Err ErrSessionClosed)"
proof -
  obtain s where "ms_heap m h = Some s" "\<not> se_closed s" using assms by (auto simp: mem_open_of_Some)
  then show ?thesis by (simp add: mem_Offset_def mem_Cancel_def mem_close_def mem_Write_def)
qed

theorem mem_Offset_after_Cancel_panics_witness:
  "\<exists>m1 h. mem_StartUpload NewMemBlobStore (Some ''u'') = (m1, Ok h) \<and>
     mem_Offset (mem_Cancel m1 h) h = Err Panic"
proof -
  obtain m1 h where st: "mem_StartUpload NewMemBlobStore (Some ''u'') = (m1, Ok h)"
    by (simp add: mem_StartUpload_def Let_def)
  have "mem_inv sample_sum m1" "mem_open_of m1 h = Some []"
    using mem_start_law [OF mem_inv_new st, of sample_sum] by auto
  from mem_Offset_after_Cancel_panics [OF this] st show ?thesis by blast
qed

end
