(* ===== verification/Local_Blob.thy ===== *)
theory Local_Blob
  imports Blob_Store
begin

text \<open>
  \<open>internal/registry/blobstore/localblob.go\<close>: the store on a local directory.  A path below the
  root is the list of its segments; \<open>lo_fs\<close> holds the regular files.  Every system call that can
  fail takes its outcome from a record of faults, so that each error branch of the code is a
  branch of the model.  A session's file offset is kept, because \<open>Commit\<close> seeks.
\<close>

record lfile =
  lf_data :: bytes
  lf_mtime :: unix_time

record local_session =
  lse_id :: string
  lse_path :: "string list"
  lse_fopen :: bool
  lse_pos :: nat
  lse_n :: nat
  lse_closed :: bool

record local_store =
  lo_fs :: "string list \<Rightarrow> lfile option"
  lo_sessions :: "string \<Rightarrow> nat option"
  lo_heap :: "nat \<Rightarrow> local_session option"
  lo_next :: nat

text \<open>What goes wrong during one \<open>Commit\<close>; \<open>cf_read\<close> is the number of bytes read before a failure.\<close>

record commit_faults =
  cf_sync :: bool
  cf_seek :: bool
  cf_read :: "nat option"
  cf_seek_back :: bool
  cf_close :: bool
  cf_mkdir :: bool
  cf_rename :: bool

definition no_faults :: commit_faults where
  "no_faults = \<lparr>cf_sync = False, cf_seek = False, cf_read = None, cf_seek_back = False,
                cf_close = False, cf_mkdir = False, cf_rename = False\<rparr>"

definition NewLocalBlobStore :: "(string list \<Rightarrow> lfile option) \<Rightarrow> local_store" where
  "NewLocalBlobStore fs = \<lparr>lo_fs = fs, lo_sessions = Map.empty, lo_heap = Map.empty, lo_next = 0\<rparr>"

definition blobPath :: "digest \<Rightarrow> string list" where
  "blobPath d = (if length (Hex d) < 2 then [''blobs'', Algorithm d, Hex d]
                 else [''blobs'', Algorithm d, take 2 (Hex d), Hex d])"

definition uploadPath :: "string \<Rightarrow> string list" where
  "uploadPath i = [''_uploads'', i]"

definition local_info :: "digest \<Rightarrow> lfile \<Rightarrow> blob_info" where
  "local_info d f = \<lparr>bi_Digest = d, bi_Size = length (lf_data f), bi_ModTime = lf_mtime f\<rparr>"

definition local_Get :: "local_store \<Rightarrow> digest \<Rightarrow> bool \<Rightarrow> bool \<Rightarrow> blob_error + bytes \<times> blob_info" where
  "local_Get l d open_fails stat_fails = (case lo_fs l (blobPath d) of
     None \<Rightarrow> Err ErrNotFound
   | Some f \<Rightarrow> if open_fails then Err ErrIO else if stat_fails then Err ErrIO
               else Ok (lf_data f, local_info d f))"

definition local_Stat :: "local_store \<Rightarrow> digest \<Rightarrow> bool \<Rightarrow> blob_error + blob_info" where
  "local_Stat l d stat_fails = (case lo_fs l (blobPath d) of
     None \<Rightarrow> Err ErrNotFound | Some f \<Rightarrow> if stat_fails then Err ErrIO else Ok (local_info d f))"

definition local_Delete :: "local_store \<Rightarrow> digest \<Rightarrow> bool \<Rightarrow> local_store \<times> (blob_error + unit)" where
  "local_Delete l d remove_fails = (case lo_fs l (blobPath d) of
     None \<Rightarrow> (l, Err ErrNotFound)
   | Some _ \<Rightarrow> if remove_fails then (l, Err ErrIO)
               else (l\<lparr>lo_fs := (lo_fs l)(blobPath d := None)\<rparr>, Ok ()))"

text \<open>\<open>O_CREATE|O_EXCL\<close> fails when the file exists.\<close>

definition local_StartUpload ::
  "local_store \<Rightarrow> string option \<Rightarrow> bool \<Rightarrow> unix_time \<Rightarrow> local_store \<times> (blob_error + nat)" where
  "local_StartUpload l rid create_fails now = (case rid of
     None \<Rightarrow> (l, Err ErrRandom)
   | Some i \<Rightarrow>
       let p = uploadPath i; h = lo_next l
       in if create_fails \<or> lo_fs l p \<noteq> None then (l, Err ErrIO)
          else (l\<lparr>lo_fs := (lo_fs l)(p \<mapsto> \<lparr>lf_data = [], lf_mtime = now\<rparr>),
                  lo_heap := (lo_heap l)(h \<mapsto> \<lparr>lse_id = i, lse_path = p, lse_fopen = True,
                     lse_pos = 0, lse_n = 0, lse_closed = False\<rparr>),
                  lo_sessions := (lo_sessions l)(i \<mapsto> h), lo_next := Suc h\<rparr>, Ok h))"

definition local_ResumeUpload :: "local_store \<Rightarrow> string \<Rightarrow> blob_error + nat" where
  "local_ResumeUpload l i = (case lo_sessions l i of
     None \<Rightarrow> Err ErrSessionNotFound
   | Some h \<Rightarrow> (case lo_heap l h of
       None \<Rightarrow> Err Panic
     | Some s \<Rightarrow> if lse_closed s then Err ErrSessionClosed else Ok h))"

text \<open>\<open>ListBlobs\<close> over the regular files of a walk of \<open>blobs/\<close>; \<open>paths\<close> is the walk's order.\<close>

fun list_entry :: "local_store \<Rightarrow> string list \<Rightarrow> (digest \<times> blob_info) option" where
  "list_entry l [dir, alg, shard, hx] = (case lo_fs l [dir, alg, shard, hx] of
     None \<Rightarrow> None
   | Some f \<Rightarrow>
       (if dir = ''blobs'' \<and> algorithmHexLength alg = Some (length hx)
        then Some (\<lparr>Algorithm = alg, Hex = hx\<rparr>, local_info \<lparr>Algorithm = alg, Hex = hx\<rparr> f) else None))"
| "list_entry l p = None"

definition local_ListBlobs :: "local_store \<Rightarrow> string list list \<Rightarrow> (digest \<times> blob_info) list" where
  "local_ListBlobs l paths = List.map_filter (list_entry l) paths"

text \<open>\<open>write(2)\<close> at an offset: the bytes there are overwritten.\<close>

definition write_at :: "bytes \<Rightarrow> nat \<Rightarrow> bytes \<Rightarrow> bytes" where
  "write_at c pos p = take pos c @ replicate (pos - length c) 0 @ p @ drop (pos + length p) c"

definition file_append ::
  "local_store \<Rightarrow> nat \<Rightarrow> local_session \<Rightarrow> lfile \<Rightarrow> bytes \<Rightarrow> unix_time \<Rightarrow> local_store" where
  "file_append l h s f q now =
     l\<lparr>lo_fs := (lo_fs l)(lse_path s \<mapsto>
          \<lparr>lf_data = write_at (lf_data f) (lse_pos s) q, lf_mtime = now\<rparr>),
       lo_heap := (lo_heap l)(h \<mapsto> s\<lparr>lse_pos := lse_pos s + length q, lse_n := lse_n s + length q\<rparr>)\<rparr>"

text \<open>\<open>short\<close> is the number of bytes that reach the file when the write fails part-way.\<close>

definition local_Write ::
  "local_store \<Rightarrow> nat \<Rightarrow> bytes \<Rightarrow> nat option \<Rightarrow> unix_time \<Rightarrow> local_store \<times> (blob_error + nat)" where
  "local_Write l h p short now = (case lo_heap l h of
     None \<Rightarrow> (l, Err ErrSessionClosed)
   | Some s \<Rightarrow>
       if lse_closed s then (l, Err ErrSessionClosed)
       else if \<not> lse_fopen s then (l, Err ErrIO)
       else (case lo_fs l (lse_path s) of
         None \<Rightarrow> (l, Err ErrIO)
       | Some f \<Rightarrow>
           (case short of
              None \<Rightarrow> (file_append l h s f p now, Ok (length p))
            | Some k \<Rightarrow> (file_append l h s f (take k p) now, Err ErrIO))))"

definition local_Offset :: "local_store \<Rightarrow> nat \<Rightarrow> nat" where
  "local_Offset l h = (case lo_heap l h of None \<Rightarrow> 0 | Some s \<Rightarrow> lse_n s)"

definition forceCloseLocked :: "local_store \<Rightarrow> nat \<Rightarrow> local_session \<Rightarrow> local_store" where
  "forceCloseLocked l h s = l\<lparr>
     lo_fs := (lo_fs l)(lse_path s := None),
     lo_heap := (lo_heap l)(h \<mapsto> s\<lparr>lse_closed := True, lse_fopen := False\<rparr>),
     lo_sessions := (lo_sessions l)(lse_id s := None)\<rparr>"

definition set_session :: "local_store \<Rightarrow> nat \<Rightarrow> local_session \<Rightarrow> local_store" where
  "set_session l h s = l\<lparr>lo_heap := (lo_heap l)(h \<mapsto> s)\<rparr>"

text \<open>
  The tail of \<open>Commit\<close> once the digest is verified: close, make the directory, rename (a failed
  rename onto an existing blob counts as success and drops the tmp file), close the session.
\<close>

definition publish ::
  "local_store \<Rightarrow> nat \<Rightarrow> local_session \<Rightarrow> lfile \<Rightarrow> digest \<Rightarrow> commit_faults \<Rightarrow> local_store \<times> (blob_error + digest)" where
  "publish l h s f got F =
     (let s' = s\<lparr>lse_fopen := False\<rparr>; dst = blobPath got;
          done_with = (\<lambda>fs. (l\<lparr>lo_fs := fs, lo_heap := (lo_heap l)(h \<mapsto> s'\<lparr>lse_closed := True\<rparr>),
                              lo_sessions := (lo_sessions l)(lse_id s := None)\<rparr>, Ok got))
      in if cf_close F \<or> cf_mkdir F then (set_session l h s', Err ErrIO)
         else if cf_rename F then
           (if lo_fs l dst \<noteq> None then done_with ((lo_fs l)(lse_path s := None))
            else (set_session l h s', Err ErrIO))
         else done_with ((lo_fs l)(lse_path s := None, dst \<mapsto> f)))"

definition local_Commit ::
  "hash_fun \<Rightarrow> local_store \<Rightarrow> nat \<Rightarrow> digest \<Rightarrow> commit_faults \<Rightarrow> local_store \<times> (blob_error + digest)" where
  "local_Commit hsum l h expected F = (case lo_heap l h of
     None \<Rightarrow> (l, Err ErrSessionClosed)
   | Some s \<Rightarrow>
       if lse_closed s then (l, Err ErrSessionClosed)
       else let alg = (if Algorithm expected = [] then ''sha256'' else Algorithm expected)
            in if cf_sync F \<or> \<not> lse_fopen s \<or> cf_seek F then (l, Err ErrIO)
               else (case NewHasher hsum alg of
                 None \<Rightarrow> (set_session l h (s\<lparr>lse_pos := 0\<rparr>), Err ErrHasher)
               | Some hf \<Rightarrow> (case lo_fs l (lse_path s) of
                   None \<Rightarrow> (l, Err ErrIO)
                 | Some f \<Rightarrow> (case cf_read F of
                     Some k \<Rightarrow> (set_session l h (s\<lparr>lse_pos := k\<rparr>), Err ErrIO)
                   | None \<Rightarrow>
                       let got = DigestFromHash alg (hf (lf_data f))
                       in if \<not> IsZero expected \<and> \<not> Equal expected got
                          then (if cf_seek_back F
                                then (forceCloseLocked l h s, Err (ErrSessionLost got))
                                else (set_session l h (s\<lparr>lse_pos := lse_n s\<rparr>), Err (ErrDigestMismatch got)))
                          else publish l h s f got F))))"

definition local_Cancel :: "local_store \<Rightarrow> nat \<Rightarrow> local_store" where
  "local_Cancel l h = (case lo_heap l h of
     None \<Rightarrow> l | Some s \<Rightarrow> if lse_closed s then l else forceCloseLocked l h s)"

text \<open>
  \<open>PruneAbandonedUploads\<close> over the directory listing \<open>names\<close>; \<open>info_fails\<close> and \<open>remove_fails\<close> say
  for which names the system call fails.  The result counts matched files and their bytes and
  tells whether an error was seen.
\<close>

fun prune_loop ::
  "local_store \<Rightarrow> unix_time \<Rightarrow> bool \<Rightarrow> (string \<Rightarrow> bool) \<Rightarrow> (string \<Rightarrow> bool) \<Rightarrow> string list \<Rightarrow>
   local_store \<times> nat \<times> nat \<times> bool" where
  "prune_loop l threshold dryRun info_fails remove_fails [] = (l, 0, 0, False)"
| "prune_loop l threshold dryRun info_fails remove_fails (n # ns) =
     (let skip = prune_loop l threshold dryRun info_fails remove_fails ns
      in if lo_sessions l n \<noteq> None then skip
         else case lo_fs l (uploadPath n) of
           None \<Rightarrow> skip
         | Some f \<Rightarrow>
             if info_fails n then (let (l', c, b, e) = skip in (l', c, b, True))
             else if lf_mtime f > threshold then skip
             else if dryRun then (let (l', c, b, e) = skip in (l', Suc c, b + length (lf_data f), e))
             else if remove_fails n then (let (l', c, b, e) = skip in (l', c, b, True))
             else (let (l', c, b, e) = prune_loop (l\<lparr>lo_fs := (lo_fs l)(uploadPath n := None)\<rparr>)
                                          threshold dryRun info_fails remove_fails ns
                   in (l', Suc c, b + length (lf_data f), e)))"

definition PruneAbandonedUploads ::
  "local_store \<Rightarrow> unix_time \<Rightarrow> int \<Rightarrow> bool \<Rightarrow> (string \<Rightarrow> bool) \<Rightarrow> (string \<Rightarrow> bool) \<Rightarrow> string list \<Rightarrow>
   local_store \<times> nat \<times> nat \<times> bool" where
  "PruneAbandonedUploads l now maxAge dryRun info_fails remove_fails names =
     prune_loop l (now - maxAge) dryRun info_fails remove_fails names"

lemmas [blob_simps] = NewLocalBlobStore_def local_Get_def local_Stat_def local_Delete_def
  local_StartUpload_def local_ResumeUpload_def local_Write_def file_append_def local_Offset_def forceCloseLocked_def
  set_session_def publish_def local_Commit_def local_Cancel_def

section \<open>All interleavings, with faults and restarts\<close>

inductive local_step :: "hash_fun \<Rightarrow> local_store \<Rightarrow> local_store \<Rightarrow> bool" for hsum where
  lstep_start: "local_StartUpload l rid cf now = (l', r) \<Longrightarrow> local_step hsum l l'"
| lstep_write: "local_Write l h p short now = (l', r) \<Longrightarrow> local_step hsum l l'"
| lstep_commit: "local_Commit hsum l h d F = (l', r) \<Longrightarrow> local_step hsum l l'"
| lstep_cancel: "local_step hsum l (local_Cancel l h)"
| lstep_delete: "local_Delete l d rf = (l', r) \<Longrightarrow> local_step hsum l l'"
| lstep_prune: "PruneAbandonedUploads l now age dry inff rmf names = (l', r) \<Longrightarrow> local_step hsum l l'"
| lstep_restart: "local_step hsum l (NewLocalBlobStore (lo_fs l))"

inductive local_reachable :: "hash_fun \<Rightarrow> local_store \<Rightarrow> bool" for hsum where
  lreach_new: "local_reachable hsum (NewLocalBlobStore Map.empty)"
| lreach_step: "local_reachable hsum l \<Longrightarrow> local_step hsum l l' \<Longrightarrow> local_reachable hsum l'"

inductive_cases local_stepE: "local_step hsum l l'"

text \<open>Below \<open>blobs/\<close> every file sits at the path of the digest of its bytes.\<close>

definition fs_addressed :: "hash_fun \<Rightarrow> (string list \<Rightarrow> lfile option) \<Rightarrow> bool" where
  "fs_addressed hsum fs \<longleftrightarrow> (\<forall>p f. fs (''blobs'' # p) = Some f \<longrightarrow>
     (\<exists>alg. supported alg \<and> ''blobs'' # p = blobPath (digest_of hsum alg (lf_data f))))"

text \<open>An open session owns the tmp file named by its id and is the one the table knows by that id.\<close>

definition session_ok :: "local_store \<Rightarrow> nat \<Rightarrow> local_session \<Rightarrow> bool" where
  "session_ok l h s \<longleftrightarrow> h < lo_next l \<and> (\<not> lse_closed s \<longrightarrow>
     lse_path s = uploadPath (lse_id s) \<and> lo_fs l (uploadPath (lse_id s)) \<noteq> None \<and>
     lo_sessions l (lse_id s) = Some h)"

definition local_inv :: "hash_fun \<Rightarrow> local_store \<Rightarrow> bool" where
  "local_inv hsum l \<longleftrightarrow> fs_addressed hsum (lo_fs l) \<and>
     (\<forall>h s. lo_heap l h = Some s \<longrightarrow> session_ok l h s) \<and>
     (\<forall>i h. lo_sessions l i = Some h \<longrightarrow> (\<exists>s. lo_heap l h = Some s \<and> lse_id s = i \<and> \<not> lse_closed s))"

lemma uploadPath_neq [simp]:
  "uploadPath i \<noteq> blobPath d" "blobPath d \<noteq> uploadPath i" "uploadPath i \<noteq> ''blobs'' # p"
  "''blobs'' # p \<noteq> uploadPath i" "uploadPath i = uploadPath j \<longleftrightarrow> i = j"
  by (auto simp: uploadPath_def blobPath_def)

lemma blobPath_Cons: "\<exists>q. blobPath d = ''blobs'' # q"
  by (simp add: blobPath_def)

lemma blobPath_inj: "valid_digest d \<Longrightarrow> valid_digest e \<Longrightarrow> blobPath d = blobPath e \<Longrightarrow> d = e"
  using valid_digestD(3) by (fastforce simp: blobPath_def split: if_splits)

lemma fs_addressed_upload:
  "fs_addressed hsum fs \<Longrightarrow> fs_addressed hsum (fs(uploadPath i := v))"
  by (simp add: fs_addressed_def)

lemma fs_addressed_remove: "fs_addressed hsum fs \<Longrightarrow> fs_addressed hsum (fs(p := None))"
  by (auto simp: fs_addressed_def split: if_splits)

lemma fs_addressed_put:
  "fs_addressed hsum fs \<Longrightarrow> supported alg \<Longrightarrow>
   fs_addressed hsum (fs(blobPath (digest_of hsum alg (lf_data f)) \<mapsto> f))"
  by (auto simp: fs_addressed_def split: if_splits)

lemma local_invI:
  "fs_addressed hsum (lo_fs l) \<Longrightarrow> (\<And>h s. lo_heap l h = Some s \<Longrightarrow> session_ok l h s) \<Longrightarrow>
   (\<And>i h. lo_sessions l i = Some h \<Longrightarrow> \<exists>s. lo_heap l h = Some s \<and> lse_id s = i \<and> \<not> lse_closed s) \<Longrightarrow>
   local_inv hsum l"
  by (simp add: local_inv_def)

lemma local_invD:
  assumes "local_inv hsum l"
  shows local_inv_addressed: "fs_addressed hsum (lo_fs l)"
    and local_inv_session: "lo_heap l h = Some s \<Longrightarrow> session_ok l h s"
    and local_inv_less: "lo_heap l h = Some s \<Longrightarrow> h < lo_next l"
    and local_inv_open: "lo_heap l h = Some s \<Longrightarrow> \<not> lse_closed s \<Longrightarrow>
      lse_path s = uploadPath (lse_id s) \<and> lo_fs l (uploadPath (lse_id s)) \<noteq> None \<and>
      lo_sessions l (lse_id s) = Some h"
    and local_inv_table: "lo_sessions l i = Some h \<Longrightarrow>
      \<exists>s. lo_heap l h = Some s \<and> lse_id s = i \<and> \<not> lse_closed s"
  using assms by (simp_all add: local_inv_def session_ok_def)

lemma local_inv_fresh: "local_inv hsum l \<Longrightarrow> lo_heap l (lo_next l) = None"
  by (metis local_inv_less less_irrefl option.exhaust)

text \<open>The three ways an operation changes the state keep the invariant.\<close>

lemma local_inv_fs:
  assumes "local_inv hsum l" "fs_addressed hsum fs"
    and "\<And>i. lo_sessions l i \<noteq> None \<Longrightarrow> lo_fs l (uploadPath i) \<noteq> None \<Longrightarrow> fs (uploadPath i) \<noteq> None"
  shows "local_inv hsum (l\<lparr>lo_fs := fs\<rparr>)"
proof (rule local_invI)
  fix h s
  assume "lo_heap (l\<lparr>lo_fs := fs\<rparr>) h = Some s"
  then have "lo_heap l h = Some s" by simp
  with assms(1) show "session_ok (l\<lparr>lo_fs := fs\<rparr>) h s"
    using local_inv_open [OF assms(1)] local_inv_less [OF assms(1)] assms(3)
    by (auto simp: session_ok_def)
qed (use assms local_inv_table [OF assms(1)] in auto)

lemma local_inv_set_session:
  assumes "local_inv hsum l" "lo_heap l h = Some s" "\<not> lse_closed s"
    and "lse_id s' = lse_id s" "lse_path s' = lse_path s" "\<not> lse_closed s'"
  shows "local_inv hsum (set_session l h s')"
proof (rule local_invI)
  fix h' s''
  assume "lo_heap (set_session l h s') h' = Some s''"
  then show "session_ok (set_session l h s') h' s''"
    using local_inv_open [OF assms(1-3)] local_inv_less [OF assms(1,2)] local_inv_session [OF assms(1), of h' s''] assms(4,5)
    by (auto simp: set_session_def session_ok_def split: if_splits)
next
  fix i h'
  assume "lo_sessions (set_session l h s') i = Some h'"
  then show "\<exists>s''. lo_heap (set_session l h s') h' = Some s'' \<and> lse_id s'' = i \<and> \<not> lse_closed s''"
    using local_inv_table [OF assms(1), of i h'] assms(2,4,6) by (auto simp: set_session_def)
qed (use local_inv_addressed [OF assms(1)] in \<open>simp add: set_session_def\<close>)

lemma local_inv_close:
  assumes "local_inv hsum l" "lo_heap l h = Some s" "\<not> lse_closed s" "lse_closed s'"
    and "fs_addressed hsum fs"
    and "\<And>i. i \<noteq> lse_id s \<Longrightarrow> lo_fs l (uploadPath i) \<noteq> None \<Longrightarrow> fs (uploadPath i) \<noteq> None"
  shows "local_inv hsum (l\<lparr>lo_fs := fs, lo_heap := (lo_heap l)(h \<mapsto> s'),
    lo_sessions := (lo_sessions l)(lse_id s := None)\<rparr>)" (is "local_inv hsum ?l'")
proof -
  have tab: "lo_sessions l (lse_id s) = Some h" and h: "h < lo_next l"
    using local_inv_open [OF assms(1-3)] local_inv_less [OF assms(1,2)] by auto
  have "session_ok ?l' h' s''" if s'': "lo_heap ?l' h' = Some s''" for h' s''
  proof (cases "h' = h")
    case False
    with s'' have "session_ok l h' s''" using local_inv_session [OF assms(1)] by simp
    moreover from this have "lse_id s'' \<noteq> lse_id s" if "\<not> lse_closed s''"
      using that tab False by (auto simp: session_ok_def)
    ultimately show ?thesis using assms(6) by (auto simp: session_ok_def)
  qed (use s'' h assms(4) in \<open>simp add: session_ok_def\<close>)
  moreover have "\<exists>s''. lo_heap ?l' h' = Some s'' \<and> lse_id s'' = i \<and> \<not> lse_closed s''"
    if "lo_sessions ?l' i = Some h'" for i h'
    using that local_inv_table [OF assms(1), of i h'] assms(2) by (auto split: if_splits)
  ultimately show ?thesis using assms(5) by (intro local_invI) simp_all
qed

lemma local_inv_new: "fs_addressed hsum fs \<Longrightarrow> local_inv hsum (NewLocalBlobStore fs)"
  by (simp add: local_inv_def NewLocalBlobStore_def)

lemma local_inv_forceClose:
  "local_inv hsum l \<Longrightarrow> lo_heap l h = Some s \<Longrightarrow> \<not> lse_closed s \<Longrightarrow>
   local_inv hsum (forceCloseLocked l h s)"
  unfolding forceCloseLocked_def
  using local_inv_open [of hsum l h s] local_inv_addressed [of hsum l]
  by (intro local_inv_close) (auto intro: fs_addressed_remove)

lemma local_inv_start:
  assumes inv: "local_inv hsum l" and st: "local_StartUpload l rid cf now = (l', r)"
  shows "local_inv hsum l'"
proof (cases "l' = l")
  case False
  with st obtain i where i: "rid = Some i" "lo_fs l (uploadPath i) = None"
    and l': "l' = l\<lparr>lo_fs := (lo_fs l)(uploadPath i \<mapsto> \<lparr>lf_data = [], lf_mtime = now\<rparr>),
       lo_heap := (lo_heap l)(lo_next l \<mapsto> \<lparr>lse_id = i, lse_path = uploadPath i, lse_fopen = True,
         lse_pos = 0, lse_n = 0, lse_closed = False\<rparr>),
       lo_sessions := (lo_sessions l)(i \<mapsto> lo_next l), lo_next := Suc (lo_next l)\<rparr>"
    by (auto simp: local_StartUpload_def Let_def split: option.splits if_splits)
  note ne = local_inv_fresh [OF inv]
  show ?thesis
  proof (rule local_invI)
    fix h s
    assume "lo_heap l' h = Some s"
    then show "session_ok l' h s"
      using local_inv_session [OF inv, of h s] i(2)
      by (auto simp: l' session_ok_def split: if_splits)
  next
    fix j h
    assume "lo_sessions l' j = Some h"
    then show "\<exists>s. lo_heap l' h = Some s \<and> lse_id s = j \<and> \<not> lse_closed s"
      using local_inv_table [OF inv, of j h] ne by (auto simp: l' split: if_splits)
  qed (use local_inv_addressed [OF inv] in \<open>simp add: l' fs_addressed_upload\<close>)
qed (use inv in simp)

lemma local_inv_write:
  assumes inv: "local_inv hsum l" and wr: "local_Write l h p short now = (l', r)"
  shows "local_inv hsum l'"
proof (cases "l' = l")
  case False
  with wr obtain s f q where s: "lo_heap l h = Some s" "\<not> lse_closed s"
    and "l' = file_append l h s f q now"
    by (auto simp: local_Write_def split: option.splits if_splits)
  then have l': "l' = (set_session l h (s\<lparr>lse_pos := lse_pos s + length q, lse_n := lse_n s + length q\<rparr>))
      \<lparr>lo_fs := (lo_fs l)(lse_path s \<mapsto> \<lparr>lf_data = write_at (lf_data f) (lse_pos s) q, lf_mtime = now\<rparr>)\<rparr>"
    by (simp add: file_append_def set_session_def)
  have path: "lse_path s = uploadPath (lse_id s)" using local_inv_open [OF inv s] by simp
  show ?thesis unfolding l' path
    using inv s local_inv_addressed [OF inv]
    by (intro local_inv_fs local_inv_set_session [where s = s] fs_addressed_upload)
      (auto simp: set_session_def)
qed (use inv in simp)

lemma local_inv_publish:
  assumes inv: "local_inv hsum l" and s: "lo_heap l h = Some s" "\<not> lse_closed s"
    and f: "lo_fs l (lse_path s) = Some f" "supported alg"
    and pb: "publish l h s f (digest_of hsum alg (lf_data f)) F = (l', r)"
  shows "local_inv hsum l'"
proof -
  have path: "lse_path s = uploadPath (lse_id s)" and fa: "fs_addressed hsum (lo_fs l)"
    using local_inv_open [OF inv s] local_inv_addressed [OF inv] by auto
  consider "l' = set_session l h (s\<lparr>lse_fopen := False\<rparr>)"
    | fs where "fs = (lo_fs l)(lse_path s := None) \<or>
          fs = (lo_fs l)(lse_path s := None, blobPath (digest_of hsum alg (lf_data f)) \<mapsto> f)"
        "l' = l\<lparr>lo_fs := fs, lo_heap := (lo_heap l)(h \<mapsto> s\<lparr>lse_fopen := False, lse_closed := True\<rparr>),
               lo_sessions := (lo_sessions l)(lse_id s := None)\<rparr>"
    using pb by (auto simp: publish_def Let_def split: if_splits)
  then show ?thesis
  proof cases
    case 1
    then show ?thesis using inv s by (auto intro: local_inv_set_session)
  next
    case 2
    then have "fs_addressed hsum fs" using fa f(2) fs_addressed_put fs_addressed_remove by metis
    with 2 show ?thesis using inv s path by (auto intro!: local_inv_close)
  qed
qed

lemma local_inv_commit:
  assumes inv: "local_inv hsum l" and cm: "local_Commit hsum l h d F = (l', r)"
  shows "local_inv hsum l'"
proof (cases "l' = l")
  case False
  then obtain s where s: "lo_heap l h = Some s" "\<not> lse_closed s"
    using cm by (auto simp: local_Commit_def split: option.splits if_splits)
  consider pos where "l' = set_session l h (s\<lparr>lse_pos := pos\<rparr>)" | "l' = forceCloseLocked l h s"
    | f alg where "lo_fs l (lse_path s) = Some f" "supported alg"
        "publish l h s f (digest_of hsum alg (lf_data f)) F = (l', r)"
    using cm False s
    by (auto simp: local_Commit_def Let_def NewHasher_supported digest_of_def
        split: option.splits if_splits)
  then show ?thesis
    using inv s by cases (auto intro: local_inv_set_session local_inv_forceClose local_inv_publish)
qed (use inv in simp)

lemma local_inv_cancel: "local_inv hsum l \<Longrightarrow> local_inv hsum (local_Cancel l h)"
  by (auto simp: local_Cancel_def intro: local_inv_forceClose split: option.splits)

lemma local_inv_delete: "local_inv hsum l \<Longrightarrow> local_Delete l d rf = (l', r) \<Longrightarrow> local_inv hsum l'"
  by (auto simp: local_Delete_def intro!: local_inv_fs fs_addressed_remove local_inv_addressed
      split: option.splits if_splits)

text \<open>Pruning leaves the session table alone and keeps every file a session in it owns.\<close>

lemma prune_loop_keeps:
  "prune_loop l t dry inff rmf ns = (l', c, b, e) \<Longrightarrow>
   lo_sessions l' = lo_sessions l \<and> lo_heap l' = lo_heap l \<and> lo_next l' = lo_next l \<and>
   (\<forall>p. (\<forall>n f. p = uploadPath n \<longrightarrow> lo_fs l p = Some f \<longrightarrow> n \<in> set ns \<longrightarrow>
         lo_sessions l n \<noteq> None \<or> lf_mtime f > t \<or> dry) \<longrightarrow> lo_fs l' p = lo_fs l p) \<and>
   (\<forall>p. lo_fs l' p = lo_fs l p \<or> lo_fs l' p = None)"
proof (induction ns arbitrary: l l' c b e)
  case (Cons n ns)
  show ?case
  proof (cases "l' = fst (prune_loop l t dry inff rmf ns)")
    case True
    obtain l1 c1 b1 e1 where r: "prune_loop l t dry inff rmf ns = (l1, c1, b1, e1)"
      by (cases "prune_loop l t dry inff rmf ns") auto
    with True Cons.IH [OF r] show ?thesis by simp
  next
    case False
    then obtain f c1 b1 e1 where
      r: "prune_loop (l\<lparr>lo_fs := (lo_fs l)(uploadPath n := None)\<rparr>) t dry inff rmf ns = (l', c1, b1, e1)"
      and f: "lo_sessions l n = None" "lo_fs l (uploadPath n) = Some f" "\<not> lf_mtime f > t" "\<not> dry"
      using Cons.prems
      by (auto simp: Let_def split: option.splits if_splits prod.splits)
    from Cons.IH [OF r] f show ?thesis
      by (auto split: if_splits) (metis option.distinct(1))
  qed
qed simp

lemma local_inv_prune:
  assumes inv: "local_inv hsum l" and pr: "PruneAbandonedUploads l now age dry inff rmf ns = (l', r)"
  shows "local_inv hsum l'"
proof -
  obtain c b e where r: "prune_loop l (now - age) dry inff rmf ns = (l', c, b, e)"
    using pr by (cases r) (auto simp: PruneAbandonedUploads_def)
  note k = prune_loop_keeps [OF r]
  have eq: "l' = l\<lparr>lo_fs := lo_fs l'\<rparr>" using k by (cases l; cases l') simp
  have "fs_addressed hsum (lo_fs l')" using inv k by (fastforce simp: fs_addressed_def local_inv_def)
  moreover have "lo_fs l' (uploadPath i) \<noteq> None"
    if "lo_sessions l i \<noteq> None" "lo_fs l (uploadPath i) \<noteq> None" for i
    using that k by (metis uploadPath_neq(5))
  ultimately show ?thesis using inv local_inv_fs eq by metis
qed

lemma local_step_inv: "local_step hsum l l' \<Longrightarrow> local_inv hsum l \<Longrightarrow> local_inv hsum l'"
  by (erule local_stepE)
    (auto intro: local_inv_start local_inv_write local_inv_commit local_inv_cancel local_inv_delete
      local_inv_prune local_inv_new local_inv_addressed)

lemma local_reachable_inv: "local_reachable hsum l \<Longrightarrow> local_inv hsum l"
  by (induction rule: local_reachable.induct)
    (auto intro: local_step_inv local_inv_new simp: fs_addressed_def)

section \<open>The store implements the contract\<close>

definition local_blobs_of :: "local_store \<Rightarrow> digest \<Rightarrow> bytes option" where
  "local_blobs_of l d = map_option lf_data (lo_fs l (blobPath d))"

definition local_open_of :: "local_store \<Rightarrow> nat \<Rightarrow> bytes option" where
  "local_open_of l h = (case lo_heap l h of None \<Rightarrow> None
     | Some s \<Rightarrow> if lse_closed s then None else map_option lf_data (lo_fs l (uploadPath (lse_id s))))"

text \<open>Without faults and with supported algorithms a session's offset is always at the end of its file.\<close>

definition at_end :: "local_store \<Rightarrow> bool" where
  "at_end l \<longleftrightarrow> (\<forall>h s f. lo_heap l h = Some s \<longrightarrow> \<not> lse_closed s \<longrightarrow> lo_fs l (uploadPath (lse_id s)) = Some f \<longrightarrow>
     lse_fopen s \<and> lse_pos s = length (lf_data f) \<and> lse_n s = length (lf_data f))"

definition local_invar :: "hash_fun \<Rightarrow> local_store \<Rightarrow> bool" where
  "local_invar hsum l \<longleftrightarrow> sum_length hsum \<and> local_inv hsum l \<and> at_end l"

lemma local_invarD:
  assumes "local_invar hsum l"
  shows "sum_length hsum" "local_inv hsum l" "at_end l"
  using assms by (simp_all add: local_invar_def)

lemma local_open_of_Some:
  assumes "local_invar hsum l" "local_open_of l h = Some b"
  obtains s f where "lo_heap l h = Some s" "\<not> lse_closed s" "lse_path s = uploadPath (lse_id s)"
    "lo_fs l (uploadPath (lse_id s)) = Some f" "lf_data f = b" "lse_fopen s"
    "lse_pos s = length b" "lse_n s = length b" "lo_sessions l (lse_id s) = Some h"
  using assms local_inv_open [OF local_invarD(2) [OF assms(1)], of h]
  by (auto simp: local_open_of_def local_invar_def at_end_def split: option.splits if_splits)

lemma local_open_of_None:
  "local_inv hsum l \<Longrightarrow> local_open_of l h = None \<longleftrightarrow> (\<forall>s. lo_heap l h = Some s \<longrightarrow> lse_closed s)"
  using local_inv_open [of hsum l h]
  by (auto simp: local_open_of_def split: option.splits if_splits)

lemma ids_distinct:
  "local_inv hsum l \<Longrightarrow> lo_heap l h = Some s \<Longrightarrow> \<not> lse_closed s \<Longrightarrow> lo_heap l h' = Some s' \<Longrightarrow>
   \<not> lse_closed s' \<Longrightarrow> h \<noteq> h' \<Longrightarrow> lse_id s \<noteq> lse_id s'"
  using local_inv_open by (metis option.inject)

text \<open>Changing one session and its own file shows only at that session.\<close>

lemma local_open_of_own:
  assumes inv: "local_inv hsum l" and s: "lo_heap l h = Some s" "\<not> lse_closed s" "lse_id s' = lse_id s"
    and fs: "\<And>i. i \<noteq> lse_id s \<Longrightarrow> fs (uploadPath i) = lo_fs l (uploadPath i)"
    and l': "lo_heap l' = (lo_heap l)(h \<mapsto> s')" "lo_fs l' = fs"
  shows "local_open_of l' = (local_open_of l)(h := (if lse_closed s' then None
    else map_option lf_data (fs (uploadPath (lse_id s)))))"
proof
  fix k
  show "local_open_of l' k = ((local_open_of l)(h := (if lse_closed s' then None
    else map_option lf_data (fs (uploadPath (lse_id s)))))) k"
  proof (cases "k = h")
    case False
    then show ?thesis
      using ids_distinct [OF inv s(1,2), of k] fs
      by (fastforce simp: local_open_of_def l' split: option.splits)
  qed (simp add: local_open_of_def l' s(3))
qed

lemma at_end_own:
  assumes inv: "local_inv hsum l" "at_end l" and s: "lo_heap l h = Some s" "\<not> lse_closed s" "lse_id s' = lse_id s"
    and fs: "\<And>i. i \<noteq> lse_id s \<Longrightarrow> fs (uploadPath i) = lo_fs l (uploadPath i)"
    and l': "lo_heap l' = (lo_heap l)(h \<mapsto> s')" "lo_fs l' = fs"
    and own: "\<And>f. \<not> lse_closed s' \<Longrightarrow> fs (uploadPath (lse_id s)) = Some f \<Longrightarrow>
      lse_fopen s' \<and> lse_pos s' = length (lf_data f) \<and> lse_n s' = length (lf_data f)"
  shows "at_end l'"
  unfolding at_end_def
proof (intro allI impI)
  fix k t f
  assume t: "lo_heap l' k = Some t" "\<not> lse_closed t" "lo_fs l' (uploadPath (lse_id t)) = Some f"
  show "lse_fopen t \<and> lse_pos t = length (lf_data f) \<and> lse_n t = length (lf_data f)"
  proof (cases "k = h")
    case True
    with t own s(3) show ?thesis by (simp add: l')
  next
    case False
    with t have k: "lo_heap l k = Some t" by (simp add: l')
    with ids_distinct [OF inv(1) s(1,2) k t(2)] False have "lse_id t \<noteq> lse_id s" by auto
    with k t fs inv(2) show ?thesis by (auto simp: at_end_def l')
  qed
qed

lemma write_at_end [simp]: "write_at c (length c) p = c @ p"
  by (simp add: write_at_def)

lemma local_blobs_of_upload [simp]:
  "local_blobs_of (l\<lparr>lo_fs := (lo_fs l)(uploadPath i := v), lo_heap := hp\<rparr>) = local_blobs_of l"
  "local_blobs_of (l\<lparr>lo_fs := (lo_fs l)(uploadPath i := v), lo_heap := hp, lo_sessions := st\<rparr>) = local_blobs_of l"
  "local_blobs_of (l\<lparr>lo_fs := (lo_fs l)(uploadPath i := v), lo_heap := hp, lo_sessions := st, lo_next := n\<rparr>) = local_blobs_of l"
  by (simp_all add: local_blobs_of_def fun_eq_iff)

lemma local_start_law:
  assumes inv: "local_invar hsum l" and st: "local_StartUpload l (Some i) False t = (l', Ok h)"
  shows "local_invar hsum l' \<and> local_open_of l h = None \<and>
    local_open_of l' = (local_open_of l)(h \<mapsto> []) \<and> local_blobs_of l' = local_blobs_of l"
proof -
  note inv' = local_invarD [OF inv]
  have h: "h = lo_next l" and free: "lo_fs l (uploadPath i) = None"
    and l': "l' = l\<lparr>lo_fs := (lo_fs l)(uploadPath i \<mapsto> \<lparr>lf_data = [], lf_mtime = t\<rparr>),
       lo_heap := (lo_heap l)(h \<mapsto> \<lparr>lse_id = i, lse_path = uploadPath i, lse_fopen = True,
         lse_pos = 0, lse_n = 0, lse_closed = False\<rparr>),
       lo_sessions := (lo_sessions l)(i \<mapsto> h), lo_next := Suc h\<rparr>"
    using st by (auto simp: local_StartUpload_def Let_def split: if_splits)
  have other: "lse_id s \<noteq> i" if "lo_heap l k = Some s" "\<not> lse_closed s" for k s
    using local_inv_open [OF inv'(2) that] free by auto
  have none: "local_open_of l h = None"
    using local_inv_fresh [OF inv'(2)] by (simp add: local_open_of_def h)
  have opn: "local_open_of l' = (local_open_of l)(h \<mapsto> [])"
    unfolding l' using other by (fastforce simp: local_open_of_def fun_eq_iff split: option.splits)
  have "at_end l'"
    using inv'(3) other unfolding at_end_def l' by (auto split: if_splits)
  with none opn local_inv_start [OF inv'(2) st] inv'(1) show ?thesis
    by (simp add: local_invar_def) (simp add: l')
qed

lemma local_write_law:
  assumes inv: "local_invar hsum l" and op: "local_open_of l h = Some b"
  shows "\<exists>l'. local_Write l h p None t = (l', Ok (length p)) \<and> local_invar hsum l' \<and>
    local_open_of l' = (local_open_of l)(h \<mapsto> b @ p) \<and> local_blobs_of l' = local_blobs_of l"
proof -
  note inv' = local_invarD [OF inv]
  obtain s f where s: "lo_heap l h = Some s" "\<not> lse_closed s" "lse_path s = uploadPath (lse_id s)"
    "lo_fs l (uploadPath (lse_id s)) = Some f" "lf_data f = b" "lse_fopen s"
    "lse_pos s = length b" "lse_n s = length b"
    using local_open_of_Some [OF inv op] by metis
  define l' where "l' = file_append l h s f p t"
  have w: "local_Write l h p None t = (l', Ok (length p))"
    using s by (simp add: local_Write_def l'_def)
  define fs where "fs = (lo_fs l)(uploadPath (lse_id s) \<mapsto> \<lparr>lf_data = b @ p, lf_mtime = t\<rparr>)"
  have l': "lo_heap l' = (lo_heap l)(h \<mapsto> s\<lparr>lse_pos := length b + length p, lse_n := length b + length p\<rparr>)"
    "lo_fs l' = fs"
    using s write_at_end [of b p] by (simp_all add: l'_def file_append_def fs_def)
  have "local_open_of l' = (local_open_of l)(h \<mapsto> b @ p)"
    using local_open_of_own [OF inv'(2) s(1,2) _ _ l'] s(2) by (simp add: fs_def)
  moreover have "at_end l'"
    using at_end_own [OF inv'(2,3) s(1,2) _ _ l'] s by (simp add: fs_def)
  moreover have "local_blobs_of l' = local_blobs_of l"
    using s by (simp add: l'_def file_append_def)
  ultimately show ?thesis
    using w local_inv_write [OF inv'(2) w] inv'(1) by (simp add: local_invar_def)
qed

lemma local_closed_law:
  assumes "local_invar hsum l" "local_open_of l h = None"
  shows "local_Write l h p sh t = (l, Err ErrSessionClosed)"
    and "local_Commit hsum l h d F = (l, Err ErrSessionClosed)"
  using assms local_open_of_None [OF local_invarD(2) [OF assms(1)], of h]
  by (auto simp: local_Write_def local_Commit_def split: option.splits)

lemma local_commit_law:
  assumes inv: "local_invar hsum l" and op: "local_open_of l h = Some b" and sup: "supported alg"
  shows "\<exists>l'. local_Commit hsum l h (digest_of hsum alg b) no_faults = (l', Ok (digest_of hsum alg b)) \<and>
    local_invar hsum l' \<and> local_open_of l' = (local_open_of l)(h := None) \<and>
    (\<forall>e. valid_digest e \<longrightarrow> local_blobs_of l' e = ((local_blobs_of l)(digest_of hsum alg b \<mapsto> b)) e)"
proof -
  note inv' = local_invarD [OF inv]
  obtain s f where s: "lo_heap l h = Some s" "\<not> lse_closed s" "lse_path s = uploadPath (lse_id s)"
    "lo_fs l (uploadPath (lse_id s)) = Some f" "lf_data f = b" "lse_fopen s"
    using local_open_of_Some [OF inv op] by metis
  let ?d = "digest_of hsum alg b" and ?s' = "s\<lparr>lse_fopen := False, lse_closed := True\<rparr>"
  define fs where "fs = (lo_fs l)(uploadPath (lse_id s) := None, blobPath ?d \<mapsto> f)"
  define l' where "l' = l\<lparr>lo_fs := fs, lo_heap := (lo_heap l)(h \<mapsto> ?s'),
    lo_sessions := (lo_sessions l)(lse_id s := None)\<rparr>"
  have "alg \<noteq> []" using sup by (auto simp: supported_def)
  moreover have "Equal ?d ?d" by (simp add: Equal_def equal_fold_def)
  ultimately have c: "local_Commit hsum l h ?d no_faults = (l', Ok ?d)"
    using s sup
    by (simp add: local_Commit_def NewHasher_supported no_faults_def publish_def l'_def fs_def
        Let_def flip: digest_of_def)
  have l': "lo_heap l' = (lo_heap l)(h \<mapsto> ?s')" "lo_fs l' = fs" by (simp_all add: l'_def)
  have "local_open_of l' = (local_open_of l)(h := None)"
    using local_open_of_own [OF inv'(2) s(1,2) _ _ l'] by (simp add: fs_def)
  moreover have "at_end l'"
    using at_end_own [OF inv'(2,3) s(1,2) _ _ l'] by (simp add: fs_def)
  moreover have "local_blobs_of l' e = ((local_blobs_of l)(?d \<mapsto> b)) e" if "valid_digest e" for e
    using blobPath_inj [OF that valid_digest_of [OF inv'(1) sup]] s(5)
    by (auto simp: local_blobs_of_def l'_def fs_def)
  ultimately show ?thesis
    using c local_inv_commit [OF inv'(2) c] inv'(1) by (simp add: local_invar_def)
qed

lemma local_commit_mismatch:
  assumes inv: "local_invar hsum l" and op: "local_open_of l h = Some b" and v: "valid_digest d"
    and ne: "d \<noteq> digest_of hsum (Algorithm d) b"
  shows "local_Commit hsum l h d no_faults = (l, Err (ErrDigestMismatch (digest_of hsum (Algorithm d) b)))"
proof -
  obtain s f where s: "lo_heap l h = Some s" "\<not> lse_closed s" "lse_path s = uploadPath (lse_id s)"
    "lo_fs l (uploadPath (lse_id s)) = Some f" "lf_data f = b" "lse_fopen s" "lse_pos s = length b"
    "lse_n s = length b"
    using local_open_of_Some [OF inv op] by metis
  note vd = valid_digestD [OF v]
  have "\<not> Equal d (digest_of hsum (Algorithm d) b)"
    using v ne valid_digest_of [OF local_invarD(1) [OF inv] vd(1)] Equal_lower by (metis valid_digest_def)
  moreover have "set_session l h (s\<lparr>lse_pos := lse_n s\<rparr>) = l"
    using s by (simp add: set_session_def fun_upd_idem)
  moreover have "Algorithm d \<noteq> []" using vd(1) by (auto simp: supported_def)
  ultimately show ?thesis
    using s vd by (simp add: local_Commit_def NewHasher_supported no_faults_def Let_def flip: digest_of_def)
qed

lemma local_cancel_law:
  assumes inv: "local_invar hsum l"
  shows "local_invar hsum (local_Cancel l h) \<and>
    local_open_of (local_Cancel l h) = (local_open_of l)(h := None) \<and>
    local_blobs_of (local_Cancel l h) = local_blobs_of l"
proof (cases "local_open_of l h")
  case None
  then have "local_Cancel l h = l"
    using local_open_of_None [OF local_invarD(2) [OF inv], of h]
    by (auto simp: local_Cancel_def split: option.splits)
  with None inv show ?thesis by (simp add: fun_upd_idem)
next
  case (Some b)
  note inv' = local_invarD [OF inv]
  obtain s where s: "lo_heap l h = Some s" "\<not> lse_closed s" "lse_path s = uploadPath (lse_id s)"
    using local_open_of_Some [OF inv Some] by metis
  then have c: "local_Cancel l h = forceCloseLocked l h s" by (simp add: local_Cancel_def)
  let ?l' = "forceCloseLocked l h s" and ?s' = "s\<lparr>lse_closed := True, lse_fopen := False\<rparr>"
  have l': "lo_heap ?l' = (lo_heap l)(h \<mapsto> ?s')" "lo_fs ?l' = (lo_fs l)(uploadPath (lse_id s) := None)"
    using s by (simp_all add: forceCloseLocked_def)
  have "local_open_of ?l' = (local_open_of l)(h := None)"
    using local_open_of_own [OF inv'(2) s(1,2) _ _ l'] by simp
  moreover have "at_end ?l'" using at_end_own [OF inv'(2,3) s(1,2) _ _ l'] by simp
  moreover have "local_blobs_of ?l' = local_blobs_of l" using s by (simp add: forceCloseLocked_def)
  ultimately show ?thesis
    using local_inv_forceClose [OF inv'(2) s(1,2)] inv'(1) unfolding c by (simp add: local_invar_def)
qed

lemma local_delete_law:
  assumes inv: "local_invar hsum l" and v: "valid_digest d" and del: "local_Delete l d False = (l', r)"
  shows "local_invar hsum l' \<and> local_open_of l' = local_open_of l \<and>
    (\<forall>e. valid_digest e \<longrightarrow> local_blobs_of l' e = ((local_blobs_of l)(d := None)) e) \<and>
    r = (if local_blobs_of l d = None then Err ErrNotFound else Ok ())"
proof -
  note inv' = local_invarD [OF inv]
  have "at_end l'" "local_open_of l' = local_open_of l"
    using del inv'(3) by (auto simp: local_Delete_def at_end_def local_open_of_def fun_eq_iff split: option.splits)
  moreover have "\<forall>e. valid_digest e \<longrightarrow> local_blobs_of l' e = ((local_blobs_of l)(d := None)) e"
    using del blobPath_inj [OF _ v] by (auto simp: local_Delete_def local_blobs_of_def split: option.splits)
  moreover have "r = (if local_blobs_of l d = None then Err ErrNotFound else Ok ())"
    using del by (auto simp: local_Delete_def local_blobs_of_def split: option.splits)
  ultimately show ?thesis using local_inv_delete [OF inv'(2) del] inv'(1) by (simp add: local_invar_def)
qed

interpretation loc: blob_store hsum "local_invar hsum" local_blobs_of local_open_of
  "\<lambda>l d. map_sum id fst (local_Get l d False False)" "\<lambda>l d. local_Delete l d False"
  "\<lambda>l i. local_StartUpload l (Some i) False t" "\<lambda>l h p. local_Write l h p None t"
  "\<lambda>l h d now. local_Commit hsum l h d no_faults" local_Cancel
proof (unfold_locales, goal_cases)
  case 2
  then show ?case by (simp add: local_Get_def local_blobs_of_def split: option.splits)
next
  case (6 l h b alg now)
  then show ?case by (rule local_commit_law)
qed (auto simp: local_commit_mismatch local_closed_law local_cancel_law dest: local_invarD(1)
    local_start_law local_delete_law intro: local_write_law)

section \<open>Properties of the store on disk\<close>

text \<open>
  C5: nothing partial is ever addressable.  Whatever system calls fail, however clients interleave,
  and across process restarts and prunes, every file below \<open>blobs/\<close> sits at the path of the digest
  of its own bytes.
\<close>

theorem local_content_addressed:
  assumes "local_reachable hsum l" and "lo_fs l (''blobs'' # p) = Some f"
  shows "\<exists>alg. supported alg \<and> ''blobs'' # p = blobPath (digest_of hsum alg (lf_data f))"
  using local_inv_addressed [OF local_reachable_inv [OF assms(1)]] assms(2) by (simp add: fs_addressed_def)

theorem local_content_addressed_witness:
  "\<exists>l f. local_reachable (\<lambda>a d. d) l \<and>
     lo_fs l (blobPath (digest_of (\<lambda>a d. d) ''sha256'' [7])) = Some f \<and>
     (\<exists>alg. supported alg \<and>
        blobPath (digest_of (\<lambda>a d. d) ''sha256'' [7]) = blobPath (digest_of (\<lambda>a d. d) alg (lf_data f)))"
proof -
  let ?f = "(\<lambda>a d. d) :: hash_fun"
  define l1 where "l1 = fst (local_StartUpload (NewLocalBlobStore Map.empty) (Some ''u'') False 1)"
  define l2 where "l2 = fst (local_Write l1 0 [7] None 2)"
  define l3 where "l3 = fst (local_Commit ?f l2 0 \<lparr>Algorithm = [], Hex = []\<rparr> no_faults)"
  have "local_reachable ?f l1"
    unfolding l1_def by (rule lreach_step [OF lreach_new]) (rule lstep_start, rule prod.collapse [symmetric])
  then have "local_reachable ?f l2"
    unfolding l2_def by (rule lreach_step) (rule lstep_write, rule prod.collapse [symmetric])
  then have r: "local_reachable ?f l3"
    unfolding l3_def by (rule lreach_step) (rule lstep_commit, rule prod.collapse [symmetric])
  have p: "lo_fs l3 (blobPath (digest_of ?f ''sha256'' [7])) = Some \<lparr>lf_data = [7], lf_mtime = 2\<rparr>"
    by (simp add: l3_def l2_def l1_def blob_simps Let_def NewHasher_def IsZero_def digest_of_def
        no_faults_def write_at_def)
  obtain q where q: "blobPath (digest_of ?f ''sha256'' [7]) = ''blobs'' # q" using blobPath_Cons by blast
  show ?thesis using r p local_content_addressed [OF r p [unfolded q]] q by fastforce
qed

text \<open>
  An upload to disk reads back.  Without system errors, starting a session, writing any chunks
  and committing under the digest of their concatenation succeeds, serves exactly those bytes under
  that digest, and changes neither any other blob nor any other session.
\<close>

theorem local_upload_roundtrip:
  assumes "local_invar hsum l"
    and "local_StartUpload l (Some i) False t = (l1, Ok h)"
    and "loc.write_all t l1 h ps = (l2, r)" and "supported alg"
    and "local_Commit hsum l2 h (digest_of hsum alg (concat ps)) no_faults = (l3, r')"
  shows "r = Ok () \<and> r' = Ok (digest_of hsum alg (concat ps)) \<and>
    map_sum id fst (local_Get l3 (digest_of hsum alg (concat ps)) False False) = Ok (concat ps) \<and>
    local_open_of l3 = local_open_of l \<and>
    (\<forall>e. valid_digest e \<and> e \<noteq> digest_of hsum alg (concat ps) \<longrightarrow>
       map_sum id fst (local_Get l3 e False False) = map_sum id fst (local_Get l e False False))"
  using loc.upload_roundtrip [OF assms] by blast

theorem local_upload_roundtrip_witness:
  "\<exists>l1 h l2 r l3 r'. local_StartUpload (NewLocalBlobStore Map.empty) (Some ''u'') False 0 = (l1, Ok h) \<and>
     loc.write_all 0 l1 h [[1], [2, 3]] = (l2, r) \<and>
     local_Commit sample_sum l2 h (digest_of sample_sum ''sha256'' (concat [[1], [2, 3]])) no_faults = (l3, r') \<and>
     map_sum id fst (local_Get l3 (digest_of sample_sum ''sha256'' (concat [[1], [2, 3]])) False False) =
       Ok (concat [[1], [2, 3]])"
proof -
  let ?l = "NewLocalBlobStore Map.empty"
  have inv: "local_invar sample_sum ?l"
    using sample_sum_length local_inv_new [of sample_sum Map.empty]
    by (simp add: local_invar_def fs_addressed_def at_end_def NewLocalBlobStore_def)
  obtain l1 h where st: "local_StartUpload ?l (Some ''u'') False 0 = (l1, Ok h)"
    by (simp add: local_StartUpload_def NewLocalBlobStore_def Let_def)
  obtain l2 r where wr: "loc.write_all 0 l1 h [[1], [2, 3]] = (l2, r)" by fastforce
  obtain l3 r' where cm: "local_Commit sample_sum l2 h
      (digest_of sample_sum ''sha256'' (concat [[1], [2, 3]])) no_faults = (l3, r')" by fastforce
  have "supported ''sha256''" by (simp add: supported_def)
  from local_upload_roundtrip [OF inv st wr this cm] st wr cm show ?thesis by blast
qed

text \<open>
  Pruning is safe.  \<open>PruneAbandonedUploads\<close> removes nothing that a session in the table owns,
  nothing newer than the age limit, nothing outside \<open>_uploads/\<close>, and nothing at all in a dry run.
\<close>

theorem prune_safe:
  assumes "PruneAbandonedUploads l now maxAge dryRun inff rmf names = (l', c, b, e)"
    and "lo_fs l' p \<noteq> lo_fs l p"
  shows "\<not> dryRun \<and> lo_fs l' p = None \<and>
    (\<exists>n f. p = uploadPath n \<and> n \<in> set names \<and> lo_fs l p = Some f \<and> lo_sessions l n = None \<and>
       lf_mtime f \<le> now - maxAge)"
proof -
  have r: "prune_loop l (now - maxAge) dryRun inff rmf names = (l', c, b, e)"
    using assms(1) by (simp add: PruneAbandonedUploads_def)
  have "\<not> dryRun \<and> (\<exists>n f. p = uploadPath n \<and> lo_fs l p = Some f \<and> n \<in> set names \<and>
      lo_sessions l n = None \<and> lf_mtime f \<le> now - maxAge)"
    using prune_loop_keeps [OF r] assms(2) by (metis not_le)
  then show ?thesis using prune_loop_keeps [OF r] assms(2) by metis
qed

theorem prune_safe_witness:
  "let l = NewLocalBlobStore [uploadPath ''a'' \<mapsto> \<lparr>lf_data = [1], lf_mtime = 5\<rparr>,
                              uploadPath ''b'' \<mapsto> \<lparr>lf_data = [2], lf_mtime = 95\<rparr>];
       (l', c, b, e) = PruneAbandonedUploads l 100 50 False (\<lambda>_. False) (\<lambda>_. False) [''a'', ''b'']
   in lo_fs l' (uploadPath ''a'') = None \<and> lo_fs l' (uploadPath ''b'') \<noteq> None \<and> c = 1 \<and>
      (\<exists>n f. uploadPath ''a'' = uploadPath n \<and> n \<in> set [''a'', ''b''] \<and>
         lo_fs l (uploadPath ''a'') = Some f \<and> lo_sessions l n = None \<and> lf_mtime f \<le> 100 - 50)"
proof -
  let ?l = "NewLocalBlobStore [uploadPath ''a'' \<mapsto> \<lparr>lf_data = [1], lf_mtime = 5\<rparr>,
                              uploadPath ''b'' \<mapsto> \<lparr>lf_data = [2], lf_mtime = 95\<rparr>]"
  obtain l' c b e where r: "PruneAbandonedUploads ?l 100 50 False (\<lambda>_. False) (\<lambda>_. False) [''a'', ''b''] = (l', c, b, e)"
    by (metis prod_cases4)
  then have v: "lo_fs l' (uploadPath ''a'') = None" "lo_fs l' (uploadPath ''b'') \<noteq> None" "c = 1"
    by (auto simp: PruneAbandonedUploads_def NewLocalBlobStore_def)
  then have "lo_fs l' (uploadPath ''a'') \<noteq> lo_fs ?l (uploadPath ''a'')"
    by (simp add: NewLocalBlobStore_def)
  from prune_safe [OF r this] v r show ?thesis by simp
qed

text \<open>
  A failed commit can corrupt the session.  When \<open>Commit\<close> is called with an algorithm
  \<open>NewHasher\<close> rejects, it has already rewound the file and returns without seeking back, so the next
  \<open>Write\<close> overwrites the bytes received so far instead of appending to them.
\<close>

theorem local_commit_unsupported_rewinds:
  assumes "local_invar hsum l" and "local_open_of l h = Some b" and "\<not> supported alg" and "alg \<noteq> []"
    and "local_Commit hsum l h \<lparr>Algorithm = alg, Hex = hx\<rparr> no_faults = (l1, r1)"
    and "local_Write l1 h p None t = (l2, r2)"
  shows "r1 = Err ErrHasher \<and> r2 = Ok (length p) \<and> local_open_of l2 h = Some (p @ drop (length p) b)
    \<and> local_Offset l2 h = length b + length p"
proof -
  obtain s f where s: "lo_heap l h = Some s" "\<not> lse_closed s" "lse_path s = uploadPath (lse_id s)"
    "lo_fs l (uploadPath (lse_id s)) = Some f" "lf_data f = b" "lse_fopen s" "lse_n s = length b"
    using local_open_of_Some [OF assms(1,2)] by metis
  then have l1: "l1 = set_session l h (s\<lparr>lse_pos := 0\<rparr>)" "r1 = Err ErrHasher"
    using assms(3-5) by (auto simp: local_Commit_def NewHasher_supported no_faults_def Let_def)
  have "l2 = file_append l1 h (s\<lparr>lse_pos := 0\<rparr>) f p t" "r2 = Ok (length p)"
    using assms(6) s by (auto simp: local_Write_def l1 set_session_def)
  then show ?thesis
    using s l1 by (simp add: file_append_def local_open_of_def local_Offset_def set_session_def write_at_def)
qed

theorem local_commit_unsupported_rewinds_witness:
  "\<exists>l1 h l2 l3 l4 r3 r4. local_StartUpload (NewLocalBlobStore Map.empty) (Some ''u'') False 0 = (l1, Ok h) \<and>
     local_Write l1 h [1, 2, 3] None 0 = (l2, Ok 3) \<and>
     local_Commit sample_sum l2 h \<lparr>Algorithm = ''md5'', Hex = ''00''\<rparr> no_faults = (l3, r3) \<and>
     local_Write l3 h [9] None 0 = (l4, r4) \<and> local_open_of l4 h = Some [9, 2, 3]"
proof -
  let ?l = "NewLocalBlobStore Map.empty"
  have inv: "local_invar sample_sum ?l"
    using sample_sum_length local_inv_new [of sample_sum Map.empty]
    by (simp add: local_invar_def fs_addressed_def at_end_def NewLocalBlobStore_def)
  obtain l1 h where st: "local_StartUpload ?l (Some ''u'') False 0 = (l1, Ok h)"
    by (simp add: local_StartUpload_def NewLocalBlobStore_def Let_def)
  have l1: "local_invar sample_sum l1" "local_open_of l1 h = Some []"
    using local_start_law [OF inv st] by auto
  obtain l2 where l2: "local_Write l1 h [1, 2, 3] None 0 = (l2, Ok 3)" "local_invar sample_sum l2"
      "local_open_of l2 h = Some [1, 2, 3]"
    using local_write_law [OF l1, of "[1, 2, 3]" 0] by auto
  obtain l3 r3 where c: "local_Commit sample_sum l2 h \<lparr>Algorithm = ''md5'', Hex = ''00''\<rparr> no_faults = (l3, r3)"
    by fastforce
  obtain l4 r4 where w: "local_Write l3 h [9] None 0 = (l4, r4)" by fastforce
  have "\<not> supported ''md5''" "''md5'' \<noteq> []" by (simp_all add: supported_def)
  from local_commit_unsupported_rewinds [OF l2(2,3) this c w] st l2 c w show ?thesis by auto
qed

end
