(* ===== verification/Docker_GC.thy ===== *)
theory Docker_GC
  imports Docker_Store Mem_Blob Local_Blob
begin

text \<open>
  \<open>internal/registry/docker/gc.go\<close>: the mark-and-sweep collector of the Docker registry.  The mark
  phase follows tags and referrers indexes through manifests; the sweep deletes the blobs and
  manifests it did not mark and prunes abandoned uploads.  The collector works on any blob store;
  what it needs of one is the locale \<open>gc_blobs\<close>, which both stores satisfy.

  A context is the function from the number of the call to the result of \<open>ctx.Err()\<close>, so a
  cancellation may arrive between any two checks.
\<close>

section \<open>Options, statistics and the live set\<close>

record gc_options =
  go_MinAge :: int
  go_AbandonedUploadMaxAge :: int
  go_DryRun :: bool

datatype ctx_error = Canceled | DeadlineExceeded

datatype mark_error = OutOfFuel | MarkDigest digest_error | MarkRead docker_error

datatype gc_fault = FReadTag string string docker_error
  | FMarkManifest string string mark_error
  | FMarkReferrer string string mark_error
  | FSweepBlob digest blob_error
  | FWalk
  | FDeleteManifest string string
  | FUploads

record gc_stats =
  gs_MarkedBlobs :: nat
  gs_SweptBlobs :: nat
  gs_SweptBytes :: nat
  gs_SweptManifests :: nat
  gs_SkippedYoung :: nat
  gs_AbandonedUploadsRemoved :: nat
  gs_AbandonedUploadsBytes :: nat
  gs_DryRun :: bool
  gs_Errors :: "gc_fault list"

definition new_stats :: "bool \<Rightarrow> gc_stats" where
  "new_stats dry = \<lparr>gs_MarkedBlobs = 0, gs_SweptBlobs = 0, gs_SweptBytes = 0, gs_SweptManifests = 0,
     gs_SkippedYoung = 0, gs_AbandonedUploadsRemoved = 0, gs_AbandonedUploadsBytes = 0,
     gs_DryRun = dry, gs_Errors = []\<rparr>"

record live_set =
  ls_blobs :: "string set"
  ls_manifests :: "(string \<times> string) set"

definition newLiveSet :: live_set where
  "newLiveSet = \<lparr>ls_blobs = {}, ls_manifests = {}\<rparr>"

definition addBlob :: "live_set \<Rightarrow> string \<Rightarrow> live_set" where
  "addBlob live d = live\<lparr>ls_blobs := insert d (ls_blobs live)\<rparr>"

definition hasBlob :: "live_set \<Rightarrow> string \<Rightarrow> bool" where
  "hasBlob live d \<longleftrightarrow> d \<in> ls_blobs live"

definition addManifest :: "live_set \<Rightarrow> string \<Rightarrow> string \<Rightarrow> live_set" where
  "addManifest live name d = live\<lparr>ls_manifests := insert (name, d) (ls_manifests live)\<rparr>"

definition hasManifest :: "live_set \<Rightarrow> string \<Rightarrow> string \<Rightarrow> bool" where
  "hasManifest live name d \<longleftrightarrow> (name, d) \<in> ls_manifests live"

section \<open>Marking\<close>

definition digest_field :: "json \<Rightarrow> string option" where
  "digest_field m = (case json_field m ''digest'' of
     Some (JStr d) \<Rightarrow> if d \<noteq> [] then Some d else None | _ \<Rightarrow> None)"

definition object_digest :: "json \<Rightarrow> string \<Rightarrow> string list" where
  "object_digest parsed key = (case json_field parsed key of
     Some m \<Rightarrow> (case digest_field m of Some d \<Rightarrow> [d] | None \<Rightarrow> []) | None \<Rightarrow> [])"

definition array_digests :: "json \<Rightarrow> string \<Rightarrow> string list" where
  "array_digests parsed key = (case json_field parsed key of
     Some (JArr xs) \<Rightarrow> List.map_filter digest_field xs | _ \<Rightarrow> [])"

text \<open>
  The fuel of \<open>markManifestRecursive\<close> bounds the depth of the recursion; every nested call marks a
  digest that was not marked before, see \<open>mark_rec_closed\<close>.
\<close>

fun mark_rec ::
  "nat \<Rightarrow> codec \<Rightarrow> docker_store \<Rightarrow> string \<Rightarrow> string \<Rightarrow> live_set \<Rightarrow> live_set \<times> mark_error option" where
  "mark_rec 0 c s name d live = (live, Some OutOfFuel)"
| "mark_rec (Suc n) c s name d live =
     (if hasManifest live name d then (live, None)
      else case ParseDigest d of
        Inl e \<Rightarrow> (live, Some (MarkDigest e))
      | Inr dgst \<Rightarrow>
          let live1 = addBlob (addManifest live name d) d
          in case ReadManifest s name dgst of
               Inl e \<Rightarrow> (live1, Some (MarkRead e))
             | Inr rec \<Rightarrow> (case j_any c (mr_Body rec) of
                 None \<Rightarrow> (live1, None)
               | Some parsed \<Rightarrow>
                   let live2 = fold (\<lambda>b l. addBlob l b)
                         (object_digest parsed ''config'' @ array_digests parsed ''layers'') live1;
                       live3 = fold (\<lambda>m l. fst (mark_rec n c s name m l)) (array_digests parsed ''manifests'') live2
                   in (fold (\<lambda>m l. fst (mark_rec n c s name m l)) (object_digest parsed ''subject'') live3, None)))"

definition doc_children :: "codec \<Rightarrow> string \<Rightarrow> string list" where
  "doc_children c body = (case j_any c body of None \<Rightarrow> []
     | Some parsed \<Rightarrow> array_digests parsed ''manifests'' @ object_digest parsed ''subject'')"

definition doc_blobs :: "codec \<Rightarrow> string \<Rightarrow> string list" where
  "doc_blobs c body = (case j_any c body of None \<Rightarrow> []
     | Some parsed \<Rightarrow> object_digest parsed ''config'' @ array_digests parsed ''layers'')"

definition all_children :: "codec \<Rightarrow> docker_store \<Rightarrow> string list" where
  "all_children c s = concat (map (\<lambda>x. doc_children c (rf_data (snd x))) (st_fs s))"

definition markManifestRecursive ::
  "codec \<Rightarrow> docker_store \<Rightarrow> string \<Rightarrow> string \<Rightarrow> live_set \<Rightarrow> live_set \<times> mark_error option" where
  "markManifestRecursive c s name d live = mark_rec (length (all_children c s) + 2) c s name d live"

fun mark_tags ::
  "codec \<Rightarrow> docker_store \<Rightarrow> string \<Rightarrow> string list \<Rightarrow> live_set \<Rightarrow> gc_fault list \<Rightarrow> live_set \<times> gc_fault list" where
  "mark_tags c s name [] live errs = (live, errs)"
| "mark_tags c s name (t # ts) live errs = (case ReadTag s name t of
     Inl e \<Rightarrow> mark_tags c s name ts live (errs @ [FReadTag name t e])
   | Inr dgst \<Rightarrow> (case markManifestRecursive c s name (digest_string dgst) live of
       (live', None) \<Rightarrow> mark_tags c s name ts live' errs
     | (live', Some e) \<Rightarrow> mark_tags c s name ts live' (errs @ [FMarkManifest name (digest_string dgst) e])))"

text \<open>
  A referrer is added to the live set right before it is walked; the walk then finds it marked.
\<close>

fun mark_referrers ::
  "codec \<Rightarrow> docker_store \<Rightarrow> string \<Rightarrow> manifest_descriptor list \<Rightarrow> live_set \<Rightarrow> gc_fault list \<Rightarrow>
   live_set \<times> gc_fault list" where
  "mark_referrers c s name [] live errs = (live, errs)"
| "mark_referrers c s name (m # ms) live errs =
     (case markManifestRecursive c s name (md_Digest m) (addManifest live name (md_Digest m)) of
       (live', None) \<Rightarrow> mark_referrers c s name ms live' errs
     | (live', Some e) \<Rightarrow> mark_referrers c s name ms live' (errs @ [FMarkReferrer name (md_Digest m) e]))"

fun mark_indexes ::
  "codec \<Rightarrow> docker_store \<Rightarrow> string \<Rightarrow> string list \<Rightarrow> live_set \<Rightarrow> gc_fault list \<Rightarrow> live_set \<times> gc_fault list" where
  "mark_indexes c s name [] live errs = (live, errs)"
| "mark_indexes c s name (e # es) live errs =
     (if \<not> has_suffix e ''.json'' then mark_indexes c s name es live errs
      else let subject = trim_suffix e ''.json'';
               live1 = addBlob (addManifest live name subject) subject
           in case fs_read (st_fs s) (repoDir s name @ [''_referrers'', e]) of
                None \<Rightarrow> mark_indexes c s name es live1 errs
              | Some f \<Rightarrow> (case j_index c (rf_data f) of
                  None \<Rightarrow> mark_indexes c s name es live1 errs
                | Some idx \<Rightarrow> (case mark_referrers c s name (oi_Manifests idx) live1 errs of
                    (live2, errs2) \<Rightarrow> mark_indexes c s name es live2 errs2)))"

definition markRepo ::
  "codec \<Rightarrow> docker_store \<Rightarrow> string \<Rightarrow> live_set \<Rightarrow> gc_fault list \<Rightarrow> live_set \<times> gc_fault list" where
  "markRepo c s name live errs = (case mark_tags c s name (ListTags s name) live errs of
     (live1, errs1) \<Rightarrow>
       mark_indexes c s name (dir_files (st_fs s) (repoDir s name @ [''_referrers''])) live1 errs1)"

text \<open>The single-repository walk of the delete cascade, with one manifest left out.\<close>

fun scoped_tags ::
  "codec \<Rightarrow> docker_store \<Rightarrow> string \<Rightarrow> string \<Rightarrow> string list \<Rightarrow> live_set \<Rightarrow> live_set" where
  "scoped_tags c s name ex [] live = live"
| "scoped_tags c s name ex (t # ts) live = (case ReadTag s name t of
     Inl e \<Rightarrow> scoped_tags c s name ex ts live
   | Inr dgst \<Rightarrow>
       if digest_string dgst = ex then scoped_tags c s name ex ts live
       else scoped_tags c s name ex ts (fst (markManifestRecursive c s name (digest_string dgst) live)))"

fun scoped_referrers ::
  "codec \<Rightarrow> docker_store \<Rightarrow> string \<Rightarrow> string \<Rightarrow> manifest_descriptor list \<Rightarrow> live_set \<Rightarrow> live_set" where
  "scoped_referrers c s name ex [] live = live"
| "scoped_referrers c s name ex (m # ms) live =
     (if md_Digest m = ex then scoped_referrers c s name ex ms live
      else scoped_referrers c s name ex ms
             (fst (markManifestRecursive c s name (md_Digest m) (addManifest live name (md_Digest m)))))"

fun scoped_indexes ::
  "codec \<Rightarrow> docker_store \<Rightarrow> string \<Rightarrow> string \<Rightarrow> string list \<Rightarrow> live_set \<Rightarrow> live_set" where
  "scoped_indexes c s name ex [] live = live"
| "scoped_indexes c s name ex (e # es) live =
     (if \<not> has_suffix e ''.json'' then scoped_indexes c s name ex es live
      else if trim_suffix e ''.json'' = ex then scoped_indexes c s name ex es live
      else let subject = trim_suffix e ''.json'';
               live1 = addBlob (addManifest live name subject) subject
           in case fs_read (st_fs s) (repoDir s name @ [''_referrers'', e]) of
                None \<Rightarrow> scoped_indexes c s name ex es live1
              | Some f \<Rightarrow> (case j_index c (rf_data f) of
                  None \<Rightarrow> scoped_indexes c s name ex es live1
                | Some idx \<Rightarrow> scoped_indexes c s name ex es
                    (scoped_referrers c s name ex (oi_Manifests idx) live1)))"

definition markRepoScoped :: "codec \<Rightarrow> docker_store \<Rightarrow> string \<Rightarrow> string \<Rightarrow> live_set" where
  "markRepoScoped c s name ex =
     scoped_indexes c s name ex (dir_files (st_fs s) (repoDir s name @ [''_referrers'']))
       (scoped_tags c s name ex (ListTags s name) newLiveSet)"

section \<open>Sweeping\<close>

text \<open>
  What the collector calls of a blob store: the walk with the error it ends with, deletion, and
  the pruner if the store has one (it reads the clock itself).
\<close>

record 's blob_ops =
  bo_ListBlobs :: "'s \<Rightarrow> (digest \<times> blob_info) list \<times> blob_error option"
  bo_Delete :: "'s \<Rightarrow> digest \<Rightarrow> 's \<times> (blob_error + unit)"
  bo_Prune :: "('s \<Rightarrow> int \<Rightarrow> bool \<Rightarrow> 's \<times> nat \<times> nat \<times> bool) option"

record gc_env =
  ge_ctx :: "nat \<Rightarrow> ctx_error option"
  ge_now :: unix_time
  ge_del_fails :: "path \<Rightarrow> bool"

text \<open>\<open>time.Time{}.Unix()\<close>.\<close>

definition zero_time :: unix_time where
  "zero_time = - 62135596800"

definition young :: "gc_options \<Rightarrow> unix_time \<Rightarrow> unix_time \<Rightarrow> bool" where
  "young opt now mtime \<longleftrightarrow> go_MinAge opt > 0 \<and> mtime \<noteq> zero_time \<and> now - mtime < go_MinAge opt"

definition count_swept :: "gc_stats \<Rightarrow> nat \<Rightarrow> gc_stats" where
  "count_swept st sz = st\<lparr>gs_SweptBlobs := Suc (gs_SweptBlobs st), gs_SweptBytes := gs_SweptBytes st + sz\<rparr>"

fun sweep_blobs ::
  "'s blob_ops \<Rightarrow> gc_env \<Rightarrow> gc_options \<Rightarrow> live_set \<Rightarrow> nat \<Rightarrow> (digest \<times> blob_info) list \<Rightarrow> 's \<Rightarrow> gc_stats \<Rightarrow>
   's \<times> gc_stats \<times> ctx_error option" where
  "sweep_blobs ops env opt live k [] bs st = (bs, st, None)"
| "sweep_blobs ops env opt live k ((d, info) # rest) bs st =
     (case ge_ctx env k of
        Some e \<Rightarrow> (bs, st, Some e)
      | None \<Rightarrow>
          if hasBlob live (digest_string d) then sweep_blobs ops env opt live (Suc k) rest bs st
          else if young opt (ge_now env) (bi_ModTime info)
          then sweep_blobs ops env opt live (Suc k) rest bs (st\<lparr>gs_SkippedYoung := Suc (gs_SkippedYoung st)\<rparr>)
          else if go_DryRun opt
          then sweep_blobs ops env opt live (Suc k) rest bs (count_swept st (bi_Size info))
          else (case bo_Delete ops bs d of
            (bs', Inl e) \<Rightarrow>
              sweep_blobs ops env opt live (Suc k) rest bs' (st\<lparr>gs_Errors := gs_Errors st @ [FSweepBlob d e]\<rparr>)
          | (bs', Inr _) \<Rightarrow> sweep_blobs ops env opt live (Suc k) rest bs' (count_swept st (bi_Size info))))"

text \<open>One repository's manifests; \<open>entries\<close> is the listing of its directory.\<close>

fun sweep_manifests ::
  "gc_env \<Rightarrow> gc_options \<Rightarrow> live_set \<Rightarrow> string \<Rightarrow> string list \<Rightarrow> docker_store \<Rightarrow> nat \<Rightarrow> gc_fault list \<Rightarrow>
   docker_store \<times> nat \<times> gc_fault list" where
  "sweep_manifests env opt live name [] s cnt errs = (s, cnt, errs)"
| "sweep_manifests env opt live name (e # es) s cnt errs =
     (let p = repoDir s name @ [''manifests'', e];
          digestStr = trim_suffix e ''.json''
      in if has_suffix e ''.media'' \<or> \<not> has_suffix e ''.json'' then sweep_manifests env opt live name es s cnt errs
         else if hasManifest live name digestStr then sweep_manifests env opt live name es s cnt errs
         else if (case fs_read (st_fs s) p of None \<Rightarrow> False | Some f \<Rightarrow> young opt (ge_now env) (rf_mtime f))
         then sweep_manifests env opt live name es s cnt errs
         else if go_DryRun opt then sweep_manifests env opt live name es s (Suc cnt) errs
         else if ge_del_fails env p
         then sweep_manifests env opt live name es s cnt (errs @ [FDeleteManifest name digestStr])
         else let s1 = drop_file s p;
                  pm = repoDir s name @ [''manifests'', e @ ''.media''];
                  s2 = (if ge_del_fails env pm then s1 else drop_file s1 pm)
              in sweep_manifests env opt live name es s2 (Suc cnt) errs)"

definition sweepUnreferencedManifests ::
  "gc_env \<Rightarrow> gc_options \<Rightarrow> live_set \<Rightarrow> docker_store \<Rightarrow> string \<Rightarrow> docker_store \<times> nat \<times> gc_fault list" where
  "sweepUnreferencedManifests env opt live s name =
     sweep_manifests env opt live name (dir_files (st_fs s) (repoDir s name @ [''manifests''])) s 0 []"

section \<open>The pass\<close>

fun mark_repos ::
  "codec \<Rightarrow> gc_env \<Rightarrow> docker_store \<Rightarrow> nat \<Rightarrow> string list \<Rightarrow> live_set \<Rightarrow> gc_fault list \<Rightarrow>
   gc_fault list \<times> (ctx_error + live_set \<times> nat)" where
  "mark_repos c env s k [] live errs = (errs, Ok (live, k))"
| "mark_repos c env s k (name # rest) live errs = (case ge_ctx env k of
     Some e \<Rightarrow> (errs, Err e)
   | None \<Rightarrow> (case markRepo c s name live errs of
       (live', errs') \<Rightarrow> mark_repos c env s (Suc k) rest live' errs'))"

fun sweep_repos ::
  "gc_env \<Rightarrow> gc_options \<Rightarrow> live_set \<Rightarrow> string list \<Rightarrow> docker_store \<Rightarrow> gc_stats \<Rightarrow> docker_store \<times> gc_stats" where
  "sweep_repos env opt live [] s st = (s, st)"
| "sweep_repos env opt live (name # rest) s st =
     (case sweepUnreferencedManifests env opt live s name of
       (s', n, errs) \<Rightarrow> sweep_repos env opt live rest s'
         (st\<lparr>gs_SweptManifests := gs_SweptManifests st + n, gs_Errors := gs_Errors st @ errs\<rparr>))"

definition prune_uploads ::
  "'s blob_ops \<Rightarrow> gc_env \<Rightarrow> gc_options \<Rightarrow> 's \<Rightarrow> gc_stats \<Rightarrow> 's \<times> gc_stats" where
  "prune_uploads ops env opt bs st =
     (if go_AbandonedUploadMaxAge opt > 0 then
        case bo_Prune ops of
          None \<Rightarrow> (bs, st)
        | Some prune \<Rightarrow> (case prune bs (go_AbandonedUploadMaxAge opt) (go_DryRun opt) of
            (bs', n, bytes, failed) \<Rightarrow>
              (bs', st\<lparr>gs_Errors := gs_Errors st @ (if failed then [FUploads] else []),
                       gs_AbandonedUploadsRemoved := n, gs_AbandonedUploadsBytes := bytes\<rparr>))
      else (bs, st))"

definition walk_fault :: "ctx_error option \<Rightarrow> blob_error option \<Rightarrow> gc_fault list" where
  "walk_fault ce we = (case ce of
     Some Canceled \<Rightarrow> [] | Some DeadlineExceeded \<Rightarrow> [FWalk]
   | None \<Rightarrow> (case we of None \<Rightarrow> [] | Some _ \<Rightarrow> [FWalk]))"

text \<open>
  The result: the store, the blobs, and either \<open>None\<close> for a read-only backend or the statistics
  with the context error that ended the mark phase, if one did.
\<close>

definition runGC ::
  "codec \<Rightarrow> 's blob_ops \<Rightarrow> gc_env \<Rightarrow> gc_options \<Rightarrow> docker_store \<Rightarrow> 's \<Rightarrow>
   docker_store \<times> 's \<times> (gc_stats \<times> ctx_error option) option" where
  "runGC c ops env opt s bs =
     (if \<not> st_writable s then (s, bs, None)
      else let repos = ListRepositories s
           in case mark_repos c env s 0 repos newLiveSet [] of
                (errs, Inl e) \<Rightarrow> (s, bs, Some ((new_stats (go_DryRun opt))\<lparr>gs_Errors := errs\<rparr>, Some e))
              | (errs, Inr (live, k)) \<Rightarrow>
                  let st0 = (new_stats (go_DryRun opt))\<lparr>gs_Errors := errs, gs_MarkedBlobs := card (ls_blobs live)\<rparr>;
                      (listing, werr) = bo_ListBlobs ops bs;
                      (bs1, st1, cerr) = sweep_blobs ops env opt live k listing bs st0;
                      st2 = st1\<lparr>gs_Errors := gs_Errors st1 @ walk_fault cerr werr\<rparr>;
                      (s1, st3) = sweep_repos env opt live repos s st2;
                      (bs2, st4) = prune_uploads ops env opt bs1 st3
                  in (s1, bs2, Some (st4, None)))"

section \<open>What marking guarantees\<close>

text \<open>The documents a digest string leads to: the digests of manifests and of blobs it names.\<close>

definition children :: "codec \<Rightarrow> docker_store \<Rightarrow> string \<Rightarrow> string \<Rightarrow> string list" where
  "children c s name d = (case ParseDigest d of Inl _ \<Rightarrow> [] | Inr dgst \<Rightarrow>
     (case ReadManifest s name dgst of Inl _ \<Rightarrow> [] | Inr rec \<Rightarrow> doc_children c (mr_Body rec)))"

definition named_blobs :: "codec \<Rightarrow> docker_store \<Rightarrow> string \<Rightarrow> string \<Rightarrow> string list" where
  "named_blobs c s name d = (case ParseDigest d of Inl _ \<Rightarrow> [] | Inr dgst \<Rightarrow>
     (case ReadManifest s name dgst of Inl _ \<Rightarrow> [] | Inr rec \<Rightarrow> doc_blobs c (mr_Body rec)))"

definition parses :: "string \<Rightarrow> bool" where
  "parses d \<longleftrightarrow> (\<exists>dgst. ParseDigest d = Ok dgst)"

text \<open>A marked manifest is finished when everything it leads to is marked too.\<close>

definition finished :: "codec \<Rightarrow> docker_store \<Rightarrow> string \<Rightarrow> live_set \<Rightarrow> string \<Rightarrow> bool" where
  "finished c s name live d \<longleftrightarrow> hasBlob live d \<and> (\<forall>b\<in>set (named_blobs c s name d). hasBlob live b) \<and>
     (\<forall>x\<in>set (children c s name d). parses x \<longrightarrow> hasManifest live name x)"

definition live_le :: "live_set \<Rightarrow> live_set \<Rightarrow> bool" where
  "live_le a b \<longleftrightarrow> ls_blobs a \<subseteq> ls_blobs b \<and> ls_manifests a \<subseteq> ls_manifests b"

text \<open>What a walk may do to the live set: grow it by finished manifests of one repository.\<close>

definition grows :: "codec \<Rightarrow> docker_store \<Rightarrow> string \<Rightarrow> live_set \<Rightarrow> live_set \<Rightarrow> bool" where
  "grows c s name a b \<longleftrightarrow> live_le a b \<and> (\<forall>n d. hasManifest b n d \<longrightarrow> hasManifest a n d \<or> n = name) \<and>
     (\<forall>d. hasManifest b name d \<longrightarrow> hasManifest a name d \<or> finished c s name b d)"

lemma live_simps [gc_simps]:
  "hasBlob (addBlob l b) d \<longleftrightarrow> d = b \<or> hasBlob l d" "hasBlob (addManifest l n e) d \<longleftrightarrow> hasBlob l d"
  "hasManifest (addManifest l n e) m d \<longleftrightarrow> m = n \<and> d = e \<or> hasManifest l m d"
  "hasManifest (addBlob l b) m d \<longleftrightarrow> hasManifest l m d"
  "\<not> hasBlob newLiveSet d" "\<not> hasManifest newLiveSet m d"
  by (auto simp: hasBlob_def addBlob_def addManifest_def hasManifest_def newLiveSet_def)

lemma live_le_iff:
  "live_le a b \<longleftrightarrow> (\<forall>d. hasBlob a d \<longrightarrow> hasBlob b d) \<and> (\<forall>n d. hasManifest a n d \<longrightarrow> hasManifest b n d)"
  by (auto simp: live_le_def hasBlob_def hasManifest_def)

lemma finished_mono: "finished c s name a d \<Longrightarrow> live_le a b \<Longrightarrow> finished c s name b d"
  by (auto simp: finished_def live_le_iff)

lemma grows_refl: "grows c s name a a"
  by (simp add: grows_def live_le_def)

lemma grows_trans: "grows c s name a b \<Longrightarrow> grows c s name b e \<Longrightarrow> grows c s name a e"
  unfolding grows_def by (meson finished_mono live_le_iff)

lemma grows_le: "grows c s name a b \<Longrightarrow> live_le a b"
  by (simp add: grows_def)

lemma fold_addBlob:
  "hasBlob (fold (\<lambda>b l. addBlob l b) bs l) d \<longleftrightarrow> d \<in> set bs \<or> hasBlob l d"
  "hasManifest (fold (\<lambda>b l. addBlob l b) bs l) n d \<longleftrightarrow> hasManifest l n d"
  by (induction bs arbitrary: l) (auto simp: gc_simps)

text \<open>The digests a walk can still mark: named by some file of the store and not marked yet.\<close>

definition unmarked :: "codec \<Rightarrow> docker_store \<Rightarrow> string \<Rightarrow> string \<Rightarrow> live_set \<Rightarrow> string set" where
  "unmarked c s name d live = {x \<in> insert d (set (all_children c s)). \<not> hasManifest live name x}"

lemma finite_unmarked [simp]: "finite (unmarked c s name d live)"
  by (simp add: unmarked_def)

lemma children_all:
  assumes "x \<in> set (children c s name d)"
  shows "x \<in> set (all_children c s)"
proof -
  obtain dgst r where r: "ReadManifest s name dgst = Ok r" and x: "x \<in> set (doc_children c (mr_Body r))"
    using assms by (auto simp: children_def split: sum.splits) metis
  then obtain f where "(manifestPath s name dgst, f) \<in> set (st_fs s)" "mr_Body r = rf_data f"
    by (metis ReadManifest_Ok fs_read_mem)
  with x show ?thesis by (force simp: all_children_def)
qed

lemma unmarked_child:
  assumes "x \<in> set (children c s name d)" "\<not> hasManifest live name d" "hasManifest live' name d" "live_le live live'"
  shows "card (unmarked c s name x live') < card (unmarked c s name d live)"
proof (rule psubset_card_mono)
  have "x \<in> set (all_children c s)" using assms(1) by (rule children_all)
  moreover have "d \<in> unmarked c s name d live" "d \<notin> unmarked c s name x live'"
    using assms by (auto simp: unmarked_def)
  ultimately show "unmarked c s name x live' \<subset> unmarked c s name d live"
    using assms(4) by (auto simp: unmarked_def live_le_iff)
qed simp

text \<open>Walking a list of digests one after another.\<close>

definition mark_list :: "nat \<Rightarrow> codec \<Rightarrow> docker_store \<Rightarrow> string \<Rightarrow> string list \<Rightarrow> live_set \<Rightarrow> live_set" where
  "mark_list n c s name ds live = fold (\<lambda>m l. fst (mark_rec n c s name m l)) ds live"

lemma mark_list_simps [simp]:
  "mark_list n c s name [] live = live"
  "mark_list n c s name (d # ds) live = mark_list n c s name ds (fst (mark_rec n c s name d live))"
  "mark_list n c s name (ds @ es) live = mark_list n c s name es (mark_list n c s name ds live)"
  by (simp_all add: mark_list_def)

lemma mark_rec_visit:
  assumes "\<not> hasManifest live name d" "ParseDigest d = Ok dgst"
  shows "fst (mark_rec (Suc n) c s name d live) = mark_list n c s name (children c s name d)
    (fold (\<lambda>b l. addBlob l b) (named_blobs c s name d) (addBlob (addManifest live name d) d))"
  using assms
  by (simp add: mark_list_def children_def named_blobs_def doc_children_def doc_blobs_def Let_def
      split: sum.splits option.splits)

lemma mark_list_grows:
  assumes step: "\<And>d l. d \<in> set ds \<Longrightarrow> live_le live l \<Longrightarrow>
      grows c s name l (fst (mark_rec n c s name d l)) \<and>
      (parses d \<longrightarrow> hasManifest (fst (mark_rec n c s name d l)) name d)"
  shows "grows c s name live (mark_list n c s name ds live) \<and>
    (\<forall>d\<in>set ds. parses d \<longrightarrow> hasManifest (mark_list n c s name ds live) name d)"
  using step
proof (induction ds arbitrary: live)
  case (Cons d ds)
  let ?l = "fst (mark_rec n c s name d live)"
  have d: "grows c s name live ?l" "parses d \<longrightarrow> hasManifest ?l name d"
    using Cons.prems [of d live] by (auto simp: live_le_iff)
  have "grows c s name ?l (mark_list n c s name ds ?l) \<and>
      (\<forall>x\<in>set ds. parses x \<longrightarrow> hasManifest (mark_list n c s name ds ?l) name x)"
  proof (rule Cons.IH)
    fix x l
    assume "x \<in> set ds" "live_le ?l l"
    then show "grows c s name l (fst (mark_rec n c s name x l)) \<and>
        (parses x \<longrightarrow> hasManifest (fst (mark_rec n c s name x l)) name x)"
      using Cons.prems [of x l] grows_le [OF d(1)] by (auto simp: live_le_iff)
  qed
  moreover from this have "live_le ?l (mark_list n c s name ds ?l)" by (blast intro: grows_le)
  ultimately show ?case using d(2) grows_trans [OF d(1)] by (auto simp: live_le_iff)
qed (simp add: grows_refl)

text \<open>With more fuel than digests left to mark, a walk finishes every manifest it marks.\<close>

lemma mark_rec_closed:
  "card (unmarked c s name d live) < n \<Longrightarrow>
   grows c s name live (fst (mark_rec n c s name d live)) \<and>
   (parses d \<longrightarrow> hasManifest (fst (mark_rec n c s name d live)) name d)"
proof (induction n arbitrary: d live)
  case (Suc n)
  show ?case
  proof (cases "hasManifest live name d \<or> \<not> parses d")
    case True
    then show ?thesis by (auto simp: grows_refl parses_def split: sum.splits)
  next
    case False
    then obtain dgst where p: "ParseDigest d = Ok dgst" and nm: "\<not> hasManifest live name d"
      by (auto simp: parses_def)
    define l1 where "l1 = fold (\<lambda>b l. addBlob l b) (named_blobs c s name d) (addBlob (addManifest live name d) d)"
    let ?l2 = "mark_list n c s name (children c s name d) l1"
    have l1: "hasManifest l1 name d" "live_le live l1" "hasBlob l1 d" "\<forall>b\<in>set (named_blobs c s name d). hasBlob l1 b"
      "\<And>m x. hasManifest l1 m x \<longleftrightarrow> m = name \<and> x = d \<or> hasManifest live m x"
      by (auto simp: l1_def fold_addBlob live_le_iff gc_simps)
    have kids: "grows c s name l1 ?l2 \<and> (\<forall>x\<in>set (children c s name d). parses x \<longrightarrow> hasManifest ?l2 name x)"
    proof (rule mark_list_grows)
      fix x l
      assume x: "x \<in> set (children c s name d)" and l: "live_le l1 l"
      have "card (unmarked c s name x l) < card (unmarked c s name d live)"
        using l l1 by (intro unmarked_child [OF x nm]) (auto simp: live_le_iff)
      then have "card (unmarked c s name x l) < n" using Suc.prems by linarith
      then show "grows c s name l (fst (mark_rec n c s name x l)) \<and>
          (parses x \<longrightarrow> hasManifest (fst (mark_rec n c s name x l)) name x)"
        by (rule Suc.IH)
    qed
    then have "finished c s name ?l2 d" and m: "hasManifest ?l2 name d"
      using l1 by (auto simp: finished_def live_le_iff dest!: grows_le)
    then have "grows c s name live ?l2" using kids l1 unfolding grows_def live_le_iff by metis
    then show ?thesis using m mark_rec_visit [OF nm p, of n c s] by (simp add: l1_def)
  qed
qed simp

lemma markManifest_closed:
  "grows c s name live (fst (markManifestRecursive c s name d live)) \<and>
   (parses d \<longrightarrow> hasManifest (fst (markManifestRecursive c s name d live)) name d)"
  unfolding markManifestRecursive_def
proof (rule mark_rec_closed)
  have "card (unmarked c s name d live) \<le> card (insert d (set (all_children c s)))"
    by (rule card_mono) (auto simp: unmarked_def)
  also have "\<dots> \<le> Suc (length (all_children c s))"
    using card_insert_le_m1 card_length by (metis card.insert_remove card_insert_if finite_set le_SucI not_less_eq_eq)
  finally show "card (unmarked c s name d live) < length (all_children c s) + 2" by simp
qed

section \<open>Reachability from tags\<close>

inductive reach :: "codec \<Rightarrow> docker_store \<Rightarrow> string \<Rightarrow> string \<Rightarrow> bool" for c s name where
  reach_tag: "t \<in> set (ListTags s name) \<Longrightarrow> ReadTag s name t = Ok dgst \<Longrightarrow> reach c s name (digest_string dgst)"
| reach_child: "reach c s name d \<Longrightarrow> x \<in> set (children c s name d) \<Longrightarrow> parses x \<Longrightarrow> reach c s name x"

definition no_marks :: "live_set \<Rightarrow> string \<Rightarrow> bool" where
  "no_marks live name \<longleftrightarrow> (\<forall>d. \<not> hasManifest live name d)"

text \<open>The live set covers a repository: every manifest reachable from its tags is marked and finished.\<close>

definition covers :: "codec \<Rightarrow> docker_store \<Rightarrow> string \<Rightarrow> live_set \<Rightarrow> bool" where
  "covers c s name live \<longleftrightarrow> (\<forall>d. reach c s name d \<longrightarrow> hasManifest live name d \<and> finished c s name live d)"

lemma covers_mono: "covers c s name a \<Longrightarrow> live_le a b \<Longrightarrow> covers c s name b"
  by (meson covers_def finished_mono live_le_iff)

definition only_repo :: "string \<Rightarrow> live_set \<Rightarrow> live_set \<Rightarrow> bool" where
  "only_repo name a b \<longleftrightarrow> live_le a b \<and> (\<forall>n d. hasManifest b n d \<longrightarrow> hasManifest a n d \<or> n = name)"

lemma only_repo_simps [intro]:
  "only_repo name a a" "grows c s name a b \<Longrightarrow> only_repo name a b"
  "only_repo name a (addManifest a name d)" "only_repo name a (addBlob a d)"
  by (auto simp: only_repo_def grows_def live_le_iff gc_simps)

lemma only_repo_trans: "only_repo name a b \<Longrightarrow> only_repo name b e \<Longrightarrow> only_repo name a e"
  unfolding only_repo_def live_le_iff by meson

lemma ReadTag_valid: "ReadTag s name t = Ok d \<Longrightarrow> valid_digest d"
  by (auto simp: ReadTag_def dest: ParseDigest_valid split: option.splits sum.splits)

lemma parses_digest: "valid_digest d \<Longrightarrow> parses (digest_string d)"
  by (auto simp: parses_def ParseDigest_print)

lemma mark_tags_grows:
  assumes "mark_tags c s name ts live errs = (live', errs')"
  shows "grows c s name live live' \<and>
    (\<forall>t\<in>set ts. \<forall>d. ReadTag s name t = Ok d \<longrightarrow> hasManifest live' name (digest_string d))"
  using assms
proof (induction ts arbitrary: live errs)
  case (Cons t ts)
  show ?case
  proof (cases "ReadTag s name t")
    case (Inl e)
    with Cons.prems Cons.IH show ?thesis by auto
  next
    case (Inr d)
    let ?l = "fst (markManifestRecursive c s name (digest_string d) live)"
    obtain errs2 where "mark_tags c s name ts ?l errs2 = (live', errs')"
      using Cons.prems Inr by (auto split: prod.splits option.splits)
    from Cons.IH [OF this] have rest: "grows c s name ?l live'"
      "\<forall>t\<in>set ts. \<forall>d. ReadTag s name t = Ok d \<longrightarrow> hasManifest live' name (digest_string d)" by auto
    have "hasManifest ?l name (digest_string d)"
      using markManifest_closed parses_digest [OF ReadTag_valid [OF Inr]] by blast
    then have "hasManifest live' name (digest_string d)" using grows_le [OF rest(1)] by (simp add: live_le_iff)
    then show ?thesis using rest Inr grows_trans markManifest_closed by (metis set_ConsD sum.inject(2))
  qed
qed (auto simp: grows_refl)

lemma mark_tags_covers:
  assumes "mark_tags c s name (ListTags s name) live errs = (live', errs')" "no_marks live name"
  shows "covers c s name live'"
proof -
  note g = mark_tags_grows [OF assms(1)]
  then have fin: "finished c s name live' d" if "hasManifest live' name d" for d
    using that assms(2) by (auto simp: grows_def no_marks_def)
  have "hasManifest live' name d" if "reach c s name d" for d
    using that
  proof induction
    case (reach_child d x)
    then show ?case using fin [of d] by (auto simp: finished_def)
  qed (use g in blast)
  with fin show ?thesis by (auto simp: covers_def)
qed

lemma mark_referrers_only: "mark_referrers c s name ms live errs = (live', errs') \<Longrightarrow> only_repo name live live'"
proof (induction ms arbitrary: live errs)
  case (Cons m ms)
  let ?l = "fst (markManifestRecursive c s name (md_Digest m) (addManifest live name (md_Digest m)))"
  obtain errs2 where "mark_referrers c s name ms ?l errs2 = (live', errs')"
    using Cons.prems by (auto split: prod.splits option.splits)
  moreover have "only_repo name live ?l"
    by (rule only_repo_trans [OF only_repo_simps(3) only_repo_simps(2)]) (rule conjunct1 [OF markManifest_closed])
  ultimately show ?case using Cons.IH only_repo_trans by blast
qed auto

lemma mark_indexes_only: "mark_indexes c s name es live errs = (live', errs') \<Longrightarrow> only_repo name live live'"
proof (induction es arbitrary: live errs)
  case (Cons e es)
  let ?sub = "trim_suffix e ''.json''"
  let ?l = "addBlob (addManifest live name ?sub) ?sub"
  have l: "only_repo name live ?l" by (rule only_repo_trans [OF only_repo_simps(3,4)])
  show ?case
  proof (cases "mark_indexes c s name es live errs = (live', errs')
      \<or> mark_indexes c s name es ?l errs = (live', errs')")
    case True
    then show ?thesis using Cons.IH l only_repo_trans by blast
  next
    case False
    then obtain ms live2 errs2 where "mark_referrers c s name ms ?l errs = (live2, errs2)"
      "mark_indexes c s name es live2 errs2 = (live', errs')"
      using Cons.prems by (auto simp: Let_def split: if_splits option.splits prod.splits)
    then show ?thesis using only_repo_trans [OF only_repo_trans [OF l mark_referrers_only]] Cons.IH by blast
  qed
qed auto

lemma markRepo_covers:
  assumes "markRepo c s name live errs = (live', errs')"
  shows "only_repo name live live' \<and> (no_marks live name \<longrightarrow> covers c s name live')"
proof -
  obtain live1 errs1 where 1: "mark_tags c s name (ListTags s name) live errs = (live1, errs1)"
    and 2: "mark_indexes c s name (dir_files (st_fs s) (repoDir s name @ [''_referrers''])) live1 errs1 = (live', errs')"
    using assms by (auto simp: markRepo_def split: prod.splits)
  note o = mark_indexes_only [OF 2]
  moreover have "only_repo name live live1" using mark_tags_grows [OF 1] by blast
  ultimately have "only_repo name live live'" "live_le live1 live'"
    using only_repo_trans only_repo_def by blast+
  then show ?thesis using mark_tags_covers [OF 1] covers_mono by blast
qed

lemma mark_repos_covers:
  assumes "mark_repos c env s k repos live errs = (errs', Ok (live', k'))"
  shows "live_le live live' \<and> (\<forall>name\<in>set repos. no_marks live name \<longrightarrow> covers c s name live')"
  using assms
proof (induction repos arbitrary: k live errs)
  case (Cons name rest)
  obtain live1 errs1 where m: "markRepo c s name live errs = (live1, errs1)" by fastforce
  then have r: "mark_repos c env s (Suc k) rest live1 errs1 = (errs', Ok (live', k'))"
    using Cons.prems by (auto split: option.splits)
  note m' = markRepo_covers [OF m] and r' = Cons.IH [OF r]
  have "no_marks live1 n" if "no_marks live n" "n \<noteq> name" for n
    using that m' by (auto simp: no_marks_def only_repo_def)
  moreover have "live_le live live'" using m' r' by (auto simp: only_repo_def live_le_def)
  moreover have "covers c s name live'" if "no_marks live name" using that m' r' covers_mono by blast
  ultimately show ?case using r' by auto
qed (simp add: live_le_def)

end
