(* ===== verification/Docker_GC_Safety.thy ===== *)
theory Docker_GC_Safety
  imports Docker_GC
begin

text \<open>
  What a collection does to a registry: the frame of the sweep, the contract \<open>gc_blobs\<close> of the blob
  store it runs on with the two stores that meet it, and the properties of \<open>runGC\<close>: images reachable
  from a tag of a listed repository survive, young data survives, a dry run changes nothing, garbage
  is reclaimed, and where the mark phase falls short.
\<close>

section \<open>What the sweep spares\<close>

definition young_file :: "gc_env \<Rightarrow> gc_options \<Rightarrow> docker_store \<Rightarrow> path \<Rightarrow> bool" where
  "young_file env opt s p \<longleftrightarrow>
     (case fs_read (st_fs s) p of None \<Rightarrow> False | Some f \<Rightarrow> young opt (ge_now env) (rf_mtime f))"

text \<open>The paths a sweep of one repository may delete: a manifest neither marked nor young, and its sidecar.\<close>

definition sweepable :: "gc_env \<Rightarrow> gc_options \<Rightarrow> live_set \<Rightarrow> docker_store \<Rightarrow> string \<Rightarrow> path \<Rightarrow> bool" where
  "sweepable env opt live s name q \<longleftrightarrow>
     (\<exists>x. has_suffix x ''.json'' \<and> \<not> hasManifest live name (trim_suffix x ''.json'') \<and>
       \<not> young_file env opt s (repoDir s name @ [''manifests'', x]) \<and>
       (q = repoDir s name @ [''manifests'', x] \<or> q = repoDir s name @ [''manifests'', x @ ''.media'']))"

lemma media_suffix: "x @ ''.media'' \<noteq> y @ ''.json''"
proof
  assume "x @ ''.media'' = y @ ''.json''"
  then have "last (x @ ''.media'') = last (y @ ''.json'')" by simp
  then show False by simp
qed

lemma sweepable_not_young:
  "sweepable env opt live s name (repoDir s n @ [''manifests'', x]) \<Longrightarrow> has_suffix x ''.json'' \<Longrightarrow>
   \<not> young_file env opt s (repoDir s n @ [''manifests'', x])"
  using media_suffix by (auto simp: sweepable_def two_snoc has_suffix_iff)

lemma sweepable_mono:
  assumes b: "st_base s' = st_base s"
    and keep: "\<And>q. \<not> sweepable env opt live s name q \<Longrightarrow> fs_read (st_fs s') q = fs_read (st_fs s) q"
    and sw: "sweepable env opt live s' n q"
  shows "sweepable env opt live s n q"
proof -
  note rd = paths_cong(1) [OF b]
  obtain x where x: "has_suffix x ''.json''" "\<not> hasManifest live n (trim_suffix x ''.json'')"
    "\<not> young_file env opt s' (repoDir s n @ [''manifests'', x])"
    "q = repoDir s n @ [''manifests'', x] \<or> q = repoDir s n @ [''manifests'', x @ ''.media'']"
    using sw unfolding sweepable_def rd by blast
  have "\<not> young_file env opt s (repoDir s n @ [''manifests'', x])"
  proof (cases "sweepable env opt live s name (repoDir s n @ [''manifests'', x])")
    case False
    then show ?thesis using x(3) keep by (simp add: young_file_def)
  qed (simp add: sweepable_not_young x(1))
  with x show ?thesis unfolding sweepable_def by blast
qed

lemma sweep_manifests_frame:
  "sweep_manifests env opt live name es s cnt errs = (s', cnt', errs') \<Longrightarrow>
   st_base s' = st_base s \<and> st_writable s' = st_writable s \<and> (go_DryRun opt \<longrightarrow> s' = s) \<and>
   (\<forall>q. \<not> sweepable env opt live s name q \<longrightarrow> fs_read (st_fs s') q = fs_read (st_fs s) q)"
proof (induction es arbitrary: s cnt errs)
  case (Cons e es)
  let ?p = "repoDir s name @ [''manifests'', e]" and ?pm = "repoDir s name @ [''manifests'', e @ ''.media'']"
  define s2 where "s2 = (if ge_del_fails env ?pm then drop_file s ?p else drop_file (drop_file s ?p) ?pm)"
  have s2: "st_base s2 = st_base s" "st_writable s2 = st_writable s"
    "\<And>q. q \<noteq> ?p \<Longrightarrow> q \<noteq> ?pm \<Longrightarrow> fs_read (st_fs s2) q = fs_read (st_fs s) q"
    by (auto simp: s2_def)
  show ?case
  proof (cases "\<exists>cnt2 errs2. sweep_manifests env opt live name es s cnt2 errs2 = (s', cnt', errs')")
    case True
    then show ?thesis using Cons.IH by blast
  next
    case False
    then have c: "has_suffix e ''.json''" "\<not> hasManifest live name (trim_suffix e ''.json'')"
        "\<not> young_file env opt s ?p" "\<not> go_DryRun opt"
      and r: "sweep_manifests env opt live name es s2 (Suc cnt) errs = (s', cnt', errs')"
      using Cons.prems by (auto simp: Let_def s2_def young_file_def split: if_splits)
    have "sweepable env opt live s name ?p" "sweepable env opt live s name ?pm"
      using c by (auto simp: sweepable_def)
    then have keep: "fs_read (st_fs s2) q = fs_read (st_fs s) q" if "\<not> sweepable env opt live s name q" for q
      using that s2(3) by metis
    have "\<not> sweepable env opt live s2 name q" if "\<not> sweepable env opt live s name q" for q
      using that sweepable_mono [OF s2(1) keep] by blast
    then show ?thesis using Cons.IH [OF r] s2(1,2) c(4) keep by simp
  qed
qed simp

lemma sweep_repos_frame:
  "sweep_repos env opt live repos s st = (s', st') \<Longrightarrow>
   st_base s' = st_base s \<and> st_writable s' = st_writable s \<and> (go_DryRun opt \<longrightarrow> s' = s) \<and>
   (\<forall>q. (\<forall>name\<in>set repos. \<not> sweepable env opt live s name q) \<longrightarrow> fs_read (st_fs s') q = fs_read (st_fs s) q)"
proof (induction repos arbitrary: s st)
  case (Cons name rest)
  obtain s1 n errs where 1: "sweepUnreferencedManifests env opt live s name = (s1, n, errs)"
    by (metis prod_cases3)
  then obtain st1 where 2: "sweep_repos env opt live rest s1 st1 = (s', st')" using Cons.prems by auto
  have f: "st_base s1 = st_base s" "st_writable s1 = st_writable s" "go_DryRun opt \<longrightarrow> s1 = s"
    "\<And>q. \<not> sweepable env opt live s name q \<Longrightarrow> fs_read (st_fs s1) q = fs_read (st_fs s) q"
    using sweep_manifests_frame [OF 1 [unfolded sweepUnreferencedManifests_def]] by auto
  have "\<not> sweepable env opt live s1 n q" if "\<not> sweepable env opt live s n q" for n q
    using that sweepable_mono [OF f(1,4)] by blast
  then show ?case using Cons.IH [OF 2] f by simp
qed simp

lemma sweepable_manifest:
  assumes "hasManifest live name (digest_string d)"
  shows "\<not> sweepable env opt live s name' (manifestPath s name d)" "\<not> sweepable env opt live s name' (mediaPath s name d)"
proof -
  have json_media: "digest_string d @ ''.json.media'' = (digest_string d @ ''.json'') @ ''.media''" by simp
  have no: "\<not> has_suffix (digest_string d @ ''.json.media'') ''.json''"
    using media_suffix json_media by (metis has_suffix_iff)
  show "\<not> sweepable env opt live s name' (manifestPath s name d)"
    using assms media_suffix [THEN not_sym] by (auto simp: sweepable_def manifestPath_def two_snoc)
  show "\<not> sweepable env opt live s name' (mediaPath s name d)"
    using assms no by (auto simp: sweepable_def mediaPath_def two_snoc json_media simp del: append_assoc)
qed

lemma sweepable_young:
  assumes "young_file env opt s (manifestPath s name d)"
  shows "\<not> sweepable env opt live s name' (manifestPath s name d)" "\<not> sweepable env opt live s name' (mediaPath s name d)"
proof -
  have json_media: "digest_string d @ ''.json.media'' = (digest_string d @ ''.json'') @ ''.media''" by simp
  have no: "\<not> has_suffix (digest_string d @ ''.json.media'') ''.json''"
    using media_suffix json_media by (metis has_suffix_iff)
  show "\<not> sweepable env opt live s name' (manifestPath s name d)"
    using assms media_suffix [THEN not_sym] by (auto simp: sweepable_def manifestPath_def two_snoc)
  show "\<not> sweepable env opt live s name' (mediaPath s name d)"
    using assms no
    by (auto simp: sweepable_def mediaPath_def manifestPath_def two_snoc json_media simp del: append_assoc)
qed

lemma sweepable_tag: "\<not> sweepable env opt live s name' (tagPath s name t)"
  by (simp add: sweepable_def tagPath_def two_snoc)


section \<open>What the collector needs of a blob store\<close>

locale gc_blobs =
  fixes invar :: "'s \<Rightarrow> bool"
    and blobs_of :: "'s \<Rightarrow> digest \<Rightarrow> bytes option"
    and ops :: "'s blob_ops"
  assumes list_valid: "invar bs \<Longrightarrow> (d, i) \<in> set (fst (bo_ListBlobs ops bs)) \<Longrightarrow> valid_digest d"
    and delete_ok: "invar bs \<Longrightarrow> valid_digest d \<Longrightarrow> bo_Delete ops bs d = (bs', Ok u) \<Longrightarrow>
      invar bs' \<and> (\<forall>e. valid_digest e \<longrightarrow> blobs_of bs' e = ((blobs_of bs)(d := None)) e)"
    and delete_err: "invar bs \<Longrightarrow> valid_digest d \<Longrightarrow> bo_Delete ops bs d = (bs', Err x) \<Longrightarrow>
      invar bs' \<and> (\<forall>e. valid_digest e \<longrightarrow> blobs_of bs' e = blobs_of bs e)"
    and prune_law: "invar bs \<Longrightarrow> bo_Prune ops = Some pr \<Longrightarrow> pr bs age dry = (bs', r) \<Longrightarrow>
      invar bs' \<and> blobs_of bs' = blobs_of bs \<and> (dry \<longrightarrow> bs' = bs)"
begin

text \<open>A blob the sweep may delete: listed, not marked, not young.\<close>

definition condemned ::
  "gc_env \<Rightarrow> gc_options \<Rightarrow> live_set \<Rightarrow> (digest \<times> blob_info) list \<Rightarrow> digest \<Rightarrow> bool" where
  "condemned env opt live listing d \<longleftrightarrow> \<not> go_DryRun opt \<and> \<not> hasBlob live (digest_string d) \<and>
     (\<exists>i. (d, i) \<in> set listing \<and> \<not> young opt (ge_now env) (bi_ModTime i))"

lemma sweep_blobs_frame:
  assumes "sweep_blobs ops env opt live k listing bs st = (bs', st', e)"
    "invar bs" "\<forall>x\<in>set listing. valid_digest (fst x)"
  shows "invar bs' \<and> (go_DryRun opt \<longrightarrow> bs' = bs) \<and>
    (\<forall>d. valid_digest d \<longrightarrow> \<not> condemned env opt live listing d \<longrightarrow> blobs_of bs' d = blobs_of bs d)"
  using assms
proof (induction listing arbitrary: k bs st)
  case (Cons x rest)
  obtain d i where x: "x = (d, i)" by (cases x)
  have weaken: "\<not> condemned env opt live rest e" if "\<not> condemned env opt live (x # rest) e" for e
    using that by (auto simp: condemned_def)
  show ?case
  proof (cases "\<exists>k st. sweep_blobs ops env opt live k rest bs st = (bs', st', e) \<or> bs' = bs")
    case True
    then show ?thesis using Cons.IH Cons.prems weaken by auto
  next
    case False
    then obtain bs1 r st1 k1 where del: "bo_Delete ops bs d = (bs1, r)"
      and c: "\<not> hasBlob live (digest_string d)" "\<not> young opt (ge_now env) (bi_ModTime i)" "\<not> go_DryRun opt"
      and rest: "sweep_blobs ops env opt live k1 rest bs1 st1 = (bs', st', e)"
      using Cons.prems(1) x by (auto split: option.splits if_splits prod.splits sum.splits)
    have v: "valid_digest d" using Cons.prems(3) x by simp
    have one: "invar bs1 \<and> (\<forall>e. valid_digest e \<longrightarrow> e \<noteq> d \<longrightarrow> blobs_of bs1 e = blobs_of bs e)"
      using delete_ok [OF Cons.prems(2) v] delete_err [OF Cons.prems(2) v] del by (cases r) fastforce+
    have "condemned env opt live (x # rest) d" using c x by (auto simp: condemned_def)
    then show ?thesis using Cons.IH [OF rest] Cons.prems(3) one c(3) weaken by (metis list.set_intros(2))
  qed
qed simp

lemma prune_frame:
  assumes "prune_uploads ops env opt bs st = (bs', st')" "invar bs"
  shows "invar bs' \<and> blobs_of bs' = blobs_of bs \<and> (go_DryRun opt \<longrightarrow> bs' = bs)"
  using assms prune_law by (auto simp: prune_uploads_def split: if_splits option.splits prod.splits)

text \<open>The pass as a whole.\<close>

lemma runGC_frame:
  assumes run: "runGC c ops env opt s bs = (s', bs', r)" and inv: "invar bs"
  obtains (untouched) "s' = s" "bs' = bs"
  | (swept) errs live k where "mark_repos c env s 0 (ListRepositories s) newLiveSet [] = (errs, Ok (live, k))"
    "st_base s' = st_base s" "st_writable s' = st_writable s" "invar bs'" "go_DryRun opt \<longrightarrow> s' = s \<and> bs' = bs"
    "\<And>q. \<forall>name\<in>set (ListRepositories s). \<not> sweepable env opt live s name q \<Longrightarrow> fs_read (st_fs s') q = fs_read (st_fs s) q"
    "\<And>d. valid_digest d \<Longrightarrow> \<not> condemned env opt live (fst (bo_ListBlobs ops bs)) d \<Longrightarrow> blobs_of bs' d = blobs_of bs d"
proof (cases "s' = s \<and> bs' = bs")
  case False
  then obtain errs live k where m: "mark_repos c env s 0 (ListRepositories s) newLiveSet [] = (errs, Ok (live, k))"
    using run by (auto simp: runGC_def Let_def split: if_splits prod.splits sum.splits)
  obtain listing werr where l: "bo_ListBlobs ops bs = (listing, werr)" by fastforce
  obtain st0 bs1 st1 cerr st2 st3 st4 where sw: "sweep_blobs ops env opt live k listing bs st0 = (bs1, st1, cerr)"
    and sr: "sweep_repos env opt live (ListRepositories s) s st2 = (s', st3)"
    and pr: "prune_uploads ops env opt bs1 st3 = (bs', st4)"
    using run False m l by (auto simp: runGC_def Let_def split: if_splits prod.splits)
  have "\<forall>x\<in>set listing. valid_digest (fst x)" using list_valid [OF inv] l by fastforce
  note b = sweep_blobs_frame [OF sw inv this]
  note p = prune_frame [OF pr conjunct1 [OF b]] and f = sweep_repos_frame [OF sr]
  show thesis by (rule swept [OF m]) (use b p f l in auto)
qed (use untouched in blast)

text \<open>A pass spares what is reachable from the tags of the repositories it lists.\<close>

lemma keeps_reachable:
  assumes run: "runGC c ops env opt s bs = (s', bs', r)" and inv: "invar bs"
    and name: "name \<in> set (ListRepositories s)" and m: "reach c s name m"
  shows "(\<forall>e. digest_string e = m \<longrightarrow> ReadManifest s' name e = ReadManifest s name e) \<and>
    (\<forall>e. valid_digest e \<longrightarrow> digest_string e \<in> set (m # named_blobs c s name m) \<longrightarrow> blobs_of bs' e = blobs_of bs e)"
  using run inv
proof (cases rule: runGC_frame)
  case (swept errs live k)
  have live: "hasManifest live name m" "finished c s name live m"
    using mark_repos_covers [OF swept(1)] name m by (auto simp: covers_def no_marks_def gc_simps)
  have "fs_read (st_fs s') (manifestPath s name e) = fs_read (st_fs s) (manifestPath s name e)"
    "fs_read (st_fs s') (mediaPath s name e) = fs_read (st_fs s) (mediaPath s name e)" if "digest_string e = m" for e
    using that live(1) by (auto intro!: swept(6) sweepable_manifest)
  moreover have "blobs_of bs' e = blobs_of bs e"
    if "valid_digest e" "digest_string e \<in> set (m # named_blobs c s name m)" for e
    using that live(2) by (intro swept(7)) (auto simp: condemned_def finished_def)
  ultimately show ?thesis using ReadManifest_cong [OF swept(2)] by blast
qed simp

lemma keeps_tags:
  assumes run: "runGC c ops env opt s bs = (s', bs', r)" and inv: "invar bs"
  shows "ReadTag s' name t = ReadTag s name t"
  using run inv
proof (cases rule: runGC_frame)
  case (swept errs live k)
  have "fs_read (st_fs s') (tagPath s name t) = fs_read (st_fs s) (tagPath s name t)"
    by (intro swept(6)) (simp add: sweepable_tag)
  then show ?thesis by (rule ReadTag_cong [OF swept(2)])
qed simp

lemma keeps_young_manifest:
  assumes run: "runGC c ops env opt s bs = (s', bs', r)" and inv: "invar bs"
    and f: "fs_read (st_fs s) (manifestPath s name d) = Some f" "young opt (ge_now env) (rf_mtime f)"
  shows "ReadManifest s' name d = ReadManifest s name d"
  using run inv
proof (cases rule: runGC_frame)
  case (swept errs live k)
  have "\<not> sweepable env opt live s n (manifestPath s name d)" "\<not> sweepable env opt live s n (mediaPath s name d)" for n
    using sweepable_young [of env opt s name d] f by (auto simp: young_file_def)
  then have "fs_read (st_fs s') (manifestPath s name d) = fs_read (st_fs s) (manifestPath s name d)"
    "fs_read (st_fs s') (mediaPath s name d) = fs_read (st_fs s) (mediaPath s name d)"
    by (auto intro!: swept(6))
  then show ?thesis by (rule ReadManifest_cong [OF swept(2)])
qed simp

lemma keeps_young_blob:
  assumes run: "runGC c ops env opt s bs = (s', bs', r)" and inv: "invar bs" and v: "valid_digest d"
    and y: "\<forall>i. (d, i) \<in> set (fst (bo_ListBlobs ops bs)) \<longrightarrow> young opt (ge_now env) (bi_ModTime i)"
  shows "blobs_of bs' d = blobs_of bs d"
  using run inv
proof (cases rule: runGC_frame)
  case (swept errs live k)
  show ?thesis using y by (intro swept(7) v) (auto simp: condemned_def)
qed simp

lemma dry_run_inert:
  assumes "runGC c ops env opt s bs = (s', bs', r)" "invar bs" "go_DryRun opt"
  shows "s' = s \<and> bs' = bs"
  using assms(1,2) by (cases rule: runGC_frame) (use assms(3) in auto)

end

section \<open>The stores meet the contract\<close>

definition mem_ops :: "string list \<Rightarrow> mem_store blob_ops" where
  "mem_ops ks = \<lparr>bo_ListBlobs = (\<lambda>m. (mem_ListBlobs m ks, None)), bo_Delete = mem_Delete, bo_Prune = None\<rparr>"

text \<open>
  The local store with the paths of its walk, the digests whose removal fails, and for the pruner
  its clock, the names it lists and the names whose \<open>stat\<close> or \<open>remove\<close> fails.
\<close>

definition local_ops ::
  "string list list \<Rightarrow> (digest \<Rightarrow> bool) \<Rightarrow> unix_time \<Rightarrow> (string \<Rightarrow> bool) \<Rightarrow> (string \<Rightarrow> bool) \<Rightarrow> string list \<Rightarrow>
   local_store blob_ops" where
  "local_ops paths rf now inff rmf names = \<lparr>bo_ListBlobs = (\<lambda>l. (local_ListBlobs l paths, None)),
     bo_Delete = (\<lambda>l d. local_Delete l d (rf d)),
     bo_Prune = Some (\<lambda>l age dry. PruneAbandonedUploads l now age dry inff rmf names)\<rparr>"

interpretation gc_mem: gc_blobs "mem_inv hsum" mem_blobs_of "mem_ops ks"
proof (unfold_locales, goal_cases)
  case (1 m d i)
  then obtain k where "(case (ms_blobs m k, ParseDigest k) of
      (Some b, Inr d) \<Rightarrow> Some (d, mem_info d b) | _ \<Rightarrow> None) = Some (d, i)"
    by (auto simp: mem_ops_def mem_ListBlobs_def)
  then show ?case using ParseDigest_valid by (cases "ms_blobs m k"; cases "ParseDigest k") auto
qed (auto simp: mem_ops_def dest: mem_delete_law split: if_splits)

definition local_gc_inv :: "hash_fun \<Rightarrow> local_store \<Rightarrow> bool" where
  "local_gc_inv hsum l \<longleftrightarrow> sum_length hsum \<and> local_inv hsum l"

lemma local_list_valid:
  assumes inv: "local_gc_inv hsum l" and mem: "(d, i) \<in> set (local_ListBlobs l paths)"
  shows "valid_digest d \<and> (\<exists>f. lo_fs l (blobPath d) = Some f \<and> i = local_info d f)"
proof -
  obtain p f where p: "lo_fs l p = Some f" "p = [''blobs'', Algorithm d, p ! 2, Hex d]" "i = local_info d f"
    using mem by (auto simp: local_ListBlobs_def elim!: list_entry.elims split: option.splits if_splits)
  then obtain alg where "supported alg" "p = blobPath (digest_of hsum alg (lf_data f))"
    using inv unfolding local_gc_inv_def local_inv_def fs_addressed_def by metis
  then have "Algorithm d = alg" "Hex d = Hex (digest_of hsum alg (lf_data f))"
    using p(2) by (auto simp: blobPath_def split: if_splits)
  then have "d = digest_of hsum alg (lf_data f)" by (intro digest.equality) auto
  then show ?thesis using p inv valid_digest_of \<open>supported alg\<close> \<open>p = blobPath _\<close>
    by (auto simp: local_gc_inv_def)
qed

lemma local_delete_blobs:
  assumes "valid_digest d" "local_Delete l d rf = (l', r)" "valid_digest e"
  shows "local_blobs_of l' e = (case r of Inl _ \<Rightarrow> local_blobs_of l e | Inr _ \<Rightarrow> ((local_blobs_of l)(d := None)) e)"
  using assms blobPath_inj by (auto simp: local_Delete_def local_blobs_of_def split: option.splits if_splits)

lemma local_prune_blobs:
  assumes "PruneAbandonedUploads l now age dry inff rmf ns = (l', r)"
  shows "local_blobs_of l' = local_blobs_of l \<and> (dry \<longrightarrow> l' = l)"
proof -
  obtain c b e where r: "prune_loop l (now - age) dry inff rmf ns = (l', c, b, e)"
    using assms by (cases r) (auto simp: PruneAbandonedUploads_def)
  note k = prune_loop_keeps [OF r]
  have "lo_fs l' (blobPath d) = lo_fs l (blobPath d)" for d using k by auto
  moreover have "l' = l" if dry
  proof -
    have "lo_fs l' = lo_fs l" using k that by auto
    then show ?thesis using k by (cases l; cases l') simp
  qed
  ultimately show ?thesis by (simp add: local_blobs_of_def fun_eq_iff)
qed

interpretation gc_local: gc_blobs "local_gc_inv hsum" local_blobs_of "local_ops paths rf now inff rmf names"
proof (unfold_locales, goal_cases)
  case 1
  then show ?case using local_list_valid by (auto simp: local_ops_def)
next
  case (2 bs d bs' u)
  then show ?case using local_delete_blobs [of d bs "rf d" bs' "Inr u"] local_inv_delete
    by (auto simp: local_ops_def local_gc_inv_def)
next
  case (3 bs d bs' x)
  then show ?case using local_delete_blobs [of d bs "rf d" bs' "Inl x"] local_inv_delete
    by (auto simp: local_ops_def local_gc_inv_def)
next
  case (4 bs pr age dry bs' r)
  then show ?case
    using local_prune_blobs [of bs now age dry inff rmf names bs' r] local_inv_prune [of hsum bs now age dry inff rmf names bs' r]
    by (auto simp: local_ops_def local_gc_inv_def)
qed

section \<open>Nothing else is marked\<close>

text \<open>
  What a pass may retain: manifests reachable from tags, the subjects and entries of referrers
  indexes, and what they lead to.
\<close>

definition index_entries :: "codec \<Rightarrow> docker_store \<Rightarrow> string \<Rightarrow> string \<Rightarrow> string list" where
  "index_entries c s name e = (case fs_read (st_fs s) (repoDir s name @ [''_referrers'', e]) of None \<Rightarrow> []
     | Some f \<Rightarrow> (case j_index c (rf_data f) of None \<Rightarrow> [] | Some idx \<Rightarrow> map md_Digest (oi_Manifests idx)))"

inductive retained :: "codec \<Rightarrow> docker_store \<Rightarrow> string \<Rightarrow> string \<Rightarrow> bool" for c s name where
  retained_tag: "t \<in> set (ListTags s name) \<Longrightarrow> ReadTag s name t = Ok dgst \<Longrightarrow> retained c s name (digest_string dgst)"
| retained_subject: "e \<in> set (dir_files (st_fs s) (repoDir s name @ [''_referrers''])) \<Longrightarrow> has_suffix e ''.json'' \<Longrightarrow>
    retained c s name (trim_suffix e ''.json'')"
| retained_referrer: "e \<in> set (dir_files (st_fs s) (repoDir s name @ [''_referrers''])) \<Longrightarrow> has_suffix e ''.json'' \<Longrightarrow>
    x \<in> set (index_entries c s name e) \<Longrightarrow> retained c s name x"
| retained_child: "retained c s name d \<Longrightarrow> x \<in> set (children c s name d) \<Longrightarrow> retained c s name x"

text \<open>Every mark of the live set is justified.\<close>

definition justified :: "codec \<Rightarrow> docker_store \<Rightarrow> live_set \<Rightarrow> bool" where
  "justified c s live \<longleftrightarrow> (\<forall>b. hasBlob live b \<longrightarrow>
     (\<exists>name m. retained c s name m \<and> (b = m \<or> b \<in> set (named_blobs c s name m))))"

lemma justified_simps [simp]:
  "justified c s newLiveSet" "justified c s (addManifest live n d) = justified c s live"
  by (simp_all add: justified_def gc_simps)

lemma justified_add: "retained c s name m \<Longrightarrow> justified c s live \<Longrightarrow> b = m \<or> b \<in> set (named_blobs c s name m) \<Longrightarrow>
   justified c s (addBlob live b)"
  unfolding justified_def live_simps by blast

lemma justified_fold:
  "retained c s name m \<Longrightarrow> justified c s live \<Longrightarrow> set bs \<subseteq> set (named_blobs c s name m) \<Longrightarrow>
   justified c s (fold (\<lambda>b l. addBlob l b) bs live)"
  by (induction bs arbitrary: live) (auto intro: justified_add)

lemma mark_rec_justified:
  "retained c s name d \<Longrightarrow> justified c s live \<Longrightarrow> justified c s (fst (mark_rec n c s name d live))"
proof (induction n arbitrary: d live)
  case (Suc n)
  show ?case
  proof (cases "hasManifest live name d \<or> \<not> parses d")
    case True
    then show ?thesis using Suc.prems by (auto simp: parses_def split: sum.splits)
  next
    case False
    then obtain dgst where p: "ParseDigest d = Ok dgst" and nm: "\<not> hasManifest live name d"
      by (auto simp: parses_def)
    have kids: "justified c s l \<Longrightarrow> set ds \<subseteq> set (children c s name d) \<Longrightarrow> justified c s (mark_list n c s name ds l)" for ds l
      by (induction ds arbitrary: l) (auto intro!: Suc.IH retained_child [OF Suc.prems(1)])
    show ?thesis unfolding mark_rec_visit [OF nm p]
      by (intro kids justified_fold [OF Suc.prems(1)] justified_add [OF Suc.prems(1)]) (auto simp: Suc.prems)
  qed
qed simp

lemma mark_tags_justified:
  assumes "mark_tags c s name ts live errs = (live', errs')" "justified c s live" "set ts \<subseteq> set (ListTags s name)"
  shows "justified c s live'"
  using assms
proof (induction ts arbitrary: live errs)
  case (Cons t ts)
  show ?case
  proof (cases "ReadTag s name t")
    case (Inr d)
    let ?l = "fst (markManifestRecursive c s name (digest_string d) live)"
    obtain errs2 where r: "mark_tags c s name ts ?l errs2 = (live', errs')"
      using Cons.prems Inr by (auto split: prod.splits option.splits)
    have "justified c s ?l" unfolding markManifestRecursive_def
      using Cons.prems(2,3) by (intro mark_rec_justified retained_tag [OF _ Inr]) auto
    with Cons.IH [OF r] Cons.prems show ?thesis by simp
  qed (use Cons in auto)
qed simp

lemma mark_referrers_justified:
  assumes "mark_referrers c s name ms live errs = (live', errs')" "justified c s live"
    "\<And>m. m \<in> set ms \<Longrightarrow> retained c s name (md_Digest m)"
  shows "justified c s live'"
  using assms
proof (induction ms arbitrary: live errs)
  case (Cons m ms)
  let ?l = "fst (markManifestRecursive c s name (md_Digest m) (addManifest live name (md_Digest m)))"
  obtain errs2 where r: "mark_referrers c s name ms ?l errs2 = (live', errs')"
    using Cons.prems by (auto split: prod.splits option.splits)
  have "justified c s ?l" unfolding markManifestRecursive_def
    using Cons.prems(2,3) by (intro mark_rec_justified) auto
  with Cons.IH [OF r] Cons.prems show ?case by simp
qed simp

lemma mark_indexes_justified:
  assumes "mark_indexes c s name es live errs = (live', errs')" "justified c s live"
    "set es \<subseteq> set (dir_files (st_fs s) (repoDir s name @ [''_referrers'']))"
  shows "justified c s live'"
  using assms
proof (induction es arbitrary: live errs)
  case (Cons e es)
  let ?sub = "trim_suffix e ''.json''"
  let ?l = "addBlob (addManifest live name ?sub) ?sub"
  show ?case
  proof (cases "has_suffix e ''.json''")
    case True
    have e: "e \<in> set (dir_files (st_fs s) (repoDir s name @ [''_referrers'']))" using Cons.prems by simp
    have l: "justified c s ?l" using Cons.prems justified_add [OF retained_subject [OF e True]] by simp
    show ?thesis
    proof (cases "mark_indexes c s name es ?l errs = (live', errs')")
      case False
      then obtain f idx live2 errs2 where i: "fs_read (st_fs s) (repoDir s name @ [''_referrers'', e]) = Some f"
        "j_index c (rf_data f) = Some idx" "mark_referrers c s name (oi_Manifests idx) ?l errs = (live2, errs2)"
        "mark_indexes c s name es live2 errs2 = (live', errs')"
        using Cons.prems True by (auto simp: Let_def split: if_splits option.splits prod.splits)
      then have "justified c s live2"
        by (intro mark_referrers_justified [OF i(3) l] retained_referrer [OF e True]) (simp add: index_entries_def)
      then show ?thesis using Cons.IH [OF i(4)] Cons.prems by simp
    qed (use Cons l in simp)
  qed (use Cons in simp)
qed simp

lemma mark_repos_justified:
  assumes "mark_repos c env s k repos live errs = (errs', Ok (live', k'))" "justified c s live"
  shows "justified c s live'"
  using assms
proof (induction repos arbitrary: k live errs)
  case (Cons name rest)
  obtain live1 errs1 where m: "markRepo c s name live errs = (live1, errs1)" by fastforce
  then have r: "mark_repos c env s (Suc k) rest live1 errs1 = (errs', Ok (live', k'))"
    using Cons.prems by (auto split: option.splits)
  obtain live0 errs0 where "mark_tags c s name (ListTags s name) live errs = (live0, errs0)"
    "mark_indexes c s name (dir_files (st_fs s) (repoDir s name @ [''_referrers''])) live0 errs0 = (live1, errs1)"
    using m by (auto simp: markRepo_def split: prod.splits)
  then have "justified c s live1" using mark_tags_justified mark_indexes_justified Cons.prems by blast
  with Cons.IH [OF r] show ?case .
qed simp

section \<open>Garbage is reclaimed\<close>

context gc_blobs
begin

definition deletes :: bool where
  "deletes \<longleftrightarrow> (\<forall>bs d. invar bs \<longrightarrow> valid_digest d \<longrightarrow> blobs_of bs d \<noteq> None \<longrightarrow> (\<exists>bs'. bo_Delete ops bs d = (bs', Ok ())))"

lemma delete_shrinks:
  assumes "invar bs" "valid_digest d" "bo_Delete ops bs d = (bs', r)"
  shows "invar bs' \<and> (\<forall>e. valid_digest e \<longrightarrow> blobs_of bs e = None \<longrightarrow> blobs_of bs' e = None)"
  using assms delete_ok [OF assms(1,2)] delete_err [OF assms(1,2)] by (cases r) fastforce+

lemma sweep_blobs_shrinks:
  assumes "sweep_blobs ops env opt live k listing bs st = (bs', st', e)" "invar bs"
    "\<forall>x\<in>set listing. valid_digest (fst x)" "valid_digest d" "blobs_of bs d = None"
  shows "blobs_of bs' d = None"
proof -
  show ?thesis using assms
  proof (induction listing arbitrary: k bs st)
    case (Cons x rest)
    obtain d' i where x: "x = (d', i)" by (cases x)
    show ?case
    proof (cases "\<exists>k st. sweep_blobs ops env opt live k rest bs st = (bs', st', e) \<or> bs' = bs")
      case True
      then show ?thesis using Cons.IH Cons.prems by auto
    next
      case False
      then obtain bs1 r st1 k1 where "bo_Delete ops bs d' = (bs1, r)"
        "sweep_blobs ops env opt live k1 rest bs1 st1 = (bs', st', e)"
        using Cons.prems(1) x by (auto split: option.splits if_splits prod.splits sum.splits)
      then show ?thesis using Cons.IH Cons.prems(2-5) delete_shrinks [OF Cons.prems(2)] x by auto
    qed
  qed simp
qed

lemma sweep_blobs_reclaims:
  assumes "sweep_blobs ops env opt live k listing bs st = (bs', st', e)" "invar bs"
    "\<forall>x\<in>set listing. valid_digest (fst x)" "\<forall>k. ge_ctx env k = None" "deletes"
    "condemned env opt live listing d" 
  shows "blobs_of bs' d = None"
  using assms
proof (induction listing arbitrary: k bs st)
  case (Cons x rest)
  obtain d' i where x: "x = (d', i)" by (cases x)
  have v: "valid_digest d'" "\<forall>x\<in>set rest. valid_digest (fst x)" using Cons.prems(3) x by auto
  have dv: "valid_digest d" using Cons.prems(3,6) by (auto simp: condemned_def)
  show ?case
  proof (cases "d' = d \<and> \<not> young opt (ge_now env) (bi_ModTime i)")
    case True
    obtain bs1 r where del: "bo_Delete ops bs d = (bs1, r)" by fastforce
    have "blobs_of bs1 d = None"
      using delete_ok [OF Cons.prems(2) dv] delete_err [OF Cons.prems(2) dv] Cons.prems(2,5) dv del
      by (cases r) (fastforce simp: deletes_def)+
    moreover obtain st1 where "sweep_blobs ops env opt live (Suc k) rest bs1 st1 = (bs', st', e)"
      using Cons.prems True x del by (cases r) (auto simp: condemned_def)
    ultimately show ?thesis using sweep_blobs_shrinks delete_shrinks [OF Cons.prems(2) dv del] v(2) dv by blast
  next
    case False
    then have c: "condemned env opt live rest d" using Cons.prems(6) x by (auto simp: condemned_def)
    obtain bs1 st1 where "sweep_blobs ops env opt live (Suc k) rest bs1 st1 = (bs', st', e)" "invar bs1"
    proof (cases "\<exists>st. sweep_blobs ops env opt live (Suc k) rest bs st = (bs', st', e)")
      case True
      then show thesis using that Cons.prems(2) by blast
    next
      case False
      obtain bs1 r where del: "bo_Delete ops bs d' = (bs1, r)" by fastforce
      then obtain st1 where "sweep_blobs ops env opt live (Suc k) rest bs1 st1 = (bs', st', e)"
        using False Cons.prems(1,4) x by (cases r) (auto split: if_splits)
      then show thesis using that delete_shrinks [OF Cons.prems(2) v(1) del] by blast
    qed
    then show ?thesis using Cons.IH v(2) Cons.prems(4,5) c by blast
  qed
qed (simp add: condemned_def)

lemma mark_repos_no_ctx:
  assumes "\<forall>k. ge_ctx env k = None"
  shows "\<exists>errs' live' k'. mark_repos c env s k repos live errs = (errs', Ok (live', k'))"
  using assms by (induction repos arbitrary: k live errs) (auto split: prod.splits)

text \<open>Without cancellation a pass deletes every old blob that nothing retains.\<close>

lemma runGC_reclaims:
  assumes run: "runGC c ops env opt s bs = (s', bs', r)" and inv: "invar bs" and w: "st_writable s"
    and ctx: "\<forall>k. ge_ctx env k = None" and del: "deletes" and dry: "\<not> go_DryRun opt"
    and d: "(d, i) \<in> set (fst (bo_ListBlobs ops bs))" "\<not> young opt (ge_now env) (bi_ModTime i)"
    and un: "\<And>name m. retained c s name m \<Longrightarrow> digest_string d \<noteq> m \<and> digest_string d \<notin> set (named_blobs c s name m)"
  shows "blobs_of bs' d = None"
proof -
  obtain errs live k where m: "mark_repos c env s 0 (ListRepositories s) newLiveSet [] = (errs, Ok (live, k))"
    using mark_repos_no_ctx [OF ctx] by blast
  obtain listing werr where l: "bo_ListBlobs ops bs = (listing, werr)" by fastforce
  obtain st0 bs1 st1 cerr st3 st4 where sw: "sweep_blobs ops env opt live k listing bs st0 = (bs1, st1, cerr)"
    and pr: "prune_uploads ops env opt bs1 st3 = (bs', st4)"
    using run m l w by (auto simp: runGC_def Let_def split: if_splits prod.splits)
  have v: "\<forall>x\<in>set listing. valid_digest (fst x)" using list_valid [OF inv] l by fastforce
  have "\<not> hasBlob live (digest_string d)"
    using mark_repos_justified [OF m justified_simps(1)] un by (auto simp: justified_def)
  then have "condemned env opt live listing d" using d l dry by (auto simp: condemned_def)
  then have "blobs_of bs1 d = None" using sweep_blobs_reclaims [OF sw inv v ctx del] by blast
  then show ?thesis using prune_frame [OF pr] sweep_blobs_frame [OF sw inv v] by simp
qed

end

section \<open>Properties of a collection\<close>

text \<open>A small registry: blobs are uploaded through the store's own operations, hashed by \<open>sample_sum\<close>.\<close>

definition demo_digest :: "8 word \<Rightarrow> digest" where
  "demo_digest w = digest_of sample_sum ''sha256'' [w]"

lemma demo_digest_lits:
  "demo_digest 1 = \<lparr>Algorithm = ''sha256'', Hex = ''0101010101010101010101010101010101010101010101010101010101010101''\<rparr>"
  "demo_digest 2 = \<lparr>Algorithm = ''sha256'', Hex = ''0202020202020202020202020202020202020202020202020202020202020202''\<rparr>"
  "demo_digest 3 = \<lparr>Algorithm = ''sha256'', Hex = ''0303030303030303030303030303030303030303030303030303030303030303''\<rparr>"
  "demo_digest 4 = \<lparr>Algorithm = ''sha256'', Hex = ''0404040404040404040404040404040404040404040404040404040404040404''\<rparr>"
  "demo_digest 5 = \<lparr>Algorithm = ''sha256'', Hex = ''0505050505050505050505050505050505050505050505050505050505050505''\<rparr>"
  "demo_digest 9 = \<lparr>Algorithm = ''sha256'', Hex = ''0909090909090909090909090909090909090909090909090909090909090909''\<rparr>"
  "demo_digest 0xAA = \<lparr>Algorithm = ''sha256'', Hex = ''aaaaaaaaaaaaaaaaaaaaaaaaaaaaaaaaaaaaaaaaaaaaaaaaaaaaaaaaaaaaaaaa''\<rparr>"
  by code_simp+

definition demo_upload :: "8 word \<Rightarrow> mem_store \<Rightarrow> mem_store" where
  "demo_upload w m = (case mem_StartUpload m (Some (hex_byte w)) of (m1, r) \<Rightarrow>
     (case r of Inl _ \<Rightarrow> m1 | Inr h \<Rightarrow>
       fst (mem_Commit sample_sum (fst (mem_Write m1 h [w])) h (demo_digest w) 0)))"

definition image_doc :: "string \<Rightarrow> string list \<Rightarrow> json" where
  "image_doc cfg layers = JObj [(''config'', JObj [(''digest'', JStr cfg)]),
     (''layers'', JArr (map (\<lambda>d. JObj [(''digest'', JStr d)]) layers))]"

definition demo_codec :: "(string \<times> json) list \<Rightarrow> (string \<times> oci_index) list \<Rightarrow> codec" where
  "demo_codec docs idxs = \<lparr>j_any = map_of docs, j_inspect = (\<lambda>_. None), j_index = map_of idxs, j_index_out = (\<lambda>_. [])\<rparr>"

definition demo_store :: "(path \<times> string) list \<Rightarrow> docker_store" where
  "demo_store files = \<lparr>st_fs = map (\<lambda>(p, b). (''repositories'' # p, \<lparr>rf_data = b, rf_mtime = 0\<rparr>)) files,
     st_writable = True, st_base = []\<rparr>"

definition demo_env :: gc_env where
  "demo_env = \<lparr>ge_ctx = (\<lambda>_. None), ge_now = 1000000, ge_del_fails = (\<lambda>_. False)\<rparr>"

definition demo_opt :: gc_options where
  "demo_opt = \<lparr>go_MinAge = 3600, go_AbandonedUploadMaxAge = 0, go_DryRun = False\<rparr>"

text \<open>
  Images in a repository below another one lose their layers.  Repository \<open>team/app\<close> has a tagged
  image whose configuration blob is stored; repository \<open>team\<close> has an image too, so the walk does
  not see \<open>team/app\<close> and the collection deletes the blob, while the tag stays.
\<close>

theorem gc_nested_repository_loses_blobs:
  "let s = demo_store [([''team'', ''tags'', ''v1''], digest_string (demo_digest 2)),
         ([''team'', ''app'', ''tags'', ''v1''], digest_string (demo_digest 1)),
         ([''team'', ''app'', ''manifests'', digest_string (demo_digest 1) @ ''.json''], ''img'')];
       c = demo_codec [(''img'', image_doc (digest_string (demo_digest 3)) [])] [];
       bs = demo_upload 3 NewMemBlobStore;
       (s', bs', r) = runGC c (mem_ops [digest_string (demo_digest 3)]) demo_env demo_opt s bs
   in ReadTag s ''team/app'' ''v1'' = Ok (demo_digest 1) \<and>
      digest_string (demo_digest 3) \<in> set (named_blobs c s ''team/app'' (digest_string (demo_digest 1))) \<and>
      mem_blobs_of bs (demo_digest 3) = Some [3] \<and>
      ReadTag s' ''team/app'' ''v1'' = Ok (demo_digest 1) \<and> mem_blobs_of bs' (demo_digest 3) = None"
  unfolding demo_upload_def demo_digest_lits by code_simp

text \<open>
  What an untagged signature carries is swept.  The referrers index of a tagged image names a
  signature manifest with a configuration blob; the mark phase keeps the manifest and leaves its blob
  unmarked, because the manifest is entered into the live set before it is walked.
\<close>

theorem gc_referrer_blobs_swept:
  "let s = demo_store [([''app'', ''tags'', ''v1''], digest_string (demo_digest 1)),
         ([''app'', ''manifests'', digest_string (demo_digest 2) @ ''.json''], ''sig''),
         ([''app'', ''_referrers'', digest_string (demo_digest 1) @ ''.json''], ''idx'')];
       c = demo_codec [(''sig'', image_doc (digest_string (demo_digest 5)) [])]
           [(''idx'', newEmptyReferrersIndex\<lparr>oi_Manifests := [\<lparr>md_MediaType = [], md_ArtifactType = [],
               md_Digest = digest_string (demo_digest 2), md_Size = 3\<rparr>]\<rparr>)];
       bs = demo_upload 5 NewMemBlobStore;
       (s', bs', r) = runGC c (mem_ops [digest_string (demo_digest 5)]) demo_env demo_opt s bs
   in digest_string (demo_digest 2) \<in> set (index_entries c s ''app'' (digest_string (demo_digest 1) @ ''.json'')) \<and>
      digest_string (demo_digest 5) \<in> set (named_blobs c s ''app'' (digest_string (demo_digest 2))) \<and>
      mem_blobs_of bs (demo_digest 5) = Some [5] \<and>
      ReadManifest s' ''app'' (demo_digest 2) = ReadManifest s ''app'' (demo_digest 2) \<and>
      mem_blobs_of bs' (demo_digest 5) = None"
  unfolding demo_upload_def demo_digest_lits by code_simp

text \<open>
  Digests are compared as written.  An image that names its configuration with upper-case
  hexadecimal digits is accepted and can be pulled, since \<open>ParseDigest\<close> folds the case; the collector
  compares the raw string with the store's lower-case keys and deletes the blob of a tagged image.
\<close>

theorem gc_uppercase_digest_swept:
  "let up = ''sha256:'' @ replicate 64 CHR ''A'';
       s = demo_store [([''app'', ''tags'', ''v1''], digest_string (demo_digest 1)),
         ([''app'', ''manifests'', digest_string (demo_digest 1) @ ''.json''], ''img'')];
       c = demo_codec [(''img'', image_doc up [])] [];
       bs = demo_upload 0xAA NewMemBlobStore;
       (s', bs', r) = runGC c (mem_ops [digest_string (demo_digest 0xAA)]) demo_env demo_opt s bs
   in ''app'' \<in> set (ListRepositories s) \<and> up \<in> set (named_blobs c s ''app'' (digest_string (demo_digest 1))) \<and>
      ParseDigest up = Ok (demo_digest 0xAA) \<and>
      mem_blobs_of bs (demo_digest 0xAA) = Some [0xAA] \<and> mem_blobs_of bs' (demo_digest 0xAA) = None"
  unfolding demo_upload_def demo_digest_lits by code_simp

text \<open>
  C1: tagged images survive, as far as they are named canonically.  Whatever a collection deletes, and whenever it is
  cancelled or a deletion fails, every tag of every repository still resolves to its digest, and for every manifest that is
  reachable from a tag of a listed repository, through image indexes and subjects, and named by its canonical lower-case
  digest, the manifest is still served as before, and so is every blob it names by a canonical digest.  A blob named with
  upper-case digits is not covered, and can be deleted: \<open>gc_uppercase_digest_swept\<close>.
\<close>

theorem gc_keeps_tagged_images:
  assumes "runGC c (local_ops paths rf now inff rmf names) env opt s bs = (s', bs', r)" "local_gc_inv hsum bs"
    and "name \<in> set (ListRepositories s)" "reach c s name m"
  shows "(\<forall>n t. ReadTag s' n t = ReadTag s n t) \<and>
    (\<forall>e. digest_string e = m \<longrightarrow> ReadManifest s' name e = ReadManifest s name e) \<and>
    (\<forall>e. valid_digest e \<longrightarrow> digest_string e \<in> set (m # named_blobs c s name m) \<longrightarrow>
      local_blobs_of bs' e = local_blobs_of bs e)"
  using gc_local.keeps_tags [OF assms(1,2)] gc_local.keeps_reachable [OF assms] by simp

definition demo_registry :: docker_store where
  "demo_registry = demo_store [([''app'', ''tags'', ''v1''], digest_string (demo_digest 1)),
     ([''app'', ''manifests'', digest_string (demo_digest 1) @ ''.json''], ''img'')]"

definition demo_image_codec :: codec where
  "demo_image_codec = demo_codec [(''img'', image_doc (digest_string (demo_digest 3)) [digest_string (demo_digest 4)])] []"

text \<open>A local store with one blob per given byte.\<close>

definition demo_local :: "(8 word \<times> unix_time) list \<Rightarrow> local_store" where
  "demo_local ws = NewLocalBlobStore (map_of (map (\<lambda>(w, t). (blobPath (demo_digest w), \<lparr>lf_data = [w], lf_mtime = t\<rparr>)) ws))"

lemma demo_local_inv: "local_gc_inv sample_sum (demo_local ws)"
  unfolding local_gc_inv_def demo_local_def
proof (intro conjI sample_sum_length local_inv_new, unfold fs_addressed_def, intro allI impI)
  fix p f
  assume "map_of (map (\<lambda>(w, t). (blobPath (demo_digest w), \<lparr>lf_data = [w], lf_mtime = t\<rparr>)) ws) (''blobs'' # p) = Some f"
  then obtain w t where "''blobs'' # p = blobPath (demo_digest w)" "f = \<lparr>lf_data = [w], lf_mtime = t\<rparr>"
    by (auto dest!: map_of_SomeD)
  then show "\<exists>alg. supported alg \<and> ''blobs'' # p = blobPath (digest_of sample_sum alg (lf_data f))"
    by (intro exI [of _ "''sha256''"]) (simp add: supported_def demo_digest_def)
qed

definition demo_local_ops :: "8 word list \<Rightarrow> local_store blob_ops" where
  "demo_local_ops ws = local_ops (map (\<lambda>w. blobPath (demo_digest w)) ws) (\<lambda>_. False) 0 (\<lambda>_. False) (\<lambda>_. False) []"

theorem gc_keeps_tagged_images_witness:
  "let (s', bs', r) = runGC demo_image_codec (demo_local_ops [3, 4, 9]) demo_env demo_opt demo_registry
        (demo_local [(3, 0), (4, 0), (9, 0)])
   in ReadTag s' ''app'' ''v1'' = Ok (demo_digest 1) \<and> local_blobs_of bs' (demo_digest 4) = Some [4]"
proof -
  obtain s' bs' r where run: "runGC demo_image_codec (demo_local_ops [3, 4, 9]) demo_env demo_opt demo_registry
      (demo_local [(3, 0), (4, 0), (9, 0)]) = (s', bs', r)" by (metis prod_cases3)
  have e: "''app'' \<in> set (ListRepositories demo_registry)" "''v1'' \<in> set (ListTags demo_registry ''app'')"
    "ReadTag demo_registry ''app'' ''v1'' = Ok (demo_digest 1)" "valid_digest (demo_digest 4)"
    "digest_string (demo_digest 4) \<in> set (named_blobs demo_image_codec demo_registry ''app'' (digest_string (demo_digest 1)))"
    "local_blobs_of (demo_local [(3, 0), (4, 0), (9, 0)]) (demo_digest 4) = Some [4]"
    unfolding demo_registry_def demo_image_codec_def demo_local_def demo_digest_lits by code_simp+
  show ?thesis
    using gc_keeps_tagged_images [OF run [unfolded demo_local_ops_def] demo_local_inv e(1) reach_tag [OF e(2,3)]] e run
    by (simp add: Let_def)
qed

text \<open>
  The grace window.  A blob or manifest younger than \<open>MinAge\<close> survives every collection, marked or
  not, so a push in progress keeps the layers it has already uploaded.
\<close>

theorem gc_spares_young:
  assumes "runGC c (local_ops paths rf now inff rmf names) env opt s bs = (s', bs', r)" "local_gc_inv hsum bs"
  shows "(valid_digest d \<and> lo_fs bs (blobPath d) = Some f \<and> young opt (ge_now env) (lf_mtime f) \<longrightarrow>
      local_blobs_of bs' d = Some (lf_data f)) \<and>
    (fs_read (st_fs s) (manifestPath s name e) = Some g \<and> young opt (ge_now env) (rf_mtime g) \<longrightarrow>
      ReadManifest s' name e = ReadManifest s name e)"
proof (intro conjI impI; elim conjE)
  assume d: "valid_digest d" "lo_fs bs (blobPath d) = Some f" "young opt (ge_now env) (lf_mtime f)"
  have "local_blobs_of bs' d = local_blobs_of bs d"
    by (rule gc_local.keeps_young_blob [OF assms d(1)])
      (use local_list_valid [OF assms(2)] d in \<open>fastforce simp: local_ops_def local_info_def\<close>)
  then show "local_blobs_of bs' d = Some (lf_data f)" using d by (simp add: local_blobs_of_def)
qed (rule gc_local.keeps_young_manifest [OF assms])

theorem gc_spares_young_witness:
  "let (s', bs', r) = runGC demo_image_codec (demo_local_ops [9]) demo_env demo_opt demo_registry (demo_local [(9, 999999)])
   in local_blobs_of bs' (demo_digest 9) = Some [9]"
proof -
  obtain s' bs' r where run: "runGC demo_image_codec (demo_local_ops [9]) demo_env demo_opt demo_registry
      (demo_local [(9, 999999)]) = (s', bs', r)" by (metis prod_cases3)
  have e: "valid_digest (demo_digest 9) \<and> lo_fs (demo_local [(9, 999999)]) (blobPath (demo_digest 9)) =
      Some \<lparr>lf_data = [9], lf_mtime = 999999\<rparr> \<and> young demo_opt (ge_now demo_env) (lf_mtime \<lparr>lf_data = [9], lf_mtime = 999999\<rparr>)"
    unfolding demo_local_def demo_digest_lits by code_simp
  show ?thesis
    using gc_spares_young [OF run [unfolded demo_local_ops_def] demo_local_inv] e run by fastforce
qed

text \<open>
  An estimate is inert.  A dry run changes neither the repositories nor the blob store.
\<close>

theorem gc_dry_run_inert:
  assumes "runGC c (local_ops paths rf now inff rmf names) env opt s bs = (s', bs', r)" "local_gc_inv hsum bs"
    and "go_DryRun opt"
  shows "s' = s \<and> bs' = bs"
  using assms by (rule gc_local.dry_run_inert)

theorem gc_dry_run_inert_witness:
  "fst (runGC demo_image_codec (demo_local_ops [9]) demo_env (demo_opt\<lparr>go_DryRun := True\<rparr>) demo_registry (demo_local [(9, 0)])) =
     demo_registry"
proof -
  obtain s' bs' r where run: "runGC demo_image_codec (demo_local_ops [9]) demo_env (demo_opt\<lparr>go_DryRun := True\<rparr>)
      demo_registry (demo_local [(9, 0)]) = (s', bs', r)" by (metis prod_cases3)
  show ?thesis using gc_dry_run_inert [OF run [unfolded demo_local_ops_def] demo_local_inv] run by simp
qed

text \<open>
  C19: garbage is reclaimed.  A pass that is not cancelled and whose deletions succeed removes every
  listed blob past the grace window that no tag, image index, subject or referrers index leads to.
\<close>

theorem gc_reclaims_garbage:
  assumes "runGC c (local_ops paths (\<lambda>_. False) now inff rmf names) env opt s bs = (s', bs', r)" "local_gc_inv hsum bs"
    and "st_writable s" "\<forall>k. ge_ctx env k = None" "\<not> go_DryRun opt"
    and d: "lo_fs bs (blobPath d) = Some f" "valid_digest d" "blobPath d \<in> set paths" "\<not> young opt (ge_now env) (lf_mtime f)"
    and "\<forall>name m. retained c s name m \<longrightarrow> digest_string d \<noteq> m \<and> digest_string d \<notin> set (named_blobs c s name m)"
  shows "local_blobs_of bs' d = None"
proof -
  have del: "gc_local.deletes hsum paths (\<lambda>_. False) now inff rmf names"
    unfolding gc_local.deletes_def by (auto simp: local_ops_def local_Delete_def local_blobs_of_def)
  have "list_entry bs (blobPath d) = Some (d, local_info d f)"
    using d(1,2) by (cases d) (auto simp: blobPath_def valid_digest_def algorithmHexLength_def split: if_splits)
  then have "(d, local_info d f) \<in> set (fst (bo_ListBlobs (local_ops paths (\<lambda>_. False) now inff rmf names) bs))"
    using d(3) by (auto simp: local_ops_def local_ListBlobs_def)
  then show ?thesis
    by (rule gc_local.runGC_reclaims [OF assms(1-4) del assms(5)]) (use d(4) assms(10) in \<open>auto simp: local_info_def\<close>)
qed

theorem gc_reclaims_garbage_witness:
  "let (s', bs', r) = runGC demo_image_codec (demo_local_ops [9]) demo_env demo_opt (demo_store []) (demo_local [(9, 0)])
   in local_blobs_of bs' (demo_digest 9) = None"
proof -
  obtain s' bs' r where run: "runGC demo_image_codec (demo_local_ops [9]) demo_env demo_opt (demo_store [])
      (demo_local [(9, 0)]) = (s', bs', r)" by (metis prod_cases3)
  have e: "st_writable (demo_store [])" "\<not> go_DryRun demo_opt" "valid_digest (demo_digest 9)"
    "lo_fs (demo_local [(9, 0)]) (blobPath (demo_digest 9)) = Some \<lparr>lf_data = [9], lf_mtime = 0\<rparr>"
    "blobPath (demo_digest 9) \<in> set (map (\<lambda>w. blobPath (demo_digest w)) [9])"
    "\<not> young demo_opt (ge_now demo_env) (lf_mtime \<lparr>lf_data = [9], lf_mtime = 0\<rparr>)"
    unfolding demo_registry_def demo_image_codec_def demo_local_def demo_digest_lits by code_simp+
  have none: "\<not> retained demo_image_codec (demo_store []) name m" for name m
  proof
    assume "retained demo_image_codec (demo_store []) name m"
    then show False
      by induction (auto simp: ListTags_def dir_files_def demo_store_def children_def ReadManifest_def fs_read_def)
  qed
  have "\<forall>k. ge_ctx demo_env k = None" by (simp add: demo_env_def)
  then show ?thesis
    using gc_reclaims_garbage [OF run [unfolded demo_local_ops_def] demo_local_inv e(1) _ e(2,4,3,5,6)] none run by simp
qed

end
