(* ===== verification/Path_Match.thy ===== *)
theory Path_Match
  imports Go_Prelude
begin

text \<open>
  Go's \<open>path.Match\<close>, which the Docker registry, the retention planner and the package policy call:
  chunks between stars, bracket classes, escapes.  Names are read byte by byte, which is what the
  standard library does on ASCII names.  \<open>path_match\<close> is true when \<open>Match\<close> returns true and no error.
\<close>

definition get_esc :: "string \<Rightarrow> (char \<times> string) option" where
  "get_esc chunk = (case chunk of [] \<Rightarrow> None
   | c # cs \<Rightarrow>
       if c = CHR ''-'' \<or> c = CHR '']'' then None
       else if c = CHR 0x5C then (case cs of d # ds \<Rightarrow> if ds = [] then None else Some (d, ds) | [] \<Rightarrow> None)
       else if cs = [] then None else Some (c, cs))"

lemma get_esc_shorter: "get_esc chunk = Some (c, rest) \<Longrightarrow> length rest < length chunk \<and> rest \<noteq> []"
  by (auto simp: get_esc_def split: list.splits if_splits)

lemma class_step_shorter:
  assumes "get_esc chunk = Some (lo, ch1)"
    "(if hd ch1 = CHR ''-'' then get_esc (tl ch1) else Some (lo, ch1)) = Some (hi, ch2)"
  shows "length ch2 < length chunk"
  using get_esc_shorter [OF assms(1)] assms(2) get_esc_shorter [of "tl ch1" hi ch2]
  by (auto split: if_splits)

text \<open>The ranges of a class: whether the character is in one of them, and what follows the bracket.\<close>

function class_loop :: "char option \<Rightarrow> bool \<Rightarrow> bool \<Rightarrow> string \<Rightarrow> (bool \<times> string) option" where
  "class_loop r m nonempty chunk =
     (if nonempty \<and> chunk \<noteq> [] \<and> hd chunk = CHR '']'' then Some (m, tl chunk)
      else case get_esc chunk of
        None \<Rightarrow> None
      | Some (lo, ch1) \<Rightarrow>
          (case (if hd ch1 = CHR ''-'' then get_esc (tl ch1) else Some (lo, ch1)) of
             None \<Rightarrow> None
           | Some (hi, ch2) \<Rightarrow>
               class_loop r (m \<or> (case r of None \<Rightarrow> False | Some c \<Rightarrow> lo \<le> c \<and> c \<le> hi)) True ch2))"
  by pat_completeness auto

termination
  by (relation "measure (\<lambda>(r, m, n, chunk). length chunk)") (auto dest: class_step_shorter)

declare class_loop.simps [simp del]

lemma class_loop_shorter: "class_loop r m ne chunk = Some (b, rest) \<Longrightarrow> length rest < length chunk"
proof (induction r m ne chunk rule: class_loop.induct)
  case (1 r m ne chunk)
  show ?case
  proof (cases "ne \<and> chunk \<noteq> [] \<and> hd chunk = CHR '']''")
    case True
    then show ?thesis using "1.prems" by (subst (asm) class_loop.simps) (cases chunk, auto)
  next
    case False
    then obtain lo ch1 hi ch2 where s: "get_esc chunk = Some (lo, ch1)"
      "(if hd ch1 = CHR ''-'' then get_esc (tl ch1) else Some (lo, ch1)) = Some (hi, ch2)"
      and r: "class_loop r (m \<or> (case r of None \<Rightarrow> False | Some c \<Rightarrow> lo \<le> c \<and> c \<le> hi)) True ch2 = Some (b, rest)"
      using "1.prems" by (subst (asm) class_loop.simps) (auto split: option.splits)
    show ?thesis using "1.IH" [OF False s(1) refl s(2) refl r] class_step_shorter [OF s] by simp
  qed
qed

datatype chunk_result = ChunkBad | ChunkNo | ChunkRest string

function match_chunk :: "bool \<Rightarrow> string \<Rightarrow> string \<Rightarrow> chunk_result" where
  "match_chunk failed [] s = (if failed then ChunkNo else ChunkRest s)"
| "match_chunk failed (c # cs) s =
     (let failed = (failed \<or> s = [])
      in if c = CHR ''['' then
           (let r = (if failed then None else Some (hd s));
                negated = (cs \<noteq> [] \<and> hd cs = CHR ''^'');
                cs1 = (if negated then tl cs else cs)
            in case class_loop r False False cs1 of
                 None \<Rightarrow> ChunkBad
               | Some (m, rest) \<Rightarrow> match_chunk (failed \<or> m = negated) rest (tl s))
         else if c = CHR ''?'' then match_chunk (failed \<or> hd s = CHR ''/'') cs (tl s)
         else if c = CHR 0x5C then
           (case cs of [] \<Rightarrow> ChunkBad | d # ds \<Rightarrow> match_chunk (failed \<or> d \<noteq> hd s) ds (tl s))
         else match_chunk (failed \<or> c \<noteq> hd s) cs (tl s))"
  by pat_completeness auto

termination
proof (relation "measure (\<lambda>(f, chunk, s). length chunk)", goal_cases)
  case (2 failed c cs s f r negated cs1 z m rest)
  then have "length rest < length cs1" by (metis class_loop_shorter)
  moreover have "length cs1 \<le> length cs" using 2 by (simp split: if_splits)
  ultimately show ?case by simp
qed auto

fun scan_range :: "bool \<Rightarrow> string \<Rightarrow> string \<times> string" where
  "scan_range inrange [] = ([], [])"
| "scan_range inrange (c # cs) =
     (if c = CHR 0x5C then (case cs of [] \<Rightarrow> ([c], [])
        | d # ds \<Rightarrow> (case scan_range inrange ds of (a, b) \<Rightarrow> (c # d # a, b)))
      else if c = CHR ''*'' \<and> \<not> inrange then ([], c # cs)
      else (case scan_range (if c = CHR ''['' then True else if c = CHR '']'' then False else inrange) cs of
        (a, b) \<Rightarrow> (c # a, b)))"

definition scan_chunk :: "string \<Rightarrow> bool \<times> string \<times> string" where
  "scan_chunk p = (let p1 = dropWhile (\<lambda>c. c = CHR ''*'') p
     in case scan_range False p1 of (chunk, rest) \<Rightarrow> (p1 \<noteq> p, chunk, rest))"

lemma scan_range_length: "scan_range r p = (a, b) \<Longrightarrow> length a + length b = length p"
  by (induction r p arbitrary: a b rule: scan_range.induct)
    (auto split: if_splits list.splits prod.splits)

lemma scan_chunk_shorter: "scan_chunk p = (star, chunk, rest) \<Longrightarrow> p \<noteq> [] \<Longrightarrow> length rest < length p"
proof -
  assume sc: "scan_chunk p = (star, chunk, rest)" and ne: "p \<noteq> []"
  define p1 where "p1 = dropWhile (\<lambda>c. c = CHR ''*'') p"
  have r: "scan_range False p1 = (chunk, rest)" using sc by (auto simp: scan_chunk_def p1_def Let_def split: prod.splits)
  have len: "length chunk + length rest = length p1" using scan_range_length [OF r] .
  show ?thesis
  proof (cases "p1 = p")
    case True
    then obtain c cs where p: "p = c # cs" "c \<noteq> CHR ''*''" using ne
      unfolding p1_def dropWhile_eq_self_iff by (cases p) auto
    have "chunk \<noteq> []" using r True p by (auto split: if_splits list.splits prod.splits)
    then show ?thesis using len True by (cases chunk) auto
  next
    case False
    have "p1 = drop (length (takeWhile (\<lambda>c. c = CHR ''*'') p)) p" by (simp add: p1_def dropWhile_eq_drop)
    with False ne have "length p1 < length p" by (cases "takeWhile (\<lambda>c. c = CHR ''*'') p") (auto simp: p1_def dropWhile_eq_drop)
    then show ?thesis using len by simp
  qed
qed

text \<open>After a star: the first position, not past a slash, at which the chunk matches.\<close>

fun skip_match :: "bool \<Rightarrow> string \<Rightarrow> string \<Rightarrow> chunk_result" where
  "skip_match final chunk [] = ChunkNo"
| "skip_match final chunk (c # s) =
     (if c = CHR ''/'' then ChunkNo
      else case match_chunk False chunk s of
        ChunkBad \<Rightarrow> ChunkBad
      | ChunkNo \<Rightarrow> skip_match final chunk s
      | ChunkRest t \<Rightarrow> if final \<and> t \<noteq> [] then skip_match final chunk s else ChunkRest t)"

function path_match :: "string \<Rightarrow> string \<Rightarrow> bool" where
  "path_match p name =
     (if p = [] then name = []
      else case scan_chunk p of (star, chunk, rest) \<Rightarrow>
        if star \<and> chunk = [] then CHR ''/'' \<notin> set name
        else case match_chunk False chunk name of
          ChunkBad \<Rightarrow> False
        | r \<Rightarrow> (case (case r of ChunkRest t \<Rightarrow> if t = [] \<or> rest \<noteq> [] then r else ChunkNo | _ \<Rightarrow> ChunkNo) of
            ChunkRest t \<Rightarrow> path_match rest t
          | _ \<Rightarrow> if star then (case skip_match (rest = []) chunk name of
                                ChunkRest t \<Rightarrow> path_match rest t | _ \<Rightarrow> False)
                 else False))"
  by pat_completeness auto

termination
  by (relation "measure (\<lambda>(p, name). length p)") (auto dest: scan_chunk_shorter [OF sym])

declare path_match.simps [simp del]

section \<open>Patterns without and with a star\<close>

definition plain_char :: "char \<Rightarrow> bool" where
  "plain_char c \<longleftrightarrow> c \<noteq> CHR ''*'' \<and> c \<noteq> CHR ''?'' \<and> c \<noteq> CHR ''['' \<and> c \<noteq> CHR '']'' \<and> c \<noteq> CHR 0x5C"

lemma scan_range_plain: "list_all plain_char p \<Longrightarrow> scan_range False p = (p, [])"
  by (induction p) (auto simp: plain_char_def)

lemma match_chunk_failed: "list_all plain_char p \<Longrightarrow> match_chunk True p s = ChunkNo"
  by (induction p arbitrary: s) (auto simp: plain_char_def Let_def)

lemma match_chunk_plain: "list_all plain_char p \<Longrightarrow>
    match_chunk False p s = (if has_prefix s p then ChunkRest (drop (length p) s) else ChunkNo)"
proof (induction p arbitrary: s)
  case (Cons c p)
  have c: "c \<noteq> CHR ''*''" "c \<noteq> CHR ''?''" "c \<noteq> CHR ''[''" "c \<noteq> CHR 0x5C" "list_all plain_char p"
    using Cons.prems by (simp_all add: plain_char_def [of c])
  show ?case
  proof (cases s)
    case (Cons a t)
    then show ?thesis using c Cons.IH [OF c(5), of t] match_chunk_failed [OF c(5), of t]
      by (cases "c = a") (auto simp: has_prefix_def Let_def)
  qed (use c match_chunk_failed [OF c(5)] in \<open>auto simp: has_prefix_def Let_def\<close>)
qed (simp add: has_prefix_def)

text \<open>A pattern without metacharacters matches itself only.\<close>

lemma path_match_plain: "list_all plain_char p \<Longrightarrow> path_match p name \<longleftrightarrow> name = p"
proof -
  assume p: "list_all plain_char p"
  then have d: "dropWhile (\<lambda>c. c = CHR ''*'') p = p" by (cases p) (auto simp: plain_char_def)
  have e: "path_match [] t \<longleftrightarrow> t = []" for t by (subst path_match.simps) simp
  show ?thesis
    by (subst path_match.simps)
      (auto simp: scan_chunk_def d scan_range_plain [OF p] match_chunk_plain [OF p] e has_prefix_iff)
qed

text \<open>A lone star matches every name without a slash.\<close>

lemma path_match_star [simp]: "path_match ''*'' name \<longleftrightarrow> CHR ''/'' \<notin> set name"
  by (subst path_match.simps) (simp add: scan_chunk_def)

end
