(* ===== verification/Limited_Read.thy ===== *)
theory Limited_Read
  imports Go_Prelude
begin

text \<open>
  Reading a request body under a size limit, as the upload handlers do it: \<open>io.ReadAll\<close> of an \<open>io.LimitReader\<close> whose
  limit is one more than the bytes allowed, then a comparison of the length.  The sum is an \<open>int64\<close> and wraps at the
  largest limit.
\<close>

definition int64 :: "int \<Rightarrow> int" where
  "int64 n = (n + 2 ^ 63) mod 2 ^ 64 - 2 ^ 63"

text \<open>\<open>io.LimitReader\<close> reports the end of the stream once the limit is used up, so at once when it is not positive.\<close>

definition LimitReader :: "string \<Rightarrow> int \<Rightarrow> string" where
  "LimitReader body n = (if n < int (length body) then take (nat n) body else body)"

text \<open>The body a handler goes on with, or \<open>None\<close> when it refuses the body as too large.\<close>

definition read_limited :: "string \<Rightarrow> int \<Rightarrow> string option" where
  "read_limited body mx = (let b = LimitReader body (int64 (mx + 1)) in if int (length b) > mx then None else Some b)"

lemma int64_id: "- (2 ^ 63) \<le> n \<Longrightarrow> n < 2 ^ 63 \<Longrightarrow> int64 n = n"
  by (simp add: int64_def)

text \<open>Below the largest limit the check is exact.\<close>

lemma read_limited_exact:
  assumes "0 \<le> mx" "mx < 2 ^ 63 - 1"
  shows "read_limited body mx = (if int (length body) > mx then None else Some body)"
proof -
  have "int64 (mx + 1) = mx + 1" using assms by (intro int64_id) simp_all
  moreover have "int (nat (mx + 1)) = mx + 1" using assms(1) by simp
  ultimately show ?thesis using assms(1) by (auto simp: read_limited_def LimitReader_def Let_def)
qed

text \<open>At the largest limit nothing is read, and the empty body is accepted.\<close>

lemma read_limited_overflow: "read_limited body (2 ^ 63 - 1) = Some []"
proof -
  have "int64 (2 ^ 63 - 1 + 1) = - (2 ^ 63)" by (simp add: int64_def)
  then show ?thesis by (simp add: read_limited_def LimitReader_def)
qed

lemma read_limited_whole: "mx < 2 ^ 63 - 1 \<Longrightarrow> read_limited body mx = Some b \<Longrightarrow> b = body"
proof -
  assume m: "mx < 2 ^ 63 - 1" and r: "read_limited body mx = Some b"
  have "int (length b) \<le> mx" using r by (auto simp: read_limited_def Let_def split: if_splits)
  then have "0 \<le> mx" by simp
  then show "b = body" using read_limited_exact [OF _ m] r by (simp split: if_splits)
qed

end
