(* ===== verification/Docker_Local.thy ===== *)
theory Docker_Local
  imports Docker_GC Path_Match Limited_Read
begin

text \<open>
  The writing side of \<open>internal/registry/docker/local.go\<close>: pushing a manifest, deleting a tag, deleting
  a manifest with its cascade over an image index, and the immutable-tag policy.  Events and response
  headers are not modelled; the outcome of a handler is the error it answers with.
\<close>

record local_config =
  lc_allowPush :: bool
  lc_maxUpload :: int
  lc_immutableTags :: "string list"
  lc_cascadeMinAge :: int

definition isImmutableTag :: "local_config \<Rightarrow> string \<Rightarrow> bool" where
  "isImmutableTag l tag \<longleftrightarrow> list_ex (\<lambda>pat. pat = tag \<or> path_match pat tag) (lc_immutableTags l)"

definition immutableTagsPointingAt :: "local_config \<Rightarrow> docker_store \<Rightarrow> string \<Rightarrow> string \<Rightarrow> string list" where
  "immutableTagsPointingAt l s name d = filter (\<lambda>tag. isImmutableTag l tag \<and>
     (case ReadTag s name tag of Inl _ \<Rightarrow> False | Inr dgst \<Rightarrow> digest_string dgst = d)) (ListTags s name)"

definition string_bytes :: "string \<Rightarrow> bytes" where
  "string_bytes s = map of_char s"

text \<open>The digest of a manifest body.\<close>

definition manifest_digest :: "hash_fun \<Rightarrow> string \<Rightarrow> digest" where
  "manifest_digest hsum body = digest_of hsum ''sha256'' (string_bytes body)"

definition body_limit :: "local_config \<Rightarrow> int" where
  "body_limit l = (if lc_maxUpload l = 0 then 4 * 1024 * 1024 else lc_maxUpload l)"

definition tag_ref :: "string \<Rightarrow> bool" where
  "tag_ref ref \<longleftrightarrow> \<not> IsDigestReference ref \<and> ref \<noteq> []"

text \<open>The check of a push against the immutable-tag policy.\<close>

definition push_conflict ::
  "local_config \<Rightarrow> docker_store \<Rightarrow> string \<Rightarrow> string \<Rightarrow> digest \<Rightarrow> docker_error option" where
  "push_conflict l s name ref dgst =
     (if tag_ref ref \<and> isImmutableTag l ref then
        case ReadTag s name ref of
          Inr existing \<Rightarrow> if digest_string existing \<noteq> digest_string dgst then Some ErrTagImmutable else None
        | Inl e \<Rightarrow> if e = ErrTagUnknown then None else Some e
      else None)"

text \<open>The referrers entry of a pushed manifest; a failure is only a warning.\<close>

definition index_subject ::
  "codec \<Rightarrow> docker_store \<Rightarrow> string \<Rightarrow> digest \<Rightarrow> string \<Rightarrow> string \<Rightarrow> unix_time \<Rightarrow> docker_store" where
  "index_subject c s name dgst body contentType now = (case j_inspect c body of
     None \<Rightarrow> s
   | Some insp \<Rightarrow> (case im_Subject insp of
       None \<Rightarrow> s
     | Some subject \<Rightarrow>
         if subject = [] then s
         else fst (AddReferrer c s name subject
                \<lparr>md_MediaType = contentType, md_ArtifactType = effectiveArtifactType insp,
                 md_Digest = digest_string dgst, md_Size = length body\<rparr> now)))"

definition putManifest ::
  "hash_fun \<Rightarrow> codec \<Rightarrow> local_config \<Rightarrow> docker_store \<Rightarrow> string \<Rightarrow> string \<Rightarrow> string \<Rightarrow> string \<Rightarrow> unix_time \<Rightarrow>
   docker_store \<times> (docker_error + digest)" where
  "putManifest hsum c l s name ref body ctype now =
     (if \<not> lc_allowPush l then (s, Err ErrDenied)
      else case read_limited body (body_limit l) of None \<Rightarrow> (s, Err ErrTooLarge)
      | Some b \<Rightarrow> let dgst = manifest_digest hsum b in
        case push_conflict l s name ref dgst of
          Some e \<Rightarrow> (s, Err e)
        | None \<Rightarrow>
            let contentType = (if ctype = [] then ''application/vnd.docker.distribution.manifest.v2+json'' else ctype)
            in case WriteManifest s name dgst b contentType now of
                 (s1, Some e) \<Rightarrow> (s1, Err e)
               | (s1, None) \<Rightarrow>
                   (case (if tag_ref ref then SetTag s1 name ref dgst now else (s1, None)) of
                      (s2, Some e) \<Rightarrow> (s2, Err e)
                    | (s2, None) \<Rightarrow> (index_subject c s2 name dgst b contentType now, Ok dgst)))"

definition deleteTagReference ::
  "local_config \<Rightarrow> docker_store \<Rightarrow> string \<Rightarrow> string \<Rightarrow> docker_store \<times> docker_error option" where
  "deleteTagReference l s name tag =
     (if isImmutableTag l tag then (s, Some ErrTagImmutable) else DeleteTag s name tag)"

text \<open>What the body of the manifest to delete says: its subject is told, its sub-manifests collected.\<close>

definition forget_referrer :: "codec \<Rightarrow> docker_store \<Rightarrow> string \<Rightarrow> digest \<Rightarrow> unix_time \<Rightarrow> docker_store" where
  "forget_referrer c s name dgst now = (case ReadManifest s name dgst of
     Inl _ \<Rightarrow> s
   | Inr rec \<Rightarrow> (case j_inspect c (mr_Body rec) of
       None \<Rightarrow> s
     | Some insp \<Rightarrow> (case im_Subject insp of
         None \<Rightarrow> s
       | Some subject \<Rightarrow> if subject = [] then s else fst (RemoveReferrer c s name subject (digest_string dgst) now))))"

definition sub_manifests :: "codec \<Rightarrow> docker_store \<Rightarrow> string \<Rightarrow> digest \<Rightarrow> string list" where
  "sub_manifests c s name dgst = (case ReadManifest s name dgst of
     Inl _ \<Rightarrow> []
   | Inr rec \<Rightarrow> (case j_any c (mr_Body rec) of None \<Rightarrow> [] | Some parsed \<Rightarrow> array_digests parsed ''manifests''))"

text \<open>The cascade over the sub-manifests, against the live set of the repository.\<close>

fun cascade :: "local_config \<Rightarrow> live_set \<Rightarrow> string \<Rightarrow> unix_time \<Rightarrow> string list \<Rightarrow> docker_store \<Rightarrow> docker_store" where
  "cascade l live name now [] s = s"
| "cascade l live name now (sub # subs) s =
     (if hasManifest live name sub then cascade l live name now subs s
      else case ParseDigest sub of
        Inl _ \<Rightarrow> cascade l live name now subs s
      | Inr subDgst \<Rightarrow>
          let t = ManifestModTime s name subDgst
          in if lc_cascadeMinAge l > 0 \<and> t > 0 \<and> now - t < lc_cascadeMinAge l then cascade l live name now subs s
             else case DeleteManifest s name subDgst of
               (s1, Some _) \<Rightarrow> cascade l live name now subs s1
             | (s1, None) \<Rightarrow> cascade l live name now subs (fst (DeleteReferrersIndex s1 name sub)))"

definition deleteManifestDigest ::
  "codec \<Rightarrow> local_config \<Rightarrow> docker_store \<Rightarrow> string \<Rightarrow> digest \<Rightarrow> unix_time \<Rightarrow> docker_store \<times> docker_error option" where
  "deleteManifestDigest c l s name dgst now =
     (if immutableTagsPointingAt l s name (digest_string dgst) \<noteq> [] then (s, Some ErrTagImmutable)
      else let s1 = forget_referrer c s name dgst now; subs = sub_manifests c s name dgst
           in case DeleteManifest s1 name dgst of
                (s2, Some e) \<Rightarrow> (s2, Some e)
              | (s2, None) \<Rightarrow>
                  let s3 = fst (DeleteReferrersIndex s2 name (digest_string dgst))
                  in (if subs = [] then s3
                      else cascade l (markRepoScoped c s3 name (digest_string dgst)) name now subs s3, None))"

definition DeleteReference ::
  "codec \<Rightarrow> local_config \<Rightarrow> docker_store \<Rightarrow> string \<Rightarrow> string \<Rightarrow> unix_time \<Rightarrow> docker_store \<times> docker_error option" where
  "DeleteReference c l s name ref now = (case ValidateRepoName name of
     Some e \<Rightarrow> (s, Some e)
   | None \<Rightarrow>
       if ref = [] then (s, Some ErrNameInvalid)
       else if IsDigestReference ref then
         (case ParseDigest ref of
            Inl e \<Rightarrow> (s, Some (ErrDigestInvalid e))
          | Inr dgst \<Rightarrow> deleteManifestDigest c l s name dgst now)
       else case ValidateTag ref of Some e \<Rightarrow> (s, Some e) | None \<Rightarrow> deleteTagReference l s name ref)"

text \<open>The handler of \<open>DELETE /v2/{name}/manifests/{ref}\<close>; \<open>dgst\<close> is the zero digest for a tag.\<close>

definition deleteManifest ::
  "codec \<Rightarrow> local_config \<Rightarrow> docker_store \<Rightarrow> string \<Rightarrow> string \<Rightarrow> digest \<Rightarrow> unix_time \<Rightarrow>
   docker_store \<times> docker_error option" where
  "deleteManifest c l s name ref dgst now =
     (if \<not> lc_allowPush l then (s, Some ErrDenied)
      else if IsZero dgst then deleteTagReference l s name ref
      else deleteManifestDigest c l s name dgst now)"

text \<open>\<open>readManifest\<close>: a tag is resolved first.\<close>

definition readManifest :: "docker_store \<Rightarrow> string \<Rightarrow> string \<Rightarrow> digest \<Rightarrow> docker_error + manifest_record" where
  "readManifest s name ref dgst =
     (if IsZero dgst then (case ReadTag s name ref of Inl e \<Rightarrow> Err e | Inr d \<Rightarrow> ReadManifest s name d)
      else ReadManifest s name dgst)"

text \<open>\<open>serveReferrers\<close>: the index with the entries of one artifact type, or all.\<close>

definition serveReferrers :: "codec \<Rightarrow> docker_store \<Rightarrow> string \<Rightarrow> digest \<Rightarrow> string \<Rightarrow> oci_index" where
  "serveReferrers c s name dgst artifactType =
     (let idx = ReadReferrers c s name (digest_string dgst)
      in if artifactType = [] then idx
         else idx\<lparr>oi_Manifests := filter (\<lambda>m. md_ArtifactType m = artifactType) (oi_Manifests idx)\<rparr>)"

section \<open>Subjects\<close>

text \<open>
  The subject a manifest body names, empty when it names none, and the subject of a stored manifest.  The code writes and
  deletes the index of a subject wherever its path leads, so the properties below ask for plain subjects.
\<close>

definition subject_of :: "codec \<Rightarrow> string \<Rightarrow> string" where
  "subject_of c body = (case j_inspect c body of None \<Rightarrow> []
     | Some insp \<Rightarrow> (case im_Subject insp of None \<Rightarrow> [] | Some subject \<Rightarrow> subject))"

definition stored_subject :: "codec \<Rightarrow> docker_store \<Rightarrow> string \<Rightarrow> digest \<Rightarrow> string" where
  "stored_subject c s name dgst = (case ReadManifest s name dgst of Inl _ \<Rightarrow> [] | Inr rec \<Rightarrow> subject_of c (mr_Body rec))"

section \<open>What the operations leave alone\<close>

text \<open>The same base directory, and the same files except at some paths.\<close>

definition changes_only :: "(path \<Rightarrow> bool) \<Rightarrow> docker_store \<Rightarrow> docker_store \<Rightarrow> bool" where
  "changes_only P s s' \<longleftrightarrow> st_base s' = st_base s \<and> st_writable s' = st_writable s \<and>
     (\<forall>q. \<not> P q \<longrightarrow> fs_read (st_fs s') q = fs_read (st_fs s) q)"

lemma changes_refl [intro]: "changes_only P s s"
  by (simp add: changes_only_def)

lemma changes_trans: "changes_only P s s' \<Longrightarrow> changes_only P s' s'' \<Longrightarrow> changes_only P s s''"
  by (simp add: changes_only_def)

lemma changes_weaken: "changes_only P s s' \<Longrightarrow> (\<And>q. P q \<Longrightarrow> Q q) \<Longrightarrow> changes_only Q s s'"
  by (auto simp: changes_only_def)

lemma changes_put_drop: "P p \<Longrightarrow> changes_only P s (put_file s p b t)" "P p \<Longrightarrow> changes_only P s (drop_file s p)"
  by (auto simp: changes_only_def)

lemma changes_paths: "changes_only P s s' \<Longrightarrow> manifestPath s' = manifestPath s" "changes_only P s s' \<Longrightarrow> mediaPath s' = mediaPath s"
  "changes_only P s s' \<Longrightarrow> tagPath s' = tagPath s" "changes_only P s s' \<Longrightarrow> referrersIndexPath s' = referrersIndexPath s"
  by (rule paths_cong, simp add: changes_only_def)+

lemma changes_tag: "changes_only P s s' \<Longrightarrow> \<not> P (tagPath s name t) \<Longrightarrow> ReadTag s' name t = ReadTag s name t"
  by (intro ReadTag_cong) (auto simp: changes_only_def)

lemma changes_manifest: "changes_only P s s' \<Longrightarrow> \<not> P (manifestPath s name d) \<Longrightarrow> \<not> P (mediaPath s name d) \<Longrightarrow>
   ReadManifest s' name d = ReadManifest s name d"
  by (intro ReadManifest_cong) (auto simp: changes_only_def)

text \<open>The files of one manifest, and of any referrers index of a plain subject.\<close>

definition manifest_files :: "docker_store \<Rightarrow> string \<Rightarrow> digest \<Rightarrow> path \<Rightarrow> bool" where
  "manifest_files s name d q \<longleftrightarrow> q = manifestPath s name d \<or> q = mediaPath s name d"

definition index_files :: "docker_store \<Rightarrow> path \<Rightarrow> bool" where
  "index_files s q \<longleftrightarrow> (\<exists>name x. plain_subject x \<and> q = referrersIndexPath s name x)"

lemma manifest_files_simps [simp]:
  "\<not> manifest_files s name d (tagPath s name' t)" "\<not> index_files s (tagPath s name' t)"
  "\<not> index_files s (manifestPath s name' e)" "\<not> index_files s (mediaPath s name' e)"
  "manifest_files s name d (manifestPath s name' e) \<longleftrightarrow> name = name' \<and> digest_string d = digest_string e"
  "manifest_files s name d (mediaPath s name' e) \<longleftrightarrow> name = name' \<and> digest_string d = digest_string e"
  by (auto simp: manifest_files_def index_files_def index_classes index_classes [THEN not_sym])

lemma DeleteManifest_changes: "changes_only (manifest_files s name d) s (fst (DeleteManifest s name d))"
  by (auto simp: DeleteManifest_def manifest_files_def intro!: changes_trans [OF changes_put_drop(2) changes_put_drop(2)]
      split: option.splits)

lemma referrer_changes:
  assumes "plain_subject x"
  shows "changes_only (index_files s) s (fst (AddReferrer c s name x desc now))"
    "changes_only (index_files s) s (fst (RemoveReferrer c s name x r now))"
    "changes_only (index_files s) s (fst (DeleteReferrersIndex s name x))"
proof -
  have "index_files s (referrersIndexPath s name x)" using assms by (auto simp: index_files_def)
  then show "changes_only (index_files s) s (fst (AddReferrer c s name x desc now))"
    "changes_only (index_files s) s (fst (RemoveReferrer c s name x r now))"
    "changes_only (index_files s) s (fst (DeleteReferrersIndex s name x))"
    by (auto simp: AddReferrer_def RemoveReferrer_def DeleteReferrersIndex_def writeReferrers_def Let_def intro!: changes_put_drop)
qed

lemma forget_changes: "plain_subject (stored_subject c s name d) \<Longrightarrow> changes_only (index_files s) s (forget_referrer c s name d now)"
  by (auto simp: forget_referrer_def stored_subject_def subject_of_def intro: referrer_changes split: sum.splits option.splits)

lemma index_subject_changes: "plain_subject (subject_of c body) \<Longrightarrow> changes_only (index_files s) s (index_subject c s name d body ct now)"
  by (auto simp: index_subject_def subject_of_def intro: referrer_changes split: option.splits)

text \<open>What the cascade may delete: unmarked sub-manifests, and referrers indexes.\<close>

definition cascade_files :: "docker_store \<Rightarrow> live_set \<Rightarrow> string \<Rightarrow> string list \<Rightarrow> path \<Rightarrow> bool" where
  "cascade_files s live name subs q \<longleftrightarrow> index_files s q \<or>
     (\<exists>sub\<in>set subs. \<exists>d. \<not> hasManifest live name sub \<and> ParseDigest sub = Ok d \<and> manifest_files s name d q)"

lemma index_files_cong: "changes_only P s s' \<Longrightarrow> index_files s' = index_files s"
  by (auto simp: fun_eq_iff index_files_def changes_paths(4))

lemma cascade_files_cong: "changes_only P s s' \<Longrightarrow> cascade_files s' live name subs = cascade_files s live name subs"
  by (auto simp: fun_eq_iff cascade_files_def index_files_def manifest_files_def changes_paths)

lemma cascade_changes: "changes_only (cascade_files s live name subs) s (cascade l live name now subs s)"
proof (induction subs arbitrary: s)
  case (Cons sub subs)
  have weak: "cascade_files s live name subs q \<Longrightarrow> cascade_files s live name (sub # subs) q" for q
    by (auto simp: cascade_files_def)
  have skip: "changes_only (cascade_files s live name (sub # subs)) s (cascade l live name now subs s)"
    by (rule changes_weaken [OF Cons.IH weak])
  show ?case
  proof (cases "cascade l live name now (sub # subs) s = cascade l live name now subs s")
    case False
    then obtain d where d: "\<not> hasManifest live name sub" "ParseDigest sub = Ok d"
      by (cases "hasManifest live name sub"; cases "ParseDigest sub") auto
    let ?s1 = "fst (DeleteManifest s name d)"
    have 1: "changes_only (cascade_files s live name (sub # subs)) s ?s1"
      by (rule changes_weaken [OF DeleteManifest_changes]) (use d in \<open>auto simp: cascade_files_def\<close>)
    have 2: "changes_only (cascade_files s live name (sub # subs)) s (fst (DeleteReferrersIndex ?s1 name sub))"
    proof (rule changes_trans [OF 1])
      show "changes_only (cascade_files s live name (sub # subs)) ?s1 (fst (DeleteReferrersIndex ?s1 name sub))"
        by (rule changes_weaken [OF referrer_changes(3) [OF parse_plain [OF d(2)]]]) (simp add: index_files_cong [OF 1] cascade_files_def)
    qed
    have "changes_only (cascade_files s live name (sub # subs)) s (cascade l live name now subs s')"
      if "changes_only (cascade_files s live name (sub # subs)) s s'" for s'
    proof (rule changes_trans [OF that])
      show "changes_only (cascade_files s live name (sub # subs)) s' (cascade l live name now subs s')"
        by (rule changes_weaken [OF Cons.IH]) (simp only: cascade_files_cong [OF that] weak)
    qed
    note after = this [OF 1] this [OF 2]
    obtain s1 r where "DeleteManifest s name d = (s1, r)" by fastforce
    with after skip d show ?thesis by (cases r) (simp_all add: Let_def)
  qed (use skip in simp)
qed auto

section \<open>What the scoped walk marks\<close>

lemma scoped_tags_grows:
  "grows c s name live (scoped_tags c s name ex ts live) \<and>
   (\<forall>t\<in>set ts. \<forall>d. ReadTag s name t = Ok d \<longrightarrow> digest_string d \<noteq> ex \<longrightarrow>
     hasManifest (scoped_tags c s name ex ts live) name (digest_string d))"
proof (induction ts arbitrary: live)
  case (Cons t ts)
  show ?case
  proof (cases "ReadTag s name t")
    case (Inr d)
    let ?l = "fst (markManifestRecursive c s name (digest_string d) live)"
    have l: "grows c s name live ?l" "hasManifest ?l name (digest_string d)"
      using markManifest_closed parses_digest [OF ReadTag_valid [OF Inr]] by blast+
    have "grows c s name live (scoped_tags c s name ex ts ?l)" using grows_trans [OF l(1)] Cons.IH by blast
    moreover have "hasManifest (scoped_tags c s name ex ts ?l) name (digest_string d)"
      using l(2) Cons.IH [of ?l] grows_le by (auto simp: live_le_iff)
    ultimately show ?thesis using Inr Cons.IH by simp
  qed (use Cons.IH in simp)
qed (simp add: grows_refl)

lemma scoped_referrers_le: "live_le live (scoped_referrers c s name ex ms live)"
proof (induction ms arbitrary: live)
  case (Cons m ms)
  let ?a = "addManifest live name (md_Digest m)"
  have "live_le live (fst (markManifestRecursive c s name (md_Digest m) ?a))"
    using grows_le [OF conjunct1 [OF markManifest_closed], of ?a c s name "md_Digest m"]
    by (auto simp: live_le_iff gc_simps)
  then show ?case using Cons.IH by (auto simp: live_le_iff)
qed (simp add: live_le_def)

lemma scoped_indexes_le: "live_le live (scoped_indexes c s name ex es live)"
proof (induction es arbitrary: live)
  case (Cons e es)
  let ?sub = "trim_suffix e ''.json''"
  let ?l = "addBlob (addManifest live name ?sub) ?sub"
  have "live_le live ?l" by (auto simp: live_le_iff gc_simps)
  then have "live_le live (scoped_indexes c s name ex es ?l)"
    "live_le live (scoped_indexes c s name ex es (scoped_referrers c s name ex ms ?l))" for ms
    using Cons.IH scoped_referrers_le unfolding live_le_iff by blast+
  then show ?case using Cons.IH by (auto simp: Let_def split: option.splits)
qed (simp add: live_le_def)

text \<open>Reachability that does not pass through the manifest to delete.\<close>

inductive reach_but :: "codec \<Rightarrow> docker_store \<Rightarrow> string \<Rightarrow> digest \<Rightarrow> string \<Rightarrow> bool" for c s name dgst where
  rb_tag: "t \<in> set (ListTags s name) \<Longrightarrow> ReadTag s name t = Ok e \<Longrightarrow> e \<noteq> dgst \<Longrightarrow>
     reach_but c s name dgst (digest_string e)"
| rb_child: "reach_but c s name dgst d \<Longrightarrow> ParseDigest d \<noteq> Ok dgst \<Longrightarrow> x \<in> set (children c s name d) \<Longrightarrow> parses x \<Longrightarrow>
     reach_but c s name dgst x"

lemma scoped_marks:
  assumes same: "\<And>t. t \<in> set (ListTags s name) \<Longrightarrow> t \<in> set (ListTags s' name) \<and> ReadTag s' name t = ReadTag s name t"
    "\<And>d. valid_digest d \<Longrightarrow> d \<noteq> dgst \<Longrightarrow> ReadManifest s' name d = ReadManifest s name d"
    and v: "valid_digest dgst" and r: "reach_but c s name dgst m"
  shows "hasManifest (markRepoScoped c s' name (digest_string dgst)) name m"
proof -
  let ?live = "scoped_tags c s' name (digest_string dgst) (ListTags s' name) newLiveSet"
  note g = scoped_tags_grows [of c s' name newLiveSet "digest_string dgst" "ListTags s' name"]
  have fin: "finished c s' name ?live d" if "hasManifest ?live name d" for d
    using that g by (auto simp: grows_def gc_simps)
  have "hasManifest ?live name m" using r
  proof induction
    case (rb_tag t e)
    then have "digest_string e \<noteq> digest_string dgst" using digest_string_inj v ReadTag_valid by metis
    moreover have "t \<in> set (ListTags s' name)" "ReadTag s' name t = Ok e" using same(1) [OF rb_tag(1)] rb_tag(2) by simp_all
    ultimately show ?case using g by blast
  next
    case (rb_child d x)
    have "children c s' name d = children c s name d"
      using rb_child(2) same(2) ParseDigest_valid by (cases "ParseDigest d") (auto simp: children_def)
    then show ?case using fin [OF rb_child.IH] rb_child by (auto simp: finished_def)
  qed
  then show ?thesis using scoped_indexes_le by (auto simp: markRepoScoped_def live_le_iff)
qed

section \<open>Properties of pushes and deletes\<close>

lemma trim_digest: "valid_digest d \<Longrightarrow> trim_space (digest_string d) = digest_string d"
proof -
  assume v: "valid_digest d"
  have "\<not> is_space c" if "c \<in> set (digest_string d)" for c
  proof -
    have "c \<in> set ''sha256:'' \<or> c \<in> set ''sha512:'' \<or> is_hex_char c"
      using that v by (auto simp: digest_string_def valid_digest_def algorithmHexLength_def lower_hex_def list_all_iff
          split: if_splits)
    then show ?thesis by (auto simp: is_space_def is_hex_char_def is_digit_def)
  qed
  then show ?thesis by (simp add: trim_space_def trim_func_id)
qed

lemma WriteManifest_changes: "changes_only (manifest_files s name d) s (fst (WriteManifest s name d body ct now))"
  by (auto simp: WriteManifest_def manifest_files_def intro!: changes_trans [OF changes_put_drop(1) changes_put_drop(1)])

text \<open>What an accepted push does: it writes the manifest, then the tag, then a referrers index.\<close>

lemma putManifest_cases:
  assumes "putManifest hsum c l s name ref body ctype now = (s', r)"
  obtains (rejected) "s' = s" "\<not> (\<exists>d. r = Ok d)"
  | (accepted) b ct s1 s2 where "r = Ok (manifest_digest hsum b)" "st_writable s" "lc_allowPush l"
    "ct = (if ctype = [] then ''application/vnd.docker.distribution.manifest.v2+json'' else ctype)"
    "push_conflict l s name ref (manifest_digest hsum b) = None"
    "s1 = fst (WriteManifest s name (manifest_digest hsum b) b ct now)"
    "s2 = (if tag_ref ref then fst (SetTag s1 name ref (manifest_digest hsum b) now) else s1)"
    "s' = index_subject c s2 name (manifest_digest hsum b) b ct now" "read_limited body (body_limit l) = Some b"
proof (cases "s' = s \<and> \<not> (\<exists>d. r = Ok d)")
  case False
  moreover from this obtain b where "read_limited body (body_limit l) = Some b"
    using assms by (cases "read_limited body (body_limit l)") (auto simp: putManifest_def split: if_splits)
  ultimately show thesis
    using assms by (intro accepted [OF _ _ _ refl _ refl refl])
      (auto simp: putManifest_def WriteManifest_def SetTag_def Let_def split: if_splits option.splits)
qed (use rejected in blast)

text \<open>The subject of the body a push goes on with is a plain name.\<close>

definition plain_push :: "codec \<Rightarrow> local_config \<Rightarrow> string \<Rightarrow> bool" where
  "plain_push c l body \<longleftrightarrow> (case read_limited body (body_limit l) of None \<Rightarrow> True | Some b \<Rightarrow> plain_subject (subject_of c b))"

text \<open>After a push the tag points at the pushed digest, and the other tags where they did.\<close>

lemma putManifest_tags:
  assumes put: "putManifest hsum c l s name ref body ctype now = (s', Ok d)" and len: "sum_length hsum"
    and plain: "plain_push c l body"
  shows "ReadTag s' n t = (if n = name \<and> t = ref \<and> tag_ref ref then Ok d else ReadTag s n t)"
  using put
proof (cases rule: putManifest_cases)
  case (accepted b ct s1 s2)
  let ?d = "manifest_digest hsum b"
  have pb: "plain_subject (subject_of c b)" using plain accepted(9) by (simp add: plain_push_def)
  have v: "valid_digest ?d" using valid_digest_of [OF len] by (simp add: manifest_digest_def supported_def)
  have 1: "changes_only (manifest_files s name ?d) s s1" using accepted(6) WriteManifest_changes by simp
  have 2: "ReadTag s' n t = ReadTag s2 n t"
    unfolding accepted(8) by (rule changes_tag [OF index_subject_changes [OF pb]]) simp
  have w: "st_writable s1" using 1 accepted(2) by (simp add: changes_only_def)
  show ?thesis
  proof (cases "tag_ref ref")
    case True
    then have s2: "s2 = put_file s1 (tagPath s1 name ref) (digest_string ?d) now"
      using accepted(7) w by (simp add: SetTag_def)
    have "ReadTag s2 n t = (if n = name \<and> t = ref then Ok ?d else ReadTag s1 n t)"
      unfolding s2 using v by (auto simp: ReadTag_def trim_digest ParseDigest_print)
    then show ?thesis using 2 changes_tag [OF 1] True accepted(1) by auto
  next
    case False
    then show ?thesis using 2 changes_tag [OF 1] accepted(7) by simp
  qed
qed auto

lemma putManifest_manifests:
  assumes put: "putManifest hsum c l s name ref body ctype now = (s', Ok d)" and len: "sum_length hsum"
    and plain: "plain_push c l body" and max: "body_limit l < 2 ^ 63 - 1"
  shows "ReadManifest s' name d = Ok \<lparr>mr_Body = body, mr_ContentType = trim_space
     (if ctype = [] then ''application/vnd.docker.distribution.manifest.v2+json'' else ctype), mr_Digest = d\<rparr>"
  using put
proof (cases rule: putManifest_cases)
  case (accepted b ct s1 s2)
  have b: "b = body" using read_limited_whole [OF max accepted(9)] .
  have pb: "plain_subject (subject_of c b)" using plain accepted(9) by (simp add: plain_push_def)
  note accepted = accepted [unfolded b] and pb = pb [unfolded b]
  have ct: "ct \<noteq> []" using accepted(4) by auto
  have d: "d = manifest_digest hsum body" using accepted(1) by simp
  have 1: "ReadManifest s1 name d = Ok \<lparr>mr_Body = body, mr_ContentType = trim_space ct, mr_Digest = d\<rparr>"
    using accepted(2,6) ct d by (simp add: WriteManifest_def ReadManifest_def)
  have "changes_only (\<lambda>q. \<exists>n t. q = tagPath s1 n t) s1 s2"
    using accepted(7) by (auto simp: SetTag_def intro!: changes_put_drop(1))
  then have 2: "ReadManifest s2 name d = ReadManifest s1 name d" by (rule changes_manifest) auto
  have "ReadManifest s' name d = ReadManifest s2 name d"
    unfolding accepted(8) by (rule changes_manifest [OF index_subject_changes [OF pb]]) simp_all
  then show ?thesis using 1 2 accepted(4) by simp
qed auto

text \<open>
  C28: push then pull.  After an accepted push under a tag of a body whose subject, if it has one, is a plain name without
  a slash, to a repository whose upload limit is below the largest integer, reading the tag serves the pushed bytes with the
  pushed content type under the SHA-256 digest of the bytes, and so does reading that digest; every other tag of the
  registry resolves as before.
\<close>

theorem push_then_pull:
  assumes "putManifest hsum c l s name ref body ctype now = (s', Ok d)" "sum_length hsum" "tag_ref ref"
    and "plain_subject (subject_of c body)" "body_limit l < 2 ^ 63 - 1"
  shows "d = manifest_digest hsum body \<and>
    (\<forall>e. IsZero e \<or> e = d \<longrightarrow> readManifest s' name ref e = Ok \<lparr>mr_Body = body, mr_ContentType = trim_space
       (if ctype = [] then ''application/vnd.docker.distribution.manifest.v2+json'' else ctype), mr_Digest = d\<rparr>) \<and>
    (\<forall>n t. (n, t) \<noteq> (name, ref) \<longrightarrow> ReadTag s' n t = ReadTag s n t)"
proof -
  have "d = manifest_digest hsum body"
    using assms(1) by (cases rule: putManifest_cases) (auto dest: read_limited_whole [OF assms(5)])
  moreover have "plain_push c l body"
    using assms(4) by (auto simp: plain_push_def dest: read_limited_whole [OF assms(5)] split: option.split)
  ultimately show ?thesis
    using putManifest_tags [OF assms(1,2)] putManifest_manifests [OF assms(1,2) _ assms(5)] assms(3)
    by (auto simp: readManifest_def)
qed

definition plain_config :: "string list \<Rightarrow> local_config" where
  "plain_config imm = \<lparr>lc_allowPush = True, lc_maxUpload = 0, lc_immutableTags = imm, lc_cascadeMinAge = 0\<rparr>"

definition no_codec :: codec where
  "no_codec = \<lparr>j_any = (\<lambda>_. None), j_inspect = (\<lambda>_. None), j_index = (\<lambda>_. None), j_index_out = (\<lambda>_. [])\<rparr>"

definition empty_registry :: docker_store where
  "empty_registry = \<lparr>st_fs = [], st_writable = True, st_base = []\<rparr>"

definition demo_push :: "string \<Rightarrow> docker_store \<Rightarrow> docker_store \<times> (docker_error + digest)" where
  "demo_push body s = putManifest sample_sum no_codec (plain_config [''v*'']) s ''app'' ''v1'' body [] 7"

definition demo_manifest :: digest where
  "demo_manifest = \<lparr>Algorithm = ''sha256'', Hex = concat (replicate 32 ''f8'')\<rparr>"

definition demo_pushed :: docker_store where
  "demo_pushed = empty_registry\<lparr>st_fs :=
     [([''repositories'', ''app'', ''tags'', ''v1''], \<lparr>rf_data = digest_string demo_manifest, rf_mtime = 7\<rparr>),
      ([''repositories'', ''app'', ''manifests'', digest_string demo_manifest @ ''.json.media''],
        \<lparr>rf_data = ''application/vnd.docker.distribution.manifest.v2+json'', rf_mtime = 7\<rparr>),
      ([''repositories'', ''app'', ''manifests'', digest_string demo_manifest @ ''.json''],
        \<lparr>rf_data = ''{}'', rf_mtime = 7\<rparr>)]\<rparr>"

lemma demo_push_run: "demo_push ''{}'' empty_registry = (demo_pushed, Ok demo_manifest)"
proof -
  have d: "manifest_digest sample_sum ''{}'' = demo_manifest" by code_simp
  have lim: "read_limited ''{}'' 4194304 = Some ''{}''" by (simp add: read_limited_exact)
  have t: "tag_ref ''v1''" "repoDir empty_registry ''app'' = [''repositories'', ''app'']" by code_simp+
  show ?thesis using t
    by (simp add: demo_push_def putManifest_def d lim plain_config_def body_limit_def push_conflict_def isImmutableTag_def
        WriteManifest_def SetTag_def ReadTag_def empty_registry_def fs_read_def fs_write_def put_file_def Let_def
        index_subject_def no_codec_def demo_pushed_def tagPath_def manifestPath_def mediaPath_def two_snoc
        repoDir_def store_join_def)
qed

lemma demo_pushed_facts:
  "isImmutableTag (plain_config [''v*'']) ''v1''" "ReadTag demo_pushed ''app'' ''v1'' = Ok demo_manifest"
  "''v1'' \<in> set (ListTags demo_pushed ''app'')" "valid_digest demo_manifest"
  by code_simp+

theorem push_then_pull_witness:
  "map_sum id mr_Body (readManifest (fst (demo_push ''{}'' empty_registry)) ''app'' ''v1'' \<lparr>Algorithm = [], Hex = []\<rparr>) = Ok ''{}''"
proof -
  note run = demo_push_run
  have "tag_ref ''v1''" by code_simp
  then show ?thesis
    using push_then_pull [OF run [unfolded demo_push_def] sample_sum_length] run
    by (simp add: IsZero_def plain_config_def body_limit_def subject_of_def no_codec_def plain_subject_def)
qed

text \<open>
  C10: an immutable tag never moves.  Once a tag that matches the policy resolves, no push changes what it resolves to,
  whatever reference and body the push carries, as long as the subject the body names is a plain name without a slash, as
  a digest is.  The code does not check the subject: \<open>subject_overwrites\<close> below is what it allows.
\<close>

theorem immutable_tag_survives_push:
  assumes "putManifest hsum c l s name ref body ctype now = (s', r)" "sum_length hsum"
    and "isImmutableTag l t" "ReadTag s n t = Ok d" "plain_push c l body"
  shows "ReadTag s' n t = Ok d"
proof (cases r)
  case (Inr e)
  have put: "putManifest hsum c l s name ref body ctype now = (s', Ok e)" using assms(1) Inr by simp
  obtain b where e: "e = manifest_digest hsum b" and pc: "push_conflict l s name ref e = None"
    using put by (cases rule: putManifest_cases) auto
  have v: "valid_digest e" using valid_digest_of [OF assms(2)] e by (simp add: manifest_digest_def supported_def)
  have "d = e" if "n = name" "t = ref" "tag_ref ref"
    using pc that assms(3,4) digest_string_inj [OF ReadTag_valid [OF assms(4)] v]
    by (auto simp: push_conflict_def split: if_splits)
  then show ?thesis using putManifest_tags [OF put assms(2,5)] assms(4) by auto
next
  case (Inl e)
  have "changes_only (\<lambda>q. \<exists>d. manifest_files s name d q) s s'"
    using assms(1) Inl
    by (cases rule: putManifest_cases) auto
  then show ?thesis using changes_tag assms(4) by fastforce
qed

theorem immutable_tag_survives_push_witness:
  "let s1 = fst (demo_push ''{}'' empty_registry); s2 = fst (demo_push ''other'' s1)
   in ReadTag s2 ''app'' ''v1'' = Ok demo_manifest"
proof -
  obtain s2 r where "demo_push ''other'' demo_pushed = (s2, r)" by fastforce
  then show ?thesis
    using immutable_tag_survives_push [OF _ sample_sum_length demo_pushed_facts(1,2), of no_codec "''app''" "''v1''" "''other''" "[]" 7 s2 r]
    by (simp add: demo_push_run)
      (simp add: demo_push_def plain_push_def subject_of_def no_codec_def plain_subject_def split: option.split)
qed

text \<open>
  C39: a push overwrites any manifest of its repository.  The subject a pushed manifest names is joined to the path of its
  referrers index without a check, so a push whose subject is \<open>../manifests/sha256:...\<close> writes the index over the
  manifest of that digest, also when an immutable tag points at it: pulling the digest then serves other bytes.
\<close>

theorem subject_overwrites:
  assumes "putManifest hsum c l s name ref body ctype now = (s', Ok d)" "body_limit l < 2 ^ 63 - 1"
    and "subject_of c body = ''../manifests/'' @ digest_string e" "valid_digest e"
  shows "\<exists>idx. map_sum id mr_Body (ReadManifest s' name e) = Ok (j_index_out c idx) \<and>
     digest_string d \<in> md_Digest ` set (oi_Manifests idx)"
  using assms(1)
proof (cases rule: putManifest_cases)
  case (accepted b ct s1 s2)
  let ?x = "''../manifests/'' @ digest_string e"
  have b: "b = body" using read_limited_whole [OF assms(2) accepted(9)] .
  obtain insp where i: "j_inspect c body = Some insp" "im_Subject insp = Some ?x"
    using assms(3) by (auto simp: subject_of_def split: option.splits)
  have k: "st_base s2 = st_base s" "st_writable s2"
    using accepted(2,6,7) by (auto simp: WriteManifest_def SetTag_def)
  define desc where "desc = \<lparr>md_MediaType = ct, md_ArtifactType = effectiveArtifactType insp, md_Digest = digest_string d, md_Size = length body\<rparr>"
  define idx where "idx = (let i = ReadReferrers c s2 name ?x in i\<lparr>oi_Manifests := upsert_referrer desc (oi_Manifests i)\<rparr>)"
  have s': "s' = put_file s2 (referrersIndexPath s2 name ?x) (j_index_out c idx) now"
    using accepted(1,8) k(2) i by (simp add: b index_subject_def AddReferrer_def writeReferrers_def Let_def idx_def desc_def)
  have p: "referrersIndexPath s2 name ?x = manifestPath s2 name e"
  proof -
    have "plain_subject (digest_string e)" by (rule digest_plain [OF assms(4)])
    then have seg: "CHR ''/'' \<notin> set (digest_string e @ ''.json'')" by (simp add: plain_subject_def)
    have "split_on CHR ''/'' (''manifests'' @ CHR ''/'' # (digest_string e @ ''.json'')) = [''manifests'', digest_string e @ ''.json'']"
      using split_on_append [of "CHR ''/''" "''manifests''" "digest_string e @ ''.json''"] seg by (simp add: split_on_single)
    moreover have "list_all segment_ok [''manifests'', digest_string e @ ''.json'']"
      using seg by (cases "digest_string e") (auto simp: segment_ok_def)
    ultimately show ?thesis
      using climbing_index [of "''manifests/'' @ digest_string e" s2 name] by (simp add: manifestPath_def)
  qed
  have "map_sum id mr_Body (ReadManifest s' name e) = Ok (j_index_out c idx)"
    unfolding s' p by (simp add: ReadManifest_def Let_def)
  moreover have "digest_string d \<in> md_Digest ` set (oi_Manifests idx)"
  proof -
    have "digest_string d \<in> md_Digest ` set (upsert_referrer desc ms)" for ms
      by (induction ms) (auto simp: desc_def)
    then show ?thesis by (simp add: idx_def Let_def)
  qed
  ultimately show ?thesis by blast
qed auto

definition climbing_codec :: codec where
  "climbing_codec = no_codec\<lparr>j_inspect := (\<lambda>b. if b = ''evil'' then Some \<lparr>im_ArtifactType = [], im_Config = None,
     im_Subject = Some (''../manifests/'' @ digest_string demo_manifest)\<rparr> else None), j_index_out := (\<lambda>_. ''index'')\<rparr>"

theorem subject_overwrites_witness:
  "let r = putManifest sample_sum climbing_codec (plain_config [''v*'']) demo_pushed ''app'' ''other'' ''evil'' [] 9
   in ReadTag (fst r) ''app'' ''v1'' = Ok demo_manifest \<and> map_sum id mr_Body (ReadManifest (fst r) ''app'' demo_manifest) = Ok ''index''"
proof -
  let ?r = "putManifest sample_sum climbing_codec (plain_config [''v*'']) demo_pushed ''app'' ''other'' ''evil'' [] 9"
  let ?d = "manifest_digest sample_sum ''evil''"
  have ok: "snd ?r = Ok ?d" "ReadTag (fst ?r) ''app'' ''v1'' = Ok demo_manifest" by code_simp+
  then have run: "?r = (fst ?r, Ok ?d)" by (metis prod.collapse)
  have side: "body_limit (plain_config [''v*'']) < 2 ^ 63 - 1" by (simp add: body_limit_def plain_config_def)
  have sub: "subject_of climbing_codec ''evil'' = ''../manifests/'' @ digest_string demo_manifest"
    by (simp add: subject_of_def climbing_codec_def)
  have out: "j_index_out climbing_codec idx = ''index''" for idx by (simp add: climbing_codec_def)
  show ?thesis using subject_overwrites [OF run side sub demo_pushed_facts(4)] ok(2) by (simp add: Let_def out)
qed

text \<open>
  The largest limit stores the empty manifest.  A repository whose limit is \<open>2 ^ 63 - 1\<close> adds one to it, reads nothing, and
  accepts the push of any body as one of the empty manifest.
\<close>

theorem largest_limit_pushes_nothing:
  assumes "putManifest hsum c l s name ref body ctype now = (s', Ok d)" "body_limit l = 2 ^ 63 - 1"
  shows "d = manifest_digest hsum []"
  using assms(1)
proof (cases rule: putManifest_cases)
  case (accepted b ct s1 s2)
  have "read_limited body (body_limit l) = Some []" using assms(2) read_limited_overflow by simp
  then show ?thesis using accepted(1,9) by simp
qed auto

section \<open>Properties of deletes\<close>

text \<open>The three steps of a delete by digest before the cascade.\<close>

lemma deleteManifestDigest_cases:
  assumes "deleteManifestDigest c l s name dgst now = (s', r)" "valid_digest dgst" "plain_subject (stored_subject c s name dgst)"
  obtains (refused) "immutableTagsPointingAt l s name (digest_string dgst) \<noteq> []" "s' = s" "r = Some ErrTagImmutable"
  | (failed) "changes_only (index_files s) s s'" "r \<noteq> None" "immutableTagsPointingAt l s name (digest_string dgst) = []"
  | (deleted) s3 where "r = None" "immutableTagsPointingAt l s name (digest_string dgst) = []"
    "changes_only (\<lambda>q. index_files s q \<or> manifest_files s name dgst q) s s3"
    "fs_read (st_fs s3) (manifestPath s name dgst) = None"
    "s' = s3 \<or> s' = cascade l (markRepoScoped c s3 name (digest_string dgst)) name now (sub_manifests c s name dgst) s3"
proof (cases "immutableTagsPointingAt l s name (digest_string dgst) = []")
  case True
  let ?s1 = "forget_referrer c s name dgst now"
  have 1: "changes_only (index_files s) s ?s1" by (rule forget_changes [OF assms(3)])
  obtain s2 r2 where d: "DeleteManifest ?s1 name dgst = (s2, r2)" by fastforce
  show thesis
  proof (cases r2)
    case (Some e)
    then have "s2 = ?s1" using d by (auto simp: DeleteManifest_def split: if_splits option.splits)
    then show thesis using failed [OF _ _ True] 1 assms True d Some by (auto simp: deleteManifestDigest_def)
  next
    case None
    let ?s3 = "fst (DeleteReferrersIndex s2 name (digest_string dgst))"
    have 2: "changes_only (manifest_files ?s1 name dgst) ?s1 s2" using DeleteManifest_changes [of ?s1 name dgst] d by simp
    have 3: "changes_only (index_files s2) s2 ?s3" by (rule referrer_changes(3) [OF digest_plain [OF assms(2)]])
    have mf: "manifest_files ?s1 = manifest_files s" "index_files s2 = index_files s"
      by (simp_all add: fun_eq_iff manifest_files_def changes_paths(1,2) [OF 1]
          index_files_cong [OF 2] index_files_cong [OF 1])
    have "fs_read (st_fs s2) (manifestPath s name dgst) = None"
      using d None changes_paths(1) [OF 1] by (auto simp: DeleteManifest_def split: if_splits option.splits)
    then have gone: "fs_read (st_fs ?s3) (manifestPath s name dgst) = None"
      using 3 mf(2) manifest_files_simps(3) unfolding changes_only_def by metis
    have "changes_only (\<lambda>q. index_files s q \<or> manifest_files s name dgst q) s ?s3"
      by (rule changes_trans [OF changes_trans [OF changes_weaken [OF 1] changes_weaken [OF 2]] changes_weaken [OF 3]])
        (auto simp: mf)
    then show thesis
      using deleted [of ?s3] gone assms True d None by (auto simp: deleteManifestDigest_def Let_def split: if_splits)
  qed
qed (use refused assms in \<open>auto simp: deleteManifestDigest_def\<close>)

lemma delete_keeps_tags:
  assumes "deleteManifestDigest c l s name dgst now = (s', r)" "valid_digest dgst" "plain_subject (stored_subject c s name dgst)"
  shows "ReadTag s' n t = ReadTag s n t"
  using assms
proof (cases rule: deleteManifestDigest_cases)
  case (deleted s3)
  have 3: "ReadTag s3 n t = ReadTag s n t" by (rule changes_tag [OF deleted(3)]) simp
  moreover have "ReadTag (cascade l live name now subs s3) n t = ReadTag s3 n t" for live subs
    by (rule changes_tag [OF cascade_changes]) (simp add: cascade_files_def)
  ultimately show ?thesis using deleted(5) by auto
qed (auto intro: changes_tag)

lemma delete_other_repository:
  assumes "deleteManifestDigest c l s name dgst now = (s', r)" "n \<noteq> name"
    and "valid_digest dgst" "plain_subject (stored_subject c s name dgst)"
  shows "ReadManifest s' n d = ReadManifest s n d"
  using assms(1,3,4)
proof (cases rule: deleteManifestDigest_cases)
  case (deleted s3)
  have "ReadManifest s3 n d = ReadManifest s n d"
    by (rule changes_manifest [OF deleted(3)]) (use assms(2) in auto)
  moreover have "ReadManifest (cascade l live name now subs s3) n d = ReadManifest s3 n d" for live subs
    by (rule changes_manifest [OF cascade_changes]) (use assms(2) in \<open>auto simp: cascade_files_def\<close>)
  ultimately show ?thesis using deleted(5) by auto
qed (auto intro: changes_manifest)

definition canonical_subs :: "codec \<Rightarrow> docker_store \<Rightarrow> string \<Rightarrow> digest \<Rightarrow> bool" where
  "canonical_subs c s name dgst \<longleftrightarrow>
     (\<forall>x\<in>set (sub_manifests c s name dgst). \<forall>e. ParseDigest x = Ok e \<longrightarrow> digest_string e = x)"

lemma delete_keeps_reachable_manifests:
  assumes del: "deleteManifestDigest c l s name dgst now = (s', r)" and v: "valid_digest dgst" "valid_digest e"
    and can: "canonical_subs c s name dgst" and r: "reach_but c s name dgst (digest_string e)" and ne: "e \<noteq> dgst"
    and plain: "plain_subject (stored_subject c s name dgst)"
  shows "ReadManifest s' name e = ReadManifest s name e"
  using del v(1) plain
proof (cases rule: deleteManifestDigest_cases)
  case (deleted s3)
  have man: "ReadManifest s3 name d = ReadManifest s name d" if "valid_digest d" "d \<noteq> dgst" for d
    by (rule changes_manifest [OF deleted(3)]) (use that digest_string_inj [OF v(1)] in auto)
  have tags: "t \<in> set (ListTags s3 name) \<and> ReadTag s3 name t = ReadTag s name t" if "t \<in> set (ListTags s name)" for t
  proof
    show "ReadTag s3 name t = ReadTag s name t" by (rule changes_tag [OF deleted(3)]) simp
    have "fs_read (st_fs s3) (tagPath s3 name t) = fs_read (st_fs s) (tagPath s name t)"
      using deleted(3) by (simp add: changes_paths(3) [OF deleted(3)]) (simp add: changes_only_def)
    then show "t \<in> set (ListTags s3 name)" using that by (simp add: ListTags_iff)
  qed
  let ?live = "markRepoScoped c s3 name (digest_string dgst)"
  have live: "hasManifest ?live name (digest_string e)" by (rule scoped_marks [OF tags man v(1) r])
  have "\<not> cascade_files s3 ?live name (sub_manifests c s name dgst) (manifestPath s3 name e)"
    "\<not> cascade_files s3 ?live name (sub_manifests c s name dgst) (mediaPath s3 name e)"
    using live can by (auto simp: cascade_files_def canonical_subs_def)
  then have "ReadManifest (cascade l ?live name now (sub_manifests c s name dgst) s3) name e = ReadManifest s3 name e"
    by (rule changes_manifest [OF cascade_changes])
  then show ?thesis using deleted(5) man [OF v(2) ne] by auto
qed (auto intro: changes_manifest)

text \<open>
  A delete spares what others use.  Deleting a manifest by digest removes no manifest that some
  tag of the repository still reaches without passing through the deleted one, as long as the
  deleted index names its sub-manifests in canonical form and the subject of the deleted manifest, if any, is a plain name.
\<close>

theorem delete_keeps_reachable:
  assumes "deleteManifestDigest c l s name dgst now = (s', r)" "valid_digest dgst" "valid_digest e"
    and "canonical_subs c s name dgst" "reach_but c s name dgst (digest_string e)" "e \<noteq> dgst"
    and "plain_subject (stored_subject c s name dgst)"
  shows "ReadManifest s' name e = ReadManifest s name e"
  using assms by (rule delete_keeps_reachable_manifests)

text \<open>
  C15: an immutable tag keeps its image.  No delete request, by tag or by digest, by the admin surface or
  by a client, changes what an immutable tag resolves to or removes the manifest it resolves to,
  as long as the manifests of the repository name their sub-manifests in canonical form and their subjects by plain names
  without a slash.  A push can store a manifest that breaks either condition.
\<close>

theorem immutable_tag_survives_delete:
  assumes del: "DeleteReference c l s name ref now = (s', r) \<or> deleteManifest c l s name ref dgst now = (s', r)"
    and im: "isImmutableTag l t" "t \<noteq> []" "ReadTag s n t = Ok d" and dv: "IsZero dgst \<or> valid_digest dgst"
    and can: "\<forall>e. canonical_subs c s name e" and plain: "\<forall>e. plain_subject (stored_subject c s name e)"
  shows "ReadTag s' n t = Ok d \<and> ReadManifest s' n d = ReadManifest s n d"
proof -
  consider "s' = s" | "deleteTagReference l s name ref = (s', r)"
    | e where "valid_digest e" "deleteManifestDigest c l s name e now = (s', r)"
    using del dv by (auto simp: DeleteReference_def deleteManifest_def intro: ParseDigest_valid
        split: option.splits if_splits sum.splits)
  then show ?thesis
  proof cases
    case 1
    with im show ?thesis by simp
  next
    case 2
    have other: "t \<noteq> ref \<or> s' = s" using 2 im(1) by (auto simp: deleteTagReference_def)
    have "changes_only (\<lambda>q. q = tagPath s name ref) s s'"
      using 2 by (auto simp: deleteTagReference_def DeleteTag_def changes_only_def split: if_splits option.splits)
    then have "ReadTag s' n t = ReadTag s n t \<or> s' = s" "ReadManifest s' n d = ReadManifest s n d"
      using other by (auto intro: changes_tag changes_manifest)
    then show ?thesis using im(3) by auto
  next
    case (3 e)
    note pl = plain [rule_format, of e]
    note tag = delete_keeps_tags [OF 3(2,1) pl, of n t]
    have "ReadManifest s' n d = ReadManifest s n d"
    proof (cases "n = name \<and> d \<noteq> e")
      case True
      have "t \<in> set (ListTags s name)"
        using im(2,3) True by (auto simp: ListTags_iff ReadTag_def split: option.splits)
      then have "reach_but c s name e (digest_string d)" using im(3) True by (auto intro: rb_tag)
      then show ?thesis
        using True delete_keeps_reachable_manifests [OF 3(2,1) ReadTag_valid [OF im(3)] can [rule_format] _ _ pl] by blast
    next
      case False
      show ?thesis
      proof (cases "n = name")
        case True
        then have "t \<in> set (immutableTagsPointingAt l s name (digest_string e))"
          using False im by (auto simp: immutableTagsPointingAt_def ListTags_iff ReadTag_def split: option.splits)
        then have "s' = s" using 3(2) by (auto simp: deleteManifestDigest_def split: if_splits)
        then show ?thesis by simp
      qed (rule delete_other_repository [OF 3(2) _ 3(1) pl])
    qed
    then show ?thesis using tag im(3) by simp
  qed
qed

lemma no_codec_plain: "plain_subject (stored_subject no_codec s name d)"
  by (simp add: stored_subject_def subject_of_def no_codec_def plain_subject_def split: sum.split)

theorem delete_keeps_reachable_witness:
  "ReadManifest (fst (deleteManifestDigest no_codec (plain_config []) demo_pushed ''app''
     \<lparr>Algorithm = ''sha256'', Hex = replicate 64 CHR ''0''\<rparr> 9)) ''app'' demo_manifest = ReadManifest demo_pushed ''app'' demo_manifest"
proof -
  let ?z = "\<lparr>Algorithm = ''sha256'', Hex = replicate 64 CHR ''0''\<rparr>"
  have e: "valid_digest ?z" "demo_manifest \<noteq> ?z" by code_simp+
  have c: "canonical_subs no_codec demo_pushed ''app'' ?z"
    by (auto simp: canonical_subs_def sub_manifests_def no_codec_def split: sum.splits)
  obtain s' r where "deleteManifestDigest no_codec (plain_config []) demo_pushed ''app'' ?z 9 = (s', r)" by fastforce
  then show ?thesis
    using delete_keeps_reachable [OF _ e(1) demo_pushed_facts(4) c rb_tag [OF demo_pushed_facts(3,2) e(2)] e(2) no_codec_plain] by simp
qed

theorem immutable_tag_survives_delete_witness:
  "ReadTag (fst (DeleteReference no_codec (plain_config [''v*'']) demo_pushed ''app'' ''v1'' 9)) ''app'' ''v1'' = Ok demo_manifest"
proof -
  have c: "\<forall>e. canonical_subs no_codec demo_pushed ''app'' e"
    by (auto simp: canonical_subs_def sub_manifests_def no_codec_def split: sum.splits)
  have ne: "''v1'' \<noteq> []" by simp
  obtain s' r where "DeleteReference no_codec (plain_config [''v*'']) demo_pushed ''app'' ''v1'' 9 = (s', r)" by fastforce
  then show ?thesis
    using immutable_tag_survives_delete [OF disjI1 demo_pushed_facts(1) ne demo_pushed_facts(2) _ c allI [OF no_codec_plain], of "''v1''" 9 s' r
        "\<lparr>Algorithm = [], Hex = []\<rparr>"]
    by (simp add: IsZero_def)
qed

text \<open>
  The cascade compares digests as written.  An image index that names a sub-manifest with
  upper-case digits passes the immutable-tag check, the live set holds the sub-manifest under its
  lower-case digest, and the cascade deletes the manifest an immutable tag resolves to.
\<close>

theorem cascade_uppercase_deletes_immutable:
  "let d = \<lparr>Algorithm = ''sha256'', Hex = replicate 64 CHR ''a''\<rparr>; i = \<lparr>Algorithm = ''sha256'', Hex = replicate 64 CHR ''b''\<rparr>;
       files = [([''repositories'', ''app'', ''tags'', ''v1''], digest_string d),
         ([''repositories'', ''app'', ''manifests'', digest_string d @ ''.json''], ''img''),
         ([''repositories'', ''app'', ''manifests'', digest_string i @ ''.json''], ''idx'')];
       s = \<lparr>st_fs = map (\<lambda>(p, b). (p, \<lparr>rf_data = b, rf_mtime = 0\<rparr>)) files, st_writable = True, st_base = []\<rparr>;
       doc = JObj [(''manifests'', JArr [JObj [(''digest'', JStr (''sha256:'' @ replicate 64 CHR ''A''))]])];
       c = no_codec\<lparr>j_any := [''idx'' \<mapsto> doc]\<rparr>;
       (s', r) = deleteManifestDigest c (plain_config [''v*'']) s ''app'' i 9
   in r = None \<and> isImmutableTag (plain_config [''v*'']) ''v1'' \<and> ReadTag s' ''app'' ''v1'' = Ok d \<and>
      map_sum id mr_Body (ReadManifest s ''app'' d) = Ok ''img'' \<and> ReadManifest s' ''app'' d = Err ErrManifestUnknown"
  by code_simp

lemma cascade_keeps_missing: "fs_read (st_fs s) q = None \<Longrightarrow> fs_read (st_fs (cascade l live name now subs s)) q = None"
proof (induction subs arbitrary: s)
  case (Cons sub subs)
  have "fs_read (st_fs (fst (DeleteManifest s name d))) q = None" for d
    using Cons.prems by (auto simp: DeleteManifest_def split: option.splits)
  moreover from this have "fs_read (st_fs (fst (DeleteReferrersIndex (fst (DeleteManifest s name d)) name sub))) q = None" for d
    by (simp add: DeleteReferrersIndex_def)
  ultimately show ?case
    using Cons by (auto simp: Let_def split: sum.splits option.splits prod.splits)
      (metis fst_conv)+
qed simp

text \<open>
  Deleting a manifest leaves its tags.  After a successful delete by digest the manifest is gone, and
  every tag that pointed at it still resolves to it, so pulling the tag answers that the manifest
  is unknown.
\<close>

theorem delete_by_digest_leaves_tags:
  assumes "deleteManifestDigest c l s name dgst now = (s', None)" "valid_digest dgst"
    and "plain_subject (stored_subject c s name dgst)"
  shows "ReadManifest s' name dgst = Err ErrManifestUnknown \<and> (\<forall>n t. ReadTag s' n t = ReadTag s n t)"
proof -
  have gone: "fs_read (st_fs s') (manifestPath s name dgst) = None \<and> st_base s' = st_base s"
    using assms
  proof (cases rule: deleteManifestDigest_cases)
    case (deleted s3)
    have "st_base (cascade l live name now subs s3) = st_base s3" for live subs
      using cascade_changes by (auto simp: changes_only_def)
    then show ?thesis using deleted(3-5) cascade_keeps_missing by (auto simp: changes_only_def)
  qed auto
  then have "ReadManifest s' name dgst = Err ErrManifestUnknown"
    using paths_cong(2) [of s' s] by (simp add: ReadManifest_def)
  then show ?thesis using delete_keeps_tags [OF assms] by simp
qed

theorem delete_by_digest_leaves_tags_witness:
  "let s' = fst (deleteManifestDigest no_codec (plain_config []) demo_pushed ''app'' demo_manifest 9)
   in ReadTag s' ''app'' ''v1'' = Ok demo_manifest \<and> ReadManifest s' ''app'' demo_manifest = Err ErrManifestUnknown"
proof -
  have "snd (deleteManifestDigest no_codec (plain_config []) demo_pushed ''app'' demo_manifest 9) = None" by code_simp
  then have "deleteManifestDigest no_codec (plain_config []) demo_pushed ''app'' demo_manifest 9 =
      (fst (deleteManifestDigest no_codec (plain_config []) demo_pushed ''app'' demo_manifest 9), None)"
    by (metis prod.collapse)
  from delete_by_digest_leaves_tags [OF this demo_pushed_facts(4) no_codec_plain] show ?thesis using demo_pushed_facts(2) by (simp add: Let_def)
qed

end
