(* ===== verification/Key_Manager.thy ===== *)
theory Key_Manager
  imports Go_Prelude
begin

text \<open>
  The at-rest key: \<open>internal/secret/crypto\<close> (XChaCha20-Poly1305 encryptors), \<open>internal/secret/keymgr\<close>
  (the locked/unlocked key manager), \<open>internal/secret/envelope\<close> (the container of sealed columns) and
  \<open>internal/server/lockgate\<close>.  The AEAD itself is the third-party package \<open>chacha20poly1305\<close>: a record
  of its \<open>Seal\<close>, \<open>Open\<close> and \<open>Overhead\<close>.  Random bytes are arguments, \<open>None\<close> when the source fails.
\<close>

section \<open>Encryptors\<close>

record aead =
  ae_Seal :: "bytes \<Rightarrow> bytes \<Rightarrow> bytes \<Rightarrow> bytes"
  ae_Open :: "bytes \<Rightarrow> bytes \<Rightarrow> bytes \<Rightarrow> bytes option"
  ae_Overhead :: nat

text \<open>What the code relies on: opening inverts sealing under the same key and nonce, and a sealed text is longer by the overhead.\<close>

definition aead_ok :: "aead \<Rightarrow> bool" where
  "aead_ok a \<longleftrightarrow> (\<forall>k n p. ae_Open a k n (ae_Seal a k n p) = Some p) \<and>
     (\<forall>k n p. length (ae_Seal a k n p) = length p + ae_Overhead a)"

text \<open>Authentication between two keys: nothing sealed under \<open>k\<close> opens under \<open>k'\<close>.\<close>

definition rejects :: "aead \<Rightarrow> bytes \<Rightarrow> bytes \<Rightarrow> bool" where
  "rejects a k k' \<longleftrightarrow> (\<forall>n p. ae_Open a k' n (ae_Seal a k n p) = None)"

datatype crypto_error = ErrInvalidCiphertext | ErrDecryptionFailed | ErrInvalidKeySize | ErrNonce

definition KeySize :: nat where "KeySize = 32"
definition NonceSize :: nat where "NonceSize = 24"

text \<open>A \<open>ChaCha20Encryptor\<close> is its key; a \<open>RotatedEncryptor\<close> has a current and an old one.\<close>

datatype encryptor = ChaCha20 bytes | Rotated bytes bytes

definition NewChaCha20 :: "bytes \<Rightarrow> crypto_error + encryptor" where
  "NewChaCha20 key = (if length key \<noteq> KeySize then Err ErrInvalidKeySize else Ok (ChaCha20 key))"

definition chacha_Encrypt :: "aead \<Rightarrow> bytes \<Rightarrow> bytes option \<Rightarrow> bytes \<Rightarrow> crypto_error + bytes" where
  "chacha_Encrypt a key nonce plaintext = (case nonce of None \<Rightarrow> Err ErrNonce
     | Some n \<Rightarrow> Ok (n @ ae_Seal a key n plaintext))"

definition chacha_Decrypt :: "aead \<Rightarrow> bytes \<Rightarrow> bytes \<Rightarrow> crypto_error + bytes" where
  "chacha_Decrypt a key ciphertext =
     (if length ciphertext < NonceSize + ae_Overhead a then Err ErrInvalidCiphertext
      else case ae_Open a key (take NonceSize ciphertext) (drop NonceSize ciphertext) of
        None \<Rightarrow> Err ErrDecryptionFailed | Some p \<Rightarrow> Ok p)"

definition RotateTo :: "bytes \<Rightarrow> bytes \<Rightarrow> crypto_error + encryptor" where
  "RotateTo key newKey = (case NewChaCha20 newKey of Inl e \<Rightarrow> Err e | Inr _ \<Rightarrow> Ok (Rotated newKey key))"

fun Encrypt :: "aead \<Rightarrow> encryptor \<Rightarrow> bytes option \<Rightarrow> bytes \<Rightarrow> crypto_error + bytes" where
  "Encrypt a (ChaCha20 k) nonce p = chacha_Encrypt a k nonce p"
| "Encrypt a (Rotated cur old) nonce p = chacha_Encrypt a cur nonce p"

fun Decrypt :: "aead \<Rightarrow> encryptor \<Rightarrow> bytes \<Rightarrow> crypto_error + bytes" where
  "Decrypt a (ChaCha20 k) c = chacha_Decrypt a k c"
| "Decrypt a (Rotated cur old) c = (case chacha_Decrypt a cur c of Inr p \<Rightarrow> Ok p | Inl _ \<Rightarrow> chacha_Decrypt a old c)"

section \<open>The manager\<close>

record key_manager =
  km_active :: "encryptor option"
  km_initialized :: bool

definition km_New :: key_manager where
  "km_New = \<lparr>km_active = None, km_initialized = False\<rparr>"

definition km_Encryptor :: "key_manager \<Rightarrow> encryptor option" where
  "km_Encryptor m = km_active m"

definition MarkInitialized :: "key_manager \<Rightarrow> key_manager" where
  "MarkInitialized m = m\<lparr>km_initialized := True\<rparr>"

text \<open>\<open>Unlock\<close> refuses a nil encryptor.\<close>

definition km_Unlock :: "encryptor option \<Rightarrow> key_manager \<Rightarrow> key_manager option" where
  "km_Unlock enc m = (case enc of None \<Rightarrow> None | Some e \<Rightarrow> Some (m\<lparr>km_active := Some e\<rparr>))"

definition km_Lock :: "key_manager \<Rightarrow> key_manager" where
  "km_Lock m = (if km_active m = None then m else m\<lparr>km_active := None\<rparr>)"

definition Initialized :: "key_manager \<Rightarrow> bool" where "Initialized m = km_initialized m"

definition IsUnlocked :: "key_manager \<Rightarrow> bool" where "IsUnlocked m \<longleftrightarrow> km_active m \<noteq> None"

section \<open>Envelopes\<close>

datatype envelope_error = EnvNilManager | EnvLocked | EnvUnknownFormat | EnvCrypto crypto_error

definition formatV1 :: "8 word" where "formatV1 = 1"

definition Seal :: "aead \<Rightarrow> key_manager option \<Rightarrow> bytes option \<Rightarrow> bytes \<Rightarrow> envelope_error + bytes" where
  "Seal a mgr nonce plaintext = (case mgr of None \<Rightarrow> Err EnvNilManager
     | Some m \<Rightarrow> (case km_Encryptor m of None \<Rightarrow> Err EnvLocked
         | Some enc \<Rightarrow> (case Encrypt a enc nonce plaintext of Inl e \<Rightarrow> Err (EnvCrypto e)
             | Inr ct \<Rightarrow> Ok (formatV1 # ct))))"

definition Open :: "aead \<Rightarrow> key_manager option \<Rightarrow> bytes \<Rightarrow> envelope_error + bytes" where
  "Open a mgr ciphertext = (case mgr of None \<Rightarrow> Err EnvNilManager
     | Some m \<Rightarrow> (case ciphertext of [] \<Rightarrow> Err EnvUnknownFormat
         | b # ct \<Rightarrow> if b = formatV1 then
               (case km_Encryptor m of None \<Rightarrow> Err EnvLocked
                | Some enc \<Rightarrow> (case Decrypt a enc ct of Inl e \<Rightarrow> Err (EnvCrypto e) | Inr p \<Rightarrow> Ok p))
             else Err EnvUnknownFormat))"

definition IsSealed :: "bytes \<Rightarrow> bool" where
  "IsSealed blob \<longleftrightarrow> (case blob of [] \<Rightarrow> False | b # _ \<Rightarrow> b = formatV1)"

section \<open>The lock gate\<close>

datatype gate_result = Pass | Locked503

definition allowExact :: "string list" where
  "allowExact = [''/api/v1/info'', ''/api/v1/key/status'', ''/api/v1/key/unlock'']"

definition lock_gate :: "key_manager option \<Rightarrow> string \<Rightarrow> gate_result" where
  "lock_gate mgr path = (case mgr of None \<Rightarrow> Pass
     | Some m \<Rightarrow>
         if \<not> Initialized m \<or> IsUnlocked m then Pass
         else if \<not> has_prefix path ''/api/v1/'' then Pass
         else if path \<in> set allowExact \<or> has_prefix path ''/api/v1/me/'' then Pass
         else Locked503)"

section \<open>Facts\<close>

text \<open>The encryptors that decrypt what a key sealed.\<close>

definition opens :: "encryptor \<Rightarrow> bytes \<Rightarrow> bool" where
  "opens enc k \<longleftrightarrow> (case enc of ChaCha20 k' \<Rightarrow> k' = k | Rotated cur old \<Rightarrow> cur = k \<or> old = k)"

definition writes_under :: "encryptor \<Rightarrow> bytes" where
  "writes_under enc = (case enc of ChaCha20 k \<Rightarrow> k | Rotated cur old \<Rightarrow> cur)"

lemma chacha_roundtrip:
  assumes "aead_ok a" "length n = NonceSize"
  shows "chacha_Decrypt a k (n @ ae_Seal a k n p) = Ok p"
  using assms by (simp add: chacha_Decrypt_def aead_ok_def)

lemma chacha_rejects:
  assumes "rejects a k k'" "length n = NonceSize"
  shows "chacha_Decrypt a k' (n @ ae_Seal a k n p) = Err ErrInvalidCiphertext \<or>
    chacha_Decrypt a k' (n @ ae_Seal a k n p) = Err ErrDecryptionFailed"
  using assms by (simp add: chacha_Decrypt_def rejects_def)

lemma Encrypt_eq: "Encrypt a enc nonce p = chacha_Encrypt a (writes_under enc) nonce p"
  by (cases enc) (simp_all add: writes_under_def)

lemma Seal_eq: "Seal a mgr nonce p = (case mgr of None \<Rightarrow> Err EnvNilManager
   | Some m \<Rightarrow> (case km_active m of None \<Rightarrow> Err EnvLocked
       | Some enc \<Rightarrow> (case nonce of None \<Rightarrow> Err (EnvCrypto ErrNonce)
           | Some n \<Rightarrow> Ok (formatV1 # n @ ae_Seal a (writes_under enc) n p))))"
  by (simp add: Seal_def km_Encryptor_def Encrypt_eq chacha_Encrypt_def split: option.split)

text \<open>
  Sealed data survives a key rotation that keeps the old key.  What the current key sealed opens
  again, under the same manager and, as long as the two keys do not open each other's text by accident,
  after the manager moved on to an encryptor that keeps that key as its old one; a locked manager opens
  nothing.
\<close>

theorem envelope_roundtrip:
  assumes a: "aead_ok a" and n: "length n = NonceSize"
    and s: "Seal a (Some m) (Some n) p = Ok c" "km_active m = Some (ChaCha20 k)"
    and r: "RotateTo k k' = Ok enc" "rejects a k k' \<or> k' = k"
  shows "Open a (Some m) c = Ok p" and "IsSealed c"
    and "Open a (Some (m\<lparr>km_active := Some enc\<rparr>)) c = Ok p"
    and "Open a (Some (km_Lock m)) c = Err EnvLocked"
proof -
  have c: "c = formatV1 # n @ ae_Seal a k n p" using s by (simp add: Seal_eq writes_under_def)
  have enc: "enc = Rotated k' k" using r by (auto simp: RotateTo_def split: sum.splits)
  note rt = chacha_roundtrip [OF a n, of k p]
  show "Open a (Some m) c = Ok p" "IsSealed c" "Open a (Some (km_Lock m)) c = Err EnvLocked"
    using rt s by (simp_all add: Open_def c km_Encryptor_def km_Lock_def IsSealed_def)
  show "Open a (Some (m\<lparr>km_active := Some enc\<rparr>)) c = Ok p"
    using rt r(2) chacha_rejects [of a k k' n p] n
    by (auto simp: Open_def c km_Encryptor_def enc)
qed

text \<open>An AEAD that appends the first bytes of the key as its tag.\<close>

definition demo_aead :: aead where
  "demo_aead = \<lparr>ae_Seal = (\<lambda>k n p. take 16 (k @ replicate 16 0) @ p),
     ae_Open = (\<lambda>k n c. if take 16 c = take 16 (k @ replicate 16 0) then Some (drop 16 c) else None), ae_Overhead = 16\<rparr>"

lemma demo_aead_ok: "aead_ok demo_aead"
  by (auto simp: aead_ok_def demo_aead_def min_def)

definition demo_key :: "8 word \<Rightarrow> bytes" where "demo_key b = replicate 32 b"
definition demo_nonce :: bytes where "demo_nonce = replicate 24 7"

lemma demo_rejects: "b \<noteq> b' \<Longrightarrow> rejects demo_aead (demo_key b) (demo_key b')"
  by (simp add: rejects_def demo_aead_def demo_key_def take_replicate min_def numeral_eq_Suc)

theorem envelope_roundtrip_witness:
  "\<exists>c. Seal demo_aead (Some \<lparr>km_active = Some (ChaCha20 (demo_key 1)), km_initialized = True\<rparr>) (Some demo_nonce) [5] = Ok c \<and>
     Open demo_aead (Some \<lparr>km_active = Some (Rotated (demo_key 2) (demo_key 1)), km_initialized = True\<rparr>) c = Ok [5]"
proof -
  let ?m = "\<lparr>km_active = Some (ChaCha20 (demo_key 1)), km_initialized = True\<rparr>"
  have n: "length demo_nonce = NonceSize" by (simp add: demo_nonce_def NonceSize_def)
  obtain c where c: "Seal demo_aead (Some ?m) (Some demo_nonce) [5] = Ok c" by (simp add: Seal_eq)
  have k: "km_active ?m = Some (ChaCha20 (demo_key 1))" by simp
  have r: "RotateTo (demo_key 1) (demo_key 2) = Ok (Rotated (demo_key 2) (demo_key 1))"
    by (simp add: RotateTo_def NewChaCha20_def demo_key_def KeySize_def)
  have j: "rejects demo_aead (demo_key 1) (demo_key 2) \<or> demo_key 2 = demo_key 1" using demo_rejects by simp
  show ?thesis using c envelope_roundtrip(3) [OF demo_aead_ok n c k r j] by auto
qed

lemma lock_gate_iff:
  "lock_gate (Some m) path = Locked503 \<longleftrightarrow> km_initialized m \<and> km_active m = None \<and> has_prefix path ''/api/v1/'' \<and>
     path \<notin> {''/api/v1/info'', ''/api/v1/key/status'', ''/api/v1/key/unlock''} \<and> \<not> has_prefix path ''/api/v1/me/''"
  by (auto simp: lock_gate_def Initialized_def IsUnlocked_def allowExact_def)

end
