(* ===== verification/Secret_Rows.thy ===== *)
theory Secret_Rows
  imports Key_Manager
begin

text \<open>
  Sealed registry credentials: the repository rows of \<open>internal/storage/registry_store.go\<close> and the server
  key operations of \<open>internal/service/keyops.go\<close>.  Encoding the secrets as JSON is the pair \<open>mar\<close>,
  \<open>unm\<close>; the key derivation (SHA-256 of the passphrase) is \<open>kdf\<close>.  JSONB columns hold the value that
  was encoded.  A failing database call and the random bytes of an operation are its \<open>faults\<close>.
\<close>

section \<open>Repositories and their secrets\<close>

record upstream_auth =
  ua_Type :: string
  ua_Username :: string
  ua_Password :: string
  ua_Token :: string
  ua_Header :: string
  ua_Value :: string

record registry_upstream =
  ru_Prefix :: string
  ru_URL :: string
  ru_Auth :: "upstream_auth option"
  ru_SSHKey :: string

record replication =
  rp_SourceURL :: string
  rp_Token :: string
  rp_Interval :: string
  rp_Disabled :: bool

text \<open>The fields of a repository that sealing does not look at are \<open>rr_Rest\<close>.\<close>

record repository =
  rr_Name :: string
  rr_Type :: string
  rr_Kind :: string
  rr_Auth :: "upstream_auth option"
  rr_SigningKey :: string
  rr_Replication :: "replication option"
  rr_Upstreams :: "registry_upstream list"
  rr_Rest :: string

record auth_meta =
  am_Type :: string
  am_Username :: string
  am_Header :: string

record upstream_secret =
  us_Password :: string
  us_Token :: string
  us_Value :: string
  us_SSHKey :: string

record sealed_secrets =
  ss_SigningKey :: string
  ss_ReplicationToken :: string
  ss_Password :: string
  ss_Token :: string
  ss_Value :: string
  ss_Upstreams :: "upstream_secret list"

record repo_row =
  rw_Namespace :: string
  rw_Name :: string
  rw_Auth :: "auth_meta option"
  rw_Sealed :: bytes
  rw_Data :: repository

datatype key_error = KeyInternal | KeyBadRequest | KeyConflict | KeyForbidden | KeyStore | KeyCrypto | KeyNotFound

type_synonym marshal = "sealed_secrets \<Rightarrow> bytes"
type_synonym unmarshal = "bytes \<Rightarrow> sealed_secrets option"

definition blank_auth :: "upstream_auth \<Rightarrow> upstream_auth" where
  "blank_auth u = u\<lparr>ua_Password := [], ua_Token := [], ua_Value := []\<rparr>"

definition strip_upstream :: "registry_upstream \<Rightarrow> registry_upstream" where
  "strip_upstream u = u\<lparr>ru_SSHKey := [], ru_Auth := map_option blank_auth (ru_Auth u)\<rparr>"

text \<open>What \<open>repoRecord\<close> writes to the data column.\<close>

definition strip_repo :: "repository \<Rightarrow> repository" where
  "strip_repo repo = repo\<lparr>rr_Auth := None, rr_SigningKey := [],
     rr_Replication := map_option (\<lambda>r. r\<lparr>rp_Token := []\<rparr>) (rr_Replication repo),
     rr_Upstreams := map strip_upstream (rr_Upstreams repo)\<rparr>"

definition auth_secret :: "upstream_auth option \<Rightarrow> bool" where
  "auth_secret a \<longleftrightarrow> (case a of None \<Rightarrow> False | Some u \<Rightarrow> ua_Password u \<noteq> [] \<or> ua_Token u \<noteq> [] \<or> ua_Value u \<noteq> [])"

definition upstream_secret_of :: "registry_upstream \<Rightarrow> upstream_secret" where
  "upstream_secret_of u = (case ru_Auth u of
     None \<Rightarrow> \<lparr>us_Password = [], us_Token = [], us_Value = [], us_SSHKey = ru_SSHKey u\<rparr>
   | Some a \<Rightarrow> \<lparr>us_Password = ua_Password a, us_Token = ua_Token a, us_Value = ua_Value a, us_SSHKey = ru_SSHKey u\<rparr>)"

definition secrets_of :: "repository \<Rightarrow> sealed_secrets" where
  "secrets_of repo = \<lparr>ss_SigningKey = rr_SigningKey repo,
     ss_ReplicationToken = (case rr_Replication repo of None \<Rightarrow> [] | Some r \<Rightarrow> rp_Token r),
     ss_Password = (case rr_Auth repo of None \<Rightarrow> [] | Some a \<Rightarrow> ua_Password a),
     ss_Token = (case rr_Auth repo of None \<Rightarrow> [] | Some a \<Rightarrow> ua_Token a),
     ss_Value = (case rr_Auth repo of None \<Rightarrow> [] | Some a \<Rightarrow> ua_Value a),
     ss_Upstreams = map upstream_secret_of (rr_Upstreams repo)\<rparr>"

definition has_secret :: "repository \<Rightarrow> bool" where
  "has_secret repo \<longleftrightarrow> rr_SigningKey repo \<noteq> [] \<or>
     (case rr_Replication repo of None \<Rightarrow> False | Some r \<Rightarrow> rp_Token r \<noteq> []) \<or> auth_secret (rr_Auth repo) \<or>
     list_ex (\<lambda>u. auth_secret (ru_Auth u) \<or> ru_SSHKey u \<noteq> []) (rr_Upstreams repo)"

definition meta_of :: "upstream_auth \<Rightarrow> auth_meta" where
  "meta_of a = \<lparr>am_Type = ua_Type a, am_Username = ua_Username a, am_Header = ua_Header a\<rparr>"

definition sealRepoSecrets ::
  "aead \<Rightarrow> marshal \<Rightarrow> key_manager option \<Rightarrow> bytes option \<Rightarrow> repository \<Rightarrow> key_error + auth_meta option \<times> bytes" where
  "sealRepoSecrets a mar mgr nonce repo = (let metaArg = map_option meta_of (rr_Auth repo)
     in if \<not> has_secret repo then Ok (metaArg, [])
        else if (case mgr of None \<Rightarrow> True | Some m \<Rightarrow> \<not> IsUnlocked m) then Err KeyBadRequest
        else case Seal a mgr nonce (mar (secrets_of repo)) of Inl _ \<Rightarrow> Err KeyCrypto
             | Inr sealed \<Rightarrow> Ok (metaArg, sealed))"

definition no_secrets :: sealed_secrets where
  "no_secrets = \<lparr>ss_SigningKey = [], ss_ReplicationToken = [], ss_Password = [], ss_Token = [], ss_Value = [], ss_Upstreams = []\<rparr>"

definition fill_upstream :: "registry_upstream \<Rightarrow> upstream_secret \<Rightarrow> registry_upstream" where
  "fill_upstream u s = (let u' = u\<lparr>ru_SSHKey := us_SSHKey s\<rparr>
     in case ru_Auth u of
          Some a \<Rightarrow> u'\<lparr>ru_Auth := Some (a\<lparr>ua_Password := us_Password s, ua_Token := us_Token s, ua_Value := us_Value s\<rparr>)\<rparr>
        | None \<Rightarrow> if us_Password s \<noteq> [] \<or> us_Token s \<noteq> [] \<or> us_Value s \<noteq> []
            then u'\<lparr>ru_Auth := Some \<lparr>ua_Type = [], ua_Username = [], ua_Password = us_Password s, ua_Token = us_Token s,
              ua_Header = [], ua_Value = us_Value s\<rparr>\<rparr>
            else u')"

text \<open>The loop over the upstreams stops at the end of the shorter list.\<close>

fun fill_upstreams :: "registry_upstream list \<Rightarrow> upstream_secret list \<Rightarrow> registry_upstream list" where
  "fill_upstreams [] ss = []"
| "fill_upstreams (u # us) [] = u # us"
| "fill_upstreams (u # us) (s # ss) = fill_upstream u s # fill_upstreams us ss"

definition opened_secrets :: "aead \<Rightarrow> unmarshal \<Rightarrow> key_manager option \<Rightarrow> bytes \<Rightarrow> sealed_secrets" where
  "opened_secrets a unm mgr sealed =
     (if sealed \<noteq> [] \<and> (case mgr of None \<Rightarrow> False | Some m \<Rightarrow> IsUnlocked m)
      then (case Open a mgr sealed of Inl _ \<Rightarrow> no_secrets
            | Inr raw \<Rightarrow> (case unm raw of None \<Rightarrow> no_secrets | Some sec \<Rightarrow> sec))
      else no_secrets)"

definition openRepoSecrets ::
  "aead \<Rightarrow> unmarshal \<Rightarrow> key_manager option \<Rightarrow> auth_meta option \<Rightarrow> bytes \<Rightarrow> repository \<Rightarrow> repository" where
  "openRepoSecrets a unm mgr authRaw sealed repo = (let sec = opened_secrets a unm mgr sealed
     in repo\<lparr>rr_SigningKey := ss_SigningKey sec,
          rr_Replication := map_option (\<lambda>r. r\<lparr>rp_Token := ss_ReplicationToken sec\<rparr>) (rr_Replication repo),
          rr_Auth := (case authRaw of None \<Rightarrow> rr_Auth repo
            | Some m \<Rightarrow> Some \<lparr>ua_Type = am_Type m, ua_Username = am_Username m, ua_Password = ss_Password sec,
                ua_Token = ss_Token sec, ua_Header = am_Header m, ua_Value = ss_Value sec\<rparr>),
          rr_Upstreams := fill_upstreams (rr_Upstreams repo) (ss_Upstreams sec)\<rparr>)"

definition repoRecord ::
  "aead \<Rightarrow> marshal \<Rightarrow> key_manager option \<Rightarrow> bytes option \<Rightarrow> string \<Rightarrow> repository \<Rightarrow> key_error + repo_row" where
  "repoRecord a mar mgr nonce namespace repo = (case sealRepoSecrets a mar mgr nonce repo of Inl e \<Rightarrow> Err e
     | Inr (authMeta, sealed) \<Rightarrow> Ok \<lparr>rw_Namespace = namespace, rw_Name = rr_Name repo, rw_Auth = authMeta,
         rw_Sealed = sealed, rw_Data = strip_repo repo\<rparr>)"

definition scanRepo :: "aead \<Rightarrow> unmarshal \<Rightarrow> key_manager option \<Rightarrow> repo_row \<Rightarrow> repository \<times> string" where
  "scanRepo a unm mgr row = (openRepoSecrets a unm mgr (rw_Auth row) (rw_Sealed row) (rw_Data row), rw_Namespace row)"

section \<open>The database and the server key\<close>

text \<open>Rows are kept in the order the queries return them; an absent verifier is the empty string of bytes.\<close>

record key_server =
  ks_mgr :: "key_manager option"
  ks_verifier :: bytes
  ks_namespaces :: "string list"
  ks_rows :: "repo_row list"

record key_faults =
  kf_get :: bool
  kf_set :: bool
  kf_load :: bool
  kf_update :: "string \<Rightarrow> string \<Rightarrow> bool"
  kf_rand :: "bytes option"
  kf_nonce :: "bytes option"
  kf_repo_nonce :: "string \<Rightarrow> string \<Rightarrow> bytes option"

definition find_row :: "key_server \<Rightarrow> string \<Rightarrow> string \<Rightarrow> repo_row option" where
  "find_row srv ns name = find (\<lambda>row. rw_Namespace row = ns \<and> rw_Name row = name) (ks_rows srv)"

definition GetRepository :: "aead \<Rightarrow> unmarshal \<Rightarrow> key_server \<Rightarrow> string \<Rightarrow> string \<Rightarrow> repository option" where
  "GetRepository a unm srv ns name = map_option (\<lambda>row. fst (scanRepo a unm (ks_mgr srv) row)) (find_row srv ns name)"

definition LoadRegistryTree :: "aead \<Rightarrow> unmarshal \<Rightarrow> key_server \<Rightarrow> (string \<times> repository list) list" where
  "LoadRegistryTree a unm srv = map (\<lambda>ns. (ns, map fst (filter (\<lambda>rn. snd rn = ns)
     (map (scanRepo a unm (ks_mgr srv)) (ks_rows srv))))) (ks_namespaces srv)"

definition CreateRepository ::
  "aead \<Rightarrow> marshal \<Rightarrow> key_faults \<Rightarrow> key_server \<Rightarrow> string \<Rightarrow> repository \<Rightarrow> key_server \<times> key_error option" where
  "CreateRepository a mar f srv ns repo =
     (case repoRecord a mar (ks_mgr srv) (kf_repo_nonce f ns (rr_Name repo)) ns repo of
        Inl e \<Rightarrow> (srv, Some e)
      | Inr rec \<Rightarrow>
          if kf_update f ns (rr_Name repo) \<or> find_row srv ns (rr_Name repo) \<noteq> None then (srv, Some KeyStore)
          else (srv\<lparr>ks_rows := ks_rows srv @ [rec]\<rparr>, None))"

definition UpdateRepository ::
  "aead \<Rightarrow> marshal \<Rightarrow> key_faults \<Rightarrow> key_server \<Rightarrow> string \<Rightarrow> repository \<Rightarrow> key_server \<times> key_error option" where
  "UpdateRepository a mar f srv ns repo =
     (case repoRecord a mar (ks_mgr srv) (kf_repo_nonce f ns (rr_Name repo)) ns repo of
        Inl e \<Rightarrow> (srv, Some e)
      | Inr rec \<Rightarrow>
          if kf_update f ns (rr_Name repo) then (srv, Some KeyStore)
          else if find_row srv ns (rr_Name repo) = None then (srv, Some KeyNotFound)
          else (srv\<lparr>ks_rows := map (\<lambda>row. if rw_Namespace row = ns \<and> rw_Name row = rr_Name repo then rec else row)
                  (ks_rows srv)\<rparr>, None))"

definition verifierMagic :: bytes where
  "verifierMagic = map (\<lambda>c. of_char c) ''KUTU_KEY_VERIFIER_v1|''"

definition GetKeyStatus :: "key_faults \<Rightarrow> key_server \<Rightarrow> key_server \<times> (key_error + bool \<times> bool)" where
  "GetKeyStatus f srv = (if kf_get f then (srv, Err KeyStore)
     else let ini = ks_verifier srv \<noteq> []
          in case ks_mgr srv of None \<Rightarrow> (srv, Ok (ini, False))
             | Some m \<Rightarrow> ((if ini then srv\<lparr>ks_mgr := Some (MarkInitialized m)\<rparr> else srv), Ok (ini, IsUnlocked m)))"

definition InitializeServerKey ::
  "aead \<Rightarrow> (string \<Rightarrow> bytes) \<Rightarrow> key_faults \<Rightarrow> key_server \<Rightarrow> string \<Rightarrow> key_server \<times> key_error option" where
  "InitializeServerKey a kdf f srv passphrase = (case ks_mgr srv of None \<Rightarrow> (srv, Some KeyInternal)
     | Some m \<Rightarrow>
        if passphrase = [] then (srv, Some KeyBadRequest)
        else if kf_get f then (srv, Some KeyStore)
        else if ks_verifier srv \<noteq> [] then (srv, Some KeyConflict)
        else (case NewChaCha20 (kdf passphrase) of Inl _ \<Rightarrow> (srv, Some KeyCrypto)
          | Inr enc \<Rightarrow> (case kf_rand f of None \<Rightarrow> (srv, Some KeyCrypto)
            | Some random \<Rightarrow> (case Encrypt a enc (kf_nonce f) (verifierMagic @ random) of
                Inl _ \<Rightarrow> (srv, Some KeyCrypto)
              | Inr newVerifier \<Rightarrow> (case km_Unlock (Some enc) m of None \<Rightarrow> (srv, Some KeyCrypto)
                | Some m' \<Rightarrow>
                    if kf_set f then (srv\<lparr>ks_mgr := Some (km_Lock m')\<rparr>, Some KeyStore)
                    else (srv\<lparr>ks_verifier := newVerifier, ks_mgr := Some (MarkInitialized m')\<rparr>, None))))))"

text \<open>The check of a passphrase against the stored verifier, shared by unlocking and rotation.\<close>

definition check_verifier :: "aead \<Rightarrow> (string \<Rightarrow> bytes) \<Rightarrow> bytes \<Rightarrow> string \<Rightarrow> key_error + encryptor \<times> bytes" where
  "check_verifier a kdf verifier passphrase = (case NewChaCha20 (kdf passphrase) of Inl _ \<Rightarrow> Err KeyCrypto
     | Inr enc \<Rightarrow> (case Decrypt a enc verifier of Inl _ \<Rightarrow> Err KeyForbidden
         | Inr plain \<Rightarrow> if take (length verifierMagic) plain \<noteq> verifierMagic then Err KeyForbidden else Ok (enc, plain)))"

definition UnlockServerKey ::
  "aead \<Rightarrow> (string \<Rightarrow> bytes) \<Rightarrow> key_faults \<Rightarrow> key_server \<Rightarrow> string \<Rightarrow> key_server \<times> key_error option" where
  "UnlockServerKey a kdf f srv passphrase = (case ks_mgr srv of None \<Rightarrow> (srv, Some KeyInternal)
     | Some m \<Rightarrow>
        if passphrase = [] then (srv, Some KeyBadRequest)
        else if kf_get f then (srv, Some KeyStore)
        else if ks_verifier srv = [] then (srv, Some KeyBadRequest)
        else (case check_verifier a kdf (ks_verifier srv) passphrase of Inl e \<Rightarrow> (srv, Some e)
          | Inr (enc, _) \<Rightarrow> (case km_Unlock (Some enc) m of None \<Rightarrow> (srv, Some KeyCrypto)
            | Some m' \<Rightarrow> (srv\<lparr>ks_mgr := Some (MarkInitialized m')\<rparr>, None))))"

definition LockServerKey :: "key_server \<Rightarrow> key_server \<times> key_error option" where
  "LockServerKey srv = (case ks_mgr srv of None \<Rightarrow> (srv, Some KeyInternal)
     | Some m \<Rightarrow> (srv\<lparr>ks_mgr := Some (km_Lock m)\<rparr>, None))"

text \<open>The loop that writes the repositories again; the repositories without a default credential are skipped.\<close>

fun rewrap ::
  "aead \<Rightarrow> marshal \<Rightarrow> key_faults \<Rightarrow> key_server \<Rightarrow> (string \<times> repository) list \<Rightarrow> key_server \<times> key_error option" where
  "rewrap a mar f srv [] = (srv, None)"
| "rewrap a mar f srv ((ns, repo) # rest) =
     (if \<not> auth_secret (rr_Auth repo) then rewrap a mar f srv rest
      else case UpdateRepository a mar f srv ns repo of
          (srv', Some e) \<Rightarrow> (srv', Some e)
        | (srv', None) \<Rightarrow> rewrap a mar f srv' rest)"

definition tree_pairs :: "(string \<times> repository list) list \<Rightarrow> (string \<times> repository) list" where
  "tree_pairs tree = concat (map (\<lambda>(ns, repos). map (Pair ns) repos) tree)"

definition RotateServerKey ::
  "aead \<Rightarrow> (string \<Rightarrow> bytes) \<Rightarrow> marshal \<Rightarrow> unmarshal \<Rightarrow> key_faults \<Rightarrow> key_server \<Rightarrow> string \<Rightarrow> string \<Rightarrow>
   key_server \<times> key_error option" where
  "RotateServerKey a kdf mar unm f srv old new = (case ks_mgr srv of None \<Rightarrow> (srv, Some KeyInternal)
     | Some m \<Rightarrow>
        if old = [] \<or> new = [] then (srv, Some KeyBadRequest)
        else if old = new then (srv, Some KeyBadRequest)
        else if kf_get f then (srv, Some KeyStore)
        else if ks_verifier srv = [] then (srv, Some KeyBadRequest)
        else (case check_verifier a kdf (ks_verifier srv) old of Inl e \<Rightarrow> (srv, Some e)
          | Inr (_, plain) \<Rightarrow>
            if kf_load f then (srv, Some KeyStore)
            else let tree = LoadRegistryTree a unm srv
              in (case NewChaCha20 (kdf new) of Inl _ \<Rightarrow> (srv, Some KeyCrypto)
                | Inr newEnc \<Rightarrow> (case Encrypt a newEnc (kf_nonce f) plain of Inl _ \<Rightarrow> (srv, Some KeyCrypto)
                  | Inr newVerifier \<Rightarrow> (case km_Unlock (Some newEnc) m of None \<Rightarrow> (srv, Some KeyCrypto)
                    | Some m' \<Rightarrow>
                        if kf_set f then (srv\<lparr>ks_mgr := Some m'\<rparr>, Some KeyStore)
                        else rewrap a mar f (srv\<lparr>ks_mgr := Some m', ks_verifier := newVerifier\<rparr>) (tree_pairs tree))))))"

section \<open>Facts about rows\<close>

text \<open>A repository whose secrets are gone.\<close>

definition forget_secrets :: "repository \<Rightarrow> repository" where
  "forget_secrets repo = repo\<lparr>rr_SigningKey := [], rr_Replication := map_option (\<lambda>r. r\<lparr>rp_Token := []\<rparr>) (rr_Replication repo),
     rr_Auth := map_option blank_auth (rr_Auth repo), rr_Upstreams := map strip_upstream (rr_Upstreams repo)\<rparr>"

lemma fill_strip: "fill_upstream (strip_upstream u) (upstream_secret_of u) = u"
  by (cases u, cases "ru_Auth u")
    (auto simp: fill_upstream_def strip_upstream_def upstream_secret_of_def blank_auth_def)

lemma fill_strips: "fill_upstreams (map strip_upstream us) (map upstream_secret_of us) = us"
  by (induction us) (simp_all add: fill_strip)

lemma fill_none [simp]: "fill_upstreams us [] = us"
  by (cases us) simp_all

lemma open_full:
  assumes "opened_secrets a unm mgr sealed = secrets_of repo"
  shows "openRepoSecrets a unm mgr (map_option meta_of (rr_Auth repo)) sealed (strip_repo repo) = repo"
proof -
  have "map_option (\<lambda>r. r\<lparr>rp_Token := t\<rparr>) (map_option (\<lambda>r. r\<lparr>rp_Token := []\<rparr>) x) = x"
    if "t = (case x of None \<Rightarrow> [] | Some r \<Rightarrow> rp_Token r)" for x :: "replication option" and t
    using that by (cases x) auto
  then show ?thesis
    by (cases "rr_Auth repo")
      (auto simp: openRepoSecrets_def Let_def assms strip_repo_def fill_strips secrets_of_def meta_of_def)
qed

lemma open_none:
  assumes "opened_secrets a unm mgr sealed = no_secrets"
  shows "openRepoSecrets a unm mgr (map_option meta_of (rr_Auth repo)) sealed (strip_repo repo) = forget_secrets repo"
  by (cases "rr_Auth repo"; cases "rr_Replication repo")
    (auto simp: openRepoSecrets_def Let_def assms strip_repo_def no_secrets_def meta_of_def forget_secrets_def blank_auth_def)

lemma forget_id: "\<not> has_secret repo \<Longrightarrow> forget_secrets repo = repo"
proof -
  assume h: "\<not> has_secret repo"
  have u: "strip_upstream u = u" if "\<not> auth_secret (ru_Auth u)" "ru_SSHKey u = []" for u
    using that by (cases u, cases "ru_Auth u") (auto simp: strip_upstream_def auth_secret_def blank_auth_def)
  have "map strip_upstream (rr_Upstreams repo) = rr_Upstreams repo"
    using h u by (intro map_idI) (auto simp: has_secret_def list_ex_iff)
  with h show "forget_secrets repo = repo"
    by (cases "rr_Auth repo"; cases "rr_Replication repo"; cases repo)
      (auto simp: forget_secrets_def has_secret_def auth_secret_def blank_auth_def)
qed

lemma repoRecord_Ok:
  assumes "repoRecord a mar mgr nonce ns repo = Ok row"
  shows "rw_Namespace row = ns" "rw_Name row = rr_Name repo" "rw_Auth row = map_option meta_of (rr_Auth repo)"
    "rw_Data row = strip_repo repo" "\<not> has_secret repo \<Longrightarrow> rw_Sealed row = []"
    "has_secret repo \<Longrightarrow> \<exists>m enc n. mgr = Some m \<and> km_active m = Some enc \<and> nonce = Some n \<and>
       rw_Sealed row = formatV1 # n @ ae_Seal a (writes_under enc) n (mar (secrets_of repo))"
proof -
  show "rw_Namespace row = ns" "rw_Name row = rr_Name repo" "rw_Auth row = map_option meta_of (rr_Auth repo)"
    "rw_Data row = strip_repo repo" "\<not> has_secret repo \<Longrightarrow> rw_Sealed row = []"
    using assms by (auto simp: repoRecord_def sealRepoSecrets_def Let_def split: sum.splits if_splits prod.splits)
  assume "has_secret repo"
  with assms show "\<exists>m enc n. mgr = Some m \<and> km_active m = Some enc \<and> nonce = Some n \<and>
       rw_Sealed row = formatV1 # n @ ae_Seal a (writes_under enc) n (mar (secrets_of repo))"
    by (cases mgr; cases nonce)
      (auto simp: repoRecord_def sealRepoSecrets_def Let_def Seal_eq IsUnlocked_def split: sum.splits if_splits option.splits)
qed

text \<open>The row of a repository written under the key \<open>k\<close>.\<close>

definition stored_under :: "aead \<Rightarrow> marshal \<Rightarrow> bytes \<Rightarrow> repository \<Rightarrow> repo_row \<Rightarrow> bool" where
  "stored_under a mar k repo row \<longleftrightarrow> rw_Name row = rr_Name repo \<and> rw_Auth row = map_option meta_of (rr_Auth repo) \<and>
     rw_Data row = strip_repo repo \<and> (if has_secret repo
       then \<exists>n. length n = NonceSize \<and> rw_Sealed row = formatV1 # n @ ae_Seal a k n (mar (secrets_of repo))
       else rw_Sealed row = [])"

lemma repoRecord_stored:
  assumes "repoRecord a mar (Some m) nonce ns repo = Ok row" "\<And>n. nonce = Some n \<Longrightarrow> length n = NonceSize"
    "km_active m = Some enc"
  shows "stored_under a mar (writes_under enc) repo row"
  using repoRecord_Ok [OF assms(1)] assms(2,3) by (auto simp: stored_under_def)

lemma stored_scan:
  assumes st: "stored_under a mar k repo row" and a: "aead_ok a" and c: "unm (mar (secrets_of repo)) = Some (secrets_of repo)"
  shows "km_active m = Some (ChaCha20 k) \<Longrightarrow> fst (scanRepo a unm (Some m) row) = repo"
    and "km_active m = Some (ChaCha20 k') \<Longrightarrow> rejects a k k' \<Longrightarrow> fst (scanRepo a unm (Some m) row) = forget_secrets repo"
    and "km_active m = None \<Longrightarrow> fst (scanRepo a unm (Some m) row) = forget_secrets repo"
proof -
  have row: "rw_Auth row = map_option meta_of (rr_Auth repo)" "rw_Data row = strip_repo repo"
    using st by (simp_all add: stored_under_def)
  have plain: "opened_secrets a unm mgr (rw_Sealed row) = no_secrets" if "\<not> has_secret repo" for mgr
    using st that by (simp add: stored_under_def opened_secrets_def)
  have full: "fst (scanRepo a unm mgr row) = repo" if "opened_secrets a unm mgr (rw_Sealed row) = secrets_of repo" for mgr
    using open_full [OF that] by (simp add: scanRepo_def row)
  have none: "fst (scanRepo a unm mgr row) = forget_secrets repo" if "opened_secrets a unm mgr (rw_Sealed row) = no_secrets" for mgr
    using open_none [OF that] by (simp add: scanRepo_def row)
  show "fst (scanRepo a unm (Some m) row) = repo" if "km_active m = Some (ChaCha20 k)"
  proof (cases "has_secret repo")
    case True
    then obtain n where n: "length n = NonceSize" "rw_Sealed row = formatV1 # n @ ae_Seal a k n (mar (secrets_of repo))"
      using st by (auto simp: stored_under_def)
    show ?thesis
      using chacha_roundtrip [OF a n(1), of k "mar (secrets_of repo)"] that c
      by (intro full) (simp add: opened_secrets_def n Open_def km_Encryptor_def IsUnlocked_def)
  next
    case False
    then show ?thesis using none [OF plain] forget_id by metis
  qed
  show "fst (scanRepo a unm (Some m) row) = forget_secrets repo" if "km_active m = Some (ChaCha20 k')" "rejects a k k'"
  proof (cases "has_secret repo")
    case True
    then obtain n where n: "length n = NonceSize" "rw_Sealed row = formatV1 # n @ ae_Seal a k n (mar (secrets_of repo))"
      using st by (auto simp: stored_under_def)
    show ?thesis
      using chacha_rejects [OF that(2) n(1), of "mar (secrets_of repo)"] that
      by (intro none) (auto simp: opened_secrets_def n Open_def km_Encryptor_def IsUnlocked_def)
  next
    case False
    then show ?thesis using none [OF plain] by simp
  qed
  show "fst (scanRepo a unm (Some m) row) = forget_secrets repo" if "km_active m = None"
    using that by (intro none) (simp add: opened_secrets_def IsUnlocked_def)
qed

section \<open>Facts about rotation\<close>

lemma find_map_key:
  assumes "\<And>x. P (f x) \<longleftrightarrow> P x"
  shows "find P (map f xs) = map_option f (find P xs)"
  using assms by (induction xs) auto

lemma find_row_update:
  assumes "UpdateRepository a mar f srv ns repo = (srv', None)"
  shows "\<exists>rec. repoRecord a mar (ks_mgr srv) (kf_repo_nonce f ns (rr_Name repo)) ns repo = Ok rec \<and>
    find_row srv' ns' name = (if ns' = ns \<and> name = rr_Name repo then Some rec else find_row srv ns' name) \<and>
    ks_mgr srv' = ks_mgr srv \<and> ks_verifier srv' = ks_verifier srv"
proof -
  obtain rec where rec: "repoRecord a mar (ks_mgr srv) (kf_repo_nonce f ns (rr_Name repo)) ns repo = Ok rec"
    using assms by (auto simp: UpdateRepository_def split: sum.splits)
  note key = repoRecord_Ok(1,2) [OF rec]
  have ex: "find_row srv ns (rr_Name repo) \<noteq> None" and
    srv': "srv' = srv\<lparr>ks_rows := map (\<lambda>row. if rw_Namespace row = ns \<and> rw_Name row = rr_Name repo then rec else row) (ks_rows srv)\<rparr>"
    using assms rec by (auto simp: UpdateRepository_def split: if_splits)
  have m: "find_row srv' ns' name = map_option (\<lambda>row. if rw_Namespace row = ns \<and> rw_Name row = rr_Name repo then rec else row)
      (find_row srv ns' name)"
    unfolding find_row_def srv' by (simp, rule find_map_key) (auto simp: key)
  have k: "rw_Namespace row = ns' \<and> rw_Name row = name" if "find_row srv ns' name = Some row" for row
    using that find_someD by (fastforce simp: find_row_def)
  show ?thesis
    using rec ex m k srv' by (intro exI [of _ rec]) (cases "find_row srv ns' name", auto)
qed

abbreviation repo_key :: "string \<times> repository \<Rightarrow> string \<times> string" where
  "repo_key p \<equiv> (fst p, rr_Name (snd p))"

lemma rewrap_find:
  assumes "rewrap a mar f srv ps = (srv', None)" "distinct (map repo_key ps)"
  shows "ks_mgr srv' = ks_mgr srv \<and> ks_verifier srv' = ks_verifier srv \<and>
    (\<forall>ns repo. (ns, repo) \<in> set ps \<longrightarrow> auth_secret (rr_Auth repo) \<longrightarrow> (\<exists>rec.
       repoRecord a mar (ks_mgr srv) (kf_repo_nonce f ns (rr_Name repo)) ns repo = Ok rec \<and>
       find_row srv' ns (rr_Name repo) = Some rec)) \<and>
    (\<forall>ns name. (\<forall>repo. (ns, repo) \<in> set ps \<longrightarrow> rr_Name repo = name \<longrightarrow> \<not> auth_secret (rr_Auth repo)) \<longrightarrow>
       find_row srv' ns name = find_row srv ns name)"
  using assms
proof (induction ps arbitrary: srv)
  case Nil
  then show ?case by simp
next
  case (Cons p ps)
  obtain ns repo where p: "p = (ns, repo)" by (cases p)
  have d: "distinct (map repo_key ps)" "(ns, rr_Name repo) \<notin> repo_key ` set ps" using Cons.prems(2) p by auto
  show ?case
  proof (cases "auth_secret (rr_Auth repo)")
    case False
    then have "rewrap a mar f srv ps = (srv', None)" using Cons.prems(1) p by simp
    from Cons.IH [OF this d(1)] False show ?thesis unfolding p by (simp; blast)
  next
    case True
    then obtain srv1 where u: "UpdateRepository a mar f srv ns repo = (srv1, None)" "rewrap a mar f srv1 ps = (srv', None)"
      using Cons.prems(1) p by (auto split: prod.splits option.splits)
    obtain rec where rec: "repoRecord a mar (ks_mgr srv) (kf_repo_nonce f ns (rr_Name repo)) ns repo = Ok rec"
      and fr: "\<And>ns' name. find_row srv1 ns' name = (if ns' = ns \<and> name = rr_Name repo then Some rec else find_row srv ns' name)"
      and same: "ks_mgr srv1 = ks_mgr srv" "ks_verifier srv1 = ks_verifier srv"
      using find_row_update [OF u(1)] repoRecord_Ok by (metis Inr_inject)
    note IH = Cons.IH [OF u(2) d(1), unfolded same]
    have "\<forall>r. (ns, r) \<in> set ps \<longrightarrow> rr_Name r = rr_Name repo \<longrightarrow> \<not> auth_secret (rr_Auth r)"
      using d(2) by force
    then have here: "find_row srv' ns (rr_Name repo) = Some rec" using IH fr by simp
    show ?thesis
    proof (intro conjI allI impI)
      show "ks_mgr srv' = ks_mgr srv" "ks_verifier srv' = ks_verifier srv" using IH by simp_all
    next
      fix n r assume "(n, r) \<in> set (p # ps)" "auth_secret (rr_Auth r)"
      then show "\<exists>rec. repoRecord a mar (ks_mgr srv) (kf_repo_nonce f n (rr_Name r)) n r = Ok rec \<and>
          find_row srv' n (rr_Name r) = Some rec"
        using IH rec here p by auto
    next
      fix n name assume k: "\<forall>r. (n, r) \<in> set (p # ps) \<longrightarrow> rr_Name r = name \<longrightarrow> \<not> auth_secret (rr_Auth r)"
      then have "\<not> (n = ns \<and> name = rr_Name repo)" using True p by auto
      moreover have "\<forall>r. (n, r) \<in> set ps \<longrightarrow> rr_Name r = name \<longrightarrow> \<not> auth_secret (rr_Auth r)" using k by simp
      ultimately show "find_row srv' n name = find_row srv n name" using IH fr by metis
    qed
  qed
qed

text \<open>A server unlocked with the key \<open>k\<close> whose rows were all written under it.\<close>

definition server_under :: "aead \<Rightarrow> marshal \<Rightarrow> unmarshal \<Rightarrow> bytes \<Rightarrow> key_server \<Rightarrow> bool" where
  "server_under a mar unm k srv \<longleftrightarrow> (\<exists>m. ks_mgr srv = Some m \<and> km_active m = Some (ChaCha20 k)) \<and>
     distinct (ks_namespaces srv) \<and> distinct (map (\<lambda>row. (rw_Namespace row, rw_Name row)) (ks_rows srv)) \<and>
     (\<forall>row\<in>set (ks_rows srv). rw_Namespace row \<in> set (ks_namespaces srv) \<and>
        (\<exists>repo. stored_under a mar k repo row \<and> unm (mar (secrets_of repo)) = Some (secrets_of repo)))"

definition good_nonces :: "key_faults \<Rightarrow> bool" where
  "good_nonces f \<longleftrightarrow> (\<forall>n. kf_nonce f = Some n \<longrightarrow> length n = NonceSize) \<and>
     (\<forall>ns name n. kf_repo_nonce f ns name = Some n \<longrightarrow> length n = NonceSize)"

lemma find_row_iff:
  assumes "distinct (map (\<lambda>row. (rw_Namespace row, rw_Name row)) (ks_rows srv))"
  shows "find_row srv ns name = Some row \<longleftrightarrow> row \<in> set (ks_rows srv) \<and> rw_Namespace row = ns \<and> rw_Name row = name"
proof -
  have "distinct (map (\<lambda>row. (rw_Namespace row, rw_Name row)) rows) \<Longrightarrow>
     find (\<lambda>row. rw_Namespace row = ns \<and> rw_Name row = name) rows = Some row \<longleftrightarrow>
     row \<in> set rows \<and> rw_Namespace row = ns \<and> rw_Name row = name" for rows
    by (induction rows) force+
  with assms show ?thesis by (simp add: find_row_def)
qed

lemma tree_pairs_iff:
  "(ns, repo) \<in> set (tree_pairs (LoadRegistryTree a unm srv)) \<longleftrightarrow> ns \<in> set (ks_namespaces srv) \<and>
     (\<exists>row\<in>set (ks_rows srv). rw_Namespace row = ns \<and> fst (scanRepo a unm (ks_mgr srv) row) = repo)"
  by (force simp: tree_pairs_def LoadRegistryTree_def scanRepo_def)

lemma distinct_concat_pairs:
  "distinct nss \<Longrightarrow> (\<And>ns. ns \<in> set nss \<Longrightarrow> distinct (g ns)) \<Longrightarrow> distinct (concat (map (\<lambda>ns. map (Pair ns) (g ns)) nss))"
  by (induction nss) (auto simp: distinct_map inj_on_def)

lemma distinct_tree_pairs:
  assumes "distinct (ks_namespaces srv)" "distinct (map (\<lambda>row. (rw_Namespace row, rw_Name row)) (ks_rows srv))"
    and "\<And>row. row \<in> set (ks_rows srv) \<Longrightarrow> rr_Name (fst (scanRepo a unm (ks_mgr srv) row)) = rw_Name row"
  shows "distinct (map repo_key (tree_pairs (LoadRegistryTree a unm srv)))"
proof -
  let ?g = "\<lambda>ns. map rw_Name (filter (\<lambda>row. rw_Namespace row = ns) (ks_rows srv))"
  have "distinct (?g ns)" for ns
    using assms(2) by (induction "ks_rows srv" arbitrary: srv rule: list.induct) (auto simp: distinct_map inj_on_def)
  moreover have "map repo_key (tree_pairs (LoadRegistryTree a unm srv)) =
      concat (map (\<lambda>ns. map (Pair ns) (?g ns)) (ks_namespaces srv))"
  proof -
    have n: "row \<in> set (ks_rows srv) \<Longrightarrow> rr_Name (openRepoSecrets a unm (ks_mgr srv) (rw_Auth row) (rw_Sealed row)
        (rw_Data row)) = rw_Name row" for row
      using assms(3) by (simp add: scanRepo_def)
    show ?thesis
      by (simp add: tree_pairs_def LoadRegistryTree_def map_concat comp_def filter_map scanRepo_def)
        (intro arg_cong [of _ _ concat] map_cong refl, simp add: n)
  qed
  ultimately show ?thesis using distinct_concat_pairs [OF assms(1), of ?g] by simp
qed

text \<open>The server in the middle of a rotation: new key and verifier, rows not yet written again.\<close>

definition rotating :: "key_server \<Rightarrow> key_manager \<Rightarrow> bytes \<Rightarrow> bytes \<Rightarrow> key_server" where
  "rotating srv m k v = srv\<lparr>ks_mgr := Some (m\<lparr>km_active := Some (ChaCha20 k)\<rparr>), ks_verifier := v\<rparr>"

lemma rotating_simps [simp]:
  "ks_mgr (rotating srv m k v) = Some (m\<lparr>km_active := Some (ChaCha20 k)\<rparr>)" "ks_verifier (rotating srv m k v) = v"
  "find_row (rotating srv m k v) = find_row srv"
  by (auto simp: rotating_def find_row_def fun_eq_iff)

lemma rotate_Ok:
  assumes "RotateServerKey a kdf mar unm f srv old new = (srv', None)" "ks_mgr srv = Some m"
  shows "\<exists>plain v. check_verifier a kdf (ks_verifier srv) old = Ok (ChaCha20 (kdf old), plain) \<and>
    chacha_Encrypt a (kdf new) (kf_nonce f) plain = Ok v \<and> old \<noteq> [] \<and> new \<noteq> [] \<and>
    NewChaCha20 (kdf new) = Ok (ChaCha20 (kdf new)) \<and>
    rewrap a mar f (rotating srv m (kdf new) v) (tree_pairs (LoadRegistryTree a unm srv)) = (srv', None)"
  using assms by (auto simp: RotateServerKey_def Let_def km_Unlock_def NewChaCha20_def rotating_def check_verifier_def
      split: if_splits sum.splits)

lemma new_key_unlocks:
  assumes chk: "check_verifier a kdf verifier old = Ok (ChaCha20 (kdf old), plain)" and a: "aead_ok a"
    and v: "chacha_Encrypt a (kdf new) (kf_nonce f) plain = Ok v" and f: "good_nonces f"
    and key: "NewChaCha20 (kdf new) = Ok (ChaCha20 (kdf new))"
  shows "v \<noteq> []" "check_verifier a kdf v new = Ok (ChaCha20 (kdf new), plain)"
    "rejects a (kdf new) (kdf old) \<Longrightarrow> check_verifier a kdf v old = Err KeyForbidden"
proof -
  obtain n where n: "length n = NonceSize" "v = n @ ae_Seal a (kdf new) n plain"
    using v f by (auto simp: chacha_Encrypt_def good_nonces_def split: option.splits)
  show "v \<noteq> []" using n by (auto simp: NonceSize_def)
  have pre: "take (length verifierMagic) plain = verifierMagic" "NewChaCha20 (kdf old) = Ok (ChaCha20 (kdf old))"
    using chk by (auto simp: check_verifier_def split: sum.splits if_splits)
  show "check_verifier a kdf v new = Ok (ChaCha20 (kdf new), plain)"
    using chacha_roundtrip [OF a n(1), of "kdf new" plain] pre by (simp add: check_verifier_def key n)
  show "rejects a (kdf new) (kdf old) \<Longrightarrow> check_verifier a kdf v old = Err KeyForbidden"
    using chacha_rejects [of a "kdf new" "kdf old", OF _ n(1), of plain] pre by (auto simp: check_verifier_def n)
qed

lemma server_rowE:
  assumes srv: "server_under a mar unm k srv" and a: "aead_ok a" and r: "row \<in> set (ks_rows srv)"
  obtains repo where "stored_under a mar k repo row" "unm (mar (secrets_of repo)) = Some (secrets_of repo)"
    "fst (scanRepo a unm (ks_mgr srv) row) = repo" "rr_Name repo = rw_Name row" "rw_Namespace row \<in> set (ks_namespaces srv)"
proof -
  obtain m where m: "ks_mgr srv = Some m" "km_active m = Some (ChaCha20 k)" using srv by (auto simp: server_under_def)
  obtain repo where repo: "stored_under a mar k repo row" "unm (mar (secrets_of repo)) = Some (secrets_of repo)"
    "rw_Namespace row \<in> set (ks_namespaces srv)"
    using srv r by (auto simp: server_under_def)
  show thesis
    using that [OF repo(1,2) _ _ repo(3)] repo(1) m stored_scan(1) [where unm = unm and mar = mar and m = m, OF repo(1) a repo(2)]
    by (auto simp: stored_under_def)
qed

lemma server_tree:
  assumes srv: "server_under a mar unm k srv" and a: "aead_ok a"
  shows "distinct (map repo_key (tree_pairs (LoadRegistryTree a unm srv)))"
    and "(ns, repo) \<in> set (tree_pairs (LoadRegistryTree a unm srv)) \<longleftrightarrow> GetRepository a unm srv ns (rr_Name repo) = Some repo"
proof -
  have dist: "distinct (ks_namespaces srv)" "distinct (map (\<lambda>row. (rw_Namespace row, rw_Name row)) (ks_rows srv))"
    using srv by (simp_all add: server_under_def)
  have name: "row \<in> set (ks_rows srv) \<Longrightarrow> rr_Name (fst (scanRepo a unm (ks_mgr srv) row)) = rw_Name row" for row
    using server_rowE [OF srv a] by metis
  then show "distinct (map repo_key (tree_pairs (LoadRegistryTree a unm srv)))"
    by (rule distinct_tree_pairs [OF dist])
  have ns: "row \<in> set (ks_rows srv) \<Longrightarrow> rw_Namespace row \<in> set (ks_namespaces srv)" for row
    using srv by (auto simp: server_under_def)
  show "(ns, repo) \<in> set (tree_pairs (LoadRegistryTree a unm srv)) \<longleftrightarrow> GetRepository a unm srv ns (rr_Name repo) = Some repo"
    unfolding tree_pairs_iff GetRepository_def using name ns find_row_iff [OF dist(2)] by force
qed

section \<open>Properties\<close>

text \<open>
  Stored credentials read back.  On an unlocked server, a repository that was updated reads back
  exactly as given, secrets included, every other repository is unchanged, and the rows are again all
  sealed under the live key.
\<close>

theorem update_reads_back:
  assumes srv: "server_under a mar unm k srv" and a: "aead_ok a" and f: "good_nonces f"
    and codec: "unm (mar (secrets_of repo)) = Some (secrets_of repo)"
    and upd: "UpdateRepository a mar f srv ns repo = (srv', None)"
  shows "GetRepository a unm srv' ns (rr_Name repo) = Some repo \<and> server_under a mar unm k srv' \<and>
    (\<forall>ns' name. (ns', name) \<noteq> (ns, rr_Name repo) \<longrightarrow> GetRepository a unm srv' ns' name = GetRepository a unm srv ns' name)"
proof -
  obtain m where m: "ks_mgr srv = Some m" "km_active m = Some (ChaCha20 k)" using srv by (auto simp: server_under_def)
  obtain rec where rec: "repoRecord a mar (ks_mgr srv) (kf_repo_nonce f ns (rr_Name repo)) ns repo = Ok rec"
    and fr: "\<And>ns' name. find_row srv' ns' name = (if ns' = ns \<and> name = rr_Name repo then Some rec else find_row srv ns' name)"
    and mgr: "ks_mgr srv' = ks_mgr srv"
    using find_row_update [OF upd] by (metis Inr_inject)
  have st: "stored_under a mar k repo rec"
    using repoRecord_stored [OF rec [unfolded m(1)] _ m(2)] f by (simp add: good_nonces_def writes_under_def)
  have srv': "srv' = srv\<lparr>ks_rows := map (\<lambda>row. if rw_Namespace row = ns \<and> rw_Name row = rr_Name repo then rec else row) (ks_rows srv)\<rparr>"
    and ex: "find_row srv ns (rr_Name repo) \<noteq> None"
    using upd rec by (auto simp: UpdateRepository_def split: if_splits)
  have ns: "ns \<in> set (ks_namespaces srv)"
    using ex srv find_row_iff [of srv ns "rr_Name repo"] by (auto simp: server_under_def)
  have keys: "map (\<lambda>row. (rw_Namespace row, rw_Name row)) (ks_rows srv') = map (\<lambda>row. (rw_Namespace row, rw_Name row)) (ks_rows srv)"
    using repoRecord_Ok(1,2) [OF rec] by (simp add: srv')
  have d: "distinct (map (\<lambda>row. (rw_Namespace row, rw_Name row)) (ks_rows srv'))" using srv keys by (simp add: server_under_def)
  have "\<exists>repo. stored_under a mar k repo row \<and> unm (mar (secrets_of repo)) = Some (secrets_of repo)"
    "rw_Namespace row \<in> set (ks_namespaces srv)" if "row \<in> set (ks_rows srv')" for row
    using that srv st ns codec repoRecord_Ok(1) [OF rec] by (auto simp: server_under_def srv' split: if_splits)
  then have "server_under a mar unm k srv'"
    using srv d by (auto simp: server_under_def srv')
  then show ?thesis
    using stored_scan(1) [where unm = unm and mar = mar and m = m, OF st a codec m(2)] by (simp add: GetRepository_def fr mgr m)
qed

lemma rotate_rows:
  assumes srv: "server_under a mar unm (kdf old) srv" and a: "aead_ok a" and f: "good_nonces f"
    and other: "rejects a (kdf old) (kdf new)" "rejects a (kdf new) (kdf old)"
    and rot: "RotateServerKey a kdf mar unm f srv old new = (srv', None)"
  shows "GetRepository a unm srv' ns name =
      map_option (\<lambda>repo. if auth_secret (rr_Auth repo) then repo else forget_secrets repo) (GetRepository a unm srv ns name)"
proof -
  obtain m where m: "ks_mgr srv = Some m" using srv by (auto simp: server_under_def)
  obtain plain v where ok: "check_verifier a kdf (ks_verifier srv) old = Ok (ChaCha20 (kdf old), plain)"
    "chacha_Encrypt a (kdf new) (kf_nonce f) plain = Ok v" "old \<noteq> []" "new \<noteq> []"
    "NewChaCha20 (kdf new) = Ok (ChaCha20 (kdf new))"
    and rw: "rewrap a mar f (rotating srv m (kdf new) v) (tree_pairs (LoadRegistryTree a unm srv)) = (srv', None)"
    using rotate_Ok [OF rot m] by blast
  note tree = server_tree [OF srv a]
  note R = rewrap_find [OF rw tree(1), simplified]
  have mgr: "ks_mgr srv' = Some (m\<lparr>km_active := Some (ChaCha20 (kdf new))\<rparr>)" "ks_verifier srv' = v" using R by simp_all
  show ?thesis
  proof (cases "find_row srv ns name")
    case None
    then have "\<forall>repo'. (ns, repo') \<in> set (tree_pairs (LoadRegistryTree a unm srv)) \<longrightarrow> rr_Name repo' = name \<longrightarrow>
        \<not> auth_secret (rr_Auth repo')"
      by (auto simp: tree(2) GetRepository_def)
    then have "find_row srv' ns name = None" using R None by simp
    then show ?thesis using None by (simp add: GetRepository_def)
  next
    case (Some row)
    then have r: "row \<in> set (ks_rows srv)" "rw_Name row = name"
      using srv find_row_iff [of srv ns name row] by (auto simp: server_under_def)
    obtain repo where repo: "stored_under a mar (kdf old) repo row" "unm (mar (secrets_of repo)) = Some (secrets_of repo)"
      "fst (scanRepo a unm (ks_mgr srv) row) = repo" "rr_Name repo = name"
      using server_rowE [OF srv a r(1)] r(2) by metis
    have get: "GetRepository a unm srv ns name = Some repo" using Some repo by (simp add: GetRepository_def)
    show ?thesis
    proof (cases "auth_secret (rr_Auth repo)")
      case True
      obtain rec where rec: "repoRecord a mar (Some (m\<lparr>km_active := Some (ChaCha20 (kdf new))\<rparr>))
          (kf_repo_nonce f ns (rr_Name repo)) ns repo = Ok rec" "find_row srv' ns (rr_Name repo) = Some rec"
      proof -
        have "(ns, repo) \<in> set (tree_pairs (LoadRegistryTree a unm srv))" using tree(2) [of ns repo] get repo(4) by simp
        with R True show ?thesis using that by blast
      qed
      have "stored_under a mar (kdf new) repo rec"
        using repoRecord_stored [OF rec(1), of "ChaCha20 (kdf new)"] f by (simp add: good_nonces_def writes_under_def)
      then have "fst (scanRepo a unm (ks_mgr srv') rec) = repo"
        unfolding mgr by (rule stored_scan(1) [where unm = unm and mar = mar, OF _ a repo(2)]) simp
      then show ?thesis using rec(2) repo(4) True get by (simp add: GetRepository_def [of a unm srv'])
    next
      case False
      then have "\<forall>repo'. (ns, repo') \<in> set (tree_pairs (LoadRegistryTree a unm srv)) \<longrightarrow> rr_Name repo' = name \<longrightarrow>
          \<not> auth_secret (rr_Auth repo')"
        using get by (auto simp: tree(2))
      then have "find_row srv' ns name = Some row" using R Some by simp
      moreover have "fst (scanRepo a unm (ks_mgr srv') row) = forget_secrets repo"
        unfolding mgr by (rule stored_scan(2) [where unm = unm and mar = mar, OF repo(1) a repo(2) _ other(1)]) simp
      ultimately show ?thesis using False get by (simp add: GetRepository_def [of a unm srv'])
    qed
  qed
qed

lemma rotate_keys:
  assumes srv: "server_under a mar unm (kdf old) srv" and a: "aead_ok a" and f: "good_nonces f"
    and other: "rejects a (kdf old) (kdf new)" "rejects a (kdf new) (kdf old)"
    and rot: "RotateServerKey a kdf mar unm f srv old new = (srv', None)"
    and f': "\<not> kf_get f'"
  shows "snd (UnlockServerKey a kdf f' (fst (LockServerKey srv')) new) = None"
    and "snd (UnlockServerKey a kdf f' (fst (LockServerKey srv')) old) = Some KeyForbidden"
proof -
  obtain m where m: "ks_mgr srv = Some m" using srv by (auto simp: server_under_def)
  obtain plain v where ok: "check_verifier a kdf (ks_verifier srv) old = Ok (ChaCha20 (kdf old), plain)"
    "chacha_Encrypt a (kdf new) (kf_nonce f) plain = Ok v" "old \<noteq> []" "new \<noteq> []"
    "NewChaCha20 (kdf new) = Ok (ChaCha20 (kdf new))"
    and rw: "rewrap a mar f (rotating srv m (kdf new) v) (tree_pairs (LoadRegistryTree a unm srv)) = (srv', None)"
    using rotate_Ok [OF rot m] by blast
  note tree = server_tree [OF srv a]
  note R = rewrap_find [OF rw tree(1), simplified]
  have mgr: "ks_mgr srv' = Some (m\<lparr>km_active := Some (ChaCha20 (kdf new))\<rparr>)" "ks_verifier srv' = v" using R by simp_all
  note new = new_key_unlocks [OF ok(1) a ok(2) f ok(5)]
  show "snd (UnlockServerKey a kdf f' (fst (LockServerKey srv')) new) = None"
    using ok new f' by (simp add: UnlockServerKey_def LockServerKey_def mgr km_Unlock_def)
  show "snd (UnlockServerKey a kdf f' (fst (LockServerKey srv')) old) = Some KeyForbidden"
    using ok new(1) new(3) [OF other(2)] f' by (simp add: UnlockServerKey_def LockServerKey_def mgr)
qed

text \<open>
  C25: what a key rotation keeps.  After a rotation that reports success on a server that is unlocked with the old key and
  whose rows are all sealed under it, every repository whose default upstream credential holds a secret reads back
  unchanged, and every other repository has lost its signing key, its replication token and the credentials of its
  upstreams.  The new passphrase unlocks the server and the old one does not.  A rotation on a locked server loses the
  secrets of every repository: \<open>rotate_locked_loses_all\<close>.
\<close>

theorem rotate_exact:
  assumes srv: "server_under a mar unm (kdf old) srv" and a: "aead_ok a" and f: "good_nonces f"
    and other: "rejects a (kdf old) (kdf new)" "rejects a (kdf new) (kdf old)"
    and rot: "RotateServerKey a kdf mar unm f srv old new = (srv', None)"
  shows "GetRepository a unm srv' ns name =
      map_option (\<lambda>repo. if auth_secret (rr_Auth repo) then repo else forget_secrets repo) (GetRepository a unm srv ns name) \<and>
    (\<not> kf_get f' \<longrightarrow> snd (UnlockServerKey a kdf f' (fst (LockServerKey srv')) new) = None \<and>
      snd (UnlockServerKey a kdf f' (fst (LockServerKey srv')) old) = Some KeyForbidden)"
  using rotate_rows [OF assms] rotate_keys [OF assms] by blast

lemma rewrap_skip: "\<forall>(ns, repo)\<in>set ps. \<not> auth_secret (rr_Auth repo) \<Longrightarrow> rewrap a mar f srv ps = (srv, None)"
  by (induction ps) auto

lemma forget_auth: "\<not> auth_secret (rr_Auth (forget_secrets repo))"
  by (cases "rr_Auth repo") (simp_all add: forget_secrets_def auth_secret_def blank_auth_def)

lemma locked_scan:
  assumes "server_under a mar unm k srv" "aead_ok a" "row \<in> set (ks_rows srv)"
  shows "fst (scanRepo a unm (Some (m\<lparr>km_active := None\<rparr>)) row) = forget_secrets (fst (scanRepo a unm (ks_mgr srv) row))"
  using server_rowE [OF assms] stored_scan(3) [where unm = unm and mar = mar, OF _ assms(2)]
  by (metis key_manager.select_convs(1) key_manager.simps(1) key_manager.surjective key_manager.update_convs(1))

text \<open>
  Rotating a locked server loses every secret.  While the server is locked the repositories read back
  blank, so none is written again under the new key; when such a rotation reports success, no secret
  of any repository can be read any more.
\<close>

theorem rotate_locked_loses_all:
  assumes srv: "server_under a mar unm (kdf old) srv" and a: "aead_ok a" and other: "rejects a (kdf old) (kdf new)"
    and rot: "RotateServerKey a kdf mar unm f (fst (LockServerKey srv)) old new = (srv', None)"
  shows "GetRepository a unm srv' ns name = map_option forget_secrets (GetRepository a unm srv ns name)"
proof -
  obtain m where m: "ks_mgr srv = Some m" "km_active m = Some (ChaCha20 (kdf old))" using srv by (auto simp: server_under_def)
  define locked where "locked = fst (LockServerKey srv)"
  have l: "ks_mgr locked = Some (m\<lparr>km_active := None\<rparr>)" "ks_rows locked = ks_rows srv"
    using m by (simp_all add: locked_def LockServerKey_def km_Lock_def)
  obtain v where rw: "rewrap a mar f (rotating locked (m\<lparr>km_active := None\<rparr>) (kdf new) v)
      (tree_pairs (LoadRegistryTree a unm locked)) = (srv', None)"
    using rotate_Ok [OF rot] l by (auto simp: locked_def)
  have "\<not> auth_secret (rr_Auth repo)" if "(n, repo) \<in> set (tree_pairs (LoadRegistryTree a unm locked))" for n repo
    using that locked_scan [OF srv a] forget_auth by (auto simp: tree_pairs_iff l)
  then have "rewrap a mar f (rotating locked (m\<lparr>km_active := None\<rparr>) (kdf new) v)
      (tree_pairs (LoadRegistryTree a unm locked)) = (rotating locked (m\<lparr>km_active := None\<rparr>) (kdf new) v, None)"
    by (intro rewrap_skip) auto
  then have srv': "srv' = rotating locked (m\<lparr>km_active := None\<rparr>) (kdf new) v" using rw by simp
  have fr: "find_row srv' ns name = find_row srv ns name" by (simp add: srv' find_row_def l)
  show ?thesis
  proof (cases "find_row srv ns name")
    case (Some row)
    then have r: "row \<in> set (ks_rows srv)" using srv find_row_iff [of srv ns name row] by (auto simp: server_under_def)
    obtain repo where repo: "stored_under a mar (kdf old) repo row" "unm (mar (secrets_of repo)) = Some (secrets_of repo)"
      "fst (scanRepo a unm (ks_mgr srv) row) = repo"
      using server_rowE [OF srv a r] by metis
    have "fst (scanRepo a unm (ks_mgr srv') row) = forget_secrets repo"
      unfolding srv' rotating_simps by (rule stored_scan(2) [where unm = unm and mar = mar, OF repo(1) a repo(2) _ other]) simp
    with Some fr repo show ?thesis by (simp add: GetRepository_def)
  qed (simp add: GetRepository_def fr)
qed

section \<open>Witnesses\<close>

definition demo_repo :: "string \<Rightarrow> string \<Rightarrow> repository" where
  "demo_repo signing password = \<lparr>rr_Name = ''apt'', rr_Type = ''apt'', rr_Kind = ''local'',
     rr_Auth = (if password = [] then None else Some \<lparr>ua_Type = ''basic'', ua_Username = ''u'', ua_Password = password,
       ua_Token = [], ua_Header = [], ua_Value = []\<rparr>),
     rr_SigningKey = signing, rr_Replication = None, rr_Upstreams = [], rr_Rest = []\<rparr>"

lemma demo_name: "rr_Name (demo_repo signing password) = ''apt''"
  by (simp add: demo_repo_def)

definition demo_kdf :: "string \<Rightarrow> bytes" where
  "demo_kdf p = demo_key (if p = ''old'' then 1 else 2)"

definition demo_faults :: key_faults where
  "demo_faults = \<lparr>kf_get = False, kf_set = False, kf_load = False, kf_update = (\<lambda>_ _. False), kf_rand = Some [],
     kf_nonce = Some demo_nonce, kf_repo_nonce = (\<lambda>_ _. Some demo_nonce)\<rparr>"

definition demo_server :: "marshal \<Rightarrow> repository \<Rightarrow> key_server" where
  "demo_server mar repo = fst (CreateRepository demo_aead mar demo_faults
     (fst (InitializeServerKey demo_aead demo_kdf demo_faults
        \<lparr>ks_mgr = Some km_New, ks_verifier = [], ks_namespaces = [''ns''], ks_rows = []\<rparr> ''old'')) ''ns'' repo)"

lemma demo_facts:
  "length demo_nonce = NonceSize" "demo_kdf ''old'' = demo_key 1" "demo_kdf ''new'' = demo_key 2" "good_nonces demo_faults"
  "NewChaCha20 (demo_key b) = Ok (ChaCha20 (demo_key b))"
  by (simp_all add: demo_nonce_def NonceSize_def demo_kdf_def good_nonces_def demo_faults_def NewChaCha20_def
      demo_key_def KeySize_def)

lemma demo_kdf_rejects: "rejects demo_aead (demo_kdf ''old'') (demo_kdf ''new'')" "rejects demo_aead (demo_kdf ''new'') (demo_kdf ''old'')"
  by (simp_all add: demo_facts demo_rejects)

abbreviation demo_mgr :: key_manager where
  "demo_mgr \<equiv> \<lparr>km_active = Some (ChaCha20 (demo_key 1)), km_initialized = True\<rparr>"

lemma demo_record: "\<exists>row. repoRecord demo_aead mar (Some demo_mgr) (Some demo_nonce) ''ns'' repo = Ok row"
  by (cases "has_secret repo") (auto simp: repoRecord_def sealRepoSecrets_def Let_def Seal_eq IsUnlocked_def)

lemma demo_server_eq:
  "\<exists>row. demo_server mar repo = \<lparr>ks_mgr = Some demo_mgr,
     ks_verifier = demo_nonce @ ae_Seal demo_aead (demo_key 1) demo_nonce verifierMagic, ks_namespaces = [''ns''], ks_rows = [row]\<rparr> \<and>
     rw_Namespace row = ''ns'' \<and> stored_under demo_aead mar (demo_key 1) repo row"
proof -
  obtain row where row: "repoRecord demo_aead mar (Some demo_mgr) (Some demo_nonce) ''ns'' repo = Ok row"
    using demo_record by blast
  have "stored_under demo_aead mar (demo_key 1) repo row"
    using repoRecord_stored [OF row, of "ChaCha20 (demo_key 1)"] demo_facts(1) by (simp add: writes_under_def)
  then show ?thesis
    using row repoRecord_Ok(1) [OF row]
    by (intro exI [of _ row]) (simp add: demo_server_def InitializeServerKey_def demo_facts km_New_def demo_faults_def
        chacha_Encrypt_def km_Unlock_def MarkInitialized_def CreateRepository_def find_row_def)
qed

lemma demo_server_under:
  "unm (mar (secrets_of repo)) = Some (secrets_of repo) \<Longrightarrow> server_under demo_aead mar unm (demo_kdf ''old'') (demo_server mar repo)"
  using demo_server_eq [of mar repo] by (auto simp: server_under_def demo_facts)

lemma demo_get:
  assumes "unm (mar (secrets_of repo)) = Some (secrets_of repo)"
  shows "GetRepository demo_aead unm (demo_server mar repo) ''ns'' (rr_Name repo) = Some repo"
  using demo_server_eq [of mar repo] stored_scan(1) [where unm = unm and mar = mar and m = demo_mgr, OF _ demo_aead_ok assms]
  by (auto simp: GetRepository_def find_row_def stored_under_def)

lemma demo_check: "check_verifier demo_aead demo_kdf (ks_verifier (demo_server mar repo)) ''old'' = Ok (ChaCha20 (demo_key 1), verifierMagic)"
  using demo_server_eq [of mar repo] chacha_roundtrip [OF demo_aead_ok demo_facts(1), of "demo_key 1" verifierMagic]
  by (auto simp: check_verifier_def demo_facts)

definition demo_mar :: marshal where "demo_mar s = (if ss_SigningKey s = [] then [8] else [9])"

definition demo_unm :: unmarshal where
  "demo_unm b = Some (secrets_of (if b = [8] then demo_repo [] [] else demo_repo ''pgp'' ''pw''))"

theorem update_reads_back_witness:
  "let r = demo_repo ''pgp'' ''pw'';
       (srv', e) = UpdateRepository demo_aead demo_mar demo_faults (demo_server demo_mar (demo_repo [] [])) ''ns'' r
   in GetRepository demo_aead demo_unm srv' ''ns'' ''apt'' = Some r"
proof -
  let ?q = "demo_repo [] []" and ?r = "demo_repo ''pgp'' ''pw''" and ?s = "demo_server demo_mar (demo_repo [] [])"
  have codec: "demo_unm (demo_mar (secrets_of ?q)) = Some (secrets_of ?q)" "demo_unm (demo_mar (secrets_of ?r)) = Some (secrets_of ?r)"
    by (simp_all add: demo_unm_def demo_mar_def secrets_of_def demo_repo_def)
  obtain row where "ks_mgr ?s = Some demo_mgr" "find_row ?s ''ns'' ''apt'' = Some row"
    using demo_server_eq [of demo_mar ?q] by (auto simp: find_row_def stored_under_def demo_name)
  moreover obtain rec where "repoRecord demo_aead demo_mar (Some demo_mgr) (Some demo_nonce) ''ns'' ?r = Ok rec"
    using demo_record by blast
  moreover note demo_name [of "''pgp''" "''pw''"]
  ultimately obtain srv' where u: "UpdateRepository demo_aead demo_mar demo_faults ?s ''ns'' ?r = (srv', None)"
    by (simp add: UpdateRepository_def demo_faults_def)
  show ?thesis
    using conjunct1 [OF update_reads_back [OF demo_server_under [of demo_unm demo_mar, OF codec(1)] demo_aead_ok demo_facts(4) codec(2) u]]
    by (simp add: u demo_name)
qed

text \<open>Rotating the demonstration server, with one repository.\<close>

lemma demo_rotate:
  assumes "unm (mar (secrets_of repo)) = Some (secrets_of repo)"
  shows "\<exists>srv'. RotateServerKey demo_aead demo_kdf mar unm demo_faults (demo_server mar repo) ''old'' ''new'' = (srv', None)"
proof -
  obtain row where srv: "ks_mgr (demo_server mar repo) = Some demo_mgr" "ks_verifier (demo_server mar repo) \<noteq> []"
    "find_row (demo_server mar repo) ''ns'' (rr_Name repo) = Some row"
    using demo_server_eq [of mar repo] by (auto simp: find_row_def stored_under_def demo_nonce_def)
  let ?v = "demo_nonce @ ae_Seal demo_aead (demo_key 2) demo_nonce verifierMagic"
  let ?s1 = "rotating (demo_server mar repo) demo_mgr (demo_key 2) ?v"
  have tree: "tree_pairs (LoadRegistryTree demo_aead unm (demo_server mar repo)) = [(''ns'', repo)]"
    using demo_server_eq [of mar repo] stored_scan(1) [where unm = unm and mar = mar and m = demo_mgr, OF _ demo_aead_ok assms]
    by (auto simp: tree_pairs_def LoadRegistryTree_def scanRepo_def)
  obtain rec where "repoRecord demo_aead mar (Some (demo_mgr\<lparr>km_active := Some (ChaCha20 (demo_key 2))\<rparr>)) (Some demo_nonce) ''ns'' repo = Ok rec"
    by (cases "has_secret repo") (auto simp: repoRecord_def sealRepoSecrets_def Let_def Seal_eq IsUnlocked_def)
  then obtain s2 where "rewrap demo_aead mar demo_faults ?s1 [(''ns'', repo)] = (s2, None)"
    using srv by (cases "auth_secret (rr_Auth repo)") (auto simp: UpdateRepository_def demo_faults_def)
  then show ?thesis
    using srv tree demo_check [of mar repo]
    by (simp add: RotateServerKey_def demo_facts Let_def km_Unlock_def demo_faults_def chacha_Encrypt_def rotating_def)
qed

theorem rotate_exact_witness:
  "\<exists>srv'. RotateServerKey demo_aead demo_kdf (\<lambda>_. [9]) (\<lambda>_. Some (secrets_of (demo_repo ''pgp'' []))) demo_faults
       (demo_server (\<lambda>_. [9]) (demo_repo ''pgp'' [])) ''old'' ''new'' = (srv', None) \<and>
     map_option rr_SigningKey (GetRepository demo_aead (\<lambda>_. Some (secrets_of (demo_repo ''pgp'' []))) srv' ''ns'' ''apt'') = Some []"
proof -
  let ?r = "demo_repo ''pgp'' []" and ?unm = "\<lambda>_::bytes. Some (secrets_of (demo_repo ''pgp'' []))" and ?mar = "\<lambda>_::sealed_secrets. [9::8 word]"
  obtain srv' where rot: "RotateServerKey demo_aead demo_kdf ?mar ?unm demo_faults (demo_server ?mar ?r) ''old'' ''new'' = (srv', None)"
    using demo_rotate [of ?unm ?mar ?r] by auto
  have under: "server_under demo_aead ?mar ?unm (demo_kdf ''old'') (demo_server ?mar ?r)" by (rule demo_server_under) simp
  have get: "GetRepository demo_aead ?unm (demo_server ?mar ?r) ''ns'' ''apt'' = Some ?r"
    using demo_get [of ?unm ?mar ?r] by (simp add: demo_repo_def)
  have "rr_SigningKey (forget_secrets ?r) = []" "\<not> auth_secret (rr_Auth ?r)"
    by (simp_all add: forget_secrets_def auth_secret_def demo_repo_def)
  then show ?thesis
    using rotate_exact [OF under demo_aead_ok demo_facts(4) demo_kdf_rejects rot, of "''ns''" "''apt''"]
    by (intro exI [of _ srv'] conjI rot) (simp add: get)
qed

lemma demo_rotate_locked:
  "\<exists>srv'. RotateServerKey demo_aead demo_kdf mar unm demo_faults (fst (LockServerKey (demo_server mar repo))) ''old'' ''new'' = (srv', None)"
proof -
  let ?l = "fst (LockServerKey (demo_server mar repo))" and ?m = "\<lparr>km_active = None, km_initialized = True\<rparr>"
  let ?v = "demo_nonce @ ae_Seal demo_aead (demo_key 2) demo_nonce verifierMagic"
  have l: "ks_mgr ?l = Some ?m" "ks_verifier ?l = ks_verifier (demo_server mar repo)" "ks_verifier ?l \<noteq> []"
    using demo_server_eq [of mar repo] by (auto simp: LockServerKey_def km_Lock_def demo_nonce_def)
  have "tree_pairs (LoadRegistryTree demo_aead unm ?l) = [(''ns'', forget_secrets repo)]"
    using demo_server_eq [of mar repo] open_none [of demo_aead unm "Some ?m"]
    by (auto simp: tree_pairs_def LoadRegistryTree_def scanRepo_def LockServerKey_def km_Lock_def stored_under_def
        opened_secrets_def IsUnlocked_def)
  then show ?thesis
    using l demo_check [of mar repo] forget_auth [of repo]
    by (simp add: RotateServerKey_def demo_facts Let_def km_Unlock_def demo_faults_def chacha_Encrypt_def)
qed

theorem rotate_locked_loses_all_witness:
  "\<exists>srv'. RotateServerKey demo_aead demo_kdf (\<lambda>_. [9]) (\<lambda>_. Some (secrets_of (demo_repo [] ''pw''))) demo_faults
       (fst (LockServerKey (demo_server (\<lambda>_. [9]) (demo_repo [] ''pw'')))) ''old'' ''new'' = (srv', None) \<and>
     map_option (\<lambda>r. auth_secret (rr_Auth r)) (GetRepository demo_aead (\<lambda>_. Some (secrets_of (demo_repo [] ''pw''))) srv' ''ns'' ''apt'') = Some False"
proof -
  let ?r = "demo_repo [] ''pw''" and ?unm = "\<lambda>_::bytes. Some (secrets_of (demo_repo [] ''pw''))" and ?mar = "\<lambda>_::sealed_secrets. [9::8 word]"
  obtain srv' where rot: "RotateServerKey demo_aead demo_kdf ?mar ?unm demo_faults (fst (LockServerKey (demo_server ?mar ?r))) ''old'' ''new'' = (srv', None)"
    using demo_rotate_locked [of ?mar ?unm ?r] by auto
  have under: "server_under demo_aead ?mar ?unm (demo_kdf ''old'') (demo_server ?mar ?r)" by (rule demo_server_under) simp
  have get: "GetRepository demo_aead ?unm (demo_server ?mar ?r) ''ns'' ''apt'' = Some ?r"
    using demo_get [of ?unm ?mar ?r] by (simp add: demo_name)
  show ?thesis
    using rotate_locked_loses_all [OF under demo_aead_ok demo_kdf_rejects(1) rot, of "''ns''" "''apt''"]
    by (intro exI [of _ srv'] conjI rot) (simp add: get forget_auth)
qed

text \<open>
  No secret in the clear.  The data and metadata columns of a row depend only on what is left of a
  repository without its secrets, and while the server is locked no row with a secret is written.
\<close>

theorem columns_hide_secrets:
  assumes "repoRecord a mar mgr nonce ns r = Ok row" "repoRecord a mar mgr' nonce' ns r' = Ok row'"
    and "forget_secrets r = forget_secrets r'"
  shows "rw_Data row = rw_Data row' \<and> rw_Auth row = rw_Auth row' \<and> rw_Name row = rw_Name row' \<and>
    (has_secret r \<longrightarrow> (\<exists>m enc. mgr = Some m \<and> km_active m = Some enc))"
proof -
  have "strip_repo r = (forget_secrets r)\<lparr>rr_Auth := None\<rparr>" for r
    by (simp add: strip_repo_def forget_secrets_def)
  moreover have "map_option meta_of (rr_Auth r) = map_option meta_of (rr_Auth (forget_secrets r))" for r
    by (cases "rr_Auth r") (simp_all add: forget_secrets_def meta_of_def blank_auth_def)
  moreover have "rr_Name r = rr_Name (forget_secrets r)" for r by (simp add: forget_secrets_def)
  ultimately show ?thesis
    using repoRecord_Ok [OF assms(1)] repoRecord_Ok [OF assms(2)] assms(3) by (metis (no_types))
qed

theorem columns_hide_secrets_witness:
  "\<exists>row row'. repoRecord demo_aead demo_mar (Some demo_mgr) (Some demo_nonce) ''ns'' (demo_repo ''pgp'' []) = Ok row \<and>
     repoRecord demo_aead demo_mar (Some demo_mgr) (Some demo_nonce) ''ns'' (demo_repo [] []) = Ok row' \<and> rw_Data row = rw_Data row'"
proof -
  obtain row row' where r: "repoRecord demo_aead demo_mar (Some demo_mgr) (Some demo_nonce) ''ns'' (demo_repo ''pgp'' []) = Ok row"
    "repoRecord demo_aead demo_mar (Some demo_mgr) (Some demo_nonce) ''ns'' (demo_repo [] []) = Ok row'"
    using demo_record by blast
  have "forget_secrets (demo_repo ''pgp'' []) = forget_secrets (demo_repo [] [])" by (simp add: forget_secrets_def demo_repo_def)
  from columns_hide_secrets [OF r this] r show ?thesis by blast
qed

end
