(* ===== verification/Capabilities.thy ===== *)
theory Capabilities
  imports Go_Prelude
begin

text \<open>
  \<open>internal/service/capabilities.go\<close> and \<open>internal/service/permission.go\<close>: the capability vocabulary,
  the path patterns that scope a grant, and the union of permission bundles.  The glob matcher is the
  third-party package \<open>doublestar\<close>: \<open>dm pattern path\<close> says that \<open>doublestar.Match\<close> returns true and no
  error.  A pattern map is a total function; a missing key and an empty list mean the same in the code.
\<close>

type_synonym matcher = "string \<Rightarrow> string \<Rightarrow> bool"
type_synonym patterns = "string \<Rightarrow> string list"

section \<open>Vocabulary\<close>

definition CapRawRead :: string where "CapRawRead = ''raw.read''"
definition CapRawWrite :: string where "CapRawWrite = ''raw.write''"
definition CapRegistryRead :: string where "CapRegistryRead = ''registry.read''"
definition CapRegistryWrite :: string where "CapRegistryWrite = ''registry.write''"
definition CapRegistryDelete :: string where "CapRegistryDelete = ''registry.delete''"
definition CapRegistryAdmin :: string where "CapRegistryAdmin = ''registry.admin''"
definition CapSettingsManage :: string where "CapSettingsManage = ''settings.manage''"
definition CapTokensManage :: string where "CapTokensManage = ''tokens.manage''"
definition CapUsersManage :: string where "CapUsersManage = ''users.manage''"
definition CapPermissionsManage :: string where "CapPermissionsManage = ''permissions.manage''"

lemmas cap_defs = CapRawRead_def CapRawWrite_def CapRegistryRead_def CapRegistryWrite_def CapRegistryDelete_def
  CapRegistryAdmin_def CapSettingsManage_def CapTokensManage_def CapUsersManage_def CapPermissionsManage_def

definition KnownCapabilityKeys :: "string list" where
  "KnownCapabilityKeys = [CapRawRead, CapRawWrite, CapRegistryRead, CapRegistryWrite, CapRegistryDelete,
     CapRegistryAdmin, CapSettingsManage, CapTokensManage, CapUsersManage, CapPermissionsManage]"

text \<open>The capabilities of the data plane, the only ones a token can hold.\<close>

definition data_caps :: "string list" where
  "data_caps = [CapRawRead, CapRawWrite, CapRegistryRead, CapRegistryWrite, CapRegistryDelete]"

definition Has :: "string list \<Rightarrow> string \<Rightarrow> bool" where
  "Has caps key \<longleftrightarrow> list_ex (\<lambda>k. k = key) caps"

section \<open>Patterns\<close>

definition Allows :: "matcher \<Rightarrow> patterns \<Rightarrow> string \<Rightarrow> string \<Rightarrow> bool" where
  "Allows dm cp key path =
     (if cp key = [] then True
      else if path = [] then True
      else list_ex (\<lambda>pat. dm pat (trim_left_func (\<lambda>c. c = CHR ''/'') path)) (cp key))"

definition splitSegments :: "string \<Rightarrow> string list" where
  "splitSegments p = (if p = [] then [] else split_on CHR ''/'' p)"

text \<open>The loop of \<open>isAncestorOfPattern\<close>, both lists read from their current position.\<close>

fun ancestor_loop :: "matcher \<Rightarrow> string list \<Rightarrow> string list \<Rightarrow> bool" where
  "ancestor_loop dm [] patSegs = (patSegs \<noteq> [])"
| "ancestor_loop dm (seg # segs) [] = False"
| "ancestor_loop dm (seg # segs) (ps # patSegs) =
     (if ps = ''**'' then True else if \<not> dm ps seg then False else ancestor_loop dm segs patSegs)"

definition isAncestorOfPattern :: "matcher \<Rightarrow> string list \<Rightarrow> string \<Rightarrow> bool" where
  "isAncestorOfPattern dm pathSegs pattern = ancestor_loop dm pathSegs (split_on CHR ''/'' pattern)"

definition AllowsAncestor :: "matcher \<Rightarrow> patterns \<Rightarrow> string \<Rightarrow> string \<Rightarrow> bool" where
  "AllowsAncestor dm cp key path =
     (if Allows dm cp key path then True
      else if cp key = [] then True
      else list_ex (isAncestorOfPattern dm (splitSegments (trim_func (\<lambda>c. c = CHR ''/'') path))) (cp key))"

section \<open>Permission bundles\<close>

record permission =
  pm_ID :: string
  pm_Key :: string
  pm_Name :: string
  pm_Description :: string
  pm_Keys :: "string list"
  pm_KeyPatterns :: patterns

text \<open>Appending what is not there yet: the shape of every deduplicating loop of the package.\<close>

fun add_new :: "'a list \<Rightarrow> 'a list \<Rightarrow> 'a list" where
  "add_new acc [] = acc"
| "add_new acc (x # xs) = add_new (if x \<in> set acc then acc else acc @ [x]) xs"

definition hasTraversalSegment :: "string \<Rightarrow> bool" where
  "hasTraversalSegment p \<longleftrightarrow> list_ex (\<lambda>seg. seg = ''..'') (split_on CHR ''/'' p)"

fun clean_patterns :: "string list \<Rightarrow> string list \<Rightarrow> string list" where
  "clean_patterns seen [] = []"
| "clean_patterns seen (p # ps) =
     (let q = trim_space p
      in if q = [] \<or> hasTraversalSegment q \<or> q \<in> set seen then clean_patterns seen ps
         else q # clean_patterns (q # seen) ps)"

definition sanitizeKeyPatterns :: "patterns \<Rightarrow> patterns" where
  "sanitizeKeyPatterns m = (\<lambda>k. clean_patterns [] (m k))"

text \<open>The permission table, and the requests that change it; \<open>None\<close> leaves a field untouched.\<close>

datatype perm_error = PermBadRequest string | PermNotFound | PermStore

definition CreatePermission ::
  "permission list \<Rightarrow> string \<Rightarrow> string \<Rightarrow> string \<Rightarrow> string \<Rightarrow> string list \<Rightarrow> patterns \<Rightarrow>
   permission list \<times> (perm_error + permission)" where
  "CreatePermission table rid key name desc keys pats =
     (if key = [] then (table, Err (PermBadRequest ''key is required''))
      else if name = [] then (table, Err (PermBadRequest ''name is required''))
      else let p = \<lparr>pm_ID = rid, pm_Key = key, pm_Name = name, pm_Description = desc, pm_Keys = keys,
                    pm_KeyPatterns = sanitizeKeyPatterns pats\<rparr>
           in (table @ [p], Ok p))"

record update_request =
  up_Key :: "string option"
  up_Name :: "string option"
  up_Description :: "string option"
  up_Keys :: "string list option"
  up_KeyPatterns :: "patterns option"

definition apply_update :: "update_request \<Rightarrow> permission \<Rightarrow> permission" where
  "apply_update req p = \<lparr>pm_ID = pm_ID p,
     pm_Key = (case up_Key req of None \<Rightarrow> pm_Key p | Some k \<Rightarrow> k),
     pm_Name = (case up_Name req of None \<Rightarrow> pm_Name p | Some n \<Rightarrow> n),
     pm_Description = (case up_Description req of None \<Rightarrow> pm_Description p | Some d \<Rightarrow> d),
     pm_Keys = (case up_Keys req of None \<Rightarrow> pm_Keys p | Some ks \<Rightarrow> ks),
     pm_KeyPatterns = (case up_KeyPatterns req of None \<Rightarrow> pm_KeyPatterns p | Some ps \<Rightarrow> sanitizeKeyPatterns ps)\<rparr>"

definition UpdatePermission ::
  "permission list \<Rightarrow> string \<Rightarrow> update_request \<Rightarrow> permission list \<times> perm_error option" where
  "UpdatePermission table pid req =
     (if list_ex (\<lambda>p. pm_ID p = pid) table
      then (map (\<lambda>p. if pm_ID p = pid then apply_update req p else p) table, None)
      else (table, Some PermNotFound))"

definition PermissionsByKeys :: "permission list \<Rightarrow> string list \<Rightarrow> permission list" where
  "PermissionsByKeys table keys =
     (let want = filter (\<lambda>k. k \<noteq> []) keys
      in if want = [] then [] else filter (\<lambda>p. pm_Key p \<in> set want) table)"

definition bundle_keys :: "permission list \<Rightarrow> string list" where
  "bundle_keys perms = fold (\<lambda>p acc. add_new acc (pm_Keys p)) perms []"

definition unrestricted :: "permission list \<Rightarrow> string \<Rightarrow> bool" where
  "unrestricted perms k \<longleftrightarrow> list_ex (\<lambda>p. k \<in> set (pm_Keys p) \<and> pm_KeyPatterns p k = []) perms"

definition union_patterns :: "permission list \<Rightarrow> string \<Rightarrow> string list" where
  "union_patterns perms k = fold (\<lambda>p acc. add_new acc (pm_KeyPatterns p k)) perms []"

definition CapabilitiesFromBundles :: "permission list \<Rightarrow> string list \<times> patterns" where
  "CapabilitiesFromBundles perms = (bundle_keys perms,
     (\<lambda>k. if k \<notin> set (bundle_keys perms) \<or> unrestricted perms k then [] else union_patterns perms k))"

text \<open>This one also reports patterns of keys nobody grants.\<close>

definition ResolveUserCapabilityPatterns :: "permission list \<Rightarrow> patterns" where
  "ResolveUserCapabilityPatterns perms = (\<lambda>k. if unrestricted perms k then [] else union_patterns perms k)"

section \<open>Users\<close>

datatype permission_source = SourceNone | SourceBuiltin

record user_row =
  us_ID :: string
  us_Username :: string
  us_IsSuperadmin :: bool
  us_Disabled :: bool
  us_Denied :: "string list"
  us_Permissions :: "permission list"

definition resolveCapabilityKeysForUser :: "user_row \<Rightarrow> string list \<times> bool \<times> permission_source" where
  "resolveCapabilityKeysForUser u =
     (if us_IsSuperadmin u then (KnownCapabilityKeys, True, SourceBuiltin)
      else (bundle_keys (us_Permissions u), False, SourceBuiltin))"

definition ResolveLocalCapabilityKeys :: "user_row list \<Rightarrow> string \<Rightarrow> string list \<times> bool \<times> permission_source" where
  "ResolveLocalCapabilityKeys users username =
     (if username = [] then ([], False, SourceNone)
      else case find (\<lambda>u. us_Username u = username) users of
        None \<Rightarrow> ([], False, SourceNone)
      | Some u \<Rightarrow> resolveCapabilityKeysForUser u)"

definition ResolveUserCapabilityKeysByID :: "user_row list \<Rightarrow> string \<Rightarrow> string list \<times> bool \<times> permission_source" where
  "ResolveUserCapabilityKeysByID users uid =
     (if uid = [] then ([], False, SourceNone)
      else case find (\<lambda>u. us_ID u = uid) users of
        None \<Rightarrow> ([], False, SourceNone)
      | Some u \<Rightarrow> resolveCapabilityKeysForUser u)"

text \<open>\<open>CheckPermission\<close>: progressive restriction; \<open>table\<close> is the permission table.\<close>

definition CheckPermission :: "user_row list \<Rightarrow> permission list \<Rightarrow> string \<Rightarrow> string \<Rightarrow> bool" where
  "CheckPermission users table username permKey =
     (case ResolveLocalCapabilityKeys users username of (keys, isSuperadmin, source) \<Rightarrow>
        if isSuperadmin then True
        else if source = SourceNone then True
        else if \<not> list_ex (\<lambda>p. permKey \<in> set (pm_Keys p)) table then True
        else list_ex (\<lambda>k. k = permKey) keys)"

section \<open>Facts\<close>

lemma set_add_new [simp]: "set (add_new acc xs) = set acc \<union> set xs"
  by (induction acc xs rule: add_new.induct) auto

lemma distinct_add_new: "distinct acc \<Longrightarrow> distinct (add_new acc xs)"
  by (induction acc xs rule: add_new.induct) auto

lemma set_fold_add_new: "set (fold (\<lambda>p acc. add_new acc (f p)) ps acc) = set acc \<union> (\<Union>p\<in>set ps. set (f p))"
  by (induction ps arbitrary: acc) auto

lemma set_bundle_keys: "k \<in> set (bundle_keys perms) \<longleftrightarrow> (\<exists>p\<in>set perms. k \<in> set (pm_Keys p))"
  by (simp add: bundle_keys_def set_fold_add_new)

lemma distinct_bundle_keys: "distinct (bundle_keys perms)"
proof -
  have "distinct acc \<Longrightarrow> distinct (fold (\<lambda>p acc. add_new acc (pm_Keys p)) ps acc)" for ps acc
    by (induction ps arbitrary: acc) (auto simp: distinct_add_new)
  from this [of "[]" perms] show ?thesis by (simp add: bundle_keys_def)
qed

lemma set_union_patterns: "set (union_patterns perms k) = (\<Union>p\<in>set perms. set (pm_KeyPatterns p k))"
  by (simp add: union_patterns_def set_fold_add_new)

lemma unrestricted_iff: "unrestricted perms k \<longleftrightarrow> (\<exists>p\<in>set perms. k \<in> set (pm_Keys p) \<and> pm_KeyPatterns p k = [])"
  by (simp add: unrestricted_def list_ex_iff)

lemma Has_iff [simp]: "Has caps k \<longleftrightarrow> k \<in> set caps"
  by (auto simp: Has_def list_ex_iff)

lemma Allows_iff: "Allows dm cp key path \<longleftrightarrow> cp key = [] \<or> path = [] \<or>
    (\<exists>pat\<in>set (cp key). dm pat (trim_left_func (\<lambda>c. c = CHR ''/'') path))"
  by (auto simp: Allows_def list_ex_iff)

text \<open>What one bundle grants on its own.\<close>

definition bundle_allows :: "matcher \<Rightarrow> permission \<Rightarrow> string \<Rightarrow> string \<Rightarrow> bool" where
  "bundle_allows dm p k path \<longleftrightarrow> k \<in> set (pm_Keys p) \<and> Allows dm (pm_KeyPatterns p) k path"

text \<open>What a set of bundles grants together.\<close>

definition bundles_allow :: "matcher \<Rightarrow> permission list \<Rightarrow> string \<Rightarrow> string \<Rightarrow> bool" where
  "bundles_allow dm perms k path \<longleftrightarrow> Has (fst (CapabilitiesFromBundles perms)) k \<and>
     Allows dm (snd (CapabilitiesFromBundles perms)) k path"

lemma bundles_allow_iff: "bundles_allow dm perms k path \<longleftrightarrow>
    (\<exists>p\<in>set perms. k \<in> set (pm_Keys p)) \<and> (unrestricted perms k \<or> path = [] \<or>
      (\<exists>p\<in>set perms. \<exists>pat\<in>set (pm_KeyPatterns p k). dm pat (trim_left_func (\<lambda>c. c = CHR ''/'') path)))"
proof (cases "(\<exists>p\<in>set perms. k \<in> set (pm_Keys p)) \<and> \<not> unrestricted perms k")
  case True
  then obtain p where "p \<in> set perms" "pm_KeyPatterns p k \<noteq> []" by (auto simp: unrestricted_iff)
  then have "union_patterns perms k \<noteq> []" using set_union_patterns [of perms k] by fastforce
  with True show ?thesis
    by (auto simp: bundles_allow_def CapabilitiesFromBundles_def set_bundle_keys Allows_iff set_union_patterns)
qed (auto simp: bundles_allow_def CapabilitiesFromBundles_def set_bundle_keys Allows_iff)

section \<open>Properties\<close>

text \<open>
  The union of bundles is additive.  When every bundle that declares patterns for a capability also
  grants it, a set of bundles allows a path exactly when one of the bundles allows it on its own.
\<close>

theorem bundles_union:
  assumes "\<forall>p\<in>set perms. pm_KeyPatterns p k \<noteq> [] \<longrightarrow> k \<in> set (pm_Keys p)"
  shows "bundles_allow dm perms k path \<longleftrightarrow> (\<exists>p\<in>set perms. bundle_allows dm p k path)"
  unfolding bundles_allow_iff unrestricted_iff bundle_allows_def Allows_iff using assms by auto force+

definition scoped_bundle :: "string \<Rightarrow> string list \<Rightarrow> string list \<Rightarrow> permission" where
  "scoped_bundle key keys pats = \<lparr>pm_ID = key, pm_Key = key, pm_Name = key, pm_Description = [], pm_Keys = keys,
     pm_KeyPatterns = (\<lambda>k. if k = CapRawRead then pats else [])\<rparr>"

theorem bundles_union_witness:
  "bundles_allow (=) [scoped_bundle ''a'' [CapRawRead] [''x''], scoped_bundle ''b'' [CapRawRead] [''y'']] CapRawRead ''y''"
proof -
  let ?ps = "[scoped_bundle ''a'' [CapRawRead] [''x''], scoped_bundle ''b'' [CapRawRead] [''y'']]"
  have "\<forall>p\<in>set ?ps. pm_KeyPatterns p CapRawRead \<noteq> [] \<longrightarrow> CapRawRead \<in> set (pm_Keys p)"
    by (simp add: scoped_bundle_def)
  moreover have "bundle_allows (=) (scoped_bundle ''b'' [CapRawRead] [''y'']) CapRawRead ''y''" by code_simp
  ultimately show ?thesis using bundles_union [of ?ps CapRawRead "(=)" "''y''"] by auto
qed

text \<open>
  Patterns leak between bundles.  A bundle that only declares a pattern for a capability it does not
  grant widens the scope another bundle grants it with: no bundle allows the path, their union does.
\<close>

theorem ungranted_patterns_widen:
  "let perms = [scoped_bundle ''team-a'' [CapRawRead] [''a/f''], scoped_bundle ''other'' [CapSettingsManage] [''b/f'']]
   in \<not> list_ex (\<lambda>p. bundle_allows (=) p CapRawRead ''b/f'') perms \<and> bundles_allow (=) perms CapRawRead ''b/f''"
  by code_simp

lemma clean_patterns_props:
  "p \<in> set (clean_patterns seen ps) \<Longrightarrow> p \<noteq> [] \<and> \<not> hasTraversalSegment p \<and> p \<notin> set seen \<and> p \<in> trim_space ` set ps"
  by (induction seen ps rule: clean_patterns.induct) (auto simp: Let_def split: if_splits)

lemma distinct_clean_patterns: "distinct (clean_patterns seen ps)"
  by (induction seen ps rule: clean_patterns.induct) (auto simp: Let_def dest: clean_patterns_props)

lemma clean_patterns_complete:
  "p \<in> set ps \<Longrightarrow> trim_space p \<noteq> [] \<Longrightarrow> \<not> hasTraversalSegment (trim_space p) \<Longrightarrow>
   trim_space p \<in> set seen \<union> set (clean_patterns seen ps)"
  by (induction seen ps rule: clean_patterns.induct) (auto simp: Let_def)

text \<open>
  Sanitising patterns.  The stored patterns of a capability are distinct, and they are exactly the
  trimmed requested ones that are not empty and contain no \<open>..\<close> segment, so no stored pattern reaches
  outside its directory.
\<close>

theorem sanitize_exact:
  "distinct (sanitizeKeyPatterns m k) \<and> set (sanitizeKeyPatterns m k) =
     {p \<in> trim_space ` set (m k). p \<noteq> [] \<and> (\<forall>seg\<in>set (split_on CHR ''/'' p). seg \<noteq> ''..'')}"
  using clean_patterns_props [of _ "[]" "m k"] clean_patterns_complete [of _ "m k" "[]"]
  by (auto simp: sanitizeKeyPatterns_def distinct_clean_patterns hasTraversalSegment_def list_ex_iff)

end
