(* ===== verification/Token_Scopes.thy ===== *)
theory Token_Scopes
  imports Capabilities
begin

text \<open>
  \<open>internal/service/token.go\<close>: API tokens, their scopes and the scope matcher, and
  \<open>internal/server/authx/caps_token.go\<close>: the projection of scopes onto capabilities.  The hash of a raw
  key is the parameter \<open>hk\<close>, times are Unix seconds, random ids and keys are arguments.
\<close>

record token_scope =
  ts_Path :: string
  ts_Operations :: "string list"

record token =
  tk_ID :: string
  tk_Name :: string
  tk_HashedKey :: string
  tk_Scopes :: "token_scope list"
  tk_CreatedBy :: string
  tk_ExpiresAt :: "unix_time option"
  tk_Active :: bool

section \<open>Creating, changing and checking tokens\<close>

datatype token_error = TokBadRequest | TokNotFound | TokUnauthorized | TokForbidden

definition TokenPrefix :: string where "TokenPrefix = ''kutu_''"

definition known_op :: "string \<Rightarrow> bool" where
  "known_op op \<longleftrightarrow> op = ''read'' \<or> op = ''write'' \<or> op = ''delete'' \<or> op = ''*''"

definition validateTokenScopes :: "token_scope list \<Rightarrow> bool" where
  "validateTokenScopes scopes \<longleftrightarrow> list_all (\<lambda>sc. trim_space (ts_Path sc) \<noteq> [] \<and> ts_Operations sc \<noteq> [] \<and>
     list_all known_op (ts_Operations sc)) scopes"

definition CreateToken ::
  "(string \<Rightarrow> string) \<Rightarrow> token list \<Rightarrow> string \<Rightarrow> string \<Rightarrow> string \<Rightarrow> token_scope list \<Rightarrow> unix_time option \<Rightarrow> string \<Rightarrow>
   token list \<times> (token_error + token \<times> string)" where
  "CreateToken hk table rid rkey name scopes expires actor =
     (if name = [] then (table, Err TokBadRequest)
      else if scopes = [] then (table, Err TokBadRequest)
      else if \<not> validateTokenScopes scopes then (table, Err TokBadRequest)
      else let rawKey = TokenPrefix @ rkey;
               t = \<lparr>tk_ID = rid, tk_Name = name, tk_HashedKey = hk rawKey, tk_Scopes = scopes, tk_CreatedBy = actor,
                    tk_ExpiresAt = expires, tk_Active = True\<rparr>
           in (table @ [t], Ok (t, rawKey)))"

record patch_request =
  pr_Name :: "string option"
  pr_Scopes :: "token_scope list option"
  pr_Active :: "bool option"
  pr_ExpiresAt :: "unix_time option"

definition patch_token :: "patch_request \<Rightarrow> token \<Rightarrow> token" where
  "patch_token req t = t\<lparr>
     tk_Name := (case pr_Name req of None \<Rightarrow> tk_Name t | Some n \<Rightarrow> n),
     tk_Scopes := (case pr_Scopes req of None \<Rightarrow> tk_Scopes t | Some s \<Rightarrow> s),
     tk_Active := (case pr_Active req of None \<Rightarrow> tk_Active t | Some b \<Rightarrow> b),
     tk_ExpiresAt := (case pr_ExpiresAt req of None \<Rightarrow> tk_ExpiresAt t | Some e \<Rightarrow> Some e)\<rparr>"

definition PatchToken :: "token list \<Rightarrow> string \<Rightarrow> patch_request \<Rightarrow> token list \<times> token_error option" where
  "PatchToken table tid req = (case find (\<lambda>t. tk_ID t = tid) table of
     None \<Rightarrow> (table, Some TokNotFound)
   | Some _ \<Rightarrow>
       if (case pr_Scopes req of None \<Rightarrow> False | Some s \<Rightarrow> \<not> validateTokenScopes s) then (table, Some TokBadRequest)
       else (map (\<lambda>t. if tk_ID t = tid then patch_token req t else t) table, None))"

definition DeleteToken :: "token list \<Rightarrow> string \<Rightarrow> token list" where
  "DeleteToken table tid = filter (\<lambda>t. tk_ID t \<noteq> tid) table"

text \<open>The checks \<open>AuthenticateToken\<close> and \<open>TokenIdentityByID\<close> share.\<close>

definition usable :: "unix_time \<Rightarrow> token \<Rightarrow> token_error + token" where
  "usable now t = (if \<not> tk_Active t then Err TokForbidden
     else if (case tk_ExpiresAt t of None \<Rightarrow> False | Some e \<Rightarrow> now > e) then Err TokForbidden
     else Ok t)"

definition AuthenticateToken :: "(string \<Rightarrow> string) \<Rightarrow> token list \<Rightarrow> unix_time \<Rightarrow> string \<Rightarrow> token_error + token" where
  "AuthenticateToken hk table now rawKey = (case find (\<lambda>t. tk_HashedKey t = hk rawKey) table of
     None \<Rightarrow> Err TokUnauthorized | Some t \<Rightarrow> usable now t)"

definition TokenIdentityByID :: "token list \<Rightarrow> unix_time \<Rightarrow> string \<Rightarrow> token_error + token" where
  "TokenIdentityByID table now tid = (case find (\<lambda>t. tk_ID t = tid) table of
     None \<Rightarrow> Err TokUnauthorized | Some t \<Rightarrow> usable now t)"

section \<open>The scope matcher\<close>

text \<open>
  \<open>matchPathParts\<close>: both cursors are the remaining lists; the loop over the positions a \<open>**\<close> may end at
  is the search over the suffixes of the path.
\<close>

fun matchPathParts :: "string list \<Rightarrow> string list \<Rightarrow> bool" where
  "matchPathParts [] path = (path = [])"
| "matchPathParts (p # ps) [] = list_all (\<lambda>q. q = ''**'') (p # ps)"
| "matchPathParts (p # ps) (x # xs) =
     (if p = ''**'' then
        (if ps = [] then True else list_ex (\<lambda>i. matchPathParts ps (drop i (x # xs))) [0..<Suc (length (x # xs))])
      else if p = ''*'' then matchPathParts ps xs
      else if p \<noteq> x then False else matchPathParts ps xs)"

definition trim_slash :: "string \<Rightarrow> string" where
  "trim_slash s = trim_func (\<lambda>c. c = CHR ''/'') s"

definition matchPath :: "string \<Rightarrow> string \<Rightarrow> bool" where
  "matchPath pattern path =
     (if pattern = ''*'' \<or> pattern = ''**'' then True
      else matchPathParts (split_on CHR ''/'' (trim_slash pattern)) (split_on CHR ''/'' (trim_slash path)))"

definition containsOperation :: "string list \<Rightarrow> string \<Rightarrow> bool" where
  "containsOperation ops op \<longleftrightarrow> list_ex (\<lambda>o'. o' = op \<or> o' = ''*'') ops"

definition TokenScopesAllow :: "token_scope list \<Rightarrow> string \<Rightarrow> string \<Rightarrow> bool" where
  "TokenScopesAllow scopes path op \<longleftrightarrow>
     list_ex (\<lambda>sc. matchPath (ts_Path sc) path \<and> containsOperation (ts_Operations sc) op) scopes"

definition ValidateToken ::
  "(string \<Rightarrow> string) \<Rightarrow> token list \<Rightarrow> unix_time \<Rightarrow> string \<Rightarrow> string \<Rightarrow> string \<Rightarrow> token_error option" where
  "ValidateToken hk table now rawKey path op = (case AuthenticateToken hk table now rawKey of
     Inl e \<Rightarrow> Some e
   | Inr t \<Rightarrow> if TokenScopesAllow (tk_Scopes t) path op then None else Some TokForbidden)"

section \<open>From scopes to capabilities\<close>

record scope_area =
  sa_prefix :: string
  sa_ops :: "(string \<times> string) list"

definition tokenScopeAreas :: "scope_area list" where
  "tokenScopeAreas =
    [\<lparr>sa_prefix = ''raw'', sa_ops = [(''read'', CapRawRead), (''write'', CapRawWrite), (''delete'', CapRawWrite)]\<rparr>,
     \<lparr>sa_prefix = ''registry'', sa_ops = [(''read'', CapRegistryRead), (''write'', CapRegistryWrite),
        (''delete'', CapRegistryDelete)]\<rparr>]"

definition glob_meta :: "char \<Rightarrow> bool" where
  "glob_meta c \<longleftrightarrow> c \<in> {CHR ''*'', CHR ''?'', CHR ''['', CHR '']'', CHR ''{'', CHR ''}'', CHR 0x5C}"

fun escapeGlobMeta :: "string \<Rightarrow> string" where
  "escapeGlobMeta [] = []"
| "escapeGlobMeta (c # cs) = (if glob_meta c then CHR 0x5C # c # escapeGlobMeta cs else c # escapeGlobMeta cs)"

definition normalizeScopePath :: "string \<Rightarrow> string" where
  "normalizeScopePath path = join_on CHR ''/'' (map (\<lambda>seg. if seg = ''*'' \<or> seg = ''**'' then seg else escapeGlobMeta seg)
     (split_on CHR ''/'' path))"

definition scopePatternFor :: "string \<Rightarrow> string \<Rightarrow> string option" where
  "scopePatternFor path prefix =
     (if path = ''**'' \<or> path = ''*'' then Some []
      else let (head, rest, found) = cut path CHR ''/''
           in if head = ''**'' then Some []
              else if head \<noteq> ''*'' \<and> head \<noteq> prefix then None
              else if rest = [] then None
              else if rest = ''**'' then Some []
              else Some (normalizeScopePath rest))"

definition scopeHasAnyOp :: "token_scope \<Rightarrow> string list \<Rightarrow> bool" where
  "scopeHasAnyOp sc want \<longleftrightarrow> list_ex (\<lambda>have. have = ''*'' \<or> list_ex (\<lambda>w. have = w) want) (ts_Operations sc)"

text \<open>The calls of \<open>grant\<close> in the order the loops make them; the code ranges over a map of operations.\<close>

definition token_grants :: "token_scope list \<Rightarrow> (string \<times> string) list" where
  "token_grants scopes = concat (map (\<lambda>sc. concat (map (\<lambda>area.
     case scopePatternFor (trim_slash (ts_Path sc)) (sa_prefix area) of
       None \<Rightarrow> []
     | Some pattern \<Rightarrow> map (\<lambda>(op, capKey). (capKey, pattern)) (filter (\<lambda>(op, capKey). scopeHasAnyOp sc [op]) (sa_ops area)))
     tokenScopeAreas)) scopes)"

record token_report =
  tr_Capabilities :: "string list"
  tr_Patterns :: patterns
  tr_unrestricted :: "string list"

definition grant :: "string \<times> string \<Rightarrow> token_report \<Rightarrow> token_report" where
  "grant g r = (case g of (capKey, pattern) \<Rightarrow>
     let r1 = (if Has (tr_Capabilities r) capKey then r else r\<lparr>tr_Capabilities := tr_Capabilities r @ [capKey]\<rparr>)
     in if pattern = [] then r1\<lparr>tr_unrestricted := capKey # tr_unrestricted r1\<rparr>
        else r1\<lparr>tr_Patterns := (tr_Patterns r1)(capKey := add_new (tr_Patterns r1 capKey) [pattern])\<rparr>)"

definition tokenReport :: "token_scope list \<Rightarrow> string list \<times> patterns" where
  "tokenReport scopes = (let r = fold grant (token_grants scopes)
       \<lparr>tr_Capabilities = [], tr_Patterns = (\<lambda>_. []), tr_unrestricted = []\<rparr>
     in (tr_Capabilities r, (\<lambda>k. if k \<in> set (tr_unrestricted r) then [] else tr_Patterns r k)))"

section \<open>Facts\<close>

lemma grant_fold:
  "set (tr_Capabilities (fold grant gs r)) = set (tr_Capabilities r) \<union> fst ` set gs"
  "k \<in> set (tr_unrestricted (fold grant gs r)) \<longleftrightarrow> k \<in> set (tr_unrestricted r) \<or> (k, []) \<in> set gs"
  "set (tr_Patterns (fold grant gs r) k) = set (tr_Patterns r k) \<union> {p. (k, p) \<in> set gs \<and> p \<noteq> []}"
  by (induction gs arbitrary: r) (auto simp: grant_def Let_def split: prod.splits if_splits)

text \<open>What the report amounts to.\<close>

lemma tokenReport_iff:
  "Has (fst (tokenReport scopes)) k \<longleftrightarrow> k \<in> fst ` set (token_grants scopes)"
  "snd (tokenReport scopes) k = [] \<longleftrightarrow> (k, []) \<in> set (token_grants scopes) \<or> k \<notin> fst ` set (token_grants scopes)"
  "(k, []) \<notin> set (token_grants scopes) \<Longrightarrow> set (snd (tokenReport scopes) k) = {p. (k, p) \<in> set (token_grants scopes)}"
proof -
  let ?r = "fold grant (token_grants scopes) \<lparr>tr_Capabilities = [], tr_Patterns = (\<lambda>_. []), tr_unrestricted = []\<rparr>"
  have s: "set (tr_Patterns ?r k) = {p. (k, p) \<in> set (token_grants scopes) \<and> p \<noteq> []}" by (simp add: grant_fold)
  show "Has (fst (tokenReport scopes)) k \<longleftrightarrow> k \<in> fst ` set (token_grants scopes)"
    by (simp add: tokenReport_def Let_def grant_fold)
  have t: "snd (tokenReport scopes) k = (if (k, []) \<in> set (token_grants scopes) then [] else tr_Patterns ?r k)"
    by (simp add: tokenReport_def Let_def grant_fold(2))
  show "(k, []) \<notin> set (token_grants scopes) \<Longrightarrow> set (snd (tokenReport scopes) k) = {p. (k, p) \<in> set (token_grants scopes)}"
    using s by (auto simp: t)
  have "tr_Patterns ?r k = [] \<longleftrightarrow> {p. (k, p) \<in> set (token_grants scopes) \<and> p \<noteq> []} = {}" by (simp only: s [symmetric] set_empty)
  then show "snd (tokenReport scopes) k = [] \<longleftrightarrow> (k, []) \<in> set (token_grants scopes) \<or> k \<notin> fst ` set (token_grants scopes)"
    by (cases "(k, []) \<in> set (token_grants scopes)") (simp_all add: t, force)
qed

lemma token_allows_iff:
  assumes "path \<noteq> []"
  shows "Has (fst (tokenReport scopes)) k \<and> Allows dm (snd (tokenReport scopes)) k path \<longleftrightarrow>
    (\<exists>p. (k, p) \<in> set (token_grants scopes) \<and> (p = [] \<or> dm p (trim_left_func (\<lambda>c. c = CHR ''/'') path)))"
proof (cases "(k, []) \<in> set (token_grants scopes)")
  case True
  then show ?thesis
    using tokenReport_iff(1,2) [where scopes = scopes and k = k] by (force simp: Allows_iff simp del: Has_iff)
next
  case False
  then have "snd (tokenReport scopes) k = [] \<longleftrightarrow> k \<notin> fst ` set (token_grants scopes)"
    "set (snd (tokenReport scopes) k) = {p. (k, p) \<in> set (token_grants scopes)}"
    using tokenReport_iff(2,3) [where scopes = scopes and k = k] by simp_all
  with False assms show ?thesis
    using tokenReport_iff(1) [where scopes = scopes and k = k] by (auto simp: Allows_iff simp del: Has_iff)
qed

section \<open>The two matchers\<close>

lemma join_on_Nil_iff: "join_on c xs = [] \<longleftrightarrow> xs = [] \<or> xs = [[]]"
  by (induction c xs rule: join_on.induct) auto

lemma escape_Nil [simp]: "escapeGlobMeta s = [] \<longleftrightarrow> s = []"
  by (cases s) auto

lemma normalize_Nil: "normalizeScopePath p = [] \<longleftrightarrow> p = []"
proof -
  have "split_on CHR ''/'' p = [[]] \<longleftrightarrow> p = []"
    by (metis join_on.simps(2) join_split split_on.simps(1))
  then show ?thesis by (auto simp: normalizeScopePath_def join_on_Nil_iff map_eq_Cons_conv split: if_splits)
qed

lemma trim_slash_id:
  assumes "s \<noteq> []" "hd s \<noteq> CHR ''/''" "last s \<noteq> CHR ''/''"
  shows "trim_slash s = s"
proof -
  have "dropWhile (\<lambda>c. c = CHR ''/'') s = s" "dropWhile (\<lambda>c. c = CHR ''/'') (rev s) = rev s"
    using assms by (simp_all add: dropWhile_eq_self_iff hd_rev)
  then show ?thesis by (simp add: trim_slash_def trim_func_def trim_left_func_def trim_right_func_def)
qed

lemma trim_slash_last: "trim_slash s \<noteq> [] \<Longrightarrow> last (trim_slash s) \<noteq> CHR ''/''"
  using hd_dropWhile [of "\<lambda>c. c = CHR ''/''"]
  by (simp add: trim_slash_def trim_func_def trim_right_func_def last_rev)

text \<open>The scope paths the two matchers agree on: not a leading \<open>**\<close> before more segments, no stray slashes around a lone star.\<close>

definition plain_scope :: "string \<Rightarrow> bool" where
  "plain_scope p \<longleftrightarrow> p = ''*'' \<or> p = ''**'' \<or> (trim_slash p \<noteq> ''*'' \<and> hd (split_on CHR ''/'' (trim_slash p)) \<noteq> ''**'')"

text \<open>A path inside an area, without slashes at its ends.\<close>

definition area_path :: "string \<Rightarrow> bool" where
  "area_path path \<longleftrightarrow> path \<noteq> [] \<and> hd path \<noteq> CHR ''/'' \<and> last path \<noteq> CHR ''/''"

text \<open>What the code relies on of \<open>doublestar\<close>: on a normalised scope it matches segment by segment.\<close>

definition segment_matcher :: "matcher \<Rightarrow> bool" where
  "segment_matcher dm \<longleftrightarrow> (\<forall>p q. dm (normalizeScopePath p) q \<longleftrightarrow>
     matchPathParts (split_on CHR ''/'' p) (split_on CHR ''/'' q))"

lemma scope_pattern_agrees:
  assumes dm: "segment_matcher dm" and sc: "plain_scope P" and path: "area_path path"
    and pre: "prefix \<noteq> []" "CHR ''/'' \<notin> set prefix" "prefix \<noteq> ''*''" "prefix \<noteq> ''**''"
  shows "(\<exists>p. scopePatternFor (trim_slash P) prefix = Some p \<and> (p = [] \<or> dm p path)) \<longleftrightarrow> matchPath P (prefix @ CHR ''/'' # path)"
proof (cases "P = ''*'' \<or> P = ''**''")
  case True
  moreover have "trim_slash ''*'' = ''*''" "trim_slash ''**'' = ''**''" by (simp_all add: trim_slash_id)
  ultimately show ?thesis by (auto simp: scopePatternFor_def matchPath_def)
next
  case False
  define t where "t = trim_slash P"
  obtain h r f where c: "cut t CHR ''/'' = (h, r, f)" by (metis prod_cases3)
  note cs = cut_split [OF c]
  have h: "h \<noteq> ''**''" "t \<noteq> ''*''" "t \<noteq> ''**''"
    using sc False cs by (cases f, auto simp: plain_scope_def t_def)+
  have last: "f \<Longrightarrow> r \<noteq> []" using cs trim_slash_last [of P] by (auto simp: t_def)
  have tp: "trim_slash (prefix @ CHR ''/'' # path) = prefix @ CHR ''/'' # path"
    using pre path by (intro trim_slash_id) (auto simp: area_path_def, cases prefix, auto)
  have split: "split_on CHR ''/'' (prefix @ CHR ''/'' # path) = prefix # split_on CHR ''/'' path"
    using pre by (simp add: split_on_append)
  have mp: "matchPath P (prefix @ CHR ''/'' # path) \<longleftrightarrow>
      matchPathParts (split_on CHR ''/'' t) (prefix # split_on CHR ''/'' path)"
    using False by (simp add: matchPath_def tp split t_def)
  show ?thesis
  proof (cases f)
    case True
    then have r: "r \<noteq> []" "split_on CHR ''/'' t = h # split_on CHR ''/'' r" using last cs by auto
    have nn: "split_on CHR ''/'' path \<noteq> []" by simp
    have parts: "matchPathParts (h # split_on CHR ''/'' r) (prefix # split_on CHR ''/'' path) \<longleftrightarrow>
        (h = ''*'' \<or> h = prefix) \<and> matchPathParts (split_on CHR ''/'' r) (split_on CHR ''/'' path)"
      using h by auto
    have "r = ''**'' \<Longrightarrow> matchPathParts (split_on CHR ''/'' r) (split_on CHR ''/'' path)"
      using nn by (cases "split_on CHR ''/'' path") auto
    then show ?thesis
      using dm r h pre unfolding mp r(2) parts
      by (auto simp: scopePatternFor_def t_def [symmetric] c segment_matcher_def normalize_Nil)
  next
    case False
    then have "split_on CHR ''/'' t = [h]" "r = []" using cs by auto
    then show ?thesis using h by (auto simp: mp scopePatternFor_def t_def [symmetric] c)
  qed
qed

lemma scopeHasAnyOp_one: "scopeHasAnyOp sc [op] \<longleftrightarrow> containsOperation (ts_Operations sc) op"
  by (auto simp: scopeHasAnyOp_def containsOperation_def list_ex_iff)

lemma token_grants_iff:
  "(k, p) \<in> set (token_grants scopes) \<longleftrightarrow> (\<exists>sc\<in>set scopes. \<exists>area\<in>set tokenScopeAreas. \<exists>op.
     (op, k) \<in> set (sa_ops area) \<and> containsOperation (ts_Operations sc) op \<and>
     scopePatternFor (trim_slash (ts_Path sc)) (sa_prefix area) = Some p)"
  unfolding token_grants_def scopeHasAnyOp_one [symmetric]
  by (auto split: option.splits; force)

lemma tokenReport_data_caps:
  "set (fst (tokenReport scopes)) \<subseteq> set data_caps"
proof -
  have "k \<in> set data_caps" if "(k, p) \<in> set (token_grants scopes)" for k p
    using that unfolding token_grants_iff by (auto simp: tokenScopeAreas_def data_caps_def)
  then show ?thesis using tokenReport_iff(1) by fastforce
qed

text \<open>
  Capabilities mean what the scopes say.  For scopes without a leading \<open>**\<close>, a token holds a
  capability of an area on a path exactly when the scope matcher allows one of the operations that
  stand for the capability on the full path, given that \<open>doublestar\<close> matches normalised scopes
  segment by segment.
\<close>

theorem token_caps_agree:
  assumes "segment_matcher dm" "\<forall>sc\<in>set scopes. plain_scope (ts_Path sc)" "area_path path"
    and area: "area \<in> set tokenScopeAreas" "k \<in> snd ` set (sa_ops area)"
  shows "Has (fst (tokenReport scopes)) k \<and> Allows dm (snd (tokenReport scopes)) k path \<longleftrightarrow>
    (\<exists>op. (op, k) \<in> set (sa_ops area) \<and> TokenScopesAllow scopes (sa_prefix area @ CHR ''/'' # path) op)"
proof -
  have uniq: "area' = area" if "area' \<in> set tokenScopeAreas" "(op, k) \<in> set (sa_ops area')" for area' op
    using that area by (auto simp: tokenScopeAreas_def cap_defs)
  have pre: "sa_prefix area \<noteq> []" "CHR ''/'' \<notin> set (sa_prefix area)" "sa_prefix area \<noteq> ''*''" "sa_prefix area \<noteq> ''**''"
    using area by (auto simp: tokenScopeAreas_def)
  have left: "trim_left_func (\<lambda>c. c = CHR ''/'') path = path"
    using assms(3) by (auto simp: area_path_def trim_left_func_def dropWhile_eq_self_iff)
  have "path \<noteq> []" using assms(3) by (simp add: area_path_def)
  from token_allows_iff [OF this, of scopes k dm, unfolded left]
  have "Has (fst (tokenReport scopes)) k \<and> Allows dm (snd (tokenReport scopes)) k path \<longleftrightarrow>
      (\<exists>sc\<in>set scopes. \<exists>op. (op, k) \<in> set (sa_ops area) \<and> containsOperation (ts_Operations sc) op \<and>
        (\<exists>p. scopePatternFor (trim_slash (ts_Path sc)) (sa_prefix area) = Some p \<and> (p = [] \<or> dm p path)))"
    unfolding token_grants_iff using uniq area(1) by blast
  also have "\<dots> \<longleftrightarrow> (\<exists>sc\<in>set scopes. \<exists>op. (op, k) \<in> set (sa_ops area) \<and> containsOperation (ts_Operations sc) op \<and>
        matchPath (ts_Path sc) (sa_prefix area @ CHR ''/'' # path))"
    using scope_pattern_agrees [OF assms(1) _ assms(3) pre] assms(2) by (intro bex_cong) simp_all
  finally show ?thesis unfolding TokenScopesAllow_def list_ex_iff by blast
qed

section \<open>The agreement at work\<close>

fun unescape :: "string \<Rightarrow> string" where
  "unescape [] = []"
| "unescape [c] = [c]"
| "unescape (c # d # cs) = (if c = CHR 0x5C then d # unescape cs else c # unescape (d # cs))"

lemma unescape_escape [simp]: "unescape (escapeGlobMeta s) = s"
proof (induction s)
  case (Cons c s)
  have "c \<noteq> CHR 0x5C \<Longrightarrow> unescape (c # t) = c # unescape t" for t by (cases t) auto
  with Cons show ?case by (cases "glob_meta c") (auto simp: glob_meta_def)
qed simp

text \<open>A matcher that reads an escaped pattern segment by segment.\<close>

definition plain_matcher :: matcher where
  "plain_matcher p q = matchPathParts (map unescape (split_on CHR ''/'' p)) (split_on CHR ''/'' q)"

lemma slash_escape: "CHR ''/'' \<notin> set s \<Longrightarrow> CHR ''/'' \<notin> set (escapeGlobMeta s)"
  by (induction s) (auto simp: glob_meta_def)

lemma plain_matcher_ok: "segment_matcher plain_matcher"
proof -
  let ?f = "\<lambda>seg. if seg = ''*'' \<or> seg = ''**'' then seg else escapeGlobMeta seg"
  have "map unescape (split_on CHR ''/'' (normalizeScopePath p)) = split_on CHR ''/'' p" for p
  proof -
    have "CHR ''/'' \<notin> set x" if "x \<in> set (map ?f (split_on CHR ''/'' p))" for x
      using that split_on_no_sep slash_escape by (fastforce split: if_splits)
    then have "split_on CHR ''/'' (normalizeScopePath p) = map ?f (split_on CHR ''/'' p)"
      unfolding normalizeScopePath_def by (intro split_join) simp_all
    then show ?thesis by (simp add: map_idI)
  qed
  then show ?thesis by (simp add: segment_matcher_def plain_matcher_def)
qed

theorem token_caps_agree_witness:
  "let scopes = [\<lparr>ts_Path = ''registry/team/my*/**'', ts_Operations = [''read'']\<rparr>]
   in Has (fst (tokenReport scopes)) CapRegistryRead \<and>
      Allows plain_matcher (snd (tokenReport scopes)) CapRegistryRead ''team/my*/v1'' \<and>
      \<not> Allows plain_matcher (snd (tokenReport scopes)) CapRegistryRead ''team/mylib/v1''"
proof -
  let ?scopes = "[\<lparr>ts_Path = ''registry/team/my*/**'', ts_Operations = [''read'']\<rparr>]"
  let ?area = "\<lparr>sa_prefix = ''registry'', sa_ops = [(''read'', CapRegistryRead), (''write'', CapRegistryWrite),
        (''delete'', CapRegistryDelete)]\<rparr>"
  have c: "\<forall>sc\<in>set ?scopes. plain_scope (ts_Path sc)" "area_path ''team/my*/v1''" "area_path ''team/mylib/v1''"
    "TokenScopesAllow ?scopes ''registry/team/my*/v1'' ''read''" "\<not> TokenScopesAllow ?scopes ''registry/team/mylib/v1'' ''read''"
    "Has (fst (tokenReport ?scopes)) CapRegistryRead" by code_simp+
  have a: "?area \<in> set tokenScopeAreas" "CapRegistryRead \<in> snd ` set (sa_ops ?area)" by (simp_all add: tokenScopeAreas_def)
  have "(op, CapRegistryRead) \<in> set (sa_ops ?area) \<longleftrightarrow> op = ''read''" for op by (auto simp: cap_defs)
  then show ?thesis
    using token_caps_agree [OF plain_matcher_ok c(1,2) a] token_caps_agree [OF plain_matcher_ok c(1,3) a] c(4-6)
    by simp
qed

text \<open>
  A leading \<open>**\<close> grants everything.  A token with the scope \<open>**/secret\<close> may, by the scope matcher,
  touch only paths that end in \<open>secret\<close>; the capability projection gives it the whole data plane
  without any pattern, whatever the glob matcher does.
\<close>

theorem leading_double_star_unrestricted:
  "let scopes = [\<lparr>ts_Path = ''**/secret'', ts_Operations = [''read'']\<rparr>]
   in \<not> TokenScopesAllow scopes ''raw/disk/other'' ''read'' \<and> \<not> TokenScopesAllow scopes ''registry/ns/repo'' ''read'' \<and>
      fst (tokenReport scopes) = [CapRawRead, CapRegistryRead] \<and>
      (\<forall>dm path. Allows dm (snd (tokenReport scopes)) CapRawRead path \<and> Allows dm (snd (tokenReport scopes)) CapRegistryRead path)"
proof -
  let ?scopes = "[\<lparr>ts_Path = ''**/secret'', ts_Operations = [''read'']\<rparr>]"
  have "snd (tokenReport ?scopes) CapRawRead = []" "snd (tokenReport ?scopes) CapRegistryRead = []"
    "\<not> TokenScopesAllow ?scopes ''raw/disk/other'' ''read''" "\<not> TokenScopesAllow ?scopes ''registry/ns/repo'' ''read''"
    "fst (tokenReport ?scopes) = [CapRawRead, CapRegistryRead]" by code_simp+
  then show ?thesis by (simp add: Let_def Allows_def)
qed

section \<open>The life of a token\<close>

text \<open>
  The life of a token.  The raw key of a new token authenticates from the start and until its expiry,
  answers forbidden once the token is disabled and unauthorized once it is deleted, and no step
  changes what any other key authenticates as.
\<close>

theorem token_lifecycle:
  assumes new: "CreateToken hk table rid rkey name scopes expires actor = (table', Ok (t, raw))"
    and fresh: "\<forall>u\<in>set table. tk_HashedKey u \<noteq> hk raw \<and> tk_ID u \<noteq> rid"
  shows "AuthenticateToken hk table' now raw =
      (if \<exists>e. expires = Some e \<and> now > e then Err TokForbidden else Ok t) \<and>
    (pr_Active req = Some False \<and> PatchToken table' rid req = (table2, None) \<longrightarrow>
      AuthenticateToken hk table2 now raw = Err TokForbidden) \<and>
    AuthenticateToken hk (DeleteToken table' rid) now raw = Err TokUnauthorized \<and>
    (\<forall>k. hk k \<noteq> hk raw \<longrightarrow> AuthenticateToken hk table' now k = AuthenticateToken hk table now k \<and>
      AuthenticateToken hk (DeleteToken table' rid) now k = AuthenticateToken hk table now k)"
proof (intro conjI allI impI; (elim conjE)?)
  have t: "table' = table @ [t]" "tk_ID t = rid" "tk_HashedKey t = hk raw" "tk_Active t" "tk_ExpiresAt t = expires"
    using new by (auto simp: CreateToken_def Let_def split: if_splits)
  have none: "find (\<lambda>u. tk_HashedKey u = hk raw) table = None" "find (\<lambda>u. tk_ID u = rid) table = None"
    using fresh by (auto intro: find_none)
  have del: "DeleteToken table' rid = table" using fresh t by (auto simp: DeleteToken_def intro: filter_True)
  show "AuthenticateToken hk table' now raw = (if \<exists>e. expires = Some e \<and> now > e then Err TokForbidden else Ok t)"
    using t by (simp add: AuthenticateToken_def find_append none usable_def split: option.splits)
  show "AuthenticateToken hk (DeleteToken table' rid) now raw = Err TokUnauthorized"
    by (simp add: del AuthenticateToken_def none)
  show "AuthenticateToken hk table2 now raw = Err TokForbidden"
    if "pr_Active req = Some False" "PatchToken table' rid req = (table2, None)"
  proof -
    have "map (\<lambda>u. if tk_ID u = rid then patch_token req u else u) table = table"
      using fresh by (auto intro: map_idI)
    then have "table2 = table @ [patch_token req t]"
      using that t by (auto simp: PatchToken_def find_append none split: if_splits)
    then show ?thesis using that(1) t by (simp add: AuthenticateToken_def find_append none usable_def patch_token_def)
  qed
  fix k assume k: "hk k \<noteq> hk raw"
  show "AuthenticateToken hk table' now k = AuthenticateToken hk table now k"
    using k t by (simp add: AuthenticateToken_def find_append split: option.splits)
  show "AuthenticateToken hk (DeleteToken table' rid) now k = AuthenticateToken hk table now k" by (simp add: del)
qed

theorem token_lifecycle_witness:
  "let sc = [\<lparr>ts_Path = ''**'', ts_Operations = [''read'']\<rparr>];
       (table, r) = CreateToken rev [] ''1'' ''key'' ''ci'' sc (Some 100) ''admin''
   in map_sum id tk_Name (AuthenticateToken rev table 100 ''kutu_key'') = Ok ''ci'' \<and>
      AuthenticateToken rev table 101 ''kutu_key'' = Err TokForbidden"
proof -
  let ?sc = "[\<lparr>ts_Path = ''**'', ts_Operations = [''read'']\<rparr>]"
  let ?t = "\<lparr>tk_ID = ''1'', tk_Name = ''ci'', tk_HashedKey = rev ''kutu_key'', tk_Scopes = ?sc, tk_CreatedBy = ''admin'',
     tk_ExpiresAt = Some 100, tk_Active = True\<rparr>"
  have new: "CreateToken rev [] ''1'' ''key'' ''ci'' ?sc (Some 100) ''admin'' = ([?t], Ok (?t, ''kutu_key''))" by code_simp
  have f: "\<forall>u\<in>set []. tk_HashedKey u \<noteq> rev ''kutu_key'' \<and> tk_ID u \<noteq> ''1''" by simp
  show ?thesis using conjunct1 [OF token_lifecycle [OF new f, of 100]] conjunct1 [OF token_lifecycle [OF new f, of 101]]
    by (simp add: new Let_def del: rev.simps)
qed

end
