(* ===== verification/Cap_Resolver.thy ===== *)
theory Cap_Resolver
  imports Token_Scopes Json
begin

text \<open>
  Who may do what: \<open>internal/service/oidc_roles.go\<close> (roles from identity-provider claims),
  \<open>internal/server/authx/caps.go\<close> (capability resolution) and \<open>internal/server/authx/principal.go\<close>.
  A failing database read is \<open>None\<close>.
\<close>

section \<open>Roles from claims\<close>

definition splitPath :: "string \<Rightarrow> string list" where
  "splitPath path = filter (\<lambda>s. s \<noteq> []) (map trim_space (split_on CHR ''.'' path))"

definition rolesFromLeaf :: "json \<Rightarrow> string list" where
  "rolesFromLeaf v = (case v of
     JArr xs \<Rightarrow> List.map_filter (\<lambda>x. case x of JStr s \<Rightarrow> if s \<noteq> [] then Some s else None | _ \<Rightarrow> None) xs
   | JStr s \<Rightarrow> str_fields s
   | _ \<Rightarrow> [])"

text \<open>\<open>walkClaimPath\<close> with the roles it emits, in order.\<close>

fun walkClaimPath :: "json \<Rightarrow> string list \<Rightarrow> string list" where
  "walkClaimPath node [] = rolesFromLeaf node"
| "walkClaimPath (JObj kvs) (seg # rest) =
     (if seg = ''*'' then concat (map (\<lambda>kv. walkClaimPath (snd kv) rest) kvs)
      else case map_of kvs seg of None \<Rightarrow> [] | Some v \<Rightarrow> walkClaimPath v rest)"
| "walkClaimPath node (seg # rest) = []"

definition HarvestRoles :: "(string \<times> json) list \<Rightarrow> string list \<Rightarrow> string list" where
  "HarvestRoles claims paths =
     (if claims = [] \<or> paths = [] then []
      else fold (\<lambda>p out. let segs = splitPath p
                 in if segs = [] then out
                    else add_new out (filter (\<lambda>r. r \<noteq> []) (walkClaimPath (JObj claims) segs))) paths [])"

section \<open>Resolution\<close>

text \<open>The identity a login left behind.  The token scopes travel in a claim of their own type, kept apart here.\<close>

record identity =
  id_Subject :: string
  id_Provider :: string
  id_Roles :: "string list"
  id_Scopes :: "string list"
  id_Claims :: "(string \<times> json) list"
  id_TokenScopes :: "token_scope list"

text \<open>The claim a key holds when it is a string: \<open>identity.Claim[string]\<close>.\<close>

definition claim_string :: "identity \<Rightarrow> string \<Rightarrow> string" where
  "claim_string ident key = (case map_of (id_Claims ident) key of Some (JStr s) \<Rightarrow> s | _ \<Rightarrow> [])"

definition UserIDClaim :: string where "UserIDClaim = ''kutu_user_id''"

abbreviation id_UserID :: "identity \<Rightarrow> string" where "id_UserID ident \<equiv> claim_string ident UserIDClaim"

definition TokenProvider :: string where "TokenProvider = ''apikey''"

record service_view =
  sv_user :: "string \<Rightarrow> user_row option"
  sv_user_permissions :: "string \<Rightarrow> permission list option"
  sv_permissions :: "permission list option"

record cap_resolver =
  cr_svc :: "service_view option"
  cr_Superadmins :: "string list"
  cr_RoleMapping :: "string \<Rightarrow> string list"
  cr_ScopeMapping :: "string \<Rightarrow> string list"
  cr_rolePaths :: "string \<Rightarrow> string list"

datatype source_kind = KSuperadmin | KDbBundle string | KRole string string | KScope string string | KToken

type_synonym cap_source = "string \<times> source_kind"

record effective_report =
  er_Username :: string
  er_UserID :: string
  er_Superadmin :: bool
  er_Roles :: "string list"
  er_Scopes :: "string list"
  er_Capabilities :: "string list"
  er_Patterns :: patterns
  er_Sources :: "cap_source list"
  er_Denied :: "string list"

definition effectiveRoles :: "cap_resolver \<Rightarrow> identity \<Rightarrow> string list" where
  "effectiveRoles r ident =
     (let paths = cr_rolePaths r (id_Provider ident)
      in if paths = [] then id_Roles ident
         else let harvested = HarvestRoles (id_Claims ident) paths
              in if harvested = [] then id_Roles ident
                 else if id_Roles ident = [] then harvested
                 else add_new (add_new [] (filter (\<lambda>x. x \<noteq> []) (id_Roles ident))) (filter (\<lambda>x. x \<noteq> []) harvested))"

definition mappedPermissionKeys :: "cap_resolver \<Rightarrow> string list \<Rightarrow> string list \<Rightarrow> string list" where
  "mappedPermissionKeys r roles scopes =
     fold (\<lambda>sc out. add_new out (filter (\<lambda>k. k \<noteq> []) (cr_ScopeMapping r sc))) scopes
       (fold (\<lambda>role out. add_new out (filter (\<lambda>k. k \<noteq> []) (cr_RoleMapping r role))) roles [])"

definition subtractDenied :: "string list \<Rightarrow> patterns \<Rightarrow> string list \<Rightarrow> string list \<times> patterns" where
  "subtractDenied keys pats denied =
     (if denied = [] then (keys, pats)
      else (filter (\<lambda>k. k \<notin> set denied) keys, (\<lambda>k. if k \<in> set denied then [] else pats k)))"

definition superadminSources :: "string list \<Rightarrow> cap_source list" where
  "superadminSources keys = map (\<lambda>k. (k, KSuperadmin)) keys"

text \<open>Sources through a mapping; \<open>byKey\<close> keeps the last bundle of a key, as assigning into a map does.\<close>

definition mapped_sources ::
  "(string \<Rightarrow> string \<Rightarrow> source_kind) \<Rightarrow> (string \<Rightarrow> string list) \<Rightarrow> permission list \<Rightarrow> string list \<Rightarrow> cap_source list" where
  "mapped_sources kind mapping mb names = concat (map (\<lambda>n. concat (map (\<lambda>bk.
     case find (\<lambda>p. pm_Key p = bk) (rev mb) of None \<Rightarrow> []
     | Some p \<Rightarrow> map (\<lambda>k. (k, kind n (pm_Key p))) (pm_Keys p)) (mapping n))) names)"

definition loaded_user :: "cap_resolver \<Rightarrow> identity \<Rightarrow> user_row option" where
  "loaded_user r ident = (case cr_svc r of None \<Rightarrow> None
     | Some sv \<Rightarrow> if id_UserID ident = [] then None else sv_user sv (id_UserID ident))"

definition db_bundles :: "cap_resolver \<Rightarrow> user_row option \<Rightarrow> permission list" where
  "db_bundles r user = (case (cr_svc r, user) of
     (Some sv, Some u) \<Rightarrow> (case sv_user_permissions sv (us_ID u) of None \<Rightarrow> [] | Some ps \<Rightarrow> ps)
   | _ \<Rightarrow> [])"

definition mapped_bundles :: "cap_resolver \<Rightarrow> string list \<Rightarrow> string list \<Rightarrow> permission list" where
  "mapped_bundles r roles scopes = (case cr_svc r of None \<Rightarrow> []
     | Some sv \<Rightarrow>
         if roles = [] \<and> scopes = [] then []
         else (case sv_permissions sv of None \<Rightarrow> []
               | Some table \<Rightarrow> PermissionsByKeys table (mappedPermissionKeys r roles scopes)))"

definition token_report_of :: "identity \<Rightarrow> effective_report" where
  "token_report_of ident = (case tokenReport (id_TokenScopes ident) of (caps, pats) \<Rightarrow>
     \<lparr>er_Username = id_Subject ident, er_UserID = [], er_Superadmin = False, er_Roles = [], er_Scopes = id_Scopes ident,
      er_Capabilities = caps, er_Patterns = pats, er_Sources = map (\<lambda>k. (k, KToken)) caps, er_Denied = []\<rparr>)"

definition resolveDetailed :: "cap_resolver \<Rightarrow> identity \<Rightarrow> effective_report" where
  "resolveDetailed r ident =
     (if id_Provider ident = TokenProvider then token_report_of ident
      else let user = loaded_user r ident;
               denied = (case user of None \<Rightarrow> [] | Some u \<Rightarrow> us_Denied u);
               roles = effectiveRoles r ident;
               rep = \<lparr>er_Username = (case user of None \<Rightarrow> id_Subject ident | Some u \<Rightarrow> us_Username u),
                      er_UserID = id_UserID ident, er_Superadmin = False, er_Roles = roles, er_Scopes = id_Scopes ident,
                      er_Capabilities = [], er_Patterns = (\<lambda>_. []), er_Sources = [], er_Denied = denied\<rparr>
           in if list_ex (\<lambda>a. a = id_Subject ident) (cr_Superadmins r) then
                rep\<lparr>er_Superadmin := True, er_Capabilities := KnownCapabilityKeys,
                    er_Sources := superadminSources KnownCapabilityKeys\<rparr>
              else if (case user of None \<Rightarrow> False | Some u \<Rightarrow> us_IsSuperadmin u) then
                rep\<lparr>er_Superadmin := True, er_Sources := superadminSources KnownCapabilityKeys,
                    er_Capabilities := fst (subtractDenied KnownCapabilityKeys (\<lambda>_. []) denied)\<rparr>
              else let dbB = db_bundles r user;
                       mb = mapped_bundles r roles (id_Scopes ident);
                       sources = concat (map (\<lambda>p. map (\<lambda>k. (k, KDbBundle (pm_Key p))) (pm_Keys p)) dbB)
                         @ mapped_sources KRole (cr_RoleMapping r) mb roles
                         @ mapped_sources KScope (cr_ScopeMapping r) mb (id_Scopes ident)
                   in (case CapabilitiesFromBundles (dbB @ mb) of (keys, pats) \<Rightarrow>
                       (case subtractDenied keys pats denied of (keys', pats') \<Rightarrow>
                         rep\<lparr>er_Capabilities := keys', er_Patterns := pats', er_Sources := sources\<rparr>)))"

section \<open>Principals\<close>

datatype principal_kind = KindUser | KindToken

record principal =
  pr_Kind :: principal_kind
  pr_ID :: string
  pr_Username :: string
  pr_Caps :: "string list"
  pr_Patterns :: patterns

definition principal_allows :: "matcher \<Rightarrow> principal option \<Rightarrow> string \<Rightarrow> string \<Rightarrow> bool" where
  "principal_allows dm p capKey path = (case p of None \<Rightarrow> False
     | Some p \<Rightarrow> Has (pr_Caps p) capKey \<and> Allows dm (pr_Patterns p) capKey path)"

definition ResolveIdentity :: "cap_resolver \<Rightarrow> identity \<Rightarrow> principal" where
  "ResolveIdentity r ident = (let rep = resolveDetailed r ident
     in \<lparr>pr_Kind = (if id_Provider ident = TokenProvider then KindToken else KindUser),
         pr_ID = (if id_Provider ident = TokenProvider then claim_string ident ''token_id'' else er_UserID rep),
         pr_Username = er_Username rep, pr_Caps = er_Capabilities rep, pr_Patterns = er_Patterns rep\<rparr>)"

definition local_identity :: "user_row \<Rightarrow> identity" where
  "local_identity u = \<lparr>id_Subject = us_Username u, id_Provider = ''local'', id_Roles = [], id_Scopes = [],
     id_Claims = [(UserIDClaim, JStr (us_ID u))], id_TokenScopes = []\<rparr>"

text \<open>\<open>PrincipalForUser\<close> reads the user with \<open>GetUserByID\<close> and resolves a local identity for it.\<close>

definition PrincipalForUser :: "cap_resolver \<Rightarrow> string \<Rightarrow> principal option" where
  "PrincipalForUser r uid = (case cr_svc r of None \<Rightarrow> None
     | Some sv \<Rightarrow> (case sv_user sv uid of None \<Rightarrow> None
         | Some u \<Rightarrow> if us_Disabled u then None else Some (ResolveIdentity r (local_identity u))))"

definition flatOps :: "token_scope list \<Rightarrow> string list" where
  "flatOps scopes = fold (\<lambda>sc out. add_new out (ts_Operations sc)) scopes []"

definition token_identity :: "token \<Rightarrow> identity" where
  "token_identity t = \<lparr>id_Subject = tk_Name t, id_Provider = TokenProvider, id_Roles = [],
     id_Scopes = map ts_Path (tk_Scopes t), id_Claims = [(''token_id'', JStr (tk_ID t)), (''operations'', JArr (map JStr (flatOps (tk_Scopes t))))],
     id_TokenScopes = tk_Scopes t\<rparr>"

definition PrincipalForToken ::
  "(string \<Rightarrow> string) \<Rightarrow> cap_resolver \<Rightarrow> token list \<Rightarrow> unix_time \<Rightarrow> string \<Rightarrow> token_error + principal" where
  "PrincipalForToken hk r table now raw = (case AuthenticateToken hk table now raw of
     Inl e \<Rightarrow> Err e | Inr t \<Rightarrow> Ok (ResolveIdentity r (token_identity t)))"

definition PrincipalForTokenID :: "cap_resolver \<Rightarrow> token list \<Rightarrow> unix_time \<Rightarrow> string \<Rightarrow> principal option" where
  "PrincipalForTokenID r table now tid = (case TokenIdentityByID table now tid of
     Inl _ \<Rightarrow> None | Inr t \<Rightarrow> Some (ResolveIdentity r (token_identity t)))"

section \<open>Facts\<close>

lemma set_mappedPermissionKeys: "k \<in> set (mappedPermissionKeys r roles scopes) \<longleftrightarrow> k \<noteq> [] \<and>
    ((\<exists>role\<in>set roles. k \<in> set (cr_RoleMapping r role)) \<or> (\<exists>sc\<in>set scopes. k \<in> set (cr_ScopeMapping r sc)))"
  unfolding mappedPermissionKeys_def set_fold_add_new by auto

lemma PermissionsByKeys_iff: "p \<in> set (PermissionsByKeys table keys) \<longleftrightarrow> p \<in> set table \<and> pm_Key p \<in> set keys \<and> pm_Key p \<noteq> []"
  by (auto simp: PermissionsByKeys_def Let_def filter_empty_conv)

lemma mapped_bundles_iff: "p \<in> set (mapped_bundles r roles scopes) \<longleftrightarrow>
    (\<exists>sv table. cr_svc r = Some sv \<and> sv_permissions sv = Some table \<and> p \<in> set table \<and>
      pm_Key p \<in> set (mappedPermissionKeys r roles scopes))"
proof -
  have "mappedPermissionKeys r [] [] = []" by (simp add: mappedPermissionKeys_def)
  show ?thesis
  proof (cases "cr_svc r")
    case (Some sv)
    then show ?thesis
      using \<open>mappedPermissionKeys r [] [] = []\<close>
      by (cases "sv_permissions sv"; cases "roles = [] \<and> scopes = []")
        (auto simp: mapped_bundles_def PermissionsByKeys_iff set_mappedPermissionKeys)
  qed (simp add: mapped_bundles_def)
qed

lemma bundle_keys_eq: "fst (CapabilitiesFromBundles bs) = bundle_keys bs"
  by (simp add: CapabilitiesFromBundles_def)

lemma subtractDenied_iff: "k \<in> set (fst (subtractDenied keys pats denied)) \<longleftrightarrow> k \<in> set keys \<and> k \<notin> set denied"
  "snd (subtractDenied keys pats denied) k = (if k \<in> set denied then [] else pats k)"
  by (auto simp: subtractDenied_def)

text \<open>The report of an ordinary user: the bundles the database and the mappings grant, less what is denied.\<close>

definition user_denied :: "cap_resolver \<Rightarrow> identity \<Rightarrow> string list" where
  "user_denied r ident = (case loaded_user r ident of None \<Rightarrow> [] | Some u \<Rightarrow> us_Denied u)"

definition user_bundles :: "cap_resolver \<Rightarrow> identity \<Rightarrow> permission list" where
  "user_bundles r ident = db_bundles r (loaded_user r ident) @
     mapped_bundles r (effectiveRoles r ident) (id_Scopes ident)"

definition ordinary :: "cap_resolver \<Rightarrow> identity \<Rightarrow> bool" where
  "ordinary r ident \<longleftrightarrow> id_Provider ident \<noteq> TokenProvider \<and> id_Subject ident \<notin> set (cr_Superadmins r) \<and>
     \<not> (case loaded_user r ident of None \<Rightarrow> False | Some u \<Rightarrow> us_IsSuperadmin u)"

lemma resolve_ordinary:
  assumes "ordinary r ident"
  shows "er_Capabilities (resolveDetailed r ident) =
      fst (subtractDenied (bundle_keys (user_bundles r ident)) (snd (CapabilitiesFromBundles (user_bundles r ident))) (user_denied r ident))"
    and "er_Patterns (resolveDetailed r ident) =
      snd (subtractDenied (bundle_keys (user_bundles r ident)) (snd (CapabilitiesFromBundles (user_bundles r ident))) (user_denied r ident))"
    and "\<not> er_Superadmin (resolveDetailed r ident)"
    and "er_Sources (resolveDetailed r ident) =
      concat (map (\<lambda>p. map (\<lambda>k. (k, KDbBundle (pm_Key p))) (pm_Keys p)) (db_bundles r (loaded_user r ident)))
      @ mapped_sources KRole (cr_RoleMapping r) (mapped_bundles r (effectiveRoles r ident) (id_Scopes ident)) (effectiveRoles r ident)
      @ mapped_sources KScope (cr_ScopeMapping r) (mapped_bundles r (effectiveRoles r ident) (id_Scopes ident)) (id_Scopes ident)"
proof -
  have sa: "\<not> list_ex (\<lambda>a. a = id_Subject ident) (cr_Superadmins r)" using assms by (auto simp: ordinary_def list_ex_iff)
  have eq: "resolveDetailed r ident =
     (let sources = concat (map (\<lambda>p. map (\<lambda>k. (k, KDbBundle (pm_Key p))) (pm_Keys p)) (db_bundles r (loaded_user r ident)))
        @ mapped_sources KRole (cr_RoleMapping r) (mapped_bundles r (effectiveRoles r ident) (id_Scopes ident)) (effectiveRoles r ident)
        @ mapped_sources KScope (cr_ScopeMapping r) (mapped_bundles r (effectiveRoles r ident) (id_Scopes ident)) (id_Scopes ident);
      sub = subtractDenied (bundle_keys (user_bundles r ident)) (snd (CapabilitiesFromBundles (user_bundles r ident))) (user_denied r ident)
     in \<lparr>er_Username = (case loaded_user r ident of None \<Rightarrow> id_Subject ident | Some u \<Rightarrow> us_Username u),
         er_UserID = id_UserID ident, er_Superadmin = False, er_Roles = effectiveRoles r ident, er_Scopes = id_Scopes ident,
         er_Capabilities = fst sub, er_Patterns = snd sub, er_Sources = sources, er_Denied = user_denied r ident\<rparr>)"
    using assms sa
    by (simp add: resolveDetailed_def ordinary_def Let_def user_bundles_def user_denied_def bundle_keys_eq case_prod_beta)
  show "er_Capabilities (resolveDetailed r ident) =
      fst (subtractDenied (bundle_keys (user_bundles r ident)) (snd (CapabilitiesFromBundles (user_bundles r ident))) (user_denied r ident))"
    "er_Patterns (resolveDetailed r ident) =
      snd (subtractDenied (bundle_keys (user_bundles r ident)) (snd (CapabilitiesFromBundles (user_bundles r ident))) (user_denied r ident))"
    "\<not> er_Superadmin (resolveDetailed r ident)"
    "er_Sources (resolveDetailed r ident) =
      concat (map (\<lambda>p. map (\<lambda>k. (k, KDbBundle (pm_Key p))) (pm_Keys p)) (db_bundles r (loaded_user r ident)))
      @ mapped_sources KRole (cr_RoleMapping r) (mapped_bundles r (effectiveRoles r ident) (id_Scopes ident)) (effectiveRoles r ident)
      @ mapped_sources KScope (cr_ScopeMapping r) (mapped_bundles r (effectiveRoles r ident) (id_Scopes ident)) (id_Scopes ident)"
    unfolding eq by (simp_all only: Let_def effective_report.select_convs not_False_eq_True)
qed

lemma bundles_allow_mono: "set ps \<subseteq> set qs \<Longrightarrow> bundles_allow dm ps k path \<Longrightarrow> bundles_allow dm qs k path"
  unfolding bundles_allow_iff unrestricted_iff by blast

lemma ordinary_allows:
  assumes "ordinary r ident"
  shows "principal_allows dm (Some (ResolveIdentity r ident)) k path \<longleftrightarrow>
    k \<notin> set (user_denied r ident) \<and> bundles_allow dm (user_bundles r ident) k path"
  using assms
  by (auto simp: principal_allows_def ResolveIdentity_def Let_def resolve_ordinary subtractDenied_iff Allows_def
      bundles_allow_def bundle_keys_eq)

lemma mapped_source_iff:
  assumes "\<forall>p\<in>set mb. \<forall>q\<in>set mb. pm_Key p = pm_Key q \<longrightarrow> p = q"
  shows "(\<exists>kd. (k, kd) \<in> set (mapped_sources kind mapping mb names)) \<longleftrightarrow>
    (\<exists>p\<in>set mb. k \<in> set (pm_Keys p) \<and> (\<exists>n\<in>set names. pm_Key p \<in> set (mapping n)))"
proof -
  have g: "find (\<lambda>q. pm_Key q = bk) (rev mb) = Some p \<Longrightarrow> p \<in> set mb \<and> pm_Key p = bk" for bk p
    using find_someD [of _ "rev mb" p] by force
  have f: "find (\<lambda>q. pm_Key q = pm_Key p) (rev mb) = Some p" if "p \<in> set mb" for p
  proof (cases "find (\<lambda>q. pm_Key q = pm_Key p) (rev mb)")
    case None
    with that show ?thesis by (auto simp: find_None_iff)
  next
    case (Some q)
    with g [OF Some] that assms show ?thesis by auto
  qed
  show ?thesis
  proof
    assume "\<exists>kd. (k, kd) \<in> set (mapped_sources kind mapping mb names)"
    then show "\<exists>p\<in>set mb. k \<in> set (pm_Keys p) \<and> (\<exists>n\<in>set names. pm_Key p \<in> set (mapping n))"
      by (auto simp: mapped_sources_def split: option.splits dest!: g g [OF sym])
  next
    assume "\<exists>p\<in>set mb. k \<in> set (pm_Keys p) \<and> (\<exists>n\<in>set names. pm_Key p \<in> set (mapping n))"
    then obtain p n where pn: "p \<in> set mb" "k \<in> set (pm_Keys p)" "n \<in> set names" "pm_Key p \<in> set (mapping n)" by blast
    then have "(k, kind n (pm_Key p)) \<in> set (mapped_sources kind mapping mb names)"
      unfolding mapped_sources_def using f [OF pn(1)] pn(2)
      by (auto intro!: bexI [OF _ pn(3)] bexI [OF _ pn(4)])
    then show "\<exists>kd. (k, kd) \<in> set (mapped_sources kind mapping mb names)" by blast
  qed
qed

section \<open>Properties\<close>

text \<open>
  C8: what an ordinary user may do.  For a user who is no superadmin, a capability on a path is allowed
  exactly when it is not on the user's deny list and the bundles the database assigns together with the
  bundles the roles and scopes map to allow it; nothing else counts.
\<close>

theorem resolve_exact:
  assumes "id_Provider ident \<noteq> TokenProvider" "id_Subject ident \<notin> set (cr_Superadmins r)"
    "loaded_user r ident = Some u" "\<not> us_IsSuperadmin u"
  shows "principal_allows dm (Some (ResolveIdentity r ident)) k path \<longleftrightarrow> k \<notin> set (us_Denied u) \<and>
    bundles_allow dm (db_bundles r (Some u) @ mapped_bundles r (effectiveRoles r ident) (id_Scopes ident)) k path"
  using assms ordinary_allows [of r ident] by (simp add: ordinary_def user_denied_def user_bundles_def)

definition demo_user :: "string list \<Rightarrow> user_row" where
  "demo_user denied = \<lparr>us_ID = ''7'', us_Username = ''root'', us_IsSuperadmin = False, us_Disabled = False,
     us_Denied = denied, us_Permissions = []\<rparr>"

definition demo_resolver :: "user_row \<Rightarrow> permission list \<Rightarrow> cap_resolver" where
  "demo_resolver u ps = \<lparr>cr_svc = Some \<lparr>sv_user = (\<lambda>i. if i = us_ID u then Some u else None),
       sv_user_permissions = (\<lambda>_. Some []), sv_permissions = Some ps\<rparr>,
     cr_Superadmins = [''root''], cr_RoleMapping = (\<lambda>role. if role = ''dev'' then [''team''] else []),
     cr_ScopeMapping = (\<lambda>_. []), cr_rolePaths = (\<lambda>_. [])\<rparr>"

definition demo_identity :: "string \<Rightarrow> identity" where
  "demo_identity sub = \<lparr>id_Subject = sub, id_Provider = ''oidc'', id_Roles = [''dev''], id_Scopes = [],
     id_Claims = [(UserIDClaim, JStr ''7'')], id_TokenScopes = []\<rparr>"

theorem resolve_exact_witness:
  "let r = demo_resolver (demo_user [CapRegistryRead]) [scoped_bundle ''team'' [CapRawRead, CapRegistryRead] [''a'']]
   in principal_allows (=) (Some (ResolveIdentity r (demo_identity ''sub-1''))) CapRawRead ''a'' \<and>
      \<not> principal_allows (=) (Some (ResolveIdentity r (demo_identity ''sub-1''))) CapRegistryRead ''a''"
proof -
  let ?b = "[scoped_bundle ''team'' [CapRawRead, CapRegistryRead] [''a'']]"
  let ?u = "demo_user [CapRegistryRead]"
  let ?r = "demo_resolver ?u ?b" and ?i = "demo_identity ''sub-1''"
  have h: "id_Provider ?i \<noteq> TokenProvider" "id_Subject ?i \<notin> set (cr_Superadmins ?r)" "loaded_user ?r ?i = Some ?u"
    "\<not> us_IsSuperadmin ?u"
    by (simp_all add: demo_identity_def demo_resolver_def demo_user_def TokenProvider_def loaded_user_def claim_string_def)
  have "bundles_allow (=) (db_bundles ?r (Some ?u) @ mapped_bundles ?r (effectiveRoles ?r ?i) (id_Scopes ?i)) CapRawRead ''a''"
    by code_simp
  then show ?thesis
    using resolve_exact [OF h, of "(=)" CapRawRead "''a''"] resolve_exact [OF h, of "(=)" CapRegistryRead "''a''"]
    by (simp add: Let_def demo_user_def cap_defs)
qed

text \<open>
  C9: the deny list wins.  Whatever grants a capability (bundles, roles, scopes or the superadmin column),
  a user whose subject is not on the operator's allowlist does not hold a denied capability; a subject
  on the allowlist holds every known capability, denied or not.
\<close>

theorem denied_wins:
  assumes "id_Provider ident \<noteq> TokenProvider" "loaded_user r ident = Some u"
  shows "if id_Subject ident \<in> set (cr_Superadmins r)
    then \<forall>k\<in>set KnownCapabilityKeys. principal_allows dm (Some (ResolveIdentity r ident)) k path
    else \<forall>k\<in>set (us_Denied u). \<not> principal_allows dm (Some (ResolveIdentity r ident)) k path"
proof (cases "id_Subject ident \<in> set (cr_Superadmins r)")
  case True
  then have "er_Capabilities (resolveDetailed r ident) = KnownCapabilityKeys" "er_Patterns (resolveDetailed r ident) = (\<lambda>_. [])"
    using assms(1) by (auto simp: resolveDetailed_def Let_def list_ex_iff)
  with True show ?thesis by (simp add: principal_allows_def ResolveIdentity_def Let_def Allows_def)
next
  case False
  show ?thesis
  proof (cases "us_IsSuperadmin u")
    case True
    have "er_Capabilities (resolveDetailed r ident) = fst (subtractDenied KnownCapabilityKeys (\<lambda>_. []) (us_Denied u))"
      using assms True False by (auto simp: resolveDetailed_def Let_def list_ex_iff)
    with False show ?thesis by (auto simp: principal_allows_def ResolveIdentity_def Let_def subtractDenied_iff)
  next
    case us: False
    then have "ordinary r ident" using assms False by (simp add: ordinary_def)
    with False show ?thesis using assms(2) by (auto simp: ordinary_allows user_denied_def)
  qed
qed

theorem denied_wins_witness:
  "\<not> principal_allows (=) (Some (ResolveIdentity (demo_resolver ((demo_user [CapRawRead])\<lparr>us_IsSuperadmin := True\<rparr>) [])
      (demo_identity ''sub-1''))) CapRawRead ''a''"
proof -
  let ?u = "(demo_user [CapRawRead])\<lparr>us_IsSuperadmin := True\<rparr>"
  have h: "id_Provider (demo_identity ''sub-1'') \<noteq> TokenProvider" "loaded_user (demo_resolver ?u []) (demo_identity ''sub-1'') = Some ?u"
    by (simp_all add: demo_identity_def demo_resolver_def demo_user_def TokenProvider_def loaded_user_def claim_string_def)
  show ?thesis using denied_wins [OF h] by (simp add: demo_resolver_def demo_identity_def demo_user_def)
qed

text \<open>
  Every capability has a source.  When no two permission rows share a key, the effective capabilities
  of an ordinary user are exactly those the report names a source for, less the denied ones, and
  nobody who is not reported as a superadmin has a superadmin source.
\<close>

theorem provenance_complete:
  assumes "ordinary r ident"
    and keys: "\<And>sv table. cr_svc r = Some sv \<Longrightarrow> sv_permissions sv = Some table \<Longrightarrow>
      \<forall>p\<in>set table. \<forall>q\<in>set table. pm_Key p = pm_Key q \<longrightarrow> p = q"
  shows "(Has (er_Capabilities (resolveDetailed r ident)) k \<longleftrightarrow>
      k \<notin> set (user_denied r ident) \<and> (\<exists>kd. (k, kd) \<in> set (er_Sources (resolveDetailed r ident)))) \<and>
    (k, KSuperadmin) \<notin> set (er_Sources (resolveDetailed r ident))"
proof

  let ?roles = "effectiveRoles r ident" and ?scopes = "id_Scopes ident"
  let ?mb = "mapped_bundles r ?roles ?scopes"
  have inj: "\<forall>p\<in>set ?mb. \<forall>q\<in>set ?mb. pm_Key p = pm_Key q \<longrightarrow> p = q"
    using keys by (auto simp: mapped_bundles_iff)
  have cover: "p \<in> set ?mb \<Longrightarrow> (\<exists>n\<in>set ?roles. pm_Key p \<in> set (cr_RoleMapping r n)) \<or>
      (\<exists>n\<in>set ?scopes. pm_Key p \<in> set (cr_ScopeMapping r n))" for p
    by (auto simp: mapped_bundles_iff set_mappedPermissionKeys)
  have "(\<exists>kd. (k, kd) \<in> set (er_Sources (resolveDetailed r ident))) \<longleftrightarrow>
      (\<exists>p\<in>set (db_bundles r (loaded_user r ident)). k \<in> set (pm_Keys p)) \<or>
      (\<exists>kd. (k, kd) \<in> set (mapped_sources KRole (cr_RoleMapping r) ?mb ?roles)) \<or>
      (\<exists>kd. (k, kd) \<in> set (mapped_sources KScope (cr_ScopeMapping r) ?mb ?scopes))"
    by (auto simp: resolve_ordinary [OF assms(1)])
  also have "\<dots> \<longleftrightarrow> (\<exists>p\<in>set (user_bundles r ident). k \<in> set (pm_Keys p))"
    unfolding mapped_source_iff [OF inj] user_bundles_def set_append bex_Un using cover by blast
  finally show "Has (er_Capabilities (resolveDetailed r ident)) k \<longleftrightarrow>
      k \<notin> set (user_denied r ident) \<and> (\<exists>kd. (k, kd) \<in> set (er_Sources (resolveDetailed r ident)))"
    by (auto simp: resolve_ordinary [OF assms(1)] subtractDenied_iff set_bundle_keys)
  show "(k, KSuperadmin) \<notin> set (er_Sources (resolveDetailed r ident))"
    by (auto simp: resolve_ordinary [OF assms(1)] mapped_sources_def split: option.splits)
qed

theorem provenance_complete_witness:
  "let r = demo_resolver (demo_user [CapRegistryRead]) [scoped_bundle ''team'' [CapRawRead, CapRegistryRead] []]
   in Has (er_Capabilities (resolveDetailed r (demo_identity ''sub-1''))) CapRawRead"
proof -
  let ?r = "demo_resolver (demo_user [CapRegistryRead]) [scoped_bundle ''team'' [CapRawRead, CapRegistryRead] []]"
  let ?i = "demo_identity ''sub-1''"
  have o: "ordinary ?r ?i" by code_simp
  have k: "\<And>sv table. cr_svc ?r = Some sv \<Longrightarrow> sv_permissions sv = Some table \<Longrightarrow>
      \<forall>p\<in>set table. \<forall>q\<in>set table. pm_Key p = pm_Key q \<longrightarrow> p = q"
    by (auto simp: demo_resolver_def)
  have "list_ex (\<lambda>(c, kd). c = CapRawRead) (er_Sources (resolveDetailed ?r ?i))" "CapRawRead \<notin> set (user_denied ?r ?i)"
    by code_simp+
  then show ?thesis using provenance_complete [OF o k, where k = CapRawRead] by (auto simp: list_ex_iff)
qed

text \<open>
  C21: an API token never becomes an administrator.  Whatever its operator named it, an accepted token
  is a token principal whose capabilities are data-plane ones decided by its scopes alone: the
  allowlist, the role mappings and the users of the server do not matter.
\<close>

theorem token_principal_confined:
  assumes "PrincipalForToken hk r table now raw = Ok p"
  shows "pr_Kind p = KindToken \<and> set (pr_Caps p) \<subseteq> set data_caps \<and>
    (\<exists>t\<in>set table. tk_HashedKey t = hk raw \<and> tk_Active t \<and> (\<forall>e. tk_ExpiresAt t = Some e \<longrightarrow> now \<le> e) \<and>
      pr_Caps p = fst (tokenReport (tk_Scopes t)) \<and> pr_Patterns p = snd (tokenReport (tk_Scopes t))) \<and>
    PrincipalForToken hk r' table now raw = Ok p"
proof -
  obtain t where t: "AuthenticateToken hk table now raw = Inr t" "p = ResolveIdentity r (token_identity t)"
    using assms by (auto simp: PrincipalForToken_def split: sum.splits)
  then have u: "t \<in> set table" "tk_HashedKey t = hk raw" "tk_Active t" "\<forall>e. tk_ExpiresAt t = Some e \<longrightarrow> now \<le> e"
    by (auto simp: AuthenticateToken_def usable_def split: option.splits if_splits dest!: find_someD find_someD [OF sym])
  have p: "ResolveIdentity r0 (token_identity t) = \<lparr>pr_Kind = KindToken, pr_ID = tk_ID t, pr_Username = tk_Name t,
      pr_Caps = fst (tokenReport (tk_Scopes t)), pr_Patterns = snd (tokenReport (tk_Scopes t))\<rparr>" for r0
    by (simp add: ResolveIdentity_def resolveDetailed_def token_identity_def token_report_of_def Let_def claim_string_def split: prod.split)
  have "set (fst (tokenReport (tk_Scopes t))) \<subseteq> set data_caps" by (rule tokenReport_data_caps)
  with t u p show ?thesis by (auto simp: PrincipalForToken_def)
qed

theorem token_principal_confined_witness:
  "let t = \<lparr>tk_ID = ''1'', tk_Name = ''root'', tk_HashedKey = rev ''kutu_k'', tk_Scopes = [\<lparr>ts_Path = ''**'', ts_Operations = [''*'']\<rparr>],
         tk_CreatedBy = ''root'', tk_ExpiresAt = None, tk_Active = True\<rparr>
   in \<exists>p. PrincipalForToken rev (demo_resolver (demo_user []) []) [t] 0 ''kutu_k'' = Ok p \<and> CapUsersManage \<notin> set (pr_Caps p)"
proof -
  let ?t = "\<lparr>tk_ID = ''1'', tk_Name = ''root'', tk_HashedKey = rev ''kutu_k'', tk_Scopes = [\<lparr>ts_Path = ''**'', ts_Operations = [''*'']\<rparr>],
         tk_CreatedBy = ''root'', tk_ExpiresAt = None, tk_Active = True\<rparr>"
  have "AuthenticateToken rev [?t] 0 ''kutu_k'' = Ok ?t" by code_simp
  then obtain p where p: "PrincipalForToken rev (demo_resolver (demo_user []) []) [?t] 0 ''kutu_k'' = Ok p"
    by (simp add: PrincipalForToken_def del: rev.simps)
  have "CapUsersManage \<notin> set data_caps" by code_simp
  then have "CapUsersManage \<notin> set (pr_Caps p)" using token_principal_confined [OF p] by blast
  with p show ?thesis by (auto simp: Let_def simp del: rev.simps)
qed

lemma local_ordinary:
  assumes "cr_svc r = Some sv" "sv_user sv (us_ID u) = Some u" "us_ID u \<noteq> []" "us_Username u \<notin> set (cr_Superadmins r)"
    "\<not> us_IsSuperadmin u" "cr_rolePaths r ''local'' = []"
  shows "ordinary r (local_identity u)" "user_denied r (local_identity u) = us_Denied u"
    "user_bundles r (local_identity u) = db_bundles r (Some u)"
proof -
  have l: "loaded_user r (local_identity u) = Some u" using assms by (simp add: loaded_user_def local_identity_def claim_string_def)
  have e: "effectiveRoles r (local_identity u) = []"
    using assms by (simp add: effectiveRoles_def local_identity_def)
  show "ordinary r (local_identity u)" "user_denied r (local_identity u) = us_Denied u"
    "user_bundles r (local_identity u) = db_bundles r (Some u)"
    using assms l e by (auto simp: ordinary_def user_denied_def user_bundles_def local_identity_def TokenProvider_def
        mapped_bundles_def)
qed

text \<open>
  A registry bearer token holds no more than the session it was minted from.  When the user's name is
  not on the allowlist, whatever the principal rebuilt from the user id may do on a path, a login of
  that user may do as well.
\<close>

theorem bearer_within_session:
  assumes svc: "cr_svc r = Some sv" "sv_user sv uid = Some u" "us_ID u = uid" "uid \<noteq> []"
    and name: "us_Username u \<notin> set (cr_Superadmins r)" "cr_rolePaths r ''local'' = []"
    and login: "id_Provider ident \<noteq> TokenProvider" "id_UserID ident = uid"
    and may: "PrincipalForUser r uid = Some p" "principal_allows dm (Some p) k path"
  shows "principal_allows dm (Some (ResolveIdentity r ident)) k path \<or>
    (id_Subject ident \<in> set (cr_Superadmins r) \<and> k \<notin> set KnownCapabilityKeys)"
proof (cases "id_Subject ident \<in> set (cr_Superadmins r)")
  case True
  have "er_Capabilities (resolveDetailed r ident) = KnownCapabilityKeys" "er_Patterns (resolveDetailed r ident) = (\<lambda>_. [])"
    using login True by (auto simp: resolveDetailed_def Let_def list_ex_iff)
  then show ?thesis using True by (auto simp: principal_allows_def ResolveIdentity_def Let_def Allows_def)
next
  case False
  have u: "p = ResolveIdentity r (local_identity u)" using svc may by (simp add: PrincipalForUser_def split: if_splits)
  have lu: "loaded_user r ident = Some u" using svc login by (simp add: loaded_user_def)
  show ?thesis
  proof (cases "us_IsSuperadmin u")
    case True
    let ?c = "fst (subtractDenied KnownCapabilityKeys (\<lambda>_. []) (us_Denied u))"
    have "loaded_user r (local_identity u) = Some u"
      using svc by (simp add: loaded_user_def local_identity_def claim_string_def)
    then have "er_Capabilities (resolveDetailed r (local_identity u)) = ?c" "er_Capabilities (resolveDetailed r ident) = ?c"
      "er_Patterns (resolveDetailed r ident) = (\<lambda>_. [])"
      using True False lu login name by (auto simp: resolveDetailed_def Let_def list_ex_iff local_identity_def TokenProvider_def)
    with may u show ?thesis by (simp add: principal_allows_def ResolveIdentity_def Let_def Allows_def)
  next
    case us: False
    then have "ordinary r ident" using lu login False by (simp add: ordinary_def)
    note o = ordinary_allows [OF this]
    have l: "ordinary r (local_identity u)" "user_denied r (local_identity u) = us_Denied u"
      "user_bundles r (local_identity u) = db_bundles r (Some u)"
      using local_ordinary [of r sv u] svc name us by simp_all
    have "k \<notin> set (us_Denied u) \<and> bundles_allow dm (db_bundles r (Some u)) k path"
      using may u ordinary_allows [OF l(1)] l by simp
    then show ?thesis
      using bundles_allow_mono [of "db_bundles r (Some u)" "user_bundles r ident"] lu
      by (simp add: o user_denied_def user_bundles_def)
  qed
qed

theorem bearer_within_session_witness:
  "let r = (demo_resolver (demo_user []) [])\<lparr>cr_Superadmins := [],
         cr_svc := Some \<lparr>sv_user = (\<lambda>_. Some (demo_user [])), sv_user_permissions = (\<lambda>_. Some [scoped_bundle ''b'' [CapRawRead] []]),
           sv_permissions = None\<rparr>\<rparr>
   in principal_allows (=) (Some (ResolveIdentity r (demo_identity ''sub-1''))) CapRawRead ''a''"
proof -
  let ?sv = "\<lparr>sv_user = (\<lambda>_. Some (demo_user [])), sv_user_permissions = (\<lambda>_. Some [scoped_bundle ''b'' [CapRawRead] []]),
           sv_permissions = None\<rparr>"
  let ?r = "(demo_resolver (demo_user []) [])\<lparr>cr_Superadmins := [], cr_svc := Some ?sv\<rparr>"
  let ?i = "demo_identity ''sub-1''"
  obtain p where p: "PrincipalForUser ?r ''7'' = Some p"
    by (simp add: PrincipalForUser_def demo_user_def)
  then have "p = ResolveIdentity ?r (local_identity (demo_user []))" by (simp add: PrincipalForUser_def demo_user_def)
  moreover have "principal_allows (=) (Some (ResolveIdentity ?r (local_identity (demo_user [])))) CapRawRead ''a''" by code_simp
  ultimately have m: "principal_allows (=) (Some p) CapRawRead ''a''" by simp
  have h: "cr_svc ?r = Some ?sv" "sv_user ?sv ''7'' = Some (demo_user [])" "us_ID (demo_user []) = ''7''" "''7'' \<noteq> []"
    "us_Username (demo_user []) \<notin> set (cr_Superadmins ?r)" "cr_rolePaths ?r ''local'' = []"
    "id_Provider ?i \<noteq> TokenProvider" "id_UserID ?i = ''7''"
    by (simp_all add: demo_user_def demo_resolver_def demo_identity_def TokenProvider_def claim_string_def)
  show ?thesis using bearer_within_session [OF h p m] by (simp add: Let_def)
qed

text \<open>
  The hypothesis on the name is needed.  A user an identity provider signed in under a subject that is
  not on the allowlist, but whose database name is, is no superadmin in the session and becomes one
  in the registry bearer token minted from it.
\<close>

theorem bearer_escalates:
  "let r = demo_resolver (demo_user []) []; session = ResolveIdentity r (demo_identity ''sub-1'')
   in pr_Caps session = [] \<and> pr_ID session = ''7'' \<and>
      map_option pr_Caps (PrincipalForUser r (pr_ID session)) = Some KnownCapabilityKeys"
  by code_simp

end
