(* ===== verification/Users.thy ===== *)
theory Users
  imports Go_Prelude
begin

text \<open>
  User accounts: \<open>internal/service/auth.go\<close>, \<open>password.go\<close> and \<open>external_user.go\<close> over the tables of
  \<open>internal/storage/auth_store.go\<close>.  bcrypt is a parameter: \<open>bc_hash\<close> hashes (\<open>None\<close> when it refuses, as it
  does for long passwords), \<open>bc_check\<close> compares, \<open>bc_cost\<close> reads the cost of a hash.  Fresh ids, the time
  and whether the second write of an operation fails are arguments.
\<close>

section \<open>Tables\<close>

record account =
  ac_ID :: string
  ac_Username :: string
  ac_PasswordHash :: string
  ac_Email :: string
  ac_DisplayName :: string
  ac_External :: bool
  ac_Disabled :: bool
  ac_IsSuperadmin :: bool
  ac_Denied :: "string list"
  ac_CreatedAt :: unix_time

record identity_link =
  il_ID :: string
  il_UserID :: string
  il_Provider :: string
  il_Subject :: string
  il_Email :: string
  il_DisplayName :: string

text \<open>Sessions are pairs of a session id and a user id.\<close>

record user_db =
  ud_users :: "account list"
  ud_links :: "identity_link list"
  ud_sessions :: "(string \<times> string) list"

datatype user_error = UBadRequest | UConflict | UNotFound | UUnauthorized | UForbidden | UStore

record bcrypt =
  bc_hash :: "string \<Rightarrow> string option"
  bc_check :: "string \<Rightarrow> string \<Rightarrow> bool"
  bc_cost :: "string \<Rightarrow> nat option"

definition getBy :: "(account \<Rightarrow> string) \<Rightarrow> user_db \<Rightarrow> string \<Rightarrow> user_error + account" where
  "getBy col db val = (if val = [] then Err UNotFound
     else case find (\<lambda>u. col u = val) (ud_users db) of None \<Rightarrow> Err UNotFound | Some u \<Rightarrow> Ok u)"

definition Users_Get :: "user_db \<Rightarrow> string \<Rightarrow> user_error + account" where
  "Users_Get = getBy ac_ID"

definition GetByUsername :: "user_db \<Rightarrow> string \<Rightarrow> user_error + account" where
  "GetByUsername = getBy ac_Username"

definition GetByEmail :: "user_db \<Rightarrow> string \<Rightarrow> user_error + account" where
  "GetByEmail = getBy ac_Email"

definition Users_Create :: "user_db \<Rightarrow> account \<Rightarrow> user_db \<times> user_error option" where
  "Users_Create db u =
     (if list_ex (\<lambda>v. ac_ID v = ac_ID u \<or> ac_Username v = ac_Username u) (ud_users db) then (db, Some UConflict)
      else (db\<lparr>ud_users := ud_users db @ [u]\<rparr>, None))"

text \<open>The update leaves the deny overlay and the creation time of the row alone.\<close>

definition set_columns :: "account \<Rightarrow> account \<Rightarrow> account" where
  "set_columns u v = u\<lparr>ac_Denied := ac_Denied v, ac_CreatedAt := ac_CreatedAt v\<rparr>"

definition Users_Update :: "user_db \<Rightarrow> account \<Rightarrow> user_db \<times> user_error option" where
  "Users_Update db u =
     (if \<not> list_ex (\<lambda>v. ac_ID v = ac_ID u) (ud_users db) then (db, Some UNotFound)
      else if list_ex (\<lambda>v. ac_ID v \<noteq> ac_ID u \<and> ac_Username v = ac_Username u) (ud_users db) then (db, Some UConflict)
      else (db\<lparr>ud_users := map (\<lambda>v. if ac_ID v = ac_ID u then set_columns u v else v) (ud_users db)\<rparr>, None))"

definition Users_Delete :: "user_db \<Rightarrow> string \<Rightarrow> user_db \<times> user_error option" where
  "Users_Delete db uid = (let db' = db\<lparr>ud_sessions := filter (\<lambda>s. snd s \<noteq> uid) (ud_sessions db)\<rparr>
     in if list_ex (\<lambda>v. ac_ID v = uid) (ud_users db)
        then (db'\<lparr>ud_users := filter (\<lambda>v. ac_ID v \<noteq> uid) (ud_users db),
                  ud_links := filter (\<lambda>l. il_UserID l \<noteq> uid) (ud_links db)\<rparr>, None)
        else (db', Some UNotFound))"

definition FindByProviderSubject :: "user_db \<Rightarrow> string \<Rightarrow> string \<Rightarrow> identity_link option" where
  "FindByProviderSubject db provider subject =
     find (\<lambda>l. il_Provider l = provider \<and> il_Subject l = subject) (ud_links db)"

definition Identities_Upsert :: "user_db \<Rightarrow> identity_link \<Rightarrow> user_db" where
  "Identities_Upsert db l =
     (if FindByProviderSubject db (il_Provider l) (il_Subject l) = None then db\<lparr>ud_links := ud_links db @ [l]\<rparr>
      else db\<lparr>ud_links := map (\<lambda>k. if il_Provider k = il_Provider l \<and> il_Subject k = il_Subject l
                then k\<lparr>il_Email := il_Email l, il_DisplayName := il_DisplayName l\<rparr> else k) (ud_links db)\<rparr>)"

section \<open>Local accounts\<close>

definition passwordCost :: nat where "passwordCost = 12"

definition validatePassword :: "string \<Rightarrow> bool" where
  "validatePassword p \<longleftrightarrow> \<not> length p < 8"

definition createUser ::
  "bcrypt \<Rightarrow> user_db \<Rightarrow> string \<Rightarrow> unix_time \<Rightarrow> string \<Rightarrow> string \<Rightarrow> bool \<Rightarrow> user_db \<times> (user_error + account)" where
  "createUser bc db rid now username password superadmin =
     (if username = [] then (db, Err UBadRequest)
      else if \<not> validatePassword password then (db, Err UBadRequest)
      else case bc_hash bc password of None \<Rightarrow> (db, Err UStore)
        | Some h \<Rightarrow> let user = \<lparr>ac_ID = rid, ac_Username = username, ac_PasswordHash = h, ac_Email = [], ac_DisplayName = [],
             ac_External = False, ac_Disabled = False, ac_IsSuperadmin = superadmin, ac_Denied = [], ac_CreatedAt = now\<rparr>
           in (case Users_Create db user of (db', Some e) \<Rightarrow> (db', Err e) | (db', None) \<Rightarrow> (db', Ok user)))"

definition CreateUser where "CreateUser bc db rid now username password = createUser bc db rid now username password False"
definition CreateSetupUser where "CreateSetupUser bc db rid now username password = createUser bc db rid now username password True"

text \<open>\<open>BootstrapFirstUser\<close> is a count followed by a creation; \<open>bootstrap_check\<close> is its first half.\<close>

definition bootstrap_check :: "user_db \<Rightarrow> bool" where
  "bootstrap_check db \<longleftrightarrow> \<not> length (ud_users db) > 0"

definition BootstrapFirstUser ::
  "bcrypt \<Rightarrow> user_db \<Rightarrow> string \<Rightarrow> unix_time \<Rightarrow> string \<Rightarrow> string \<Rightarrow> user_db \<times> (user_error + account)" where
  "BootstrapFirstUser bc db rid now username password =
     (if bootstrap_check db then CreateSetupUser bc db rid now username password else (db, Err UConflict))"

definition rehashIfStale :: "bcrypt \<Rightarrow> user_db \<Rightarrow> account \<Rightarrow> string \<Rightarrow> user_db" where
  "rehashIfStale bc db user plaintext = (case bc_cost bc (ac_PasswordHash user) of None \<Rightarrow> db
     | Some cost \<Rightarrow> if cost \<ge> passwordCost then db
         else (case bc_hash bc plaintext of None \<Rightarrow> db
           | Some newHash \<Rightarrow> fst (Users_Update db (user\<lparr>ac_PasswordHash := newHash\<rparr>))))"

definition Authenticate :: "bcrypt \<Rightarrow> user_db \<Rightarrow> string \<Rightarrow> string \<Rightarrow> user_db \<times> (user_error + account)" where
  "Authenticate bc db username password = (case GetByUsername db username of
     Inl e \<Rightarrow> (db, Err (if e = UNotFound then UUnauthorized else e))
   | Inr user \<Rightarrow>
       if ac_Disabled user then (db, Err UForbidden)
       else if \<not> bc_check bc (ac_PasswordHash user) password then (db, Err UUnauthorized)
       else (rehashIfStale bc db user password, Ok user))"

definition guardLastSuperadmin :: "user_db \<Rightarrow> string \<Rightarrow> user_error option" where
  "guardLastSuperadmin db uid = (case Users_Get db uid of Inl e \<Rightarrow> Some e
     | Inr user \<Rightarrow>
         if \<not> ac_IsSuperadmin user \<or> ac_Disabled user then None
         else if list_ex (\<lambda>u. ac_ID u \<noteq> uid \<and> ac_IsSuperadmin u \<and> \<not> ac_Disabled u) (ud_users db) then None
         else Some UConflict)"

record update_user_request =
  uq_Username :: "string option"
  uq_Password :: "string option"
  uq_Email :: "string option"
  uq_DisplayName :: "string option"
  uq_Disabled :: "bool option"

definition normalizeEmail :: "string \<Rightarrow> string" where
  "normalizeEmail email = to_lower (trim_space email)"

text \<open>The fields a request sets before the guard; the password is hashed first and may be refused.\<close>

definition apply_request :: "bcrypt \<Rightarrow> update_user_request \<Rightarrow> account \<Rightarrow> user_error + account" where
  "apply_request bc req user = (let u = user\<lparr>ac_Username := (case uq_Username req of None \<Rightarrow> ac_Username user | Some n \<Rightarrow> n)\<rparr>;
       rest = (\<lambda>u. Ok (u\<lparr>ac_Email := (case uq_Email req of None \<Rightarrow> ac_Email u | Some e \<Rightarrow> normalizeEmail e),
                         ac_DisplayName := (case uq_DisplayName req of None \<Rightarrow> ac_DisplayName u | Some d \<Rightarrow> d)\<rparr>))
     in case uq_Password req of None \<Rightarrow> rest u
        | Some p \<Rightarrow> if \<not> validatePassword p then Err UBadRequest
            else (case bc_hash bc p of None \<Rightarrow> Err UStore | Some h \<Rightarrow> rest (u\<lparr>ac_PasswordHash := h\<rparr>)))"

definition UpdateUser :: "bcrypt \<Rightarrow> user_db \<Rightarrow> string \<Rightarrow> update_user_request \<Rightarrow> user_db \<times> user_error option" where
  "UpdateUser bc db uid req = (case Users_Get db uid of Inl e \<Rightarrow> (db, Some e)
     | Inr user \<Rightarrow> (case apply_request bc req user of Inl e \<Rightarrow> (db, Some e)
       | Inr u \<Rightarrow>
           let wasDisabled = ac_Disabled user;
               guard = (if uq_Disabled req = Some True \<and> \<not> wasDisabled then guardLastSuperadmin db uid else None)
           in (case guard of Some e \<Rightarrow> (db, Some e)
               | None \<Rightarrow> let u' = (case uq_Disabled req of None \<Rightarrow> u | Some d \<Rightarrow> u\<lparr>ac_Disabled := d\<rparr>)
                   in (case Users_Update db u' of (db', Some e) \<Rightarrow> (db', Some e)
                       | (db', None) \<Rightarrow>
                           ((if \<not> wasDisabled \<and> ac_Disabled u'
                             then db'\<lparr>ud_sessions := filter (\<lambda>s. snd s \<noteq> uid) (ud_sessions db')\<rparr> else db'), None)))))"

definition KickUser :: "user_db \<Rightarrow> string \<Rightarrow> user_db \<times> user_error option" where
  "KickUser db uid = (case Users_Get db uid of Inl e \<Rightarrow> (db, Some e)
     | Inr _ \<Rightarrow> (db\<lparr>ud_sessions := filter (\<lambda>s. snd s \<noteq> uid) (ud_sessions db)\<rparr>, None))"

definition DeleteUser :: "user_db \<Rightarrow> string \<Rightarrow> user_db \<times> user_error option" where
  "DeleteUser db uid = (case guardLastSuperadmin db uid of Some e \<Rightarrow> (db, Some e) | None \<Rightarrow> Users_Delete db uid)"

definition SetUserSuperadmin :: "user_db \<Rightarrow> string \<Rightarrow> bool \<Rightarrow> user_db \<times> user_error option" where
  "SetUserSuperadmin db uid superadmin = (case Users_Get db uid of Inl e \<Rightarrow> (db, Some e)
     | Inr user \<Rightarrow>
         if ac_IsSuperadmin user = superadmin then (db, None)
         else (case (if \<not> superadmin then guardLastSuperadmin db uid else None) of Some e \<Rightarrow> (db, Some e)
           | None \<Rightarrow> Users_Update db (user\<lparr>ac_IsSuperadmin := superadmin\<rparr>)))"

text \<open>The loop that looks for the earliest created user.\<close>

definition earliest_user :: "account \<Rightarrow> account list \<Rightarrow> account" where
  "earliest_user u us = foldl (\<lambda>best v. if ac_CreatedAt v < ac_CreatedAt best then v else best) u us"

definition EnsureSuperadmin :: "user_db \<Rightarrow> user_db \<times> user_error option" where
  "EnsureSuperadmin db = (case ud_users db of [] \<Rightarrow> (db, None)
     | u # us \<Rightarrow>
         if list_ex ac_IsSuperadmin (u # us) then (db, None)
         else Users_Update db ((earliest_user u us)\<lparr>ac_IsSuperadmin := True\<rparr>))"

definition ChangeOwnPassword ::
  "bcrypt \<Rightarrow> user_db \<Rightarrow> string \<Rightarrow> string \<Rightarrow> string \<Rightarrow> string \<Rightarrow> user_db \<times> user_error option" where
  "ChangeOwnPassword bc db uid current nxt keepSessionID =
     (if uid = [] then (db, Some UUnauthorized)
      else case Users_Get db uid of Inl e \<Rightarrow> (db, Some e)
        | Inr user \<Rightarrow>
            if ac_PasswordHash user = [] then (db, Some UForbidden)
            else if \<not> bc_check bc (ac_PasswordHash user) current then (db, Some UUnauthorized)
            else if \<not> validatePassword nxt then (db, Some UBadRequest)
            else (case bc_hash bc nxt of None \<Rightarrow> (db, Some UStore)
              | Some h \<Rightarrow> (case Users_Update db (user\<lparr>ac_PasswordHash := h\<rparr>) of (db', Some e) \<Rightarrow> (db', Some e)
                | (db', None) \<Rightarrow> (db'\<lparr>ud_sessions := filter (\<lambda>s. \<not> (snd s = uid \<and> fst s \<noteq> keepSessionID)) (ud_sessions db')\<rparr>, None))))"

section \<open>External identities\<close>

record external_input =
  ei_Provider :: string
  ei_Subject :: string
  ei_Email :: string
  ei_EmailVerified :: bool
  ei_DisplayName :: string
  ei_Username :: string

definition user_char :: "char \<Rightarrow> bool" where
  "user_char c \<longleftrightarrow> is_lower c \<or> is_digit c \<or> c = CHR ''-'' \<or> c = CHR ''_''"

text \<open>\<open>unicode.IsPrint\<close> on bytes; the bytes of a non-ASCII character count as printable.\<close>

definition is_print :: "char \<Rightarrow> bool" where
  "is_print c \<longleftrightarrow> (32::nat) \<le> of_char c \<and> of_char c \<noteq> (127::nat)"

fun sanitize_loop :: "bool \<Rightarrow> string \<Rightarrow> string" where
  "sanitize_loop lastUnderscore [] = []"
| "sanitize_loop lastUnderscore (c # cs) =
     (if user_char c then c # sanitize_loop False cs
      else if \<not> lastUnderscore \<and> is_print c then CHR ''_'' # sanitize_loop True cs
      else sanitize_loop lastUnderscore cs)"

definition sanitizeUsername :: "string \<Rightarrow> string" where
  "sanitizeUsername s = (let t = trim_space (to_lower s)
     in if t = [] then [] else trim_func (\<lambda>c. c = CHR ''_'' \<or> c = CHR ''-'') (sanitize_loop False t))"

definition emailLocalPart :: "string \<Rightarrow> string" where
  "emailLocalPart email = (case index_byte email CHR ''@'' of None \<Rightarrow> [] | Some at \<Rightarrow> if at \<le> 0 then [] else take at email)"

definition external_base :: "external_input \<Rightarrow> string" where
  "external_base ein = (case find (\<lambda>c. c \<noteq> []) [sanitizeUsername (ei_Username ein),
       sanitizeUsername (emailLocalPart (ei_Email ein)), sanitizeUsername (ei_Provider ein @ CHR '':'' # ei_Subject ein)] of
     None \<Rightarrow> ''user'' | Some c \<Rightarrow> c)"

definition candidate :: "string \<Rightarrow> nat \<Rightarrow> string" where
  "candidate base i = (let c = (if i > 0 then base @ CHR ''_'' # dec_nat (i + 1) else base)
     in if length c > 32 then take 32 c else c)"

fun choose_loop :: "user_db \<Rightarrow> string \<Rightarrow> nat list \<Rightarrow> user_error + string" where
  "choose_loop db base [] = Err UConflict"
| "choose_loop db base (i # is) = (case GetByUsername db (candidate base i) of
     Inl e \<Rightarrow> if e = UNotFound then Ok (candidate base i) else Err e
   | Inr _ \<Rightarrow> choose_loop db base is)"

definition chooseExternalUsername :: "user_db \<Rightarrow> external_input \<Rightarrow> user_error + string" where
  "chooseExternalUsername db ein = choose_loop db (external_base ein) [0..<100]"

text \<open>What the code writes of an identity; \<open>lid\<close> is the id of the row.\<close>

definition link_of :: "string \<Rightarrow> string \<Rightarrow> external_input \<Rightarrow> identity_link" where
  "link_of lid uid ein = \<lparr>il_ID = lid, il_UserID = uid, il_Provider = ei_Provider ein, il_Subject = ei_Subject ein,
     il_Email = normalizeEmail (ei_Email ein), il_DisplayName = ei_DisplayName ein\<rparr>"

definition FindExternalUser ::
  "bool \<Rightarrow> user_db \<Rightarrow> string \<Rightarrow> bool \<Rightarrow> external_input \<Rightarrow> user_db \<times> (user_error + account)" where
  "FindExternalUser linkByEmail db lid fails ein =
     (if ei_Provider ein = [] \<or> ei_Subject ein = [] then (db, Err UBadRequest)
      else let normalizedEmail = normalizeEmail (ei_Email ein)
        in case FindByProviderSubject db (ei_Provider ein) (ei_Subject ein) of
          Some l \<Rightarrow> (case Users_Get db (il_UserID l) of Inl e \<Rightarrow> (db, Err e)
            | Inr user \<Rightarrow>
                if ac_Disabled user then (db, Err UForbidden)
                else ((if fails then db else Identities_Upsert db (link_of (il_ID l) (il_UserID l) ein)), Ok user))
        | None \<Rightarrow>
            if linkByEmail \<and> ei_EmailVerified ein \<and> normalizedEmail \<noteq> [] then
              (case GetByEmail db normalizedEmail of
                 Inr user \<Rightarrow>
                   if ac_Disabled user then (db, Err UForbidden)
                   else if fails then (db, Err UStore)
                   else (Identities_Upsert db (link_of lid (ac_ID user) ein), Ok user)
               | Inl e \<Rightarrow> (db, Err e))
            else (db, Err UNotFound))"

definition FindOrCreateExternalUser ::
  "bool \<Rightarrow> user_db \<Rightarrow> string \<Rightarrow> string \<Rightarrow> unix_time \<Rightarrow> bool \<Rightarrow> external_input \<Rightarrow> user_db \<times> (user_error + account)" where
  "FindOrCreateExternalUser linkByEmail db rid lid now fails ein =
     (case FindExternalUser linkByEmail db lid fails ein of
        (db1, Inr u) \<Rightarrow> (db1, Ok u)
      | (db1, Inl e) \<Rightarrow>
          if e \<noteq> UNotFound then (db1, Err e)
          else (case chooseExternalUsername db1 ein of Inl e' \<Rightarrow> (db1, Err e')
            | Inr username \<Rightarrow>
                let user = \<lparr>ac_ID = rid, ac_Username = username, ac_PasswordHash = [], ac_Email = normalizeEmail (ei_Email ein),
                    ac_DisplayName = ei_DisplayName ein, ac_External = True, ac_Disabled = False, ac_IsSuperadmin = False,
                    ac_Denied = [], ac_CreatedAt = now\<rparr>
                in (case Users_Create db1 user of (db2, Some e') \<Rightarrow> (db2, Err e')
                    | (db2, None) \<Rightarrow>
                        if fails then (db2, Err UStore)
                        else (Identities_Upsert db2 (link_of lid rid ein), Ok user))))"

definition GetUserByIdentity :: "user_db \<Rightarrow> string \<Rightarrow> string \<Rightarrow> user_error + account" where
  "GetUserByIdentity db provider subject =
     (if provider = [] \<or> subject = [] then Err UNotFound
      else case FindByProviderSubject db provider subject of None \<Rightarrow> Err UNotFound | Some l \<Rightarrow> Users_Get db (il_UserID l))"

definition UnlinkUserIdentity :: "user_db \<Rightarrow> string \<Rightarrow> user_db \<times> user_error option" where
  "UnlinkUserIdentity db lid = (if list_ex (\<lambda>l. il_ID l = lid) (ud_links db)
     then (db\<lparr>ud_links := filter (\<lambda>l. il_ID l \<noteq> lid) (ud_links db)\<rparr>, None) else (db, Some UNotFound))"

definition SetUserDeniedCapabilities :: "string list \<Rightarrow> user_db \<Rightarrow> string \<Rightarrow> string list \<Rightarrow> user_db \<times> user_error option" where
  "SetUserDeniedCapabilities known db uid keys = (case Users_Get db uid of Inl e \<Rightarrow> (db, Some e)
     | Inr _ \<Rightarrow> (db\<lparr>ud_users := map (\<lambda>v. if ac_ID v = uid then v\<lparr>ac_Denied := filter (\<lambda>k. k \<in> set known) keys\<rparr> else v) (ud_users db)\<rparr>, None))"

section \<open>Invariant\<close>

definition is_admin :: "account \<Rightarrow> bool" where
  "is_admin u \<longleftrightarrow> ac_IsSuperadmin u \<and> \<not> ac_Disabled u"

definition has_admin :: "user_db \<Rightarrow> bool" where
  "has_admin db \<longleftrightarrow> (\<exists>u\<in>set (ud_users db). is_admin u)"

text \<open>What the keys of the tables enforce.\<close>

definition db_wf :: "user_db \<Rightarrow> bool" where
  "db_wf db \<longleftrightarrow> distinct (map ac_ID (ud_users db)) \<and> distinct (map ac_Username (ud_users db)) \<and>
     [] \<notin> ac_ID ` set (ud_users db) \<and> distinct (map (\<lambda>l. (il_Provider l, il_Subject l)) (ud_links db)) \<and>
     il_UserID ` set (ud_links db) \<subseteq> ac_ID ` set (ud_users db)"

inductive user_step :: "bcrypt \<Rightarrow> user_db \<Rightarrow> user_db \<Rightarrow> bool" for bc where
  step_create: "rid \<noteq> [] \<Longrightarrow> user_step bc db (fst (createUser bc db rid now n p sa))"
| step_bootstrap: "rid \<noteq> [] \<Longrightarrow> user_step bc db (fst (BootstrapFirstUser bc db rid now n p))"
| step_login: "user_step bc db (fst (Authenticate bc db n p))"
| step_update: "user_step bc db (fst (UpdateUser bc db uid req))"
| step_kick: "user_step bc db (fst (KickUser db uid))"
| step_delete: "user_step bc db (fst (DeleteUser db uid))"
| step_superadmin: "user_step bc db (fst (SetUserSuperadmin db uid b))"
| step_ensure: "user_step bc db (fst (EnsureSuperadmin db))"
| step_password: "user_step bc db (fst (ChangeOwnPassword bc db uid cur nxt keep))"
| step_external: "rid \<noteq> [] \<Longrightarrow> user_step bc db (fst (FindOrCreateExternalUser le db rid lid now fails ein))"
| step_find: "user_step bc db (fst (FindExternalUser le db lid fails ein))"
| step_unlink: "user_step bc db (fst (UnlinkUserIdentity db lid))"
| step_denied: "user_step bc db (fst (SetUserDeniedCapabilities known db uid keys))"

abbreviation user_inv :: "user_db \<Rightarrow> bool" where
  "user_inv db \<equiv> db_wf db \<and> has_admin db"

lemma getBy_Ok: "getBy col db val = Ok u \<longleftrightarrow> val \<noteq> [] \<and> find (\<lambda>u. col u = val) (ud_users db) = Some u"
  by (simp add: getBy_def split: option.splits)

lemma getByD: "getBy col db val = Ok u \<Longrightarrow> u \<in> set (ud_users db) \<and> col u = val \<and> val \<noteq> []"
  by (auto simp: getBy_Ok dest: find_someD)

lemmas user_getD = getByD [of ac_ID, folded Users_Get_def] getByD [of ac_Username, folded GetByUsername_def]
  getByD [of ac_Email, folded GetByEmail_def]

lemma create_inv:
  assumes "user_inv db" "ac_ID u \<noteq> []"
  shows "user_inv (fst (Users_Create db u))"
  using assms by (auto simp: Users_Create_def db_wf_def has_admin_def list_ex_iff)

lemma sessions_inv [simp]: "db_wf (db\<lparr>ud_sessions := s\<rparr>) \<longleftrightarrow> db_wf db" "has_admin (db\<lparr>ud_sessions := s\<rparr>) \<longleftrightarrow> has_admin db"
  by (simp_all add: db_wf_def has_admin_def)

lemma map_admin:
  assumes "distinct (map ac_ID us)" "\<exists>v\<in>set us. is_admin v"
    "\<And>v. v \<in> set us \<Longrightarrow> is_admin v \<Longrightarrow> ac_ID v = uid \<Longrightarrow> is_admin (f v) \<or> (\<exists>w\<in>set us. ac_ID w \<noteq> uid \<and> is_admin w)"
  shows "\<exists>v\<in>set (map (\<lambda>v. if ac_ID v = uid then f v else v) us). is_admin v"
proof -
  obtain v where v: "v \<in> set us" "is_admin v" using assms(2) by blast
  show ?thesis
  proof (cases "ac_ID v = uid \<and> is_admin (f v)")
    case False
    then obtain w where "w \<in> set us" "ac_ID w \<noteq> uid" "is_admin w" using v assms(3) by metis
    then show ?thesis by (intro bexI [of _ w]) (auto intro: rev_image_eqI)
  qed (use v in \<open>auto intro!: bexI [of _ "f v"] rev_image_eqI\<close>)
qed

lemma update_wf:
  assumes "db_wf db"
  shows "db_wf (fst (Users_Update db u))"
proof (cases "Users_Update db u")
  case (Pair db' e)
  show ?thesis
  proof (cases e)
    case None
    let ?f = "\<lambda>v. if ac_ID v = ac_ID u then set_columns u v else v"
    have db': "db' = db\<lparr>ud_users := map ?f (ud_users db)\<rparr>"
      and new: "\<forall>v\<in>set (ud_users db). ac_ID v \<noteq> ac_ID u \<longrightarrow> ac_Username v \<noteq> ac_Username u"
      using Pair None by (auto simp: Users_Update_def list_ex_iff split: if_splits)
    have ids: "map ac_ID (map ?f (ud_users db)) = map ac_ID (ud_users db)" by (auto simp: set_columns_def)
    have d: "distinct (map ac_Username (ud_users db))" "distinct (map ac_ID (ud_users db))"
      using assms by (simp_all add: db_wf_def)
    have "inj_on (\<lambda>v. ac_Username (?f v)) (set (ud_users db))"
    proof (rule inj_onI)
      fix v w assume vw: "v \<in> set (ud_users db)" "w \<in> set (ud_users db)" "ac_Username (?f v) = ac_Username (?f w)"
      show "v = w"
        using vw new d by (cases "ac_ID v = ac_ID u"; cases "ac_ID w = ac_ID u") (auto simp: set_columns_def distinct_map inj_on_def)
    qed
    then have names: "distinct (map ac_Username (map ?f (ud_users db)))"
      using d by (simp add: distinct_map comp_def)
    have "ac_ID ` set (map ?f (ud_users db)) = ac_ID ` set (ud_users db)"
      using arg_cong [OF ids, of set] by (simp only: set_map)
    moreover have "ud_users db' = map ?f (ud_users db)" "ud_links db' = ud_links db" by (simp_all add: db')
    ultimately show ?thesis
      using assms names ids by (simp only: Pair fst_conv db_wf_def) simp
  next
    case (Some e')
    then show ?thesis using assms Pair by (auto simp: Users_Update_def split: if_splits)
  qed
qed

lemma update_inv:
  assumes "user_inv db" and keep: "\<And>v. v \<in> set (ud_users db) \<Longrightarrow> ac_ID v = ac_ID u \<Longrightarrow> is_admin v \<Longrightarrow>
    is_admin u \<or> (\<exists>w\<in>set (ud_users db). ac_ID w \<noteq> ac_ID u \<and> is_admin w)"
  shows "user_inv (fst (Users_Update db u))"
proof -
  have "is_admin (set_columns u v) = is_admin u" for v by (simp add: is_admin_def set_columns_def)
  then have "\<exists>v\<in>set (map (\<lambda>v. if ac_ID v = ac_ID u then set_columns u v else v) (ud_users db)). is_admin v"
    using assms map_admin [of "ud_users db" "ac_ID u" "set_columns u"] unfolding has_admin_def db_wf_def by auto
  then have "has_admin (fst (Users_Update db u))"
    using assms(1) by (simp add: Users_Update_def has_admin_def)
  then show ?thesis using update_wf assms(1) by simp
qed

lemma delete_inv:
  assumes "user_inv db" "guardLastSuperadmin db uid = None"
  shows "user_inv (fst (Users_Delete db uid))"
proof -
  obtain user where user: "user \<in> set (ud_users db)" "ac_ID user = uid"
    and other: "is_admin user \<longrightarrow> (\<exists>w\<in>set (ud_users db). ac_ID w \<noteq> uid \<and> is_admin w)"
    using assms(2) by (auto simp: guardLastSuperadmin_def is_admin_def list_ex_iff dest!: user_getD(1) split: sum.splits if_splits)
  obtain v where v: "v \<in> set (ud_users db)" "is_admin v" using assms(1) by (auto simp: has_admin_def)
  have "\<exists>w\<in>set (ud_users db). ac_ID w \<noteq> uid \<and> is_admin w"
  proof (cases "ac_ID v = uid")
    case True
    then have "v = user" using user v assms(1) by (auto simp: db_wf_def distinct_map inj_on_def)
    then show ?thesis using v other by simp
  qed (use v in blast)
  then have "has_admin (fst (Users_Delete db uid))" by (auto simp: Users_Delete_def Let_def has_admin_def)
  moreover have "db_wf (fst (Users_Delete db uid))"
    using assms(1) by (auto simp: Users_Delete_def Let_def db_wf_def distinct_map inj_on_def)
  ultimately show ?thesis by simp
qed

text \<open>An update of a row with its own administrator flags.\<close>

lemma same_flags_inv:
  assumes "user_inv db" "user \<in> set (ud_users db)" "ac_ID u = ac_ID user" "is_admin user \<longrightarrow> is_admin u"
  shows "user_inv (fst (Users_Update db u))"
proof (rule update_inv [OF assms(1)])
  fix v assume "v \<in> set (ud_users db)" "ac_ID v = ac_ID u" "is_admin v"
  moreover from this have "v = user" using assms by (auto simp: db_wf_def distinct_map inj_on_def)
  ultimately show "is_admin u \<or> (\<exists>w\<in>set (ud_users db). ac_ID w \<noteq> ac_ID u \<and> is_admin w)" using assms(4) by simp
qed

text \<open>An update of the row the guard let go.\<close>

lemma guarded_inv:
  assumes "user_inv db" "guardLastSuperadmin db uid = None" "ac_ID u = uid"
  shows "user_inv (fst (Users_Update db u))"
proof (rule update_inv [OF assms(1)])
  fix v assume v: "v \<in> set (ud_users db)" "ac_ID v = ac_ID u" "is_admin v"
  obtain user where user: "Users_Get db uid = Ok user"
    using assms(2) by (auto simp: guardLastSuperadmin_def split: sum.splits)
  then have "v = user" using v user_getD(1) [OF user] assms by (auto simp: db_wf_def distinct_map inj_on_def)
  then show "is_admin u \<or> (\<exists>w\<in>set (ud_users db). ac_ID w \<noteq> ac_ID u \<and> is_admin w)"
    using v user assms by (auto simp: guardLastSuperadmin_def is_admin_def list_ex_iff split: if_splits)
qed

lemma upsert_inv:
  assumes "user_inv db" "il_UserID l \<in> ac_ID ` set (ud_users db)"
  shows "user_inv (Identities_Upsert db l)"
proof -
  let ?g = "\<lambda>k. if il_Provider k = il_Provider l \<and> il_Subject k = il_Subject l
      then k\<lparr>il_Email := il_Email l, il_DisplayName := il_DisplayName l\<rparr> else k"
  have keys: "map (\<lambda>l. (il_Provider l, il_Subject l)) (map ?g ls) = map (\<lambda>l. (il_Provider l, il_Subject l)) ls"
    "il_UserID ` set (map ?g ls) = il_UserID ` set ls" for ls
  proof -
    show "map (\<lambda>l. (il_Provider l, il_Subject l)) (map ?g ls) = map (\<lambda>l. (il_Provider l, il_Subject l)) ls" by auto
    have "map il_UserID (map ?g ls) = map il_UserID ls" by auto
    from arg_cong [OF this, of set] show "il_UserID ` set (map ?g ls) = il_UserID ` set ls" by (simp only: set_map)
  qed
  show ?thesis
  proof (cases "FindByProviderSubject db (il_Provider l) (il_Subject l) = None")
    case True
    then have "\<forall>k\<in>set (ud_links db). \<not> (il_Provider k = il_Provider l \<and> il_Subject k = il_Subject l)"
      by (auto simp: FindByProviderSubject_def find_None_iff)
    then show ?thesis
      using assms True by (auto simp: Identities_Upsert_def db_wf_def has_admin_def)
  next
    case False
    then have "ud_users (Identities_Upsert db l) = ud_users db" "ud_links (Identities_Upsert db l) = map ?g (ud_links db)"
      by (simp_all add: Identities_Upsert_def)
    then show ?thesis
      using assms keys(1) [of "ud_links db"] keys(2) [of "ud_links db"] by (simp only: db_wf_def has_admin_def) simp
  qed
qed

lemma find_external_inv:
  assumes "user_inv db"
  shows "user_inv (fst (FindExternalUser le db lid fails ein))"
proof (cases "FindByProviderSubject db (ei_Provider ein) (ei_Subject ein)")
  case None
  have "user_inv (Identities_Upsert db (link_of lid (ac_ID u) ein))" if "GetByEmail db e = Ok u" for u e
    using upsert_inv [OF assms] user_getD(3) [OF that] by (simp add: link_of_def)
  then show ?thesis
    using assms None by (simp add: FindExternalUser_def Let_def split: sum.split)
next
  case (Some l)
  have "user_inv (Identities_Upsert db (link_of (il_ID l) (il_UserID l) ein))" if "Users_Get db (il_UserID l) = Ok u" for u
  proof -
    have "il_UserID (link_of (il_ID l) (il_UserID l) ein) \<in> ac_ID ` set (ud_users db)"
      using user_getD(1) [OF that] by (auto simp: link_of_def intro: rev_image_eqI)
    then show ?thesis by (rule upsert_inv [OF assms])
  qed
  then show ?thesis
    using assms Some by (simp add: FindExternalUser_def Let_def split: sum.split)
qed

lemma find_or_create_inv:
  assumes "user_inv db" "rid \<noteq> []"
  shows "user_inv (fst (FindOrCreateExternalUser le db rid lid now fails ein))"
proof -
  obtain db1 r where f: "FindExternalUser le db lid fails ein = (db1, r)" by fastforce
  then have inv: "user_inv db1" using find_external_inv [OF assms(1)] by (metis fst_conv)
  have created: "user_inv db2 \<and> user_inv (Identities_Upsert db2 (link_of lid rid ein))"
    if "Users_Create db1 u = (db2, None)" "ac_ID u = rid" for u db2
  proof -
    have "user_inv db2" using create_inv [OF inv, of u] that assms(2) by simp
    moreover have "rid \<in> ac_ID ` set (ud_users db2)" using that by (auto simp: Users_Create_def split: if_splits)
    ultimately show ?thesis using upsert_inv [of db2 "link_of lid rid ein"] by (simp add: link_of_def)
  qed
  have failed: "user_inv db2" if "Users_Create db1 u = (db2, Some e)" for u db2 e
    using that inv by (auto simp: Users_Create_def split: if_splits)
  show ?thesis
    using inv created failed by (simp add: FindOrCreateExternalUser_def f Let_def split: sum.split prod.split option.split)
qed

lemma denied_inv:
  assumes "user_inv db"
  shows "user_inv (db\<lparr>ud_users := map (\<lambda>v. if ac_ID v = uid then v\<lparr>ac_Denied := ks\<rparr> else v) (ud_users db)\<rparr>)"
proof -
  let ?f = "\<lambda>v. if ac_ID v = uid then v\<lparr>ac_Denied := ks\<rparr> else v"
  let ?db = "db\<lparr>ud_users := map ?f (ud_users db)\<rparr>"
  have cols: "map ac_ID (map ?f us) = map ac_ID us" "map ac_Username (map ?f us) = map ac_Username us"
    "map is_admin (map ?f us) = map is_admin us" for us by (simp_all add: is_admin_def)
  have sets: "ac_ID ` set (map ?f us) = ac_ID ` set us" "is_admin ` set (map ?f us) = is_admin ` set us" for us
    using arg_cong [OF cols(1), of set us] arg_cong [OF cols(3), of set us] by (simp_all only: set_map)
  have "ud_users ?db = map ?f (ud_users db)" "ud_links ?db = ud_links db" by simp_all
  moreover have "has_admin d \<longleftrightarrow> True \<in> is_admin ` set (ud_users d)" for d by (auto simp: has_admin_def)
  ultimately show ?thesis using assms cols sets by (simp only: db_wf_def) simp
qed

lemma step_inv:
  assumes "user_step bc db db'" "user_inv db"
  shows "user_inv db'"
  using assms
proof (induction rule: user_step.induct)
  case (step_create rid db now n p sa)
  then show ?case
    using create_inv [OF step_create.prems]
    by (auto simp: createUser_def Let_def split: option.splits prod.splits) (metis fst_conv account.select_convs(1))+
next
  case (step_bootstrap rid db now n p)
  then show ?case
    using create_inv [OF step_bootstrap.prems]
    by (auto simp: BootstrapFirstUser_def CreateSetupUser_def createUser_def Let_def split: option.splits prod.splits)
      (metis fst_conv account.select_convs(1))+
next
  case (step_login db n p)
  have "user_inv (rehashIfStale bc db u p)" if "GetByUsername db n = Ok u" for u
  proof -
    have "user_inv (fst (Users_Update db (u\<lparr>ac_PasswordHash := h\<rparr>)))" for h
      using same_flags_inv [OF step_login, of u "u\<lparr>ac_PasswordHash := h\<rparr>"] user_getD(2) [OF that] by (simp add: is_admin_def)
    then show ?thesis using step_login by (simp add: rehashIfStale_def split: option.split)
  qed
  then show ?case using step_login by (simp add: Authenticate_def split: sum.split)
next
  case (step_update db uid req)
  show ?case
  proof (cases "Users_Get db uid")
    case (Inr user)
    note user = user_getD(1) [OF Inr]
    show ?thesis
    proof (cases "apply_request bc req user")
      case u: (Inr u)
      then have flags: "ac_ID u = uid" "ac_IsSuperadmin u = ac_IsSuperadmin user" "ac_Disabled u = ac_Disabled user"
        using user by (auto simp: apply_request_def Let_def split: option.splits if_splits)
      define u' where "u' = (case uq_Disabled req of None \<Rightarrow> u | Some d \<Rightarrow> u\<lparr>ac_Disabled := d\<rparr>)"
      have u': "ac_ID u' = uid" "ac_IsSuperadmin u' = ac_IsSuperadmin user"
        "uq_Disabled req \<noteq> Some True \<or> ac_Disabled user \<Longrightarrow> is_admin user \<longrightarrow> is_admin u'"
        using flags by (auto simp: u'_def is_admin_def split: option.splits)
      let ?guard = "if uq_Disabled req = Some True \<and> \<not> ac_Disabled user then guardLastSuperadmin db uid else None"
      have "?guard = None \<Longrightarrow> user_inv (fst (Users_Update db u'))"
        using guarded_inv [OF step_update _ u'(1)] same_flags_inv [OF step_update, of user u'] user u'
        by (metis (no_types, lifting))
      moreover have "fst (UpdateUser bc db uid req) = (if ?guard \<noteq> None then db
          else let db' = fst (Users_Update db u') in
            if snd (Users_Update db u') = None \<and> \<not> ac_Disabled user \<and> ac_Disabled u'
            then db'\<lparr>ud_sessions := filter (\<lambda>s. snd s \<noteq> uid) (ud_sessions db')\<rparr> else db')"
        by (auto simp: UpdateUser_def Inr u Let_def u'_def [symmetric] split: option.splits prod.splits)
      ultimately show ?thesis using step_update by (auto simp: Let_def split: if_splits)
    qed (use step_update Inr in \<open>simp add: UpdateUser_def\<close>)
  qed (use step_update in \<open>simp add: UpdateUser_def\<close>)
next
  case (step_kick db uid)
  then show ?case by (auto simp: KickUser_def split: sum.splits)
next
  case (step_delete db uid)
  then show ?case using delete_inv by (auto simp: DeleteUser_def split: option.splits)
next
  case (step_superadmin db uid b)
  show ?case
  proof (cases "Users_Get db uid")
    case (Inr user)
    then show ?thesis
      using step_superadmin guarded_inv [OF step_superadmin, of uid "user\<lparr>ac_IsSuperadmin := b\<rparr>"]
        same_flags_inv [OF step_superadmin, of user "user\<lparr>ac_IsSuperadmin := b\<rparr>"] user_getD(1) [OF Inr]
      by (auto simp: SetUserSuperadmin_def is_admin_def split: option.splits if_splits)
  qed (use step_superadmin in \<open>simp add: SetUserSuperadmin_def\<close>)
next
  case (step_ensure db)
  have "list_ex ac_IsSuperadmin (ud_users db)" using step_ensure by (auto simp: has_admin_def is_admin_def list_ex_iff)
  then show ?case using step_ensure by (cases "ud_users db") (auto simp: EnsureSuperadmin_def)
next
  case (step_password db uid cur nxt keep)
  show ?case
  proof (cases "Users_Get db uid")
    case (Inr user)
    have "user_inv (fst (Users_Update db (user\<lparr>ac_PasswordHash := h\<rparr>)))" for h
      using same_flags_inv [OF step_password, of user "user\<lparr>ac_PasswordHash := h\<rparr>"] user_getD(1) [OF Inr] by (simp add: is_admin_def)
    then have "user_inv db2" if "Users_Update db (user\<lparr>ac_PasswordHash := h\<rparr>) = (db2, r)" for h db2 r
      using that by (metis fst_conv)
    then show ?thesis using step_password by (auto simp: ChangeOwnPassword_def Inr split: option.splits prod.splits)
  qed (use step_password in \<open>simp add: ChangeOwnPassword_def\<close>)
next
  case (step_external rid db le lid now fails ein)
  then show ?case using find_or_create_inv by blast
next
  case (step_find db le lid fails ein)
  then show ?case using find_external_inv by blast
next
  case (step_unlink db lid)
  then show ?case
    by (auto simp: UnlinkUserIdentity_def db_wf_def has_admin_def distinct_map inj_on_def)
next
  case (step_denied db known uid keys)
  then show ?case using denied_inv [OF step_denied] by (simp add: SetUserDeniedCapabilities_def split: sum.split)
qed

lemma getBy_self:
  assumes "distinct (map col (ud_users db))" "u \<in> set (ud_users db)" "col u \<noteq> []"
  shows "getBy col db (col u) = Ok u"
proof (cases "find (\<lambda>v. col v = col u) (ud_users db)")
  case None
  then show ?thesis using assms by (auto simp: find_None_iff)
next
  case (Some v)
  moreover from this have "v = u" using assms find_someD [OF Some] by (auto simp: distinct_map inj_on_def)
  ultimately show ?thesis using assms by (simp add: getBy_def)
qed

lemma get_self: "db_wf db \<Longrightarrow> u \<in> set (ud_users db) \<Longrightarrow> Users_Get db (ac_ID u) = Ok u"
  unfolding Users_Get_def by (rule getBy_self) (force simp: db_wf_def)+

lemma get_name_self: "db_wf db \<Longrightarrow> u \<in> set (ud_users db) \<Longrightarrow> ac_Username u \<noteq> [] \<Longrightarrow> GetByUsername db (ac_Username u) = Ok u"
  unfolding GetByUsername_def by (rule getBy_self) (force simp: db_wf_def)+

lemma find_upsert: "\<exists>l'. FindByProviderSubject (Identities_Upsert db l) (il_Provider l) (il_Subject l) = Some l' \<and>
    il_UserID l' = (case FindByProviderSubject db (il_Provider l) (il_Subject l) of None \<Rightarrow> il_UserID l | Some k \<Rightarrow> il_UserID k)"
proof (cases "FindByProviderSubject db (il_Provider l) (il_Subject l)")
  case None
  then show ?thesis by (simp add: Identities_Upsert_def FindByProviderSubject_def find_append)
next
  case (Some k)
  let ?P = "\<lambda>k::identity_link. il_Provider k = il_Provider l \<and> il_Subject k = il_Subject l"
  let ?g = "\<lambda>k::identity_link. if ?P k then k\<lparr>il_Email := il_Email l, il_DisplayName := il_DisplayName l\<rparr> else k"
  have "find ?P (map ?g ls) = map_option ?g (find ?P ls)" for ls by (induction ls) auto
  then have "FindByProviderSubject (Identities_Upsert db l) (il_Provider l) (il_Subject l) = Some (?g k)"
    using Some by (simp add: Identities_Upsert_def FindByProviderSubject_def)
  then show ?thesis using Some by simp
qed

lemma upsert_users [simp]: "ud_users (Identities_Upsert db l) = ud_users db"
  by (simp add: Identities_Upsert_def)

lemma get_cong: "ud_users db = ud_users db' \<Longrightarrow> Users_Get db = Users_Get db'"
  by (simp add: Users_Get_def getBy_def fun_eq_iff)

text \<open>A stored link to an enabled user is what the second call finds.\<close>

lemma linked_found:
  assumes "FindByProviderSubject db (ei_Provider ein) (ei_Subject ein) = Some l" "Users_Get db (il_UserID l) = Ok u"
    "\<not> ac_Disabled u" "ei_Provider ein \<noteq> []" "ei_Subject ein \<noteq> []"
  shows "snd (FindOrCreateExternalUser le db rid lid now fails ein) = Ok u"
    "ud_users (fst (FindOrCreateExternalUser le db rid lid now fails ein)) = ud_users db"
  using assms by (simp_all add: FindOrCreateExternalUser_def FindExternalUser_def Let_def)

text \<open>An identity without a link that signs in is linked to an enabled user of the table, old or new.\<close>

lemma created_or_linked:
  assumes wf: "db_wf db" "rid \<noteq> []" and none: "FindByProviderSubject db (ei_Provider ein) (ei_Subject ein) = None"
    and ok: "FindOrCreateExternalUser le db rid lid now fails ein = (db1, Ok u)"
  shows "\<exists>d. db1 = Identities_Upsert d (link_of lid (ac_ID u) ein) \<and> u \<in> set (ud_users d) \<and> db_wf d \<and> \<not> ac_Disabled u \<and>
    ud_links d = ud_links db"
proof (cases "FindExternalUser le db lid fails ein")
  case (Pair d r)
  show ?thesis
  proof (cases r)
    case (Inr v)
    then have "d = Identities_Upsert db (link_of lid (ac_ID v) ein)" "\<not> ac_Disabled v" "v \<in> set (ud_users db)"
      using Pair none by (auto simp: FindExternalUser_def Let_def split: if_splits sum.splits dest: user_getD(3))
    moreover have "db1 = d" "u = v" using ok Pair Inr by (simp_all add: FindOrCreateExternalUser_def)
    ultimately show ?thesis using wf by blast
  next
    case (Inl e)
    then have d: "d = db" using Pair none by (auto simp: FindExternalUser_def Let_def split: if_splits sum.splits)
    obtain db2 where c: "Users_Create db u = (db2, None)" "ac_ID u = rid" "\<not> ac_Disabled u"
      "db1 = Identities_Upsert db2 (link_of lid rid ein)"
      using ok Pair Inl d by (auto simp: FindOrCreateExternalUser_def Let_def split: if_splits sum.splits prod.splits option.splits)
    then have db2: "db2 = db\<lparr>ud_users := ud_users db @ [u]\<rparr>"
      "\<forall>v\<in>set (ud_users db). ac_ID v \<noteq> ac_ID u \<and> ac_Username v \<noteq> ac_Username u"
      by (auto simp: Users_Create_def list_ex_iff split: if_splits)
    then have "db_wf db2" using wf c(2) by (auto simp: db_wf_def)
    with c db2 show ?thesis by auto
  qed
qed

section \<open>Properties\<close>

text \<open>
  C22: the instance always keeps an administrator.  Whatever users, administrators and logins do, one
  operation at a time, the tables stay well formed (unique ids, names and identities, no dangling link)
  and an enabled superadmin remains.
\<close>

theorem admin_never_lost:
  assumes "(user_step bc)\<^sup>*\<^sup>* db db'" "db_wf db" "has_admin db"
  shows "db_wf db' \<and> has_admin db'"
  using assms by (induction rule: rtranclp_induct) (auto dest: step_inv)

definition demo_account :: "string \<Rightarrow> bool \<Rightarrow> account" where
  "demo_account n sa = \<lparr>ac_ID = n, ac_Username = n, ac_PasswordHash = ''h'', ac_Email = [], ac_DisplayName = [],
     ac_External = False, ac_Disabled = False, ac_IsSuperadmin = sa, ac_Denied = [], ac_CreatedAt = 0\<rparr>"

definition demo_db :: "account list \<Rightarrow> user_db" where
  "demo_db us = \<lparr>ud_users = us, ud_links = [], ud_sessions = [(''s'', ''a'')]\<rparr>"

definition demo_bcrypt :: bcrypt where
  "demo_bcrypt = \<lparr>bc_hash = (\<lambda>p. if length p > 72 then None else Some (rev p)), bc_check = (\<lambda>h p. h = rev p), bc_cost = (\<lambda>_. Some 12)\<rparr>"

theorem admin_never_lost_witness:
  "has_admin (fst (DeleteUser (fst (DeleteUser (demo_db [demo_account ''a'' True, demo_account ''b'' True]) ''a'')) ''b''))"
proof -
  let ?db = "demo_db [demo_account ''a'' True, demo_account ''b'' True]"
  have "user_step demo_bcrypt ?db (fst (DeleteUser ?db ''a''))"
    "user_step demo_bcrypt (fst (DeleteUser ?db ''a'')) (fst (DeleteUser (fst (DeleteUser ?db ''a'')) ''b''))"
    by (rule step_delete)+
  then have "(user_step demo_bcrypt)\<^sup>*\<^sup>* ?db (fst (DeleteUser (fst (DeleteUser ?db ''a'')) ''b''))"
    by (rule converse_rtranclp_into_rtranclp [OF _ r_into_rtranclp])
  moreover have "db_wf ?db" "has_admin ?db" by (simp_all add: db_wf_def has_admin_def is_admin_def demo_db_def demo_account_def)
  ultimately show ?thesis using admin_never_lost by blast
qed

text \<open>
  The guards are not atomic.  Two deletions whose checks run before either removal delete the last
  two administrators; two first-user setups whose counts run before either creation both create a
  superadmin.
\<close>

theorem check_then_act_races:
  "(let db = demo_db [demo_account ''a'' True, demo_account ''b'' True]
    in guardLastSuperadmin db ''a'' = None \<and> guardLastSuperadmin db ''b'' = None \<and>
       ud_users (fst (Users_Delete (fst (Users_Delete db ''a'')) ''b'')) = []) \<and>
   (let db = demo_db []; db1 = fst (CreateSetupUser demo_bcrypt db ''1'' 0 ''mallory'' ''password1'')
    in bootstrap_check db \<and>
       map ac_IsSuperadmin (ud_users (fst (CreateSetupUser demo_bcrypt db1 ''2'' 0 ''admin'' ''password2''))) = [True, True])"
  by code_simp

lemma choose_loop_Ok: "choose_loop db base is = Ok n \<Longrightarrow> \<exists>i\<in>set is. n = candidate base i \<and> GetByUsername db n = Err UNotFound"
  by (induction db base "is" rule: choose_loop.induct) (auto split: sum.splits if_splits)

lemma not_found: "GetByUsername db n = Err UNotFound \<Longrightarrow> n \<noteq> [] \<Longrightarrow> n \<notin> ac_Username ` set (ud_users db)"
  by (auto simp: GetByUsername_def getBy_def find_None_iff split: option.splits if_splits)

lemma link_of_sel [simp]: "il_Provider (link_of i uid ein) = ei_Provider ein" "il_Subject (link_of i uid ein) = ei_Subject ein"
  "il_UserID (link_of i uid ein) = uid"
  by (simp_all add: link_of_def)

lemma external_base_nonempty: "external_base ein \<noteq> []"
  by (auto simp: external_base_def split: option.splits dest: find_someD find_someD [OF sym])

text \<open>
  The name of a provisioned user.  A chosen name is new, not empty and at most 32 characters long.
\<close>

theorem external_username_fresh:
  assumes "chooseExternalUsername db ein = Ok n"
  shows "n \<noteq> [] \<and> length n \<le> 32 \<and> n \<notin> ac_Username ` set (ud_users db)"
proof -
  obtain i where i: "n = candidate (external_base ein) i" "GetByUsername db n = Err UNotFound"
    using choose_loop_Ok [OF assms [unfolded chooseExternalUsername_def]] by blast
  have "n \<noteq> []" "length n \<le> 32" using i(1) external_base_nonempty [of ein] by (auto simp: candidate_def Let_def)
  with not_found [OF i(2)] show ?thesis by blast
qed

definition demo_external :: "string \<Rightarrow> external_input" where
  "demo_external n = \<lparr>ei_Provider = ''oidc'', ei_Subject = ''s1'', ei_Email = [], ei_EmailVerified = False, ei_DisplayName = [],
     ei_Username = n\<rparr>"

theorem external_username_fresh_witness:
  "\<exists>n. chooseExternalUsername (demo_db [demo_account ''ann'' False]) (demo_external ''Ann'') = Ok n \<and> n \<noteq> ''ann''"
proof -
  have n: "chooseExternalUsername (demo_db [demo_account ''ann'' False]) (demo_external ''Ann'') = Ok ''ann_2''" by code_simp
  then show ?thesis using external_username_fresh [OF n] by (auto simp: demo_db_def demo_account_def)
qed

text \<open>
  Long names cannot be told apart.  The counter is appended before the name is cut to 32 characters, so
  for a preferred name of 32 characters or more all hundred attempts are the same: once that name is
  taken no further user with it can be provisioned.
\<close>

theorem long_usernames_conflict:
  assumes "length (external_base ein) \<ge> 32" "u \<in> set (ud_users db)" "ac_Username u = take 32 (external_base ein)"
  shows "chooseExternalUsername db ein = Err UConflict"
proof -
  have c: "candidate (external_base ein) i = take 32 (external_base ein)" for i
    using assms(1) by (simp add: candidate_def Let_def)
  have ne: "take 32 (external_base ein) \<noteq> []" using assms(1) by (auto simp: external_base_nonempty)
  have g: "\<exists>v. GetByUsername db (take 32 (external_base ein)) = Ok v"
  proof (cases "find (\<lambda>v. ac_Username v = take 32 (external_base ein)) (ud_users db)")
    case None
    then show ?thesis using assms(2,3) by (auto simp: find_None_iff)
  qed (use ne in \<open>simp add: GetByUsername_def getBy_def\<close>)
  have "choose_loop db (external_base ein) is = Err UConflict" for "is"
    using c g by (induction "is") auto
  then show ?thesis by (simp add: chooseExternalUsername_def)
qed

theorem long_usernames_conflict_witness:
  "chooseExternalUsername (demo_db [demo_account (replicate 32 CHR ''a'') False]) (demo_external (replicate 40 CHR ''a'')) = Err UConflict"
proof (rule long_usernames_conflict)
  have b: "external_base (demo_external (replicate 40 CHR ''a'')) = replicate 40 CHR ''a''" by code_simp
  show "32 \<le> length (external_base (demo_external (replicate 40 CHR ''a'')))" by (simp add: b)
  show "demo_account (replicate 32 CHR ''a'') False \<in> set (ud_users (demo_db [demo_account (replicate 32 CHR ''a'') False]))"
    by (simp add: demo_db_def)
  show "ac_Username (demo_account (replicate 32 CHR ''a'') False) = take 32 (external_base (demo_external (replicate 40 CHR ''a'')))"
    unfolding b by (simp add: demo_account_def numeral_eq_Suc)
qed

text \<open>
  Signing in twice is signing in once.  When an external sign-in returned a user, signing in again with
  the same provider and subject returns that user, whatever the new row ids would be, and adds no user.
\<close>

theorem external_signin_idempotent:
  assumes wf: "db_wf db" "rid \<noteq> []" and ok: "FindOrCreateExternalUser le db rid lid now fails ein = (db1, Ok u)"
  shows "snd (FindOrCreateExternalUser le' db1 rid' lid' now' fails' ein) = Ok u \<and>
    ud_users (fst (FindOrCreateExternalUser le' db1 rid' lid' now' fails' ein)) = ud_users db1"
proof -
  let ?p = "ei_Provider ein" and ?s = "ei_Subject ein"
  have ps: "?p \<noteq> []" "?s \<noteq> []"
    using ok by (auto simp: FindOrCreateExternalUser_def FindExternalUser_def split: if_splits)
  have up: "\<exists>l'. FindByProviderSubject (Identities_Upsert d (link_of i uid ein)) ?p ?s = Some l' \<and>
      il_UserID l' = (case FindByProviderSubject d ?p ?s of None \<Rightarrow> uid | Some k \<Rightarrow> il_UserID k)" for d i uid
    using find_upsert [of d "link_of i uid ein"] by (simp cong: option.case_cong)
  have "\<exists>l. FindByProviderSubject db1 ?p ?s = Some l \<and> Users_Get db1 (il_UserID l) = Ok u \<and> \<not> ac_Disabled u"
  proof (cases "FindByProviderSubject db ?p ?s")
    case (Some l)
    show ?thesis
    proof (cases "Users_Get db (il_UserID l)")
      case (Inr v)
      then have v: "v = u" "\<not> ac_Disabled u" "db1 = db \<or> db1 = Identities_Upsert db (link_of (il_ID l) (il_UserID l) ein)"
        using ok ps Some by (auto simp: FindOrCreateExternalUser_def FindExternalUser_def Let_def split: if_splits)
      then show ?thesis using up [of db "il_ID l" "il_UserID l"] Some Inr get_cong [OF upsert_users] by auto
    next
      case (Inl e)
      have "il_UserID l \<in> ac_ID ` set (ud_users db)"
        using wf(1) find_someD [OF Some [unfolded FindByProviderSubject_def]] by (auto simp: db_wf_def)
      then show ?thesis using get_self [OF wf(1)] Inl by auto
    qed
  next
    case None
    consider d where "db1 = Identities_Upsert d (link_of lid (ac_ID u) ein)" "u \<in> set (ud_users d)" "db_wf d" "\<not> ac_Disabled u"
      "ud_links d = ud_links db"
      using created_or_linked [OF wf None ok] by blast
    then show ?thesis
    proof cases
      case 1
      have "FindByProviderSubject d ?p ?s = None" using None 1(5) by (simp add: FindByProviderSubject_def)
      moreover have "Users_Get db1 (ac_ID u) = Ok u"
        using get_self [OF 1(3,2)] get_cong [of db1 d] by (simp add: 1(1))
      ultimately show ?thesis using up [of d lid "ac_ID u"] 1 by auto
    qed
  qed
  then show ?thesis using linked_found ps by blast
qed

theorem external_signin_idempotent_witness:
  "let (db1, r) = FindOrCreateExternalUser True (demo_db []) ''1'' ''l1'' 0 False (demo_external ''Ann'')
   in snd (FindOrCreateExternalUser True db1 ''2'' ''l2'' 5 False (demo_external ''Ann'')) = r"
proof -
  obtain db1 r where p: "FindOrCreateExternalUser True (demo_db []) ''1'' ''l1'' 0 False (demo_external ''Ann'') = (db1, r)"
    by fastforce
  have "case snd (FindOrCreateExternalUser True (demo_db []) ''1'' ''l1'' 0 False (demo_external ''Ann'')) of Inl _ \<Rightarrow> False | Inr _ \<Rightarrow> True"
    by code_simp
  then obtain u where r: "r = Ok u" unfolding p by (cases r) auto
  have "db_wf (demo_db [])" by (simp add: db_wf_def demo_db_def)
  from external_signin_idempotent [OF this _ p [unfolded r], of True "''2''" "''l2''" 5 False] show ?thesis
    by (simp add: p r)
qed

text \<open>
  A failed link is not healed by a retry.  When the user row of a new external identity was written and
  its link was not, the retry does not find the identity and provisions a second user.
\<close>

theorem failed_link_duplicates:
  "let db1 = fst (FindOrCreateExternalUser True (demo_db []) ''1'' ''l1'' 0 True (demo_external ''Ann''));
       db2 = fst (FindOrCreateExternalUser True db1 ''2'' ''l2'' 0 False (demo_external ''Ann''))
   in map ac_Username (ud_users db2) = [''ann'', ''ann_2''] \<and> map il_UserID (ud_links db2) = [''2'']"
  by code_simp

text \<open>
  Disabling a user takes effect.  A user that was enabled and is disabled by an update has no session
  left, and no password of that user is accepted any more.
\<close>

theorem disable_takes_effect:
  assumes wf: "db_wf db" and user: "Users_Get db uid = Ok user" "\<not> ac_Disabled user" "uq_Disabled req = Some True"
    and upd: "UpdateUser bc db uid req = (db', None)"
  shows "uid \<notin> snd ` set (ud_sessions db') \<and>
    (\<exists>u'. Users_Get db' uid = Ok u' \<and> ac_Disabled u' \<and>
      (ac_Username u' \<noteq> [] \<longrightarrow> Authenticate bc db' (ac_Username u') p = (db', Err UForbidden)))"
proof -
  note in_db = user_getD(1) [OF user(1)]
  obtain u where u: "apply_request bc req user = Ok u" using upd user by (auto simp: UpdateUser_def split: sum.splits)
  then have flags: "ac_ID u = uid" using in_db by (auto simp: apply_request_def Let_def split: option.splits if_splits)
  let ?u = "u\<lparr>ac_Disabled := True\<rparr>"
  obtain db2 where db2: "Users_Update db ?u = (db2, None)" "db' = db2\<lparr>ud_sessions := filter (\<lambda>s. snd s \<noteq> uid) (ud_sessions db2)\<rparr>"
    using upd user u by (auto simp: UpdateUser_def Let_def split: option.splits prod.splits)
  have wf': "db_wf db'" using update_wf [OF wf, of ?u] db2 by simp
  have row: "set_columns ?u user \<in> set (ud_users db')"
    using db2 in_db flags by (auto simp: Users_Update_def split: if_splits intro: rev_image_eqI)
  have sel: "ac_ID (set_columns ?u user) = uid" "ac_Disabled (set_columns ?u user)" using flags by (simp_all add: set_columns_def)
  have "Authenticate bc db' (ac_Username (set_columns ?u user)) p = (db', Err UForbidden)" if "ac_Username (set_columns ?u user) \<noteq> []"
    using get_name_self [OF wf' row that] sel by (simp add: Authenticate_def)
  moreover have "uid \<notin> snd ` set (ud_sessions db')" by (auto simp: db2(2))
  ultimately show ?thesis using get_self [OF wf' row] sel by auto
qed

theorem disable_takes_effect_witness:
  "let (db', e) = UpdateUser demo_bcrypt (demo_db [demo_account ''a'' True, demo_account ''b'' True]) ''a''
     \<lparr>uq_Username = None, uq_Password = None, uq_Email = None, uq_DisplayName = None, uq_Disabled = Some True\<rparr>
   in e = None \<and> ''a'' \<notin> snd ` set (ud_sessions db')"
proof -
  let ?db = "demo_db [demo_account ''a'' True, demo_account ''b'' True]"
  let ?req = "\<lparr>uq_Username = None, uq_Password = None, uq_Email = None, uq_DisplayName = None, uq_Disabled = Some True\<rparr>"
  have wf: "db_wf ?db" by (simp add: db_wf_def demo_db_def demo_account_def)
  have user: "Users_Get ?db ''a'' = Ok (demo_account ''a'' True)" "\<not> ac_Disabled (demo_account ''a'' True)" "uq_Disabled ?req = Some True"
    by (simp_all add: Users_Get_def getBy_def demo_db_def demo_account_def)
  have "snd (UpdateUser demo_bcrypt ?db ''a'' ?req) = None" by code_simp
  then obtain db' where upd: "UpdateUser demo_bcrypt ?db ''a'' ?req = (db', None)" by (cases "UpdateUser demo_bcrypt ?db ''a'' ?req") simp
  show ?thesis using disable_takes_effect [OF wf user upd] upd by simp
qed

end
