(* ===== verification/Base64.thy ===== *)
theory Base64
  imports Go_Prelude
begin

text \<open>
  \<open>encoding/base64\<close> as the server uses it: the standard alphabet with padding, which \<open>BasicAuth\<close> decodes, and
  the URL alphabet without padding of the registry tokens.  Like Go's decoders these skip line breaks and
  do not look at the unused low bits of the last character.
\<close>

definition std_alphabet :: string where
  "std_alphabet = ''ABCDEFGHIJKLMNOPQRSTUVWXYZabcdefghijklmnopqrstuvwxyz0123456789+/''"

definition url_alphabet :: string where
  "url_alphabet = ''ABCDEFGHIJKLMNOPQRSTUVWXYZabcdefghijklmnopqrstuvwxyz0123456789-_''"

text \<open>Bytes to groups of six bits and back.\<close>

fun to_sextets :: "nat list \<Rightarrow> nat list" where
  "to_sextets [] = []"
| "to_sextets [a] = [a div 4, (a mod 4) * 16]"
| "to_sextets [a, b] = [a div 4, (a mod 4) * 16 + b div 16, (b mod 16) * 4]"
| "to_sextets (a # b # c # r) = a div 4 # ((a mod 4) * 16 + b div 16) # ((b mod 16) * 4 + c div 64) # (c mod 64) # to_sextets r"

fun of_sextets :: "nat list \<Rightarrow> nat list option" where
  "of_sextets [] = Some []"
| "of_sextets [w] = None"
| "of_sextets [w, x] = Some [w * 4 + x div 16]"
| "of_sextets [w, x, y] = Some [w * 4 + x div 16, (x mod 16) * 16 + y div 4]"
| "of_sextets (w # x # y # z # r) = map_option (\<lambda>bs. (w * 4 + x div 16) # ((x mod 16) * 16 + y div 4) # ((y mod 4) * 64 + z) # bs)
     (of_sextets r)"

fun all_some :: "'a option list \<Rightarrow> 'a list option" where
  "all_some [] = Some []"
| "all_some (None # xs) = None"
| "all_some (Some x # xs) = map_option (Cons x) (all_some xs)"

definition b64_encode :: "string \<Rightarrow> string \<Rightarrow> string" where
  "b64_encode alphabet s = map (\<lambda>i. alphabet ! i) (to_sextets (map of_char s))"

definition raw_decode :: "string \<Rightarrow> string \<Rightarrow> string option" where
  "raw_decode alphabet s = (case all_some (map (index_byte alphabet) (filter (\<lambda>c. c \<noteq> CHR 0x0A \<and> c \<noteq> CHR 0x0D) s)) of
     None \<Rightarrow> None | Some ws \<Rightarrow> map_option (map char_of) (of_sextets ws))"

text \<open>With padding the length is a multiple of four and at most two of the last characters are padding.\<close>

definition std_decode :: "string \<Rightarrow> string option" where
  "std_decode s = (let t = filter (\<lambda>c. c \<noteq> CHR 0x0A \<and> c \<noteq> CHR 0x0D) s
     in if length t mod 4 \<noteq> 0 then None
        else raw_decode std_alphabet
          (if has_suffix t ''=='' then take (length t - 2) t else if has_suffix t ''='' then take (length t - 1) t else t))"

definition std_encode :: "string \<Rightarrow> string" where
  "std_encode s = b64_encode std_alphabet s @ (if length s mod 3 = 1 then ''=='' else if length s mod 3 = 2 then ''='' else [])"

definition b64url :: "string \<Rightarrow> string" where
  "b64url s = b64_encode url_alphabet s"

definition b64url_decode :: "string \<Rightarrow> string option" where
  "b64url_decode s = raw_decode url_alphabet s"

lemma digits: "y < m \<Longrightarrow> (x * m + y) div m = (x::nat)" "y < m \<Longrightarrow> (x * m + y) mod m = y"
  by simp_all

lemma quot: "b < 256 \<Longrightarrow> b div 16 < (16::nat)" "b < 256 \<Longrightarrow> b div 64 < (4::nat)" "b < 256 \<Longrightarrow> b div 4 < (64::nat)"
  by (simp_all add: less_mult_imp_div_less)

lemma join4: "a div 4 * 4 + a mod 4 = (a::nat)" "b div 16 * 16 + b mod 16 = (b::nat)" "c div 64 * 64 + c mod 64 = (c::nat)"
  by (simp_all only: div_mult_mod_eq)

lemma of_to_sextets: "\<forall>b\<in>set bs. b < 256 \<Longrightarrow> of_sextets (to_sextets bs) = Some bs"
  by (induction bs rule: to_sextets.induct) (simp_all add: digits quot join4)

lemma sextets_bound: "\<forall>b\<in>set bs. b < 256 \<Longrightarrow> \<forall>w\<in>set (to_sextets bs). w < 64"
proof -
  have m: "x mod 4 * 16 + y < (64::nat)" if "y < 16" for x y using that mod_less_divisor [of 4 x] by linarith
  have n: "x mod 16 * 4 + y < (64::nat)" if "y < 4" for x y using that mod_less_divisor [of 16 x] by linarith
  show "\<forall>b\<in>set bs. b < 256 \<Longrightarrow> \<forall>w\<in>set (to_sextets bs). w < 64"
    by (induction bs rule: to_sextets.induct) (simp_all add: quot m n m [of 0, simplified] n [of 0, simplified])
qed

lemma all_some_map: "(\<And>x. x \<in> set xs \<Longrightarrow> f (g x) = Some x) \<Longrightarrow> all_some (map f (map g xs)) = Some xs"
  by (induction xs) auto

lemma index_nth: "distinct alphabet \<Longrightarrow> i < length alphabet \<Longrightarrow> index_byte alphabet (alphabet ! i) = Some i"
proof (induction alphabet arbitrary: i)
  case (Cons x xs)
  then show ?case by (cases i) auto
qed simp

lemma url_alphabet_facts: "distinct url_alphabet" "length url_alphabet = 64" "CHR 0x0A \<notin> set url_alphabet" "CHR 0x0D \<notin> set url_alphabet"
  "CHR ''.'' \<notin> set url_alphabet"
  by (simp_all add: url_alphabet_def)

lemma b64url_chars: "set (b64url s) \<subseteq> set url_alphabet"
proof -
  have "\<forall>w\<in>set (to_sextets (map of_char s)). w < length url_alphabet"
    using sextets_bound [of "map of_char s"] by (auto simp: url_alphabet_facts)
  then show ?thesis by (auto simp: b64url_def b64_encode_def)
qed

lemma b64url_roundtrip: "b64url_decode (b64url s) = Some s"
proof -
  let ?ws = "to_sextets (map of_char s)"
  have ws: "\<forall>w\<in>set ?ws. w < 64" using sextets_bound [of "map of_char s"] by auto
  have keep: "filter (\<lambda>c. c \<noteq> CHR 0x0A \<and> c \<noteq> CHR 0x0D) (b64url s) = b64url s"
    using b64url_chars [of s] url_alphabet_facts(3,4) by (auto intro: filter_True)
  have "all_some (map (index_byte url_alphabet) (b64url s)) = Some ?ws"
    unfolding b64url_def b64_encode_def using ws index_nth [OF url_alphabet_facts(1)]
    by (intro all_some_map) (simp add: url_alphabet_facts)
  moreover have "of_sextets ?ws = Some (map of_char s)" by (rule of_to_sextets) auto
  ultimately show ?thesis by (simp add: b64url_decode_def raw_decode_def keep comp_def)
qed

end
