(* ===== verification/Data_Auth.thy ===== *)
theory Data_Auth
  imports Cap_Resolver Users Base64
begin

text \<open>
  Who is calling: \<open>internal/server/api/dataauth.go\<close>, \<open>internal/server/api/registry_auth.go\<close>,
  \<open>internal/registry/common/auth.go\<close> and the password cache of \<open>internal/server/authx/principal.go\<close>.
  HMAC-SHA256 under the signing key is \<open>de_hmac\<close>, the JSON of a registry token is \<open>de_mar\<close> and \<open>de_unm\<close>,
  SHA-256 in hex is \<open>de_sha\<close>.  Times are Unix seconds.
\<close>

section \<open>Requests\<close>

text \<open>\<open>rq_session\<close> is the identity the session cookie resolves to.\<close>

record request =
  rq_Method :: string
  rq_Path :: string
  rq_Header :: "string \<Rightarrow> string"
  rq_session :: "identity option"

text \<open>\<open>http.Request.BasicAuth\<close>.\<close>

definition BasicAuth :: "request \<Rightarrow> (string \<times> string) option" where
  "BasicAuth req = (let auth = rq_Header req ''Authorization''
     in if auth = [] then None
        else if length auth < 6 \<or> \<not> equal_fold (take 6 auth) ''Basic '' then None
        else case std_decode (drop 6 auth) of None \<Rightarrow> None
          | Some c \<Rightarrow> (case cut c CHR '':'' of (user, pass, found) \<Rightarrow> if found then Some (user, pass) else None))"

definition ExtractToken :: "request \<Rightarrow> string" where
  "ExtractToken req =
     (if rq_Header req ''X-Kutu-Token'' \<noteq> [] then rq_Header req ''X-Kutu-Token''
      else if rq_Header req ''X-NuGet-ApiKey'' \<noteq> [] then rq_Header req ''X-NuGet-ApiKey''
      else let auth = rq_Header req ''Authorization''
        in if auth = [] then []
           else if has_prefix auth TokenPrefix then trim_space auth
           else if has_prefix auth ''Bearer '' then trim_space (drop 7 auth)
           else if has_prefix auth ''Token '' then trim_space (drop 6 auth)
           else if has_prefix auth ''Basic '' then (case BasicAuth req of None \<Rightarrow> [] | Some (_, password) \<Rightarrow> password)
           else [])"

definition RequireToken ::
  "(string \<Rightarrow> string) \<Rightarrow> token list \<Rightarrow> unix_time \<Rightarrow> request \<Rightarrow> string \<Rightarrow> string \<Rightarrow> token_error option" where
  "RequireToken hk table now req scope op = (let tok = ExtractToken req
     in if tok = [] then Some TokUnauthorized else ValidateToken hk table now tok scope op)"

section \<open>Registry tokens\<close>

record registry_claims =
  rc_Subject :: string
  rc_Kind :: string
  rc_ID :: string
  rc_Issued :: unix_time
  rc_Expires :: unix_time

datatype basic_entry = BasicEntry (be_userID: string) (be_expires: unix_time)

record data_env =
  de_now :: unix_time
  de_key :: string
  de_hmac :: "string \<Rightarrow> string \<Rightarrow> string"
  de_mar :: "registry_claims \<Rightarrow> string"
  de_unm :: "string \<Rightarrow> registry_claims option"
  de_hash :: "string \<Rightarrow> string"
  de_tokens :: "token list"
  de_resolver :: cap_resolver
  de_bcrypt :: bcrypt
  de_totp :: "(string \<Rightarrow> bool option) option"
  de_sha :: "string \<Rightarrow> string"
  de_anonymous :: bool

record data_state =
  ds_users :: user_db
  ds_cache :: "(string \<times> basic_entry) list"

definition registryTokenLifetime :: int where "registryTokenLifetime = 300"

definition token_header :: string where
  "token_header = ''{'' @ [CHR 0x22] @ ''alg'' @ [CHR 0x22] @ '':'' @ [CHR 0x22] @ ''HS256'' @ [CHR 0x22] @ '','' @ [CHR 0x22] @ ''typ''
     @ [CHR 0x22] @ '':'' @ [CHR 0x22] @ ''JWT'' @ [CHR 0x22] @ ''}''"

definition kind_string :: "principal_kind \<Rightarrow> string" where
  "kind_string k = (case k of KindUser \<Rightarrow> ''user'' | KindToken \<Rightarrow> ''token'')"

definition signature :: "data_env \<Rightarrow> string \<Rightarrow> string" where
  "signature env input = de_hmac env (de_key env) input"

definition claims_for :: "unix_time \<Rightarrow> principal \<Rightarrow> registry_claims" where
  "claims_for now p = \<lparr>rc_Subject = pr_Username p, rc_Kind = kind_string (pr_Kind p), rc_ID = pr_ID p, rc_Issued = now,
     rc_Expires = now + registryTokenLifetime\<rparr>"

definition Issue :: "data_env \<Rightarrow> principal \<Rightarrow> string option" where
  "Issue env p =
     (if de_key env = [] then None
      else let input = b64url token_header @ CHR ''.'' # b64url (de_mar env (claims_for (de_now env) p))
        in Some (input @ CHR ''.'' # b64url (signature env input)))"

datatype verify_error = VNotConfigured | VNotToken | VSignature | VPayload | VExpired

definition Verify :: "data_env \<Rightarrow> string \<Rightarrow> verify_error + registry_claims" where
  "Verify env token =
     (if de_key env = [] then Err VNotConfigured
      else case split_on CHR ''.'' token of
        [h, p, s] \<Rightarrow>
          (case b64url_decode s of None \<Rightarrow> Err VSignature
           | Some got \<Rightarrow>
               if got \<noteq> signature env (h @ CHR ''.'' # p) then Err VSignature
               else (case b64url_decode p of None \<Rightarrow> Err VPayload
                 | Some payload \<Rightarrow> (case de_unm env payload of None \<Rightarrow> Err VPayload
                   | Some claims \<Rightarrow> if rc_Expires claims < de_now env then Err VExpired else Ok claims)))
      | _ \<Rightarrow> Err VNotToken)"

definition principalFromRegistryToken :: "data_env \<Rightarrow> registry_claims \<Rightarrow> principal option" where
  "principalFromRegistryToken env c =
     (if rc_Kind c = ''user'' then PrincipalForUser (de_resolver env) (rc_ID c)
      else if rc_Kind c = ''token'' then PrincipalForTokenID (de_resolver env) (de_tokens env) (de_now env) (rc_ID c)
      else None)"

section \<open>Passwords\<close>

definition basicCacheTTL :: int where "basicCacheTTL = 120"

definition basicCacheKey :: "data_env \<Rightarrow> string \<Rightarrow> string \<Rightarrow> string" where
  "basicCacheKey env username password = de_sha env (username @ CHR 0x00 # password)"

definition basic_get :: "unix_time \<Rightarrow> (string \<times> basic_entry) list \<Rightarrow> string \<Rightarrow> (string \<times> basic_entry) list \<times> string option" where
  "basic_get now c key = (case map_of c key of
     None \<Rightarrow> (c, None)
   | Some e \<Rightarrow> if now > be_expires e then (filter (\<lambda>ke. fst ke \<noteq> key) c, None) else (c, Some (be_userID e)))"

definition basic_put :: "unix_time \<Rightarrow> (string \<times> basic_entry) list \<Rightarrow> string \<Rightarrow> string \<Rightarrow> (string \<times> basic_entry) list" where
  "basic_put now c key uid =
     (let c1 = (if length c > 10000 then filter (\<lambda>ke. \<not> now > be_expires (snd ke)) c else c)
      in (key, BasicEntry uid (now + basicCacheTTL)) # filter (\<lambda>ke. fst ke \<noteq> key) c1)"

definition totpEnabled :: "data_env \<Rightarrow> string \<Rightarrow> bool" where
  "totpEnabled env uid = (case de_totp env of None \<Rightarrow> False
     | Some f \<Rightarrow> (case f uid of None \<Rightarrow> True | Some on \<Rightarrow> on))"

definition PrincipalForPassword ::
  "data_env \<Rightarrow> data_state \<Rightarrow> string \<Rightarrow> string \<Rightarrow> data_state \<times> principal option" where
  "PrincipalForPassword env st username password =
     (if username = [] \<or> password = [] then (st, None)
      else let key = basicCacheKey env username password;
               (c1, hit) = basic_get (de_now env) (ds_cache st) key;
               finish = (\<lambda>st uid. (st, if totpEnabled env uid then None else PrincipalForUser (de_resolver env) uid))
        in case hit of
             Some uid \<Rightarrow> finish (st\<lparr>ds_cache := c1\<rparr>) uid
           | None \<Rightarrow> (case Authenticate (de_bcrypt env) (ds_users st) username password of
               (db', Inl e) \<Rightarrow> (st\<lparr>ds_cache := c1, ds_users := db'\<rparr>, None)
             | (db', Inr info) \<Rightarrow>
                 finish (st\<lparr>ds_cache := basic_put (de_now env) c1 key (ac_ID info), ds_users := db'\<rparr>) (ac_ID info)))"

section \<open>The caller\<close>

datatype data_error = DNoCredentials | DUnauthorized | DToken token_error | DForbidden

definition SessionPrincipal :: "data_env \<Rightarrow> request \<Rightarrow> principal option" where
  "SessionPrincipal env req = (case rq_session req of None \<Rightarrow> None
     | Some ident \<Rightarrow> let rep = resolveDetailed (de_resolver env) ident
         in Some \<lparr>pr_Kind = KindUser, pr_ID = er_UserID rep, pr_Username = er_Username rep, pr_Caps = er_Capabilities rep,
              pr_Patterns = er_Patterns rep\<rparr>)"

definition bearer_claims :: "data_env \<Rightarrow> request \<Rightarrow> registry_claims option" where
  "bearer_claims env req = (let auth = rq_Header req ''Authorization''
     in if has_prefix auth ''Bearer '' then (case Verify env (trim_space (drop 7 auth)) of Inl _ \<Rightarrow> None | Inr c \<Rightarrow> Some c) else None)"

definition dataPrincipal :: "data_env \<Rightarrow> data_state \<Rightarrow> request \<Rightarrow> data_state \<times> (data_error + principal option)" where
  "dataPrincipal env st req = (case bearer_claims env req of
     Some claims \<Rightarrow> (st, case principalFromRegistryToken env claims of None \<Rightarrow> Err DUnauthorized | Some p \<Rightarrow> Ok (Some p))
   | None \<Rightarrow>
       if has_prefix (ExtractToken req) TokenPrefix then
         (st, case PrincipalForToken (de_hash env) (de_resolver env) (de_tokens env) (de_now env) (ExtractToken req) of
            Inl e \<Rightarrow> Err (DToken e) | Inr p \<Rightarrow> Ok (Some p))
       else (case BasicAuth req of
         Some (user, pass) \<Rightarrow> (case PrincipalForPassword env st user pass of
             (st', None) \<Rightarrow> (st', Err DUnauthorized) | (st', Some p) \<Rightarrow> (st', Ok (Some p)))
       | None \<Rightarrow>
           if ExtractToken req \<noteq> [] then (st, Err DUnauthorized)
           else (st, Ok (SessionPrincipal env req))))"

definition operationFor :: "string \<Rightarrow> string" where
  "operationFor meth =
     (if meth = ''GET'' \<or> meth = ''HEAD'' \<or> meth = ''OPTIONS'' then ''read''
      else if meth = ''DELETE'' then ''delete'' else ''write'')"

definition capForOp :: "string \<Rightarrow> string" where
  "capForOp op = (if op = ''read'' then CapRegistryRead else if op = ''delete'' then CapRegistryDelete else CapRegistryWrite)"

definition authorizeRegistry ::
  "matcher \<Rightarrow> data_env \<Rightarrow> data_state \<Rightarrow> request \<Rightarrow> string \<Rightarrow> string \<Rightarrow> string \<Rightarrow> string \<Rightarrow>
   data_state \<times> (data_error + principal option)" where
  "authorizeRegistry dm env st req ns repo rest op = (case dataPrincipal env st req of
     (st', Inl e) \<Rightarrow> (st', Err e)
   | (st', Inr None) \<Rightarrow> (st', if op = ''read'' \<and> de_anonymous env then Ok None else Err DNoCredentials)
   | (st', Inr (Some p)) \<Rightarrow> (st', if \<not> principal_allows dm (Some p) (capForOp op) (ns @ ''/'' @ repo @ rest) then Err DForbidden
        else Ok (Some p)))"

definition authorizeRaw ::
  "matcher \<Rightarrow> data_env \<Rightarrow> data_state \<Rightarrow> request \<Rightarrow> string \<Rightarrow> string \<Rightarrow> bool \<Rightarrow> data_state \<times> (data_error + principal)" where
  "authorizeRaw dm env st req capKey path ancestor = (case dataPrincipal env st req of
     (st', Inl e) \<Rightarrow> (st', Err e)
   | (st', Inr None) \<Rightarrow> (st', Err DNoCredentials)
   | (st', Inr (Some p)) \<Rightarrow> (st',
        if \<not> Has (pr_Caps p) capKey then Err DForbidden
        else if \<not> Allows dm (pr_Patterns p) capKey path \<and> \<not> (ancestor \<and> AllowsAncestor dm (pr_Patterns p) capKey path) then Err DForbidden
        else Ok p))"

text \<open>Status and challenge of a failed authorization.\<close>

definition error_status :: "data_error \<Rightarrow> nat" where
  "error_status e = (if e = DForbidden \<or> e = DToken TokForbidden then 403 else 401)"

definition serveDockerToken :: "data_env \<Rightarrow> data_state \<Rightarrow> request \<Rightarrow> data_state \<times> (data_error + string)" where
  "serveDockerToken env st req = (case dataPrincipal env st req of
     (st', Inl e) \<Rightarrow> (st', Err e)
   | (st', Inr None) \<Rightarrow> (st', Err DNoCredentials)
   | (st', Inr (Some p)) \<Rightarrow> (st', case Issue env p of None \<Rightarrow> Err DUnauthorized | Some t \<Rightarrow> Ok t))"

section \<open>Facts\<close>

lemma b64_not_space: "c \<in> set (b64url s) \<Longrightarrow> \<not> is_space c"
proof -
  have "\<forall>c\<in>set url_alphabet. \<not> is_space c" by (simp add: url_alphabet_def is_space_def)
  then show "c \<in> set (b64url s) \<Longrightarrow> \<not> is_space c" using b64url_chars by blast
qed

lemma b64_no_dot: "CHR ''.'' \<notin> set (b64url s)"
  using b64url_chars [of s] url_alphabet_facts(5) by blast

lemma split_three: "split_on CHR ''.'' (b64url a @ CHR ''.'' # b64url b @ CHR ''.'' # b64url c) = [b64url a, b64url b, b64url c]"
  by (simp add: split_on_append split_on_single b64_no_dot)

lemma verify_issued:
  assumes "Issue env p = Some tok" "de_key env' = de_key env" "de_hmac env' = de_hmac env"
    "de_unm env' (de_mar env (claims_for (de_now env) p)) = Some (claims_for (de_now env) p)"
  shows "Verify env' tok = (if de_now env + registryTokenLifetime < de_now env' then Err VExpired else Ok (claims_for (de_now env) p))"
proof -
  let ?h = "b64url token_header" and ?p = "b64url (de_mar env (claims_for (de_now env) p))"
  have k: "de_key env \<noteq> []" and tok: "tok = ?h @ CHR ''.'' # ?p @ CHR ''.'' # b64url (signature env (?h @ CHR ''.'' # ?p))"
    using assms(1) by (auto simp: Issue_def Let_def split: if_splits)
  have "signature env' x = signature env x" for x using assms by (simp add: signature_def)
  then show ?thesis
    unfolding Verify_def tok split_three using k assms by (simp add: b64url_roundtrip claims_for_def)
qed

lemma dot_not_space: "\<not> is_space CHR ''.''" by (simp add: is_space_def)

lemma issued_no_space: "Issue env p = Some tok \<Longrightarrow> trim_space tok = tok"
  unfolding trim_space_def
  by (rule trim_func_id) (auto simp: Issue_def Let_def b64_not_space dot_not_space split: if_splits)

lemma bearer_issued:
  assumes "Issue env p = Some tok" "rq_Header req ''Authorization'' = ''Bearer '' @ tok"
  shows "bearer_claims env' req = (case Verify env' tok of Inl _ \<Rightarrow> None | Inr c \<Rightarrow> Some c)"
  using issued_no_space [OF assms(1)] assms(2) by (simp add: bearer_claims_def Let_def has_prefix_def)

definition cached :: "unix_time \<Rightarrow> (string \<Rightarrow> string \<Rightarrow> unix_time \<Rightarrow> bool) \<Rightarrow> (string \<times> basic_entry) list \<Rightarrow> bool" where
  "cached ttl good c \<longleftrightarrow> (\<forall>(key, e)\<in>set c. good key (be_userID e) (be_expires e - ttl))"

lemma cached_get: "cached ttl good c \<Longrightarrow> basic_get now c key = (c', hit) \<Longrightarrow>
    cached ttl good c' \<and> (\<forall>uid. hit = Some uid \<longrightarrow> (\<exists>t. now \<le> t + ttl \<and> good key uid t))"
proof (cases "map_of c key")
  case None
  then show "cached ttl good c \<Longrightarrow> basic_get now c key = (c', hit) \<Longrightarrow>
    cached ttl good c' \<and> (\<forall>uid. hit = Some uid \<longrightarrow> (\<exists>t. now \<le> t + ttl \<and> good key uid t))"
    by (auto simp: basic_get_def)
next
  case (Some e)
  assume c: "cached ttl good c" and g: "basic_get now c key = (c', hit)"
  have "good key (be_userID e) (be_expires e - ttl)" using c map_of_SomeD [OF Some] by (auto simp: cached_def)
  then show "cached ttl good c' \<and> (\<forall>uid. hit = Some uid \<longrightarrow> (\<exists>t. now \<le> t + ttl \<and> good key uid t))"
    using c g Some by (auto simp: basic_get_def cached_def split: if_splits intro!: exI [of _ "be_expires e - ttl"])
qed

lemma cached_put: "cached basicCacheTTL good c \<Longrightarrow> good key uid now \<Longrightarrow> cached basicCacheTTL good (basic_put now c key uid)"
  by (auto simp: cached_def basic_put_def Let_def)

lemma password_cases:
  assumes "cached basicCacheTTL good (ds_cache st)"
    and "\<And>info. snd (Authenticate (de_bcrypt env) (ds_users st) u p) = Ok info \<Longrightarrow> good (basicCacheKey env u p) (ac_ID info) (de_now env)"
  shows "cached basicCacheTTL good (ds_cache (fst (PrincipalForPassword env st u p))) \<and>
    (\<forall>pr. snd (PrincipalForPassword env st u p) = Some pr \<longrightarrow>
      (\<exists>uid t. good (basicCacheKey env u p) uid t \<and> de_now env \<le> t + basicCacheTTL \<and> \<not> totpEnabled env uid \<and>
        PrincipalForUser (de_resolver env) uid = Some pr))"
proof -
  obtain c1 hit where g: "basic_get (de_now env) (ds_cache st) (basicCacheKey env u p) = (c1, hit)" by fastforce
  note c = cached_get [OF assms(1) g]
  show ?thesis
  proof (cases "u = [] \<or> p = []")
    case True
    then show ?thesis using assms(1) by (auto simp: PrincipalForPassword_def)
  next
    case False
    note ne = this
    show ?thesis
    proof (cases hit)
      case (Some uid)
      with ne g c show ?thesis by (auto simp: PrincipalForPassword_def Let_def)
    next
      case None
      obtain db' r where a: "Authenticate (de_bcrypt env) (ds_users st) u p = (db', r)" by fastforce
      show ?thesis
      proof (cases r)
        case (Inl e)
        with ne None g a c show ?thesis by (auto simp: PrincipalForPassword_def Let_def)
      next
        case (Inr info)
        then have k: "good (basicCacheKey env u p) (ac_ID info) (de_now env)" using assms(2) a by simp
        moreover have "de_now env \<le> de_now env + basicCacheTTL" by (simp add: basicCacheTTL_def)
        ultimately show ?thesis using ne None g a Inr cached_put [OF conjunct1 [OF c] k]
          by (auto simp: PrincipalForPassword_def Let_def intro!: exI [of _ "ac_ID info"] exI [of _ "de_now env"])
      qed
    qed
  qed
qed

section \<open>Properties\<close>

text \<open>
  Lifetime of a registry token.  A token verifies on every replica that shares the key, with the claims it was
  issued with, for five minutes and no longer.
\<close>

theorem registry_token_lifetime:
  assumes "Issue env p = Some tok" "de_key env' = de_key env" "de_hmac env' = de_hmac env"
    "de_unm env' (de_mar env (claims_for (de_now env) p)) = Some (claims_for (de_now env) p)"
  shows "Verify env' tok = (if de_now env' \<le> de_now env + 300 then Ok (claims_for (de_now env) p) else Err VExpired)"
  using verify_issued [OF assms] by (simp add: registryTokenLifetime_def)

definition demo_unm :: "string \<Rightarrow> registry_claims option" where
  "demo_unm s = (if s = ''claims'' then Some \<lparr>rc_Subject = ''root'', rc_Kind = ''user'', rc_ID = ''7'', rc_Issued = 1000, rc_Expires = 1300\<rparr> else None)"

definition demo_env :: "unix_time \<Rightarrow> user_row \<Rightarrow> data_env" where
  "demo_env now u = \<lparr>de_now = now, de_key = ''k'', de_hmac = (\<lambda>k m. k @ rev m), de_mar = (\<lambda>_. ''claims''), de_unm = demo_unm, de_hash = rev,
     de_tokens = [], de_resolver = demo_resolver u [], de_bcrypt = demo_bcrypt, de_totp = None, de_sha = (\<lambda>s. s), de_anonymous = True\<rparr>"

definition demo_principal :: principal where
  "demo_principal = \<lparr>pr_Kind = KindUser, pr_ID = ''7'', pr_Username = ''root'', pr_Caps = [], pr_Patterns = (\<lambda>_. [])\<rparr>"

lemma demo_issue:
  "Issue (demo_env 1000 u) demo_principal = Some (the (Issue (demo_env 1000 u) demo_principal))"
  "de_unm (demo_env t u') (de_mar (demo_env 1000 u) (claims_for (de_now (demo_env 1000 u)) demo_principal)) =
    Some (claims_for (de_now (demo_env 1000 u)) demo_principal)"
  by (simp_all add: Issue_def demo_env_def Let_def demo_unm_def claims_for_def demo_principal_def kind_string_def registryTokenLifetime_def)

lemma demo_same: "de_key (demo_env t u) = de_key (demo_env t' u')" "de_hmac (demo_env t u) = de_hmac (demo_env t' u')"
  by (simp_all add: demo_env_def)

lemma demo_now: "de_now (demo_env t u) = t" by (simp add: demo_env_def)

theorem registry_token_lifetime_witness:
  "let tok = the (Issue (demo_env 1000 (demo_user [])) demo_principal)
   in Verify (demo_env 1300 (demo_user [])) tok = Ok (claims_for 1000 demo_principal) \<and>
      Verify (demo_env 1301 (demo_user [])) tok = Err VExpired"
  using registry_token_lifetime [OF demo_issue(1) demo_same demo_issue(2), of 1300 "demo_user []" "demo_user []"]
    registry_token_lifetime [OF demo_issue(1) demo_same demo_issue(2), of 1301 "demo_user []" "demo_user []"]
  by (simp add: Let_def demo_now)

text \<open>
  C16: revocation is immediate.  A bearer token minted for a user is refused, within its lifetime, from the moment the
  user is disabled or gone, whatever other credentials the request carries.
\<close>

theorem revoked_bearer_refused:
  assumes issued: "Issue env p = Some tok" "de_key env' = de_key env" "de_hmac env' = de_hmac env"
      "de_unm env' (de_mar env (claims_for (de_now env) p)) = Some (claims_for (de_now env) p)"
    and live: "de_now env' \<le> de_now env + 300" "rq_Header req ''Authorization'' = ''Bearer '' @ tok"
    and gone: "pr_Kind p = KindUser" "cr_svc (de_resolver env') = Some sv" "\<And>u. sv_user sv (pr_ID p) = Some u \<Longrightarrow> us_Disabled u"
  shows "dataPrincipal env' st req = (st, Err DUnauthorized) \<and>
    authorizeRegistry dm env' st req ns repo rest op = (st, Err DUnauthorized) \<and> serveDockerToken env' st req = (st, Err DUnauthorized)"
proof -
  have "bearer_claims env' req = Some (claims_for (de_now env) p)"
    using bearer_issued [OF issued(1) live(2), of env'] verify_issued [OF issued] live(1) by (simp add: registryTokenLifetime_def)
  moreover have "PrincipalForUser (de_resolver env') (pr_ID p) = None"
    using gone by (auto simp: PrincipalForUser_def split: option.split)
  ultimately have "dataPrincipal env' st req = (st, Err DUnauthorized)"
    using gone(1) by (simp add: dataPrincipal_def principalFromRegistryToken_def claims_for_def kind_string_def)
  then show ?thesis by (simp add: authorizeRegistry_def serveDockerToken_def)
qed

theorem revoked_bearer_refused_witness:
  "let tok = the (Issue (demo_env 1000 (demo_user [])) demo_principal);
       req = \<lparr>rq_Method = ''GET'', rq_Path = [], rq_Header = (\<lambda>h. if h = ''Authorization'' then ''Bearer '' @ tok else []), rq_session = None\<rparr>;
       st = \<lparr>ds_users = demo_db [], ds_cache = []\<rparr>
   in dataPrincipal (demo_env 1100 ((demo_user [])\<lparr>us_Disabled := True\<rparr>)) st req = (st, Err DUnauthorized)"
proof -
  let ?tok = "the (Issue (demo_env 1000 (demo_user [])) demo_principal)"
  let ?u = "(demo_user [])\<lparr>us_Disabled := True\<rparr>"
  let ?sv = "\<lparr>sv_user = (\<lambda>i. if i = us_ID ?u then Some ?u else None), sv_user_permissions = (\<lambda>_. Some []), sv_permissions = Some []\<rparr>"
  let ?req = "\<lparr>rq_Method = ''GET'', rq_Path = [], rq_Header = (\<lambda>h. if h = ''Authorization'' then ''Bearer '' @ ?tok else []), rq_session = None\<rparr>"
  have live: "de_now (demo_env 1100 ?u) \<le> de_now (demo_env 1000 (demo_user [])) + 300" "rq_Header ?req ''Authorization'' = ''Bearer '' @ ?tok"
    by (simp_all add: demo_now)
  have gone: "pr_Kind demo_principal = KindUser" "cr_svc (de_resolver (demo_env 1100 ?u)) = Some ?sv"
    "\<And>u. sv_user ?sv (pr_ID demo_principal) = Some u \<Longrightarrow> us_Disabled u"
    by (auto simp: demo_env_def demo_resolver_def demo_principal_def split: if_splits)
  show ?thesis using revoked_bearer_refused [OF demo_issue(1) demo_same demo_issue(2) live gone] by (simp add: Let_def)
qed

definition live_principal :: "data_env \<Rightarrow> request \<Rightarrow> principal \<Rightarrow> bool" where
  "live_principal env req p \<longleftrightarrow>
     (\<exists>uid. PrincipalForUser (de_resolver env) uid = Some p) \<or>
     (\<exists>t\<in>set (de_tokens env). usable (de_now env) t = Ok t \<and> p = ResolveIdentity (de_resolver env) (token_identity t)) \<or>
     SessionPrincipal env req = Some p"

lemma usable_Ok: "usable now t = Inr t' \<Longrightarrow> t' = t"
  by (auto simp: usable_def split: if_splits)

lemma token_principal_live:
  "PrincipalForToken (de_hash env) (de_resolver env) (de_tokens env) (de_now env) raw = Inr p \<Longrightarrow> live_principal env req p"
  "PrincipalForTokenID (de_resolver env) (de_tokens env) (de_now env) tid = Some p \<Longrightarrow> live_principal env req p"
  by (auto simp: PrincipalForToken_def PrincipalForTokenID_def AuthenticateToken_def TokenIdentityByID_def live_principal_def
      split: sum.splits option.splits dest: usable_Ok dest!: find_someD find_someD [OF sym])

lemma password_user:
  "PrincipalForPassword env st u p = (st', Some pr) \<Longrightarrow> \<exists>uid. PrincipalForUser (de_resolver env) uid = Some pr"
  by (auto simp: PrincipalForPassword_def Let_def split: if_splits prod.splits option.splits sum.splits)

lemma dataPrincipal_live:
  assumes "snd (dataPrincipal env st req) = Ok (Some p)"
  shows "live_principal env req p"
proof (cases "bearer_claims env req")
  case (Some c)
  with assms have "principalFromRegistryToken env c = Some p" by (auto simp: dataPrincipal_def split: option.splits)
  then show ?thesis using token_principal_live(2) [of env "rc_ID c" p req]
    by (auto simp: principalFromRegistryToken_def live_principal_def split: if_splits)
next
  case None
  then show ?thesis
    using assms token_principal_live(1) [of env "ExtractToken req" p req]
    by (auto simp: dataPrincipal_def live_principal_def split: if_splits sum.splits option.splits prod.splits dest: password_user)
qed

lemma dataPrincipal_none:
  assumes "snd (dataPrincipal env st req) = Ok None"
  shows "bearer_claims env req = None \<and> ExtractToken req = [] \<and> BasicAuth req = None \<and> rq_session req = None"
  using assms by (auto simp: dataPrincipal_def SessionPrincipal_def Let_def split: if_splits sum.splits option.splits prod.splits)

text \<open>
  C2: no request is let in by mistake.  A registry request goes through without a caller only when it is a read, the operator
  allows anonymous reads and the request carries no credentials at all: bad credentials are never downgraded to
  none.  It goes through with a caller only when the caller holds the capability of the operation on the path, and the caller
  is a user enabled now, a token active and unexpired now, or the browser session.
\<close>

theorem authorize_sound:
  "case snd (authorizeRegistry dm env st req ns repo rest op) of
     Inr None \<Rightarrow> op = ''read'' \<and> de_anonymous env \<and> ExtractToken req = [] \<and> BasicAuth req = None \<and> rq_session req = None
   | Inr (Some p) \<Rightarrow> principal_allows dm (Some p) (capForOp op) (ns @ ''/'' @ repo @ rest) \<and> live_principal env req p
   | Inl e \<Rightarrow> (e = DForbidden \<longleftrightarrow> error_status e = 403 \<and> (\<exists>p. snd (dataPrincipal env st req) = Ok (Some p) \<and>
       \<not> principal_allows dm (Some p) (capForOp op) (ns @ ''/'' @ repo @ rest)))"
proof (cases "dataPrincipal env st req")
  case (Pair st' r)
  have n: "e \<noteq> DForbidden" if "r = Inl e" for e
    using Pair that by (auto simp: dataPrincipal_def split: if_splits sum.splits option.splits prod.splits)
  show ?thesis
  proof (cases r)
    case (Inl e)
    then show ?thesis using Pair n by (simp add: authorizeRegistry_def)
  next
    case (Inr who)
    then show ?thesis
      using Pair dataPrincipal_none [of env st req] dataPrincipal_live [of env st req]
      by (cases who) (auto simp: authorizeRegistry_def error_status_def)
  qed
qed

text \<open>
  A login attempt with Basic credentials: the cache is what survives between attempts, everything else (the users, their passwords,
  the clock) may have changed.
\<close>

definition attempt :: "data_env \<times> user_db \<times> string \<times> string \<Rightarrow> (string \<times> basic_entry) list \<Rightarrow> (string \<times> basic_entry) list" where
  "attempt a c = (case a of (env, db, u, p) \<Rightarrow> ds_cache (fst (PrincipalForPassword env \<lparr>ds_users = db, ds_cache = c\<rparr> u p)))"

definition verified :: "data_env \<times> user_db \<times> string \<times> string \<Rightarrow> string \<Rightarrow> string \<Rightarrow> unix_time \<Rightarrow> bool" where
  "verified a key uid t \<longleftrightarrow> (case a of (env, db, u, p) \<Rightarrow> t = de_now env \<and> key = basicCacheKey env u p \<and>
     (\<exists>info. snd (Authenticate (de_bcrypt env) db u p) = Ok info \<and> ac_ID info = uid))"

lemma cached_mono: "cached ttl good c \<Longrightarrow> (\<And>k i t. good k i t \<Longrightarrow> good' k i t) \<Longrightarrow> cached ttl good' c"
  by (auto simp: cached_def)

lemma attempts_cached: "cached basicCacheTTL (\<lambda>k i t. \<exists>a\<in>set hist. verified a k i t) (fold attempt hist [])"
proof (induction hist rule: rev_induct)
  case (snoc a hist)
  obtain env db u p where a: "a = (env, db, u, p)" by (metis prod_cases4)
  let ?good = "\<lambda>k i t. \<exists>a\<in>set (hist @ [a]). verified a k i t"
  have "cached basicCacheTTL ?good (fold attempt hist [])" by (rule cached_mono [OF snoc.IH]) auto
  moreover have "?good (basicCacheKey env u p) (ac_ID info) (de_now env)"
    if "snd (Authenticate (de_bcrypt env) db u p) = Ok info" for info
    using that by (auto simp: a verified_def)
  ultimately have "cached basicCacheTTL ?good (attempt a (fold attempt hist []))"
    using password_cases [of ?good "\<lparr>ds_users = db, ds_cache = fold attempt hist []\<rparr>" env u p] by (simp add: a attempt_def)
  then show ?case by simp
qed (simp add: cached_def)

text \<open>
  How long a password is trusted.  After any history of attempts, a password is accepted only when the account it stands
  for is enabled and has no TOTP enrollment now, and either the password is right now or an attempt
  with the same credentials was verified for that account at most two minutes ago.
\<close>

theorem password_cache_window:
  assumes "snd (PrincipalForPassword env \<lparr>ds_users = db, ds_cache = fold attempt hist []\<rparr> u p) = Some pr"
  shows "\<exists>uid. \<not> totpEnabled env uid \<and> PrincipalForUser (de_resolver env) uid = Some pr \<and>
    (\<exists>a\<in>set (hist @ [(env, db, u, p)]). \<exists>t. verified a (basicCacheKey env u p) uid t \<and> de_now env \<le> t + 120)"
proof -
  let ?good = "\<lambda>k i t. \<exists>a\<in>set (hist @ [(env, db, u, p)]). verified a k i t"
  have c: "cached basicCacheTTL ?good (fold attempt hist [])" by (rule cached_mono [OF attempts_cached]) auto
  have g: "?good (basicCacheKey env u p) (ac_ID info) (de_now env)" if "snd (Authenticate (de_bcrypt env) db u p) = Ok info" for info
    using that by (auto simp: verified_def)
  from password_cases [of ?good "\<lparr>ds_users = db, ds_cache = fold attempt hist []\<rparr>" env u p] c g assms
  show ?thesis by (fastforce simp: basicCacheTTL_def)
qed

theorem password_cache_window_witness:
  "let hist = [(demo_env 1000 (demo_user []), demo_db [demo_account ''7'' True], ''7'', ''h'')];
       env = demo_env 1100 (demo_user [])
   in snd (PrincipalForPassword env \<lparr>ds_users = demo_db [], ds_cache = fold attempt hist []\<rparr> ''7'' ''h'') \<noteq> None \<and>
      (\<exists>a\<in>set (hist @ [(env, demo_db [], ''7'', ''h'')]). \<exists>uid t. verified a (basicCacheKey env ''7'' ''h'') uid t)"
proof -
  let ?h = "[(demo_env 1000 (demo_user []), demo_db [demo_account ''7'' True], ''7'', ''h'')]" and ?e = "demo_env 1100 (demo_user [])"
  have "(case snd (PrincipalForPassword ?e \<lparr>ds_users = demo_db [], ds_cache = fold attempt ?h []\<rparr> ''7'' ''h'') of None \<Rightarrow> False | Some _ \<Rightarrow> True)"
    by code_simp
  then obtain pr where pr: "snd (PrincipalForPassword ?e \<lparr>ds_users = demo_db [], ds_cache = fold attempt ?h []\<rparr> ''7'' ''h'') = Some pr"
    by (auto split: option.splits)
  show ?thesis using password_cache_window [OF pr] pr unfolding Let_def by blast
qed

end
