(* ===== verification/License.thy ===== *)
theory License
  imports Go_Prelude
begin

text \<open>
  SPDX license expressions: \<open>internal/registry/policy/license.go\<close>.  The parser keeps the tokens that are left
  where the code keeps a position.  Its recursion carries fuel, one unit for each parenthesis and each
  operator on the way; \<open>license_parser_total\<close> shows that one more than the number of tokens is enough.
\<close>

section \<open>Expressions\<close>

datatype license_expr = LicenseExpr (le_ID: string) (le_Op: string) (le_Args: "license_expr list")

abbreviation license_leaf :: "string \<Rightarrow> license_expr" where "license_leaf i \<equiv> LicenseExpr i [] []"

definition licenseAliases :: "(string \<times> string) list" where
  "licenseAliases =
    [(''apache 2.0'', ''apache-2.0''), (''apache 2'', ''apache-2.0''), (''apache-2'', ''apache-2.0''), (''apache2'', ''apache-2.0''),
     (''apache license 2.0'', ''apache-2.0''), (''apache license, version 2.0'', ''apache-2.0''),
     (''apache software license'', ''apache-2.0''), (''the apache license, version 2.0'', ''apache-2.0''),
     (''the apache software license, version 2.0'', ''apache-2.0''), (''mit license'', ''mit''), (''the mit license'', ''mit''),
     (''bsd'', ''bsd-3-clause''), (''new bsd license'', ''bsd-3-clause''), (''bsd license'', ''bsd-3-clause''),
     (''isc license'', ''isc''), (''mozilla public license 2.0'', ''mpl-2.0''), (''gplv2'', ''gpl-2.0''), (''gplv3'', ''gpl-3.0''),
     (''lgplv3'', ''lgpl-3.0'')]"

definition normalizeID :: "string \<Rightarrow> string" where
  "normalizeID s = (let t = to_lower (trim_space s) in case map_of licenseAliases t of None \<Rightarrow> t | Some a \<Rightarrow> a)"

section \<open>Tokens\<close>

definition flush_word :: "string \<Rightarrow> string list" where
  "flush_word cur = (if cur = [] then [] else [cur])"

fun license_tokens_from :: "string \<Rightarrow> string \<Rightarrow> string list" where
  "license_tokens_from cur [] = flush_word cur"
| "license_tokens_from cur (r # s) =
     (if r = CHR ''('' \<or> r = CHR '')'' then flush_word cur @ [r] # license_tokens_from [] s
      else if r = CHR ''/'' then flush_word cur @ ''OR'' # license_tokens_from [] s
      else if r \<in> {CHR '' '', CHR 0x09, CHR 0x0A, CHR 0x0D} then flush_word cur @ license_tokens_from [] s
      else license_tokens_from (cur @ [r]) s)"

definition tokenizeLicense :: "string \<Rightarrow> string list" where
  "tokenizeLicense s = license_tokens_from [] s"

section \<open>The parser\<close>

datatype parse_result = OutOfFuel | ParseFail | Parsed license_expr "string list"

definition peekOp :: "string list \<Rightarrow> string \<Rightarrow> bool" where
  "peekOp toks op \<longleftrightarrow> (case toks of [] \<Rightarrow> False | t # _ \<Rightarrow> equal_fold t op)"

text \<open>\<open>parseBinary\<close>: the loop collects the arguments.\<close>

fun binary_loop :: "nat \<Rightarrow> string \<Rightarrow> (string list \<Rightarrow> parse_result) \<Rightarrow> license_expr list \<Rightarrow> string list \<Rightarrow> parse_result" where
  "binary_loop 0 op nxt args toks = OutOfFuel"
| "binary_loop (Suc k) op nxt args toks =
     (if peekOp toks op then (case nxt (tl toks) of Parsed e rest \<Rightarrow> binary_loop k op nxt (args @ [e]) rest | r \<Rightarrow> r)
      else Parsed (if length args = 1 then hd args else LicenseExpr [] op args) toks)"

definition parseBinary :: "nat \<Rightarrow> string \<Rightarrow> (string list \<Rightarrow> parse_result) \<Rightarrow> string list \<Rightarrow> parse_result" where
  "parseBinary k op nxt toks = (case nxt toks of Parsed first rest \<Rightarrow> binary_loop k op nxt [first] rest | r \<Rightarrow> r)"

definition parseWith :: "(string list \<Rightarrow> parse_result) \<Rightarrow> string list \<Rightarrow> parse_result" where
  "parseWith atom toks = (case atom toks of
     Parsed e rest \<Rightarrow>
       if peekOp rest ''with'' then (case atom (tl rest) of Parsed _ rest' \<Rightarrow> Parsed e rest' | r \<Rightarrow> r) else Parsed e rest
   | r \<Rightarrow> r)"

fun parseAtom :: "nat \<Rightarrow> string list \<Rightarrow> parse_result" where
  "parseAtom 0 toks = OutOfFuel"
| "parseAtom (Suc k) toks = (case toks of [] \<Rightarrow> ParseFail
   | t # ts \<Rightarrow>
       if t = ''('' then
         (case parseBinary k ''or'' (parseBinary k ''and'' (parseWith (parseAtom k))) ts of
            Parsed e (u # rest) \<Rightarrow> if u = '')'' then Parsed e rest else ParseFail
          | Parsed e [] \<Rightarrow> ParseFail
          | r \<Rightarrow> r)
       else if t = '')'' \<or> equal_fold t ''or'' \<or> equal_fold t ''and'' \<or> equal_fold t ''with'' then ParseFail
       else Parsed (license_leaf (normalizeID t)) ts)"

definition parseAnd :: "nat \<Rightarrow> string list \<Rightarrow> parse_result" where
  "parseAnd k = parseBinary k ''and'' (parseWith (parseAtom k))"

definition parseOr :: "nat \<Rightarrow> string list \<Rightarrow> parse_result" where
  "parseOr k = parseBinary k ''or'' (parseAnd k)"

definition unknown_license :: "string \<Rightarrow> bool" where
  "unknown_license s \<longleftrightarrow> s = [] \<or> (let up = to_upper s in up = ''NOASSERTION'' \<or> up = ''UNKNOWN'' \<or> has_prefix up ''SEE LICENSE IN'')"

definition ParseLicense :: "string \<Rightarrow> license_expr option" where
  "ParseLicense s0 = (let s = trim_space s0
     in if unknown_license s then None
        else let toks = tokenizeLicense s
          in case (if toks = [] then ParseFail else parseOr (Suc (length toks)) toks) of
               Parsed e [] \<Rightarrow> Some e
             | _ \<Rightarrow> Some (license_leaf (normalizeID s)))"

section \<open>The decision\<close>

definition licenseIn :: "string \<Rightarrow> string list \<Rightarrow> bool" where
  "licenseIn i xs = (let base = trim_suffix i ''+'' in list_ex (\<lambda>l. let n = normalizeID l in n = i \<or> n = base) xs)"

definition leaf_permitted :: "string list \<Rightarrow> string list \<Rightarrow> string \<Rightarrow> bool" where
  "leaf_permitted allowed denied i \<longleftrightarrow> \<not> licenseIn i denied \<and> (allowed = [] \<or> licenseIn i allowed)"

fun expr_permitted :: "string list \<Rightarrow> string list \<Rightarrow> license_expr \<Rightarrow> bool" where
  "expr_permitted allowed denied (LicenseExpr i op args) =
     (if op = ''or'' then list_ex (expr_permitted allowed denied) args
      else if op = ''and'' then list_all (expr_permitted allowed denied) args
      else leaf_permitted allowed denied i)"

definition LicensePermitted :: "license_expr option \<Rightarrow> string list \<Rightarrow> string list \<Rightarrow> bool" where
  "LicensePermitted e allowed denied = (case e of None \<Rightarrow> True | Some e \<Rightarrow> expr_permitted allowed denied e)"

section \<open>The parser returns\<close>

definition consumes :: "(string list \<Rightarrow> parse_result) \<Rightarrow> bool" where
  "consumes f \<longleftrightarrow> (\<forall>toks e rest. f toks = Parsed e rest \<longrightarrow> length rest < length toks)"

definition fuelled :: "nat \<Rightarrow> (string list \<Rightarrow> parse_result) \<Rightarrow> bool" where
  "fuelled n f \<longleftrightarrow> (\<forall>toks. length toks < n \<longrightarrow> f toks \<noteq> OutOfFuel)"

lemma consumesD: "consumes f \<Longrightarrow> f toks = Parsed e rest \<Longrightarrow> length rest < length toks"
  by (auto simp: consumes_def)

lemma fuelledD: "fuelled n f \<Longrightarrow> length toks < n \<Longrightarrow> f toks \<noteq> OutOfFuel"
  by (auto simp: fuelled_def)

lemma peek_Cons: "peekOp toks op \<Longrightarrow> length (tl toks) < length toks"
  by (cases toks) (auto simp: peekOp_def)

lemma loop_consumes:
  "consumes nxt \<Longrightarrow> binary_loop k op nxt args toks = Parsed e rest \<Longrightarrow> length rest \<le> length toks"
proof (induction k arbitrary: args toks)
  case (Suc k)
  show ?case
  proof (cases "peekOp toks op")
    case True
    then obtain x r where x: "nxt (tl toks) = Parsed x r" "binary_loop k op nxt (args @ [x]) r = Parsed e rest"
      using Suc.prems by (auto split: parse_result.splits)
    note consumesD [OF Suc.prems(1) x(1)]
    then show ?thesis using Suc.IH [OF Suc.prems(1) x(2)] peek_Cons [OF True] by linarith
  qed (use Suc.prems in simp)
qed simp

lemma binary_consumes: "consumes nxt \<Longrightarrow> consumes (parseBinary k op nxt)"
  unfolding consumes_def parseBinary_def
  by (auto split: parse_result.splits dest!: loop_consumes [unfolded consumes_def, rotated])
    (meson order_le_less_trans)

lemma with_consumes: "consumes atom \<Longrightarrow> consumes (parseWith atom)"
  unfolding consumes_def parseWith_def
  by (auto split: parse_result.splits if_splits) (metis less_trans peek_Cons)

lemma atom_consumes: "consumes (parseAtom k)"
proof (induction k)
  case (Suc k)
  have c: "consumes (parseBinary k ''or'' (parseBinary k ''and'' (parseWith (parseAtom k))))"
    using Suc by (intro binary_consumes with_consumes)
  show ?case unfolding consumes_def
    by (auto split: list.splits if_splits parse_result.splits dest: c [unfolded consumes_def, rule_format])
qed (simp add: consumes_def)

lemma loop_fuelled:
  "consumes nxt \<Longrightarrow> fuelled n nxt \<Longrightarrow> length toks < k \<Longrightarrow> length toks < n \<Longrightarrow> binary_loop k op nxt args toks \<noteq> OutOfFuel"
proof (induction k arbitrary: args toks)
  case (Suc k)
  show ?case
  proof (cases "peekOp toks op")
    case True
    note t = peek_Cons [OF True]
    show ?thesis
    proof (cases "nxt (tl toks)")
      case OutOfFuel
      then show ?thesis using Suc.prems t by (auto simp: fuelled_def)
    next
      case (Parsed e rest)
      show ?thesis using consumesD [OF Suc.prems(1) Parsed] Suc t True Parsed by simp
    qed (use True in simp)
  qed simp
qed simp

lemma binary_fuelled:
  assumes "consumes nxt" "fuelled k nxt"
  shows "fuelled k (parseBinary k op nxt)"
  unfolding fuelled_def
proof (intro allI impI)
  fix toks :: "string list" assume l: "length toks < k"
  show "parseBinary k op nxt toks \<noteq> OutOfFuel"
  proof (cases "nxt toks")
    case (Parsed e rest)
    have "length rest < k" using consumesD [OF assms(1) Parsed] l by simp
    with Parsed show ?thesis using loop_fuelled [OF assms] by (simp add: parseBinary_def)
  qed (use fuelledD [OF assms(2) l] in \<open>simp_all add: parseBinary_def\<close>)
qed

lemma with_fuelled:
  assumes "consumes atom" "fuelled k atom"
  shows "fuelled k (parseWith atom)"
  unfolding fuelled_def
proof (intro allI impI)
  fix toks :: "string list" assume l: "length toks < k"
  show "parseWith atom toks \<noteq> OutOfFuel"
  proof (cases "atom toks")
    case (Parsed e rest)
    show ?thesis
    proof (cases "peekOp rest ''with''")
      case True
      have "length (tl rest) < k" using peek_Cons [OF True] consumesD [OF assms(1) Parsed] l by linarith
      then show ?thesis using Parsed fuelledD [OF assms(2)] by (auto simp: parseWith_def split: parse_result.split)
    qed (simp add: parseWith_def Parsed)
  qed (use fuelledD [OF assms(2) l] in \<open>simp_all add: parseWith_def\<close>)
qed

lemma atom_fuelled: "fuelled k (parseAtom k)"
proof (induction k)
  case (Suc k)
  have f: "fuelled k (parseBinary k ''or'' (parseBinary k ''and'' (parseWith (parseAtom k))))"
    using Suc atom_consumes by (intro binary_fuelled binary_consumes with_fuelled with_consumes)
  show ?case unfolding fuelled_def
    by (auto split: list.split parse_result.split dest: fuelledD [OF f])
qed (simp add: fuelled_def)

text \<open>More fuel changes no answer.\<close>

definition upto :: "parse_result \<Rightarrow> parse_result \<Rightarrow> bool" where
  "upto a b \<longleftrightarrow> a = OutOfFuel \<or> a = b"

lemma upto_refl [simp]: "upto a a" "upto OutOfFuel a" by (simp_all add: upto_def)

lemma upto_case: "upto a b \<Longrightarrow> (\<And>e rest. upto (f e rest) (g e rest)) \<Longrightarrow>
    upto (case a of Parsed e rest \<Rightarrow> f e rest | r \<Rightarrow> r) (case b of Parsed e rest \<Rightarrow> g e rest | r \<Rightarrow> r)"
  by (auto simp: upto_def split: parse_result.splits)

lemma loop_mono: "(\<And>t. upto (nxt t) (nxt' t)) \<Longrightarrow> k \<le> k' \<Longrightarrow> upto (binary_loop k op nxt args toks) (binary_loop k' op nxt' args toks)"
proof (induction k arbitrary: k' args toks)
  case (Suc k)
  then obtain m where m: "k' = Suc m" "k \<le> m" by (cases k') auto
  show ?case
    using upto_case [OF Suc.prems(1) [of "tl toks"], of "\<lambda>e r. binary_loop k op nxt (args @ [e]) r" "\<lambda>e r. binary_loop m op nxt' (args @ [e]) r"]
      Suc.IH [OF Suc.prems(1) m(2)] by (simp add: m)
qed (simp add: upto_def)

lemma binary_mono: "(\<And>t. upto (nxt t) (nxt' t)) \<Longrightarrow> k \<le> k' \<Longrightarrow> upto (parseBinary k op nxt toks) (parseBinary k' op nxt' toks)"
  unfolding parseBinary_def by (rule upto_case) (auto intro: loop_mono)

lemma with_mono: "(\<And>t. upto (atom t) (atom' t)) \<Longrightarrow> upto (parseWith atom toks) (parseWith atom' toks)"
  unfolding parseWith_def by (rule upto_case) (auto intro: upto_case)

lemma atom_mono: "k \<le> k' \<Longrightarrow> upto (parseAtom k toks) (parseAtom k' toks)"
proof (induction k arbitrary: k' toks)
  case (Suc k)
  then obtain m where m: "k' = Suc m" "k \<le> m" by (cases k') auto
  have "upto (parseBinary k ''or'' (parseBinary k ''and'' (parseWith (parseAtom k))) ts)
      (parseBinary m ''or'' (parseBinary m ''and'' (parseWith (parseAtom m))) ts)" for ts
    using Suc.IH [OF m(2)] m(2) by (intro binary_mono with_mono)
  from this [of "tl toks"] show ?case
    by (cases toks) (auto simp: m upto_def [of "parseBinary _ _ _ _"])
qed (simp add: upto_def)

text \<open>
  C30: parsing a license expression always ends.  Fuel for one token more than there are is enough whatever the
  tokens are, more fuel gives the same answer, and what the parser reads is never empty.
\<close>

theorem license_parser_total:
  "parseOr (Suc (length toks)) toks \<noteq> OutOfFuel \<and> parseOr (Suc (length toks) + k) toks = parseOr (Suc (length toks)) toks \<and>
    consumes (parseOr k)"
proof -
  note c = with_consumes [OF atom_consumes] and f = with_fuelled [OF atom_consumes atom_fuelled]
  have "fuelled (Suc (length toks)) (parseOr (Suc (length toks)))"
    unfolding parseOr_def parseAnd_def using c f by (intro binary_fuelled binary_consumes)
  then have "parseOr (Suc (length toks)) toks \<noteq> OutOfFuel" by (auto dest: fuelledD)
  moreover have "upto (parseOr (Suc (length toks)) toks) (parseOr (Suc (length toks) + k) toks)"
    unfolding parseOr_def parseAnd_def by (intro binary_mono with_mono atom_mono) simp_all
  moreover have "consumes (parseOr k)" unfolding parseOr_def parseAnd_def using c by (intro binary_consumes)
  ultimately show ?thesis by (auto simp: upto_def)
qed

section \<open>What passes\<close>

text \<open>The ways to satisfy an expression, each a list of licenses to accept together.\<close>

fun choices :: "license_expr \<Rightarrow> string list list" where
  "choices (LicenseExpr i op args) =
     (if op = ''or'' then concat (map choices args)
      else if op = ''and'' then map concat (product_lists (map choices args))
      else [[i]])"

lemma list_ex_map: "list_ex P (map f xs) = list_ex (\<lambda>x. P (f x)) xs"
  by (induction xs) auto

lemma list_ex_concat: "list_ex P (concat xss) = list_ex (list_ex P) xss"
  by (induction xss) auto

lemma all_product: "list_ex (\<lambda>ys. list_all (list_all Q) ys) (product_lists xss) = list_all (list_ex (list_all Q)) xss"
proof (induction xss)
  case (Cons xs xss)
  have "list_ex (\<lambda>ys. list_all (list_all Q) ys) (product_lists (xs # xss)) =
      (\<exists>x\<in>set xs. list_all Q x \<and> list_ex (\<lambda>ys. list_all (list_all Q) ys) (product_lists xss))"
    by (auto simp: list_ex_iff)
  also have "\<dots> = (list_ex (list_all Q) xs \<and> list_all (list_ex (list_all Q)) xss)"
    unfolding Cons.IH by (auto simp: list_ex_iff [of _ xs])
  finally show ?case by simp
qed simp

text \<open>
  C32: the license decision is about choices.  A license passes exactly when some way to satisfy it, picking a side of
  each \<open>OR\<close> and all sides of each \<open>AND\<close>, accepts only licenses that are not denied and, when there is an
  allowlist, on it.
\<close>

theorem license_choice:
  "LicensePermitted (Some e) allowed denied \<longleftrightarrow> list_ex (list_all (leaf_permitted allowed denied)) (choices e)"
proof -
  have "expr_permitted allowed denied e = list_ex (list_all (leaf_permitted allowed denied)) (choices e)"
  proof (induction e)
    case (LicenseExpr i op args)
    have o: "list_ex (expr_permitted allowed denied) args = list_ex (\<lambda>a. list_ex (list_all (leaf_permitted allowed denied)) (choices a)) args"
      "list_all (expr_permitted allowed denied) args = list_all (\<lambda>a. list_ex (list_all (leaf_permitted allowed denied)) (choices a)) args"
      using LicenseExpr by (auto simp: list_ex_iff list_all_iff)
    have c: "list_all Q (concat ys) = list_all (list_all Q) ys" for Q :: "string \<Rightarrow> bool" and ys by (induction ys) auto
    show ?case
      using all_product [of "leaf_permitted allowed denied" "map choices args"]
      by (auto simp: o list_ex_concat list_ex_map list.pred_map comp_def c)
  qed
  then show ?thesis by (simp add: LicensePermitted_def)
qed

section \<open>Writing an expression\<close>

text \<open>Every operand that is not a single license is written in parentheses.\<close>

fun license_tokens :: "license_expr \<Rightarrow> string list" where
  "license_tokens (LicenseExpr i op args) =
     (if args = [] then [i]
      else tl (concat (map (\<lambda>a. to_upper op # (if le_Args a = [] then license_tokens a else ''('' # license_tokens a @ ['')''])) args)))"

definition operand :: "license_expr \<Rightarrow> string list" where
  "operand a = (if le_Args a = [] then license_tokens a else ''('' # license_tokens a @ ['')''])"

definition license_text :: "license_expr \<Rightarrow> string" where
  "license_text e = join_on CHR '' '' (license_tokens e)"

text \<open>A word that stands for a license: normalised, and no operator, parenthesis or separator.\<close>

definition license_word :: "string \<Rightarrow> bool" where
  "license_word w \<longleftrightarrow> w \<noteq> [] \<and> list_all (\<lambda>c. c \<notin> {CHR ''('', CHR '')'', CHR ''/''} \<and> \<not> is_space c) w \<and>
     \<not> equal_fold w ''or'' \<and> \<not> equal_fold w ''and'' \<and> \<not> equal_fold w ''with'' \<and> normalizeID w = w"

fun license_wf :: "license_expr \<Rightarrow> bool" where
  "license_wf (LicenseExpr i op args) =
     (if args = [] then op = [] \<and> license_word i else i = [] \<and> (op = ''or'' \<or> op = ''and'') \<and> 2 \<le> length args \<and> list_all license_wf args)"

lemma loop_reads:
  assumes "\<And>a r. a \<in> set as \<Longrightarrow> follow r \<Longrightarrow> nxt (operand a @ r) = Parsed a r" "\<And>r. follow (tok # r)" "follow rest"
    "\<not> peekOp rest op" "equal_fold tok op" "length as < k"
  shows "binary_loop k op nxt acc (concat (map (\<lambda>a. tok # operand a) as) @ rest) =
    Parsed (if length (acc @ as) = 1 then hd (acc @ as) else LicenseExpr [] op (acc @ as)) rest"
  using assms(1,6)
proof (induction as arbitrary: acc k)
  case Nil
  then show ?case using assms(4) by (cases k) auto
next
  case (Cons a as)
  obtain m where m: "k = Suc m" using Cons.prems(2) by (cases k) auto
  let ?more = "concat (map (\<lambda>a. tok # operand a) as) @ rest"
  have "follow ?more" using assms(2,3) by (cases as) auto
  then have "nxt (operand a @ ?more) = Parsed a ?more" using Cons.prems(1) by simp
  then show ?case using Cons.IH [of m "acc @ [a]"] Cons.prems assms(5) by (simp add: m peekOp_def)
qed

lemma binary_reads:
  assumes "\<And>a r. a \<in> set as \<Longrightarrow> follow r \<Longrightarrow> nxt (operand a @ r) = Parsed a r" "\<And>r. follow (tok # r)" "follow rest"
    "\<not> peekOp rest op" "equal_fold tok op" "2 \<le> length as" "length as \<le> k"
  shows "parseBinary k op nxt (tl (concat (map (\<lambda>a. tok # operand a) as)) @ rest) = Parsed (LicenseExpr [] op as) rest"
proof -
  obtain a bs where as: "as = a # bs" "bs \<noteq> []" using assms(6) by (cases as) (auto simp: Suc_le_length_iff)
  let ?more = "concat (map (\<lambda>a. tok # operand a) bs) @ rest"
  have "follow ?more" using assms(2,3) by (cases bs) auto
  then have "nxt (operand a @ ?more) = Parsed a ?more" using assms(1) as by simp
  moreover have "binary_loop k op nxt [a] ?more = Parsed (LicenseExpr [] op (a # bs)) rest"
    using loop_reads [of bs follow nxt tok rest op k "[a]"] assms as by auto
  ultimately show ?thesis by (simp add: parseBinary_def as)
qed

lemma binary_single:
  "nxt toks = Parsed e rest \<Longrightarrow> \<not> peekOp rest op \<Longrightarrow> 0 < k \<Longrightarrow> parseBinary k op nxt toks = Parsed e rest"
  by (cases k) (auto simp: parseBinary_def)

abbreviation operands :: "string \<Rightarrow> license_expr list \<Rightarrow> string list" where
  "operands op args \<equiv> tl (concat (map (\<lambda>a. to_upper op # operand a) args))"

lemma license_tokens_op: "args \<noteq> [] \<Longrightarrow> license_tokens (LicenseExpr i op args) = operands op args"
  by (simp add: operand_def)

declare license_tokens.simps [simp del]

lemma operand_simps: "operand (LicenseExpr i op []) = [i]"
  "args \<noteq> [] \<Longrightarrow> operand (LicenseExpr i op args) = ''('' # operands op args @ ['')'']"
  by (simp_all add: operand_def license_tokens.simps)

lemma operand_nonempty: "0 < length (operand a)"
  by (cases a; cases "le_Args a") (auto simp: operand_simps)

lemma operands_length: "length args \<le> length (operands op args)" "a \<in> set args \<Longrightarrow> length (operand a) \<le> length (operands op args)"
proof -
  have "2 * length args \<le> length (concat (map (\<lambda>a. to_upper op # operand a) args))"
  proof (induction args)
    case (Cons a args)
    then show ?case using operand_nonempty [of a] by (simp del: length_greater_0_conv)
  qed simp
  then show "length args \<le> length (operands op args)" by (cases args) auto
  show "a \<in> set args \<Longrightarrow> length (operand a) \<le> length (operands op args)"
    by (induction args) auto
qed

definition stops :: "string list \<Rightarrow> bool" where
  "stops r \<longleftrightarrow> \<not> peekOp r ''or'' \<and> \<not> peekOp r ''and'' \<and> \<not> peekOp r ''with''"

lemma with_single: "atom toks = Parsed e rest \<Longrightarrow> \<not> peekOp rest ''with'' \<Longrightarrow> parseWith atom toks = Parsed e rest"
  by (simp add: parseWith_def)

lemma or_reads:
  assumes atoms: "\<And>a r. a \<in> set args \<Longrightarrow> parseAtom m (operand a @ r) = Parsed a r"
    and op: "op = ''or'' \<or> op = ''and''" and len: "2 \<le> length args" "length args \<le> m" and rest: "stops rest"
  shows "parseOr m (operands op args @ rest) = Parsed (LicenseExpr [] op args) rest"
proof -
  have w: "parseWith (parseAtom m) (operand a @ r) = Parsed a r" if "a \<in> set args" "\<not> peekOp r ''with''" for a r
    using with_single atoms that by blast
  have a: "parseAnd m (operand a @ r) = Parsed a r" if "a \<in> set args" "\<not> peekOp r ''and'' \<and> \<not> peekOp r ''with''" for a r
    unfolding parseAnd_def by (rule binary_single) (use w that len in auto)
  have u: "to_upper ''or'' = ''OR''" "to_upper ''and'' = ''AND''" by code_simp+
  have e: "equal_fold ''OR'' ''or''" "equal_fold ''AND'' ''and''" "\<not> equal_fold ''OR'' ''and''" "\<not> equal_fold ''OR'' ''with''"
    "\<not> equal_fold ''AND'' ''with''" by code_simp+
  show ?thesis
  proof (cases "op = ''or''")
    case True
    have "parseBinary m ''or'' (parseAnd m) (tl (concat (map (\<lambda>a. ''OR'' # operand a) args)) @ rest) = Parsed (LicenseExpr [] ''or'' args) rest"
      by (rule binary_reads [where follow = "\<lambda>r. \<not> peekOp r ''and'' \<and> \<not> peekOp r ''with''"])
        (use a e len rest in \<open>auto simp: stops_def peekOp_def\<close>)
    with True show ?thesis by (simp add: parseOr_def u)
  next
    case False
    have "parseAnd m (tl (concat (map (\<lambda>a. ''AND'' # operand a) args)) @ rest) = Parsed (LicenseExpr [] ''and'' args) rest"
      unfolding parseAnd_def
      by (rule binary_reads [where follow = "\<lambda>r. \<not> peekOp r ''with''"]) (use w e len rest in \<open>auto simp: stops_def peekOp_def\<close>)
    with False op show ?thesis
      using binary_single [of "parseAnd m" _ "LicenseExpr [] ''and'' args" rest "''or''" m] rest len by (auto simp: parseOr_def u stops_def)
  qed
qed

lemma word_parts: "license_word w \<Longrightarrow> w \<noteq> ''('' \<and> w \<noteq> '')''"
  by (auto simp: license_word_def)

lemma atom_reads: "license_wf e \<Longrightarrow> length (operand e) \<le> k \<Longrightarrow> parseAtom k (operand e @ rest) = Parsed e rest"
proof (induction e arbitrary: k rest)
  case (LicenseExpr i op args)
  obtain m where k: "k = Suc m" using LicenseExpr.prems(2) operand_nonempty [of "LicenseExpr i op args"] by (cases k) auto
  show ?case
  proof (cases "args = []")
    case True
    then show ?thesis using LicenseExpr.prems(1) word_parts [of i] by (auto simp: operand_simps k license_word_def)
  next
    case False
    have wf: "i = []" "op = ''or'' \<or> op = ''and''" "2 \<le> length args" "\<And>a. a \<in> set args \<Longrightarrow> license_wf a"
      using LicenseExpr.prems(1) False by (auto simp: list_all_iff)
    have l: "length (operands op args) \<le> m" using LicenseExpr.prems(2) by (simp add: operand_simps(2) [OF False] k)
    have a: "parseAtom m (operand a @ r) = Parsed a r" if "a \<in> set args" for a r
      using LicenseExpr.IH [OF that wf(4) [OF that]] operands_length(2) [OF that, of op] l by simp
    have "stops ('')'' # rest)" by (simp add: stops_def peekOp_def) code_simp
    then have "parseOr m (operands op args @ '')'' # rest) = Parsed (LicenseExpr [] op args) ('')'' # rest)"
      using or_reads [OF a wf(2,3)] operands_length(1) [of args op] l by simp
    then show ?thesis by (simp add: operand_simps(2) [OF False] k parseOr_def parseAnd_def wf(1))
  qed
qed

section \<open>Reading the text\<close>

definition token_ok :: "string \<Rightarrow> bool" where
  "token_ok t \<longleftrightarrow> t \<noteq> [] \<and> list_all (\<lambda>c. \<not> is_space c) t \<and>
     (t = ''('' \<or> t = '')'' \<or> list_all (\<lambda>c. c \<notin> {CHR ''('', CHR '')'', CHR ''/''}) t)"

lemma tokens_ok: "license_wf e \<Longrightarrow> list_all token_ok (operand e)"
proof (induction e)
  case (LicenseExpr i op args)
  show ?case
  proof (cases "args = []")
    case True
    then show ?thesis using LicenseExpr.prems by (auto simp: operand_simps token_ok_def license_word_def list_all_iff)
  next
    case False
    have wf: "op = ''or'' \<or> op = ''and''" "\<forall>a\<in>set args. license_wf a" using LicenseExpr.prems False by (auto simp: list_all_iff)
    have "token_ok (to_upper ''or'')" "token_ok (to_upper ''and'')" "token_ok ''(''" "token_ok '')''" by code_simp+
    then have "list_all token_ok (concat (map (\<lambda>a. to_upper op # operand a) args))" "token_ok ''(''" "token_ok '')''"
      using wf LicenseExpr.IH by (auto simp: list_all_iff)
    then show ?thesis by (cases args) (auto simp: operand_simps False)
  qed
qed

lemma license_tokens_ok: "license_wf e \<Longrightarrow> list_all token_ok (license_tokens e) \<and> license_tokens e \<noteq> []"
  using tokens_ok [of e] operand_nonempty [of e] operands_length(1) [of "le_Args e" "le_Op e"]
  by (cases e; cases "le_Args e") (auto simp: operand_def license_tokens_op license_tokens.simps(1))

lemma tokens_word: "list_all (\<lambda>c. c \<notin> {CHR ''('', CHR '')'', CHR ''/''} \<and> \<not> is_space c) w \<Longrightarrow>
    license_tokens_from cur (w @ s) = license_tokens_from (cur @ w) s"
proof (induction w arbitrary: cur)
  case (Cons c w)
  then have "c \<notin> {CHR '' '', CHR 0x09, CHR 0x0A, CHR 0x0D}" by (auto simp: is_space_def)
  then show ?case using Cons by auto
qed simp

lemma tokens_first:
  assumes "token_ok t" "s = [] \<or> hd s = CHR '' ''"
  shows "license_tokens_from [] (t @ s) = t # license_tokens_from [] (tl s)"
proof -
  have sep: "license_tokens_from cur s = flush_word cur @ license_tokens_from [] (tl s)" for cur
    using assms(2) by (cases s) (auto simp: flush_word_def)
  show ?thesis
  proof (cases "t = ''('' \<or> t = '')''")
    case True
    then show ?thesis using sep [of "[]"] by (auto simp: flush_word_def)
  next
    case False
    then have "list_all (\<lambda>c. c \<notin> {CHR ''('', CHR '')'', CHR ''/''} \<and> \<not> is_space c) t"
      using assms(1) by (auto simp: token_ok_def list_all_iff)
    from tokens_word [OF this, of "[]" s] show ?thesis using assms(1) by (simp add: sep flush_word_def token_ok_def)
  qed
qed

lemma tokenize_join: "list_all token_ok toks \<Longrightarrow> tokenizeLicense (join_on CHR '' '' toks) = toks"
proof (induction toks rule: induct_list012)
  case 1
  then show ?case by (simp add: tokenizeLicense_def flush_word_def)
next
  case (2 t)
  then show ?case using tokens_first [of t "[]"] by (simp add: tokenizeLicense_def flush_word_def)
next
  case (3 t u ts)
  then show ?case using tokens_first [of t "CHR '' '' # join_on CHR '' '' (u # ts)"] by (simp add: tokenizeLicense_def)
qed

lemma trim_ends: "s \<noteq> [] \<Longrightarrow> \<not> is_space (hd s) \<Longrightarrow> \<not> is_space (last s) \<Longrightarrow> trim_space s = s"
proof -
  assume s: "s \<noteq> []" "\<not> is_space (hd s)" "\<not> is_space (last s)"
  have "dropWhile is_space s = s" using s(1,2) by (cases s) auto
  moreover have "dropWhile is_space (rev s) = rev s" using s(1,3) by (cases s rule: rev_cases) auto
  ultimately show ?thesis by (simp add: trim_space_def trim_func_def trim_left_func_def trim_right_func_def)
qed

lemma join_ends: "list_all token_ok toks \<Longrightarrow> toks \<noteq> [] \<Longrightarrow>
    join_on CHR '' '' toks \<noteq> [] \<and> \<not> is_space (hd (join_on CHR '' '' toks)) \<and> \<not> is_space (last (join_on CHR '' '' toks))"
proof (induction toks rule: induct_list012)
  case (2 t)
  then show ?case by (auto simp: token_ok_def list_all_iff)
next
  case (3 t u ts)
  then show ?case by (auto simp: token_ok_def list_all_iff)
qed simp

text \<open>
  License expressions round-trip.  The text of any expression of normalised licenses, operators and parentheses parses
  back to that expression, unless the text is one of the spellings of an unknown license.
\<close>

theorem license_roundtrip:
  assumes "license_wf e" "\<not> unknown_license (license_text e)"
  shows "ParseLicense (license_text e) = Some e"
proof -
  note ok = license_tokens_ok [OF assms(1)]
  let ?toks = "license_tokens e"
  have t: "trim_space (license_text e) = license_text e" "tokenizeLicense (license_text e) = ?toks"
    unfolding license_text_def using ok join_ends [of ?toks] by (auto intro: trim_ends tokenize_join)
  have "parseOr (Suc (length ?toks)) ?toks = Parsed e []"
  proof (cases "le_Args e = []")
    case True
    then have "operand e = ?toks" by (simp add: operand_def)
    then have "parseAtom (Suc (length ?toks)) ?toks = Parsed e []" using atom_reads [OF assms(1), of "Suc (length ?toks)" "[]"] by simp
    then have "parseWith (parseAtom (Suc (length ?toks))) ?toks = Parsed e []" by (simp add: parseWith_def peekOp_def)
    then show ?thesis unfolding parseOr_def parseAnd_def by (intro binary_single) (simp_all add: peekOp_def)
  next
    case False
    obtain op args where e: "e = LicenseExpr [] op args" "args \<noteq> []" "op = ''or'' \<or> op = ''and''" "2 \<le> length args"
        "\<And>a. a \<in> set args \<Longrightarrow> license_wf a"
      using assms(1) False by (cases e) (auto simp: list_all_iff)
    have toks: "?toks = operands op args" using e by (simp add: license_tokens_op)
    have a: "parseAtom (Suc (length ?toks)) (operand a @ r) = Parsed a r" if "a \<in> set args" for a r
      by (rule atom_reads [OF e(5) [OF that]]) (use operands_length(2) [OF that, of op] in \<open>simp add: toks\<close>)
    have "length args \<le> Suc (length ?toks)" using operands_length(1) [of args op] unfolding toks by simp
    then have "parseOr (Suc (length ?toks)) (operands op args @ []) = Parsed (LicenseExpr [] op args) []"
      using or_reads [OF a e(3,4), of "[]"] by (simp add: stops_def peekOp_def)
    then show ?thesis unfolding toks [symmetric] e(1) [symmetric] by simp
  qed
  then show ?thesis using ok assms(2) by (simp add: ParseLicense_def t Let_def)
qed

theorem license_roundtrip_witness:
  "let e = LicenseExpr [] ''or'' [license_leaf ''mit'', LicenseExpr [] ''and'' [license_leaf ''isc'', license_leaf ''gpl-2.0+'']]
   in license_text e = ''mit OR ( isc AND gpl-2.0+ )'' \<and> ParseLicense (license_text e) = Some e \<and>
      LicensePermitted (Some e) [] [''GPL-2.0''] \<and> \<not> LicensePermitted (Some e) [''ISC''] [''GPL-2.0'']"
proof -
  let ?e = "LicenseExpr [] ''or'' [license_leaf ''mit'', LicenseExpr [] ''and'' [license_leaf ''isc'', license_leaf ''gpl-2.0+'']]"
  have "license_wf ?e" "\<not> unknown_license (license_text ?e)" by code_simp+
  note r = license_roundtrip [OF this]
  have "license_text ?e = ''mit OR ( isc AND gpl-2.0+ )'' \<and> LicensePermitted (Some ?e) [] [''GPL-2.0''] \<and>
      \<not> LicensePermitted (Some ?e) [''ISC''] [''GPL-2.0'']" by code_simp
  with r show ?thesis unfolding Let_def by blast
qed

section \<open>The shape of what is parsed\<close>

text \<open>A leaf, or an operator with at least two operands and no license of its own.\<close>

fun license_shape :: "license_expr \<Rightarrow> bool" where
  "license_shape (LicenseExpr i op args) =
     (if args = [] then op = [] else i = [] \<and> (op = ''or'' \<or> op = ''and'') \<and> 2 \<le> length args \<and> list_all license_shape args)"

definition shaped :: "(string list \<Rightarrow> parse_result) \<Rightarrow> bool" where
  "shaped f \<longleftrightarrow> (\<forall>toks e rest. f toks = Parsed e rest \<longrightarrow> license_shape e)"

lemma shapedD: "shaped f \<Longrightarrow> f toks = Parsed e rest \<Longrightarrow> license_shape e"
  by (auto simp: shaped_def)

lemma loop_shaped: "shaped nxt \<Longrightarrow> op = ''or'' \<or> op = ''and'' \<Longrightarrow> list_all license_shape args \<Longrightarrow> args \<noteq> [] \<Longrightarrow>
    binary_loop k op nxt args toks = Parsed e rest \<Longrightarrow> license_shape e"
proof (induction k arbitrary: args toks)
  case (Suc k)
  show ?case
  proof (cases "peekOp toks op")
    case True
    then obtain x r where x: "nxt (tl toks) = Parsed x r" "binary_loop k op nxt (args @ [x]) r = Parsed e rest"
      using Suc.prems(5) by (auto split: parse_result.splits)
    show ?thesis using Suc.IH [OF Suc.prems(1,2) _ _ x(2)] Suc.prems(3) shapedD [OF Suc.prems(1) x(1)] by simp
  next
    case False
    then have e: "e = (if length args = 1 then hd args else LicenseExpr [] op args)" using Suc.prems(5) by simp
    show ?thesis
    proof (cases "length args = 1")
      case True
      then obtain x where "args = [x]" by (cases args) auto
      then show ?thesis using e Suc.prems(3) by simp
    next
      case False
      then have "2 \<le> length args" using Suc.prems(4) by (cases args) (auto simp: Suc_le_eq)
      then show ?thesis using e False Suc.prems by simp
    qed
  qed
qed simp

lemma binary_shaped:
  assumes "shaped nxt" "op = ''or'' \<or> op = ''and''"
  shows "shaped (parseBinary k op nxt)"
  unfolding shaped_def
proof (intro allI impI)
  fix toks e rest assume "parseBinary k op nxt toks = Parsed e rest"
  then obtain x r where x: "nxt toks = Parsed x r" "binary_loop k op nxt [x] r = Parsed e rest"
    by (auto simp: parseBinary_def split: parse_result.splits)
  show "license_shape e" using loop_shaped [OF assms _ _ x(2)] shapedD [OF assms(1) x(1)] by simp
qed

lemma with_shaped: "shaped atom \<Longrightarrow> shaped (parseWith atom)"
  unfolding shaped_def [of "parseWith atom"] parseWith_def
  by (auto split: parse_result.splits if_splits dest: shapedD)

lemma atom_shaped: "shaped (parseAtom k)"
proof (induction k)
  case (Suc k)
  have "shaped (parseBinary k ''or'' (parseBinary k ''and'' (parseWith (parseAtom k))))"
    using Suc by (intro binary_shaped with_shaped) simp_all
  then show ?case unfolding shaped_def [of "parseAtom (Suc k)"]
    by (auto split: list.splits if_splits parse_result.splits dest: shapedD)
qed (simp add: shaped_def)

text \<open>
  Parsed expressions are well formed.  What \<open>ParseLicense\<close> returns has leaves without operator and operators with two operands or
  more, so without any rule every license passes.
\<close>

theorem license_well_formed:
  assumes "ParseLicense s = Some e"
  shows "license_shape e \<and> LicensePermitted (Some e) [] []"
proof -
  have "shaped (parseOr k)" for k
    unfolding parseOr_def parseAnd_def by (intro binary_shaped with_shaped atom_shaped) simp_all
  then have "license_shape e" using assms
    by (auto simp: ParseLicense_def Let_def split: if_splits parse_result.splits list.splits dest: shapedD)
  moreover have "license_shape e \<Longrightarrow> expr_permitted [] [] e" for e
  proof (induction e)
    case (LicenseExpr i op args)
    then show ?case
      by (cases args) (auto simp: leaf_permitted_def licenseIn_def list_all_iff list_ex_iff split: if_splits)
  qed
  ultimately show ?thesis by (simp add: LicensePermitted_def)
qed

theorem license_well_formed_witness:
  "ParseLicense ''(MIT/BSD) AND GPL-3.0'' = Some (LicenseExpr [] ''and''
     [LicenseExpr [] ''or'' [license_leaf ''mit'', license_leaf ''bsd-3-clause''], license_leaf ''gpl-3.0'']) \<and>
   LicensePermitted (ParseLicense ''(MIT/BSD) AND GPL-3.0'') [] []"
proof -
  have "ParseLicense ''(MIT/BSD) AND GPL-3.0'' = Some (LicenseExpr [] ''and''
     [LicenseExpr [] ''or'' [license_leaf ''mit'', license_leaf ''bsd-3-clause''], license_leaf ''gpl-3.0''])" by code_simp
  from license_well_formed [OF this] this show ?thesis by simp
qed

end
