(* ===== verification/Policy.thy ===== *)
theory Policy
  imports Path_Match License "HOL-Library.Word"
begin

text \<open>
  The data-plane policy of \<open>internal/registry/policy\<close> (policy.go, match.go, the labels of cvss.go and the cached client
  of osv.go).  What a registry implements of the optional interfaces, the answer of OSV.dev to one query and the
  scores computed from CVSS vectors (floating point) are parameters.  Times are nanoseconds.
\<close>

section \<open>Package names\<close>

text \<open>The index of the first \<open>**\<close>.\<close>

fun index_stars :: "string \<Rightarrow> nat option" where
  "index_stars (a # b # s) = (if a = CHR ''*'' \<and> b = CHR ''*'' then Some 0 else map_option Suc (index_stars (b # s)))"
| "index_stars _ = None"

abbreviation drop_stars :: "string \<Rightarrow> string" where
  "drop_stars \<equiv> dropWhile (\<lambda>c. c = CHR ''*'')"

lemma index_stars_Some: "index_stars s = Some k \<Longrightarrow> k < length s \<and> has_prefix (drop k s) ''**''"
proof (induction s arbitrary: k rule: index_stars.induct)
  case (1 a b s)
  then show ?case by (auto simp: has_prefix_def split: if_splits)
qed simp_all

lemma drop_stars_shorter: "has_prefix s ''**'' \<Longrightarrow> length (drop_stars s) < length s"
proof -
  assume "has_prefix s ''**''"
  then obtain r where s: "s = CHR ''*'' # CHR ''*'' # r" by (auto simp: has_prefix_iff)
  have "length (drop_stars r) \<le> length r" by (rule length_dropWhile_le)
  then show ?thesis by (simp add: s)
qed

text \<open>The loops over the split positions are searches over the splits of the name.\<close>

function globMatch :: "string \<Rightarrow> string \<Rightarrow> bool" where
  "globMatch pat name =
     (if has_prefix pat ''**'' then
        (let rest = drop_stars pat
         in rest = [] \<or> list_ex (\<lambda>i. globMatch rest (drop i name)) [0..<Suc (length name)])
      else case index_stars pat of
        None \<Rightarrow> path_match pat name
      | Some k \<Rightarrow> list_ex (\<lambda>i. path_match (take k pat) (take i name) \<and> globMatch (drop k pat) (drop i name)) [0..<Suc (length name)])"
  by pat_completeness auto

termination
proof (relation "measure (\<lambda>(p, n). length p)", goal_cases)
  case (2 pat name rest i)
  then show ?case using drop_stars_shorter by simp
next
  case (3 pat name k i)
  have "k \<noteq> 0" using 3 index_stars_Some [of pat k] by (cases k) auto
  then show ?case using index_stars_Some [OF 3(2)] by simp linarith
qed simp

declare globMatch.simps [simp del]

definition MatchName :: "string \<Rightarrow> string \<Rightarrow> bool" where
  "MatchName pat name \<longleftrightarrow> (if pat = [] then False else if pat = ''**'' then True else globMatch pat name)"

definition NameAllowed :: "string list \<Rightarrow> string list \<Rightarrow> string \<Rightarrow> bool" where
  "NameAllowed incl excl name \<longleftrightarrow>
     (if list_ex (\<lambda>p. MatchName p name) excl then False
      else if incl = [] then True else list_ex (\<lambda>p. MatchName p name) incl)"

section \<open>Advisories\<close>

definition severityRank :: "string \<Rightarrow> nat" where
  "severityRank s = (let t = to_lower (trim_space s)
     in if t = ''low'' then 1 else if t = ''moderate'' \<or> t = ''medium'' then 2 else if t = ''high'' then 3
        else if t = ''critical'' then 4 else 0)"

definition NormalizeSeverity :: "string \<Rightarrow> string" where
  "NormalizeSeverity s = (let r = severityRank s
     in if r = 1 then ''low'' else if r = 2 then ''moderate'' else if r = 3 then ''high'' else if r = 4 then ''critical'' else ''unknown'')"

record vuln =
  vu_ID :: string
  vu_Severity :: string
  vu_Aliases :: "string list"

definition add_id :: "string \<Rightarrow> string list \<Rightarrow> string list" where
  "add_id i ids = (if i \<noteq> [] \<and> i \<notin> set ids then ids @ [i] else ids)"

definition blocking :: "vuln list \<Rightarrow> string \<Rightarrow> string list" where
  "blocking vulns minSeverity = (let least = severityRank minSeverity
     in fold (\<lambda>v ids. if least > 0 \<and> severityRank (vu_Severity v) < least then ids
          else fold (\<lambda>a ids. if has_prefix a ''CVE-'' then add_id a ids else ids) (vu_Aliases v) (add_id (vu_ID v) ids)) vulns [])"

text \<open>\<open>[-_.]+\<close> replaced by one dash.\<close>

fun dash_runs :: "bool \<Rightarrow> string \<Rightarrow> string" where
  "dash_runs inrun [] = []"
| "dash_runs inrun (c # s) =
     (if c \<in> {CHR ''-'', CHR ''_'', CHR ''.''} then (if inrun then dash_runs True s else CHR ''-'' # dash_runs True s)
      else c # dash_runs False s)"

definition OSVPackageName :: "string \<Rightarrow> string \<Rightarrow> string" where
  "OSVPackageName eco name =
     (if eco = ''PyPI'' then dash_runs False (to_lower name)
      else if eco = ''Maven'' then
        (if CHR '':'' \<in> set name then name
         else case last_index name CHR ''/'' of
           Some i \<Rightarrow> if i > 0 then map (\<lambda>c. if c = CHR ''/'' then CHR ''.'' else c) (take i name) @ CHR '':'' # drop (i + 1) name else name
         | None \<Rightarrow> name)
      else if eco = ''Packagist'' then to_lower name
      else name)"

definition OSVVersion :: "string \<Rightarrow> string \<Rightarrow> string" where
  "OSVVersion eco version = (if eco = ''Go'' then trim_prefix version ''v'' else version)"

section \<open>The cached OSV client\<close>

datatype cache_entry = CacheEntry (ce_vulns: "vuln list") (ce_expires: int)

record osv_client =
  oc_ttl :: int
  oc_cache :: "(string \<times> cache_entry) list"
  oc_warned :: "string list"

definition maxCacheEntries :: nat where "maxCacheEntries = 10000"

text \<open>\<open>order\<close> is the order in which the range over the map meets the keys.\<close>

fun drop_until :: "nat \<Rightarrow> string list \<Rightarrow> (string \<times> cache_entry) list \<Rightarrow> (string \<times> cache_entry) list" where
  "drop_until target [] c = c"
| "drop_until target (k # ks) c = (if length c \<le> target then c else drop_until target ks (filter (\<lambda>e. fst e \<noteq> k) c))"

definition evict :: "string list \<Rightarrow> int \<Rightarrow> (string \<times> cache_entry) list \<Rightarrow> (string \<times> cache_entry) list" where
  "evict order now c = drop_until (maxCacheEntries * 9 div 10) order (filter (\<lambda>e. now < ce_expires (snd e)) c)"

definition osv_key :: "string \<Rightarrow> string \<Rightarrow> string \<Rightarrow> string" where
  "osv_key eco name version = eco @ CHR 0x00 # OSVPackageName eco name @ CHR 0x00 # OSVVersion eco version"

text \<open>\<open>fetch\<close> is the answer of the service to this query, \<open>None\<close> when the request fails.\<close>

definition query_miss :: "osv_client \<Rightarrow> int \<Rightarrow> string list \<Rightarrow> vuln list option \<Rightarrow> string \<Rightarrow> osv_client \<times> vuln list option" where
  "query_miss c now order fetch key = (case fetch of
     None \<Rightarrow>
       (if key \<in> set (oc_warned c) then c
        else c\<lparr>oc_warned := key # (if length (oc_warned c) \<ge> maxCacheEntries then [] else oc_warned c)\<rparr>, None)
   | Some vulns \<Rightarrow>
       (let kept = (if length (oc_cache c) \<ge> maxCacheEntries then evict order now (oc_cache c) else oc_cache c)
        in (c\<lparr>oc_warned := filter (\<lambda>k. k \<noteq> key) (oc_warned c),
              oc_cache := (key, CacheEntry vulns (now + oc_ttl c)) # filter (\<lambda>e. fst e \<noteq> key) kept\<rparr>, Some vulns)))"

definition query :: "osv_client \<Rightarrow> int \<Rightarrow> string list \<Rightarrow> vuln list option \<Rightarrow> string \<Rightarrow> string \<Rightarrow> string \<Rightarrow> osv_client \<times> vuln list option" where
  "query c now order fetch eco name version = (let key = osv_key eco name version
     in case map_of (oc_cache c) key of
          Some e \<Rightarrow> if now < ce_expires e then (c, Some (ce_vulns e)) else query_miss c now order fetch key
        | None \<Rightarrow> query_miss c now order fetch key)"

section \<open>Evaluation\<close>

record registry_policy =
  rp_Include :: "string list"
  rp_Exclude :: "string list"
  rp_QuarantineDays :: int
  rp_BlockVulnerable :: bool
  rp_MinSeverity :: string
  rp_AllowedLicenses :: "string list"
  rp_DeniedLicenses :: "string list"
  rp_BlockUnknownLicense :: bool
  rp_RequireSignature :: bool

datatype artifact_ref = ArtifactRef (ar_Name: string) (ar_Version: string)

text \<open>\<open>PublishedAt\<close> is \<open>None\<close> for the zero time.\<close>

datatype artifact_meta = ArtifactMeta (am_PublishedAt: "int option") (am_License: string)

datatype signature_error = SigNotFound | SigFailed

text \<open>
  A registry as the gate sees it; the optional interfaces are options.  \<open>gv_sig\<close> is what \<open>HasSignature\<close> returns.
\<close>

record gate_view =
  gv_Type :: string
  gv_policy :: "registry_policy option"
  gv_classify :: "(string \<Rightarrow> artifact_ref option) option"
  gv_info :: "(artifact_ref \<Rightarrow> artifact_meta option) option"
  gv_sig :: "(string \<Rightarrow> string \<Rightarrow> bool \<times> signature_error option) option"

record policy_env =
  pe_now :: int
  pe_order :: "string list"
  pe_fetch :: "string \<Rightarrow> vuln list option"

datatype deny_reason = DenyName | DenyQuarantine int | DenyUnknownLicense | DenyLicense | DenyVulnerable "string list"
  | DenyUnsigned | DenySignature

definition Ecosystem :: "string \<Rightarrow> string" where
  "Ecosystem t = (case map_of [(''go'', ''Go''), (''npm'', ''npm''), (''maven'', ''Maven''), (''pypi'', ''PyPI''), (''cargo'', ''crates.io''),
     (''nuget'', ''NuGet''), (''rubygems'', ''RubyGems''), (''composer'', ''Packagist''), (''pub'', ''Pub''), (''swift'', ''SwiftURL''),
     (''cran'', ''CRAN''), (''conan'', ''ConanCenter'')] t of None \<Rightarrow> [] | Some e \<Rightarrow> e)"

text \<open>\<open>time.Duration(days) * 24 * time.Hour\<close>: 64-bit nanoseconds.\<close>

definition days_duration :: "int \<Rightarrow> int" where
  "days_duration d = sint (word_of_int d * 24 * word_of_int 3600000000000 :: 64 word)"

definition readActive :: "registry_policy \<Rightarrow> bool" where
  "readActive p \<longleftrightarrow> rp_Include p \<noteq> [] \<or> rp_Exclude p \<noteq> [] \<or> rp_QuarantineDays p > 0 \<or> rp_BlockVulnerable p \<or>
     rp_AllowedLicenses p \<noteq> [] \<or> rp_DeniedLicenses p \<noteq> [] \<or> rp_BlockUnknownLicense p \<or> rp_RequireSignature p"

definition checkName :: "registry_policy \<Rightarrow> string \<Rightarrow> deny_reason option" where
  "checkName p name = (if \<not> NameAllowed (rp_Include p) (rp_Exclude p) name then Some DenyName else None)"

definition checkLicense :: "registry_policy \<Rightarrow> string \<Rightarrow> deny_reason option" where
  "checkLicense p license =
     (if rp_AllowedLicenses p = [] \<and> rp_DeniedLicenses p = [] \<and> \<not> rp_BlockUnknownLicense p then None
      else case ParseLicense license of
        None \<Rightarrow> if rp_BlockUnknownLicense p then Some DenyUnknownLicense else None
      | Some e \<Rightarrow> if \<not> LicensePermitted (Some e) (rp_AllowedLicenses p) (rp_DeniedLicenses p) then Some DenyLicense else None)"

definition check_metadata :: "policy_env \<Rightarrow> gate_view \<Rightarrow> registry_policy \<Rightarrow> artifact_ref \<Rightarrow> deny_reason option" where
  "check_metadata env g p ref =
     (if rp_QuarantineDays p > 0 \<or> rp_AllowedLicenses p \<noteq> [] \<or> rp_DeniedLicenses p \<noteq> [] \<or> rp_BlockUnknownLicense p then
        let meta = (case gv_info g of None \<Rightarrow> None | Some info \<Rightarrow> info ref);
            published = (case meta of None \<Rightarrow> None | Some m \<Rightarrow> am_PublishedAt m);
            until = map_option (\<lambda>t. t + days_duration (rp_QuarantineDays p)) published
        in case (if rp_QuarantineDays p > 0 then until else None) of
             Some u \<Rightarrow> if pe_now env < u then Some (DenyQuarantine u)
               else checkLicense p (case meta of None \<Rightarrow> [] | Some m \<Rightarrow> am_License m)
           | None \<Rightarrow> checkLicense p (case meta of None \<Rightarrow> [] | Some m \<Rightarrow> am_License m)
      else None)"

definition check_vulnerable ::
  "osv_client \<Rightarrow> policy_env \<Rightarrow> gate_view \<Rightarrow> registry_policy \<Rightarrow> artifact_ref \<Rightarrow> osv_client \<times> deny_reason option" where
  "check_vulnerable c env g p ref = (let eco = Ecosystem (gv_Type g)
     in if rp_BlockVulnerable p \<and> eco \<noteq> [] then
          (case query c (pe_now env) (pe_order env) (pe_fetch env (osv_key eco (ar_Name ref) (ar_Version ref))) eco (ar_Name ref) (ar_Version ref) of
             (c', None) \<Rightarrow> (c', None)
           | (c', Some vulns) \<Rightarrow> (let ids = blocking vulns (rp_MinSeverity p)
               in (c', if ids = [] then None else Some (DenyVulnerable ids))))
        else (c, None))"

definition check_signature :: "gate_view \<Rightarrow> registry_policy \<Rightarrow> artifact_ref \<Rightarrow> deny_reason option" where
  "check_signature g p ref =
     (if rp_RequireSignature p \<and> gv_Type g = ''docker'' \<and> \<not> has_prefix (ar_Version ref) ''sha256:'' then
        (case gv_sig g of None \<Rightarrow> Some DenyUnsigned
         | Some has \<Rightarrow> (case has (ar_Name ref) (ar_Version ref) of
             (_, Some SigFailed) \<Rightarrow> Some DenySignature
           | (isSigned, _) \<Rightarrow> if isSigned then None else Some DenyUnsigned))
      else None)"

definition evaluate ::
  "osv_client \<Rightarrow> policy_env \<Rightarrow> gate_view \<Rightarrow> registry_policy \<Rightarrow> artifact_ref \<Rightarrow> osv_client \<times> deny_reason option" where
  "evaluate c env g p ref = (case checkName p (ar_Name ref) of
     Some d \<Rightarrow> (c, Some d)
   | None \<Rightarrow>
       if ar_Version ref = [] then (c, None)
       else (case check_metadata env g p ref of
         Some d \<Rightarrow> (c, Some d)
       | None \<Rightarrow> (case check_vulnerable c env g p ref of
           (c', Some d) \<Rightarrow> (c', Some d)
         | (c', None) \<Rightarrow> (c', check_signature g p ref))))"

definition Gate :: "osv_client \<Rightarrow> policy_env \<Rightarrow> gate_view \<Rightarrow> string \<Rightarrow> string \<Rightarrow> osv_client \<times> deny_reason option" where
  "Gate c env g meth path = (case gv_policy g of None \<Rightarrow> (c, None)
   | Some p \<Rightarrow>
       let read = (meth = ''GET'' \<or> meth = ''HEAD'')
       in if \<not> read \<and> (meth = ''OPTIONS'' \<or> (rp_Include p = [] \<and> rp_Exclude p = [])) then (c, None)
          else if read \<and> \<not> readActive p then (c, None)
          else (case gv_classify g of None \<Rightarrow> (c, None)
            | Some classify \<Rightarrow> (case classify path of None \<Rightarrow> (c, None)
                | Some ref \<Rightarrow> if read then evaluate c env g p ref else (c, checkName p (ar_Name ref)))))"

section \<open>What a pattern means\<close>

text \<open>The pieces between runs of two or more stars, and a name that is made of their matches with anything in between.\<close>

function glob_parts :: "string \<Rightarrow> string list" where
  "glob_parts pat = (case index_stars pat of None \<Rightarrow> [pat] | Some k \<Rightarrow> take k pat # glob_parts (drop_stars (drop k pat)))"
  by pat_completeness auto

termination
proof (relation "measure length", goal_cases)
  case (2 pat k)
  have "length (drop_stars (drop k pat)) < length (drop k pat)"
    using drop_stars_shorter index_stars_Some [OF 2] by blast
  then show ?case by simp
qed simp

declare glob_parts.simps [simp del]

fun parts_match :: "string list \<Rightarrow> string \<Rightarrow> bool" where
  "parts_match [] name = False"
| "parts_match [p] name = path_match p name"
| "parts_match (p # q # ps) name = (\<exists>a b c. name = a @ b @ c \<and> path_match p a \<and> parts_match (q # ps) c)"

lemma path_match_Nil [simp]: "path_match [] name \<longleftrightarrow> name = []"
  using path_match_plain [of "[]" name] by simp

lemma glob_parts_not_Nil [simp]: "glob_parts pat \<noteq> []"
  by (subst glob_parts.simps) (simp split: option.split)

lemma parts_match_Cons: "ps \<noteq> [] \<Longrightarrow> parts_match (p # ps) name \<longleftrightarrow> (\<exists>a b c. name = a @ b @ c \<and> path_match p a \<and> parts_match ps c)"
  by (cases ps) auto

lemma index_stars_prefix: "has_prefix pat ''**'' \<Longrightarrow> index_stars pat = Some 0"
  by (auto simp: has_prefix_iff)

lemma index_stars_0: "index_stars pat = Some 0 \<Longrightarrow> has_prefix pat ''**''"
  using index_stars_Some [of pat 0] by simp

lemma splits_ex: "list_ex (\<lambda>i. P (take i xs) (drop i xs)) [0..<Suc (length xs)] \<longleftrightarrow> (\<exists>a b. xs = a @ b \<and> P a b)"
proof
  assume "list_ex (\<lambda>i. P (take i xs) (drop i xs)) [0..<Suc (length xs)]"
  then show "\<exists>a b. xs = a @ b \<and> P a b" by (auto simp: list_ex_iff) (metis append_take_drop_id)+
next
  assume "\<exists>a b. xs = a @ b \<and> P a b"
  then obtain a b where "xs = a @ b" "P a b" by blast
  then show "list_ex (\<lambda>i. P (take i xs) (drop i xs)) [0..<Suc (length xs)]"
    unfolding list_ex_iff by (intro bexI [of _ "length a"]) auto
qed

lemma glob_tail: "has_prefix pat ''**'' \<Longrightarrow> glob_parts pat = [] # glob_parts (drop_stars pat)"
  by (subst glob_parts.simps) (simp add: index_stars_prefix)

lemma globMatch_parts: "globMatch pat name \<longleftrightarrow> parts_match (glob_parts pat) name"
proof (induction pat name rule: globMatch.induct)
  case (1 pat name)
  show ?case
  proof (cases "has_prefix pat ''**''")
    case True
    let ?rest = "drop_stars pat"
    have "globMatch pat name \<longleftrightarrow> ?rest = [] \<or> (\<exists>a b. name = a @ b \<and> globMatch ?rest b)"
      by (subst globMatch.simps) (simp add: True splits_ex [of "\<lambda>a b. globMatch ?rest b" name] del: upt_Suc)
    also have "\<dots> \<longleftrightarrow> ?rest = [] \<or> (\<exists>a b. name = a @ b \<and> parts_match (glob_parts ?rest) b)"
    proof (cases "?rest = []")
      case False
      have "globMatch ?rest b \<longleftrightarrow> parts_match (glob_parts ?rest) b" if "name = a @ b" for a b
        using "1.IH"(1) [OF True refl, of "length a"] False that by simp
      then show ?thesis by blast
    qed simp
    also have "\<dots> \<longleftrightarrow> (\<exists>a b. name = a @ b \<and> parts_match (glob_parts ?rest) b)"
    proof -
      have "parts_match (glob_parts []) []" by (subst glob_parts.simps) simp
      then have "\<exists>a b. name = a @ b \<and> parts_match (glob_parts ?rest) b" if "?rest = []" using that by (metis append_Nil2)
      then show ?thesis by blast
    qed
    finally show ?thesis by (simp add: glob_tail [OF True] parts_match_Cons)
  next
    case False
    show ?thesis
    proof (cases "index_stars pat")
      case None
      then show ?thesis using False by (subst globMatch.simps, subst glob_parts.simps) simp
    next
      case (Some k)
      note pre = index_stars_Some [OF Some]
      have "globMatch pat name \<longleftrightarrow> (\<exists>a b. name = a @ b \<and> path_match (take k pat) a \<and> globMatch (drop k pat) b)"
        using splits_ex [of "\<lambda>a b. path_match (take k pat) a \<and> globMatch (drop k pat) b" name]
        by (subst globMatch.simps) (simp add: False Some del: upt_Suc)
      also have "\<dots> \<longleftrightarrow> (\<exists>a b. name = a @ b \<and> path_match (take k pat) a \<and> parts_match (glob_parts (drop k pat)) b)"
      proof -
        have "globMatch (drop k pat) b \<longleftrightarrow> parts_match (glob_parts (drop k pat)) b" if "name = a @ b" "path_match (take k pat) a" for a b
          using "1.IH"(2) [OF False Some, of "length a"] that by simp
        then show ?thesis by blast
      qed
      also have "\<dots> \<longleftrightarrow> (\<exists>a b c. name = a @ b @ c \<and> path_match (take k pat) a \<and> parts_match (glob_parts (drop_stars (drop k pat))) c)"
        using glob_tail pre by (simp add: parts_match_Cons) blast
      finally show ?thesis using Some by (subst glob_parts.simps) (simp add: parts_match_Cons)
    qed
  qed
qed

text \<open>
  C33: patterns with double stars.  A pattern is its pieces between runs of two or more stars: a name matches when it is made of
  strings the pieces match in order, by \<open>path.Match\<close>, with anything, slashes included, in between.
\<close>

theorem MatchName_parts:
  "MatchName pat name \<longleftrightarrow> pat \<noteq> [] \<and> parts_match (glob_parts pat) name"
proof (cases "pat = ''**''")
  case True
  have "globMatch ''**'' name" by (subst globMatch.simps) (simp add: has_prefix_def)
  then show ?thesis using True globMatch_parts [of "''**''" name] by (simp add: MatchName_def)
qed (simp add: MatchName_def globMatch_parts)

section \<open>Properties of the gate\<close>

lemma add_id_set: "set (add_id i ids) = set ids \<union> {x. x = i \<and> x \<noteq> []}"
  by (auto simp: add_id_def)

lemma fold_alias_set: "set (fold (\<lambda>a ids. if has_prefix a ''CVE-'' then add_id a ids else ids) as ids) =
    set ids \<union> {a \<in> set as. has_prefix a ''CVE-'' \<and> a \<noteq> []}"
  by (induction as arbitrary: ids) (auto simp: add_id_set)

definition counts :: "string \<Rightarrow> vuln \<Rightarrow> bool" where
  "counts minSeverity v \<longleftrightarrow> severityRank minSeverity = 0 \<or> severityRank minSeverity \<le> severityRank (vu_Severity v)"

lemma blocking_set: "set (blocking vulns ms) =
    {i. i \<noteq> [] \<and> (\<exists>v\<in>set vulns. counts ms v \<and> (i = vu_ID v \<or> i \<in> set (vu_Aliases v) \<and> has_prefix i ''CVE-''))}"
proof -
  let ?step = "\<lambda>v ids. if severityRank ms > 0 \<and> severityRank (vu_Severity v) < severityRank ms then ids
          else fold (\<lambda>a ids. if has_prefix a ''CVE-'' then add_id a ids else ids) (vu_Aliases v) (add_id (vu_ID v) ids)"
  have "set (fold ?step vulns ids) = set ids \<union>
      {i. i \<noteq> [] \<and> (\<exists>v\<in>set vulns. counts ms v \<and> (i = vu_ID v \<or> i \<in> set (vu_Aliases v) \<and> has_prefix i ''CVE-''))}" for ids
    by (induction vulns arbitrary: ids) (auto simp: fold_alias_set add_id_set counts_def)
  from this [of "[]"] show ?thesis by (simp add: blocking_def Let_def)
qed

lemma blocking_empty: "blocking vulns ms = [] \<longleftrightarrow>
    (\<forall>v\<in>set vulns. counts ms v \<longrightarrow> vu_ID v = [] \<and> (\<forall>a\<in>set (vu_Aliases v). \<not> has_prefix a ''CVE-''))"
proof -
  have "has_prefix [] ''CVE-'' = False" by (simp add: has_prefix_def)
  then show ?thesis unfolding set_empty [symmetric] blocking_set by (auto; metis)
qed

text \<open>The advisories the gate sees for an artifact: none when the service does not answer.\<close>

definition advisories :: "osv_client \<Rightarrow> policy_env \<Rightarrow> gate_view \<Rightarrow> artifact_ref \<Rightarrow> vuln list" where
  "advisories c env g ref = (let eco = Ecosystem (gv_Type g)
     in if eco = [] then []
        else case snd (query c (pe_now env) (pe_order env) (pe_fetch env (osv_key eco (ar_Name ref) (ar_Version ref))) eco (ar_Name ref) (ar_Version ref)) of
          None \<Rightarrow> [] | Some vs \<Rightarrow> vs)"

definition metadata :: "gate_view \<Rightarrow> artifact_ref \<Rightarrow> artifact_meta" where
  "metadata g ref = (case gv_info g of None \<Rightarrow> ArtifactMeta None []
     | Some info \<Rightarrow> (case info ref of None \<Rightarrow> ArtifactMeta None [] | Some m \<Rightarrow> m))"

definition license_ok :: "registry_policy \<Rightarrow> string \<Rightarrow> bool" where
  "license_ok p l \<longleftrightarrow> (case ParseLicense l of None \<Rightarrow> \<not> rp_BlockUnknownLicense p
     | Some e \<Rightarrow> LicensePermitted (Some e) (rp_AllowedLicenses p) (rp_DeniedLicenses p))"

lemma checkLicense_iff: "checkLicense p l = None \<longleftrightarrow>
    (rp_AllowedLicenses p = [] \<and> rp_DeniedLicenses p = [] \<and> \<not> rp_BlockUnknownLicense p) \<or> license_ok p l"
  by (auto simp: checkLicense_def license_ok_def split: option.splits)

definition quarantined :: "policy_env \<Rightarrow> registry_policy \<Rightarrow> artifact_meta \<Rightarrow> bool" where
  "quarantined env p m \<longleftrightarrow> rp_QuarantineDays p > 0 \<and>
     (case am_PublishedAt m of None \<Rightarrow> False | Some t \<Rightarrow> pe_now env < t + days_duration (rp_QuarantineDays p))"

lemma check_metadata_iff: "check_metadata env g p ref = None \<longleftrightarrow>
    \<not> quarantined env p (metadata g ref) \<and> checkLicense p (am_License (metadata g ref)) = None"
  by (auto simp: check_metadata_def quarantined_def metadata_def Let_def checkLicense_def split: option.splits)

lemma check_vulnerable_iff: "snd (check_vulnerable c env g p ref) = None \<longleftrightarrow>
    \<not> rp_BlockVulnerable p \<or> blocking (advisories c env g ref) (rp_MinSeverity p) = []"
  by (auto simp: check_vulnerable_def advisories_def Let_def blocking_def split: prod.splits option.splits)

lemma check_signature_iff: "check_signature g p ref = None \<longleftrightarrow>
    (rp_RequireSignature p \<and> gv_Type g = ''docker'' \<and> \<not> has_prefix (ar_Version ref) ''sha256:'' \<longrightarrow>
      (\<exists>has. gv_sig g = Some has \<and> fst (has (ar_Name ref) (ar_Version ref)) \<and> snd (has (ar_Name ref) (ar_Version ref)) \<noteq> Some SigFailed))"
  by (auto simp: check_signature_def split: option.splits prod.splits signature_error.splits)

lemma evaluate_iff: "snd (evaluate c env g p ref) = None \<longleftrightarrow> NameAllowed (rp_Include p) (rp_Exclude p) (ar_Name ref) \<and>
    (ar_Version ref = [] \<or> check_metadata env g p ref = None \<and> snd (check_vulnerable c env g p ref) = None \<and> check_signature g p ref = None)"
  by (auto simp: evaluate_def checkName_def split: option.splits prod.splits)

text \<open>
  C6: what the gate lets through.  A classified read of a repository with an active policy passes exactly when its name is allowed and,
  when it names a version, all of these hold: the quarantine is over or the time of publication is unknown; the license passes or no
  license rule is set; no known advisory of the blocking severity has an id or a CVE alias; and a pull by tag that
  needs a signature has one that could be verified.
\<close>

theorem gate_exact:
  assumes "gv_policy g = Some p" "meth = ''GET'' \<or> meth = ''HEAD''" "readActive p" "gv_classify g = Some classify" "classify path = Some ref"
  shows "snd (Gate c env g meth path) = None \<longleftrightarrow> NameAllowed (rp_Include p) (rp_Exclude p) (ar_Name ref) \<and> (ar_Version ref \<noteq> [] \<longrightarrow>
    \<not> quarantined env p (metadata g ref) \<and>
    ((rp_AllowedLicenses p = [] \<and> rp_DeniedLicenses p = [] \<and> \<not> rp_BlockUnknownLicense p) \<or> license_ok p (am_License (metadata g ref))) \<and>
    (rp_BlockVulnerable p \<longrightarrow> (\<forall>v\<in>set (advisories c env g ref). counts (rp_MinSeverity p) v \<longrightarrow>
        vu_ID v = [] \<and> (\<forall>a\<in>set (vu_Aliases v). \<not> has_prefix a ''CVE-''))) \<and>
    (rp_RequireSignature p \<and> gv_Type g = ''docker'' \<and> \<not> has_prefix (ar_Version ref) ''sha256:'' \<longrightarrow>
      (\<exists>has. gv_sig g = Some has \<and> fst (has (ar_Name ref) (ar_Version ref)) \<and> snd (has (ar_Name ref) (ar_Version ref)) \<noteq> Some SigFailed)))"
proof -
  have "snd (Gate c env g meth path) = None \<longleftrightarrow> snd (evaluate c env g p ref) = None"
    using assms by (auto simp: Gate_def Let_def)
  then show ?thesis
    unfolding evaluate_iff check_metadata_iff checkLicense_iff check_vulnerable_iff check_signature_iff blocking_empty by blast
qed

text \<open>
  Names outside the filters neither leave nor enter.  A classified request for a package the include and exclude lists do not allow
  is refused for its name, whatever its method, \<open>OPTIONS\<close> apart, and without asking any service.
\<close>

theorem excluded_never_passes:
  assumes "gv_policy g = Some p" "gv_classify g = Some classify" "classify path = Some ref" "meth \<noteq> ''OPTIONS''"
    "\<not> NameAllowed (rp_Include p) (rp_Exclude p) (ar_Name ref)"
  shows "Gate c env g meth path = (c, Some DenyName)"
proof -
  have "rp_Include p \<noteq> [] \<or> rp_Exclude p \<noteq> []" using assms(5) by (auto simp: NameAllowed_def)
  then show ?thesis using assms by (auto simp: Gate_def Let_def evaluate_def checkName_def readActive_def)
qed

text \<open>
  The range of the quarantine.  Up to 106751 days a version is held back for that many days; with one day more the 64-bit duration is
  negative, and a version published this instant is not held back at all.
\<close>

theorem quarantine_range:
  assumes "0 \<le> d" "d \<le> 106751"
  shows "(quarantined env (p\<lparr>rp_QuarantineDays := d\<rparr>) (ArtifactMeta (Some t) l) \<longleftrightarrow> 0 < d \<and> pe_now env < t + d * 86400000000000) \<and>
    \<not> quarantined env (p\<lparr>rp_QuarantineDays := 106752\<rparr>) (ArtifactMeta (Some (pe_now env)) l)"
proof -
  have "days_duration d = sint (word_of_int (d * 86400000000000) :: 64 word)" by (simp add: days_duration_def mult.commute)
  also have "\<dots> = d * 86400000000000" unfolding sint_sbintrunc' by (rule signed_take_bit_int_eq_self) (use assms in simp_all)
  finally have "days_duration d = d * 86400000000000" .
  moreover have "days_duration 106752 < 0" by (simp add: days_duration_def)
  ultimately show ?thesis by (simp add: quarantined_def)
qed

theorem quarantine_range_witness:
  "quarantined \<lparr>pe_now = 86400000000000, pe_order = [], pe_fetch = (\<lambda>_. None)\<rparr>
     \<lparr>rp_Include = [], rp_Exclude = [], rp_QuarantineDays = 7, rp_BlockVulnerable = False, rp_MinSeverity = [], rp_AllowedLicenses = [],
      rp_DeniedLicenses = [], rp_BlockUnknownLicense = False, rp_RequireSignature = False\<rparr> (ArtifactMeta (Some 0) ''mit'')"
  using quarantine_range [of 7 "\<lparr>pe_now = 86400000000000, pe_order = [], pe_fetch = (\<lambda>_. None)\<rparr>"
      "\<lparr>rp_Include = [], rp_Exclude = [], rp_QuarantineDays = 7, rp_BlockVulnerable = False, rp_MinSeverity = [], rp_AllowedLicenses = [],
        rp_DeniedLicenses = [], rp_BlockUnknownLicense = False, rp_RequireSignature = False\<rparr>" 0 "''mit''"]
  by simp

definition demo_policy :: registry_policy where
  "demo_policy = \<lparr>rp_Include = [''@acme/**''], rp_Exclude = [''**/internal''], rp_QuarantineDays = 0, rp_BlockVulnerable = True,
     rp_MinSeverity = ''high'', rp_AllowedLicenses = [], rp_DeniedLicenses = [''GPL-3.0''], rp_BlockUnknownLicense = False, rp_RequireSignature = False\<rparr>"

definition demo_gate :: gate_view where
  "demo_gate = \<lparr>gv_Type = ''npm'', gv_policy = Some demo_policy,
     gv_classify = Some (\<lambda>path. Some (ArtifactRef path ''1.0.0'')),
     gv_info = Some (\<lambda>_. Some (ArtifactMeta None ''MIT OR GPL-3.0'')), gv_sig = None\<rparr>"

definition demo_osv :: "vuln list option \<Rightarrow> policy_env" where
  "demo_osv answer = \<lparr>pe_now = 0, pe_order = [], pe_fetch = (\<lambda>_. answer)\<rparr>"

definition empty_osv :: osv_client where
  "empty_osv = \<lparr>oc_ttl = 21600000000000, oc_cache = [], oc_warned = []\<rparr>"

theorem gate_exact_witness:
  "snd (Gate empty_osv (demo_osv (Some [\<lparr>vu_ID = ''GHSA-1'', vu_Severity = ''low'', vu_Aliases = []\<rparr>])) demo_gate ''GET'' ''@acme/a/b'') = None \<and>
   snd (Gate empty_osv (demo_osv (Some [\<lparr>vu_ID = ''GHSA-1'', vu_Severity = ''critical'', vu_Aliases = []\<rparr>])) demo_gate ''GET'' ''@acme/a'') \<noteq> None"
proof -
  let ?low = "\<lparr>vu_ID = ''GHSA-1'', vu_Severity = ''low'', vu_Aliases = []\<rparr>" and ?crit = "\<lparr>vu_ID = ''GHSA-1'', vu_Severity = ''critical'', vu_Aliases = []\<rparr>"
  have h: "gv_policy demo_gate = Some demo_policy" "''GET'' = ''GET'' \<or> ''GET'' = ''HEAD''" "readActive demo_policy"
    "gv_classify demo_gate = Some (\<lambda>path. Some (ArtifactRef path ''1.0.0''))"
    by (simp_all add: demo_gate_def demo_policy_def readActive_def)
  have n: "NameAllowed (rp_Include demo_policy) (rp_Exclude demo_policy) ''@acme/a/b''" by code_simp
  have q: "\<not> quarantined (demo_osv a) demo_policy (metadata demo_gate ref)" for a ref by (simp add: quarantined_def demo_policy_def)
  have l: "license_ok demo_policy (am_License (metadata demo_gate ref))" for ref
    by (simp add: metadata_def demo_gate_def) code_simp
  have a: "advisories empty_osv (demo_osv (Some vs)) demo_gate (ArtifactRef n ''1.0.0'') = vs" for vs n
    by (simp add: advisories_def demo_gate_def Ecosystem_def query_def query_miss_def empty_osv_def demo_osv_def Let_def)
  have c: "\<not> counts ''high'' ?low" "counts ''high'' ?crit" by code_simp+
  show ?thesis
    using gate_exact [OF h refl, of empty_osv "demo_osv (Some [?low])" "''@acme/a/b''"]
      gate_exact [OF h refl, of empty_osv "demo_osv (Some [?crit])" "''@acme/a''"] n q l a c
    by (simp add: demo_policy_def [THEN arg_cong [of _ _ rp_MinSeverity]] demo_policy_def [THEN arg_cong [of _ _ rp_BlockVulnerable]]
        demo_policy_def [THEN arg_cong [of _ _ rp_RequireSignature]])
qed

theorem excluded_never_passes_witness:
  "Gate empty_osv (demo_osv None) demo_gate ''PUT'' ''@acme/a/internal'' = (empty_osv, Some DenyName)"
proof -
  have "gv_policy demo_gate = Some demo_policy" "gv_classify demo_gate = Some (\<lambda>path. Some (ArtifactRef path ''1.0.0''))"
    by (simp_all add: demo_gate_def)
  moreover have "\<not> NameAllowed (rp_Include demo_policy) (rp_Exclude demo_policy) (ar_Name (ArtifactRef ''@acme/a/internal'' ''1.0.0''))" by code_simp
  ultimately show ?thesis
    using excluded_never_passes [of demo_gate demo_policy _ "''@acme/a/internal''" "ArtifactRef ''@acme/a/internal'' ''1.0.0''" "''PUT''"] by simp
qed

section \<open>The cache of advisories\<close>

text \<open>One query: the time, the order of the map, the answer of the service and the package.\<close>

record osv_event =
  oe_now :: int
  oe_order :: "string list"
  oe_fetch :: "vuln list option"
  oe_eco :: string
  oe_name :: string
  oe_version :: string

definition osv_step :: "osv_event \<Rightarrow> osv_client \<Rightarrow> osv_client \<times> vuln list option" where
  "osv_step e c = query c (oe_now e) (oe_order e) (oe_fetch e) (oe_eco e) (oe_name e) (oe_version e)"

abbreviation osv_run :: "osv_event list \<Rightarrow> osv_client \<Rightarrow> osv_client" where
  "osv_run hist c \<equiv> fold (\<lambda>e c. fst (osv_step e c)) hist c"

definition event_key :: "osv_event \<Rightarrow> string" where
  "event_key e = osv_key (oe_eco e) (oe_name e) (oe_version e)"

definition backed :: "osv_event list \<Rightarrow> osv_client \<Rightarrow> bool" where
  "backed hist c \<longleftrightarrow> (\<forall>(k, e)\<in>set (oc_cache c). \<exists>h\<in>set hist. event_key h = k \<and> oe_fetch h = Some (ce_vulns e) \<and>
     ce_expires e = oe_now h + oc_ttl c)"

lemma evict_subset: "set (evict order now c) \<subseteq> set c"
proof -
  have "set (drop_until n order c) \<subseteq> set c" for n c
  proof (induction n order c rule: drop_until.induct)
    case (2 target k ks c)
    then show ?case by (auto split: if_splits)
  qed simp
  then show ?thesis unfolding evict_def by (meson filter_is_subset order_trans)
qed

lemma step_ttl: "oc_ttl (fst (osv_step e c)) = oc_ttl c"
  by (simp add: osv_step_def query_def query_miss_def Let_def split: option.split)

lemma miss_backed:
  "backed hist c \<Longrightarrow> backed (hist @ [e]) (fst (query_miss c (oe_now e) (oe_order e) (oe_fetch e) (event_key e)))"
  using evict_subset [of "oe_order e" "oe_now e" "oc_cache c"]
  by (auto simp: backed_def query_miss_def Let_def split: option.splits)

lemma step_backed: "backed hist c \<Longrightarrow> backed (hist @ [e]) (fst (osv_step e c))"
  using miss_backed [of hist c e]
  by (auto simp: osv_step_def query_def Let_def event_key_def backed_def split: option.splits)

lemma run_backed: "oc_cache c0 = [] \<Longrightarrow> backed hist (osv_run hist c0) \<and> oc_ttl (osv_run hist c0) = oc_ttl c0"
proof (induction hist rule: rev_induct)
  case (snoc e hist)
  then show ?case using step_backed [of hist "osv_run hist c0" e] by (simp add: step_ttl)
qed (simp add: backed_def)

text \<open>
  Advisories are at most six hours old.  After any history of queries from an empty cache, an answer is the one the service gave for
  the same package and version less than the time to live ago, in an earlier query or in this one; a failed request is never
  remembered as an answer.
\<close>

theorem advisories_fresh:
  assumes "oc_cache c0 = []" "0 < oc_ttl c0" "snd (osv_step e (osv_run hist c0)) = Some vs"
  shows "\<exists>h\<in>set (hist @ [e]). event_key h = event_key e \<and> oe_fetch h = Some vs \<and> oe_now e < oe_now h + oc_ttl c0"
proof -
  let ?c = "osv_run hist c0"
  note b = run_backed [OF assms(1), of hist]
  show ?thesis
  proof (cases "\<exists>ce. map_of (oc_cache ?c) (event_key e) = Some ce \<and> oe_now e < ce_expires ce")
    case True
    then obtain ce where ce: "map_of (oc_cache ?c) (event_key e) = Some ce" "oe_now e < ce_expires ce" by blast
    then have "vs = ce_vulns ce" using assms(3) by (simp add: osv_step_def query_def event_key_def Let_def)
    then show ?thesis using map_of_SomeD [OF ce(1)] ce(2) b by (fastforce simp: backed_def)
  next
    case False
    then have "snd (query_miss ?c (oe_now e) (oe_order e) (oe_fetch e) (event_key e)) = Some vs"
      using assms(3) by (auto simp: osv_step_def query_def event_key_def Let_def split: option.splits if_splits)
    then have "oe_fetch e = Some vs" by (simp add: query_miss_def Let_def split: option.splits)
    then show ?thesis using assms(2) by auto
  qed
qed

definition demo_event :: "int \<Rightarrow> vuln list option \<Rightarrow> osv_event" where
  "demo_event t answer = \<lparr>oe_now = t, oe_order = [], oe_fetch = answer, oe_eco = ''npm'', oe_name = ''left-pad'', oe_version = ''1.0.0''\<rparr>"

theorem advisories_fresh_witness:
  "let v = \<lparr>vu_ID = ''GHSA-1'', vu_Severity = ''high'', vu_Aliases = []\<rparr>; hist = [demo_event 0 (Some [v])]; e = demo_event 5 None
   in snd (osv_step e (osv_run hist empty_osv)) = Some [v] \<and> (\<exists>h\<in>set (hist @ [e]). oe_fetch h = Some [v])"
proof -
  let ?v = "\<lparr>vu_ID = ''GHSA-1'', vu_Severity = ''high'', vu_Aliases = []\<rparr>"
  have s: "snd (osv_step (demo_event 5 None) (osv_run [demo_event 0 (Some [?v])] empty_osv)) = Some [?v]"
    by (simp add: osv_step_def query_def query_miss_def empty_osv_def demo_event_def Let_def)
  have "oc_cache empty_osv = []" "0 < oc_ttl empty_osv" by (simp_all add: empty_osv_def)
  from advisories_fresh [OF this s] s show ?thesis unfolding Let_def by blast
qed

end
