(* ===== verification/Retention.thy ===== *)
theory Retention
  imports Semver Policy
begin

text \<open>
  Retention of versions: \<open>internal/registry/ops/retention.go\<close> and \<open>sortNewestFirst\<close> of \<open>ops/search.go\<close>.  A registry is seen
  through what it lists, the timestamps of its details and artifact infos (each as the instant it parses to), and its
  deletion, which is an argument; a run is not cancelled half way.  Instants and spans are nanoseconds.
\<close>

section \<open>The plan\<close>

record retention_policy =
  rt_KeepLastVersions :: int
  rt_MaxVersionAgeDays :: int
  rt_KeepPatterns :: "string list"

datatype retention_reason = Beyond int | Older int

type_synonym retention_item = "string \<times> string \<times> retention_reason"

datatype plan_error = PlanNotLocal | PlanNoLister | PlanNoDeleter | PlanListFailed

text \<open>What the plan reads of a registry: its kind, its listing if it has one, whether it deletes versions, its rows and infos.\<close>

record registry_view =
  rv_Kind :: string
  rv_ListPackages :: "(string \<times> string list) list option option"
  rv_deletes :: bool
  rv_detail :: "string \<Rightarrow> (string \<times> unix_time option) list"
  rv_info :: "string \<Rightarrow> string \<Rightarrow> unix_time option"

definition sortNewestFirst :: "string list \<Rightarrow> string list" where
  "sortNewestFirst = slice_stable (\<lambda>a b. CompareVersions a b > 0)"

definition keepByPattern :: "string list \<Rightarrow> string \<Rightarrow> bool" where
  "keepByPattern patterns version \<longleftrightarrow> list_ex (\<lambda>p. p \<noteq> [] \<and> path_match p version) patterns"

definition collectDetailTimes :: "(string \<times> unix_time option) list \<Rightarrow> (string \<rightharpoonup> unix_time)" where
  "collectDetailTimes rows = foldl (\<lambda>m (v, t). case t of None \<Rightarrow> m | Some t \<Rightarrow> m(v \<mapsto> t)) (\<lambda>_. None) rows"

definition publishTimes :: "registry_view \<Rightarrow> string \<Rightarrow> string list \<Rightarrow> (string \<rightharpoonup> unix_time)" where
  "publishTimes reg name versions = (let out = collectDetailTimes (rv_detail reg name)
     in (\<lambda>v. case out v of Some t \<Rightarrow> Some t | None \<Rightarrow> if v \<in> set versions then rv_info reg name v else None))"

text \<open>\<open>Time.Sub\<close> saturates.\<close>

definition time_sub :: "unix_time \<Rightarrow> unix_time \<Rightarrow> int" where
  "time_sub a b = max (- (2 ^ 63)) (min (2 ^ 63 - 1) (a - b))"

definition plan_version ::
  "retention_policy \<Rightarrow> unix_time \<Rightarrow> (string \<rightharpoonup> unix_time) \<Rightarrow> nat \<Rightarrow> string \<Rightarrow> retention_reason option" where
  "plan_version pol now published i v =
     (if i = 0 \<or> keepByPattern (rt_KeepPatterns pol) v then None
      else if rt_KeepLastVersions pol > 0 \<and> int i \<ge> rt_KeepLastVersions pol then Some (Beyond (rt_KeepLastVersions pol))
      else if rt_MaxVersionAgeDays pol > 0 then
        (case published v of None \<Rightarrow> None
         | Some t \<Rightarrow> if time_sub now t > days_duration (rt_MaxVersionAgeDays pol) then Some (Older (rt_MaxVersionAgeDays pol)) else None)
      else None)"

definition plan_package :: "registry_view \<Rightarrow> retention_policy \<Rightarrow> unix_time \<Rightarrow> string \<times> string list \<Rightarrow> retention_item list" where
  "plan_package reg pol now p =
     (let vs = sortNewestFirst (snd p);
          published = (if rt_MaxVersionAgeDays pol > 0 \<and> length vs > 1 then publishTimes reg (fst p) (drop 1 vs) else (\<lambda>_. None))
      in List.map_filter (\<lambda>(i, v). map_option (\<lambda>r. (fst p, v, r)) (plan_version pol now published i v)) (enumerate 0 vs))"

definition PlanRetention :: "registry_view \<Rightarrow> retention_policy \<Rightarrow> unix_time \<Rightarrow> plan_error + retention_item list" where
  "PlanRetention reg pol now =
     (if rv_Kind reg \<noteq> ''local'' then Err PlanNotLocal
      else case rv_ListPackages reg of None \<Rightarrow> Err PlanNoLister
      | Some listing \<Rightarrow>
          if \<not> rv_deletes reg then Err PlanNoDeleter
          else if rt_KeepLastVersions pol \<le> 0 \<and> rt_MaxVersionAgeDays pol \<le> 0 then Ok []
          else (case listing of None \<Rightarrow> Err PlanListFailed
            | Some pkgs \<Rightarrow> Ok (concat (map (plan_package reg pol now) pkgs))))"

section \<open>Applying it\<close>

text \<open>\<open>del\<close> is the registry's \<open>DeleteVersion\<close> and \<open>gone\<close> tells the error \<open>ErrPackageNotFound\<close>.\<close>

fun ApplyRetention ::
  "('s \<Rightarrow> string \<Rightarrow> string \<Rightarrow> 's \<times> 'e option) \<Rightarrow> ('e \<Rightarrow> bool) \<Rightarrow> retention_item list \<Rightarrow> 's \<Rightarrow> 's \<times> nat \<times> 'e list" where
  "ApplyRetention del gone [] s = (s, 0, [])"
| "ApplyRetention del gone ((n, v, r) # its) s = (case del s n v of
     (s', None) \<Rightarrow> (case ApplyRetention del gone its s' of (t, k, es) \<Rightarrow> (t, Suc k, es))
   | (s', Some e) \<Rightarrow> (case ApplyRetention del gone its s' of (t, k, es) \<Rightarrow> (t, k, if gone e then es else e # es)))"

text \<open>
  What a local registry promises for retention: deleting a version leaves what every other holds, and when it succeeds, or
  finds nothing to delete, the version holds nothing.
\<close>

locale version_store =
  fixes del :: "'s \<Rightarrow> string \<Rightarrow> string \<Rightarrow> 's \<times> 'e option"
    and gone :: "'e \<Rightarrow> bool"
    and content :: "'s \<Rightarrow> string \<Rightarrow> string \<Rightarrow> 'c"
    and missing :: 'c
    and ok :: "'s \<Rightarrow> bool"
    and named :: "string \<Rightarrow> string \<Rightarrow> bool"
  assumes del_ok: "ok s \<Longrightarrow> ok (fst (del s n v))"
    and del_other: "ok s \<Longrightarrow> named n v \<Longrightarrow> named n' v' \<Longrightarrow> (n, v) \<noteq> (n', v') \<Longrightarrow> content (fst (del s n v)) n' v' = content s n' v'"
    and del_missing: "ok s \<Longrightarrow> named n v \<Longrightarrow> del s n v = (s', None) \<Longrightarrow> content s' n v = missing"
    and del_gone: "ok s \<Longrightarrow> named n v \<Longrightarrow> del s n v = (s', Some e) \<Longrightarrow> gone e \<Longrightarrow> content s' n v = missing"
begin

abbreviation run :: "retention_item list \<Rightarrow> 's \<Rightarrow> 's \<times> nat \<times> 'e list" where
  "run \<equiv> ApplyRetention del gone"

abbreviation items_named :: "retention_item list \<Rightarrow> bool" where
  "items_named its \<equiv> list_all (\<lambda>(n, v, r). named n v) its"

lemma run_Cons:
  "fst (run ((n, v, r) # its) s) = fst (run its (fst (del s n v)))"
  "snd (snd (run ((n, v, r) # its) s)) = [] \<longleftrightarrow>
     (case snd (del s n v) of None \<Rightarrow> True | Some e \<Rightarrow> gone e) \<and> snd (snd (run its (fst (del s n v)))) = []"
  by (auto split: prod.split option.split)

lemma run_ok: "ok s \<Longrightarrow> ok (fst (run its s))"
proof (induction its arbitrary: s)
  case (Cons it its)
  then show ?case using del_ok by (cases it) (simp only: run_Cons)
qed simp

text \<open>A version that no deletion of a named version touches keeps what it holds.\<close>

lemma run_fixed:
  "(\<And>s m w. ok s \<Longrightarrow> named m w \<Longrightarrow> content (fst (del s m w)) n v = content s n v) \<Longrightarrow> ok s \<Longrightarrow>
   items_named its \<Longrightarrow> content (fst (run its s)) n v = content s n v"
proof (induction its arbitrary: s)
  case (Cons it its)
  obtain m w r where it: "it = (m, w, r)" by (cases it)
  have "content (fst (del s m w)) n v = content s n v" using Cons.prems by (auto simp: it)
  then show ?case using Cons.IH [of "fst (del s m w)"] Cons.prems del_ok unfolding it run_Cons by simp
qed simp

text \<open>A version the plan does not name keeps what it holds, whether or not deletions fail.\<close>

lemma run_keeps:
  "ok s \<Longrightarrow> items_named its \<Longrightarrow> named n v \<Longrightarrow> (n, v) \<notin> (\<lambda>(n, v, r). (n, v)) ` set its \<Longrightarrow>
   content (fst (run its s)) n v = content s n v"
proof (induction its arbitrary: s)
  case (Cons it its)
  obtain m w r where it: "it = (m, w, r)" by (cases it)
  have "content (fst (del s m w)) n v = content s n v" using Cons.prems by (intro del_other) (auto simp: it)
  then show ?case using Cons.IH [of "fst (del s m w)"] Cons.prems del_ok unfolding it run_Cons by simp
qed simp

lemma run_missing: "ok s \<Longrightarrow> items_named its \<Longrightarrow> named n v \<Longrightarrow> content s n v = missing \<Longrightarrow> snd (snd (run its s)) = [] \<Longrightarrow>
   content (fst (run its s)) n v = missing"
proof (induction its arbitrary: s)
  case (Cons it its)
  obtain m w r where it: "it = (m, w, r)" by (cases it)
  obtain s1 e where d: "del s m w = (s1, e)" by fastforce
  have e: "e = None \<or> (\<exists>x. e = Some x \<and> gone x)" "snd (snd (run its s1)) = []"
    using Cons.prems(5) unfolding it run_Cons d by (auto split: option.splits)
  have "content s1 n v = missing"
  proof (cases "(m, w) = (n, v)")
    case True
    then show ?thesis using e(1) d Cons.prems del_missing [of s n v s1] del_gone [of s n v s1] by auto
  next
    case False
    then show ?thesis using del_other [of s m w n v] Cons.prems d by (simp add: it)
  qed
  then show ?case using Cons.IH [of s1] Cons.prems del_ok [of s m w] d e(2) unfolding it run_Cons by simp
qed simp

text \<open>A run without errors leaves nothing of the versions it names.\<close>

lemma run_removes:
  "ok s \<Longrightarrow> items_named its \<Longrightarrow> (n, v, r) \<in> set its \<Longrightarrow> snd (snd (run its s)) = [] \<Longrightarrow> content (fst (run its s)) n v = missing"
proof (induction its arbitrary: s)
  case (Cons it its)
  obtain m w q where it: "it = (m, w, q)" by (cases it)
  obtain s1 e where d: "del s m w = (s1, e)" by fastforce
  have e: "e = None \<or> (\<exists>x. e = Some x \<and> gone x)" "snd (snd (run its s1)) = []"
    using Cons.prems(4) unfolding it run_Cons d by (auto split: option.splits)
  have ok: "ok s1" using del_ok [OF Cons.prems(1), of m w] d by simp
  show ?case
  proof (cases "(n, v, r) \<in> set its")
    case True
    then show ?thesis using Cons.IH [OF ok] Cons.prems e(2) d unfolding it run_Cons by simp
  next
    case False
    then have "(n, v) = (m, w)" using Cons.prems(3) it by auto
    moreover have "content s1 m w = missing"
      using e(1) d Cons.prems(1,2) del_missing [of s m w s1] del_gone [of s m w s1] by (auto simp: it)
    ultimately show ?thesis using run_missing [OF ok, of its m w] Cons.prems e(2) d unfolding it run_Cons by simp
  qed
qed simp

end

section \<open>Facts about the plan\<close>

definition planned :: "retention_item list \<Rightarrow> string \<Rightarrow> string \<Rightarrow> bool" where
  "planned its n v \<longleftrightarrow> list_ex (\<lambda>(m, w, r). m = n \<and> w = v) its"

lemma planned_iff: "planned its n v \<longleftrightarrow> (\<exists>r. (n, v, r) \<in> set its)"
  by (auto simp: planned_def list_ex_iff)

lemma mset_newest [simp]: "mset (sortNewestFirst vs) = mset vs"
  by (simp add: sortNewestFirst_def)

lemma newest_sorted: "sorted_wrt (\<lambda>a b. CompareVersions a b \<ge> 0) (sortNewestFirst vs)"
proof -
  have "0 < CompareVersions a b \<longleftrightarrow> CompareVersions b a < 0" for a b using CompareVersions_swap [of a b] by auto
  then have "sortNewestFirst vs = slice_stable (\<lambda>a b. CompareVersions b a < 0) vs" by (simp add: sortNewestFirst_def)
  moreover have "sorted_wrt (\<lambda>a b. CompareVersions b a \<le> 0) (slice_stable (\<lambda>a b. CompareVersions b a < 0) vs)"
    by (rule tolerant.desc.slice_stable_sorted) simp
  moreover have "CompareVersions b a \<le> 0 \<longleftrightarrow> CompareVersions a b \<ge> 0" for a b using CompareVersions_swap [of a b] by auto
  ultimately show ?thesis by simp
qed

lemma newest_length [simp]: "length (sortNewestFirst vs) = length vs"
  using mset_newest by (metis size_mset)

lemma newest_set [simp]: "set (sortNewestFirst vs) = set vs"
  using mset_newest by (metis set_mset_mset)

lemma newest_distinct [simp]: "distinct (sortNewestFirst vs) \<longleftrightarrow> distinct vs"
  using mset_newest by (metis mset_eq_imp_distinct_iff)

lemma filter_bounded: "(\<And>i. i < length xs \<Longrightarrow> P (xs ! i) \<Longrightarrow> i < k) \<Longrightarrow> length (filter P xs) \<le> k"
proof -
  assume b: "\<And>i. i < length xs \<Longrightarrow> P (xs ! i) \<Longrightarrow> i < k"
  have "\<not> P (xs ! (k + i))" if "i < length xs - k" for i
  proof -
    have "k + i < length xs" using that by linarith
    then show ?thesis using b [of "k + i"] by fastforce
  qed
  then have "filter P (drop k xs) = []" by (auto simp: filter_empty_conv in_set_conv_nth)
  then have "filter P xs = filter P (take k xs)" by (metis append_Nil2 append_take_drop_id filter_append)
  then show ?thesis by (metis length_filter_le length_take min.bounded_iff order_trans)
qed

lemma filter_at_least: "(\<And>i. i < length xs \<Longrightarrow> i < k \<Longrightarrow> P (xs ! i)) \<Longrightarrow> min k (length xs) \<le> length (filter P xs)"
proof -
  assume "\<And>i. i < length xs \<Longrightarrow> i < k \<Longrightarrow> P (xs ! i)"
  then have "filter P (take k xs) = take k xs" by (auto simp: filter_id_conv in_set_conv_nth)
  then have "length (take k xs) \<le> length (filter P xs)"
    by (metis append_take_drop_id filter_append le_add1 length_append)
  then show ?thesis by simp
qed

lemma plan_package_iff:
  "(n, v, r) \<in> set (plan_package reg pol now (m, vs)) \<longleftrightarrow> n = m \<and> (\<exists>i < length vs. sortNewestFirst vs ! i = v \<and>
     plan_version pol now (if rt_MaxVersionAgeDays pol > 0 \<and> length vs > 1 then publishTimes reg m (drop 1 (sortNewestFirst vs)) else (\<lambda>_. None))
       i v = Some r)"
proof -
  obtain pub where pub: "(if rt_MaxVersionAgeDays pol > 0 \<and> length vs > 1 then publishTimes reg m (drop 1 (sortNewestFirst vs)) else (\<lambda>_. None)) = pub"
    by blast
  have "(n, v, r) \<in> set (plan_package reg pol now (m, vs)) \<longleftrightarrow>
      (\<exists>p\<in>set (enumerate 0 (sortNewestFirst vs)). map_option (\<lambda>r. (m, snd p, r)) (plan_version pol now pub (fst p) (snd p)) = Some (n, v, r))"
    unfolding plan_package_def Let_def fst_conv snd_conv newest_length pub by (simp add: case_prod_beta)
  also have "\<dots> \<longleftrightarrow> n = m \<and> (\<exists>i < length vs. sortNewestFirst vs ! i = v \<and> plan_version pol now pub i v = Some r)"
    unfolding in_set_enumerate_eq Bex_def by fastforce
  finally show ?thesis unfolding pub .
qed

lemma plan_parts:
  assumes "PlanRetention reg pol now = Ok its" "rv_ListPackages reg = Some (Some pkgs)"
  shows "set its \<subseteq> set (concat (map (plan_package reg pol now) pkgs))"
    "rt_KeepLastVersions pol > 0 \<or> rt_MaxVersionAgeDays pol > 0 \<Longrightarrow> its = concat (map (plan_package reg pol now) pkgs)"
  using assms by (auto simp: PlanRetention_def split: if_splits)

text \<open>With distinct packages and versions, whether a version is planned is decided at its place in the sorted list.\<close>

lemma planned_at:
  assumes "PlanRetention reg pol now = Ok its" "rv_ListPackages reg = Some (Some pkgs)" "distinct (map fst pkgs)"
    "(n, vs) \<in> set pkgs" "distinct vs" "i < length vs" "rt_KeepLastVersions pol > 0 \<or> rt_MaxVersionAgeDays pol > 0"
  obtains published where "planned its n (sortNewestFirst vs ! i) \<longleftrightarrow> plan_version pol now published i (sortNewestFirst vs ! i) \<noteq> None"
proof -
  let ?ss = "sortNewestFirst vs"
  let ?pub = "if rt_MaxVersionAgeDays pol > 0 \<and> length vs > 1 then publishTimes reg n (drop 1 ?ss) else (\<lambda>_. None)"
  have its: "its = concat (map (plan_package reg pol now) pkgs)" using plan_parts(2) [OF assms(1,2,7)] .
  have "planned its n (?ss ! i) \<longleftrightarrow> (\<exists>r ws. (n, ws) \<in> set pkgs \<and> (n, ?ss ! i, r) \<in> set (plan_package reg pol now (n, ws)))"
  proof -
    have "p = (n, snd p)" if "(n, v, r) \<in> set (plan_package reg pol now p)" for p v r
      using that plan_package_iff [of n v r reg pol now "fst p" "snd p"] by (cases p) simp
    then have "(\<exists>p\<in>set pkgs. (n, ?ss ! i, r) \<in> set (plan_package reg pol now p)) \<longleftrightarrow>
        (\<exists>ws. (n, ws) \<in> set pkgs \<and> (n, ?ss ! i, r) \<in> set (plan_package reg pol now (n, ws)))" for r by metis
    then show ?thesis unfolding planned_iff its by simp
  qed
  also have "\<dots> \<longleftrightarrow> (\<exists>r. (n, ?ss ! i, r) \<in> set (plan_package reg pol now (n, vs)))"
    using assms(3,4) by (auto dest: eq_key_imp_eq_value)
  also have "\<dots> \<longleftrightarrow> plan_version pol now ?pub i (?ss ! i) \<noteq> None"
  proof -
    have "j = i" if "j < length vs" "?ss ! j = ?ss ! i" for j
      using that assms(5,6) nth_eq_iff_index_eq [of ?ss j i] by simp
    then show ?thesis using assms(6) unfolding plan_package_iff by auto
  qed
  finally show ?thesis using that by blast
qed

lemma spared: "i = 0 \<or> keepByPattern (rt_KeepPatterns pol) v \<Longrightarrow> plan_version pol now published i v = None"
  by (simp add: plan_version_def)

text \<open>The newest version of a package is not planned.\<close>

lemma newest_stays:
  assumes "PlanRetention reg pol now = Ok its" "rv_ListPackages reg = Some (Some pkgs)" "distinct (map fst pkgs)"
    "(n, vs) \<in> set pkgs" "distinct vs" "vs \<noteq> []"
  shows "\<not> planned its n (sortNewestFirst vs ! 0)"
proof (cases "rt_KeepLastVersions pol > 0 \<or> rt_MaxVersionAgeDays pol > 0")
  case False
  then have "its = []" using assms(1,2) by (auto simp: PlanRetention_def split: if_splits)
  then show ?thesis by (simp add: planned_def)
next
  case True
  obtain pub where "planned its n (sortNewestFirst vs ! 0) \<longleftrightarrow> plan_version pol now pub 0 (sortNewestFirst vs ! 0) \<noteq> None"
    using planned_at [OF assms(1-5) _ True, of 0] assms(6) by auto
  then show ?thesis by (simp add: spared)
qed

text \<open>
  C26: what a retention plan spares.  For a package of the listing, a planned version is not protected by a pattern and another
  version of the package, at least as new, stays; when only the newest so many versions are to be kept, no more unprotected ones than
  that stay, and without an age limit at least as many stay.
\<close>

theorem retention_spares:
  assumes "PlanRetention reg pol now = Ok its" "rv_ListPackages reg = Some (Some pkgs)" "distinct (map fst pkgs)"
    "(n, vs) \<in> set pkgs" "distinct vs"
  shows "list_all (\<lambda>v. planned its n v \<longrightarrow> \<not> keepByPattern (rt_KeepPatterns pol) v \<and>
      list_ex (\<lambda>w. w \<noteq> v \<and> CompareVersions w v \<ge> 0 \<and> \<not> planned its n w) vs) vs \<and>
    (rt_KeepLastVersions pol > 0 \<longrightarrow>
      length (filter (\<lambda>v. \<not> keepByPattern (rt_KeepPatterns pol) v \<and> \<not> planned its n v) vs) \<le> nat (rt_KeepLastVersions pol) \<and>
      (rt_MaxVersionAgeDays pol \<le> 0 \<longrightarrow> min (nat (rt_KeepLastVersions pol)) (length vs) \<le> length (filter (\<lambda>v. \<not> planned its n v) vs)))"
proof (cases "rt_KeepLastVersions pol > 0 \<or> rt_MaxVersionAgeDays pol > 0")
  case False
  then have "its = []" using assms(1,2) by (auto simp: PlanRetention_def split: if_splits)
  then show ?thesis using False by (simp add: planned_def list_all_iff)
next
  case True
  let ?ss = "sortNewestFirst vs" and ?keep = "keepByPattern (rt_KeepPatterns pol)"
  note at = planned_at [OF assms _ True]
  have one: "\<not> ?keep v \<and> list_ex (\<lambda>w. w \<noteq> v \<and> CompareVersions w v \<ge> 0 \<and> \<not> planned its n w) vs"
    if v: "v \<in> set vs" "planned its n v" for v
  proof -
    obtain i where i: "i < length vs" "v = ?ss ! i" using v(1) by (metis in_set_conv_nth newest_length newest_set)
    obtain pub where "planned its n (?ss ! i) \<longleftrightarrow> plan_version pol now pub i (?ss ! i) \<noteq> None" using i(1) by (rule at)
    then have "plan_version pol now pub i v \<noteq> None" using v(2) unfolding i(2) by blast
    then have "\<not> (i = 0 \<or> ?keep v)" by (rule contrapos_nn) (rule spared)
    then have p: "i \<noteq> 0" "\<not> ?keep v" by simp_all
    have 0: "0 < length vs" using i(1) by linarith
    then have ne: "vs \<noteq> []" by simp
    then have "\<not> planned its n (?ss ! 0)" using newest_stays [OF assms] by simp
    moreover have "CompareVersions (?ss ! 0) v \<ge> 0" using newest_sorted [of vs] p(1) i by (auto simp: sorted_wrt_iff_nth_less)
    moreover have "?ss ! 0 \<noteq> v" using nth_eq_iff_index_eq [of ?ss 0 i] assms(5) i p(1) ne by auto
    moreover have "?ss ! 0 \<in> set vs" using 0 by (metis newest_length newest_set nth_mem)
    ultimately show ?thesis using p(2) by (auto simp: list_ex_iff)
  qed
  have len: "length (filter P ?ss) = length (filter P vs)" for P using mset_newest by (metis mset_filter size_mset)
  have upper: "length (filter (\<lambda>v. \<not> ?keep v \<and> \<not> planned its n v) ?ss) \<le> nat (rt_KeepLastVersions pol)"
    if k: "rt_KeepLastVersions pol > 0"
  proof (rule filter_bounded)
    fix i
    assume i: "i < length ?ss" "\<not> ?keep (?ss ! i) \<and> \<not> planned its n (?ss ! i)"
    have "i < length vs" using i(1) by simp
    then obtain pub where "planned its n (?ss ! i) \<longleftrightarrow> plan_version pol now pub i (?ss ! i) \<noteq> None" by (rule at)
    then have "plan_version pol now pub i (?ss ! i) = None" "\<not> ?keep (?ss ! i)" using i(2) by simp_all
    then have "i = 0 \<or> int i < rt_KeepLastVersions pol" using k unfolding plan_version_def by (smt (verit) option.distinct(1))
    then show "i < nat (rt_KeepLastVersions pol)" using k by auto
  qed
  have lower: "min (nat (rt_KeepLastVersions pol)) (length ?ss) \<le> length (filter (\<lambda>v. \<not> planned its n v) ?ss)"
    if k: "rt_KeepLastVersions pol > 0" "rt_MaxVersionAgeDays pol \<le> 0"
  proof (rule filter_at_least)
    fix i
    assume i: "i < length ?ss" "i < nat (rt_KeepLastVersions pol)"
    have "i < length vs" using i(1) by simp
    then obtain pub where p: "planned its n (?ss ! i) \<longleftrightarrow> plan_version pol now pub i (?ss ! i) \<noteq> None" by (rule at)
    have "\<not> rt_KeepLastVersions pol \<le> int i" using i(2) by linarith
    then show "\<not> planned its n (?ss ! i)" unfolding p plan_version_def using k(2) by simp
  qed
  show ?thesis using one upper lower by (auto simp: list_all_iff len)
qed

definition demo_view :: registry_view where
  "demo_view = \<lparr>rv_Kind = ''local'', rv_ListPackages = Some (Some [(''a'', [''1.9'', ''1.10'', ''2.0-rc1'', ''1.2-lts''])]), rv_deletes = True,
     rv_detail = (\<lambda>_. [(''1.9'', Some 0)]), rv_info = (\<lambda>_ v. if v = ''1.10'' then Some (10 ^ 18) else None)\<rparr>"

theorem retention_spares_witness:
  "let its = [(''a'', ''1.9'', Beyond 2)]; vs = [''1.9'', ''1.10'', ''2.0-rc1'', ''1.2-lts''] in
   PlanRetention demo_view \<lparr>rt_KeepLastVersions = 2, rt_MaxVersionAgeDays = 0, rt_KeepPatterns = [''*-lts'']\<rparr> 0 = Ok its \<and>
   min 2 (length vs) \<le> length (filter (\<lambda>v. \<not> planned its ''a'' v) vs)"
proof -
  let ?pol = "\<lparr>rt_KeepLastVersions = 2, rt_MaxVersionAgeDays = 0, rt_KeepPatterns = [''*-lts'']\<rparr>"
  let ?vs = "[''1.9'', ''1.10'', ''2.0-rc1'', ''1.2-lts'']" and ?its = "[(''a'', ''1.9'', Beyond 2)]"
  have p: "PlanRetention demo_view ?pol 0 = Ok ?its" by code_simp
  have l: "rv_ListPackages demo_view = Some (Some [(''a'', ?vs)])" by (simp add: demo_view_def)
  have "distinct (map fst [(''a'', ?vs)])" "(''a'', ?vs) \<in> set [(''a'', ?vs)]" "distinct ?vs" by simp_all
  then have "min (nat 2) (length ?vs) \<le> length (filter (\<lambda>v. \<not> planned ?its ''a'' v) ?vs)"
    using retention_spares [OF p l] by simp
  then show ?thesis using p by (simp add: Let_def)
qed

text \<open>
  The age limit wraps.  An age of \<open>d\<close> days is exact up to 106751 days; at 106752 the product no longer fits 64 bits and the limit is
  negative, so every version but the newest and the protected ones is deleted, those published now included.
\<close>

theorem retention_age_wraps:
  "days_duration 106751 = 106751 * 86400000000000 \<and> days_duration 106752 < 0 \<and>
   PlanRetention demo_view \<lparr>rt_KeepLastVersions = 0, rt_MaxVersionAgeDays = 106752, rt_KeepPatterns = []\<rparr> (10 ^ 18) =
     Ok [(''a'', ''1.10'', Older 106752), (''a'', ''1.9'', Older 106752)]"
  by code_simp

end
