(* ===== verification/Pkg_Store.thy ===== *)
theory Pkg_Store
  imports Path_Clean Limited_Read
begin

text \<open>
  What the path-keyed registries share: \<open>internal/registry/pkgbase/pkgbase.go\<close> (the store below a base path, reading an
  upload, the pull-through cache of remote repositories) and \<open>guard.go\<close> (immutable versions and quotas).  A store is a raw
  file system, whether it can be written, its base path as segments and the paths whose deletion fails.  The
  answer of an upstream to one request is an argument.  Sizes and times are unbounded integers, except that the
  limit of an upload wraps as the code's does (\<open>Limited_Read\<close>).
\<close>

section \<open>The store\<close>

record pkg_store =
  pk_fs :: rawfs
  pk_writable :: bool
  pk_base :: path
  pk_stuck :: "path list"

datatype pkg_error = PkReadOnly | PkNotFound | PkFailed

definition Join :: "pkg_store \<Rightarrow> string list \<Rightarrow> path" where
  "Join s parts = pk_base s @ concat (map clean_abs parts)"

definition Write :: "pkg_store \<Rightarrow> string \<Rightarrow> string \<Rightarrow> unix_time \<Rightarrow> pkg_store \<times> pkg_error option" where
  "Write s rel body now =
     (if \<not> pk_writable s then (s, Some PkReadOnly)
      else (s\<lparr>pk_fs := fs_write (pk_fs s) (Join s [rel]) body now\<rparr>, None))"

definition Read :: "pkg_store \<Rightarrow> string \<Rightarrow> string option" where
  "Read s rel = map_option rf_data (fs_read (pk_fs s) (Join s [rel]))"

definition Exists :: "pkg_store \<Rightarrow> string \<Rightarrow> bool" where
  "Exists s rel = path_exists (pk_fs s) (Join s [rel])"

definition Delete :: "pkg_store \<Rightarrow> string \<Rightarrow> pkg_store \<times> pkg_error option" where
  "Delete s rel =
     (if \<not> pk_writable s then (s, Some PkReadOnly)
      else if Join s [rel] \<in> set (pk_stuck s) then (s, Some PkFailed)
      else (s\<lparr>pk_fs := fs_delete (pk_fs s) (Join s [rel])\<rparr>, None))"

definition ListDirs :: "pkg_store \<Rightarrow> string \<Rightarrow> string list" where
  "ListDirs s rel = sort (dir_dirs (pk_fs s) (Join s [rel]))"

definition ListFiles :: "pkg_store \<Rightarrow> string \<Rightarrow> string list" where
  "ListFiles s rel = sort (dir_files (pk_fs s) (Join s [rel]))"

text \<open>
  \<open>Walk\<close>: the files below a directory, depth first and sorted by name, which is the order of the segment lists.
\<close>

definition Walk :: "pkg_store \<Rightarrow> string \<Rightarrow> path list" where
  "Walk s rel = (let dir = Join s [rel]
     in sort (remdups (map (drop (length dir)) (filter (\<lambda>p. take (length dir) p = dir \<and> p \<noteq> dir) (map fst (pk_fs s))))))"

definition file_size :: "pkg_store \<Rightarrow> path \<Rightarrow> int" where
  "file_size s p = (case fs_read (pk_fs s) p of None \<Rightarrow> 0 | Some f \<Rightarrow> int (length (rf_data f)))"

definition Usage :: "pkg_store \<Rightarrow> string \<Rightarrow> nat \<times> int" where
  "Usage s rel = (let ps = Walk s rel in (length ps, sum_list (map (\<lambda>p. file_size s (Join s [rel] @ p)) ps)))"

section \<open>Publishing\<close>

record publish_guard =
  pg_Immutable :: bool
  pg_QuotaBytes :: int

definition Check :: "publish_guard \<Rightarrow> pkg_store \<Rightarrow> bool \<Rightarrow> int \<Rightarrow> nat option" where
  "Check g s exists incoming =
     (if pg_Immutable g \<and> exists then Some 409
      else if pg_QuotaBytes g > 0 \<and> snd (Usage s []) + incoming > pg_QuotaBytes g then Some 413
      else None)"

definition DefaultMaxUpload :: int where "DefaultMaxUpload = 2 ^ 30"

definition ReadBody :: "string \<Rightarrow> int \<Rightarrow> string option" where
  "ReadBody body mx = (let m = (if mx \<le> 0 then DefaultMaxUpload else mx) in read_limited body m)"

section \<open>The pull-through cache\<close>

datatype upstream_error = UpNotFound | UpUnauthorized | UpFailed

definition Fresh :: "unix_time \<Rightarrow> int \<Rightarrow> pkg_store \<Rightarrow> string \<Rightarrow> bool" where
  "Fresh now ttl s rel \<longleftrightarrow> (case fs_read (pk_fs s) (Join s [rel]) of None \<Rightarrow> False
     | Some f \<Rightarrow> ttl > 0 \<and> now - rf_mtime f < ttl)"

definition fetch_upstream ::
  "unix_time \<Rightarrow> pkg_store \<Rightarrow> string \<Rightarrow> upstream_error + string \<Rightarrow> pkg_store \<times> (upstream_error + string)" where
  "fetch_upstream now s cacheRel answer = (case answer of
     Inl e \<Rightarrow> (s, case Read s cacheRel of Some b \<Rightarrow> if e \<noteq> UpNotFound then Ok b else Err e | None \<Rightarrow> Err e)
   | Inr body \<Rightarrow> (fst (Write s cacheRel body now), Ok body))"

definition FetchCached ::
  "unix_time \<Rightarrow> int \<Rightarrow> pkg_store \<Rightarrow> string \<Rightarrow> upstream_error + string \<Rightarrow> bool \<Rightarrow> pkg_store \<times> (upstream_error + string)" where
  "FetchCached now ttl s cacheRel answer mutable =
     (if Exists s cacheRel \<and> (\<not> mutable \<or> Fresh now ttl s cacheRel) then
        (case Read s cacheRel of Some b \<Rightarrow> (s, Ok b) | None \<Rightarrow> fetch_upstream now s cacheRel answer)
      else fetch_upstream now s cacheRel answer)"

fun delete_all :: "pkg_store \<Rightarrow> path list \<Rightarrow> pkg_store \<times> nat \<times> pkg_error list" where
  "delete_all s [] = (s, 0, [])"
| "delete_all s (p # ps) = (case Delete s (join_on CHR ''/'' p) of
     (s', None) \<Rightarrow> (case delete_all s' ps of (s'', n, es) \<Rightarrow> (s'', Suc n, es))
   | (s', Some e) \<Rightarrow> (case delete_all s' ps of (s'', n, es) \<Rightarrow> (s'', n, e # es)))"

text \<open>\<open>DeleteTree\<close> of a directory given by clean segments; the bytes removed are not counted.\<close>

definition DeleteTree :: "pkg_store \<Rightarrow> path \<Rightarrow> pkg_store \<times> nat \<times> pkg_error list" where
  "DeleteTree s dir = delete_all s (map (\<lambda>p. dir @ p) (Walk s (join_on CHR ''/'' dir)))"

definition Purge :: "pkg_store \<Rightarrow> bool \<Rightarrow> path list \<Rightarrow> pkg_store \<times> nat \<times> pkg_error list" where
  "Purge s all mutableDirs = fold (\<lambda>d (s, n, es). case DeleteTree s d of (s', n', es') \<Rightarrow> (s', n + n', es @ es'))
     (if all then [[]] else mutableDirs) (s, 0, [])"

section \<open>Facts\<close>

text \<open>Every stored path is made of clean segments; the operations keep it so.\<close>

definition names_ok :: "pkg_store \<Rightarrow> bool" where
  "names_ok s \<longleftrightarrow> list_all segment_ok (pk_base s) \<and> list_all (\<lambda>x. list_all segment_ok (fst x)) (pk_fs s)"

lemma list_all_filter: "list_all P xs \<Longrightarrow> list_all P (filter Q xs)"
  by (simp add: list_all_iff)

lemma names_ok_Write [simp]: "names_ok s \<Longrightarrow> names_ok (fst (Write s r body now))"
  by (simp add: names_ok_def Write_def fs_write_def Join_def list_all_filter)

lemma names_ok_Delete [simp]: "names_ok s \<Longrightarrow> names_ok (fst (Delete s r))"
  by (simp add: names_ok_def Delete_def fs_delete_def list_all_filter)

lemma Join_one: "Join s [rel] = pk_base s @ clean_abs rel"
  by (simp add: Join_def)

lemma Delete_eq: "fst (Delete s rel) = s \<or> fst (Delete s rel) = s\<lparr>pk_fs := fs_delete (pk_fs s) (Join s [rel])\<rparr>"
  by (auto simp: Delete_def)

text \<open>The files below the base path, relative to it.\<close>

definition below_base :: "pkg_store \<Rightarrow> path set" where
  "below_base s = {q. q \<noteq> [] \<and> fs_read (pk_fs s) (pk_base s @ q) \<noteq> None}"

lemma read_key: "fs_read fs p \<noteq> None \<longleftrightarrow> p \<in> fst ` set fs"
  by (auto simp: fs_read_def map_of_eq_None_iff)

lemma walk_set: "set (Walk s []) = below_base s" "distinct (Walk s [])"
proof -
  have "q \<in> set (Walk s []) \<longleftrightarrow> q \<noteq> [] \<and> pk_base s @ q \<in> fst ` set (pk_fs s)" for q
  proof
    assume "q \<in> set (Walk s [])"
    then obtain p where p: "p \<in> fst ` set (pk_fs s)" "take (length (pk_base s)) p = pk_base s" "p \<noteq> pk_base s"
      "q = drop (length (pk_base s)) p"
      by (auto simp: Walk_def Let_def Join_one)
    then have e: "p = pk_base s @ q" by (metis append_take_drop_id)
    show "q \<noteq> [] \<and> pk_base s @ q \<in> fst ` set (pk_fs s)" using p(1) p(3) unfolding e by simp
  next
    assume q: "q \<noteq> [] \<and> pk_base s @ q \<in> fst ` set (pk_fs s)"
    then have "pk_base s @ q \<in> set (filter (\<lambda>p. take (length (pk_base s)) p = pk_base s \<and> p \<noteq> pk_base s) (map fst (pk_fs s)))" by simp
    then have "drop (length (pk_base s)) (pk_base s @ q) \<in> set (Walk s [])"
      unfolding Walk_def Let_def Join_one clean_abs_Nil append_Nil2 set_sort set_remdups set_map by (rule imageI)
    then show "q \<in> set (Walk s [])" by simp
  qed
  then show "set (Walk s []) = below_base s" unfolding below_base_def read_key by blast
  show "distinct (Walk s [])" by (simp add: Walk_def Let_def)
qed

lemma usage_sum: "snd (Usage s []) = (\<Sum>q\<in>below_base s. file_size s (pk_base s @ q))"
  using sum_list_distinct_conv_sum_set [OF walk_set(2) [of s], of "\<lambda>p. file_size s (pk_base s @ p)"]
  by (simp add: Usage_def Let_def Join_one walk_set(1))

lemma finite_below [simp]: "finite (below_base s)"
  using walk_set(1) [of s] by (metis List.finite_set)

lemma file_size_nonneg [simp]: "0 \<le> file_size s p"
  by (simp add: file_size_def split: option.split)

lemma usage_write:
  assumes "pk_writable s"
  shows "snd (Usage (fst (Write s rel body now)) []) \<le> snd (Usage s []) + int (length body)"
proof -
  let ?s = "fst (Write s rel body now)" and ?c = "clean_abs rel"
  have s: "pk_base ?s = pk_base s" "pk_fs ?s = fs_write (pk_fs s) (pk_base s @ ?c) body now"
    using assms by (simp_all add: Write_def Join_one)
  have size: "file_size ?s (pk_base s @ q) = (if q = ?c then int (length body) else file_size s (pk_base s @ q))" for q
    by (simp add: file_size_def s)
  have sub: "below_base ?s \<subseteq> insert ?c (below_base s)" by (auto simp: below_base_def s split: if_splits)
  have "(\<Sum>q\<in>below_base ?s. file_size ?s (pk_base s @ q)) \<le> (\<Sum>q\<in>insert ?c (below_base s - {?c}). file_size ?s (pk_base s @ q))"
    using sub by (intro sum_mono2) auto
  also have "\<dots> = int (length body) + (\<Sum>q\<in>below_base s - {?c}. file_size ?s (pk_base s @ q))"
    by (subst sum.insert) (auto simp: size)
  also have "(\<Sum>q\<in>below_base s - {?c}. file_size ?s (pk_base s @ q)) = (\<Sum>q\<in>below_base s - {?c}. file_size s (pk_base s @ q))"
    by (intro sum.cong) (auto simp: size)
  also have "\<dots> \<le> (\<Sum>q\<in>below_base s. file_size s (pk_base s @ q))" by (intro sum_mono2) auto
  finally show ?thesis by (simp add: usage_sum s(1))
qed

section \<open>Properties\<close>

text \<open>
  A store stays below its base path.  Whatever relative path a request builds, dots included, the path in the raw file
  system is the base followed by segments without \<open>..\<close>, and neither a write, a delete nor the cache touches a file outside.
\<close>

theorem store_confined:
  assumes "take (length (pk_base s)) p \<noteq> pk_base s"
  shows "(\<exists>rest. Join s parts = pk_base s @ rest \<and> ''..'' \<notin> set rest) \<and>
    fs_read (pk_fs (fst (Write s rel body now))) p = fs_read (pk_fs s) p \<and>
    fs_read (pk_fs (fst (Delete s rel))) p = fs_read (pk_fs s) p \<and>
    fs_read (pk_fs (fst (FetchCached now ttl s rel answer mutable))) p = fs_read (pk_fs s) p"
proof -
  have p: "p \<noteq> pk_base s @ q" for q using assms by auto
  have "''..'' \<notin> set (concat (map clean_abs parts))" using clean_abs_no_dots by auto
  moreover have w: "fs_read (pk_fs (fst (Write s rel body now))) p = fs_read (pk_fs s) p" for body
    using p by (simp add: Write_def Join_one)
  moreover have "fs_read (pk_fs (fst (Delete s rel))) p = fs_read (pk_fs s) p"
    using p by (auto simp: Delete_def Join_one)
  moreover have "fs_read (pk_fs (fst (FetchCached now ttl s rel answer mutable))) p = fs_read (pk_fs s) p"
    using w by (auto simp: FetchCached_def fetch_upstream_def split: option.split sum.split)
  ultimately show ?thesis by (simp add: Join_def)
qed

definition demo_pkg :: pkg_store where
  "demo_pkg = \<lparr>pk_fs = [([''mount'', ''other''], \<lparr>rf_data = ''keep'', rf_mtime = 0\<rparr>), ([''mount'', ''repo'', ''files'', ''a''], \<lparr>rf_data = ''old'', rf_mtime = 0\<rparr>)],
     pk_writable = True, pk_base = [''mount'', ''repo''], pk_stuck = []\<rparr>"

theorem store_confined_witness:
  "fs_read (pk_fs (fst (Delete demo_pkg ''../../other''))) [''mount'', ''other''] = Some \<lparr>rf_data = ''keep'', rf_mtime = 0\<rparr>"
proof -
  have "take (length (pk_base demo_pkg)) [''mount'', ''other''] \<noteq> pk_base demo_pkg" by (simp add: demo_pkg_def)
  moreover have "fs_read (pk_fs demo_pkg) [''mount'', ''other''] = Some \<lparr>rf_data = ''keep'', rf_mtime = 0\<rparr>"
    by (simp add: demo_pkg_def fs_read_def)
  ultimately show ?thesis using store_confined [of demo_pkg "[''mount'', ''other'']"] by metis
qed

text \<open>
  The quota is kept.  When a publish of as many bytes as are then written passes the check of a repository with a quota, the
  files below the base path stay within it, whether the write adds a file or replaces one.
\<close>

theorem quota_kept:
  assumes "Check g s exists (int (length body)) = None" "pg_QuotaBytes g > 0" "pk_writable s"
  shows "snd (Usage (fst (Write s rel body now)) []) \<le> pg_QuotaBytes g"
  using usage_write [OF assms(3), of rel body now] assms by (auto simp: Check_def split: if_splits)

theorem quota_kept_witness:
  "snd (Usage (fst (Write demo_pkg ''files/b'' ''new'' 1)) []) \<le> 6 \<and> Check \<lparr>pg_Immutable = False, pg_QuotaBytes = 6\<rparr> demo_pkg False 4 = Some 413"
proof -
  let ?g = "\<lparr>pg_Immutable = False, pg_QuotaBytes = 6\<rparr>"
  have "Check ?g demo_pkg False (int (length ''new'')) = None" "Check ?g demo_pkg False 4 = Some 413" by code_simp+
  moreover have "pg_QuotaBytes ?g > 0" "pk_writable demo_pkg" by (simp_all add: demo_pkg_def)
  ultimately show ?thesis using quota_kept [of ?g demo_pkg False "''new''" "''files/b''" 1] by simp
qed

text \<open>
  What the pull-through cache serves.  A body comes from the upstream now, or it is the cached copy and either needs no refresh or the
  upstream failed in another way than \<open>not found\<close>; an error is the upstream's, and then no such copy may be served.
\<close>

theorem cache_sound:
  "case snd (FetchCached now ttl s rel answer mutable) of
     Inr b \<Rightarrow> answer = Ok b \<or> Read s rel = Some b \<and> (mutable = False \<or> Fresh now ttl s rel \<or> answer \<in> Err ` {UpUnauthorized, UpFailed})
   | Inl e \<Rightarrow> answer = Err e \<and> (Read s rel = None \<or> e = UpNotFound)"
  by (cases answer) (auto simp: FetchCached_def fetch_upstream_def split: option.split upstream_error.splits if_splits intro: upstream_error.exhaust)

end
