(* ===== verification/Generic_Registry.thy ===== *)
theory Generic_Registry
  imports Pkg_Store Semver Token_Scopes
begin

text \<open>
  The generic registry: \<open>internal/registry/generic/generic.go\<close>.  Responses are the status and what the body holds; the ranges over
  maps in \<open>ListPackages\<close> are taken in the order of the walk.  Events are not modelled.
\<close>

section \<open>Names and the store\<close>

definition validSegment :: "string \<Rightarrow> bool" where
  "validSegment s \<longleftrightarrow> s \<noteq> [] \<and> s \<noteq> ''.'' \<and> s \<noteq> ''..'' \<and> CHR 0x5C \<notin> set s \<and> CHR 0x00 \<notin> set s"

abbreviation trim_slashes :: "string \<Rightarrow> string" where
  "trim_slashes \<equiv> trim_func (\<lambda>c. c = CHR ''/'')"

definition ParsePath :: "string \<Rightarrow> (string \<times> string \<times> string) option" where
  "ParsePath p = (let parts = split_on CHR ''/'' (trim_slashes p); n = length parts
     in if n < 3 then None
        else if \<not> list_all validSegment parts then None
        else Some (join_on CHR ''/'' (take (n - 2) parts), parts ! (n - 2), parts ! (n - 1)))"

definition rel :: "string list \<Rightarrow> string" where
  "rel parts = path_join (''files'' # parts)"

definition add_version :: "string \<Rightarrow> string \<Rightarrow> (string \<times> string list) list \<Rightarrow> (string \<times> string list) list" where
  "add_version pkg ver m = (case map_of m pkg of
     None \<Rightarrow> m @ [(pkg, [ver])]
   | Some vs \<Rightarrow> map (\<lambda>(k, vs). if k = pkg then (k, if ver \<in> set vs then vs else vs @ [ver]) else (k, vs)) m)"

definition ListPackages :: "pkg_store \<Rightarrow> (string \<times> string list) list" where
  "ListPackages s = (let pkgs = fold (\<lambda>p m. case ParsePath (join_on CHR ''/'' p) of None \<Rightarrow> m | Some (pkg, ver, _) \<Rightarrow> add_version pkg ver m)
        (Walk s ''files'') []
     in sort_key fst (map (\<lambda>(k, vs). (k, SortVersions vs)) pkgs))"

definition ListVersions :: "pkg_store \<Rightarrow> string \<Rightarrow> string list" where
  "ListVersions s pkg = SortVersions (filter (\<lambda>d. ListFiles s (rel [pkg, d]) \<noteq> []) (ListDirs s (rel [pkg])))"

definition ListFilesOf :: "pkg_store \<Rightarrow> string \<Rightarrow> string \<Rightarrow> string list" where
  "ListFilesOf s pkg version = ListFiles s (rel [pkg, version])"

fun delete_files :: "pkg_store \<Rightarrow> string list \<Rightarrow> pkg_store \<times> pkg_error option" where
  "delete_files s [] = (s, None)"
| "delete_files s (f # fs) = (case Delete s f of (s', None) \<Rightarrow> delete_files s' fs | (s', Some e) \<Rightarrow> (s', Some e))"

definition DeleteVersion :: "pkg_store \<Rightarrow> string \<Rightarrow> string \<Rightarrow> pkg_store \<times> pkg_error option" where
  "DeleteVersion s pkg version = (let files = ListFiles s (rel [pkg, version])
     in if files = [] then (s, Some PkNotFound)
        else delete_files s (map (\<lambda>f. rel [pkg, version, f]) files))"

section \<open>The local repository\<close>

record generic_local =
  gl_store :: pkg_store
  gl_AllowPush :: bool
  gl_MaxUpload :: int
  gl_Guard :: publish_guard

datatype gen_response = GContent string | GPackages "(string \<times> string list) list" | GFiles string string "string list"
  | GVersions string "string list" string | GCreated | GNoContent | GError nat

text \<open>The handler of a read.\<close>

definition serve_listing :: "pkg_store \<Rightarrow> string \<Rightarrow> gen_response" where
  "serve_listing s trimmed =
     (let versions = (let vs = ListVersions s trimmed in if vs \<noteq> [] then GVersions trimmed vs (Latest vs) else GError 404)
      in case last_index trimmed CHR ''/'' of
           Some i \<Rightarrow> if i > 0 then
               (let pkg = take i trimmed; ver = drop (Suc i) trimmed; files = ListFilesOf s pkg ver
                in if files \<noteq> [] then GFiles pkg ver files else versions)
             else versions
         | None \<Rightarrow> versions)"

definition serveRead :: "pkg_store \<Rightarrow> string \<Rightarrow> gen_response" where
  "serveRead s path = (let trimmed = trim_slashes path
     in if trimmed = [] then GPackages (ListPackages s)
        else case (if has_suffix path ''/'' then None else ParsePath trimmed) of
          Some (pkg, ver, file) \<Rightarrow> (case Read s (rel [pkg, ver, file]) of Some b \<Rightarrow> GContent b | None \<Rightarrow> serve_listing s trimmed)
        | None \<Rightarrow> serve_listing s trimmed)"

definition upload :: "generic_local \<Rightarrow> string \<Rightarrow> string \<Rightarrow> unix_time \<Rightarrow> generic_local \<times> gen_response" where
  "upload l path body now =
     (if \<not> gl_AllowPush l then (l, GError 405)
      else case ParsePath path of
        None \<Rightarrow> (l, GError 400)
      | Some (pkg, ver, file) \<Rightarrow>
          if file = [] then (l, GError 400)
          else (case ReadBody body (gl_MaxUpload l) of
            None \<Rightarrow> (l, GError 413)
          | Some b \<Rightarrow>
              let r = rel [pkg, ver, file]
              in (case Check (gl_Guard l) (gl_store l) (Exists (gl_store l) r) (int (length b)) of
                    Some code \<Rightarrow> (l, GError code)
                  | None \<Rightarrow> (case Write (gl_store l) r b now of
                      (s', Some _) \<Rightarrow> (l, GError 500)
                    | (s', None) \<Rightarrow> (l\<lparr>gl_store := s'\<rparr>, GCreated)))))"

definition remove_version :: "generic_local \<Rightarrow> string \<Rightarrow> generic_local \<times> gen_response" where
  "remove_version l path = (let trimmed = trim_slashes path
     in case last_index trimmed CHR ''/'' of
          None \<Rightarrow> (l, GError 404)
        | Some i \<Rightarrow> if i = 0 then (l, GError 404)
            else (case DeleteVersion (gl_store l) (take i trimmed) (drop (Suc i) trimmed) of
              (s', None) \<Rightarrow> (l\<lparr>gl_store := s'\<rparr>, GNoContent)
            | (s', Some e) \<Rightarrow> (l\<lparr>gl_store := s'\<rparr>, GError (if e = PkNotFound then 404 else 500))))"

definition remove :: "generic_local \<Rightarrow> string \<Rightarrow> generic_local \<times> gen_response" where
  "remove l path =
     (if \<not> gl_AllowPush l then (l, GError 405)
      else case ParsePath path of
        Some (pkg, ver, file) \<Rightarrow>
          if Exists (gl_store l) (rel [pkg, ver, file]) then
            (case Delete (gl_store l) (rel [pkg, ver, file]) of
               (s', Some _) \<Rightarrow> (l, GError 500)
             | (s', None) \<Rightarrow> (l\<lparr>gl_store := s'\<rparr>, GNoContent))
          else remove_version l path
      | None \<Rightarrow> remove_version l path)"

definition local_serve :: "generic_local \<Rightarrow> string \<Rightarrow> string \<Rightarrow> string \<Rightarrow> unix_time \<Rightarrow> generic_local \<times> gen_response" where
  "local_serve l meth path body now =
     (if meth = ''GET'' \<or> meth = ''HEAD'' then (l, serveRead (gl_store l) path)
      else if meth = ''PUT'' \<or> meth = ''POST'' then upload l path body now
      else if meth = ''DELETE'' then remove l path
      else (l, GError 405))"

definition classify :: "string \<Rightarrow> (string \<times> string) option" where
  "classify path =
     (if has_suffix path ''/'' then None
      else case ParsePath path of None \<Rightarrow> None | Some (pkg, ver, _) \<Rightarrow> Some (pkg, ver))"

text \<open>The files are copied in order; a failing write leaves those before it.\<close>

fun copy_files :: "pkg_store \<Rightarrow> pkg_store \<Rightarrow> string list \<Rightarrow> unix_time \<Rightarrow> pkg_store \<times> pkg_error option" where
  "copy_files src dst [] now = (dst, None)"
| "copy_files src dst (f # fs) now = (case Read src f of
     None \<Rightarrow> (dst, Some PkNotFound)
   | Some b \<Rightarrow> (case Write dst f b now of (dst', None) \<Rightarrow> copy_files src dst' fs now | (dst', Some e) \<Rightarrow> (dst', Some e)))"

definition PromoteVersion ::
  "generic_local \<Rightarrow> generic_local \<Rightarrow> string \<Rightarrow> string \<Rightarrow> unix_time \<Rightarrow> generic_local \<times> pkg_error option" where
  "PromoteVersion l d name0 version now =
     (let name = trim_slashes name0; src = gl_store l; files = ListFiles src (rel [name, version]);
          paths = map (\<lambda>f. rel [name, version, f]) files;
          total = sum_list (map (\<lambda>f. file_size src (Join src [rel [name, version, f]])) files);
          exists = (ListFiles (gl_store d) (rel [name, version]) \<noteq> [])
      in if files = [] then (d, Some PkNotFound)
         else if Check (gl_Guard d) (gl_store d) exists total \<noteq> None then (d, Some PkFailed)
         else (case copy_files src (gl_store d) paths now of (s', e) \<Rightarrow> (d\<lparr>gl_store := s'\<rparr>, e)))"

section \<open>The remote repository\<close>

text \<open>\<open>answer\<close> is what the upstream replies for a path.\<close>

definition remote_serve ::
  "unix_time \<Rightarrow> int \<Rightarrow> (string \<Rightarrow> upstream_error + string) \<Rightarrow> pkg_store \<Rightarrow> string \<Rightarrow> string \<Rightarrow> pkg_store \<times> gen_response" where
  "remote_serve now ttl answer s meth path =
     (if meth \<noteq> ''GET'' \<and> meth \<noteq> ''HEAD'' then (s, GError 405)
      else let trimmed = trim_slashes path;
               reply = (\<lambda>(s', r). (s', case r of Inr b \<Rightarrow> GContent b | Inl e \<Rightarrow> GError (if e = UpNotFound then 404 else 502)));
               listing = reply (FetchCached now ttl s (path_join [''meta'', trimmed, ''_index.json''])
                 (answer (CHR ''/'' # trimmed @ (if has_suffix path ''/'' \<or> trimmed = [] then ''/'' else []))) True)
           in (case ParsePath trimmed of
                 None \<Rightarrow> listing
               | Some (pkg, ver, file) \<Rightarrow>
                   if has_suffix path ''/'' then listing
                   else (case Read s (rel [pkg, ver, file]) of
                     Some b \<Rightarrow> (s, GContent b)
                   | None \<Rightarrow> reply (FetchCached now ttl s (rel [pkg, ver, file]) (answer (CHR ''/'' # trimmed)) False))))"

section \<open>Facts\<close>

lemma dropWhile_done: "xs = [] \<or> \<not> P (hd xs) \<Longrightarrow> dropWhile P xs = xs"
  by (cases xs) auto

lemma hd_kept: "dropWhile P xs = [] \<or> \<not> P (hd (dropWhile P xs))"
  by (induction xs) auto

lemma trim_slashes_idem [simp]: "trim_slashes (trim_slashes p) = trim_slashes p"
proof -
  define P where "P = (\<lambda>c. c = CHR ''/'')"
  define u where "u = dropWhile P p"
  define t where "t = rev (dropWhile P (rev u))"
  have t: "trim_slashes p = t"
    by (simp add: trim_func_def trim_left_func_def trim_right_func_def t_def u_def P_def)
  obtain w where w: "u = t @ w" unfolding t_def by (metis rev_append rev_rev_ident takeWhile_dropWhile_id)
  have r: "rev t = dropWhile P (rev u)" by (simp add: t_def)
  have "t = [] \<or> \<not> P (hd t)" using w by (cases t) (auto simp: u_def dropWhile_eq_Cons_conv)
  moreover have "rev t = [] \<or> \<not> P (hd (rev t))" unfolding r by (rule hd_kept)
  ultimately have "dropWhile P t = t" "rev (dropWhile P (rev t)) = t" by (simp_all add: dropWhile_done)
  then show ?thesis unfolding t by (simp add: trim_func_def trim_left_func_def trim_right_func_def P_def)
qed

lemma ParsePath_trim [simp]: "ParsePath (trim_slashes p) = ParsePath p"
  by (simp add: ParsePath_def)

text \<open>What a parsed path names: the segments below the root of the files.\<close>

lemma rel_segments:
  assumes "list_all segment_ok ps" "ps \<noteq> []" "segment_ok v"
  shows "clean_abs (rel [join_on CHR ''/'' ps, v]) = ''files'' # ps @ [v]"
    "segment_ok f \<Longrightarrow> clean_abs (rel [join_on CHR ''/'' ps, v, f]) = ''files'' # ps @ [v, f]"
    "clean_abs (rel [join_on CHR ''/'' ps]) = ''files'' # ps"
proof -
  have ps: "split_on CHR ''/'' (join_on CHR ''/'' ps) = ps"
    using assms by (intro split_join) (auto simp: list_all_iff segment_ok_def)
  have one: "split_on CHR ''/'' x = [x]" if "segment_ok x" for x
    using that by (simp add: segment_ok_def split_on_single)
  have files: "split_on CHR ''/'' ''files'' = [''files'']" "segment_ok ''files''" by (simp_all add: segment_ok_def)
  show "clean_abs (rel [join_on CHR ''/'' ps, v]) = ''files'' # ps @ [v]"
    "segment_ok f \<Longrightarrow> clean_abs (rel [join_on CHR ''/'' ps, v, f]) = ''files'' # ps @ [v, f]"
    "clean_abs (rel [join_on CHR ''/'' ps]) = ''files'' # ps"
    using assms(1,3) files ps one unfolding rel_def by (subst clean_path_join; simp)+
qed

lemma ParsePath_parts:
  assumes "ParsePath p = Some (pkg, ver, file)"
  obtains ps where "ps \<noteq> []" "list_all segment_ok (ps @ [ver, file])" "pkg = join_on CHR ''/'' ps"
    "trim_slashes p = join_on CHR ''/'' (ps @ [ver, file])"
proof -
  define parts where "parts = split_on CHR ''/'' (trim_slashes p)"
  have n: "length parts \<ge> 3" "list_all validSegment parts" "pkg = join_on CHR ''/'' (take (length parts - 2) parts)"
    "ver = parts ! (length parts - 2)" "file = parts ! (length parts - 1)"
    using assms by (auto simp: ParsePath_def Let_def parts_def [symmetric] split: if_splits)
  have "drop (length parts - 2) parts = [ver, file]"
    using n(1,4,5) by (intro nth_equalityI) (auto simp: less_Suc_eq numeral_2_eq_2 Suc_diff_Suc)
  then have parts: "take (length parts - 2) parts @ [ver, file] = parts" by (metis append_take_drop_id)
  have "segment_ok x" if "x \<in> set parts" for x
    using n(2) that split_on_no_sep [of x "CHR ''/''" "trim_slashes p"]
    by (auto simp: parts_def list_all_iff validSegment_def segment_ok_def)
  then have "list_all segment_ok parts" by (simp add: list_all_iff)
  moreover have "trim_slashes p = join_on CHR ''/'' parts" by (simp add: parts_def)
  moreover have "take (length parts - 2) parts \<noteq> []" using n(1) by auto
  ultimately show ?thesis using that n(3) parts by metis
qed

lemma parsed_target:
  assumes "ParsePath p = Some (pkg, ver, file)" "ParsePath q = Some (pkg', ver', file')"
    "clean_abs (rel [pkg, ver, file]) = clean_abs (rel [pkg', ver', file'])"
  shows "pkg = pkg' \<and> ver = ver' \<and> file = file'"
proof -
  from assms(1) obtain ps where ps: "ps \<noteq> []" "list_all segment_ok (ps @ [ver, file])" "pkg = join_on CHR ''/'' ps"
    by (rule ParsePath_parts)
  from assms(2) obtain qs where qs: "qs \<noteq> []" "list_all segment_ok (qs @ [ver', file'])" "pkg' = join_on CHR ''/'' qs"
    by (rule ParsePath_parts)
  show ?thesis using assms(3) ps qs by (simp add: rel_segments)
qed

lemma upload_created:
  assumes "upload l path body now = (l', GCreated)"
  obtains pkg ver f b where "ParsePath path = Some (pkg, ver, f)" "ReadBody body (gl_MaxUpload l) = Some b"
    "l' = l\<lparr>gl_store := fst (Write (gl_store l) (rel [pkg, ver, f]) b now)\<rparr>" "pk_writable (gl_store l)"
    "Check (gl_Guard l) (gl_store l) (Exists (gl_store l) (rel [pkg, ver, f])) (int (length b)) = None"
  using assms
  by (auto simp: upload_def Let_def Write_def split: if_splits option.splits prod.splits)

text \<open>Below the largest limit, which the handler would have to add one to, a body is read whole or refused.\<close>

lemma ReadBody_whole: "mx < 2 ^ 63 - 1 \<Longrightarrow> ReadBody body mx = Some b \<Longrightarrow> b = body"
  by (auto simp: ReadBody_def Let_def DefaultMaxUpload_def read_limited_exact split: if_splits)

lemma upload_store:
  "fst (upload l path body now) = l \<or>
   (\<exists>r b. \<not> (pg_Immutable (gl_Guard l) \<and> Exists (gl_store l) r) \<and> fst (upload l path body now) = l\<lparr>gl_store := fst (Write (gl_store l) r b now)\<rparr>)"
proof -
  obtain l' res where u: "upload l path body now = (l', res)" by fastforce
  show ?thesis
  proof (cases "res = GCreated")
    case True
    then have "upload l path body now = (l', GCreated)" using u by simp
    then obtain pkg ver f b where "l' = l\<lparr>gl_store := fst (Write (gl_store l) (rel [pkg, ver, f]) b now)\<rparr>"
      "Check (gl_Guard l) (gl_store l) (Exists (gl_store l) (rel [pkg, ver, f])) (int (length b)) = None"
      by (rule upload_created)
    then show ?thesis using u by (auto simp: Check_def split: if_splits)
  next
    case False
    then have "l' = l" using u by (auto simp: upload_def Let_def split: if_splits option.splits prod.splits)
    then show ?thesis using u by simp
  qed
qed

lemma Read_Write: "pk_writable s \<Longrightarrow> Read (fst (Write s r b t)) q = (if clean_abs q = clean_abs r then Some b else Read s q)"
  by (simp add: Read_def Write_def Join_one)

lemma Read_Exists: "Read s r \<noteq> None \<Longrightarrow> Exists s r"
  unfolding Read_def Exists_def path_exists_iff by (metis append_Nil2 map_option_is_None read_key)


text \<open>Deleting a version.\<close>

lemma Read_Delete: "Read (fst (Delete s f)) q = (if pk_writable s \<and> Join s [f] \<notin> set (pk_stuck s) \<and> clean_abs q = clean_abs f then None else Read s q)"
  by (auto simp: Read_def Delete_def Join_one)

lemma delete_files_Cons:
  "delete_files s (f # fs) = (if snd (Delete s f) = None then delete_files (fst (Delete s f)) fs else Delete s f)"
  by (cases "Delete s f") (auto split: option.split)

lemma delete_files_names: "names_ok s \<Longrightarrow> names_ok (fst (delete_files s fs))"
  by (induction fs arbitrary: s) (simp_all add: delete_files_Cons del: delete_files.simps(2))

lemma delete_files_other: "clean_abs q \<notin> clean_abs ` set fs \<Longrightarrow> Read (fst (delete_files s fs)) q = Read s q"
  by (induction fs arbitrary: s) (auto simp: delete_files_Cons Read_Delete simp del: delete_files.simps(2))

lemma delete_files_none: "Read s q = None \<Longrightarrow> Read (fst (delete_files s fs)) q = None"
  by (induction fs arbitrary: s) (auto simp: delete_files_Cons Read_Delete simp del: delete_files.simps(2))

lemma delete_files_done: "snd (delete_files s fs) = None \<Longrightarrow> f \<in> set fs \<Longrightarrow> Read (fst (delete_files s fs)) f = None"
proof (induction fs arbitrary: s)
  case (Cons g fs)
  have d: "snd (Delete s g) = None" using Cons.prems(1) by (auto simp: delete_files_Cons simp del: delete_files.simps(2) split: if_splits)
  then have "Read (fst (Delete s g)) g = None" by (auto simp: Read_Delete) (auto simp: Delete_def split: if_splits)
  then show ?case using Cons d delete_files_none by (auto simp: delete_files_Cons simp del: delete_files.simps(2))
qed simp

lemma ListFiles_iff: "names_ok s \<Longrightarrow> f \<in> set (ListFiles s r) \<longleftrightarrow> segment_ok f \<and> fs_read (pk_fs s) (pk_base s @ clean_abs r @ [f]) \<noteq> None"
  unfolding read_key by (auto simp: ListFiles_def dir_files_iff Join_one names_ok_def list_all_iff)

lemma serve_content:
  "serveRead s path = GContent b \<longleftrightarrow> \<not> has_suffix path ''/'' \<and>
     (\<exists>pkg ver f. ParsePath path = Some (pkg, ver, f) \<and> Read s (rel [pkg, ver, f]) = Some b)"
proof -
  have l: "serve_listing s p \<noteq> GContent b" for p by (simp add: serve_listing_def Let_def split: option.split)
  have "trim_slashes path \<noteq> []" if "ParsePath path = Some x" for x using that by (auto simp: ParsePath_def)
  then show ?thesis using l
    by (cases "trim_slashes path = []") (auto simp: serveRead_def Let_def split: option.split prod.split)
qed

lemma serve_content_classified: "serveRead s path = GContent b \<Longrightarrow> \<exists>pkg ver. classify path = Some (pkg, ver)"
  by (auto simp: serve_content classify_def)

section \<open>Properties\<close>

text \<open>
  C36: a published file reads back.  In a repository whose upload limit is below \<open>2 ^ 63 - 1\<close>, after a PUT that answered 201 a GET of
  the same path returns the body that was sent, and the file of every other path reads as before.  At the largest limit the file is
  empty: \<open>largest_limit_stores_nothing\<close>.
\<close>

theorem upload_then_download:
  assumes "local_serve l ''PUT'' path body now = (l', GCreated)" "\<not> has_suffix path ''/''" "gl_MaxUpload l < 2 ^ 63 - 1"
  shows "snd (local_serve l' ''GET'' path b t) = GContent body \<and>
    (case ParsePath other of None \<Rightarrow> True | Some (pkg, ver, f) \<Rightarrow>
       ParsePath path = ParsePath other \<or> Read (gl_store l') (rel [pkg, ver, f]) = Read (gl_store l) (rel [pkg, ver, f]))"
proof -
  from assms(1) have "upload l path body now = (l', GCreated)" by (simp add: local_serve_def)
  then obtain pkg ver f where u: "ParsePath path = Some (pkg, ver, f)"
    "l' = l\<lparr>gl_store := fst (Write (gl_store l) (rel [pkg, ver, f]) body now)\<rparr>" "pk_writable (gl_store l)"
    by (rule upload_created) (use ReadBody_whole [OF assms(3)] in blast)
  have "trim_slashes path \<noteq> []" using u(1) by (auto simp: ParsePath_def)
  moreover have "Read (gl_store l') (rel [pkg, ver, f]) = Some body" using u(2,3) by (simp add: Read_Write)
  ultimately have "snd (local_serve l' ''GET'' path b t) = GContent body"
    using assms(2) u(1) by (simp add: local_serve_def serveRead_def Let_def)
  moreover have "Read (gl_store l') (rel [p, v, g]) = Read (gl_store l) (rel [p, v, g])"
    if "ParsePath other = Some (p, v, g)" "ParsePath path \<noteq> ParsePath other" for p v g
    using parsed_target [OF u(1) that(1)] that u by (auto simp: Read_Write)
  ultimately show ?thesis by (auto split: option.split)
qed

definition demo_local :: "bool \<Rightarrow> generic_local" where
  "demo_local immutable = \<lparr>gl_store = \<lparr>pk_fs = [([''repo'', ''files'', ''b'', ''1.0'', ''x''], \<lparr>rf_data = ''old'', rf_mtime = 0\<rparr>)],
     pk_writable = True, pk_base = [''repo''], pk_stuck = []\<rparr>, gl_AllowPush = True, gl_MaxUpload = 100,
     gl_Guard = \<lparr>pg_Immutable = immutable, pg_QuotaBytes = 0\<rparr>\<rparr>"

theorem upload_then_download_witness:
  "snd (local_serve (fst (local_serve (demo_local True) ''PUT'' ''/a/c/1.0/x'' ''new'' 5)) ''GET'' ''/a/c/1.0/x'' [] 6) = GContent ''new''"
proof -
  let ?l = "fst (local_serve (demo_local True) ''PUT'' ''/a/c/1.0/x'' ''new'' 5)"
  have "snd (local_serve (demo_local True) ''PUT'' ''/a/c/1.0/x'' ''new'' 5) = GCreated" by code_simp
  then have "local_serve (demo_local True) ''PUT'' ''/a/c/1.0/x'' ''new'' 5 = (?l, GCreated)" by (metis prod.collapse)
  moreover have "\<not> has_suffix ''/a/c/1.0/x'' ''/''" by code_simp
  moreover have "gl_MaxUpload (demo_local True) < 2 ^ 63 - 1" by (simp add: demo_local_def)
  ultimately show ?thesis using upload_then_download [where other = "[]"] by blast
qed

text \<open>
  The largest limit accepts every upload and stores nothing.  A repository whose limit is \<open>2 ^ 63 - 1\<close>, which the settings
  admit, adds one to it: the sum is negative, the body is not read, and an empty file takes the place of the upload.
\<close>

theorem largest_limit_stores_nothing:
  assumes "local_serve l ''PUT'' path body now = (l', GCreated)" "\<not> has_suffix path ''/''" "gl_MaxUpload l = 2 ^ 63 - 1"
  shows "snd (local_serve l' ''GET'' path b t) = GContent []"
proof -
  have r: "ReadBody body (gl_MaxUpload l) = Some []"
    using assms(3) read_limited_overflow by (simp add: ReadBody_def)
  from assms(1) have "upload l path body now = (l', GCreated)" by (simp add: local_serve_def)
  then obtain pkg ver f where u: "ParsePath path = Some (pkg, ver, f)"
    "l' = l\<lparr>gl_store := fst (Write (gl_store l) (rel [pkg, ver, f]) [] now)\<rparr>" "pk_writable (gl_store l)"
    by (rule upload_created) (use r in simp)
  have "trim_slashes path \<noteq> []" using u(1) by (auto simp: ParsePath_def)
  moreover have "Read (gl_store l') (rel [pkg, ver, f]) = Some []" using u(2,3) by (simp add: Read_Write)
  ultimately show ?thesis using assms(2) u(1) by (simp add: local_serve_def serveRead_def Let_def)
qed

theorem largest_limit_stores_nothing_witness:
  "let l = (demo_local True)\<lparr>gl_MaxUpload := 2 ^ 63 - 1\<rparr>
   in snd (local_serve (fst (local_serve l ''PUT'' ''/a/c/1.0/x'' ''new'' 5)) ''GET'' ''/a/c/1.0/x'' [] 6) = GContent []"
proof -
  let ?l = "(demo_local True)\<lparr>gl_MaxUpload := 2 ^ 63 - 1\<rparr>"
  have "snd (local_serve ?l ''PUT'' ''/a/c/1.0/x'' ''new'' 5) = GCreated" by code_simp
  then have "local_serve ?l ''PUT'' ''/a/c/1.0/x'' ''new'' 5 = (fst (local_serve ?l ''PUT'' ''/a/c/1.0/x'' ''new'' 5), GCreated)"
    by (metis prod.collapse)
  moreover have "\<not> has_suffix ''/a/c/1.0/x'' ''/''" by code_simp
  moreover have "gl_MaxUpload ?l = 2 ^ 63 - 1" by simp
  ultimately show ?thesis unfolding Let_def by (rule largest_limit_stores_nothing)
qed

text \<open>A request: its method, path, body and time.\<close>

definition serve_all :: "generic_local \<Rightarrow> (string \<times> string \<times> string \<times> unix_time) list \<Rightarrow> generic_local" where
  "serve_all = foldl (\<lambda>l (meth, path, body, now). fst (local_serve l meth path body now))"

text \<open>
  Immutable files stay.  In a repository with immutable versions a stored file keeps its bytes whatever requests follow, unless one of
  them is a DELETE.
\<close>

theorem immutable_files_stay:
  assumes "pg_Immutable (gl_Guard l)" "Read (gl_store l) r = Some b"
    "list_all (\<lambda>(meth, path, body, now). meth \<noteq> ''DELETE'') reqs"
  shows "Read (gl_store (serve_all l reqs)) r = Some b"
  using assms
proof (induction reqs arbitrary: l)
  case (Cons q reqs)
  obtain meth path body now where q: "q = (meth, path, body, now)" by (cases q)
  let ?l = "fst (local_serve l meth path body now)"
  have "?l = l \<or> ?l = fst (upload l path body now)" using Cons.prems(3) by (auto simp: local_serve_def q)
  then have "gl_Guard ?l = gl_Guard l \<and> Read (gl_store ?l) r = Some b"
  proof
    assume e: "?l = fst (upload l path body now)"
    from upload_store [of l path body now] show ?thesis unfolding e
    proof
      assume "\<exists>r' b'. \<not> (pg_Immutable (gl_Guard l) \<and> Exists (gl_store l) r') \<and>
        fst (upload l path body now) = l\<lparr>gl_store := fst (Write (gl_store l) r' b' now)\<rparr>"
      then obtain r' b' where r': "\<not> Exists (gl_store l) r'"
        "fst (upload l path body now) = l\<lparr>gl_store := fst (Write (gl_store l) r' b' now)\<rparr>" using Cons.prems(1) by auto
      have "Read (fst (Write (gl_store l) r' b' now)) r = Some b"
      proof (cases "pk_writable (gl_store l)")
        case True
        have "Read (gl_store l) r' = None" using r'(1) Read_Exists [of "gl_store l" r'] by blast
        then have "clean_abs r \<noteq> clean_abs r'" using Cons.prems(2) by (auto simp: Read_def Join_one)
        then show ?thesis using True Cons.prems(2) by (simp add: Read_Write)
      qed (simp add: Write_def Cons.prems(2))
      then show "gl_Guard (fst (upload l path body now)) = gl_Guard l \<and> Read (gl_store (fst (upload l path body now))) r = Some b"
        using r'(2) by simp
    qed (simp add: Cons.prems(2))
  qed (simp add: Cons.prems(2))
  then show ?case using Cons.IH [of ?l] Cons.prems by (simp add: serve_all_def q)
qed (simp add: serve_all_def)

theorem immutable_files_stay_witness:
  "Read (gl_store (serve_all (demo_local True) [(''PUT'', ''/b/1.0/x'', ''new'', 1), (''GET'', ''/'', [], 2)])) ''files/b/1.0/x'' = Some ''old''"
proof -
  have "pg_Immutable (gl_Guard (demo_local True))" by (simp add: demo_local_def)
  moreover have "Read (gl_store (demo_local True)) ''files/b/1.0/x'' = Some ''old''" by code_simp
  moreover have "list_all (\<lambda>(meth, path, body, now). meth \<noteq> ''DELETE'') [(''PUT'', ''/b/1.0/x'', ''new'', 1), (''GET'', ''/'', [], 2::int)]"
    by simp
  ultimately show ?thesis by (rule immutable_files_stay)
qed

text \<open>
  Every download is classified.  A read returns the bytes of a file exactly when the request classifies as a package and version and
  names a stored file of them, so the policy gate sees every download; listings are not classified.
\<close>

theorem downloads_classified:
  "serveRead s path = GContent b \<longleftrightarrow>
     (case classify path of None \<Rightarrow> False | Some (pkg, ver) \<Rightarrow>
        \<exists>f. ParsePath path = Some (pkg, ver, f) \<and> Read s (rel [pkg, ver, f]) = Some b)"
  by (auto simp: serve_content classify_def split: option.split prod.split)

text \<open>
  An upload lands on its path.  The only file a PUT can change is the one at the segments of the request path below the files of the
  repository, which is the path the caller was authorized on.
\<close>

theorem upload_lands_on_path:
  "\<exists>b. gl_store (fst (local_serve l ''PUT'' path body now)) \<in>
     {gl_store l, (gl_store l)\<lparr>pk_fs := fs_write (pk_fs (gl_store l)) (pk_base (gl_store l) @ ''files'' # split_on CHR ''/'' (trim_slashes path)) b now\<rparr>}"
proof -
  obtain l' res where u: "upload l path body now = (l', res)" by fastforce
  show ?thesis
  proof (cases "res = GCreated")
    case True
    then have "upload l path body now = (l', GCreated)" using u by simp
    then obtain pkg ver f b where c: "ParsePath path = Some (pkg, ver, f)"
      "l' = l\<lparr>gl_store := fst (Write (gl_store l) (rel [pkg, ver, f]) b now)\<rparr>" "pk_writable (gl_store l)"
      by (rule upload_created)
    from c(1) obtain ps where ps: "ps \<noteq> []" "list_all segment_ok (ps @ [ver, f])" "pkg = join_on CHR ''/'' ps"
      "trim_slashes path = join_on CHR ''/'' (ps @ [ver, f])" by (rule ParsePath_parts)
    have "split_on CHR ''/'' (trim_slashes path) = ps @ [ver, f]"
      unfolding ps(4) using ps(2) by (intro split_join) (auto simp: list_all_iff segment_ok_def)
    then have "Join (gl_store l) [rel [pkg, ver, f]] = pk_base (gl_store l) @ ''files'' # split_on CHR ''/'' (trim_slashes path)"
      using ps by (simp add: Join_one rel_segments)
    then show ?thesis using c(2,3) u by (auto simp: local_serve_def Write_def)
  next
    case False
    then have "l' = l" using u by (auto simp: upload_def Let_def split: if_splits option.splits prod.splits)
    then show ?thesis using u by (simp add: local_serve_def)
  qed
qed

text \<open>
  A deletion can leave its path.  The fallback that deletes a version takes the path as it is, so dots in it are resolved only when the files are
  addressed: \<open>DELETE /a/../b/1.0\<close> deletes version 1.0 of \<open>b\<close>, while a PUT of such a path is refused.
\<close>

theorem dotted_delete_escapes:
  "let l = demo_local False; after = local_serve l ''DELETE'' ''/a/../b/1.0'' [] 0
   in Read (gl_store l) ''files/b/1.0/x'' = Some ''old'' \<and> snd after = GNoContent \<and> Read (gl_store (fst after)) ''files/b/1.0/x'' = None \<and>
      snd (local_serve l ''PUT'' ''/a/../b/1.0/x'' ''new'' 0) = GError 400"
  by code_simp

end
