(* ===== verification/Retention_Stores.thy ===== *)
theory Retention_Stores
  imports Retention Generic_Registry Docker_Local
begin

text \<open>
  Retention on two registries: the generic registry and the Docker registry, each with what a retention plan reads of it
  (\<open>detail\<close> of \<open>generic.go\<close>; \<open>listPackages\<close> and \<open>DeleteVersion\<close> of \<open>docker/extensions.go\<close>) and each an interpretation of the contract of
  \<open>Retention\<close>.
\<close>

section \<open>The generic registry\<close>

definition go_zero_time :: unix_time where "go_zero_time = -62135596800 * 10 ^ 9"

text \<open>\<open>PublishedAt\<close>: the newest modification time, printed to the second.\<close>

definition published_at :: "unix_time list \<Rightarrow> unix_time option" where
  "published_at ts = (let newest = foldl (\<lambda>n t. if t > n then t else n) go_zero_time ts
     in if newest = go_zero_time then None else Some (newest div 10 ^ 9 * 10 ^ 9))"

definition generic_detail :: "pkg_store \<Rightarrow> string \<Rightarrow> (string \<times> unix_time option) list" where
  "generic_detail s name0 = (let name = trim_slashes name0
     in map (\<lambda>v. (v, published_at (List.map_filter (\<lambda>f. map_option rf_mtime (fs_read (pk_fs s) (Join s [rel [name, v, f]]))) (ListFilesOf s name v))))
          (rev (ListVersions s name)))"

definition generic_view :: "pkg_store \<Rightarrow> registry_view" where
  "generic_view s = \<lparr>rv_Kind = ''local'', rv_ListPackages = Some (Some (ListPackages s)), rv_deletes = True,
     rv_detail = generic_detail s, rv_info = (\<lambda>_ _. None)\<rparr>"

definition generic_named :: "string \<Rightarrow> string \<Rightarrow> bool" where
  "generic_named n v \<longleftrightarrow> (\<exists>ps. ps \<noteq> [] \<and> list_all segment_ok ps \<and> segment_ok v \<and> n = join_on CHR ''/'' ps)"

text \<open>The files of a version.\<close>

definition generic_files :: "pkg_store \<Rightarrow> string \<Rightarrow> string \<Rightarrow> string \<Rightarrow> string option" where
  "generic_files s n v f = (if segment_ok f then Read s (rel [n, v, f]) else None)"

lemma target_apart:
  assumes "generic_named n v" "generic_named n' v'" "segment_ok f" "segment_ok f'"
    "clean_abs (rel [n, v, f]) = clean_abs (rel [n', v', f'])"
  shows "n = n' \<and> v = v' \<and> f = f'"
  using assms by (auto simp: generic_named_def rel_segments)

lemma version_files:
  assumes "names_ok s" "generic_named n v"
  shows "f \<in> set (ListFiles s (rel [n, v])) \<longleftrightarrow> segment_ok f \<and> Read s (rel [n, v, f]) \<noteq> None"
  using assms(2) by (auto simp: ListFiles_iff [OF assms(1)] generic_named_def rel_segments Read_def Join_one)

lemma DeleteVersion_eq:
  "DeleteVersion s n v = (if ListFiles s (rel [n, v]) = [] then (s, Some PkNotFound)
     else delete_files s (map (\<lambda>f. rel [n, v, f]) (ListFiles s (rel [n, v]))))"
  by (simp add: DeleteVersion_def Let_def)

lemma delete_files_error: "delete_files s fs = (s', Some e) \<Longrightarrow> e \<noteq> PkNotFound"
  by (induction fs arbitrary: s) (auto simp: delete_files_Cons Delete_def simp del: delete_files.simps(2) split: if_splits)

interpretation generic_versions: version_store DeleteVersion "\<lambda>e. e = PkNotFound" generic_files "\<lambda>_. None" names_ok generic_named
proof (unfold_locales, goal_cases)
  case (1 s n v)
  then show ?case by (simp add: DeleteVersion_eq delete_files_names)
next
  case (2 s n v n' v')
  have "clean_abs (rel [n', v', f]) \<notin> clean_abs ` set (map (\<lambda>f. rel [n, v, f]) (ListFiles s (rel [n, v])))" if "segment_ok f" for f
    using that 2 version_files [OF 2(1,2)] target_apart [OF 2(2,3)] by fastforce
  then show ?case by (auto simp: DeleteVersion_eq generic_files_def fun_eq_iff delete_files_other)
next
  case (3 s n v s')
  then have d: "delete_files s (map (\<lambda>f. rel [n, v, f]) (ListFiles s (rel [n, v]))) = (s', None)"
    by (auto simp: DeleteVersion_eq split: if_splits)
  have "Read s' (rel [n, v, f]) = None" if "segment_ok f" for f
  proof (cases "f \<in> set (ListFiles s (rel [n, v]))")
    case True
    then show ?thesis using delete_files_done [of s "map (\<lambda>f. rel [n, v, f]) (ListFiles s (rel [n, v]))" "rel [n, v, f]"] d by auto
  next
    case False
    then have "Read s (rel [n, v, f]) = None" using version_files [OF 3(1,2)] that by blast
    then show ?thesis using delete_files_none [of s "rel [n, v, f]"] d by (metis fst_conv)
  qed
  then show ?case by (simp add: generic_files_def fun_eq_iff)
next
  case (4 s n v s' e)
  then have "ListFiles s (rel [n, v]) = []" "s' = s" by (auto simp: DeleteVersion_eq dest: delete_files_error split: if_splits)
  then show ?case using version_files [OF 4(1,2)] by (fastforce simp: generic_files_def)
qed


text \<open>What the listing holds: distinct packages and versions, all of them named by clean segments.\<close>

lemma add_version_inv:
  assumes "distinct (map fst m)" "list_all (\<lambda>(k, vs). distinct vs \<and> vs \<noteq> [] \<and> list_all (generic_named k) vs) m" "generic_named pkg ver"
  shows "distinct (map fst (add_version pkg ver m)) \<and>
    list_all (\<lambda>(k, vs). distinct vs \<and> vs \<noteq> [] \<and> list_all (generic_named k) vs) (add_version pkg ver m)"
proof (cases "map_of m pkg")
  case None
  then have "pkg \<notin> fst ` set m" by (simp add: map_of_eq_None_iff)
  then show ?thesis using assms None by (simp add: add_version_def)
next
  case (Some ws)
  let ?g = "\<lambda>(k, vs). if k = pkg then (k, if ver \<in> set vs then vs else vs @ [ver]) else (k, vs)"
  let ?ok = "\<lambda>(k, vs). distinct vs \<and> vs \<noteq> [] \<and> list_all (generic_named k) vs"
  have e: "add_version pkg ver m = map ?g m" using Some by (simp add: add_version_def)
  have "map fst (map ?g m) = map fst m" by (simp add: case_prod_beta)
  moreover have "?ok (?g x)" if "?ok x" for x using that assms(3) by (cases x; cases "fst x = pkg") auto
  then have "list_all ?ok (map ?g m)" using assms(2) unfolding list_all_iff by simp
  ultimately show ?thesis using assms(1) unfolding e by (metis (no_types))
qed

lemma parsed_named: "ParsePath p = Some (pkg, ver, f) \<Longrightarrow> generic_named pkg ver \<and> segment_ok f"
  by (erule ParsePath_parts) (auto simp: generic_named_def)

lemma listing_inv:
  "distinct (map fst (ListPackages s)) \<and> list_all (\<lambda>(k, vs). distinct vs \<and> vs \<noteq> [] \<and> list_all (generic_named k) vs) (ListPackages s)"
proof -
  define step where "step = (\<lambda>p (m :: (string \<times> string list) list). case ParsePath (join_on CHR ''/'' p) of None \<Rightarrow> m | Some (pkg, ver, f) \<Rightarrow> add_version pkg ver m)"
  let ?inv = "\<lambda>m. distinct (map fst m) \<and> list_all (\<lambda>(k, vs). distinct vs \<and> vs \<noteq> [] \<and> list_all (generic_named k) vs) m"
  have "?inv (fold step ps m)" if "?inv m" for ps m
    using that
  proof (induction ps arbitrary: m)
    case (Cons p ps)
    have "?inv (step p m)"
    proof (cases "ParsePath (join_on CHR ''/'' p)")
      case (Some t)
      then obtain pkg ver f where t: "ParsePath (join_on CHR ''/'' p) = Some (pkg, ver, f)" by (cases t) auto
      then have "generic_named pkg ver" using parsed_named by blast
      then have "?inv (add_version pkg ver m)" using Cons.prems by (intro add_version_inv) simp_all
      then show ?thesis using t by (simp add: step_def)
    qed (use Cons.prems in \<open>simp add: step_def\<close>)
    then show ?case using Cons.IH by simp
  qed simp
  then have inv: "?inv (fold step (Walk s ''files'') [])" by simp
  define M where "M = fold step (Walk s ''files'') []"
  let ?N = "map (\<lambda>(k, vs). (k, SortVersions vs)) M"
  have v: "distinct (SortVersions vs) = distinct vs" "set (SortVersions vs) = set vs" for vs
    by (simp_all add: SortVersions_def mset_eq_imp_distinct_iff [OF mset_slice_stable])
  then have e: "SortVersions vs = [] \<longleftrightarrow> vs = []" for vs by (metis set_empty)
  have "map fst ?N = map fst M" by (simp add: case_prod_beta)
  then have "distinct (map fst ?N)" using inv by (simp only: M_def)
  moreover have "mset (map fst (sort_key fst ?N)) = mset (map fst ?N)" by (simp only: mset_map mset_sort)
  ultimately have "distinct (map fst (sort_key fst ?N))" using mset_eq_imp_distinct_iff by blast
  moreover have "list_all (\<lambda>(k, vs). distinct vs \<and> vs \<noteq> [] \<and> list_all (generic_named k) vs) ?N"
    using inv unfolding M_def [symmetric] list_all_iff by (auto simp: v e)
  moreover have "ListPackages s = sort_key fst ?N" by (simp add: ListPackages_def Let_def M_def step_def)
  ultimately show ?thesis by (simp add: list_all_iff)
qed

lemma plan_items:
  assumes "PlanRetention reg pol now = Ok its" "rv_ListPackages reg = Some (Some pkgs)" "(n, v, r) \<in> set its"
  obtains vs where "(n, vs) \<in> set pkgs" "v \<in> set vs"
proof -
  obtain p where p: "p \<in> set pkgs" "(n, v, r) \<in> set (plan_package reg pol now p)"
    using plan_parts(1) [OF assms(1,2)] assms(3) by auto
  obtain m vs where m: "p = (m, vs)" by (cases p)
  then have "n = m" "\<exists>i < length vs. sortNewestFirst vs ! i = v" using p(2) unfolding m plan_package_iff by blast+
  then have "v \<in> set vs" by (metis newest_length newest_set nth_mem)
  then show ?thesis using that p(1) m \<open>n = m\<close> by blast
qed

text \<open>
  C23: retention on a generic repository.  A file of a version that is not planned keeps its bytes, even when deletions fail; a run
  without errors leaves no file of a planned version; and of every package the listing shows, the newest version is not planned.
\<close>

theorem generic_retention:
  assumes "names_ok s" "PlanRetention (generic_view s) pol now = Ok its"
    "ApplyRetention DeleteVersion (\<lambda>e. e = PkNotFound) its s = (s', k, es)" "ParsePath p = Some (pkg, ver, f)"
  shows "(\<not> planned its pkg ver \<longrightarrow> Read s' (rel [pkg, ver, f]) = Read s (rel [pkg, ver, f])) \<and>
    (planned its pkg ver \<and> es = [] \<longrightarrow> Read s' (rel [pkg, ver, f]) = None) \<and>
    list_all (\<lambda>(n, vs). \<not> planned its n (sortNewestFirst vs ! 0)) (ListPackages s)"
proof -
  have l: "rv_ListPackages (generic_view s) = Some (Some (ListPackages s))" by (simp add: generic_view_def)
  have named: "list_all (\<lambda>(n, v, r). generic_named n v) its"
    unfolding list_all_iff using listing_inv [of s] plan_items [OF assms(2) l] by (fastforce simp: list_all_iff)
  have f: "generic_named pkg ver" "segment_ok f" using parsed_named [OF assms(4)] by auto
  have s': "s' = fst (ApplyRetention DeleteVersion (\<lambda>e. e = PkNotFound) its s)" "es = snd (snd (ApplyRetention DeleteVersion (\<lambda>e. e = PkNotFound) its s))"
    using assms(3) by simp_all
  have "Read s' (rel [pkg, ver, f]) = Read s (rel [pkg, ver, f])" if "\<not> planned its pkg ver"
  proof -
    have "(pkg, ver) \<notin> (\<lambda>(n, v, r). (n, v)) ` set its" using that by (force simp: planned_iff)
    then have "generic_files s' pkg ver f = generic_files s pkg ver f"
      using generic_versions.run_keeps [OF assms(1) named f(1)] by (simp add: s'(1))
    then show ?thesis using f(2) by (simp add: generic_files_def)
  qed
  moreover have "Read s' (rel [pkg, ver, f]) = None" if "planned its pkg ver" "es = []"
  proof -
    from that(1) obtain r where "(pkg, ver, r) \<in> set its" by (auto simp only: planned_iff)
    then have "generic_files s' pkg ver f = None"
      using generic_versions.run_removes [OF assms(1) named] that(2) by (simp add: s' fun_eq_iff)
    then show ?thesis using f(2) by (simp add: generic_files_def)
  qed
  moreover have "\<not> planned its n (sortNewestFirst vs ! 0)" if "(n, vs) \<in> set (ListPackages s)" for n vs
    using listing_inv [of s] that by (intro newest_stays [OF assms(2) l]) (auto simp: list_all_iff)
  ultimately show ?thesis by (auto simp: list_all_iff)
qed

definition demo_versions :: pkg_store where
  "demo_versions = \<lparr>pk_fs = map (\<lambda>v. ([''repo'', ''files'', ''a'', v, ''x''], \<lparr>rf_data = v, rf_mtime = 10 ^ 18\<rparr>)) [''1.0'', ''1.10'', ''1.9''],
     pk_writable = True, pk_base = [''repo''], pk_stuck = []\<rparr>"

theorem generic_retention_witness:
  "let s = fst (ApplyRetention DeleteVersion (\<lambda>e. e = PkNotFound) [(''a'', ''1.9'', Beyond 1), (''a'', ''1.0'', Beyond 1)] demo_versions)
   in Read s ''files/a/1.10/x'' = Some ''1.10'' \<and> Read s ''files/a/1.9/x'' = None"
proof -
  let ?its = "[(''a'', ''1.9'', Beyond 1), (''a'', ''1.0'', Beyond 1)]" and ?pol = "\<lparr>rt_KeepLastVersions = 1, rt_MaxVersionAgeDays = 0, rt_KeepPatterns = []\<rparr>"
  let ?run = "ApplyRetention DeleteVersion (\<lambda>e. e = PkNotFound) ?its demo_versions"
  have n: "names_ok demo_versions" by code_simp
  have p: "PlanRetention (generic_view demo_versions) ?pol 0 = Ok ?its" by code_simp
  have r: "?run = (fst ?run, fst (snd ?run), snd (snd ?run))" by simp
  have e: "snd (snd ?run) = []" by code_simp
  have pp: "ParsePath ''a/1.10/x'' = Some (''a'', ''1.10'', ''x'')" "ParsePath ''a/1.9/x'' = Some (''a'', ''1.9'', ''x'')" by code_simp+
  have d: "\<not> planned ?its ''a'' ''1.10''" "planned ?its ''a'' ''1.9''" by code_simp+
  have x: "rel [''a'', ''1.10'', ''x''] = ''files/a/1.10/x''" "rel [''a'', ''1.9'', ''x''] = ''files/a/1.9/x''" by code_simp+
  have v: "Read demo_versions ''files/a/1.10/x'' = Some ''1.10''" by code_simp
  have "Read (fst ?run) ''files/a/1.10/x'' = Some ''1.10''"
    using conjunct1 [OF generic_retention [OF n p r pp(1)]] d(1) v unfolding x by metis
  moreover have "Read (fst ?run) ''files/a/1.9/x'' = None"
    using conjunct1 [OF conjunct2 [OF generic_retention [OF n p r pp(2)]]] d(2) e unfolding x by metis
  ultimately show ?thesis by (simp add: Let_def)
qed

section \<open>The Docker registry\<close>

definition listPackages :: "docker_store \<Rightarrow> (string \<times> string list) list" where
  "listPackages s = map (\<lambda>n. (n, ListTags s n)) (ListRepositories s)"

text \<open>The rows of a Docker package are not collected, and there are no infos.\<close>

definition docker_view :: "docker_store \<Rightarrow> registry_view" where
  "docker_view s = \<lparr>rv_Kind = ''local'', rv_ListPackages = Some (Some (listPackages s)), rv_deletes = True,
     rv_detail = (\<lambda>_. []), rv_info = (\<lambda>_ _. None)\<rparr>"

definition notFound :: "docker_error \<Rightarrow> bool" where
  "notFound e \<longleftrightarrow> e = ErrTagUnknown \<or> e = ErrManifestUnknown"

definition docker_delete :: "codec \<Rightarrow> local_config \<Rightarrow> unix_time \<Rightarrow> docker_store \<Rightarrow> string \<Rightarrow> string \<Rightarrow> docker_store \<times> docker_error option" where
  "docker_delete c l now s name version = DeleteReference c l s name version now"

lemma docker_delete_tag:
  "\<not> IsDigestReference v \<Longrightarrow> docker_delete c l now s n v =
    (case ValidateRepoName n of Some e \<Rightarrow> (s, Some e) | None \<Rightarrow> if v = [] then (s, Some ErrNameInvalid)
      else (case ValidateTag v of Some e \<Rightarrow> (s, Some e) | None \<Rightarrow> deleteTagReference l s n v))"
  by (simp add: docker_delete_def DeleteReference_def)

lemma ReadTag_DeleteTag: "(n, v) \<noteq> (m, w) \<Longrightarrow> ReadTag (fst (DeleteTag s m w)) n v = ReadTag s n v"
  by (auto simp: DeleteTag_def split: option.split intro!: ReadTag_cong)

lemma docker_keeps_other:
  assumes "(n, v) \<noteq> (m, w) \<or> isImmutableTag l v" "\<not> IsDigestReference w"
  shows "ReadTag (fst (docker_delete c l now s m w)) n v = ReadTag s n v"
  using assms ReadTag_DeleteTag [of n v m w s]
  by (auto simp: docker_delete_tag deleteTagReference_def split: option.split)

lemma Validate_errors: "ValidateTag v = Some e \<Longrightarrow> e = ErrNameInvalid" "ValidateRepoName v = Some e \<Longrightarrow> e = ErrNameInvalid"
  by (cases v) (auto simp: ValidateTag_def ValidateRepoName_def split: if_splits)

interpretation docker_tags: version_store "docker_delete c l now" notFound ReadTag "Err ErrTagUnknown" "\<lambda>_. True" "\<lambda>n v. \<not> IsDigestReference v"
  for c l now
proof (unfold_locales, goal_cases)
  case (2 s n v n' v')
  then show ?case by (intro docker_keeps_other) auto
next
  case (3 s n v s')
  then show ?case
    by (auto simp: docker_delete_tag deleteTagReference_def DeleteTag_def ReadTag_def split: option.splits if_splits)
next
  case (4 s n v s' e)
  then show ?case
    by (auto simp: docker_delete_tag deleteTagReference_def DeleteTag_def ReadTag_def notFound_def dest: Validate_errors
      split: option.splits if_splits)
qed simp

text \<open>
  C24: retention on a Docker repository.  A tag that is not planned, and an immutable tag in any case, still names its manifest; a
  run without errors removes every planned tag; and as the plan finds no publish time for a tag, a policy with an age limit only deletes nothing.
\<close>

theorem docker_retention:
  assumes "PlanRetention (docker_view s) pol now = Ok its" "ApplyRetention (docker_delete c l now) notFound its s = (s', k, es)"
    "list_all (\<lambda>(n, ts). list_all (\<lambda>t. \<not> IsDigestReference t) ts) (listPackages s)" "\<not> IsDigestReference t"
  shows "(\<not> planned its n t \<or> isImmutableTag l t \<longrightarrow> ReadTag s' n t = ReadTag s n t) \<and>
    (planned its n t \<and> es = [] \<longrightarrow> ReadTag s' n t = Err ErrTagUnknown) \<and> (rt_KeepLastVersions pol \<le> 0 \<longrightarrow> s' = s)"
proof -
  have view: "rv_ListPackages (docker_view s) = Some (Some (listPackages s))" by (simp add: docker_view_def)
  have named: "list_all (\<lambda>(n, v, r). \<not> IsDigestReference v) its"
    unfolding list_all_iff
  proof (clarify)
    fix m v r
    assume d: "(m, v, r) \<in> set its" "IsDigestReference v"
    then obtain vs where "(m, vs) \<in> set (listPackages s)" "v \<in> set vs" using plan_items [OF assms(1) view] by metis
    then show False using d(2) assms(3) unfolding list_all_iff by blast
  qed
  have s': "s' = fst (ApplyRetention (docker_delete c l now) notFound its s)" "es = snd (snd (ApplyRetention (docker_delete c l now) notFound its s))"
    using assms(2) by simp_all
  have "ReadTag s' n t = ReadTag s n t" if u: "\<not> planned its n t"
  proof -
    have "(n, t) \<notin> (\<lambda>(n, v, r). (n, v)) ` set its" using u by (force simp: planned_iff)
    then show ?thesis using docker_tags.run_keeps [OF _ named assms(4)] by (simp add: s'(1))
  qed
  moreover have "ReadTag s' n t = ReadTag s n t" if "isImmutableTag l t"
    unfolding s'(1) using that by (intro docker_tags.run_fixed [OF _ _ named] docker_keeps_other) auto
  moreover have "ReadTag s' n t = Err ErrTagUnknown" if p: "planned its n t" "es = []"
  proof -
    from p(1) obtain r where "(n, t, r) \<in> set its" by (auto simp only: planned_iff)
    then show ?thesis using docker_tags.run_removes [OF _ named] p(2) by (simp add: s')
  qed
  moreover have "s' = s" if k: "rt_KeepLastVersions pol \<le> 0"
  proof -
    have none: "plan_version pol now pub i v = None" if "pub v = None" for pub i v
      using that k by (simp add: plan_version_def)
    have times: "publishTimes (docker_view s) m vs v = None" for m vs v
      by (simp add: publishTimes_def collectDetailTimes_def docker_view_def)
    have "x \<notin> set (plan_package (docker_view s) pol now p)" for x p
    proof
      obtain m v r n vs where x: "x = (m, v, r)" "p = (n, vs)" by (cases x, cases p) auto
      assume "x \<in> set (plan_package (docker_view s) pol now p)"
      then obtain i where i: "plan_version pol now (if rt_MaxVersionAgeDays pol > 0 \<and> length vs > 1
          then publishTimes (docker_view s) n (drop 1 (sortNewestFirst vs)) else (\<lambda>_. None)) i v = Some r"
        unfolding x plan_package_iff by blast
      show False using i by (subst (asm) none) (simp_all add: times)
    qed
    then have "plan_package (docker_view s) pol now p = []" for p using list.set_sel(1) by blast
    then have "its = []" using plan_parts(1) [OF assms(1) view] by simp
    then show ?thesis using assms(2) by simp
  qed
  ultimately show ?thesis by blast
qed

definition demo_tags :: docker_store where
  "demo_tags = fst (SetTag demo_pushed ''app'' ''0.9'' demo_manifest 0)"

theorem docker_retention_witness:
  "let s = fst (ApplyRetention (docker_delete no_codec (plain_config [''v*'']) 0) notFound [(''app'', ''0.9'', Beyond 1)] demo_tags)
   in ReadTag s ''app'' ''0.9'' = Err ErrTagUnknown \<and> ReadTag s ''app'' ''v1'' = Ok demo_manifest"
proof -
  let ?its = "[(''app'', ''0.9'', Beyond 1)]" and ?pol = "\<lparr>rt_KeepLastVersions = 1, rt_MaxVersionAgeDays = 0, rt_KeepPatterns = []\<rparr>"
  let ?l = "plain_config [''v*'']"
  let ?run = "ApplyRetention (docker_delete no_codec ?l 0) notFound ?its demo_tags"
  have p: "PlanRetention (docker_view demo_tags) ?pol 0 = Ok ?its" by code_simp
  have r: "?run = (fst ?run, fst (snd ?run), snd (snd ?run))" by simp
  have e: "snd (snd ?run) = []" by code_simp
  have d: "list_all (\<lambda>(n, ts). list_all (\<lambda>t. \<not> IsDigestReference t) ts) (listPackages demo_tags)"
    "\<not> IsDigestReference ''0.9''" "\<not> IsDigestReference ''v1''" "planned ?its ''app'' ''0.9''" "\<not> planned ?its ''app'' ''v1''"
    "ReadTag demo_tags ''app'' ''v1'' = Ok demo_manifest" by code_simp+
  have "ReadTag (fst ?run) ''app'' ''0.9'' = Err ErrTagUnknown"
    using conjunct1 [OF conjunct2 [OF docker_retention [OF p r d(1,2)]]] d(4) e by metis
  moreover have "ReadTag (fst ?run) ''app'' ''v1'' = Ok demo_manifest"
    using conjunct1 [OF docker_retention [OF p r d(1,3)]] d(5,6) by metis
  ultimately show ?thesis by (simp add: Let_def)
qed

end
