(* ===== verification/Registry_Settings.thy ===== *)
theory Registry_Settings
  imports Retention Secret_Rows
begin

text \<open>
  The registry configuration and its validation: \<open>internal/service/registry.go\<close>, \<open>registry_validate.go\<close> and the syntax of secret
  references of \<open>internal/secretref/secretref.go\<close>.  A rejection is the name of the rule.  \<open>url.Parse\<close> (an http or https URL with a host)
  and \<open>time.ParseDuration\<close> are the fields of \<open>parsers\<close>.
\<close>

section \<open>Malformed patterns\<close>

text \<open>When \<open>path.Match\<close> returns an error.\<close>

function rest_bad :: "string \<Rightarrow> bool" where
  "rest_bad p = (if p = [] then False else case scan_chunk p of (star, chunk, rest) \<Rightarrow> match_chunk False chunk [] = ChunkBad \<or> rest_bad rest)"
  by pat_completeness auto

termination
  by (relation "measure length") (auto dest: scan_chunk_shorter [OF sym])

function path_match_bad :: "string \<Rightarrow> string \<Rightarrow> bool" where
  "path_match_bad p name =
     (if p = [] then False
      else case scan_chunk p of (star, chunk, rest) \<Rightarrow>
        if star \<and> chunk = [] then False
        else case match_chunk False chunk name of
          ChunkBad \<Rightarrow> True
        | r \<Rightarrow> (case (case r of ChunkRest t \<Rightarrow> if t = [] \<or> rest \<noteq> [] then r else ChunkNo | _ \<Rightarrow> ChunkNo) of
            ChunkRest t \<Rightarrow> path_match_bad rest t
          | _ \<Rightarrow> (case (if star then skip_match (rest = []) chunk name else ChunkNo) of
              ChunkBad \<Rightarrow> True | ChunkRest t \<Rightarrow> path_match_bad rest t | ChunkNo \<Rightarrow> rest_bad rest)))"
  by pat_completeness auto

termination
  by (relation "measure (\<lambda>(p, name). length p)") (auto dest: scan_chunk_shorter [OF sym])

declare rest_bad.simps [simp del] path_match_bad.simps [simp del]

section \<open>The settings\<close>

record row_retention = retention_policy +
  rt_GCMinAgeSeconds :: int
  rt_AbandonedUploadMaxAgeSeconds :: int

record row_policy = registry_policy +
  rw_ImmutableTags :: "string list"
  rw_Retention :: "row_retention option"
  rw_ImmutableVersions :: bool
  rw_QuotaBytes :: int

text \<open>The repository of \<open>Secret_Rows\<close> with its other fields.  A prefetch is its interval.\<close>

record settings_repo = repository +
  sr_Mount :: string
  sr_BasePath :: string
  sr_AllowPush :: bool
  sr_URL :: string
  sr_MutableTTL :: string
  sr_FloatingTags :: "string list"
  sr_InsecureSkipVerify :: bool
  sr_Members :: "string list"
  sr_DefaultLocal :: string
  sr_MaxUploadSize :: int
  sr_Policy :: "row_policy option"
  sr_SigningKeyName :: string
  sr_Prefetch :: "string option"

record registry_namespace =
  rn_Name :: string
  rn_Repositories :: "settings_repo list"

record parsers =
  ps_http_url :: "string \<Rightarrow> bool"
  ps_duration :: "string \<Rightarrow> int option"

definition KnownRegistryTypes :: "string list" where
  "KnownRegistryTypes = [''go'', ''npm'', ''docker'', ''helm'', ''maven'', ''pypi'', ''cargo'', ''generic'', ''nuget'', ''rubygems'',
     ''composer'', ''terraform'', ''pub'', ''swift'', ''apt'', ''rpm'', ''alpine'', ''conda'', ''huggingface'', ''conan'', ''cran'',
     ''vagrant'', ''ansible'', ''puppet'', ''chef'', ''cocoapods'', ''bower'', ''gitlfs'', ''p2'']"

definition RegistryTypesWithPrefixUpstreams :: "string list" where
  "RegistryTypesWithPrefixUpstreams = [''go'', ''npm'', ''maven'']"

definition RegistryTypesWithSigning :: "string list" where
  "RegistryTypesWithSigning = [''apt'', ''rpm'', ''alpine'']"

section \<open>Validation\<close>

text \<open>The first rule broken, in order.\<close>

definition first_error :: "string option list \<Rightarrow> string option" where
  "first_error es = (case filter (\<lambda>e. e \<noteq> None) es of [] \<Rightarrow> None | e # _ \<Rightarrow> e)"

definition unless :: "bool \<Rightarrow> string \<Rightarrow> string option" where
  "unless ok rule = (if ok then None else Some rule)"

definition name_char :: "char \<Rightarrow> bool" where
  "name_char c \<longleftrightarrow> is_lower c \<or> is_digit c \<or> c = CHR ''-'' \<or> c = CHR ''_''"

definition validateRegistryName :: "string \<Rightarrow> bool" where
  "validateRegistryName name \<longleftrightarrow> name \<noteq> [] \<and> length name \<le> 64 \<and> list_all name_char name"

definition validateRegistryKindFields :: "settings_repo \<Rightarrow> string option" where
  "validateRegistryKindFields r =
     (if rr_Kind r = ''local'' then first_error
        [unless (sr_URL r = []) ''url'', unless (rr_Auth r = None) ''auth'', unless (sr_MutableTTL r = []) ''mutable_ttl'',
         unless (sr_FloatingTags r = []) ''floating_tags'', unless (\<not> sr_InsecureSkipVerify r) ''insecure_skip_verify'',
         unless (sr_Members r = []) ''members'', unless (sr_DefaultLocal r = []) ''default_local'']
      else if rr_Kind r = ''remote'' then first_error
        [unless (\<not> sr_AllowPush r) ''allow_push'', unless (sr_Members r = []) ''members'', unless (sr_DefaultLocal r = []) ''default_local'']
      else if rr_Kind r = ''virtual'' then first_error
        [unless (sr_Mount r = []) ''mount'', unless (sr_BasePath r = []) ''base_path'', unless (\<not> sr_AllowPush r) ''allow_push'',
         unless (sr_URL r = []) ''url'', unless (rr_Auth r = None) ''auth'', unless (sr_MutableTTL r = []) ''mutable_ttl'',
         unless (sr_FloatingTags r = []) ''floating_tags'', unless (\<not> sr_InsecureSkipVerify r) ''insecure_skip_verify'']
      else None)"

definition ValidateSelector :: "string \<Rightarrow> bool" where
  "ValidateSelector selector \<longleftrightarrow> selector \<noteq> [] \<and> has_prefix selector ''/'' \<and>
     list_all (\<lambda>tok. list_all (\<lambda>i. tok ! i = CHR ''~'' \<longrightarrow> Suc i < length tok \<and> tok ! Suc i \<in> {CHR ''0'', CHR ''1''}) [0..<length tok])
       (split_on CHR ''/'' (drop 1 selector))"

definition Split :: "string \<Rightarrow> (string \<times> string \<times> bool) option" where
  "Split target = (case cut target CHR ''#'' of (location, selector, has) \<Rightarrow>
     if location = [] then None
     else if has \<and> \<not> ValidateSelector selector then None
     else Some (location, selector, has))"

definition validateRegistryAuthSecretValue :: "string \<Rightarrow> bool" where
  "validateRegistryAuthSecretValue v \<longleftrightarrow>
     (if v = [] then True
      else if has_prefix v ''secret://'' then False
      else (if has_prefix v ''raw://'' then
              (case Split (drop 6 v) of None \<Rightarrow> False
               | Some (ref, _, _) \<Rightarrow> (case cut ref CHR ''/'' of (a, b, found) \<Rightarrow> found \<and> a \<noteq> [] \<and> b \<noteq> []))
            else True) \<and>
           (if has_prefix v ''config://'' then Split (drop 9 v) \<noteq> None else True))"

definition validateRegistryAuth :: "upstream_auth \<Rightarrow> string option" where
  "validateRegistryAuth a =
     (if ua_Type a = ''basic'' then first_error
        [unless (ua_Username a \<noteq> []) ''username'', unless (validateRegistryAuthSecretValue (ua_Username a)) ''username'',
         unless (validateRegistryAuthSecretValue (ua_Password a)) ''password'']
      else if ua_Type a = ''bearer'' then first_error
        [unless (ua_Token a \<noteq> []) ''token'', unless (validateRegistryAuthSecretValue (ua_Token a)) ''token'']
      else if ua_Type a = ''header'' then first_error
        [unless (ua_Header a \<noteq> []) ''header'', unless (ua_Value a \<noteq> []) ''value'', unless (validateRegistryAuthSecretValue (ua_Value a)) ''value'']
      else Some ''auth type'')"

fun validate_upstreams :: "parsers \<Rightarrow> string list \<Rightarrow> registry_upstream list \<Rightarrow> string option" where
  "validate_upstreams ps seen [] = None"
| "validate_upstreams ps seen (u # us) = first_error
     [unless (ru_Prefix u \<noteq> []) ''prefix'', unless (ru_Prefix u \<notin> set seen) ''duplicate prefix'', unless (ru_URL u \<noteq> []) ''upstream url'',
      unless (ps_http_url ps (ru_URL u)) ''upstream url'', (case ru_Auth u of None \<Rightarrow> None | Some a \<Rightarrow> validateRegistryAuth a),
      validate_upstreams ps (ru_Prefix u # seen) us]"

definition validateRegistryUpstreams :: "parsers \<Rightarrow> settings_repo \<Rightarrow> string option" where
  "validateRegistryUpstreams ps r =
     (if rr_Upstreams r = [] then None
      else if rr_Type r \<notin> set RegistryTypesWithPrefixUpstreams then Some ''upstreams''
      else validate_upstreams ps [] (rr_Upstreams r))"

definition validate_immutable_tag :: "string \<Rightarrow> string option" where
  "validate_immutable_tag pat = first_error
     [unless (trim_space pat \<noteq> []) ''immutable_tags'', unless (pat = trim_space pat) ''immutable_tags'', unless (CHR ''/'' \<notin> set pat) ''immutable_tags'',
      unless (\<not> path_match_bad pat ''candidate'') ''immutable_tags'']"

definition validateRegistryPolicy :: "settings_repo \<Rightarrow> string option" where
  "validateRegistryPolicy r = (case sr_Policy r of None \<Rightarrow> None
   | Some p \<Rightarrow> first_error
      [if rw_ImmutableTags p \<noteq> [] then first_error (unless (rr_Type r = ''docker'' \<and> rr_Kind r = ''local'') ''immutable_tags''
           # map validate_immutable_tag (rw_ImmutableTags p)) else None,
       case rw_Retention p of None \<Rightarrow> None
         | Some t \<Rightarrow> first_error
            [unless (rr_Kind r = ''local'') ''retention'',
             unless (rr_Type r = ''docker'' \<or> (rt_GCMinAgeSeconds t = 0 \<and> rt_AbandonedUploadMaxAgeSeconds t = 0)) ''retention gc'',
             unless (rt_KeepLastVersions t \<ge> 0 \<and> rt_MaxVersionAgeDays t \<ge> 0) ''retention limits'',
             unless (list_all (\<lambda>pat. \<not> path_match_bad pat ''candidate'' \<and> trim_space pat \<noteq> []) (rt_KeepPatterns t)) ''keep_patterns'',
             unless (rt_GCMinAgeSeconds t \<ge> 0) ''gc_min_age_seconds'', unless (rt_AbandonedUploadMaxAgeSeconds t \<ge> 0) ''abandoned_upload_max_age_seconds''],
       unless (list_all (\<lambda>pat. trim_space pat \<noteq> [] \<and> \<not> path_match_bad (trim_suffix pat ''**'' @ ''x'') ''candidate'') (rp_Include p @ rp_Exclude p))
         ''include/exclude'',
       unless (rw_QuotaBytes p \<ge> 0) ''quota_bytes'', unless (rp_QuarantineDays p \<ge> 0) ''quarantine_days'',
       unless (to_lower (rp_MinSeverity p) \<in> {[], ''low'', ''moderate'', ''medium'', ''high'', ''critical''}) ''min_severity'',
       unless (rp_RequireSignature p \<longrightarrow> rr_Type r = ''docker'') ''require_signature'',
       unless (rw_ImmutableVersions p \<or> rw_QuotaBytes p > 0 \<longrightarrow> rr_Kind r = ''local'') ''immutable_versions / quota_bytes''])"

definition interval_ok :: "parsers \<Rightarrow> string \<Rightarrow> bool" where
  "interval_ok ps s \<longleftrightarrow> s = [] \<or> (case ps_duration ps s of None \<Rightarrow> False | Some d \<Rightarrow> d \<ge> 60 * 10 ^ 9)"

definition validate_kind :: "parsers \<Rightarrow> settings_repo \<Rightarrow> string option" where
  "validate_kind ps r =
     (if rr_Kind r = ''local'' then first_error
        [validateRegistryKindFields r, unless (sr_Mount r \<noteq> []) ''mount'', unless (sr_BasePath r \<noteq> []) ''base_path'']
      else if rr_Kind r = ''remote'' then first_error
        [validateRegistryKindFields r, unless (sr_URL r \<noteq> []) ''url'', unless (ps_http_url ps (sr_URL r)) ''url'',
         unless (sr_Mount r \<noteq> []) ''mount'', unless (sr_BasePath r \<noteq> []) ''base_path'',
         (case rr_Auth r of None \<Rightarrow> None | Some a \<Rightarrow> validateRegistryAuth a), validateRegistryUpstreams ps r,
         unless (sr_MutableTTL r = [] \<or> ps_duration ps (sr_MutableTTL r) \<noteq> None) ''mutable_ttl'']
      else if rr_Kind r = ''virtual'' then first_error
        [validateRegistryKindFields r, unless (sr_Members r \<noteq> []) ''members'']
      else Some ''kind'')"

definition validate_row :: "parsers \<Rightarrow> settings_repo \<Rightarrow> string option" where
  "validate_row ps r = first_error
     [unless (rr_Type r \<in> set KnownRegistryTypes) ''type'', unless (sr_MaxUploadSize r \<ge> 0) ''max_upload_size'', validate_kind ps r,
      validateRegistryPolicy r,
      (case sr_Prefetch r of None \<Rightarrow> None
       | Some interval \<Rightarrow> first_error [unless (rr_Kind r = ''remote'') ''prefetch'', unless (interval_ok ps interval) ''prefetch.interval'']),
      (case rr_Replication r of None \<Rightarrow> None
       | Some rep \<Rightarrow> first_error [unless (rr_Kind r = ''local'') ''replication'', unless (ps_http_url ps (rp_SourceURL rep)) ''source_url'',
           unless (interval_ok ps (rp_Interval rep)) ''replication.interval'']),
      unless (rr_SigningKey r = [] \<and> sr_SigningKeyName r = [] \<or> (rr_Type r \<in> set RegistryTypesWithSigning \<and> rr_Kind r = ''local'')) ''signing_key'']"

fun validate_rows :: "parsers \<Rightarrow> string list \<Rightarrow> settings_repo list \<Rightarrow> string option" where
  "validate_rows ps seen [] = None"
| "validate_rows ps seen (r # rs) = first_error
     [unless (validateRegistryName (rr_Name r)) ''repo name'', unless (rr_Name r \<notin> set seen) ''duplicate repo'', validate_row ps r,
      validate_rows ps (rr_Name r # seen) rs]"

definition FindRepository :: "registry_namespace \<Rightarrow> string \<Rightarrow> settings_repo option" where
  "FindRepository ns name = find (\<lambda>r. rr_Name r = name) (rn_Repositories ns)"

fun validate_members :: "registry_namespace \<Rightarrow> settings_repo \<Rightarrow> string list \<Rightarrow> string list \<Rightarrow> string option" where
  "validate_members ns r seen [] = None"
| "validate_members ns r seen (m # ms) = first_error
     [unless (m \<noteq> rr_Name r) ''self reference'', unless (m \<notin> set seen) ''duplicate member'',
      (case FindRepository ns m of None \<Rightarrow> Some ''member not found''
       | Some t \<Rightarrow> first_error [unless (rr_Type t = rr_Type r) ''member type'', unless (rr_Kind t \<noteq> ''virtual'') ''virtual member'']),
      validate_members ns r (m # seen) ms]"

definition validate_virtual :: "registry_namespace \<Rightarrow> settings_repo \<Rightarrow> string option" where
  "validate_virtual ns r =
     (if rr_Kind r \<noteq> ''virtual'' then None
      else first_error
        [validate_members ns r [] (sr_Members r),
         if sr_DefaultLocal r = [] then None
         else (case FindRepository ns (sr_DefaultLocal r) of None \<Rightarrow> Some ''default_local''
           | Some t \<Rightarrow> unless (rr_Kind t = ''local'') ''default_local'')])"

definition validateNamespaceRepos :: "parsers \<Rightarrow> registry_namespace \<Rightarrow> string option" where
  "validateNamespaceRepos ps ns = first_error (validate_rows ps [] (rn_Repositories ns) # map (validate_virtual ns) (rn_Repositories ns))"

fun validate_namespaces :: "parsers \<Rightarrow> string list \<Rightarrow> registry_namespace list \<Rightarrow> string option" where
  "validate_namespaces ps seen [] = None"
| "validate_namespaces ps seen (ns # nss) = first_error
     [unless (validateRegistryName (rn_Name ns)) ''namespace name'', unless (rn_Name ns \<notin> set seen) ''duplicate namespace'',
      validateNamespaceRepos ps ns, validate_namespaces ps (rn_Name ns # seen) nss]"

definition Validate :: "parsers \<Rightarrow> registry_namespace list \<Rightarrow> string option" where
  "Validate ps nss = validate_namespaces ps [] nss"


section \<open>What validation gives\<close>

lemma first_error_None [simp]: "first_error es = None \<longleftrightarrow> list_all (\<lambda>e. e = None) es"
proof (induction es)
  case (Cons e es)
  then show ?case by (cases e) (simp_all add: first_error_def)
qed (simp add: first_error_def)

lemma unless_None [simp]: "unless ok rule = None \<longleftrightarrow> ok"
  by (simp add: unless_def)

lemma validate_rows_names:
  "validate_rows ps seen rs = None \<Longrightarrow> distinct (map rr_Name rs) \<and> set seen \<inter> rr_Name ` set rs = {} \<and>
     list_all (\<lambda>r. validateRegistryName (rr_Name r) \<and> validate_row ps r = None) rs"
proof (induction rs arbitrary: seen)
  case (Cons r rs)
  then show ?case using Cons.IH [of "rr_Name r # seen"] by auto
qed simp

lemma validate_members_iff:
  "validate_members ns r seen ms = None \<longleftrightarrow> distinct ms \<and> set seen \<inter> set ms = {} \<and>
     list_all (\<lambda>m. m \<noteq> rr_Name r \<and> (case FindRepository ns m of None \<Rightarrow> False | Some t \<Rightarrow> rr_Type t = rr_Type r \<and> rr_Kind t \<noteq> ''virtual'')) ms"
  by (induction ms arbitrary: seen) (auto split: option.splits)

lemma Validate_namespaces:
  "validate_namespaces ps seen nss = None \<Longrightarrow> distinct (map rn_Name nss) \<and> set seen \<inter> rn_Name ` set nss = {} \<and>
     list_all (\<lambda>ns. validateRegistryName (rn_Name ns) \<and> validateNamespaceRepos ps ns = None) nss"
proof (induction nss arbitrary: seen)
  case (Cons ns nss)
  then show ?case using Cons.IH [of "rn_Name ns # seen"] by auto
qed simp

lemma name_no_slash: "validateRegistryName name \<Longrightarrow> CHR ''/'' \<notin> set name"
  by (auto simp: validateRegistryName_def list_all_iff name_char_def is_lower_def is_digit_def)

lemma row_kinds: "validate_row ps r = None \<Longrightarrow> rr_Kind r \<in> {''local'', ''remote'', ''virtual''}"
  by (auto simp: validate_row_def validate_kind_def split: if_splits)

text \<open>Names are unique and without slash, and the members of a virtual repository are other repositories of its namespace and type that
  are not virtual themselves.\<close>

definition settings_ok :: "registry_namespace list \<Rightarrow> bool" where
  "settings_ok nss \<longleftrightarrow> distinct (map rn_Name nss) \<and> list_all (\<lambda>ns. CHR ''/'' \<notin> set (rn_Name ns) \<and> distinct (map rr_Name (rn_Repositories ns)) \<and>
     list_all (\<lambda>r. CHR ''/'' \<notin> set (rr_Name r) \<and> rr_Name r \<noteq> [] \<and> rr_Kind r \<in> {''local'', ''remote'', ''virtual''} \<and>
       (if rr_Kind r = ''virtual'' then sr_Members r \<noteq> [] \<and> distinct (sr_Members r) \<and>
          list_all (\<lambda>m. list_ex (\<lambda>t. rr_Name t = m \<and> rr_Type t = rr_Type r \<and> rr_Kind t \<in> {''local'', ''remote''}) (rn_Repositories ns)) (sr_Members r)
        else sr_Members r = [])) (rn_Repositories ns)) nss"

lemma find_repo: "FindRepository ns m = Some t \<Longrightarrow> t \<in> set (rn_Repositories ns) \<and> rr_Name t = m"
  using find_someD by (fastforce simp: FindRepository_def)

lemma validated:
  assumes "Validate ps nss = None"
  shows "settings_ok nss"
proof -
  have nss: "distinct (map rn_Name nss)" "list_all (\<lambda>ns. validateRegistryName (rn_Name ns) \<and> validateNamespaceRepos ps ns = None) nss"
    using Validate_namespaces assms by (auto simp: Validate_def)
  have repo: "CHR ''/'' \<notin> set (rr_Name r) \<and> rr_Name r \<noteq> [] \<and> rr_Kind r \<in> {''local'', ''remote'', ''virtual''} \<and>
      (if rr_Kind r = ''virtual'' then sr_Members r \<noteq> [] \<and> distinct (sr_Members r) \<and>
         list_all (\<lambda>m. list_ex (\<lambda>t. rr_Name t = m \<and> rr_Type t = rr_Type r \<and> rr_Kind t \<in> {''local'', ''remote''}) (rn_Repositories ns)) (sr_Members r)
       else sr_Members r = [])" if ns: "validateNamespaceRepos ps ns = None" and r: "r \<in> set (rn_Repositories ns)" for ns r
  proof -
    have rows: "list_all (\<lambda>r. validateRegistryName (rr_Name r) \<and> validate_row ps r = None) (rn_Repositories ns)"
      and virt: "validate_virtual ns r = None"
      using ns r validate_rows_names by (auto simp: validateNamespaceRepos_def list_all_iff)
    then have v: "validateRegistryName (rr_Name r)" "validate_row ps r = None" using r by (auto simp: list_all_iff)
    have kind: "rr_Kind r \<in> {''local'', ''remote'', ''virtual''}" by (rule row_kinds [OF v(2)])
    have members: "rr_Kind r = ''virtual'' \<longleftrightarrow> sr_Members r \<noteq> []"
      using v(2) kind by (auto simp: validate_row_def validate_kind_def validateRegistryKindFields_def)
    have "distinct (sr_Members r) \<and>
        list_all (\<lambda>m. list_ex (\<lambda>t. rr_Name t = m \<and> rr_Type t = rr_Type r \<and> rr_Kind t \<in> {''local'', ''remote''}) (rn_Repositories ns)) (sr_Members r)"
      if "rr_Kind r = ''virtual''"
    proof -
      have m: "distinct (sr_Members r)" "list_all (\<lambda>m. case FindRepository ns m of None \<Rightarrow> False | Some t \<Rightarrow> rr_Type t = rr_Type r \<and> rr_Kind t \<noteq> ''virtual'') (sr_Members r)"
        using virt that validate_members_iff [of ns r "[]" "sr_Members r"] by (auto simp: validate_virtual_def list_all_iff)
      have "\<exists>t\<in>set (rn_Repositories ns). rr_Name t = m \<and> rr_Type t = rr_Type r \<and> rr_Kind t \<in> {''local'', ''remote''}"
        if mem: "m \<in> set (sr_Members r)" for m
      proof -
        obtain t where t: "FindRepository ns m = Some t" "rr_Type t = rr_Type r" "rr_Kind t \<noteq> ''virtual''"
          using m(2) mem by (auto simp: list_all_iff split: option.splits)
        have "validate_row ps t = None" using rows find_repo [OF t(1)] by (simp add: list_all_iff)
        then show ?thesis using row_kinds t find_repo [OF t(1)] by blast
      qed
      then show ?thesis using m(1) by (simp add: list_all_iff list_ex_iff)
    qed
    then show ?thesis using v(1) kind members name_no_slash [OF v(1)] by (auto simp: validateRegistryName_def)
  qed
  have "distinct (map rr_Name (rn_Repositories ns))" if "validateNamespaceRepos ps ns = None" for ns
    using that validate_rows_names by (auto simp: validateNamespaceRepos_def)
  then show ?thesis using nss repo name_no_slash unfolding settings_ok_def list_all_iff by blast
qed

text \<open>
  C17: accepted settings are well formed.  When \<open>Validate\<close> accepts, namespace and repository names are unique and hold no slash, every
  repository is local, remote or virtual, only a virtual one has members, and each of these is a local or remote repository of its namespace and
  type; so serving a virtual repository never meets another virtual one and never loops.
\<close>

theorem validated_settings_ok:
  assumes "Validate ps nss = None"
  shows "settings_ok nss"
  using assms by (rule validated)

definition plain_repo :: "string \<Rightarrow> string \<Rightarrow> settings_repo" where
  "plain_repo name kind = \<lparr>rr_Name = name, rr_Type = ''generic'', rr_Kind = kind, rr_Auth = None, rr_SigningKey = [], rr_Replication = None,
     rr_Upstreams = [], rr_Rest = [], sr_Mount = (if kind = ''virtual'' then [] else ''m''), sr_BasePath = (if kind = ''virtual'' then [] else name),
     sr_AllowPush = (kind = ''local''), sr_URL = [], sr_MutableTTL = [], sr_FloatingTags = [], sr_InsecureSkipVerify = False,
     sr_Members = (if kind = ''virtual'' then [''files''] else []), sr_DefaultLocal = [], sr_MaxUploadSize = 0, sr_Policy = None,
     sr_SigningKeyName = [], sr_Prefetch = None\<rparr>"

definition demo_settings :: "registry_namespace list" where
  "demo_settings = [\<lparr>rn_Name = ''default'', rn_Repositories = [plain_repo ''all'' ''virtual'', plain_repo ''files'' ''local'']\<rparr>]"

definition no_parsers :: parsers where
  "no_parsers = \<lparr>ps_http_url = (\<lambda>_. False), ps_duration = (\<lambda>_. None)\<rparr>"

theorem validated_settings_ok_witness:
  "Validate no_parsers demo_settings = None \<and> settings_ok demo_settings \<and>
   Validate no_parsers [\<lparr>rn_Name = ''default'', rn_Repositories = [plain_repo ''files'' ''virtual'']\<rparr>] = Some ''self reference''"
proof -
  have v: "Validate no_parsers demo_settings = None" by code_simp
  moreover have "Validate no_parsers [\<lparr>rn_Name = ''default'', rn_Repositories = [plain_repo ''files'' ''virtual'']\<rparr>] = Some ''self reference''"
    by code_simp
  ultimately show ?thesis using validated_settings_ok [OF v] by blast
qed

end
