(* ===== verification/Registry_Manager.thy ===== *)
theory Registry_Manager
  imports Registry_Settings
begin

text \<open>
  The routing table: \<open>internal/registry/manager.go\<close> and the members of a virtual repository, \<open>internal/registry/virtualbase/virtualbase.go\<close>.
  A factory builds a registry from a namespace name and a row, or fails.  Closing the registries of the old table and the lock around the swap
  of the tables are not modelled.
\<close>

section \<open>The manager\<close>

type_synonym 'h factory = "string \<Rightarrow> settings_repo \<Rightarrow> 'h option"

record 'h snapshot =
  sn_regs :: "(string \<times> 'h) list"
  sn_rows :: "(string \<times> settings_repo) list"

record 'h manager =
  mg_factories :: "((string \<times> string) \<times> 'h factory) list"
  mg_current :: "'h snapshot"

definition empty_snapshot :: "'h snapshot" where
  "empty_snapshot = \<lparr>sn_regs = [], sn_rows = []\<rparr>"

definition NewManager :: "'h manager" where
  "NewManager = \<lparr>mg_factories = [], mg_current = empty_snapshot\<rparr>"

definition RegisterFactory :: "'h manager \<Rightarrow> string \<Rightarrow> string \<Rightarrow> 'h factory \<Rightarrow> 'h manager option" where
  "RegisterFactory m typ kind f =
     (if typ = [] \<or> kind = [] then None
      else if map_of (mg_factories m) (typ, kind) \<noteq> None then None
      else Some (m\<lparr>mg_factories := ((typ, kind), f) # mg_factories m\<rparr>))"

definition regKey :: "string \<Rightarrow> string \<Rightarrow> string" where
  "regKey ns repo = ns @ ''/'' @ repo"

text \<open>The next table, with the newest entry of a key first.\<close>

definition buildRow :: "'h manager \<Rightarrow> string \<Rightarrow> settings_repo \<Rightarrow> 'h snapshot \<Rightarrow> 'h snapshot" where
  "buildRow m ns r nxt = (case map_of (mg_factories m) (rr_Type r, rr_Kind r) of
     None \<Rightarrow> nxt
   | Some f \<Rightarrow> (case f ns r of
       None \<Rightarrow> nxt
     | Some reg \<Rightarrow> nxt\<lparr>sn_regs := (regKey ns (rr_Name r), reg) # sn_regs nxt, sn_rows := (regKey ns (rr_Name r), r) # sn_rows nxt\<rparr>))"

definition Reload :: "'h manager \<Rightarrow> registry_namespace list \<Rightarrow> 'h manager" where
  "Reload m nss = m\<lparr>mg_current :=
     fold (\<lambda>ns nxt. fold (buildRow m (rn_Name ns)) (rn_Repositories ns) nxt) nss empty_snapshot\<rparr>"

definition Lookup :: "'h manager \<Rightarrow> string \<Rightarrow> string \<Rightarrow> 'h option" where
  "Lookup m ns repo = map_of (sn_regs (mg_current m)) (regKey ns repo)"

definition Repository :: "'h manager \<Rightarrow> string \<Rightarrow> string \<Rightarrow> settings_repo option" where
  "Repository m ns repo = map_of (sn_rows (mg_current m)) (regKey ns repo)"

section \<open>Request paths\<close>

definition SplitRequestPath :: "string \<Rightarrow> (string \<times> string \<times> string) option" where
  "SplitRequestPath p = (let q = trim_prefix p ''/''
     in case index_byte q CHR ''/'' of
          None \<Rightarrow> None
        | Some first \<Rightarrow>
            if first = 0 then None
            else (let namespace = take first q; q = drop (Suc first) q
              in case index_byte q CHR ''/'' of
                   None \<Rightarrow> if q = [] then None else Some (namespace, q, [])
                 | Some second \<Rightarrow> if second = 0 then None else Some (namespace, take second q, drop second q)))"

section \<open>Virtual repositories\<close>

text \<open>The members that resolve, in order.\<close>

definition resolved_members :: "'h manager \<Rightarrow> string \<Rightarrow> string list \<Rightarrow> 'h list" where
  "resolved_members m ns members = List.map_filter (Lookup m ns) members"

text \<open>\<open>ServeFirstHit\<close>: \<open>serve\<close> answers with a status and a body, after the gate of the member let the request pass.\<close>

fun ServeFirstHit :: "('h \<Rightarrow> 's \<Rightarrow> 's \<times> bool) \<Rightarrow> ('h \<Rightarrow> 's \<Rightarrow> 's \<times> nat \<times> 'b) \<Rightarrow> 'h list \<Rightarrow> 's \<Rightarrow> 's \<times> (nat \<times> 'b) option" where
  "ServeFirstHit gate serve [] s = (s, None)"
| "ServeFirstHit gate serve (reg # regs) s = (case gate reg s of
     (s1, False) \<Rightarrow> ServeFirstHit gate serve regs s1
   | (s1, True) \<Rightarrow> (case serve reg s1 of (s2, code, body) \<Rightarrow>
       if 200 \<le> code \<and> code < 300 then (s2, Some (code, body)) else ServeFirstHit gate serve regs s2))"

fun CollectListLines :: "('h \<Rightarrow> 's \<Rightarrow> 's \<times> bool) \<Rightarrow> ('h \<Rightarrow> 's \<Rightarrow> 's \<times> nat \<times> string) \<Rightarrow> 'h list \<Rightarrow> 's \<Rightarrow> string list \<Rightarrow> 's \<times> string list" where
  "CollectListLines gate serve [] s out = (s, out)"
| "CollectListLines gate serve (reg # regs) s out = (case gate reg s of
     (s1, False) \<Rightarrow> CollectListLines gate serve regs s1 out
   | (s1, True) \<Rightarrow> (case serve reg s1 of (s2, code, body) \<Rightarrow>
       CollectListLines gate serve regs s2
         (if code = 200 then fold (\<lambda>l out. let line = trim_space l in if line = [] \<or> line \<in> set out then out else out @ [line])
            (split_on CHR 0x0A body) out else out)))"


section \<open>Facts\<close>

lemma regKey_inj: "CHR ''/'' \<notin> set a \<Longrightarrow> CHR ''/'' \<notin> set b \<Longrightarrow> regKey a x = regKey b y \<longleftrightarrow> a = b \<and> x = y"
proof -
  assume s: "CHR ''/'' \<notin> set a" "CHR ''/'' \<notin> set b"
  have "cut (regKey c z) CHR ''/'' = (c, z, True)" if "CHR ''/'' \<notin> set c" for c z
    using index_byte_append [OF that, of z] by (simp add: regKey_def cut_def)
  then show ?thesis using s by (metis prod.inject)
qed

definition built :: "'h manager \<Rightarrow> string \<Rightarrow> settings_repo \<Rightarrow> 'h option" where
  "built m ns r = (case map_of (mg_factories m) (rr_Type r, rr_Kind r) of None \<Rightarrow> None | Some f \<Rightarrow> f ns r)"

lemma buildRow_regs:
  "map_of (sn_regs (buildRow m ns r nxt)) k =
     (if k = regKey ns (rr_Name r) \<and> built m ns r \<noteq> None then built m ns r else map_of (sn_regs nxt) k)"
  by (auto simp: buildRow_def built_def split: option.split)

lemma fold_rows_other:
  "(\<And>r. r \<in> set rs \<Longrightarrow> regKey ns (rr_Name r) \<noteq> k) \<Longrightarrow> map_of (sn_regs (fold (buildRow m ns) rs nxt)) k = map_of (sn_regs nxt) k"
  by (induction rs arbitrary: nxt) (auto simp: buildRow_regs)

lemma fold_rows_one:
  "distinct (map rr_Name rs) \<Longrightarrow> r \<in> set rs \<Longrightarrow> map_of (sn_regs nxt) (regKey ns (rr_Name r)) = None \<Longrightarrow>
   map_of (sn_regs (fold (buildRow m ns) rs nxt)) (regKey ns (rr_Name r)) = built m ns r"
proof (induction rs arbitrary: nxt)
  case (Cons q rs)
  show ?case
  proof (cases "q = r")
    case True
    then have "regKey ns (rr_Name x) \<noteq> regKey ns (rr_Name r)" if "x \<in> set rs" for x
      using Cons.prems(1) image_eqI [OF refl that, of rr_Name] True unfolding regKey_def by (metis append_same_eq distinct.simps(2) list.simps(9) list.set_map same_append_eq)
    then show ?thesis using Cons.prems(3) True by (simp add: fold_rows_other buildRow_regs)
  next
    case False
    then have "rr_Name q \<noteq> rr_Name r" using Cons.prems(1,2) by auto
    then have "map_of (sn_regs (buildRow m ns q nxt)) (regKey ns (rr_Name r)) = None"
      using Cons.prems(3) by (simp add: buildRow_regs regKey_def)
    then show ?thesis using Cons.IH [of "buildRow m ns q nxt"] Cons.prems False by simp
  qed
qed simp

lemma fold_namespaces_other:
  "(\<And>ns r. ns \<in> set nss \<Longrightarrow> r \<in> set (rn_Repositories ns) \<Longrightarrow> regKey (rn_Name ns) (rr_Name r) \<noteq> k) \<Longrightarrow>
   map_of (sn_regs (fold (\<lambda>ns nxt. fold (buildRow m (rn_Name ns)) (rn_Repositories ns) nxt) nss nxt)) k = map_of (sn_regs nxt) k"
  by (induction nss arbitrary: nxt) (auto simp: fold_rows_other)

lemma fold_namespaces_one:
  assumes "settings_ok nss" "ns \<in> set nss" "r \<in> set (rn_Repositories ns)" "map_of (sn_regs nxt) (regKey (rn_Name ns) (rr_Name r)) = None"
  shows "map_of (sn_regs (fold (\<lambda>ns nxt. fold (buildRow m (rn_Name ns)) (rn_Repositories ns) nxt) nss nxt)) (regKey (rn_Name ns) (rr_Name r)) =
    built m (rn_Name ns) r"
  using assms
proof (induction nss arbitrary: nxt)
  case (Cons n nss)
  let ?step = "fold (buildRow m (rn_Name n)) (rn_Repositories n) nxt"
  have slash: "CHR ''/'' \<notin> set (rn_Name x)" if "x \<in> set (n # nss)" for x
    using Cons.prems(1) that by (auto simp: settings_ok_def list_all_iff)
  have apart: "regKey (rn_Name x) q \<noteq> regKey (rn_Name y) q'" if "rn_Name x \<noteq> rn_Name y" "x \<in> set (n # nss)" "y \<in> set (n # nss)" for x y q q'
    using regKey_inj [OF slash [OF that(2)] slash [OF that(3)]] that(1) by simp
  have d: "rn_Name x \<noteq> rn_Name n" if "x \<in> set nss" for x
    using Cons.prems(1) imageI [OF that, of rn_Name] unfolding settings_ok_def by (metis distinct.simps(2) list.simps(9) set_map)
  show ?case
  proof (cases "ns = n")
    case True
    have "distinct (map rr_Name (rn_Repositories n))" using Cons.prems(1) by (simp add: settings_ok_def)
    then have "map_of (sn_regs ?step) (regKey (rn_Name n) (rr_Name r)) = built m (rn_Name n) r"
      using Cons.prems(3,4) True by (intro fold_rows_one) simp_all
    moreover have "regKey (rn_Name x) (rr_Name q) \<noteq> regKey (rn_Name n) (rr_Name r)" if "x \<in> set nss" for x and q :: settings_repo
      using apart [OF d [OF that]] that by simp
    ultimately show ?thesis using True fold_namespaces_other [of nss "regKey (rn_Name n) (rr_Name r)" m ?step] by simp
  next
    case False
    then have "ns \<in> set nss" using Cons.prems(2) by simp
    moreover have "settings_ok nss" using Cons.prems(1) by (simp add: settings_ok_def)
    moreover have "map_of (sn_regs ?step) (regKey (rn_Name ns) (rr_Name r)) = None"
      using apart [of n ns] d [OF \<open>ns \<in> set nss\<close>] Cons.prems(2,4) by (simp add: fold_rows_other)
    ultimately show ?thesis using Cons.IH [of ?step] Cons.prems(3) by simp
  qed
qed simp

text \<open>
  C18: what the table routes.  After accepted settings are loaded, a configured repository is routed to the registry its factory built from its
  row, and to none when there is no factory or it failed: a row that fails disables no other one.
\<close>

theorem reload_routes:
  assumes "Validate ps nss = None" "ns \<in> set nss" "r \<in> set (rn_Repositories ns)"
  shows "Lookup (Reload m nss) (rn_Name ns) (rr_Name r) =
    (case map_of (mg_factories m) (rr_Type r, rr_Kind r) of None \<Rightarrow> None | Some f \<Rightarrow> f (rn_Name ns) r)"
  using fold_namespaces_one [OF validated [OF assms(1)] assms(2,3), of empty_snapshot m]
  by (simp add: Lookup_def Reload_def built_def empty_snapshot_def)


text \<open>A factory that takes the rows it is given but those without a mount, and a table with one row that fails.\<close>

definition demo_manager :: "string manager" where
  "demo_manager = \<lparr>mg_factories = [((''generic'', ''local''), \<lambda>ns r. if sr_Mount r = [] then None else Some (regKey ns (rr_Name r)))],
     mg_current = empty_snapshot\<rparr>"

theorem reload_routes_witness:
  "Lookup (Reload demo_manager demo_settings) ''default'' ''files'' = Some ''default/files'' \<and>
   Lookup (Reload demo_manager demo_settings) ''default'' ''all'' = None"
proof -
  have v: "Validate no_parsers demo_settings = None" by code_simp
  have m: "hd demo_settings \<in> set demo_settings" "plain_repo ''files'' ''local'' \<in> set (rn_Repositories (hd demo_settings))"
    "plain_repo ''all'' ''virtual'' \<in> set (rn_Repositories (hd demo_settings))" by (simp_all add: demo_settings_def)
  show ?thesis
    using reload_routes [OF v m(1,2), of demo_manager] reload_routes [OF v m(1,3), of demo_manager]
    by (simp add: demo_manager_def demo_settings_def plain_repo_def regKey_def)
qed

text \<open>
  The path of a request.  The split of \<open>/namespace/repo\<close> and anything after it that starts with a slash gives back the three parts, when
  the names are not empty and hold no slash; what it returns has this form and joins to the path it was given.
\<close>

theorem SplitRequestPath_exact:
  "SplitRequestPath p = Some (ns, repo, rest) \<longleftrightarrow>
     ns \<noteq> [] \<and> repo \<noteq> [] \<and> CHR ''/'' \<notin> set ns \<and> CHR ''/'' \<notin> set repo \<and> (case rest of [] \<Rightarrow> True | c # _ \<Rightarrow> c = CHR ''/'') \<and>
     trim_prefix p ''/'' = ns @ ''/'' @ repo @ rest"
  (is "?L \<longleftrightarrow> ?R")
proof
  define q where "q = trim_prefix p ''/''"
  assume l: ?L
  then obtain i where i: "index_byte q CHR ''/'' = Some i" "i \<noteq> 0" by (auto simp: SplitRequestPath_def Let_def q_def split: option.splits if_splits)
  define q2 where "q2 = drop (Suc i) q"
  note fi = index_byte_Some [OF i(1)]
  have q: "q = take i q @ ''/'' @ q2" using fi id_take_nth_drop [of i q] by (simp add: q2_def)
  show ?R
  proof (cases "index_byte q2 CHR ''/''")
    case None
    then have "ns = take i q" "repo = q2" "rest = []" "q2 \<noteq> []"
      using l i by (auto simp: SplitRequestPath_def Let_def q_def [symmetric] q2_def split: if_splits)
    then show ?thesis using None q fi i(2) by (auto simp: index_byte_None_iff q_def [symmetric])
  next
    case (Some k)
    then have r: "ns = take i q" "repo = take k q2" "rest = drop k q2" "k \<noteq> 0"
      using l i by (auto simp: SplitRequestPath_def Let_def q_def [symmetric] q2_def split: if_splits)
    note fk = index_byte_Some [OF Some]
    have rest: "rest = CHR ''/'' # drop (Suc k) q2" using fk r(3) Cons_nth_drop_Suc [of k q2] by simp
    have "take i q @ ''/'' @ q2 = ns @ ''/'' @ repo @ rest" using r by simp
    with q have "q = ns @ ''/'' @ repo @ rest" by (rule trans)
    moreover have "ns \<noteq> []" "repo \<noteq> []" "CHR ''/'' \<notin> set ns" "CHR ''/'' \<notin> set repo" using fi fk r i(2) by auto
    ultimately show ?thesis using rest unfolding q_def by simp
  qed
next
  assume r: ?R
  then have q: "trim_prefix p ''/'' = ns @ CHR ''/'' # repo @ rest" by simp
  show ?L
  proof (cases rest)
    case Nil
    then show ?thesis using r by (simp add: SplitRequestPath_def q index_byte_append index_byte_None_iff [THEN iffD2])
  next
    case (Cons c t)
    then show ?thesis using r index_byte_append [of "CHR ''/''" repo t] by (simp add: SplitRequestPath_def q index_byte_append)
  qed
qed

text \<open>
  First hit.  A virtual repository answers with the first of its members that passes its gate and replies with a success, and with nothing when there is
  none; members do not change state here.
\<close>

theorem first_hit:
  "snd (ServeFirstHit (\<lambda>h s. (s, gate h)) (\<lambda>h s. (s, serve h)) members s) =
   map_option serve (find (\<lambda>h. gate h \<and> 200 \<le> fst (serve h) \<and> fst (serve h) < 300) members)"
  by (induction members) (auto split: prod.split bool.split)

end
