(* ===== verification/Registry_Entry.thy ===== *)
theory Registry_Entry
  imports Registry_Manager Generic_Registry Data_Auth
begin

text \<open>
  The data plane: a registry request from the URL to the registry that serves it.  \<open>serveRegistry\<close> and \<open>serveNPMCDN\<close> of
  \<open>internal/server/api/registry.go\<close>, the dedicated listeners of \<open>registry-listen.go\<close>, the cross-origin answer of
  \<open>internal/registry/common/cors.go\<close> and the gate hook of \<open>internal/registry/gate.go\<close>.  A registry is its type, what the policy gate sees of
  it and how it serves a request on the stores; the request is unchanged but for its path (the prefix header and metrics are left out).
\<close>

section \<open>Registries and answers\<close>

record 'w handle =
  hd_Type :: string
  hd_gate :: gate_view
  hd_serve :: "request \<Rightarrow> string \<Rightarrow> 'w \<Rightarrow> 'w \<times> nat \<times> string"
  hd_cdn :: "(request \<Rightarrow> 'w \<Rightarrow> 'w \<times> nat \<times> string) option"

datatype answer = AnsNotFound | AnsBadRequest | AnsPreflight | AnsToken "data_error + string" | AnsAuth data_error | AnsPolicy deny_reason
  | AnsServed nat string

record 'w entry_env =
  en_manager :: "'w handle manager option"
  en_enabled :: bool
  en_origins :: "string \<Rightarrow> string \<Rightarrow> string list"
  en_data :: data_env
  en_match :: matcher
  en_policy :: "policy_env option"
  en_asset :: "string \<Rightarrow> bool"

record 'w entry_state =
  es_auth :: data_state
  es_osv :: osv_client
  es_world :: 'w

section \<open>The steps\<close>

text \<open>The origin to allow, and whether a preflight is answered here.\<close>

definition ApplyCORS :: "request \<Rightarrow> string list \<Rightarrow> string option \<times> bool" where
  "ApplyCORS req allowlist = (let origin = rq_Header req ''Origin''
     in if allowlist = [] \<or> origin = [] then (None, False)
        else if \<not> list_ex (\<lambda>a. a = ''*'' \<or> a = origin) allowlist then (None, False)
        else (Some origin, rq_Method req = ''OPTIONS''))"

definition isDockerRequest :: "string \<Rightarrow> string \<Rightarrow> bool" where
  "isDockerRequest typ rest \<longleftrightarrow> typ = ''docker'' \<and> (rest = ''/v2'' \<or> has_prefix rest ''/v2/'')"

definition CheckGate :: "'w entry_env \<Rightarrow> osv_client \<Rightarrow> 'w handle \<Rightarrow> string \<Rightarrow> string \<Rightarrow> osv_client \<times> deny_reason option" where
  "CheckGate env c h meth path = (case en_policy env of None \<Rightarrow> (c, None) | Some pe \<Rightarrow> Gate c pe (hd_gate h) meth path)"

text \<open>What \<open>serveRegistry\<close> and the listeners do once the registry is found.\<close>

definition handle_request ::
  "'w entry_env \<Rightarrow> 'w entry_state \<Rightarrow> 'w handle \<Rightarrow> string \<Rightarrow> string \<Rightarrow> string \<Rightarrow> request \<Rightarrow> string \<Rightarrow> 'w entry_state \<times> answer" where
  "handle_request env st h ns repo rest req body =
     (if snd (ApplyCORS req (en_origins env ns repo)) then (st, AnsPreflight)
      else if isDockerRequest (hd_Type h) rest \<and> (rest = ''/v2/token'' \<or> rest = ''/v2/token/'') then
        (case serveDockerToken (en_data env) (es_auth st) req of (a, r) \<Rightarrow> (st\<lparr>es_auth := a\<rparr>, AnsToken r))
      else (case authorizeRegistry (en_match env) (en_data env) (es_auth st) req ns repo rest (operationFor (rq_Method req)) of
        (a, Inl e) \<Rightarrow> (st\<lparr>es_auth := a\<rparr>, AnsAuth e)
      | (a, Inr p) \<Rightarrow> (case CheckGate env (es_osv st) h (rq_Method req) rest of
          (c, Some d) \<Rightarrow> (st\<lparr>es_auth := a, es_osv := c\<rparr>, AnsPolicy d)
        | (c, None) \<Rightarrow> (case hd_serve h (req\<lparr>rq_Path := rest\<rparr>) body (es_world st) of
            (w, code, out) \<Rightarrow> (\<lparr>es_auth = a, es_osv = c, es_world = w\<rparr>, AnsServed code out)))))"

definition serveRegistry :: "'w entry_env \<Rightarrow> 'w entry_state \<Rightarrow> string \<Rightarrow> request \<Rightarrow> string \<Rightarrow> 'w entry_state \<times> answer" where
  "serveRegistry env st wildcard req body = (case en_manager env of None \<Rightarrow> (st, AnsNotFound)
   | Some m \<Rightarrow>
       if \<not> en_enabled env then (st, AnsNotFound)
       else (case SplitRequestPath (''/'' @ trim_prefix wildcard ''/'') of
         None \<Rightarrow> (st, AnsBadRequest)
       | Some (ns, repo, rest) \<Rightarrow> (case Lookup m ns repo of
           None \<Rightarrow> (st, AnsNotFound)
         | Some h \<Rightarrow> handle_request env st h ns repo rest req body)))"

text \<open>A dedicated listener serves one repository from its root: the path of the request is the path in the registry.\<close>

definition registryListenerHandler ::
  "'w entry_env \<Rightarrow> string \<Rightarrow> string \<Rightarrow> 'w entry_state \<Rightarrow> request \<Rightarrow> string \<Rightarrow> 'w entry_state \<times> answer" where
  "registryListenerHandler env ns repo st req body = (case en_manager env of None \<Rightarrow> (st, AnsNotFound)
   | Some m \<Rightarrow>
       if \<not> en_enabled env then (st, AnsNotFound)
       else (case Lookup m ns repo of
         None \<Rightarrow> (st, AnsNotFound)
       | Some h \<Rightarrow> handle_request env st h ns repo (rq_Path req) req body))"

text \<open>The CDN entry of npm; \<open>en_asset\<close> is whether \<open>npm.ParseCDNAssetPath\<close> accepts the rest of the path.\<close>

definition serveNPMCDN :: "'w entry_env \<Rightarrow> 'w entry_state \<Rightarrow> string \<Rightarrow> request \<Rightarrow> 'w entry_state \<times> answer" where
  "serveNPMCDN env st wildcard req = (case en_manager env of None \<Rightarrow> (st, AnsNotFound)
   | Some m \<Rightarrow>
       if \<not> en_enabled env then (st, AnsNotFound)
       else (case SplitRequestPath (''/'' @ trim_prefix wildcard ''/'') of
         None \<Rightarrow> (st, AnsBadRequest)
       | Some (ns, repo, rest) \<Rightarrow>
           if rest = [] then (st, AnsBadRequest)
           else (case Lookup m ns repo of
             None \<Rightarrow> (st, AnsNotFound)
           | Some h \<Rightarrow>
               if hd_Type h \<noteq> ''npm'' then (st, AnsBadRequest)
               else (case hd_cdn h of
                 None \<Rightarrow> (st, AnsBadRequest)
               | Some serve \<Rightarrow>
                   if snd (ApplyCORS req (en_origins env ns repo)) then (st, AnsPreflight)
                   else (case authorizeRegistry (en_match env) (en_data env) (es_auth st) req ns repo rest ''read'' of
                     (a, Inl e) \<Rightarrow> (st\<lparr>es_auth := a\<rparr>, AnsAuth e)
                   | (a, Inr p) \<Rightarrow>
                       if \<not> en_asset env rest then (st\<lparr>es_auth := a\<rparr>, AnsBadRequest)
                       else (case serve (req\<lparr>rq_Path := rest\<rparr>) (es_world st) of
                         (w, code, out) \<Rightarrow> (st\<lparr>es_auth := a, es_world := w\<rparr>, AnsServed code out)))))))"

section \<open>Two kinds of registries\<close>

text \<open>A generic local repository, on stores indexed by the repository; the JSON of a listing is \<open>json\<close>.\<close>

definition response_code :: "(gen_response \<Rightarrow> string) \<Rightarrow> gen_response \<Rightarrow> nat \<times> string" where
  "response_code json r = (case r of GContent b \<Rightarrow> (200, b) | GCreated \<Rightarrow> (201, json r) | GNoContent \<Rightarrow> (204, []) | GError c \<Rightarrow> (c, json r) | _ \<Rightarrow> (200, json r))"

definition generic_handle ::
  "(gen_response \<Rightarrow> string) \<Rightarrow> registry_policy option \<Rightarrow> string \<Rightarrow> unix_time \<Rightarrow> (string \<Rightarrow> generic_local) handle" where
  "generic_handle json pol key now = \<lparr>hd_Type = ''generic'',
     hd_gate = \<lparr>gv_Type = ''generic'', gv_policy = pol,
       gv_classify = Some (\<lambda>path. map_option (\<lambda>(pkg, ver). ArtifactRef pkg ver) (classify path)), gv_info = None, gv_sig = None\<rparr>,
     hd_serve = (\<lambda>req body w. case local_serve (w key) (rq_Method req) (rq_Path req) body now of (l, r) \<Rightarrow> (w(key := l), response_code json r)),
     hd_cdn = None\<rparr>"

text \<open>\<open>pkgbase.Virtual\<close>: read-only, the first hit of the members; it classifies no request.  Its gate only sees its policy.\<close>

definition virtual_handle :: "'w entry_env \<Rightarrow> osv_client \<Rightarrow> string \<Rightarrow> registry_policy option \<Rightarrow> 'w handle list \<Rightarrow> 'w handle" where
  "virtual_handle env c typ pol members = \<lparr>hd_Type = typ,
     hd_gate = \<lparr>gv_Type = typ, gv_policy = pol, gv_classify = None, gv_info = None, gv_sig = None\<rparr>,
     hd_serve = (\<lambda>req body w.
       if rq_Method req \<noteq> ''GET'' \<and> rq_Method req \<noteq> ''HEAD'' then (w, 405, [])
       else (case ServeFirstHit (\<lambda>h w. (w, snd (CheckGate env c h (rq_Method req) (rq_Path req)) = None)) (\<lambda>h. hd_serve h req body) members w of
         (w', Some (code, out)) \<Rightarrow> (w', code, out) | (w', None) \<Rightarrow> (w', 404, []))),
     hd_cdn = None\<rparr>"


section \<open>Properties\<close>

lemma authorized_caller:
  assumes "snd (authorizeRegistry dm env st req ns repo rest op) = Ok who"
  shows "(\<exists>p. who = Some p \<and> principal_allows dm (Some p) (capForOp op) (ns @ ''/'' @ repo @ rest) \<and> live_principal env req p) \<or>
    (who = None \<and> op = ''read'' \<and> de_anonymous env \<and> ExtractToken req = [] \<and> BasicAuth req = None \<and> rq_session req = None)"
proof (cases "dataPrincipal env st req")
  case (Pair st' r)
  then show ?thesis
    using assms dataPrincipal_none [of env st req] dataPrincipal_live [of env st req]
    by (cases r) (auto simp: authorizeRegistry_def split: option.splits if_splits)
qed

text \<open>Who may make a request.\<close>

definition permitted :: "'w entry_env \<Rightarrow> request \<Rightarrow> string \<Rightarrow> string \<Rightarrow> string \<Rightarrow> bool" where
  "permitted env req ns repo rest \<longleftrightarrow> (let op = operationFor (rq_Method req)
     in (\<exists>p. principal_allows (en_match env) (Some p) (capForOp op) (ns @ ''/'' @ repo @ rest) \<and> live_principal (en_data env) req p) \<or>
        (op = ''read'' \<and> de_anonymous (en_data env) \<and> ExtractToken req = [] \<and> BasicAuth req = None \<and> rq_session req = None))"

lemma handle_request_cases:
  "case handle_request env st h ns repo rest req body of (st', ans) \<Rightarrow> (case ans of
     AnsServed code out \<Rightarrow> permitted env req ns repo rest \<and> snd (CheckGate env (es_osv st) h (rq_Method req) rest) = None \<and>
       hd_serve h (req\<lparr>rq_Path := rest\<rparr>) body (es_world st) = (es_world st', code, out)
   | _ \<Rightarrow> es_world st' = es_world st)"
proof (cases "authorizeRegistry (en_match env) (en_data env) (es_auth st) req ns repo rest (operationFor (rq_Method req))")
  case (Pair a r)
  show ?thesis
  proof (cases r)
    case (Inr who)
    then have "permitted env req ns repo rest"
      using authorized_caller [of "en_match env" "en_data env" "es_auth st" req ns repo rest "operationFor (rq_Method req)" who] Pair
      unfolding permitted_def Let_def by fastforce
    then show ?thesis using Pair Inr by (simp add: handle_request_def split: prod.split option.split)
  qed (use Pair in \<open>simp add: handle_request_def split: prod.split\<close>)
qed

text \<open>
  C4: nothing is served unless permitted.  When the entry handler answers with what a registry replied, the path split into a configured
  repository and the rest, the caller was permitted the operation on that path, and the policy gate of the repository let the request pass;
  with every other answer the stores are as they were.
\<close>

theorem entry_guards:
  "case serveRegistry env st wildcard req body of (st', ans) \<Rightarrow> (case ans of
     AnsServed code out \<Rightarrow> (\<exists>m ns repo rest h. en_manager env = Some m \<and> en_enabled env \<and>
       SplitRequestPath (''/'' @ trim_prefix wildcard ''/'') = Some (ns, repo, rest) \<and> Lookup m ns repo = Some h \<and>
       permitted env req ns repo rest \<and> snd (CheckGate env (es_osv st) h (rq_Method req) rest) = None \<and>
       hd_serve h (req\<lparr>rq_Path := rest\<rparr>) body (es_world st) = (es_world st', code, out))
   | _ \<Rightarrow> es_world st' = es_world st)"
proof -
  show ?thesis
  proof (cases "\<exists>m ns repo rest h. en_manager env = Some m \<and> en_enabled env \<and>
      SplitRequestPath (''/'' @ trim_prefix wildcard ''/'') = Some (ns, repo, rest) \<and> Lookup m ns repo = Some h")
    case True
    then obtain m ns repo rest h where e: "en_manager env = Some m" "en_enabled env"
      "SplitRequestPath (''/'' @ trim_prefix wildcard ''/'') = Some (ns, repo, rest)" "Lookup m ns repo = Some h" by blast
    have s: "serveRegistry env st wildcard req body = handle_request env st h ns repo rest req body"
      using e by (simp add: serveRegistry_def)
    show ?thesis
      using handle_request_cases [where env = env and st = st and h = h and ns = ns and repo = repo and rest = rest and req = req and body = body] e unfolding s by (auto split: prod.splits answer.splits)
  next
    case False
    then have "es_world (fst (serveRegistry env st wildcard req body)) = es_world st \<and>
        snd (serveRegistry env st wildcard req body) \<in> {AnsNotFound, AnsBadRequest}"
      by (auto simp: serveRegistry_def split: option.split)
    then show ?thesis by (auto split: prod.split)
  qed
qed

lemma gate_name:
  assumes "snd (Gate c pe g meth path) = None" "gv_policy g = Some p" "gv_classify g = Some cl" "cl path = Some ref" "meth = ''GET'' \<or> meth = ''HEAD''"
  shows "NameAllowed (rp_Include p) (rp_Exclude p) (ar_Name ref)"
proof (cases "readActive p")
  case True
  then show ?thesis using assms by (auto simp: Gate_def Let_def evaluate_def checkName_def split: if_splits)
next
  case False
  then have "rp_Include p = []" "rp_Exclude p = []" by (simp_all add: readActive_def)
  then show ?thesis by (simp add: NameAllowed_def)
qed

text \<open>
  C7: an excluded package is not downloaded.  On a generic repository with a policy, behind the entry handler with the gate installed, a file is
  only sent when the path classifies as a package whose name the policy allows, and what is sent is the stored file.
\<close>

theorem excluded_not_downloaded:
  assumes "en_manager env = Some m" "en_policy env = Some pe" "Lookup m ns repo = Some (generic_handle json (Some pol) key now)"
    "SplitRequestPath (''/'' @ trim_prefix wildcard ''/'') = Some (ns, repo, rest)" "rq_Method req = ''GET''"
    "serveRead (gl_store (es_world st key)) rest = GContent b" "snd (serveRegistry env st wildcard req body) = AnsServed code out"
  shows "out = b \<and> (\<exists>pkg ver. classify rest = Some (pkg, ver) \<and> NameAllowed (rp_Include pol) (rp_Exclude pol) pkg)"
proof -
  let ?h = "generic_handle json (Some pol) key now"
  obtain st' where s: "serveRegistry env st wildcard req body = (st', AnsServed code out)" using assms(7) by (metis prod.collapse)
  then have "en_enabled env" using assms(1) by (auto simp: serveRegistry_def split: if_splits)
  then have "serveRegistry env st wildcard req body = handle_request env st ?h ns repo rest req body"
    using assms by (simp add: serveRegistry_def)
  then have hr: "handle_request env st ?h ns repo rest req body = (st', AnsServed code out)" using s by simp
  have h: "snd (CheckGate env (es_osv st) ?h (rq_Method req) rest) = None"
    "hd_serve ?h (req\<lparr>rq_Path := rest\<rparr>) body (es_world st) = (es_world st', code, out)"
    using handle_request_cases [where env = env and st = st and h = ?h and ns = ns and repo = repo and rest = rest and req = req and body = body]
    unfolding hr by simp_all
  have "out = b" using h(2) assms(5,6) by (auto simp: generic_handle_def local_serve_def response_code_def)
  moreover obtain pkg ver where c: "classify rest = Some (pkg, ver)"
    using assms(6) serve_content_classified by blast
  moreover have "NameAllowed (rp_Include pol) (rp_Exclude pol) (ar_Name (ArtifactRef pkg ver))"
    by (rule gate_name [where c = "es_osv st" and pe = pe and meth = "rq_Method req" and path = rest and g = "hd_gate ?h"
          and cl = "\<lambda>path. map_option (\<lambda>(pkg, ver). ArtifactRef pkg ver) (classify path)"])
      (use h(1) assms(2,5) c in \<open>auto simp: CheckGate_def generic_handle_def\<close>)
  ultimately show ?thesis by simp
qed

definition demo_deny :: registry_policy where
  "demo_deny = \<lparr>rp_Include = [], rp_Exclude = [''c''], rp_QuarantineDays = 0, rp_BlockVulnerable = False, rp_MinSeverity = [],
     rp_AllowedLicenses = [], rp_DeniedLicenses = [], rp_BlockUnknownLicense = False, rp_RequireSignature = False\<rparr>"

definition demo_entry :: "(string \<Rightarrow> generic_local) entry_env" where
  "demo_entry = \<lparr>en_manager = Some \<lparr>mg_factories = [], mg_current = \<lparr>sn_regs = [(''default/files'',
       generic_handle (\<lambda>_. []) (Some demo_deny) ''default/files'' 0)], sn_rows = []\<rparr>\<rparr>,
     en_enabled = True, en_origins = (\<lambda>_ _. []), en_data = demo_env 0 (demo_user []), en_match = (=), en_policy = Some (demo_osv None),
     en_asset = (\<lambda>_. True)\<rparr>"

definition demo_entry_state :: "(string \<Rightarrow> generic_local) entry_state" where
  "demo_entry_state = \<lparr>es_auth = \<lparr>ds_users = demo_db [], ds_cache = []\<rparr>, es_osv = empty_osv, es_world = (\<lambda>_. demo_local False)\<rparr>"

definition plain_get :: request where
  "plain_get = \<lparr>rq_Method = ''GET'', rq_Path = [], rq_Header = (\<lambda>_. []), rq_session = None\<rparr>"

theorem excluded_not_downloaded_witness:
  "snd (serveRegistry demo_entry demo_entry_state ''default/files/b/1.0/x'' plain_get []) = AnsServed 200 ''old'' \<and>
   (\<exists>pkg ver. classify ''/b/1.0/x'' = Some (pkg, ver) \<and> NameAllowed [] [''c''] pkg)"
proof -
  have m: "en_manager demo_entry = Some (the (en_manager demo_entry))" "en_policy demo_entry = Some (demo_osv None)"
    "Lookup (the (en_manager demo_entry)) ''default'' ''files'' = Some (generic_handle (\<lambda>_. []) (Some demo_deny) ''default/files'' 0)"
    by (simp_all add: demo_entry_def Lookup_def regKey_def)
  have p: "SplitRequestPath (''/'' @ trim_prefix ''default/files/b/1.0/x'' ''/'') = Some (''default'', ''files'', ''/b/1.0/x'')" by code_simp
  have q: "rq_Method plain_get = ''GET''" by (simp add: plain_get_def)
  have r: "serveRead (gl_store (es_world demo_entry_state ''default/files'')) ''/b/1.0/x'' = GContent ''old''" by code_simp
  have s: "snd (serveRegistry demo_entry demo_entry_state ''default/files/b/1.0/x'' plain_get []) = AnsServed 200 ''old''" by code_simp
  show ?thesis using excluded_not_downloaded [OF m p q r s] s by (simp add: demo_deny_def)
qed

text \<open>The same registries with other policies.\<close>

definition regate :: "(string \<Rightarrow> gate_view) \<Rightarrow> 'w handle manager \<Rightarrow> 'w handle manager" where
  "regate g m = m\<lparr>mg_current := (mg_current m)\<lparr>sn_regs := map (\<lambda>(k, h). (k, h\<lparr>hd_gate := g k\<rparr>)) (sn_regs (mg_current m))\<rparr>\<rparr>"

lemma Lookup_regate: "Lookup (regate g m) ns repo = map_option (\<lambda>h. h\<lparr>hd_gate := g (regKey ns repo)\<rparr>) (Lookup m ns repo)"
proof -
  have "map_of (map (\<lambda>(k, h). (k, h\<lparr>hd_gate := g k\<rparr>)) xs) key = map_option (\<lambda>h. h\<lparr>hd_gate := g key\<rparr>) (map_of xs key)" for xs key
    by (induction xs) auto
  then show ?thesis by (simp add: Lookup_def regate_def)
qed

text \<open>
  The CDN entry asks no policy.  Whatever policies the repositories have and whether the gate is installed, the CDN entry of npm answers the
  same: a package the policy excludes or blocks is still served there.
\<close>

theorem cdn_ignores_policy:
  "serveNPMCDN (env\<lparr>en_manager := map_option (regate g) (en_manager env), en_policy := pol\<rparr>) st wildcard req = serveNPMCDN env st wildcard req"
  by (cases "en_manager env") (simp_all add: serveNPMCDN_def Lookup_regate split: option.split prod.split)

text \<open>
  The policy of a default virtual repository is not asked.  It classifies no request, so the answer is the same with any policy as with none; only the
  policies of its members decide.
\<close>

theorem virtual_policy_ignored:
  "handle_request env st (virtual_handle venv c typ pol members) ns repo rest req body =
   handle_request env st (virtual_handle venv c typ None members) ns repo rest req body"
proof -
  have "CheckGate env oc (virtual_handle venv c typ p members) meth path = (oc, None)" for oc p meth path
    by (simp add: CheckGate_def virtual_handle_def Gate_def Let_def split: option.split)
  moreover have "hd_Type (virtual_handle venv c typ pol members) = hd_Type (virtual_handle venv c typ None members)"
    "hd_serve (virtual_handle venv c typ pol members) = hd_serve (virtual_handle venv c typ None members)"
    by (simp_all add: virtual_handle_def)
  ultimately show ?thesis by (simp only: handle_request_def prod.case option.case)
qed

end
