(* ===== verification/Two_Factor.thy ===== *)
theory Two_Factor
  imports Data_Auth
begin

text \<open>
  The second factor of a password sign-in: \<open>internal/service/totp.go\<close> over the table of
  \<open>internal/storage/auth_store.go\<close>, and \<open>internal/server/authx/mfa_strategy.go\<close>.  Times are in nanoseconds.
  The TOTP algorithm of the ada library is \<open>tc_Verify\<close> with its step length and skew, the password strategy of that
  library is \<open>me_inner\<close>; the JSON of an identity is \<open>me_marshal\<close> and \<open>me_unmarshal\<close>.  Random values and failures
  of the database are arguments, and the calls of \<open>time.Now\<close> within one operation give one time.
\<close>

section \<open>Enrollments\<close>

record user_totp =
  ut_Secret :: string
  ut_Enabled :: bool
  ut_RecoveryCodes :: "string list"
  ut_CreatedAt :: unix_time
  ut_LastUsedAt :: "unix_time option"

datatype totp_error = TNotFound | TNotEnrolled | TNotEnabled | TInvalidCode | TAlreadyEnrolled | TForbidden | TUnauthorized | TBadRequest
  | TStore | TUser user_error

record totp_config =
  tc_Period :: int
  tc_Skew :: int
  tc_Verify :: "string \<Rightarrow> string \<Rightarrow> unix_time \<Rightarrow> bool"
  tc_Secret :: "string \<Rightarrow> string option"

datatype totp_pending = TotpPending (tp_identityJSON: string) (tp_expires: unix_time)

text \<open>The table of enrollments, the codes used, the sign-ins that wait for their code.\<close>

record totp_state =
  ts_rows :: "string \<rightharpoonup> user_totp"
  ts_replay :: "string \<rightharpoonup> unix_time"
  ts_pending :: "string \<rightharpoonup> totp_pending"

record totp_faults =
  tf_get :: bool
  tf_set :: bool
  tf_delete :: bool

definition totp_Get :: "totp_faults \<Rightarrow> totp_state \<Rightarrow> string \<Rightarrow> totp_error + user_totp" where
  "totp_Get f st uid = (if tf_get f then Err TStore
     else case ts_rows st uid of None \<Rightarrow> Err TNotFound | Some row \<Rightarrow> Ok row)"

definition totp_Set :: "totp_faults \<Rightarrow> totp_state \<Rightarrow> string \<Rightarrow> user_totp \<Rightarrow> totp_state \<times> totp_error option" where
  "totp_Set f st uid row = (if tf_set f then (st, Some TStore) else (st\<lparr>ts_rows := (ts_rows st)(uid \<mapsto> row)\<rparr>, None))"

definition totp_Delete :: "totp_faults \<Rightarrow> totp_state \<Rightarrow> string \<Rightarrow> totp_state \<times> totp_error option" where
  "totp_Delete f st uid = (if tf_delete f then (st, Some TStore)
     else if ts_rows st uid = None then (st, Some TNotFound) else (st\<lparr>ts_rows := (ts_rows st)(uid := None)\<rparr>, None))"

definition totp_now :: "unix_time \<Rightarrow> unix_time" where
  "totp_now now = now - now mod 1000"

text \<open>\<open>NewTOTPService\<close> starts with no code used and no sign-in waiting; the table is the database's.\<close>

definition pendingTTL :: int where "pendingTTL = 5 * 60 * 10 ^ 9"

definition NewTOTPService :: "(string \<rightharpoonup> user_totp) \<Rightarrow> totp_state" where
  "NewTOTPService rows = \<lparr>ts_rows = rows, ts_replay = Map.empty, ts_pending = Map.empty\<rparr>"

record totp_status =
  tu_Enabled :: bool
  tu_RecoveryCodesLeft :: nat
  tu_PendingEnrollment :: bool

definition Status :: "totp_faults \<Rightarrow> totp_state \<Rightarrow> string \<Rightarrow> totp_error + totp_status" where
  "Status f st uid = (case totp_Get f st uid of
     Inl e \<Rightarrow> if e = TNotFound then Ok \<lparr>tu_Enabled = False, tu_RecoveryCodesLeft = 0, tu_PendingEnrollment = False\<rparr> else Err e
   | Inr row \<Rightarrow> Ok \<lparr>tu_Enabled = ut_Enabled row, tu_RecoveryCodesLeft = length (ut_RecoveryCodes row),
       tu_PendingEnrollment = (\<not> ut_Enabled row)\<rparr>)"

definition BeginEnroll ::
  "totp_faults \<Rightarrow> user_db \<Rightarrow> totp_state \<Rightarrow> string \<Rightarrow> string \<Rightarrow> unix_time \<Rightarrow> totp_state \<times> (totp_error + string)" where
  "BeginEnroll f db st uid secret now =
     (let start = (case Users_Get db uid of Inl e \<Rightarrow> (st, Err (TUser e))
        | Inr _ \<Rightarrow> (case totp_Set f st uid \<lparr>ut_Secret = secret, ut_Enabled = False, ut_RecoveryCodes = [], ut_CreatedAt = totp_now now,
              ut_LastUsedAt = None\<rparr> of (st', Some e) \<Rightarrow> (st', Err e) | (st', None) \<Rightarrow> (st', Ok secret)))
      in case totp_Get f st uid of
           Inr existing \<Rightarrow> if ut_Enabled existing then (st, Err TAlreadyEnrolled) else start
         | Inl e \<Rightarrow> if e \<noteq> TNotFound then (st, Err e) else start)"

section \<open>Recovery codes\<close>

definition recoveryCodeAlphabet :: string where "recoveryCodeAlphabet = ''23456789ABCDEFGHJKMNPQRSTVWXYZ''"

text \<open>
  \<open>randomFromAlphabet\<close> on the random bytes it reads; \<open>None\<close> when these are used up.  Its limit is a byte.
\<close>

definition alphabet_limit :: "string \<Rightarrow> 8 word" where
  "alphabet_limit alphabet = of_nat (256 - 256 mod length alphabet)"

fun random_loop :: "string \<Rightarrow> nat \<Rightarrow> 8 word list \<Rightarrow> string option" where
  "random_loop alphabet 0 bs = Some []"
| "random_loop alphabet (Suc n) [] = None"
| "random_loop alphabet (Suc n) (b # bs) =
     (if b \<ge> alphabet_limit alphabet then random_loop alphabet (Suc n) bs
      else map_option ((#) (alphabet ! (unat b mod length alphabet))) (random_loop alphabet n bs))"

text \<open>
  The loop ends with a code exactly when enough of the bytes are below the limit.  For an alphabet whose length divides
  256 the byte is 0 and no supply of bytes is enough; the 30 characters used here take 240 of the 256 bytes.
\<close>

lemma random_loop_ends:
  "(\<exists>s. random_loop alphabet n bs = Some s) \<longleftrightarrow> n \<le> length (filter (\<lambda>b. b < alphabet_limit alphabet) bs)"
proof (induction bs arbitrary: n)
  case Nil
  then show ?case by (cases n) auto
next
  case (Cons b bs)
  then show ?case by (cases n) (auto simp: not_le)
qed

lemma random_loop_never_ends: "length alphabet dvd 256 \<Longrightarrow> random_loop alphabet (Suc n) bs = None"
proof -
  assume "length alphabet dvd 256"
  then have "256 mod length alphabet = 0" by (simp add: mod_eq_0_iff_dvd)
  then have limit: "alphabet_limit alphabet = 0" unfolding alphabet_limit_def by simp
  show ?thesis by (induction bs) (simp_all add: limit)
qed

lemma recovery_alphabet_limit: "alphabet_limit recoveryCodeAlphabet = 240"
  by code_simp

definition format_code :: "string \<Rightarrow> string" where
  "format_code raw = take 4 raw @ CHR ''-'' # take 4 (drop 4 raw) @ CHR ''-'' # drop 8 raw"

text \<open>The codes of \<open>newRecoveryCodes\<close> and their hashes, each code from its own random bytes.\<close>

fun newRecoveryCodes :: "bcrypt \<Rightarrow> 8 word list list \<Rightarrow> (string \<times> string) list option" where
  "newRecoveryCodes bc [] = Some []"
| "newRecoveryCodes bc (bs # bss) = (case random_loop recoveryCodeAlphabet 12 bs of None \<Rightarrow> None
     | Some raw \<Rightarrow> (case bc_hash bc (to_lower (format_code raw)) of None \<Rightarrow> None
         | Some h \<Rightarrow> map_option ((#) (format_code raw, h)) (newRecoveryCodes bc bss)))"

definition FinishEnroll ::
  "totp_config \<Rightarrow> bcrypt \<Rightarrow> totp_faults \<Rightarrow> totp_state \<Rightarrow> string \<Rightarrow> string \<Rightarrow> 8 word list list \<Rightarrow> unix_time \<Rightarrow>
   totp_state \<times> (totp_error + string list)" where
  "FinishEnroll cfg bc f st uid code random now = (case totp_Get f st uid of
     Inl e \<Rightarrow> (st, Err (if e = TNotFound then TNotEnrolled else e))
   | Inr row \<Rightarrow>
       if ut_Enabled row then (st, Err TAlreadyEnrolled)
       else (case tc_Secret cfg (ut_Secret row) of None \<Rightarrow> (st, Err TStore)
         | Some secret \<Rightarrow>
             if \<not> tc_Verify cfg secret code now then (st, Err TInvalidCode)
             else (case newRecoveryCodes bc random of None \<Rightarrow> (st, Err TStore)
               | Some codes \<Rightarrow> (case totp_Set f st uid (row\<lparr>ut_Enabled := True, ut_RecoveryCodes := map snd codes,
                     ut_LastUsedAt := Some (totp_now now)\<rparr>) of
                   (st', Some e) \<Rightarrow> (st', Err e) | (st', None) \<Rightarrow> (st', Ok (map fst codes))))))"

text \<open>The password check that \<open>Disable\<close> and \<open>RegenerateRecoveryCodes\<close> begin with.\<close>

definition confirm_password :: "bcrypt \<Rightarrow> user_db \<Rightarrow> string \<Rightarrow> string \<Rightarrow> totp_error option" where
  "confirm_password bc db uid password = (case Users_Get db uid of Inl e \<Rightarrow> Some (TUser e)
     | Inr user \<Rightarrow> if ac_PasswordHash user = [] then Some TForbidden
         else if \<not> bc_check bc (ac_PasswordHash user) password then Some TUnauthorized else None)"

definition Disable :: "bcrypt \<Rightarrow> totp_faults \<Rightarrow> user_db \<Rightarrow> totp_state \<Rightarrow> string \<Rightarrow> string \<Rightarrow> totp_state \<times> totp_error option" where
  "Disable bc f db st uid password = (case confirm_password bc db uid password of Some e \<Rightarrow> (st, Some e)
     | None \<Rightarrow> totp_Delete f st uid)"

definition RegenerateRecoveryCodes ::
  "bcrypt \<Rightarrow> totp_faults \<Rightarrow> user_db \<Rightarrow> totp_state \<Rightarrow> string \<Rightarrow> string \<Rightarrow> 8 word list list \<Rightarrow> totp_state \<times> (totp_error + string list)" where
  "RegenerateRecoveryCodes bc f db st uid password random = (case confirm_password bc db uid password of Some e \<Rightarrow> (st, Err e)
     | None \<Rightarrow> (case totp_Get f st uid of Inl e \<Rightarrow> (st, Err (if e = TNotFound then TNotEnrolled else e))
       | Inr row \<Rightarrow>
           if \<not> ut_Enabled row then (st, Err TNotEnabled)
           else (case newRecoveryCodes bc random of None \<Rightarrow> (st, Err TStore)
             | Some codes \<Rightarrow> (case totp_Set f st uid (row\<lparr>ut_RecoveryCodes := map snd codes\<rparr>) of
                 (st', Some e) \<Rightarrow> (st', Err e) | (st', None) \<Rightarrow> (st', Ok (map fst codes))))))"

definition AdminResetTOTP :: "totp_faults \<Rightarrow> user_db \<Rightarrow> totp_state \<Rightarrow> string \<Rightarrow> string \<Rightarrow> totp_state \<times> totp_error option" where
  "AdminResetTOTP f db st caller target =
     (if target = [] then (st, Some TBadRequest)
      else if caller = target then (st, Some TForbidden)
      else case Users_Get db target of Inl e \<Rightarrow> (st, Some (TUser e))
        | Inr _ \<Rightarrow> (case totp_Delete f st target of
            (st', Some e) \<Rightarrow> (st', if e = TNotFound then None else Some e) | (st', None) \<Rightarrow> (st', None)))"

definition IsEnabledForUser :: "totp_faults \<Rightarrow> totp_state \<Rightarrow> string \<Rightarrow> totp_error + bool" where
  "IsEnabledForUser f st uid = (case totp_Get f st uid of
     Inl e \<Rightarrow> if e = TNotFound then Ok False else Err e | Inr row \<Rightarrow> Ok (ut_Enabled row))"

section \<open>Verification at sign-in\<close>

definition replay_key :: "string \<Rightarrow> string \<Rightarrow> string" where
  "replay_key uid code = uid @ CHR '':'' # code"

definition replay_ttl :: "totp_config \<Rightarrow> int" where
  "replay_ttl cfg = tc_Period cfg * (2 * tc_Skew cfg + 1)"

definition markReplay :: "totp_config \<Rightarrow> totp_state \<Rightarrow> string \<Rightarrow> string \<Rightarrow> unix_time \<Rightarrow> totp_state \<times> bool" where
  "markReplay cfg st uid code now = (let key = replay_key uid code;
       burn = (st\<lparr>ts_replay := (ts_replay st)(key \<mapsto> now + replay_ttl cfg)\<rparr>, True)
     in case ts_replay st key of None \<Rightarrow> burn | Some expires \<Rightarrow> if expires > now then (st, False) else burn)"

text \<open>The loop over the recovery codes finds the first hash that the code matches.\<close>

fun find_code :: "(string \<Rightarrow> bool) \<Rightarrow> string list \<Rightarrow> nat option" where
  "find_code p [] = None"
| "find_code p (h # hs) = (if p h then Some 0 else map_option Suc (find_code p hs))"

text \<open>
  \<open>VerifyForLogin\<close> after it has read the row.  The failed update after a TOTP code is ignored, after a recovery code
  it fails the sign-in.
\<close>

definition verify_row ::
  "totp_config \<Rightarrow> bcrypt \<Rightarrow> totp_faults \<Rightarrow> totp_state \<Rightarrow> string \<Rightarrow> user_totp \<Rightarrow> string \<Rightarrow> unix_time \<Rightarrow> totp_state \<times> totp_error option" where
  "verify_row cfg bc f st uid row code0 now =
     (if \<not> ut_Enabled row then (st, Some TNotEnabled)
      else let code = trim_space code0 in
        if code = [] then (st, Some TInvalidCode)
        else (case tc_Secret cfg (ut_Secret row) of None \<Rightarrow> (st, Some TStore)
          | Some secret \<Rightarrow>
              if tc_Verify cfg secret code now then
                (case markReplay cfg st uid code now of
                   (st', False) \<Rightarrow> (st', Some TInvalidCode)
                 | (st', True) \<Rightarrow> (fst (totp_Set f st' uid (row\<lparr>ut_LastUsedAt := Some (totp_now now)\<rparr>)), None))
              else (case find_code (\<lambda>h. bc_check bc h (to_lower code)) (ut_RecoveryCodes row) of
                  None \<Rightarrow> (st, Some TInvalidCode)
                | Some i \<Rightarrow> totp_Set f st uid (row\<lparr>ut_RecoveryCodes := take i (ut_RecoveryCodes row) @ drop (Suc i) (ut_RecoveryCodes row),
                    ut_LastUsedAt := Some (totp_now now)\<rparr>))))"

definition VerifyForLogin ::
  "totp_config \<Rightarrow> bcrypt \<Rightarrow> totp_faults \<Rightarrow> totp_state \<Rightarrow> string \<Rightarrow> string \<Rightarrow> unix_time \<Rightarrow> totp_state \<times> totp_error option" where
  "VerifyForLogin cfg bc f st uid code now = (case totp_Get f st uid of
     Inl e \<Rightarrow> (st, Some (if e = TNotFound then TNotEnrolled else e))
   | Inr row \<Rightarrow> verify_row cfg bc f st uid row code now)"

definition SavePending :: "totp_state \<Rightarrow> string \<Rightarrow> string \<Rightarrow> unix_time \<Rightarrow> totp_state" where
  "SavePending st sid identJSON now = st\<lparr>ts_pending := (ts_pending st)(sid \<mapsto> TotpPending identJSON (now + pendingTTL))\<rparr>"

definition ConsumePending :: "totp_state \<Rightarrow> string \<Rightarrow> unix_time \<Rightarrow> totp_state \<times> string option" where
  "ConsumePending st sid now = (case ts_pending st sid of None \<Rightarrow> (st, None)
     | Some entry \<Rightarrow> (st\<lparr>ts_pending := (ts_pending st)(sid := None)\<rparr>,
         if now > tp_expires entry then None else Some (tp_identityJSON entry)))"

definition totp_gc :: "totp_state \<Rightarrow> unix_time \<Rightarrow> totp_state" where
  "totp_gc st now = st\<lparr>ts_replay := (\<lambda>k. case ts_replay st k of Some e \<Rightarrow> if e > now then Some e else None | None \<Rightarrow> None),
     ts_pending := (\<lambda>k. case ts_pending st k of Some p \<Rightarrow> if tp_expires p > now then Some p else None | None \<Rightarrow> None)\<rparr>"

end
