(* ===== verification/Mfa_Login.thy ===== *)
theory Mfa_Login
  imports Two_Factor
begin

text \<open>
  The password sign-in with its second factor: \<open>internal/server/authx/mfa_strategy.go\<close> around the password strategy of
  the ada library, whose verifier is \<open>internal/server/authx/local.go\<close>, and the runs of a server that signs users in
  while it changes accounts and enrollments.
\<close>

section \<open>The strategy\<close>

definition VerifyIdentity :: "bcrypt \<Rightarrow> user_db \<Rightarrow> string \<Rightarrow> string \<Rightarrow> user_db \<times> (user_error + identity)" where
  "VerifyIdentity bc db username password = (case Authenticate bc db username password of
     (db', Inl e) \<Rightarrow> (db', Err e)
   | (db', Inr info) \<Rightarrow> (db', Ok \<lparr>id_Subject = ac_Username info, id_Provider = ''local'',
       id_Roles = (if ac_IsSuperadmin info then [''superadmin''] else []), id_Scopes = [], id_Claims = [], id_TokenScopes = []\<rparr>))"

text \<open>
  The body is the JSON of its first 128 KiB, \<open>None\<close> when that is no JSON; a form has its first value for each key.
\<close>

record login_request =
  lq_Method :: string
  lq_Body :: "json option"
  lq_Form :: "(string \<times> string) list"

datatype inner_outcome = InContinue "identity option" | InPending | InFailed

record mfa_env =
  me_coord :: bool
  me_cfg :: totp_config
  me_bcrypt :: bcrypt
  me_inner :: "user_db \<Rightarrow> login_request \<Rightarrow> user_db \<times> inner_outcome"
  me_marshal :: "identity \<Rightarrow> string option"
  me_unmarshal :: "string \<Rightarrow> identity option"

datatype login_result = LContinue identity | LInner inner_outcome | LChallenge string | LError nat string

definition isMFAFinishBody :: "json option \<Rightarrow> bool" where
  "isMFAFinishBody body = (case body of
     Some (JObj kvs) \<Rightarrow> map_of kvs ''totp_session_id'' \<noteq> None \<and> map_of kvs ''code'' \<noteq> None | _ \<Rightarrow> False)"

text \<open>
  A string field of a struct, as \<open>encoding/json\<close> fills it: keys match whatever their case, the last one wins, a null
  leaves the field, any other value is an error.
\<close>

fun string_field :: "string \<Rightarrow> string \<Rightarrow> (string \<times> json) list \<Rightarrow> string option" where
  "string_field name acc [] = Some acc"
| "string_field name acc ((k, v) # kvs) =
     (if equal_fold k name then
        (case v of JStr s \<Rightarrow> string_field name s kvs | JNull \<Rightarrow> string_field name acc kvs | _ \<Rightarrow> None)
      else string_field name acc kvs)"

definition finish_request :: "json option \<Rightarrow> (string \<times> string) option" where
  "finish_request body = (case body of
     Some (JObj kvs) \<Rightarrow> (case (string_field ''totp_session_id'' [] kvs, string_field ''code'' [] kvs) of
         (Some sid, Some code) \<Rightarrow> Some (sid, code) | _ \<Rightarrow> None)
   | _ \<Rightarrow> None)"

definition resolveUserID :: "user_db \<Rightarrow> identity \<Rightarrow> string option" where
  "resolveUserID db ident = (if id_Subject ident = [] then None
     else case GetByUsername db (id_Subject ident) of Inl _ \<Rightarrow> None | Inr user \<Rightarrow> Some (ac_ID user))"

record tf_world =
  tw_users :: user_db
  tw_totp :: totp_state

definition handleBegin ::
  "mfa_env \<Rightarrow> totp_faults \<Rightarrow> tf_world \<Rightarrow> login_request \<Rightarrow> string \<Rightarrow> unix_time \<Rightarrow> tf_world \<times> login_result" where
  "handleBegin env f w req sid now = (case me_inner env (tw_users w) req of
     (db', InContinue (Some ident)) \<Rightarrow> (let w' = w\<lparr>tw_users := db'\<rparr> in
        if \<not> me_coord env then (w', LContinue ident)
        else (case resolveUserID db' ident of
          None \<Rightarrow> (w', LError 500 ''mfa_lookup_failed'')
        | Some uid \<Rightarrow> (case IsEnabledForUser f (tw_totp w) uid of
            Inl _ \<Rightarrow> (w', LError 500 ''mfa_lookup_failed'')
          | Inr enabled \<Rightarrow>
              if \<not> enabled then (w', LContinue ident)
              else (case me_marshal env ident of
                None \<Rightarrow> (w', LError 500 ''marshal_failed'')
              | Some encoded \<Rightarrow> (w'\<lparr>tw_totp := SavePending (tw_totp w) sid encoded now\<rparr>, LChallenge sid)))))
   | (db', out) \<Rightarrow> (w\<lparr>tw_users := db'\<rparr>, LInner out))"

definition totp_status_code :: "totp_error \<Rightarrow> nat \<times> string" where
  "totp_status_code e = (if e = TInvalidCode \<or> e = TNotEnrolled \<or> e = TNotEnabled then (401, ''invalid_code'')
     else (500, ''verify_failed''))"

definition handleFinish ::
  "mfa_env \<Rightarrow> totp_faults \<Rightarrow> tf_world \<Rightarrow> login_request \<Rightarrow> unix_time \<Rightarrow> tf_world \<times> login_result" where
  "handleFinish env f w req now =
     (if \<not> me_coord env then (w, LError 400 ''bad_request'')
      else case finish_request (lq_Body req) of
        None \<Rightarrow> (w, LError 400 ''bad_request'')
      | Some (sid, code) \<Rightarrow>
          if sid = [] \<or> code = [] then (w, LError 400 ''bad_request'')
          else (case ConsumePending (tw_totp w) sid now of
            (st1, None) \<Rightarrow> (w\<lparr>tw_totp := st1\<rparr>, LError 401 ''invalid_session'')
          | (st1, Some identJSON) \<Rightarrow> (case me_unmarshal env identJSON of
              None \<Rightarrow> (w\<lparr>tw_totp := st1\<rparr>, LError 500 ''session_corrupt'')
            | Some ident \<Rightarrow> (case resolveUserID (tw_users w) ident of
                None \<Rightarrow> (w\<lparr>tw_totp := st1\<rparr>, LError 500 ''mfa_lookup_failed'')
              | Some uid \<Rightarrow> (case VerifyForLogin (me_cfg env) (me_bcrypt env) f st1 uid code now of
                  (st2, Some e) \<Rightarrow> (w\<lparr>tw_totp := st2\<rparr>, case totp_status_code e of (n, msg) \<Rightarrow> LError n msg)
                | (st2, None) \<Rightarrow> (w\<lparr>tw_totp := st2\<rparr>, LContinue ident))))))"

definition Login ::
  "mfa_env \<Rightarrow> totp_faults \<Rightarrow> tf_world \<Rightarrow> login_request \<Rightarrow> string \<Rightarrow> unix_time \<Rightarrow> tf_world \<times> login_result" where
  "Login env f w req sid now =
     (if lq_Method req \<noteq> ''POST'' then (case me_inner env (tw_users w) req of
          (db', InContinue (Some ident)) \<Rightarrow> (w\<lparr>tw_users := db'\<rparr>, LContinue ident)
        | (db', out) \<Rightarrow> (w\<lparr>tw_users := db'\<rparr>, LInner out))
      else if isMFAFinishBody (lq_Body req) then handleFinish env f w req now
      else handleBegin env f w req sid now)"

section \<open>Runs of a server\<close>

text \<open>
  The operations on enrollments, one at a time; \<open>OpReload\<close> is a change of the settings, after which
  \<open>buildStrategies\<close> has made a new service.  The account operations are those of \<open>user_step\<close>.
\<close>

datatype tf_op = OpLogin login_request string | OpBegin string string | OpFinish string string "8 word list list"
  | OpDisable string string | OpRegenerate string string "8 word list list" | OpReset string string | OpGc | OpReload

definition tf_step :: "mfa_env \<Rightarrow> totp_faults \<Rightarrow> unix_time \<Rightarrow> tf_op \<Rightarrow> tf_world \<Rightarrow> tf_world \<times> login_result option" where
  "tf_step env f now op w = (let cfg = me_cfg env; bc = me_bcrypt env; st = tw_totp w; db = tw_users w in case op of
     OpLogin req sid \<Rightarrow> (case Login env f w req sid now of (w', r) \<Rightarrow> (w', Some r))
   | OpBegin uid secret \<Rightarrow> (w\<lparr>tw_totp := fst (BeginEnroll f db st uid secret now)\<rparr>, None)
   | OpFinish uid code random \<Rightarrow> (w\<lparr>tw_totp := fst (FinishEnroll cfg bc f st uid code random now)\<rparr>, None)
   | OpDisable uid password \<Rightarrow> (w\<lparr>tw_totp := fst (Disable bc f db st uid password)\<rparr>, None)
   | OpRegenerate uid password random \<Rightarrow> (w\<lparr>tw_totp := fst (RegenerateRecoveryCodes bc f db st uid password random)\<rparr>, None)
   | OpReset caller target \<Rightarrow> (w\<lparr>tw_totp := fst (AdminResetTOTP f db st caller target)\<rparr>, None)
   | OpGc \<Rightarrow> (w\<lparr>tw_totp := totp_gc st now\<rparr>, None)
   | OpReload \<Rightarrow> (w\<lparr>tw_totp := NewTOTPService (ts_rows st)\<rparr>, None))"

text \<open>An event is the time, the operation, the world before it and its answer.\<close>

datatype tf_event = Event (ev_time: unix_time) (ev_op: tf_op) (ev_world: tf_world) (ev_result: "login_result option")

inductive tf_run :: "mfa_env \<Rightarrow> tf_world \<Rightarrow> unix_time \<Rightarrow> tf_event list \<Rightarrow> bool" for env where
  run_start: "user_inv db \<Longrightarrow> tf_run env \<lparr>tw_users = db, tw_totp = NewTOTPService rows\<rparr> t []"
| run_op: "tf_run env w t es \<Longrightarrow> t \<le> now \<Longrightarrow> tf_step env f now op w = (w', r) \<Longrightarrow> tf_run env w' now (es @ [Event now op w r])"
| run_users: "tf_run env w t es \<Longrightarrow> user_step (me_bcrypt env) (tw_users w) db \<Longrightarrow> tf_run env (w\<lparr>tw_users := db\<rparr>) t es"

text \<open>
  The credentials a sign-in request carries: the fields \<open>username\<close> and \<open>password\<close> of its JSON object or of its form, the
  shapes \<open>login_guard.go\<close> names too.
\<close>

definition request_creds :: "login_request \<Rightarrow> (string \<times> string) option" where
  "request_creds req = (case lq_Body req of
     Some (JObj kvs) \<Rightarrow> (case (string_field ''username'' [] kvs, string_field ''password'' [] kvs) of
         (Some u, Some p) \<Rightarrow> Some (u, p) | _ \<Rightarrow> None)
   | _ \<Rightarrow> (case (map_of (lq_Form req) ''username'', map_of (lq_Form req) ''password'') of
         (Some u, Some p) \<Rightarrow> Some (u, p) | _ \<Rightarrow> None))"

text \<open>
  What the password strategy of the ada library does: it takes the credentials from a POST request and continues only with
  the identity the verifier of \<open>local.go\<close> gives for these credentials.
\<close>

definition inner_local :: "mfa_env \<Rightarrow> bool" where
  "inner_local env \<longleftrightarrow> (\<forall>db req db' out. me_inner env db req = (db', out) \<longrightarrow> (case out of
     InContinue (Some ident) \<Rightarrow> lq_Method req = ''POST'' \<and> (\<exists>u p. request_creds req = Some (u, p) \<and> VerifyIdentity (me_bcrypt env) db u p = (db', Ok ident))
   | _ \<Rightarrow> db' = db))"

text \<open>An accepted second factor: a TOTP code that is not used up, or a recovery code.\<close>

definition code_accepted :: "mfa_env \<Rightarrow> totp_state \<Rightarrow> string \<Rightarrow> user_totp \<Rightarrow> string \<Rightarrow> unix_time \<Rightarrow> bool" where
  "code_accepted env st uid row code now \<longleftrightarrow>
     (\<exists>secret. tc_Secret (me_cfg env) (ut_Secret row) = Some secret \<and>
        (tc_Verify (me_cfg env) secret (trim_space code) now \<and>
           (case ts_replay st (replay_key uid (trim_space code)) of None \<Rightarrow> True | Some e \<Rightarrow> e \<le> now) \<or>
         \<not> tc_Verify (me_cfg env) secret (trim_space code) now \<and>
           (\<exists>h\<in>set (ut_RecoveryCodes row). bc_check (me_bcrypt env) h (to_lower (trim_space code)))))"

section \<open>Facts\<close>

lemma tf_run_prefix:
  "tf_run env w t es \<Longrightarrow> es = es1 @ Event now op w0 r # es2 \<Longrightarrow>
   \<exists>t0 f w'. tf_run env w0 t0 es1 \<and> t0 \<le> now \<and> tf_step env f now op w0 = (w', r)"
proof (induction arbitrary: es2 rule: tf_run.induct)
  case (run_op w t es now' f op' w' r')
  then show ?case by (cases es2 rule: rev_cases) auto
qed auto

lemma verify_same_user:
  assumes "db_wf db" "VerifyIdentity bc db u p = (db', Ok ident)" "GetByUsername db (id_Subject ident) = Ok user"
  shows "\<exists>user'. GetByUsername db' (id_Subject ident) = Ok user' \<and> ac_ID user' = ac_ID user"
proof -
  obtain info where info: "Authenticate bc db u p = (db', Ok info)" "id_Subject ident = ac_Username info"
    using assms(2) by (auto simp: VerifyIdentity_def split: prod.splits sum.splits)
  then have found: "GetByUsername db u = Ok info" and db': "db' = rehashIfStale bc db info p"
    by (auto simp: Authenticate_def split: sum.splits if_splits)
  then have "GetByUsername db (ac_Username info) = Ok info" using user_getD(2) [OF found] by simp
  then have same: "user = info" using assms(3) info by simp
  have "db' = db \<or> (\<exists>h. db' = fst (Users_Update db (info\<lparr>ac_PasswordHash := h\<rparr>)))"
    unfolding db' by (auto simp: rehashIfStale_def split: option.split)
  then show ?thesis
  proof
    assume "db' = db"
    then show ?thesis using assms(3) by simp
  next
    assume "\<exists>h. db' = fst (Users_Update db (info\<lparr>ac_PasswordHash := h\<rparr>))"
    then obtain h where h: "db' = fst (Users_Update db (info\<lparr>ac_PasswordHash := h\<rparr>))" by blast
    let ?u = "info\<lparr>ac_PasswordHash := h\<rparr>"
    have wf: "db_wf db'" using h update_wf assms(1) by simp
    have mem: "info \<in> set (ud_users db)" "u = ac_Username info" "u \<noteq> []" using user_getD(2) [OF found] by auto
    have "set_columns ?u info \<in> set (ud_users db') \<or> info \<in> set (ud_users db')"
      using mem(1) unfolding h Users_Update_def by (auto intro: rev_image_eqI)
    then have "\<exists>v\<in>set (ud_users db'). ac_Username v = ac_Username info \<and> ac_ID v = ac_ID info"
      by (auto simp: set_columns_def intro: rev_bexI)
    then obtain v where v: "v \<in> set (ud_users db')" "ac_Username v = ac_Username info" "ac_ID v = ac_ID info" by blast
    have "GetByUsername db' (ac_Username v) = Ok v" by (rule get_name_self) (use wf v mem in simp_all)
    then show ?thesis using v info(2) same by auto
  qed
qed

lemma verify_world:
  assumes "inner_local env" "me_inner env db req = (db', InContinue (Some ident))"
  shows "lq_Method req = ''POST''" "\<exists>u p. request_creds req = Some (u, p) \<and> VerifyIdentity (me_bcrypt env) db u p = (db', Ok ident)"
proof -
  have "case InContinue (Some ident) of InContinue (Some ident) \<Rightarrow> lq_Method req = ''POST'' \<and>
     (\<exists>u p. request_creds req = Some (u, p) \<and> VerifyIdentity (me_bcrypt env) db u p = (db', Ok ident)) | _ \<Rightarrow> db' = db"
    using assms unfolding inner_local_def by blast
  then show "lq_Method req = ''POST''" "\<exists>u p. request_creds req = Some (u, p) \<and> VerifyIdentity (me_bcrypt env) db u p = (db', Ok ident)" by simp_all
qed

lemma verify_step: "VerifyIdentity bc db u p = (db', r) \<Longrightarrow> user_step bc db db'"
proof -
  assume "VerifyIdentity bc db u p = (db', r)"
  then have "db' = fst (Authenticate bc db u p)" by (auto simp: VerifyIdentity_def split: prod.splits sum.splits)
  then show ?thesis using step_login [of bc db u p] by simp
qed

lemma inner_inv:
  assumes "inner_local env" "me_inner env db req = (db', out)" "user_inv db"
  shows "user_inv db'"
proof (cases "\<exists>ident. out = InContinue (Some ident)")
  case True
  then obtain ident where "out = InContinue (Some ident)" by blast
  then obtain u p where "VerifyIdentity (me_bcrypt env) db u p = (db', Ok ident)"
    using verify_world(2) assms(1,2) by blast
  then show ?thesis using verify_step step_inv assms(3) by blast
next
  case False
  have "case out of InContinue (Some ident) \<Rightarrow> lq_Method req = ''POST'' \<and>
     (\<exists>u p. request_creds req = Some (u, p) \<and> VerifyIdentity (me_bcrypt env) db u p = (db', Ok ident)) | _ \<Rightarrow> db' = db"
    using assms(1,2) unfolding inner_local_def by blast
  then have "db' = db" using False by (auto split: inner_outcome.splits option.splits)
  then show ?thesis using assms(3) by simp
qed

text \<open>A sign-in changes the accounts as the password strategy does, or not at all.\<close>

lemma handleBegin_users: "tw_users (fst (handleBegin env f w req sid now)) = fst (me_inner env (tw_users w) req)"
proof (cases "me_inner env (tw_users w) req")
  case (Pair db' out)
  show ?thesis
  proof (cases "\<exists>ident. out = InContinue (Some ident)")
    case True
    then show ?thesis using Pair by (auto simp: handleBegin_def Let_def split: option.split sum.split)
  next
    case False
    then show ?thesis using Pair by (simp add: handleBegin_def split: inner_outcome.split option.split)
  qed
qed

lemma handleFinish_users: "tw_users (fst (handleFinish env f w req now)) = tw_users w"
  unfolding handleFinish_def by (simp split: option.split prod.split)

lemma Login_users:
  "tw_users (fst (Login env f w req sid now)) = tw_users w \<or> tw_users (fst (Login env f w req sid now)) = fst (me_inner env (tw_users w) req)"
proof (cases "lq_Method req = ''POST''")
  case True
  then show ?thesis by (simp add: Login_def handleBegin_users handleFinish_users)
next
  case False
  then show ?thesis by (simp add: Login_def split: prod.split inner_outcome.split option.split)
qed

lemma tf_run_inv: "tf_run env w t es \<Longrightarrow> inner_local env \<Longrightarrow> user_inv (tw_users w)"
proof (induction rule: tf_run.induct)
  case (run_op w t es now f op w' r)
  have inv: "user_inv (tw_users w)" using run_op.IH run_op.prems by blast
  have "user_inv (fst (me_inner env (tw_users w) req))" for req
    using inner_inv [OF run_op.prems _ inv, of req] by (metis prod.collapse)
  then have "user_inv (tw_users (fst (Login env f w req sid now)))" for req sid
    using Login_users [of env f w req sid now] inv by metis
  moreover have "tw_users w' = tw_users w \<or> (\<exists>req sid. w' = fst (Login env f w req sid now))"
  proof (cases op)
    case (OpLogin req sid)
    then have "w' = fst (Login env f w req sid now)" using run_op.hyps(3) by (auto simp: tf_step_def split: prod.splits)
    then show ?thesis by blast
  qed (use run_op.hyps(3) in \<open>auto simp: tf_step_def Let_def\<close>)
  ultimately show ?case using inv by metis
next
  case (run_users w t es db)
  then show ?case using step_inv by auto
qed simp

text \<open>Only sign-ins, the collector and a new service touch the codes used and the sign-ins that wait.\<close>

definition same_memory :: "totp_state \<Rightarrow> totp_state \<Rightarrow> bool" where
  "same_memory st st' \<longleftrightarrow> ts_pending st' = ts_pending st \<and> ts_replay st' = ts_replay st"

lemma same_memory_simps [simp]: "same_memory st st"
  "same_memory st (fst (totp_Set f st uid row))" "same_memory st (fst (totp_Delete f st uid))"
  by (simp_all add: same_memory_def totp_Set_def totp_Delete_def)

lemma same_memory_case:
  "same_memory st (fst (case totp_Set f st uid row of (st', Some e) \<Rightarrow> (st', g e) | (st', None) \<Rightarrow> (st', x)))"
  "same_memory st (fst (case totp_Delete f st uid of (st', Some e) \<Rightarrow> (st', h e) | (st', None) \<Rightarrow> (st', y)))"
  by (simp_all add: same_memory_def totp_Set_def totp_Delete_def)

lemma enrollment_memory [simp]:
  "same_memory st (fst (BeginEnroll f db st uid secret now))"
  "same_memory st (fst (FinishEnroll cfg bc f st uid code random now))"
  "same_memory st (fst (Disable bc f db st uid password))"
  "same_memory st (fst (RegenerateRecoveryCodes bc f db st uid password random))"
  "same_memory st (fst (AdminResetTOTP f db st caller target))"
  by (simp_all add: BeginEnroll_def FinishEnroll_def Disable_def RegenerateRecoveryCodes_def AdminResetTOTP_def Let_def
      same_memory_case split: sum.split option.split)

lemma verify_pending: "ts_pending (fst (VerifyForLogin cfg bc f st uid code now)) = ts_pending st"
  by (simp add: VerifyForLogin_def verify_row_def markReplay_def totp_Set_def Let_def split: sum.split option.split prod.split)

lemma verify_replay:
  "ts_replay (fst (VerifyForLogin cfg bc f st uid code now)) = ts_replay st \<or>
   (let key = replay_key uid (trim_space code) in (case ts_replay st key of None \<Rightarrow> True | Some e \<Rightarrow> e \<le> now) \<and>
      ts_replay (fst (VerifyForLogin cfg bc f st uid code now)) = (ts_replay st)(key \<mapsto> now + replay_ttl cfg))"
  by (simp add: VerifyForLogin_def verify_row_def markReplay_def totp_Set_def Let_def split: sum.split option.split prod.split)

lemma finish_pending:
  "ts_pending (tw_totp (fst (handleFinish env f w req now))) sid = Some p \<Longrightarrow> ts_pending (tw_totp w) sid = Some p"
proof -
  assume p: "ts_pending (tw_totp (fst (handleFinish env f w req now))) sid = Some p"
  have v: "ts_pending st2 = ts_pending st" if "VerifyForLogin cfg bc f st uid code now = (st2, r)" for cfg bc f st uid code r st2
    using verify_pending [of cfg bc f st uid code now] that by simp
  have c: "ts_pending st1 sid = Some p \<Longrightarrow> ts_pending st sid = Some p" if "ConsumePending st sid1 now = (st1, r)" for st sid1 st1 r
    using that by (auto simp: ConsumePending_def split: option.splits if_splits)
  show ?thesis
    using p unfolding handleFinish_def
    by (auto simp: v dest: c split: if_splits option.splits prod.splits)
qed

lemma begin_pending:
  assumes "ts_pending (tw_totp (fst (handleBegin env f w req sid now))) sid1 = Some p"
  shows "ts_pending (tw_totp w) sid1 = Some p \<or> sid1 = sid \<and> snd (handleBegin env f w req sid now) = LChallenge sid \<and>
     (\<exists>db' ident j. me_inner env (tw_users w) req = (db', InContinue (Some ident)) \<and> me_marshal env ident = Some j \<and>
        p = TotpPending j (now + pendingTTL))"
proof (cases "me_inner env (tw_users w) req")
  case (Pair db' out)
  show ?thesis
  proof (cases "\<exists>ident. out = InContinue (Some ident)")
    case True
    then show ?thesis using assms Pair
      by (auto simp: handleBegin_def Let_def SavePending_def split: option.splits sum.splits if_splits)
  next
    case False
    then have "fst (handleBegin env f w req sid now) = w\<lparr>tw_users := db'\<rparr>"
      using Pair by (simp add: handleBegin_def split: inner_outcome.split option.split)
    then show ?thesis using assms by simp
  qed
qed

text \<open>A sign-in that waits was let in by its password when the challenge was sent.\<close>

definition challenged :: "mfa_env \<Rightarrow> tf_event list \<Rightarrow> string \<Rightarrow> totp_pending \<Rightarrow> bool" where
  "challenged env es sid p \<longleftrightarrow> (\<exists>t1 req w1 u pw db1 ident j.
     Event t1 (OpLogin req sid) w1 (Some (LChallenge sid)) \<in> set es \<and>
     request_creds req = Some (u, pw) \<and> VerifyIdentity (me_bcrypt env) (tw_users w1) u pw = (db1, Ok ident) \<and>
     me_marshal env ident = Some j \<and> p = TotpPending j (t1 + pendingTTL))"

lemma step_pending:
  assumes "inner_local env" "tf_step env f now op w = (w', r)" "ts_pending (tw_totp w') sid = Some p"
  shows "ts_pending (tw_totp w) sid = Some p \<or> challenged env [Event now op w r] sid p"
proof (cases op)
  case (OpLogin req sid0)
  then have w': "w' = fst (Login env f w req sid0 now)" and r: "r = Some (snd (Login env f w req sid0 now))"
    using assms(2) by (auto simp: tf_step_def split: prod.splits)
  consider "lq_Method req \<noteq> ''POST''" | "lq_Method req = ''POST''" "isMFAFinishBody (lq_Body req)"
    | "lq_Method req = ''POST''" "\<not> isMFAFinishBody (lq_Body req)" by blast
  then show ?thesis
  proof cases
    case 1
    then have "tw_totp w' = tw_totp w" by (simp add: w' Login_def split: prod.split inner_outcome.split option.split)
    then show ?thesis using assms(3) by simp
  next
    case 2
    then have "w' = fst (handleFinish env f w req now)" by (simp add: w' Login_def)
    then show ?thesis using assms(3) finish_pending [of env f w req now sid p] by simp
  next
    case 3
    then have L: "Login env f w req sid0 now = handleBegin env f w req sid0 now" by (simp add: Login_def)
    consider "ts_pending (tw_totp w) sid = Some p"
      | db' ident j where "sid = sid0" "snd (handleBegin env f w req sid0 now) = LChallenge sid0"
        "me_inner env (tw_users w) req = (db', InContinue (Some ident))" "me_marshal env ident = Some j" "p = TotpPending j (now + pendingTTL)"
      using begin_pending [of env f w req sid0 now sid p] assms(3) unfolding w' L by blast
    then show ?thesis
    proof cases
      case 2
      obtain u pw where "request_creds req = Some (u, pw)" "VerifyIdentity (me_bcrypt env) (tw_users w) u pw = (db', Ok ident)"
        using verify_world(2) [OF assms(1) 2(3)] by blast
      then have "challenged env [Event now op w r] sid p"
        using 2 unfolding challenged_def r L OpLogin by (intro exI conjI) (assumption | simp)+
      then show ?thesis ..
    qed simp
  qed
next
  case OpGc
  then show ?thesis using assms(2,3) by (auto simp: tf_step_def Let_def totp_gc_def split: option.splits if_splits)
next
  case OpReload
  then show ?thesis using assms(2,3) by (auto simp: tf_step_def Let_def NewTOTPService_def)
qed (use assms(2,3) enrollment_memory in \<open>auto simp: tf_step_def Let_def same_memory_def\<close>)

lemma tf_run_pending:
  "tf_run env w t es \<Longrightarrow> inner_local env \<Longrightarrow> ts_pending (tw_totp w) sid = Some p \<Longrightarrow> challenged env es sid p"
proof (induction rule: tf_run.induct)
  case (run_op w t es now f op w' r)
  then show ?case using step_pending [OF run_op.prems(1) run_op.hyps(3) run_op.prems(2)] by (fastforce simp: challenged_def)
qed (simp_all add: NewTOTPService_def)

lemma tf_run_times: "tf_run env w t es \<Longrightarrow> e \<in> set es \<Longrightarrow> ev_time e \<le> t"
  by (induction rule: tf_run.induct) force+

text \<open>What an accepted sign-in went through.\<close>

lemma verify_row_ok:
  assumes "snd (VerifyForLogin (me_cfg env) (me_bcrypt env) f st uid code now) = None"
  shows "\<exists>row. ts_rows st uid = Some row \<and> ut_Enabled row \<and> code_accepted env st uid row code now"
proof -
  have found: "\<exists>h\<in>set hs. p h" if "find_code p hs = Some i" for p hs i
    using that by (induction hs arbitrary: i) (auto split: if_splits)
  show ?thesis
    using assms
    by (auto simp: VerifyForLogin_def verify_row_def markReplay_def totp_Set_def totp_Get_def code_accepted_def Let_def
        split: sum.splits option.splits if_splits prod.splits dest: found)
qed

lemma finish_continues:
  assumes "snd (handleFinish env f w req now) = LContinue ident"
  shows "\<exists>sid code p uid. finish_request (lq_Body req) = Some (sid, code) \<and> ts_pending (tw_totp w) sid = Some p \<and> now \<le> tp_expires p \<and>
     me_unmarshal env (tp_identityJSON p) = Some ident \<and> resolveUserID (tw_users w) ident = Some uid \<and>
     snd (VerifyForLogin (me_cfg env) (me_bcrypt env) f (fst (ConsumePending (tw_totp w) sid now)) uid code now) = None"
proof -
  obtain sid code where req: "finish_request (lq_Body req) = Some (sid, code)"
    using assms by (auto simp: handleFinish_def split: if_splits option.splits)
  obtain p where p: "ts_pending (tw_totp w) sid = Some p" "now \<le> tp_expires p"
    and c: "snd (ConsumePending (tw_totp w) sid now) = Some (tp_identityJSON p)"
    using assms req by (auto simp: handleFinish_def ConsumePending_def split: if_splits option.splits prod.splits)
  show ?thesis
    using assms req p c by (auto simp: handleFinish_def split: if_splits option.splits prod.splits)
qed

lemma code_accepted_cong: "ts_replay st' = ts_replay st \<Longrightarrow> code_accepted env st' uid row code now = code_accepted env st uid row code now"
  by (simp add: code_accepted_def)

text \<open>A first phase that continues signs in a user without a second factor.\<close>

lemma begin_continues:
  assumes "inner_local env" "me_coord env" "db_wf (tw_users w)" "snd (handleBegin env f w req sid now) = LContinue ident"
    and "GetByUsername (tw_users w) (id_Subject ident) = Ok user" "ts_rows (tw_totp w) (ac_ID user) = Some row"
  shows "\<not> ut_Enabled row"
proof -
  obtain db' out where i: "me_inner env (tw_users w) req = (db', out)" by fastforce
  have out: "out = InContinue (Some ident)"
    using assms(2,4) i by (auto simp: handleBegin_def Let_def split: inner_outcome.splits option.splits sum.splits if_splits)
  obtain u p where "VerifyIdentity (me_bcrypt env) (tw_users w) u p = (db', Ok ident)"
    using verify_world(2) assms(1) i out by blast
  then obtain user' where "GetByUsername db' (id_Subject ident) = Ok user'" "ac_ID user' = ac_ID user"
    using verify_same_user assms(3,5) by blast
  moreover have "id_Subject ident \<noteq> []" using user_getD(2) assms(5) by blast
  ultimately have "resolveUserID db' ident = Some (ac_ID user)" by (simp add: resolveUserID_def)
  then show ?thesis
    using assms(2,4,6) i out by (auto simp: handleBegin_def IsEnabledForUser_def totp_Get_def Let_def split: if_splits option.splits)
qed

section \<open>Properties\<close>

text \<open>
  C3: the second factor is required.  When a sign-in of a user whose enrollment is enabled continues, it answered a
  challenge with a code that was accepted (a TOTP code not used up, or one of the recovery codes), the challenge was
  sent at most five minutes before, and it answered a request that carried a username and a password which verified, when
  it was sent, as the identity that is signed in now; whatever accounts, enrollments and other sign-ins did meanwhile, and
  whatever reads and writes of the table failed.
\<close>

theorem second_factor_required:
  assumes "inner_local env" "me_coord env" "tf_run env w t (es @ Event now (OpLogin req sid0) w0 (Some (LContinue ident)) # es')"
    and "GetByUsername (tw_users w0) (id_Subject ident) = Ok user" "ts_rows (tw_totp w0) (ac_ID user) = Some row" "ut_Enabled row"
  shows "\<exists>sid code t1 req1 w1 u p db1 ident1 j.
    finish_request (lq_Body req) = Some (sid, code) \<and> code_accepted env (tw_totp w0) (ac_ID user) row code now \<and>
    Event t1 (OpLogin req1 sid) w1 (Some (LChallenge sid)) \<in> set es \<and> t1 \<le> now \<and> now \<le> t1 + 300 * 10 ^ 9 \<and>
    request_creds req1 = Some (u, p) \<and> VerifyIdentity (me_bcrypt env) (tw_users w1) u p = (db1, Ok ident1) \<and>
    me_marshal env ident1 = Some j \<and> me_unmarshal env j = Some ident"
proof -
  obtain t0 f w' where run: "tf_run env w0 t0 es" "t0 \<le> now"
    and step: "tf_step env f now (OpLogin req sid0) w0 = (w', Some (LContinue ident))"
    using tf_run_prefix [OF assms(3) refl] by blast
  have wf: "db_wf (tw_users w0)" using tf_run_inv [OF run(1) assms(1)] by simp
  have L: "snd (Login env f w0 req sid0 now) = LContinue ident" using step by (auto simp: tf_step_def split: prod.splits)
  have post: "lq_Method req = ''POST''"
  proof (rule ccontr)
    assume n: "\<not> ?thesis"
    then have "\<exists>db'. me_inner env (tw_users w0) req = (db', InContinue (Some ident))"
      using L by (auto simp: Login_def split: prod.splits inner_outcome.splits option.splits)
    then show False using verify_world(1) assms(1) n by blast
  qed
  have "snd (handleFinish env f w0 req now) = LContinue ident"
    using L post begin_continues [OF assms(1,2) wf _ assms(4,5)] assms(6) by (auto simp: Login_def split: if_splits)
  then obtain sid code p uid where fin: "finish_request (lq_Body req) = Some (sid, code)" "ts_pending (tw_totp w0) sid = Some p"
      "now \<le> tp_expires p" "me_unmarshal env (tp_identityJSON p) = Some ident" "resolveUserID (tw_users w0) ident = Some uid"
    and v: "snd (VerifyForLogin (me_cfg env) (me_bcrypt env) f (fst (ConsumePending (tw_totp w0) sid now)) uid code now) = None"
    using finish_continues by blast
  have uid: "uid = ac_ID user" using fin(5) assms(4) by (auto simp: resolveUserID_def split: if_splits)
  have same: "ts_rows (fst (ConsumePending (tw_totp w0) sid now)) = ts_rows (tw_totp w0)"
    "ts_replay (fst (ConsumePending (tw_totp w0) sid now)) = ts_replay (tw_totp w0)"
    by (simp_all add: ConsumePending_def split: option.split)
  have "code_accepted env (tw_totp w0) (ac_ID user) row code now"
    using verify_row_ok [OF v] uid assms(5) code_accepted_cong [OF same(2)] same(1) by auto
  moreover obtain t1 req1 w1 u pw db1 ident1 j1 where "Event t1 (OpLogin req1 sid) w1 (Some (LChallenge sid)) \<in> set es"
      "request_creds req1 = Some (u, pw)" "VerifyIdentity (me_bcrypt env) (tw_users w1) u pw = (db1, Ok ident1)" "me_marshal env ident1 = Some j1" "p = TotpPending j1 (t1 + pendingTTL)"
    using tf_run_pending [OF run(1) assms(1) fin(2)] unfolding challenged_def by blast
  moreover have "t1 \<le> now" using tf_run_times [OF run(1) calculation(2)] run(2) by simp
  ultimately show ?thesis using fin by (intro exI conjI) (assumption | simp add: pendingTTL_def)+
qed

text \<open>An event in which a user signed in with a code that the TOTP algorithm accepts, or with a recovery code.\<close>

definition signed_in :: "mfa_env \<Rightarrow> tf_event \<Rightarrow> string \<Rightarrow> string \<Rightarrow> bool \<Rightarrow> bool" where
  "signed_in env ev uid code byTOTP \<longleftrightarrow> (case (ev_op ev, ev_result ev) of
     (OpLogin req _, Some (LContinue ident)) \<Rightarrow> lq_Method req = ''POST'' \<and> isMFAFinishBody (lq_Body req) \<and>
       (case finish_request (lq_Body req) of None \<Rightarrow> False
        | Some (_, c) \<Rightarrow> trim_space c = code \<and> resolveUserID (tw_users (ev_world ev)) ident = Some uid \<and>
            (case ts_rows (tw_totp (ev_world ev)) uid of None \<Rightarrow> False
             | Some row \<Rightarrow> (case tc_Secret (me_cfg env) (ut_Secret row) of None \<Rightarrow> False
                 | Some secret \<Rightarrow> byTOTP = tc_Verify (me_cfg env) secret code (ev_time ev))))
   | _ \<Rightarrow> False)"

lemma signed_in_iff: "signed_in env ev uid code byTOTP \<longleftrightarrow> (\<exists>now req sid0 w ident sid c row secret.
     ev = Event now (OpLogin req sid0) w (Some (LContinue ident)) \<and> lq_Method req = ''POST'' \<and> isMFAFinishBody (lq_Body req) \<and>
     finish_request (lq_Body req) = Some (sid, c) \<and> trim_space c = code \<and> resolveUserID (tw_users w) ident = Some uid \<and>
     ts_rows (tw_totp w) uid = Some row \<and> tc_Secret (me_cfg env) (ut_Secret row) = Some secret \<and>
     byTOTP = tc_Verify (me_cfg env) secret code now)"
  by (cases ev) (auto simp: signed_in_def split: tf_op.split option.split login_result.split)

definition burned :: "mfa_env \<Rightarrow> string \<Rightarrow> unix_time \<Rightarrow> tf_world \<Rightarrow> unix_time \<Rightarrow> bool" where
  "burned env key until w t \<longleftrightarrow> until \<le> t \<or> (\<exists>e\<ge>until. ts_replay (tw_totp w) key = Some e)"

lemma finish_replay:
  "ts_replay (tw_totp (fst (handleFinish env f w req now))) = ts_replay (tw_totp w) \<or>
   (\<exists>key. (case ts_replay (tw_totp w) key of None \<Rightarrow> True | Some e \<Rightarrow> e \<le> now) \<and>
      ts_replay (tw_totp (fst (handleFinish env f w req now))) = (ts_replay (tw_totp w))(key \<mapsto> now + replay_ttl (me_cfg env)))"
  (is "?P (tw_totp (fst (handleFinish env f w req now)))")
proof -
  have c: "ts_replay st1 = ts_replay (tw_totp w)" if "ConsumePending (tw_totp w) sid now = (st1, r)" for sid st1 r
    using that by (auto simp: ConsumePending_def split: option.splits)
  have v: "?P st2" if "VerifyForLogin (me_cfg env) (me_bcrypt env) f st1 uid code now = (st2, r)" "ts_replay st1 = ts_replay (tw_totp w)"
    for uid code st1 st2 r
    using verify_replay [of "me_cfg env" "me_bcrypt env" f st1 uid code now] that by (auto simp: Let_def)
  show ?thesis
  proof (cases "finish_request (lq_Body req)")
    case (Some sc)
    obtain sid code where sc: "sc = (sid, code)" by fastforce
    obtain st1 o1 where c1: "ConsumePending (tw_totp w) sid now = (st1, o1)" by fastforce
    have "tw_totp (fst (handleFinish env f w req now)) \<in> {tw_totp w, st1} \<union>
        range (\<lambda>uid. fst (VerifyForLogin (me_cfg env) (me_bcrypt env) f st1 uid code now))"
      using Some sc c1 by (auto simp: handleFinish_def image_iff split: option.split prod.split) (metis fst_conv)+
    then consider "tw_totp (fst (handleFinish env f w req now)) = tw_totp w" | "tw_totp (fst (handleFinish env f w req now)) = st1"
      | uid where "tw_totp (fst (handleFinish env f w req now)) = fst (VerifyForLogin (me_cfg env) (me_bcrypt env) f st1 uid code now)"
      by blast
    then show ?thesis
    proof cases
      case 3
      show ?thesis unfolding 3 by (rule v [OF prod.collapse [symmetric] c [OF c1]])
    qed (use c [OF c1] in simp_all)
  qed (simp add: handleFinish_def)
qed

lemma step_burned:
  assumes "tf_step env f now op w = (w', r)" "op \<noteq> OpReload" "burned env key until w t" "t \<le> now"
  shows "burned env key until w' now"
proof (cases "until \<le> now")
  case False
  then obtain e where e: "until \<le> e" "ts_replay (tw_totp w) key = Some e" "now < e" using assms(3,4) by (auto simp: burned_def)
  have same: ?thesis if "ts_replay (tw_totp w') = ts_replay (tw_totp w)" using that e by (auto simp: burned_def)
  show ?thesis
  proof (cases op)
    case (OpLogin req sid)
    then have w': "w' = fst (Login env f w req sid now)" using assms(1) by (auto simp: tf_step_def split: prod.splits)
    have "ts_replay (tw_totp (fst (handleBegin env f w req sid now))) = ts_replay (tw_totp w)"
      by (simp add: handleBegin_def SavePending_def Let_def split: prod.split inner_outcome.split option.split sum.split)
    moreover have "tw_totp w' = tw_totp w" if "lq_Method req \<noteq> ''POST''"
      using that by (simp add: w' Login_def split: prod.split inner_outcome.split option.split)
    moreover have "ts_replay (tw_totp (fst (handleFinish env f w req now))) key = Some e"
      using finish_replay [of env f w req now] e by (auto split: option.splits)
    ultimately show ?thesis using e same by (auto simp: w' Login_def burned_def)
  next
    case OpGc
    then show ?thesis using assms(1) e by (auto simp: tf_step_def Let_def totp_gc_def burned_def)
  qed (use assms(1,2) enrollment_memory in \<open>auto simp: tf_step_def Let_def same_memory_def intro!: same\<close>)
qed (simp add: burned_def)

lemma verify_row_burns:
  assumes "snd (verify_row cfg bc f st uid row c now) = None" "tc_Secret cfg (ut_Secret row) = Some secret"
    and "tc_Verify cfg secret (trim_space c) now"
  shows "ts_replay (fst (verify_row cfg bc f st uid row c now)) (replay_key uid (trim_space c)) = Some (now + replay_ttl cfg)"
    and "case ts_replay st (replay_key uid (trim_space c)) of None \<Rightarrow> True | Some e \<Rightarrow> e \<le> now"
  using assms by (simp_all add: verify_row_def markReplay_def totp_Set_def Let_def split: if_splits option.splits)

lemma finish_verified:
  assumes "tf_step env f now op w = (w', r)" "op = OpLogin req sid0" "r = Some (LContinue ident)" "lq_Method req = ''POST''"
    and "isMFAFinishBody (lq_Body req)" "finish_request (lq_Body req) = Some (sid, c)" "resolveUserID (tw_users w) ident = Some uid"
  shows "\<exists>st1. ts_rows st1 = ts_rows (tw_totp w) \<and> ts_replay st1 = ts_replay (tw_totp w) \<and>
     VerifyForLogin (me_cfg env) (me_bcrypt env) f st1 uid c now = (tw_totp w', None)"
proof -
  have h: "handleFinish env f w req now = (w', LContinue ident)"
    using assms by (auto simp: tf_step_def Login_def split: prod.splits)
  obtain st1 p where c: "ConsumePending (tw_totp w) sid now = (st1, Some p)"
    and v: "VerifyForLogin (me_cfg env) (me_bcrypt env) f st1 uid c now = (tw_totp w', None)"
    using h assms by (auto simp: handleFinish_def split: if_splits option.splits prod.splits)
  have "ts_rows st1 = ts_rows (tw_totp w)" "ts_replay st1 = ts_replay (tw_totp w)"
    using c by (auto simp: ConsumePending_def split: option.splits if_splits)
  then show ?thesis using v by blast
qed

lemma signed_in_burned:
  assumes "tf_step env f now op w = (w', r)" "signed_in env (Event now op w r) uid code True"
  shows "ts_replay (tw_totp w') (replay_key uid code) = Some (now + replay_ttl (me_cfg env))"
    and "case ts_replay (tw_totp w) (replay_key uid code) of None \<Rightarrow> True | Some e \<Rightarrow> e \<le> now"
proof -
  obtain req sid0 ident sid c row secret where op: "op = OpLogin req sid0" "r = Some (LContinue ident)" "lq_Method req = ''POST''"
      "isMFAFinishBody (lq_Body req)" "finish_request (lq_Body req) = Some (sid, c)" "trim_space c = code"
      "resolveUserID (tw_users w) ident = Some uid" "ts_rows (tw_totp w) uid = Some row"
      "tc_Secret (me_cfg env) (ut_Secret row) = Some secret" "tc_Verify (me_cfg env) secret code now"
    using assms(2) unfolding signed_in_iff by auto
  obtain st1 where same: "ts_rows st1 = ts_rows (tw_totp w)" "ts_replay st1 = ts_replay (tw_totp w)"
    and v: "VerifyForLogin (me_cfg env) (me_bcrypt env) f st1 uid c now = (tw_totp w', None)"
    using finish_verified [OF assms(1)] op by metis
  have "verify_row (me_cfg env) (me_bcrypt env) f st1 uid row c now = (tw_totp w', None)"
    using v op(8) same by (auto simp: VerifyForLogin_def totp_Get_def split: if_splits)
  then show "ts_replay (tw_totp w') (replay_key uid code) = Some (now + replay_ttl (me_cfg env))"
    and "case ts_replay (tw_totp w) (replay_key uid code) of None \<Rightarrow> True | Some e \<Rightarrow> e \<le> now"
    using verify_row_burns [of "me_cfg env" "me_bcrypt env" f st1 uid row c now secret] op(6,9,10) same by simp_all
qed

lemma tf_run_burned:
  "tf_run env w t tr \<Longrightarrow> tr = es @ e # es1 \<Longrightarrow> \<forall>x\<in>set es1. ev_op x \<noteq> OpReload \<Longrightarrow> signed_in env e uid code True \<Longrightarrow>
   burned env (replay_key uid code) (ev_time e + replay_ttl (me_cfg env)) w t"
proof (induction arbitrary: es1 rule: tf_run.induct)
  case (run_op w t tr now f op w' r)
  show ?case
  proof (cases es1 rule: rev_cases)
    case Nil
    then have "e = Event now op w r" using run_op.prems(1) by simp
    then show ?thesis using signed_in_burned(1) [OF run_op.hyps(3)] run_op.prems(3) by (auto simp: burned_def)
  next
    case (snoc es2 x)
    then have "x = Event now op w r" "tr = es @ e # es2" using run_op.prems(1) by simp_all
    then show ?thesis
      using run_op.IH [of es2] run_op.prems(2,3) snoc step_burned [OF run_op.hyps(3) _ _ run_op.hyps(2)] by simp
  qed
qed (simp_all add: burned_def)

text \<open>The times at which a code of time step \<open>k\<close> is accepted (RFC 6238 with \<open>tc_Skew\<close> steps of tolerance).\<close>

definition step_window :: "totp_config \<Rightarrow> int \<Rightarrow> unix_time \<Rightarrow> bool" where
  "step_window cfg k t \<longleftrightarrow> (k - tc_Skew cfg) * tc_Period cfg \<le> t \<and> t < (k + tc_Skew cfg + 1) * tc_Period cfg"

text \<open>
  C12: a TOTP code signs in once.  Between two sign-ins of a user with the same code, with no reload of the settings
  between them, the codes accepted have changed: the second comes at least the whole tolerance later, so that no time
  step has both in its window.
\<close>

theorem code_signs_in_once:
  assumes "tf_run env w t (es @ e1 # es1 @ e2 # es2)" "\<forall>e\<in>set es1. ev_op e \<noteq> OpReload"
    and "signed_in env e1 uid code True" "signed_in env e2 uid code True"
  shows "ev_time e1 + replay_ttl (me_cfg env) \<le> ev_time e2 \<and>
    \<not> (\<exists>k. step_window (me_cfg env) k (ev_time e1) \<and> step_window (me_cfg env) k (ev_time e2))"
proof -
  obtain now op w0 r where e2: "e2 = Event now op w0 r" by (cases e2)
  obtain t0 f w' where run: "tf_run env w0 t0 (es @ e1 # es1)" "t0 \<le> now" and step: "tf_step env f now op w0 = (w', r)"
    using tf_run_prefix [of env w t _ "es @ e1 # es1" now op w0 r es2] assms(1) e2 by auto
  have b: "burned env (replay_key uid code) (ev_time e1 + replay_ttl (me_cfg env)) w0 t0"
    using tf_run_burned [OF run(1) refl assms(2,3)] .
  have "case ts_replay (tw_totp w0) (replay_key uid code) of None \<Rightarrow> True | Some e \<Rightarrow> e \<le> now"
    using signed_in_burned(2) [OF step] assms(4) e2 by simp
  then have le: "ev_time e1 + replay_ttl (me_cfg env) \<le> now" using b run(2) by (auto simp: burned_def)
  then show ?thesis
    by (auto simp: e2 step_window_def replay_ttl_def algebra_simps)
qed

text \<open>The recovery codes a user has, and the operations that hand out new ones.\<close>

definition codes_left :: "totp_state \<Rightarrow> string \<Rightarrow> nat" where
  "codes_left st uid = (case ts_rows st uid of None \<Rightarrow> 0 | Some row \<Rightarrow> length (ut_RecoveryCodes row))"

definition issues_codes :: "tf_op \<Rightarrow> string \<Rightarrow> bool" where
  "issues_codes op uid \<longleftrightarrow> (case op of OpFinish u _ _ \<Rightarrow> u = uid | OpRegenerate u _ _ \<Rightarrow> u = uid | _ \<Rightarrow> False)"

definition recovery_login :: "mfa_env \<Rightarrow> string \<Rightarrow> tf_event \<Rightarrow> bool" where
  "recovery_login env uid ev \<longleftrightarrow> (\<exists>code. signed_in env ev uid code False)"

lemma codes_left_simps [simp]:
  "codes_left (fst (totp_Set f st u row)) uid \<le> (if u = uid then max (codes_left st uid) (length (ut_RecoveryCodes row)) else codes_left st uid)"
  "codes_left (fst (totp_Delete f st u)) uid \<le> codes_left st uid"
  by (auto simp: codes_left_def totp_Set_def totp_Delete_def split: option.split)

lemma find_code_bound: "find_code p hs = Some i \<Longrightarrow> i < length hs"
  by (induction hs arbitrary: i) (auto split: if_splits)

lemma enrollment_codes:
  "codes_left (fst (BeginEnroll f db st u secret now)) uid \<le> codes_left st uid"
  "codes_left (fst (Disable bc f db st u password)) uid \<le> codes_left st uid"
  "codes_left (fst (AdminResetTOTP f db st caller target)) uid \<le> codes_left st uid"
  "u \<noteq> uid \<Longrightarrow> codes_left (fst (FinishEnroll cfg bc f st u code random now)) uid \<le> codes_left st uid"
  "u \<noteq> uid \<Longrightarrow> codes_left (fst (RegenerateRecoveryCodes bc f db st u password random)) uid \<le> codes_left st uid"
  by (auto simp: BeginEnroll_def FinishEnroll_def Disable_def RegenerateRecoveryCodes_def AdminResetTOTP_def Let_def
      totp_Set_def totp_Delete_def codes_left_def split: sum.split option.split)

lemma verify_codes: "codes_left (fst (VerifyForLogin cfg bc f st u code now)) uid \<le> codes_left st uid"
proof (cases "totp_Get f st u")
  case (Inr row)
  then have row: "ts_rows st u = Some row" by (auto simp: totp_Get_def split: if_splits option.splits)
  have "codes_left (fst (verify_row cfg bc f st u row code now)) uid \<le> codes_left st uid"
    using row by (auto simp: verify_row_def markReplay_def totp_Set_def codes_left_def Let_def
        split: option.split prod.split dest: find_code_bound)
  then show ?thesis using Inr by (simp add: VerifyForLogin_def)
qed (simp add: VerifyForLogin_def)

lemma verify_spends:
  assumes "snd (verify_row cfg bc f st uid row c now) = None" "ts_rows st uid = Some row"
    and "tc_Secret cfg (ut_Secret row) = Some secret" "\<not> tc_Verify cfg secret (trim_space c) now"
  shows "codes_left (fst (verify_row cfg bc f st uid row c now)) uid < codes_left st uid"
  using assms by (auto simp: verify_row_def totp_Set_def codes_left_def Let_def split: if_splits option.splits dest: find_code_bound)

lemma finish_codes: "codes_left (tw_totp (fst (handleFinish env f w req now))) uid \<le> codes_left (tw_totp w) uid"
proof (cases "finish_request (lq_Body req)")
  case (Some sc)
  obtain sid code where sc: "sc = (sid, code)" by fastforce
  obtain st1 o1 where c1: "ConsumePending (tw_totp w) sid now = (st1, o1)" by fastforce
  then have same: "codes_left st1 uid = codes_left (tw_totp w) uid"
    by (auto simp: ConsumePending_def codes_left_def split: option.splits)
  have "tw_totp (fst (handleFinish env f w req now)) \<in> {tw_totp w, st1} \<union>
      range (\<lambda>uid. fst (VerifyForLogin (me_cfg env) (me_bcrypt env) f st1 uid code now))"
    using Some sc c1 by (auto simp: handleFinish_def image_iff split: option.split prod.split) (metis fst_conv)+
  then show ?thesis using same verify_codes [of "me_cfg env" "me_bcrypt env" f st1 _ code now uid] by auto
qed (simp add: handleFinish_def)

lemma signed_in_spends:
  assumes "tf_step env f now op w = (w', r)" "signed_in env (Event now op w r) uid code False"
  shows "codes_left (tw_totp w') uid < codes_left (tw_totp w) uid"
proof -
  obtain req sid0 ident sid c row secret where op: "op = OpLogin req sid0" "r = Some (LContinue ident)" "lq_Method req = ''POST''"
      "isMFAFinishBody (lq_Body req)" "finish_request (lq_Body req) = Some (sid, c)" "trim_space c = code"
      "resolveUserID (tw_users w) ident = Some uid" "ts_rows (tw_totp w) uid = Some row"
      "tc_Secret (me_cfg env) (ut_Secret row) = Some secret" "\<not> tc_Verify (me_cfg env) secret code now"
    using assms(2) unfolding signed_in_iff by auto
  obtain st1 where same: "ts_rows st1 = ts_rows (tw_totp w)"
    and v: "VerifyForLogin (me_cfg env) (me_bcrypt env) f st1 uid c now = (tw_totp w', None)"
    using finish_verified [OF assms(1)] op by metis
  have r: "verify_row (me_cfg env) (me_bcrypt env) f st1 uid row c now = (tw_totp w', None)"
    using v op(8) same by (auto simp: VerifyForLogin_def totp_Get_def split: if_splits)
  then have "codes_left (tw_totp w') uid < codes_left st1 uid"
    using verify_spends [of "me_cfg env" "me_bcrypt env" f st1 uid row c now secret] op same by simp
  then show ?thesis using same by (simp add: codes_left_def)
qed

lemma step_codes:
  assumes "tf_step env f now op w = (w', r)" "\<not> issues_codes op uid"
  shows "codes_left (tw_totp w') uid \<le> codes_left (tw_totp w) uid"
proof (cases op)
  case (OpLogin req sid)
  then have w': "w' = fst (Login env f w req sid now)" using assms(1) by (auto simp: tf_step_def split: prod.splits)
  have "ts_rows (tw_totp (fst (handleBegin env f w req sid now))) = ts_rows (tw_totp w)"
    by (simp add: handleBegin_def SavePending_def Let_def split: prod.split inner_outcome.split option.split sum.split)
  moreover have "tw_totp w' = tw_totp w" if "lq_Method req \<noteq> ''POST''"
    using that by (simp add: w' Login_def split: prod.split inner_outcome.split option.split)
  ultimately show ?thesis using finish_codes [of env f w req now uid] by (auto simp: w' Login_def codes_left_def)
qed (use assms in \<open>auto simp: tf_step_def Let_def issues_codes_def totp_gc_def NewTOTPService_def codes_left_def
    intro: enrollment_codes [unfolded codes_left_def]\<close>)

lemma tf_run_codes:
  "tf_run env w t tr \<Longrightarrow> tr = es @ e # es1 \<Longrightarrow> \<forall>x\<in>set (e # es1). \<not> issues_codes (ev_op x) uid \<Longrightarrow>
   length (filter (recovery_login env uid) (e # es1)) + codes_left (tw_totp w) uid \<le> codes_left (tw_totp (ev_world e)) uid"
proof (induction arbitrary: es1 rule: tf_run.induct)
  case (run_op w t tr now f op w' r)
  let ?n = "if recovery_login env uid (Event now op w r) then 1 else 0 :: nat"
  have spend: "?n + codes_left (tw_totp w') uid \<le> codes_left (tw_totp w) uid" if "\<not> issues_codes op uid"
    using signed_in_spends [OF run_op.hyps(3), of uid] step_codes [OF run_op.hyps(3) that] by (fastforce simp: recovery_login_def)
  show ?case
  proof (cases es1 rule: rev_cases)
    case Nil
    then have "e = Event now op w r" using run_op.prems(1) by simp
    then show ?thesis using spend run_op.prems(2) Nil
      by (cases "recovery_login env uid (Event now op w r)") simp_all
  next
    case (snoc es2 x)
    then have x: "x = Event now op w r" "tr = es @ e # es2" using run_op.prems(1) by simp_all
    then show ?thesis using run_op.IH [of es2] run_op.prems(2) snoc spend
      by (cases "recovery_login env uid (Event now op w r)") auto
  qed
qed simp_all

text \<open>
  C20: recovery codes are spent.  In a run of operations that do not overlap, and during which no new codes are handed out
  to the user (no enrollment is finished, no codes are regenerated), no more sign-ins with recovery codes succeed than the
  user had codes when the run began.  Two sign-ins that overlap can spend one code: \<open>stale_enrollment_accepted\<close>.
\<close>

theorem recovery_codes_spent:
  assumes "tf_run env w t (es @ e # es1)" "\<forall>x\<in>set (e # es1). \<not> issues_codes (ev_op x) uid"
  shows "length (filter (recovery_login env uid) (e # es1)) \<le> codes_left (tw_totp (ev_world e)) uid"
  using tf_run_codes [OF assms(1) refl assms(2)] by simp

text \<open>
  Two recovery sign-ins at once spend one code.  Each reads the enrollment, then compares and writes it back; when
  both have read it before either writes, both succeed with the same code.  A deletion of the enrollment between the
  reading and the writing of a sign-in is undone by it.
\<close>

theorem stale_enrollment_accepted:
  assumes "ut_Enabled row" "trim_space code \<noteq> []" "tc_Secret cfg (ut_Secret row) = Some secret" "\<not> tc_Verify cfg secret (trim_space code) now"
    and "h \<in> set (ut_RecoveryCodes row)" "bc_check bc h (to_lower (trim_space code))" "\<not> tf_set f"
  shows "\<exists>st1 st2. verify_row cfg bc f st uid row code now = (st1, None) \<and> verify_row cfg bc f st1 uid row code now = (st2, None) \<and>
    (\<exists>st3. verify_row cfg bc f (fst (totp_Delete f st1 uid)) uid row code now = (st3, None) \<and> ts_rows st3 uid \<noteq> None)"
proof -
  have "find_code p hs \<noteq> None" if "h \<in> set hs" "p h" for p hs using that by (induction hs) auto
  then obtain i where "find_code (\<lambda>h. bc_check bc h (to_lower (trim_space code))) (ut_RecoveryCodes row) = Some i"
    using assms(5,6) by fastforce
  then show ?thesis using assms by (simp add: verify_row_def totp_Set_def Let_def)
qed

text \<open>
  The code that finished an enrollment signs in.  \<open>FinishEnroll\<close> does not mark the code as used, and the enrollment is
  enabled when it returns: the same code signs the user in for as long as the algorithm accepts it.  The codes used are
  also forgotten when the settings are reloaded.
\<close>

theorem enrollment_code_signs_in:
  assumes "FinishEnroll cfg bc f st uid code random now = (st', Ok codes)" "trim_space code = code" "code \<noteq> []"
    and "ts_rows st uid = Some row" "tc_Secret cfg (ut_Secret row) = Some secret" "tc_Verify cfg secret code later" "\<not> tf_get f"
    and "st1 = st' \<and> ts_replay st (replay_key uid code) = None \<or> st1 = NewTOTPService (ts_rows st')"
  shows "snd (VerifyForLogin cfg bc f st1 uid code later) = None"
proof -
  have row: "ts_rows st' uid = Some (row\<lparr>ut_Enabled := True, ut_RecoveryCodes := map snd (the (newRecoveryCodes bc random)),
      ut_LastUsedAt := Some (totp_now now)\<rparr>)" "ts_replay st' = ts_replay st"
    using assms(1,4,7) by (auto simp: FinishEnroll_def totp_Get_def totp_Set_def split: if_splits option.splits prod.splits)
  then have "ts_rows st1 uid = ts_rows st' uid" "ts_replay st1 (replay_key uid code) = None"
    using assms(8) by (auto simp: NewTOTPService_def)
  then show ?thesis using row assms(2-7)
    by (simp add: VerifyForLogin_def totp_Get_def verify_row_def markReplay_def Let_def)
qed

section \<open>A run\<close>

text \<open>The operations executed in order, with the events they give.\<close>

fun tf_exec :: "mfa_env \<Rightarrow> tf_world \<Rightarrow> (unix_time \<times> tf_op) list \<Rightarrow> tf_event list" where
  "tf_exec env w [] = []"
| "tf_exec env w ((now, op) # ops) = (case tf_step env \<lparr>tf_get = False, tf_set = False, tf_delete = False\<rparr> now op w of
     (w', r) \<Rightarrow> Event now op w r # tf_exec env w' ops)"

lemma tf_exec_run:
  "tf_run env w t es \<Longrightarrow> sorted (t # map fst ops) \<Longrightarrow> \<exists>w' t'. tf_run env w' t' (es @ tf_exec env w ops)"
proof (induction ops arbitrary: w t es)
  case (Cons x ops)
  obtain now op where x: "x = (now, op)" by fastforce
  obtain w' r where s: "tf_step env \<lparr>tf_get = False, tf_set = False, tf_delete = False\<rparr> now op w = (w', r)" by fastforce
  have "tf_run env w' now (es @ [Event now op w r])" using run_op [OF Cons.prems(1) _ s] Cons.prems(2) x by simp
  then show ?case using Cons.IH [of w' now "es @ [Event now op w r]"] Cons.prems(2) x s by simp
qed auto

definition demo_inner :: "user_db \<Rightarrow> login_request \<Rightarrow> user_db \<times> inner_outcome" where
  "demo_inner db req = (case request_creds req of
     Some (u, p) \<Rightarrow> (case VerifyIdentity demo_bcrypt db u p of
         (db', Inr ident) \<Rightarrow> if lq_Method req = ''POST'' then (db', InContinue (Some ident)) else (db, InFailed)
       | (db', Inl _) \<Rightarrow> (db, InFailed))
   | None \<Rightarrow> (db, InFailed))"

definition demo_mfa :: mfa_env where
  "demo_mfa = \<lparr>me_coord = True, me_cfg = \<lparr>tc_Period = 30 * 10 ^ 9, tc_Skew = 1, tc_Verify = (\<lambda>_ code _. code = ''123456''), tc_Secret = Some\<rparr>,
     me_bcrypt = demo_bcrypt, me_inner = demo_inner, me_marshal = (\<lambda>ident. Some (id_Subject ident)),
     me_unmarshal = (\<lambda>s. Some \<lparr>id_Subject = s, id_Provider = ''local'', id_Roles = [], id_Scopes = [], id_Claims = [], id_TokenScopes = []\<rparr>)\<rparr>"

definition demo_ann :: account where
  "demo_ann = \<lparr>ac_ID = ''u1'', ac_Username = ''ann'', ac_PasswordHash = rev ''secret99'', ac_Email = [], ac_DisplayName = [],
     ac_External = False, ac_Disabled = False, ac_IsSuperadmin = True, ac_Denied = [], ac_CreatedAt = 0\<rparr>"

definition demo_tf :: tf_world where
  "demo_tf = \<lparr>tw_users = \<lparr>ud_users = [demo_ann], ud_links = [], ud_sessions = []\<rparr>,
     tw_totp = NewTOTPService [''u1'' \<mapsto> \<lparr>ut_Secret = ''k'', ut_Enabled = True, ut_RecoveryCodes = [rev ''aaaa-bbbb-cccc''],
       ut_CreatedAt = 0, ut_LastUsedAt = None\<rparr>]\<rparr>"

definition demo_phase1 :: login_request where
  "demo_phase1 = \<lparr>lq_Method = ''POST'', lq_Body = Some (JObj [(''username'', JStr ''ann''), (''password'', JStr ''secret99'')]), lq_Form = []\<rparr>"

definition demo_phase2 :: "string \<Rightarrow> string \<Rightarrow> login_request" where
  "demo_phase2 sid code = \<lparr>lq_Method = ''POST'', lq_Body = Some (JObj [(''totp_session_id'', JStr sid), (''code'', JStr code)]), lq_Form = []\<rparr>"

definition demo_ops :: "(unix_time \<times> tf_op) list" where
  "demo_ops = [(0, OpLogin demo_phase1 ''s1''), (10, OpLogin (demo_phase2 ''s1'' ''123456'') []),
     (100 * 10 ^ 9, OpLogin demo_phase1 ''s2''), (110 * 10 ^ 9, OpLogin (demo_phase2 ''s2'' ''123456'') []),
     (110 * 10 ^ 9, OpLogin demo_phase1 ''s3''), (120 * 10 ^ 9, OpLogin (demo_phase2 ''s3'' ''AAAA-bbbb-cccc'') [])]"

definition demo_events :: "tf_event list" where "demo_events = tf_exec demo_mfa demo_tf demo_ops"

lemma demo_run: "\<exists>w t. tf_run demo_mfa w t demo_events"
proof -
  have "user_inv (tw_users demo_tf)" by (auto simp: demo_tf_def demo_ann_def db_wf_def has_admin_def is_admin_def)
  then have "tf_run demo_mfa demo_tf 0 []"
    using run_start [of "tw_users demo_tf" demo_mfa "ts_rows (tw_totp demo_tf)" 0] by (simp add: demo_tf_def NewTOTPService_def)
  then show ?thesis using tf_exec_run [of demo_mfa demo_tf 0 "[]" demo_ops] by (simp add: demo_events_def demo_ops_def)
qed

lemma demo_shape: "demo_events = take 1 demo_events @ demo_events ! 1 # drop 2 demo_events"
  "demo_events = take 1 demo_events @ demo_events ! 1 # [demo_events ! 2] @ demo_events ! 3 # drop 4 demo_events"
  "demo_events = [] @ demo_events ! 0 # drop 1 demo_events"
  and demo_length: "length demo_events = 6"
proof -
  show l: "length demo_events = 6" by code_simp
  then obtain a b c d e f where ev: "demo_events = [a, b, c, d, e, f]"
    by (auto simp: numeral_eq_Suc length_Suc_conv)
  show "demo_events = take 1 demo_events @ demo_events ! 1 # drop 2 demo_events"
    "demo_events = take 1 demo_events @ demo_events ! 1 # [demo_events ! 2] @ demo_events ! 3 # drop 4 demo_events"
    "demo_events = [] @ demo_events ! 0 # drop 1 demo_events" unfolding ev by (simp_all add: numeral_eq_Suc)
qed

lemma demo_inner_local: "inner_local demo_mfa"
  by (auto simp: inner_local_def demo_mfa_def demo_inner_def
      split: option.split inner_outcome.split prod.split sum.split if_split)

lemma demo_results:
  "map ev_result demo_events = (let ann = LContinue \<lparr>id_Subject = ''ann'', id_Provider = ''local'', id_Roles = [], id_Scopes = [],
      id_Claims = [], id_TokenScopes = []\<rparr>
    in [Some (LChallenge ''s1''), Some ann, Some (LChallenge ''s2''), Some ann, Some (LChallenge ''s3''), Some ann])"
  by code_simp

lemma second_factor_required_witness:
  "\<exists>sid code t1 req1 w1 u p db1 ident1 j.
    finish_request (lq_Body (demo_phase2 ''s1'' ''123456'')) = Some (sid, code) \<and>
    code_accepted demo_mfa (tw_totp (ev_world (demo_events ! 1))) ''u1'' (the (ts_rows (tw_totp demo_tf) ''u1'')) code 10 \<and>
    Event t1 (OpLogin req1 sid) w1 (Some (LChallenge sid)) \<in> set (take 1 demo_events) \<and> t1 \<le> 10 \<and> 10 \<le> t1 + 300 * 10 ^ 9 \<and>
    request_creds req1 = Some (u, p) \<and> VerifyIdentity (me_bcrypt demo_mfa) (tw_users w1) u p = (db1, Ok ident1) \<and> me_marshal demo_mfa ident1 = Some j \<and>
    me_unmarshal demo_mfa j = Some (the (me_unmarshal demo_mfa ''ann''))"
proof -
  let ?ann = "the (me_unmarshal demo_mfa ''ann'')"
  have e: "demo_events ! 1 = Event 10 (OpLogin (demo_phase2 ''s1'' ''123456'') []) (ev_world (demo_events ! 1)) (Some (LContinue ?ann))"
  proof -
    have "ev_time (demo_events ! 1) = 10" "ev_op (demo_events ! 1) = OpLogin (demo_phase2 ''s1'' ''123456'') []"
      "ev_result (demo_events ! 1) = Some (LContinue ?ann)" by code_simp+
    then show ?thesis by (metis tf_event.collapse)
  qed
  obtain w t where run: "tf_run demo_mfa w t demo_events" using demo_run by blast
  have r: "tf_run demo_mfa w t (take 1 demo_events @ Event 10 (OpLogin (demo_phase2 ''s1'' ''123456'') []) (ev_world (demo_events ! 1))
      (Some (LContinue ?ann)) # drop 2 demo_events)"
    using run demo_shape(1) e by simp
  have facts: "me_coord demo_mfa" "GetByUsername (tw_users (ev_world (demo_events ! 1))) (id_Subject ?ann) = Ok demo_ann"
    "ts_rows (tw_totp (ev_world (demo_events ! 1))) (ac_ID demo_ann) = Some (the (ts_rows (tw_totp demo_tf) ''u1''))"
    "ut_Enabled (the (ts_rows (tw_totp demo_tf) ''u1''))" "ac_ID demo_ann = ''u1''" by code_simp+
  show ?thesis using second_factor_required [OF demo_inner_local facts(1) r facts(2,3,4)] unfolding facts(5) .
qed

lemma code_signs_in_once_witness:
  "ev_time (demo_events ! 1) + replay_ttl (me_cfg demo_mfa) \<le> ev_time (demo_events ! 3) \<and>
    \<not> (\<exists>k. step_window (me_cfg demo_mfa) k (ev_time (demo_events ! 1)) \<and> step_window (me_cfg demo_mfa) k (ev_time (demo_events ! 3)))"
proof -
  obtain w t where run: "tf_run demo_mfa w t demo_events" using demo_run by blast
  have s: "\<forall>e\<in>set [demo_events ! 2]. ev_op e \<noteq> OpReload" "signed_in demo_mfa (demo_events ! 1) ''u1'' ''123456'' True"
    "signed_in demo_mfa (demo_events ! 3) ''u1'' ''123456'' True" by code_simp+
  show ?thesis using code_signs_in_once [OF _ s] run demo_shape(2) by metis
qed

lemma recovery_codes_spent_witness:
  "length (filter (recovery_login demo_mfa ''u1'') demo_events) \<le> 1 \<and> recovery_login demo_mfa ''u1'' (demo_events ! 5)"
proof -
  obtain w t where run: "tf_run demo_mfa w t demo_events" using demo_run by blast
  have split: "demo_events ! 0 # drop 1 demo_events = demo_events" using demo_shape(3) by simp
  have s: "\<forall>x\<in>set (demo_events ! 0 # drop 1 demo_events). \<not> issues_codes (ev_op x) ''u1''" by code_simp
  have n: "codes_left (tw_totp (ev_world (demo_events ! 0))) ''u1'' = 1" "signed_in demo_mfa (demo_events ! 5) ''u1'' ''AAAA-bbbb-cccc'' False" by code_simp+
  show ?thesis using recovery_codes_spent [of demo_mfa w t "[]" "demo_events ! 0" "drop 1 demo_events", OF _ s] run n
    unfolding split by (auto simp: recovery_login_def)
qed

lemma stale_enrollment_accepted_witness:
  "let row = the (ts_rows (tw_totp demo_tf) ''u1''); f = \<lparr>tf_get = False, tf_set = False, tf_delete = False\<rparr>;
       go = (\<lambda>st. verify_row (me_cfg demo_mfa) demo_bcrypt f st ''u1'' row ''aaaa-bbbb-cccc'' 0)
   in \<exists>st1 st2. go (tw_totp demo_tf) = (st1, None) \<and> go st1 = (st2, None) \<and>
      (\<exists>st3. go (fst (totp_Delete f st1 ''u1'')) = (st3, None) \<and> ts_rows st3 ''u1'' \<noteq> None)"
proof -
  let ?row = "the (ts_rows (tw_totp demo_tf) ''u1'')" and ?f = "\<lparr>tf_get = False, tf_set = False, tf_delete = False\<rparr>"
  have s: "ut_Enabled ?row" "trim_space ''aaaa-bbbb-cccc'' \<noteq> []" "tc_Secret (me_cfg demo_mfa) (ut_Secret ?row) = Some ''k''"
    "\<not> tc_Verify (me_cfg demo_mfa) ''k'' (trim_space ''aaaa-bbbb-cccc'') 0" "rev ''aaaa-bbbb-cccc'' \<in> set (ut_RecoveryCodes ?row)"
    "bc_check demo_bcrypt (rev ''aaaa-bbbb-cccc'') (to_lower (trim_space ''aaaa-bbbb-cccc''))" "\<not> tf_set ?f" by code_simp+
  show ?thesis unfolding Let_def by (rule stale_enrollment_accepted [OF s])
qed

lemma enrollment_code_signs_in_witness:
  "let f = \<lparr>tf_get = False, tf_set = False, tf_delete = False\<rparr>;
       st = NewTOTPService [''u1'' \<mapsto> \<lparr>ut_Secret = ''k'', ut_Enabled = False, ut_RecoveryCodes = [], ut_CreatedAt = 0, ut_LastUsedAt = None\<rparr>];
       (st', r) = FinishEnroll (me_cfg demo_mfa) demo_bcrypt f st ''u1'' ''123456'' [] 0
   in snd (VerifyForLogin (me_cfg demo_mfa) demo_bcrypt f st' ''u1'' ''123456'' 0) = None"
proof -
  let ?f = "\<lparr>tf_get = False, tf_set = False, tf_delete = False\<rparr>"
  let ?row = "\<lparr>ut_Secret = ''k'', ut_Enabled = False, ut_RecoveryCodes = [], ut_CreatedAt = 0, ut_LastUsedAt = None\<rparr>"
  let ?st = "NewTOTPService [''u1'' \<mapsto> ?row]"
  obtain st' r where p: "FinishEnroll (me_cfg demo_mfa) demo_bcrypt ?f ?st ''u1'' ''123456'' [] 0 = (st', r)" by fastforce
  have "snd (FinishEnroll (me_cfg demo_mfa) demo_bcrypt ?f ?st ''u1'' ''123456'' [] 0) = Ok []" by code_simp
  then have q: "FinishEnroll (me_cfg demo_mfa) demo_bcrypt ?f ?st ''u1'' ''123456'' [] 0 = (st', Ok [])" using p by simp
  have s: "trim_space ''123456'' = ''123456''" "''123456'' \<noteq> []" "ts_rows ?st ''u1'' = Some ?row"
    "tc_Secret (me_cfg demo_mfa) (ut_Secret ?row) = Some ''k''" "tc_Verify (me_cfg demo_mfa) ''k'' ''123456'' 0" "\<not> tf_get ?f" by code_simp+
  have "ts_replay ?st (replay_key ''u1'' ''123456'') = None" by (simp add: NewTOTPService_def)
  then have "snd (VerifyForLogin (me_cfg demo_mfa) demo_bcrypt ?f st' ''u1'' ''123456'' 0) = None"
    using enrollment_code_signs_in [OF q s, of st'] by simp
  then show ?thesis using p by simp
qed

end
