(* ===== verification/Login_Guard.thy ===== *)
theory Login_Guard
  imports Mfa_Login
begin

text \<open>
  What counts against a client that guesses: \<open>internal/server/authx/login_guard.go\<close> and \<open>ip.go\<close>.  The counters are the
  ada library's; here is which requests they see, under which keys, and which answers count.  The parsing of addresses
  and of forms is \<open>nl_ip\<close>, \<open>nl_hostport\<close>, \<open>nl_contains\<close> and \<open>nl_form\<close>.
\<close>

record net_lib =
  nl_ip :: "string \<Rightarrow> bool"
  nl_hostport :: "string \<Rightarrow> string option"
  nl_contains :: "string \<Rightarrow> string \<Rightarrow> bool"
  nl_form :: "string \<Rightarrow> (string \<rightharpoonup> string) option"

text \<open>The body is cut at 64 KiB before it is parsed: \<open>gq_Body\<close> is that part, \<open>gq_Json\<close> what it decodes to.\<close>

record guard_request =
  gq_Method :: string
  gq_Path :: string
  gq_RemoteAddr :: string
  gq_Header :: "string \<Rightarrow> string"
  gq_Body :: string
  gq_Json :: "json option"

definition shouldGuard :: "guard_request \<Rightarrow> bool" where
  "shouldGuard req \<longleftrightarrow> gq_Method req = ''POST'' \<and> (contains (gq_Path req) ''/login/pass/'' \<or> contains (gq_Path req) ''/login/register/'')"

definition shouldCountStatus :: "nat \<Rightarrow> bool" where
  "shouldCountStatus status \<longleftrightarrow> status = 401 \<or> status = 400"

text \<open>The last of several members with one key counts when a JSON object becomes a map.\<close>

definition userKeyFromBody :: "net_lib \<Rightarrow> guard_request \<Rightarrow> string list" where
  "userKeyFromBody nl req = (let contentType = gq_Header req ''Content-Type'';
       key = (\<lambda>username. let u = to_lower (trim_space username) in if u = [] then [] else [''user:'' @ u])
     in if has_prefix contentType ''application/json'' then
          (case gq_Json req of
             Some (JObj kvs) \<Rightarrow> key (case map_of (rev kvs) ''username'' of Some (JStr s) \<Rightarrow> s | _ \<Rightarrow> [])
           | _ \<Rightarrow> [])
        else if has_prefix contentType ''application/x-www-form-urlencoded'' then
          (case nl_form nl (gq_Body req) of None \<Rightarrow> [] | Some vals \<Rightarrow> key (case vals ''username'' of Some s \<Rightarrow> s | None \<Rightarrow> []))
        else [])"

definition remoteHost :: "net_lib \<Rightarrow> guard_request \<Rightarrow> string" where
  "remoteHost nl req = (if gq_RemoteAddr req = [] then []
     else case nl_hostport nl (gq_RemoteAddr req) of Some host \<Rightarrow> host
       | None \<Rightarrow> if nl_ip nl (gq_RemoteAddr req) then gq_RemoteAddr req else [])"

definition isTrustedPeer :: "net_lib \<Rightarrow> string \<Rightarrow> string list \<Rightarrow> bool" where
  "isTrustedPeer nl ip trusted \<longleftrightarrow> trusted \<noteq> [] \<and> nl_ip nl ip \<and> list_ex (\<lambda>n. nl_contains nl n ip) trusted"

definition ClientIP :: "net_lib \<Rightarrow> guard_request \<Rightarrow> string list \<Rightarrow> string" where
  "ClientIP nl req trusted = (let peer = remoteHost nl req;
       real = trim_space (gq_Header req ''X-Real-IP''); true_client = trim_space (gq_Header req ''True-Client-IP'');
       xff = gq_Header req ''X-Forwarded-For''; hop = trim_space (fst (cut xff CHR '',''))
     in if peer = [] then []
        else if \<not> isTrustedPeer nl peer trusted then peer
        else if true_client \<noteq> [] \<and> nl_ip nl true_client then true_client
        else if real \<noteq> [] \<and> nl_ip nl real then real
        else if xff \<noteq> [] \<and> nl_ip nl hop then hop
        else peer)"

text \<open>The keys under which an answer counts: the guard for addresses around the guard for user names.\<close>

definition counted_keys :: "net_lib \<Rightarrow> string list \<Rightarrow> guard_request \<Rightarrow> nat \<Rightarrow> string list" where
  "counted_keys nl trusted req status =
     (if shouldGuard req \<and> shouldCountStatus status
      then (let ip = ClientIP nl req trusted in (if ip = [] then [] else [''ip:'' @ ip]) @ userKeyFromBody nl req) else [])"

section \<open>Properties\<close>

text \<open>
  Guesses of the second factor count for no user name: the body that answers a challenge carries the challenge and the
  code, so a wrong code counts for the address only, and the challenge itself, which each guess needs anew, counts for
  nothing.
\<close>

lemma second_factor_uncounted:
  "gq_Json req = Some (JObj [(''totp_session_id'', JStr sid), (''code'', JStr code)]) \<Longrightarrow>
   has_prefix (gq_Header req ''Content-Type'') ''application/json'' \<Longrightarrow>
   set (counted_keys nl trusted req status) \<subseteq> {''ip:'' @ ClientIP nl req trusted} \<and> counted_keys nl trusted req 200 = []"
  by (auto simp: counted_keys_def userKeyFromBody_def shouldCountStatus_def Let_def)

text \<open>Peers that are not trusted are counted by their own address, whatever headers they send.\<close>

lemma untrusted_peer_counted: "\<not> isTrustedPeer nl (remoteHost nl req) trusted \<Longrightarrow> ClientIP nl req trusted = remoteHost nl req"
  by (simp add: ClientIP_def Let_def)

text \<open>
  Behind a trusted proxy that appends to \<open>X-Forwarded-For\<close>, a client chooses the address it is counted under: the first
  entry of the list is what it sent itself.
\<close>

lemma forwarded_address_chosen:
  assumes "isTrustedPeer nl (remoteHost nl req) trusted" "remoteHost nl req \<noteq> []"
    and "gq_Header req ''X-Forwarded-For'' = claimed @ '', '' @ appended" "CHR '','' \<notin> set claimed" "trim_space claimed = claimed" "nl_ip nl claimed"
    and "gq_Header req ''X-Real-IP'' = []" "gq_Header req ''True-Client-IP'' = []"
  shows "ClientIP nl req trusted = claimed"
proof -
  have "fst (cut (claimed @ '', '' @ appended) CHR '','') = claimed"
    using assms(4) by (simp add: cut_def index_byte_append)
  then show ?thesis using assms by (simp add: ClientIP_def Let_def)
qed

end
