(* ===== verification/Url_Hex.thy ===== *)
theory Url_Hex
  imports Go_Prelude
begin

text \<open>
  \<open>encoding/hex\<close>, the percent escapes of \<open>net/url\<close> and \<open>strconv.ParseInt\<close>, as the npm registry and the S3
  server use them.
\<close>

text \<open>\<open>url.PathUnescape\<close>.\<close>

definition hex_value :: "char \<Rightarrow> nat option" where
  "hex_value c = (if is_digit c then Some (digit_val c)
     else if CHR ''a'' \<le> c \<and> c \<le> CHR ''f'' then Some (of_char c - 87)
     else if CHR ''A'' \<le> c \<and> c \<le> CHR ''F'' then Some (of_char c - 55) else None)"

fun PathUnescape :: "string \<Rightarrow> string option" where
  "PathUnescape [] = Some []"
| "PathUnescape (c # s) =
     (if c = CHR ''%'' then
        (case s of a # b # r \<Rightarrow> (case (hex_value a, hex_value b) of
            (Some x, Some y) \<Rightarrow> map_option ((#) (char_of (16 * x + y))) (PathUnescape r) | _ \<Rightarrow> None)
         | _ \<Rightarrow> None)
      else map_option ((#) c) (PathUnescape s))"

definition hex_digits :: string where "hex_digits = ''0123456789abcdef''"

definition hex_string :: "string \<Rightarrow> string" where
  "hex_string s = concat (map (\<lambda>ch. [hex_digits ! (of_char ch div 16), hex_digits ! (of_char ch mod 16)]) s)"

fun hex_decode :: "string \<Rightarrow> string option" where
  "hex_decode [] = Some []"
| "hex_decode (a # b # r) = (case (hex_value a, hex_value b) of
     (Some x, Some y) \<Rightarrow> map_option ((#) (char_of (16 * x + y))) (hex_decode r) | _ \<Rightarrow> None)"
| "hex_decode _ = None"

text \<open>\<open>strconv.ParseInt\<close> with 64 bits and a base of at most 16.\<close>

fun digits_value :: "int \<Rightarrow> int \<Rightarrow> string \<Rightarrow> int option" where
  "digits_value base acc [] = Some acc"
| "digits_value base acc (c # cs) = (case hex_value c of None \<Rightarrow> None
     | Some d \<Rightarrow> if int d < base then digits_value base (acc * base + int d) cs else None)"

definition ParseInt :: "int \<Rightarrow> string \<Rightarrow> int option" where
  "ParseInt base s = (let neg = has_prefix s ''-''; t = (if neg \<or> has_prefix s ''+'' then drop 1 s else s)
     in if t = [] then None
        else case digits_value base 0 t of None \<Rightarrow> None
        | Some v \<Rightarrow> if neg then (if v \<le> 2 ^ 63 then Some (- v) else None) else if v < 2 ^ 63 then Some v else None)"

end
