(* ===== verification/Npm_Store.thy ===== *)
theory Npm_Store
  imports Pkg_Store Json Base64 Url_Hex
begin

text \<open>
  The storage of the npm registry: names and routes (\<open>internal/registry/npm/name.go\<close>, \<open>handler.go\<close>), the store
  (\<open>store.go\<close>) and the packument with its cache (\<open>packument.go\<close>, \<open>extensions.go\<close>).  JSON is written and read by
  \<open>nc_enc\<close> and \<open>nc_dec\<close>; an object is its list of members, in which a map of Go has each key once.  The store is
  that of \<open>Pkg_Store\<close>, but npm joins its paths itself.
\<close>

section \<open>Names and routes\<close>

definition validateBareName :: "string \<Rightarrow> bool" where
  "validateBareName s \<longleftrightarrow> s \<noteq> [] \<and> hd s \<noteq> CHR ''.'' \<and> hd s \<noteq> CHR ''_'' \<and>
     list_all (\<lambda>c. is_lower c \<or> is_digit c \<or> c = CHR ''-'' \<or> c = CHR ''_'' \<or> c = CHR ''.'') s"

definition ValidatePackageName :: "string \<Rightarrow> bool" where
  "ValidatePackageName name \<longleftrightarrow> name \<noteq> [] \<and> length name \<le> 214 \<and>
     (if has_prefix name ''@'' then
        (case index_byte name CHR ''/'' of None \<Rightarrow> False
         | Some slash \<Rightarrow> slash > 1 \<and> slash \<noteq> length name - 1 \<and>
             validateBareName (drop 1 (take slash name)) \<and> validateBareName (drop (Suc slash) name))
      else validateBareName name)"

fun index_str :: "string \<Rightarrow> string \<Rightarrow> nat option" where
  "index_str [] p = (if p = [] then Some 0 else None)"
| "index_str (c # s) p = (if has_prefix (c # s) p then Some 0 else map_option Suc (index_str s p))"

definition joinScope :: "string \<Rightarrow> string \<Rightarrow> string" where
  "joinScope scope name = (if has_prefix scope ''@'' then scope else CHR ''@'' # scope) @ CHR ''/'' # name"

text \<open>The name and the rest of the path after the scope.\<close>

definition scoped_rest :: "string \<Rightarrow> string \<Rightarrow> (string \<times> string) option" where
  "scoped_rest scope afterScope = (case index_byte afterScope CHR ''/'' of
     None \<Rightarrow> if afterScope = [] then None else Some (joinScope scope afterScope, [])
   | Some slash \<Rightarrow> if slash = 0 then None else Some (joinScope scope (take slash afterScope), drop slash afterScope))"

definition ParseNameFromPath :: "string \<Rightarrow> (string \<times> string) option" where
  "ParseNameFromPath path = (if \<not> has_prefix path ''/'' then None
     else let p = drop 1 path in
       if p = [] then None
       else if has_prefix p ''@'' then
         (case index_str p ''%2F'' of
            Some idx \<Rightarrow> if idx > 0 then scoped_rest (take idx p) (drop (idx + 3) p)
              else (case index_byte p CHR ''/'' of None \<Rightarrow> None | Some slash \<Rightarrow> scoped_rest (take slash p) (drop (Suc slash) p))
          | None \<Rightarrow> (case index_byte p CHR ''/'' of None \<Rightarrow> None | Some slash \<Rightarrow> scoped_rest (take slash p) (drop (Suc slash) p)))
       else (case index_byte p CHR ''/'' of None \<Rightarrow> Some (p, []) | Some slash \<Rightarrow> Some (take slash p, drop slash p)))"

definition NormalizeNameFromURL :: "string \<Rightarrow> string" where
  "NormalizeNameFromURL name = (case PathUnescape name of Some dec \<Rightarrow> dec | None \<Rightarrow> name)"

datatype npm_request = NpmPackument string | NpmTarball string string | NpmPublish string | NpmSearch | NpmWhoami | NpmAudit
  | NpmDistTags string | NpmDistTagSet string string | NpmDistTagDel string string | NpmUnknown

definition npm_classifyDash :: "string \<Rightarrow> string \<Rightarrow> npm_request" where
  "npm_classifyDash meth p =
     (if p = ''/-/npm/v1/security/advisories/bulk'' \<or> p = ''/-/npm/v1/security/audits/quick'' then NpmAudit
      else if p = ''/-/whoami'' \<and> (meth = ''GET'' \<or> meth = ''HEAD'') then NpmWhoami
      else if has_prefix p ''/-/v1/search'' then NpmSearch
      else if has_prefix p ''/-/package/'' then
        (let rest = trim_prefix p ''/-/package/'' in case index_str rest ''/dist-tags'' of None \<Rightarrow> NpmUnknown
         | Some dt \<Rightarrow> let name = NormalizeNameFromURL (take dt rest); tail = drop (dt + 10) rest in
             if \<not> ValidatePackageName name then NpmUnknown
             else if tail = [] then (if meth = ''GET'' \<or> meth = ''HEAD'' then NpmDistTags name else NpmUnknown)
             else if \<not> has_prefix tail ''/'' \<or> drop 1 tail = [] then NpmUnknown
             else if meth = ''PUT'' then NpmDistTagSet name (drop 1 tail)
             else if meth = ''DELETE'' then NpmDistTagDel name (drop 1 tail)
             else NpmUnknown)
      else NpmUnknown)"

definition npm_classify :: "string \<Rightarrow> string \<Rightarrow> npm_request" where
  "npm_classify meth p =
     (if has_prefix p ''/-/'' then npm_classifyDash meth p
      else case ParseNameFromPath p of None \<Rightarrow> NpmUnknown
      | Some (raw, rest) \<Rightarrow> let name = NormalizeNameFromURL raw in
          if \<not> ValidatePackageName name then NpmUnknown
          else if rest = [] then
            (if meth = ''GET'' \<or> meth = ''HEAD'' then NpmPackument name else if meth = ''PUT'' then NpmPublish name else NpmUnknown)
          else if has_prefix rest ''/-/'' then
            (let f = trim_prefix rest ''/-/'' in if has_suffix f ''.tgz'' \<and> CHR ''/'' \<notin> set f then NpmTarball name f else NpmUnknown)
          else NpmUnknown)"

section \<open>The store\<close>

record npm_codec =
  nc_enc :: "json \<Rightarrow> string"
  nc_dec :: "string \<Rightarrow> json option"
  nc_sha512 :: "string \<Rightarrow> string"
  nc_rfc3339 :: "unix_time \<Rightarrow> string"

text \<open>
  \<open>path.Join\<close> of the base path and the parts, as the raw file system resolves it: elements may hold slashes and dots.
\<close>

definition npm_path :: "pkg_store \<Rightarrow> string list \<Rightarrow> path" where
  "npm_path s parts = foldl abs_step (pk_base s) (concat (map (split_on CHR ''/'') parts))"

definition versionMetaPath :: "pkg_store \<Rightarrow> string \<Rightarrow> string \<Rightarrow> path" where
  "versionMetaPath s name version = npm_path s [''packages'', name, ''versions'', version @ ''.json'']"

definition tarballPath :: "pkg_store \<Rightarrow> string \<Rightarrow> string \<Rightarrow> path" where
  "tarballPath s name fname = npm_path s [''packages'', name, ''tarballs'', fname]"

definition distTagsPath :: "pkg_store \<Rightarrow> string \<Rightarrow> path" where
  "distTagsPath s name = npm_path s [''packages'', name, ''dist-tags.json'']"

definition packumentCachePath :: "pkg_store \<Rightarrow> string \<Rightarrow> path" where
  "packumentCachePath s name = npm_path s [''packages'', name, ''packument.json'']"

definition readmePath :: "pkg_store \<Rightarrow> string \<Rightarrow> path" where
  "readmePath s name = npm_path s [''packages'', name, ''readme.md'']"

definition npm_get :: "pkg_store \<Rightarrow> path \<Rightarrow> string option" where
  "npm_get s p = map_option rf_data (fs_read (pk_fs s) p)"

definition npm_put :: "pkg_store \<Rightarrow> path \<Rightarrow> string \<Rightarrow> unix_time \<Rightarrow> pkg_store option" where
  "npm_put s p body now = (if pk_writable s then Some (s\<lparr>pk_fs := fs_write (pk_fs s) p body now\<rparr>) else None)"

definition npm_drop :: "pkg_store \<Rightarrow> path \<Rightarrow> pkg_store" where
  "npm_drop s p = (if pk_writable s \<and> p \<notin> set (pk_stuck s) then s\<lparr>pk_fs := fs_delete (pk_fs s) p\<rparr> else s)"

definition npm_ListVersions :: "pkg_store \<Rightarrow> string \<Rightarrow> string list" where
  "npm_ListVersions s name = sort (filter (\<lambda>v. v \<noteq> []) (map (\<lambda>f. trim_suffix f ''.json'')
     (filter (\<lambda>f. has_suffix f ''.json'') (dir_files (pk_fs s) (npm_path s [''packages'', name, ''versions''])))))"

type_synonym meta = "(string \<times> json) list"

definition ReadVersionMeta :: "npm_codec \<Rightarrow> pkg_store \<Rightarrow> string \<Rightarrow> string \<Rightarrow> meta option" where
  "ReadVersionMeta c s name version = (case npm_get s (versionMetaPath s name version) of None \<Rightarrow> None
     | Some body \<Rightarrow> (case nc_dec c body of Some (JObj m) \<Rightarrow> Some m | Some JNull \<Rightarrow> Some [] | _ \<Rightarrow> None))"

definition WriteVersionMeta :: "npm_codec \<Rightarrow> pkg_store \<Rightarrow> string \<Rightarrow> string \<Rightarrow> meta \<Rightarrow> unix_time \<Rightarrow> pkg_store option" where
  "WriteVersionMeta c s name version m now = (case npm_put s (versionMetaPath s name version) (nc_enc c (JObj m)) now of
     None \<Rightarrow> None | Some s' \<Rightarrow> Some (npm_drop s' (packumentCachePath s' name)))"

definition VersionMetaExists :: "pkg_store \<Rightarrow> string \<Rightarrow> string \<Rightarrow> bool" where
  "VersionMetaExists s name version \<longleftrightarrow> path_exists (pk_fs s) (versionMetaPath s name version)"

text \<open>Tags as the file holds them; a file that holds something else is an error.\<close>

fun string_members :: "meta \<Rightarrow> (string \<times> string) list option" where
  "string_members [] = Some []"
| "string_members ((k, v) # kvs) = (case v of JStr x \<Rightarrow> map_option ((#) (k, x)) (string_members kvs)
     | JNull \<Rightarrow> map_option ((#) (k, [])) (string_members kvs) | _ \<Rightarrow> None)"

definition ReadDistTags :: "npm_codec \<Rightarrow> pkg_store \<Rightarrow> string \<Rightarrow> (string \<times> string) list option" where
  "ReadDistTags c s name = (case npm_get s (distTagsPath s name) of None \<Rightarrow> Some []
     | Some body \<Rightarrow> (case nc_dec c body of Some (JObj m) \<Rightarrow> string_members m | Some JNull \<Rightarrow> Some [] | _ \<Rightarrow> None))"

definition WriteDistTags :: "npm_codec \<Rightarrow> pkg_store \<Rightarrow> string \<Rightarrow> (string \<times> string) list \<Rightarrow> unix_time \<Rightarrow> pkg_store option" where
  "WriteDistTags c s name tags now = (case npm_put s (distTagsPath s name) (nc_enc c (JObj (map (\<lambda>(k, v). (k, JStr v)) tags))) now of
     None \<Rightarrow> None | Some s' \<Rightarrow> Some (npm_drop s' (packumentCachePath s' name)))"

definition WriteReadme :: "pkg_store \<Rightarrow> string \<Rightarrow> string \<Rightarrow> unix_time \<Rightarrow> pkg_store" where
  "WriteReadme s name content now = (case npm_put s (readmePath s name) content now of None \<Rightarrow> s | Some s' \<Rightarrow> s')"

definition ReadReadme :: "pkg_store \<Rightarrow> string \<Rightarrow> string" where
  "ReadReadme s name = (case npm_get s (readmePath s name) of None \<Rightarrow> [] | Some b \<Rightarrow> b)"

text \<open>Assignment to a key of a map.\<close>

fun set_key :: "'a \<Rightarrow> 'b \<Rightarrow> ('a \<times> 'b) list \<Rightarrow> ('a \<times> 'b) list" where
  "set_key k v [] = [(k, v)]"
| "set_key k v ((k', v') # kvs) = (if k = k' then (k, v) # kvs else (k', v') # set_key k v kvs)"

definition member_string :: "meta \<Rightarrow> string \<Rightarrow> string" where
  "member_string m k = (case map_of m k of Some (JStr x) \<Rightarrow> x | _ \<Rightarrow> [])"

definition tarballFilenameFromMeta :: "meta \<Rightarrow> string" where
  "tarballFilenameFromMeta m = (case map_of m ''dist'' of
     Some (JObj dist) \<Rightarrow> let t = member_string dist ''tarball''
       in (case last_index t CHR ''/'' of None \<Rightarrow> t | Some i \<Rightarrow> drop (Suc i) t)
   | _ \<Rightarrow> [])"

datatype npm_error = NpmNotFound | NpmInvalid | NpmReadOnly | NpmFailed

definition npm_store_DeleteVersion :: "npm_codec \<Rightarrow> pkg_store \<Rightarrow> string \<Rightarrow> string \<Rightarrow> unix_time \<Rightarrow> pkg_store \<times> npm_error option" where
  "npm_store_DeleteVersion c s name version now =
     (if \<not> ValidatePackageName name then (s, Some NpmInvalid)
      else if trim_space version = [] then (s, Some NpmInvalid)
      else if \<not> pk_writable s then (s, Some NpmReadOnly)
      else case ReadVersionMeta c s name version of
        None \<Rightarrow> (s, Some (if npm_get s (versionMetaPath s name version) = None then NpmNotFound else NpmFailed))
      | Some m \<Rightarrow>
          if versionMetaPath s name version \<in> set (pk_stuck s) then (s, Some NpmFailed)
          else let s1 = npm_drop s (versionMetaPath s name version); fname = tarballFilenameFromMeta m;
                   s2 = (if fname = [] then s1 else npm_drop s1 (tarballPath s1 name fname));
                   s3 = (case ReadDistTags c s2 name of None \<Rightarrow> s2
                     | Some tags \<Rightarrow> let kept = filter (\<lambda>t. snd t \<noteq> version) tags
                         in if kept = tags then s2 else (case WriteDistTags c s2 name kept now of None \<Rightarrow> s2 | Some s' \<Rightarrow> s'))
               in (npm_drop (npm_drop s3 (packumentCachePath s3 name)) (readmePath s3 name), None))"

section \<open>The packument\<close>

record packument =
  pu_Name :: string
  pu_DistTags :: "(string \<times> string) list"
  pu_Versions :: "(string \<times> meta) list"
  pu_Time :: "(string \<times> string) list"
  pu_Readme :: string
  pu_Description :: string
  pu_Maintainers :: "json list"
  pu_Repository :: meta
  pu_Rev :: string

definition backfilled :: "string \<Rightarrow> string \<Rightarrow> meta \<Rightarrow> meta" where
  "backfilled name v m = (let m1 = (if map_of m ''name'' = None then set_key ''name'' (JStr name) m else m)
     in if map_of m1 ''version'' = None then set_key ''version'' (JStr v) m1 else m1)"

definition BuildPackument :: "npm_codec \<Rightarrow> pkg_store \<Rightarrow> string \<Rightarrow> packument option" where
  "BuildPackument c s name = (let versions = npm_ListVersions s name in
     if versions = [] then None
     else case ReadDistTags c s name of None \<Rightarrow> None
     | Some tags0 \<Rightarrow>
         let tags = (if map_of tags0 ''latest'' = None then set_key ''latest'' (last versions) tags0 else tags0);
             metas = List.map_filter (\<lambda>v. map_option (\<lambda>m. (v, backfilled name v m)) (ReadVersionMeta c s name v)) versions;
             top = (case map_of tags ''latest'' of None \<Rightarrow> [] | Some l \<Rightarrow> (case map_of metas l of None \<Rightarrow> [] | Some m \<Rightarrow> m))
         in Some \<lparr>pu_Name = name, pu_DistTags = tags, pu_Versions = metas,
              pu_Time = List.map_filter (\<lambda>(v, m). case map_of m ''_publishedTime'' of Some (JStr t) \<Rightarrow> Some (v, t) | _ \<Rightarrow> None) metas,
              pu_Readme = ReadReadme s name, pu_Description = member_string top ''description'',
              pu_Maintainers = (case map_of top ''maintainers'' of Some (JArr xs) \<Rightarrow> xs | _ \<Rightarrow> []),
              pu_Repository = (case map_of top ''repository'' of Some (JObj m) \<Rightarrow> m | _ \<Rightarrow> []),
              pu_Rev = dec_nat (length versions) @ ''-rev''\<rparr>)"

text \<open>The struct as JSON; empty optional fields are left out.\<close>

definition PackumentJSON :: "packument \<Rightarrow> json" where
  "PackumentJSON p = (let strings = map (\<lambda>(k, v). (k, JStr v)); opt = (\<lambda>k b v. if b then [] else [(k, v)])
     in JObj ([(''name'', JStr (pu_Name p)), (''dist-tags'', JObj (strings (pu_DistTags p))),
         (''versions'', JObj (map (\<lambda>(v, m). (v, JObj m)) (pu_Versions p)))]
       @ opt ''time'' (pu_Time p = []) (JObj (strings (pu_Time p))) @ opt ''readme'' (pu_Readme p = []) (JStr (pu_Readme p))
       @ opt ''description'' (pu_Description p = []) (JStr (pu_Description p))
       @ opt ''maintainers'' (pu_Maintainers p = []) (JArr (pu_Maintainers p))
       @ opt ''repository'' (pu_Repository p = []) (JObj (pu_Repository p))
       @ opt ''_id'' (pu_Name p = []) (JStr (pu_Name p)) @ opt ''_rev'' (pu_Rev p = []) (JStr (pu_Rev p))))"

definition loadPackumentBody :: "npm_codec \<Rightarrow> pkg_store \<Rightarrow> string \<Rightarrow> unix_time \<Rightarrow> pkg_store \<times> string option" where
  "loadPackumentBody c s name now =
     (let rebuild = (case BuildPackument c s name of None \<Rightarrow> (s, None)
        | Some p \<Rightarrow> let body = nc_enc c (PackumentJSON p)
            in ((case npm_put s (packumentCachePath s name) body now of None \<Rightarrow> s | Some s' \<Rightarrow> s'), Some body))
      in case npm_get s (packumentCachePath s name) of
           Some cached \<Rightarrow> if cached \<noteq> [] then (s, Some cached) else rebuild
         | None \<Rightarrow> rebuild)"

definition trim_right_slashes :: "string \<Rightarrow> string" where
  "trim_right_slashes t = trim_right_func (\<lambda>c. c = CHR ''/'') t"

definition rewrite_dist :: "string \<Rightarrow> json \<Rightarrow> json" where
  "rewrite_dist base v = (case v of
     JObj m \<Rightarrow> (case map_of m ''dist'' of
         Some (JObj dist) \<Rightarrow> let t = member_string dist ''tarball''
           in if has_prefix t ''/'' then JObj (set_key ''dist'' (JObj (set_key ''tarball'' (JStr (base @ t)) dist)) m) else v
       | _ \<Rightarrow> v)
   | _ \<Rightarrow> v)"

definition rewritePackumentTarballs :: "npm_codec \<Rightarrow> string \<Rightarrow> string \<Rightarrow> string" where
  "rewritePackumentTarballs c body publicBase =
     (if \<not> contains body ([CHR 0x22] @ ''tarball'' @ [CHR 0x22] @ '':'' @ [CHR 0x22] @ ''/'') then body
      else case nc_dec c body of
        Some (JObj pkg) \<Rightarrow> (case map_of pkg ''versions'' of
            Some (JObj vs) \<Rightarrow> nc_enc c (JObj (set_key ''versions''
              (JObj (map (\<lambda>(v, m). (v, rewrite_dist (trim_right_slashes publicBase) m)) vs)) pkg))
          | _ \<Rightarrow> nc_enc c (JObj pkg))
      | Some JNull \<Rightarrow> nc_enc c JNull
      | _ \<Rightarrow> body)"

end
