(* ===== verification/Npm_Local.thy ===== *)
theory Npm_Local
  imports Npm_Store Semver
begin

text \<open>
  Publishing and serving npm packages: \<open>internal/registry/npm/publish.go\<close>, \<open>local.go\<close> and the operations on versions of
  \<open>extensions.go\<close>.  A publish body is its bytes and what they decode to (nothing, when none of them are read); the README inside a tarball is \<open>nq_readme\<close>,
  the public URL of the repository \<open>nq_base\<close>.
\<close>

section \<open>The publish payload\<close>

record publish_payload =
  pp_Name :: string
  pp_Versions :: meta
  pp_Attachments :: "(string \<times> string) list"
  pp_DistTags :: "(string \<times> string) list"
  pp_Readme :: string

record npm_publish =
  nq_body :: string
  nq_payload :: "publish_payload option"
  nq_readme :: "string \<Rightarrow> string"
  nq_base :: string

record parsed_publish =
  ps_Name :: string
  ps_Version :: string
  ps_Meta :: meta
  ps_TarballName :: string
  ps_Tarball :: string
  ps_DistTags :: "(string \<times> string) list"
  ps_Readme :: string

text \<open>A parse can succeed, be refused, or panic: writing to the nil map a null version decodes to.\<close>

datatype publish_parse = Parsed parsed_publish | BadPayload | BadIntegrity | ParsePanic

definition SubresourceIntegrity :: "npm_codec \<Rightarrow> string \<Rightarrow> string" where
  "SubresourceIntegrity c body = ''sha512-'' @ std_encode (nc_sha512 c body)"

definition sha1HexLegacy :: "npm_codec \<Rightarrow> string \<Rightarrow> string" where
  "sha1HexLegacy c body = hex_string (take 20 (nc_sha512 c body))"

text \<open>The dist object after the integrity check, \<open>None\<close> when the client's integrity is another.\<close>

definition checked_dist :: "npm_codec \<Rightarrow> string \<Rightarrow> meta \<Rightarrow> meta option" where
  "checked_dist c tarball dist = (let want = member_string dist ''integrity''; got = SubresourceIntegrity c tarball;
       shasum = (\<lambda>d. if map_of d ''shasum'' = None then set_key ''shasum'' (JStr (sha1HexLegacy c tarball)) d else d)
     in if want \<noteq> [] then (if got \<noteq> want then None else Some (shasum dist))
        else Some (shasum (set_key ''integrity'' (JStr got) dist)))"

definition ParsePublish :: "npm_codec \<Rightarrow> npm_publish \<Rightarrow> int \<Rightarrow> unix_time \<Rightarrow> publish_parse" where
  "ParsePublish c q maxSize now =
     (case (if maxSize > 0 then read_limited (nq_body q) maxSize else Some (nq_body q)) of None \<Rightarrow> BadPayload
      | Some b \<Rightarrow> (case (if b = [] then None else nq_payload q) of None \<Rightarrow> BadPayload
      | Some p \<Rightarrow>
          if \<not> ValidatePackageName (pp_Name p) then BadPayload
          else (case (pp_Versions p, pp_Attachments p) of
            ([(version, raw)], [(attachmentName, data)]) \<Rightarrow>
              if version = [] then BadPayload
              else let tarball = std_decode data in
                (case raw of
                  JNull \<Rightarrow> if tarball = None then BadPayload else ParsePanic
                | JObj m \<Rightarrow> (case tarball of None \<Rightarrow> BadPayload
                    | Some tb \<Rightarrow>
                        let done = (\<lambda>m'. Parsed \<lparr>ps_Name = pp_Name p, ps_Version = version,
                              ps_Meta = set_key ''_publishedTime'' (JStr (nc_rfc3339 c now)) m', ps_TarballName = attachmentName,
                              ps_Tarball = tb, ps_DistTags = pp_DistTags p, ps_Readme = pp_Readme p\<rparr>)
                        in (case map_of m ''dist'' of
                              Some (JObj dist) \<Rightarrow> (case checked_dist c tb dist of None \<Rightarrow> BadIntegrity
                                | Some dist' \<Rightarrow> done (set_key ''dist'' (JObj dist') m))
                            | _ \<Rightarrow> done m))
                | _ \<Rightarrow> BadPayload)
          | _ \<Rightarrow> BadPayload)))"

text \<open>At the largest limit the sum the code makes is negative, nothing is read and no publish parses.\<close>

lemma ParsePublish_overflow: "ParsePublish c q (2 ^ 63 - 1) now = BadPayload"
  by (simp add: ParsePublish_def read_limited_overflow del: power_numeral)

text \<open>The new URL of a tarball and its file name.\<close>

definition ResolveTarballURL :: "string \<Rightarrow> string \<Rightarrow> string \<Rightarrow> string \<times> string" where
  "ResolveTarballURL original name publicBase =
     (if original = [] then ([], [])
      else case last_index original CHR ''/'' of None \<Rightarrow> (original, original)
      | Some idx \<Rightarrow> let fname = drop (Suc idx) original in (trim_right_slashes publicBase @ ''/'' @ name @ ''/-/'' @ fname, fname))"

definition RewriteVersionMetaTarball :: "meta \<Rightarrow> string \<Rightarrow> string \<Rightarrow> meta \<times> string" where
  "RewriteVersionMetaTarball m name publicBase = (case map_of m ''dist'' of
     Some (JObj dist) \<Rightarrow> (case ResolveTarballURL (member_string dist ''tarball'') name publicBase of (newURL, fn) \<Rightarrow>
        ((if newURL \<noteq> [] then set_key ''dist'' (JObj (set_key ''tarball'' (JStr newURL) dist)) m else m), fn))
   | _ \<Rightarrow> (m, []))"

text \<open>
  \<open>Store.LazyExtractReadme\<close>, which the page of a version calls when no README is stored: it stores the README it finds in
  the tarball, but does not drop the cached packument.  What it finds is \<open>extract\<close>.
\<close>

definition LazyExtractReadme ::
  "(string \<Rightarrow> string) \<Rightarrow> pkg_store \<Rightarrow> string \<Rightarrow> string \<Rightarrow> unix_time \<Rightarrow> pkg_store \<times> string" where
  "LazyExtractReadme extract s name fname now = (case npm_get s (tarballPath s name fname) of None \<Rightarrow> (s, [])
     | Some tarball \<Rightarrow> let content = extract tarball
         in if content = [] then (s, []) else (WriteReadme s name content now, content))"

section \<open>The local repository\<close>

record npm_local =
  np_store :: pkg_store
  np_AllowPush :: bool
  np_MaxUpload :: int

datatype npm_response = NpmStatus nat | NpmBody string | NpmCreated | NpmTags "(string \<times> string) list" | NpmPanic

definition WriteTarball :: "pkg_store \<Rightarrow> string \<Rightarrow> string \<Rightarrow> string \<Rightarrow> unix_time \<Rightarrow> pkg_store option" where
  "WriteTarball s name fname body now = npm_put s (tarballPath s name fname) body now"

definition merge_tags :: "(string \<times> string) list \<Rightarrow> (string \<times> string) list \<Rightarrow> string \<Rightarrow> (string \<times> string) list" where
  "merge_tags existing new version = (let tags = fold (\<lambda>(t, v). set_key t v) new existing
     in if map_of tags ''latest'' = None then set_key ''latest'' version tags else tags)"

text \<open>What a publish writes once it is accepted.\<close>

definition store_publish :: "npm_codec \<Rightarrow> npm_local \<Rightarrow> npm_publish \<Rightarrow> parsed_publish \<Rightarrow> unix_time \<Rightarrow> npm_local \<times> npm_response" where
  "store_publish c l q p now = (case RewriteVersionMetaTarball (ps_Meta p) (ps_Name p) (nq_base q) of (m, fn) \<Rightarrow>
     let fname = (if fn = [] then ps_TarballName p else fn); s = np_store l; name = ps_Name p
     in (case WriteTarball s name fname (ps_Tarball p) now of None \<Rightarrow> (l, NpmStatus 500)
         | Some s1 \<Rightarrow> (case WriteVersionMeta c s1 name (ps_Version p) m now of None \<Rightarrow> (l\<lparr>np_store := s1\<rparr>, NpmStatus 500)
           | Some s2 \<Rightarrow>
               let readme = (if ps_Readme p \<noteq> [] then ps_Readme p else nq_readme q (ps_Tarball p));
                   s3 = (if readme \<noteq> [] then WriteReadme s2 name readme now else s2);
                   existing = (case ReadDistTags c s3 name of None \<Rightarrow> [] | Some t \<Rightarrow> t)
               in (case WriteDistTags c s3 name (merge_tags existing (ps_DistTags p) (ps_Version p)) now of
                     None \<Rightarrow> (l\<lparr>np_store := s3\<rparr>, NpmStatus 500) | Some s4 \<Rightarrow> (l\<lparr>np_store := s4\<rparr>, NpmCreated)))))"

definition servePublish :: "npm_codec \<Rightarrow> npm_local \<Rightarrow> string \<Rightarrow> npm_publish \<Rightarrow> unix_time \<Rightarrow> npm_local \<times> npm_response" where
  "servePublish c l urlName q now =
     (if \<not> np_AllowPush l then (l, NpmStatus 405)
      else case ParsePublish c q (if np_MaxUpload l = 0 then 200 * 1024 * 1024 else np_MaxUpload l) now of
        ParsePanic \<Rightarrow> (l, NpmPanic)
      | BadIntegrity \<Rightarrow> (l, NpmStatus 422)
      | BadPayload \<Rightarrow> (l, NpmStatus 400)
      | Parsed p \<Rightarrow>
          if ps_Name p \<noteq> urlName then (l, NpmStatus 400)
          else if VersionMetaExists (np_store l) (ps_Name p) (ps_Version p) then (l, NpmStatus 409)
          else store_publish c l q p now)"

text \<open>\<open>strings.Trim\<close> of the double quotes.\<close>

definition serveDistTagSet :: "npm_codec \<Rightarrow> npm_local \<Rightarrow> string \<Rightarrow> string \<Rightarrow> string \<Rightarrow> unix_time \<Rightarrow> npm_local \<times> npm_response" where
  "serveDistTagSet c l name tag body now =
     (if \<not> np_AllowPush l then (l, NpmStatus 405)
      else if length body > 1024 then (l, NpmStatus 400)
      else let value = trim_func (\<lambda>ch. ch = CHR 0x22) (trim_space body) in
        if value = [] then (l, NpmStatus 400)
        else if \<not> VersionMetaExists (np_store l) name value then (l, NpmStatus 404)
        else let tags = (case ReadDistTags c (np_store l) name of None \<Rightarrow> [] | Some t \<Rightarrow> t)
          in (case WriteDistTags c (np_store l) name (set_key tag value tags) now of None \<Rightarrow> (l, NpmStatus 500)
              | Some s \<Rightarrow> (l\<lparr>np_store := s\<rparr>, NpmStatus 201)))"

definition serveDistTagDel :: "npm_codec \<Rightarrow> npm_local \<Rightarrow> string \<Rightarrow> string \<Rightarrow> unix_time \<Rightarrow> npm_local \<times> npm_response" where
  "serveDistTagDel c l name tag now =
     (if \<not> np_AllowPush l then (l, NpmStatus 405)
      else if tag = ''latest'' then (l, NpmStatus 400)
      else let tags = (case ReadDistTags c (np_store l) name of None \<Rightarrow> [] | Some t \<Rightarrow> t) in
        if map_of tags tag = None then (l, NpmStatus 404)
        else (case WriteDistTags c (np_store l) name (filter (\<lambda>t. fst t \<noteq> tag) tags) now of None \<Rightarrow> (l, NpmStatus 500)
              | Some s \<Rightarrow> (l\<lparr>np_store := s\<rparr>, NpmStatus 200)))"

definition servePackument :: "npm_codec \<Rightarrow> npm_local \<Rightarrow> string \<Rightarrow> string \<Rightarrow> unix_time \<Rightarrow> npm_local \<times> npm_response" where
  "servePackument c l name publicBase now = (case loadPackumentBody c (np_store l) name now of
     (s, None) \<Rightarrow> (l\<lparr>np_store := s\<rparr>, NpmStatus 404)
   | (s, Some body) \<Rightarrow> (l\<lparr>np_store := s\<rparr>, NpmBody (rewritePackumentTarballs c body publicBase)))"

definition serveTarball :: "npm_local \<Rightarrow> string \<Rightarrow> string \<Rightarrow> npm_response" where
  "serveTarball l name fname = (case npm_get (np_store l) (tarballPath (np_store l) name fname) of
     None \<Rightarrow> NpmStatus 404 | Some b \<Rightarrow> NpmBody b)"

text \<open>The request dispatch; the answers of the search, of whoami and of the audit depend on nothing that is kept.\<close>

definition npm_serve :: "npm_codec \<Rightarrow> npm_local \<Rightarrow> string \<Rightarrow> string \<Rightarrow> npm_publish \<Rightarrow> unix_time \<Rightarrow> npm_local \<times> npm_response" where
  "npm_serve c l meth path q now = (case npm_classify meth path of
     NpmPackument name \<Rightarrow> servePackument c l name (nq_base q) now
   | NpmTarball name fname \<Rightarrow> (l, serveTarball l name fname)
   | NpmPublish name \<Rightarrow> servePublish c l name q now
   | NpmDistTags name \<Rightarrow> (l, case ReadDistTags c (np_store l) name of None \<Rightarrow> NpmStatus 500 | Some tags \<Rightarrow> NpmTags tags)
   | NpmDistTagSet name tag \<Rightarrow> serveDistTagSet c l name tag (nq_body q) now
   | NpmDistTagDel name tag \<Rightarrow> serveDistTagDel c l name tag now
   | NpmSearch \<Rightarrow> (l, NpmStatus 200) | NpmWhoami \<Rightarrow> (l, NpmStatus 200)
   | NpmAudit \<Rightarrow> (l, NpmStatus (if meth = ''POST'' then 200 else 405))
   | NpmUnknown \<Rightarrow> (l, NpmStatus 404))"

section \<open>Versions\<close>

definition highestRelease :: "string list \<Rightarrow> string" where
  "highestRelease versions = (let vs = SortDesc versions ModeLenient
     in case find (\<lambda>v. CHR ''-'' \<notin> set v) vs of Some v \<Rightarrow> v | None \<Rightarrow> (case vs of [] \<Rightarrow> [] | v # _ \<Rightarrow> v))"

definition npm_DeleteVersion :: "npm_codec \<Rightarrow> npm_local \<Rightarrow> string \<Rightarrow> string \<Rightarrow> unix_time \<Rightarrow> npm_local \<times> npm_error option" where
  "npm_DeleteVersion c l name version now =
     (if \<not> ValidatePackageName name \<or> trim_space version = [] then (l, Some NpmNotFound)
      else case npm_store_DeleteVersion c (np_store l) name version now of
        (s, Some e) \<Rightarrow> (l\<lparr>np_store := s\<rparr>, Some e)
      | (s, None) \<Rightarrow>
          (l\<lparr>np_store := (case ReadDistTags c s name of None \<Rightarrow> s
             | Some tags \<Rightarrow> let vs = npm_ListVersions s name in
                 if map_of tags ''latest'' \<noteq> None \<or> vs = [] then s
                 else (case WriteDistTags c s name (set_key ''latest'' (highestRelease vs) tags) now of None \<Rightarrow> s | Some s' \<Rightarrow> s'))\<rparr>, None))"

definition npm_PromoteVersion ::
  "npm_codec \<Rightarrow> npm_local \<Rightarrow> npm_local \<Rightarrow> string \<Rightarrow> string \<Rightarrow> unix_time \<Rightarrow> npm_local \<times> npm_error option" where
  "npm_PromoteVersion c l d name version now =
     (if \<not> ValidatePackageName name \<or> version = [] then (d, Some NpmNotFound)
      else case ReadVersionMeta c (np_store l) name version of
        None \<Rightarrow> (d, Some (if npm_get (np_store l) (versionMetaPath (np_store l) name version) = None then NpmNotFound else NpmFailed))
      | Some m \<Rightarrow>
          if VersionMetaExists (np_store d) name version then (d, Some NpmFailed)
          else let fname = tarballFilenameFromMeta m in
            if fname = [] then (d, Some NpmFailed)
            else (case npm_get (np_store l) (tarballPath (np_store l) name fname) of None \<Rightarrow> (d, Some NpmNotFound)
              | Some tarball \<Rightarrow> (case WriteTarball (np_store d) name fname tarball now of None \<Rightarrow> (d, Some NpmReadOnly)
                | Some s1 \<Rightarrow> (case WriteVersionMeta c s1 name version (fst (RewriteVersionMetaTarball m name [])) now of
                    None \<Rightarrow> (d\<lparr>np_store := s1\<rparr>, Some NpmReadOnly)
                  | Some s2 \<Rightarrow>
                      let s3 = (if path_exists (pk_fs s2) (readmePath s2 name) then s2
                            else let readme = ReadReadme (np_store l) name in if readme \<noteq> [] then WriteReadme s2 name readme now else s2);
                          tags = (case ReadDistTags c s3 name of None \<Rightarrow> [] | Some t \<Rightarrow> t)
                      in (case WriteDistTags c s3 name (set_key ''latest'' (highestRelease (npm_ListVersions s3 name)) tags) now of
                            None \<Rightarrow> (d\<lparr>np_store := s3\<rparr>, Some NpmReadOnly) | Some s4 \<Rightarrow> (d\<lparr>np_store := s4\<rparr>, None))))))"

end
