(* ===== verification/Json_Text.thy ===== *)
theory Json_Text
  imports Json
begin

text \<open>
  A text form of JSON values with which the examples instantiate \<open>encoding/json\<close>: what the code relies on is that a value
  reads back as it was written, and this is proved here.  Strings carry their length in unary.
\<close>

definition str_text :: "string \<Rightarrow> string" where
  "str_text s = replicate (length s) CHR ''1'' @ CHR ''0'' # s"

definition str_read :: "string \<Rightarrow> (string \<times> string) option" where
  "str_read t = (let n = length (takeWhile (\<lambda>c. c = CHR ''1'') t); r = drop (Suc n) t
     in if length t > n \<and> length r \<ge> n then Some (take n r, drop n r) else None)"

fun json_text :: "json \<Rightarrow> string" and list_text :: "json list \<Rightarrow> string" and members_text :: "(string \<times> json) list \<Rightarrow> string" where
  "json_text JNull = ''n''"
| "json_text (JBool b) = (if b then ''t'' else ''f'')"
| "json_text (JNum s) = CHR ''#'' # str_text s"
| "json_text (JStr s) = CHR ''s'' # str_text s"
| "json_text (JArr xs) = CHR ''['' # list_text xs"
| "json_text (JObj kvs) = CHR ''{'' # members_text kvs"
| "list_text [] = '']''"
| "list_text (x # xs) = CHR '','' # json_text x @ list_text xs"
| "members_text [] = ''}''"
| "members_text ((k, v) # kvs) = CHR '','' # str_text k @ json_text v @ members_text kvs"

fun json_read :: "nat \<Rightarrow> string \<Rightarrow> (json \<times> string) option" and list_read :: "nat \<Rightarrow> string \<Rightarrow> (json list \<times> string) option"
  and members_read :: "nat \<Rightarrow> string \<Rightarrow> ((string \<times> json) list \<times> string) option" where
  "json_read (Suc n) (c # t) =
     (if c = CHR ''n'' then Some (JNull, t)
      else if c = CHR ''t'' then Some (JBool True, t)
      else if c = CHR ''f'' then Some (JBool False, t)
      else if c = CHR ''#'' then map_option (\<lambda>(s, r). (JNum s, r)) (str_read t)
      else if c = CHR ''s'' then map_option (\<lambda>(s, r). (JStr s, r)) (str_read t)
      else if c = CHR ''['' then map_option (\<lambda>(xs, r). (JArr xs, r)) (list_read n t)
      else if c = CHR ''{'' then map_option (\<lambda>(kvs, r). (JObj kvs, r)) (members_read n t)
      else None)"
| "list_read (Suc n) (c # t) =
     (if c = CHR '']'' then Some ([], t)
      else if c = CHR '','' then (case json_read n t of None \<Rightarrow> None
        | Some (x, r) \<Rightarrow> map_option (\<lambda>(xs, r'). (x # xs, r')) (list_read n r))
      else None)"
| "members_read (Suc n) (c # t) =
     (if c = CHR ''}'' then Some ([], t)
      else if c = CHR '','' then (case str_read t of None \<Rightarrow> None
        | Some (k, r) \<Rightarrow> (case json_read n r of None \<Rightarrow> None
            | Some (v, r') \<Rightarrow> map_option (\<lambda>(kvs, r''). ((k, v) # kvs, r'')) (members_read n r')))
      else None)"
| "json_read n t = None"
| "list_read n t = None"
| "members_read n t = None"

definition text_json :: "string \<Rightarrow> json option" where
  "text_json t = (case json_read (length t) t of Some (j, []) \<Rightarrow> Some j | _ \<Rightarrow> None)"

lemma str_read_text [simp]: "str_read (str_text s @ r) = Some (s, r)"
proof -
  have "takeWhile (\<lambda>c. c = CHR ''1'') (str_text s @ r) = replicate (length s) CHR ''1''"
    using takeWhile_append2 [of "replicate (length s) CHR ''1''" "\<lambda>c. c = CHR ''1''" "CHR ''0'' # s @ r"]
    by (simp add: str_text_def)
  then show ?thesis by (simp add: str_read_def str_text_def)
qed

lemma read_text:
  "length (json_text j) \<le> n \<Longrightarrow> json_read n (json_text j @ r) = Some (j, r)"
  "length (list_text xs) \<le> n \<Longrightarrow> list_read n (list_text xs @ r) = Some (xs, r)"
  "length (members_text kvs) \<le> n \<Longrightarrow> members_read n (members_text kvs @ r) = Some (kvs, r)"
proof (induction j and xs and kvs arbitrary: n r and n r and n r rule: json_text_list_text_members_text.induct)
  case (8 x xs)
  then show ?case by (cases n) auto
next
  case (10 k v kvs)
  then show ?case by (cases n) auto
next
  case (2 b)
  then show ?case by (cases n; cases b) auto
qed (case_tac [!] n, auto)

lemma text_json_text [simp]: "text_json (json_text j) = Some j"
  using read_text(1) [of j "length (json_text j)" "[]"] by (simp add: text_json_def)

end
