(* ===== verification/Json_Canon.thy ===== *)
theory Json_Canon
  imports Json_Text
begin

text \<open>
  What package \<open>encoding/json\<close> documents of writing and reading back a value, as far as the stores of the code rely on it:
  the strings of a decoded value are valid UTF-8 and its objects have each key once; a value of that kind reads back as it
  was written, with the keys of every object in order.  A number stands for the text it is written as.
\<close>

section \<open>Valid UTF-8\<close>

text \<open>The ranges of the bytes that must follow, for each first byte of a sequence.\<close>

definition utf8_rest :: "nat \<Rightarrow> (nat \<times> nat) list option" where
  "utf8_rest n = (let t = (0x80, 0xBF) in
     if n < 0x80 then Some []
     else if 0xC2 \<le> n \<and> n \<le> 0xDF then Some [t]
     else if n = 0xE0 then Some [(0xA0, 0xBF), t]
     else if n = 0xED then Some [(0x80, 0x9F), t]
     else if 0xE1 \<le> n \<and> n \<le> 0xEF then Some [t, t]
     else if n = 0xF0 then Some [(0x90, 0xBF), t, t]
     else if n = 0xF4 then Some [(0x80, 0x8F), t, t]
     else if 0xF1 \<le> n \<and> n \<le> 0xF3 then Some [t, t, t]
     else None)"

fun utf8_run :: "(nat \<times> nat) list \<Rightarrow> string \<Rightarrow> bool" where
  "utf8_run rs [] \<longleftrightarrow> rs = []"
| "utf8_run [] (c # s) \<longleftrightarrow> (case utf8_rest (of_char c) of None \<Rightarrow> False | Some rs \<Rightarrow> utf8_run rs s)"
| "utf8_run (r # rs) (c # s) \<longleftrightarrow> fst r \<le> of_char c \<and> of_char c \<le> snd r \<and> utf8_run rs s"

definition utf8_ok :: "string \<Rightarrow> bool" where
  "utf8_ok s \<longleftrightarrow> utf8_run [] s"

lemma utf8_run_append: "utf8_run rs a \<Longrightarrow> utf8_ok b \<Longrightarrow> utf8_run rs (a @ b)"
  by (induction rs a rule: utf8_run.induct) (auto simp: utf8_ok_def split: option.splits)

lemma utf8_ok_append: "utf8_ok a \<Longrightarrow> utf8_ok b \<Longrightarrow> utf8_ok (a @ b)"
  using utf8_run_append unfolding utf8_ok_def by blast

section \<open>Values that read back\<close>

primrec json_ok :: "json \<Rightarrow> bool" where
  "json_ok JNull = True"
| "json_ok (JBool b) = True"
| "json_ok (JNum s) = True"
| "json_ok (JStr s) = utf8_ok s"
| "json_ok (JArr xs) = list_all id (map json_ok xs)"
| "json_ok (JObj kvs) = (distinct (map fst kvs) \<and> list_all (\<lambda>(k, b). utf8_ok k \<and> b) (map (map_prod id json_ok) kvs))"

primrec json_canon :: "json \<Rightarrow> json" where
  "json_canon JNull = JNull"
| "json_canon (JBool b) = JBool b"
| "json_canon (JNum s) = JNum s"
| "json_canon (JStr s) = JStr s"
| "json_canon (JArr xs) = JArr (map json_canon xs)"
| "json_canon (JObj kvs) = JObj (sort_key fst (map (map_prod id json_canon) kvs))"

definition canon_members :: "(string \<times> json) list \<Rightarrow> (string \<times> json) list" where
  "canon_members kvs = sort_key fst (map (map_prod id json_canon) kvs)"

lemma json_canon_obj [simp]: "json_canon (JObj kvs) = JObj (canon_members kvs)"
  by (simp add: canon_members_def)

lemma json_ok_obj: "json_ok (JObj kvs) \<longleftrightarrow> distinct (map fst kvs) \<and> (\<forall>(k, v)\<in>set kvs. utf8_ok k \<and> json_ok v)"
  by (auto simp: list_all_iff)

lemma json_ok_member: "json_ok (JObj m) \<Longrightarrow> map_of m k = Some v \<Longrightarrow> json_ok v"
  using map_of_SomeD [of m k v] unfolding json_ok_obj by blast

declare json_ok.simps(6) [simp del] json_canon.simps(6) [simp del]

text \<open>Sorting the members keeps what a key maps to.\<close>

lemma map_of_insort: "map_of (insort_key fst x xs) k = (if k = fst x then Some (snd x) else map_of xs k)"
  by (induction xs) (auto simp: prod_eq_iff)

lemma map_of_sort: "map_of (sort_key fst xs) k = map_of xs k"
  by (induction xs) (auto simp: map_of_insort)

lemma map_of_canon [simp]: "map_of (canon_members kvs) k = map_option json_canon (map_of kvs k)"
proof -
  have "map_of (map (map_prod id json_canon) kvs) k = map_option json_canon (map_of kvs k)" by (induction kvs) auto
  then show ?thesis by (simp add: canon_members_def map_of_sort)
qed

lemma insort_map: "(\<And>y. fst (h y) = fst y) \<Longrightarrow> insort_key fst (h x) (map h xs) = map h (insort_key fst x xs)"
  by (induction xs) auto

lemma sort_map: "(\<And>y. fst (h y) = fst y) \<Longrightarrow> sort_key fst (map h xs) = map h (sort_key fst xs)"
  by (induction xs) (simp_all add: insort_map)

lemma canon_ok: "json_ok j \<Longrightarrow> json_ok (json_canon j)"
proof (induction j)
  case (JObj kvs)
  have "map fst (map (map_prod id json_canon) kvs) = map fst kvs" by simp
  then have "distinct (map fst (canon_members kvs))" using JObj.prems
    unfolding json_ok_obj canon_members_def by (metis distinct_map distinct_sort set_sort)
  moreover have "utf8_ok k \<and> json_ok v" if "(k, v) \<in> set (canon_members kvs)" for k v
    using that JObj by (fastforce simp: canon_members_def json_ok_obj)
  ultimately show ?case by (auto simp: json_ok_obj)
qed (simp_all add: list_all_iff)

lemma canon_members_idem:
  assumes "\<And>k v. (k, v) \<in> set kvs \<Longrightarrow> json_canon (json_canon v) = json_canon v"
  shows "canon_members (canon_members kvs) = canon_members kvs"
proof -
  let ?h = "map_prod id json_canon"
  have m: "map ?h (map ?h kvs) = map ?h kvs" using assms by (auto simp: map_prod_def)
  have "canon_members (canon_members kvs) = sort_key fst (map ?h (sort_key fst (map ?h kvs)))"
    by (simp only: canon_members_def)
  also have "map ?h (sort_key fst (map ?h kvs)) = sort_key fst (map ?h (map ?h kvs))" by (rule sort_map [symmetric]) simp
  also have "\<dots> = sort_key fst (map ?h kvs)" unfolding m ..
  also have "sort_key fst (sort_key fst (map ?h kvs)) = sort_key fst (map ?h kvs)" by (rule sort_key_id_if_sorted) simp
  finally show ?thesis by (simp only: canon_members_def)
qed

lemma canon_idem [simp]: "json_canon (json_canon j) = json_canon j"
proof (induction j)
  case (JObj kvs)
  have "json_canon (json_canon v) = json_canon v" if "(k, v) \<in> set kvs" for k v by (rule JObj [OF that]) simp
  then show ?case by (simp add: canon_members_idem)
qed simp_all

lemma canon_strings: "canon_members (map (\<lambda>(k, v). (k, JStr v)) kvs) = map (\<lambda>(k, v). (k, JStr v)) (sort_key fst kvs)"
proof -
  let ?h = "\<lambda>(k, v). (k, JStr v)"
  have "insort_key fst (?h x) (map ?h xs) = map ?h (insort_key fst x xs)" for x and xs :: "(string \<times> string) list"
    by (cases x, induction xs) auto
  then have "sort_key fst (map ?h kvs) = map ?h (sort_key fst kvs)" by (induction kvs) (simp_all del: insort_key.simps)
  moreover have "map (map_prod id json_canon) (map ?h kvs) = map ?h kvs" by auto
  ultimately show ?thesis by (simp only: canon_members_def)
qed

end
