(* ===== verification/Npm_Cache.thy ===== *)
theory Npm_Cache
  imports Npm_Local Json_Canon
begin

text \<open>
  What the npm repository promises its clients: where its files lie, that the cached packument is the one built from the
  stored versions, tags and README after any run of plain requests, and that an accepted publish is served back.
\<close>

section \<open>Where files go\<close>

text \<open>The file name a publish stores its tarball under.\<close>

definition published_file :: "npm_publish \<Rightarrow> parsed_publish \<Rightarrow> string" where
  "published_file q p = (let fn = snd (RewriteVersionMetaTarball (ps_Meta p) (ps_Name p) (nq_base q)) in if fn = [] then ps_TarballName p else fn)"

definition pkg_dir :: "pkg_store \<Rightarrow> string \<Rightarrow> path" where
  "pkg_dir s name = pk_base s @ ''packages'' # split_on CHR ''/'' name"

text \<open>A package name is one segment without an at sign, or a scope and a segment.\<close>

lemma bare_segment: "validateBareName x \<Longrightarrow> segment_ok x \<and> hd x \<noteq> CHR ''@'' \<and> x \<noteq> []"
proof -
  assume v: "validateBareName x"
  then have ok: "\<forall>c\<in>set x. is_lower c \<or> is_digit c \<or> c = CHR ''-'' \<or> c = CHR ''_'' \<or> c = CHR ''.''"
    by (simp add: validateBareName_def list_all_iff)
  have "CHR ''/'' \<notin> set x" "CHR ''@'' \<notin> set x" using ok by (auto simp: is_lower_def is_digit_def)
  moreover obtain c t where x: "x = c # t" and d: "c \<noteq> CHR ''.''"
    using v by (cases x) (auto simp: validateBareName_def)
  ultimately have "segment_ok x" "c \<noteq> CHR ''@''" by (auto simp: segment_ok_def)
  then show ?thesis by (simp add: x)
qed

lemma valid_name:
  assumes "ValidatePackageName name"
  shows "(segment_ok name \<and> hd name \<noteq> CHR ''@'' \<and> split_on CHR ''/'' name = [name]) \<or>
     (\<exists>sc b. segment_ok (CHR ''@'' # sc) \<and> segment_ok b \<and> split_on CHR ''/'' name = [CHR ''@'' # sc, b])"
proof (cases "has_prefix name ''@''")
  case False
  then have "validateBareName name" using assms by (simp add: ValidatePackageName_def)
  then show ?thesis using bare_segment [of name] by (simp add: segment_ok_def split_on_single)
next
  case True
  then obtain slash where i: "index_byte name CHR ''/'' = Some slash"
    and v: "slash > 1" "validateBareName (drop 1 (take slash name))" "validateBareName (drop (Suc slash) name)"
    using assms by (auto simp: ValidatePackageName_def split: option.splits)
  have s: "slash < length name" "name ! slash = CHR ''/''" using index_byte_Some [OF i] by simp_all
  let ?sc = "drop 1 (take slash name)" and ?b = "drop (Suc slash) name"
  have hd: "take slash name = CHR ''@'' # ?sc" using True v(1) s by (cases name) (auto simp: has_prefix_def take_Cons' split: if_splits)
  have name: "name = (CHR ''@'' # ?sc) @ CHR ''/'' # ?b" using id_take_nth_drop [OF s(1)] s(2) hd by metis
  have sc: "segment_ok ?sc" "segment_ok ?b" using bare_segment v by blast+
  have "CHR ''/'' \<notin> set (CHR ''@'' # ?sc)" "CHR ''/'' \<notin> set ?b" using sc by (simp_all add: segment_ok_def)
  then have "split_on CHR ''/'' name = [CHR ''@'' # ?sc, ?b]"
    using split_on_append split_on_single name by metis
  moreover have "segment_ok (CHR ''@'' # ?sc)" using sc by (auto simp: segment_ok_def)
  ultimately show ?thesis using sc(2) by blast
qed

lemma valid_segments: "ValidatePackageName name \<Longrightarrow> list_all segment_ok (split_on CHR ''/'' name)"
  using valid_name by fastforce

lemma pkg_dir_inj:
  assumes "ValidatePackageName m" "ValidatePackageName n" "pkg_dir s m @ x = pkg_dir s n @ y"
  shows "m = n" "x = y"
proof -
  have e: "split_on CHR ''/'' m @ x = split_on CHR ''/'' n @ y" using assms(3) by (simp add: pkg_dir_def)
  have "split_on CHR ''/'' m = split_on CHR ''/'' n"
    using valid_name [OF assms(1)] valid_name [OF assms(2)] e by (auto simp: segment_ok_def)
  moreover from this show "x = y" using e by simp
  ultimately show "m = n" by (metis join_split)
qed

lemma npm_paths:
  assumes "ValidatePackageName name"
  shows "CHR ''/'' \<notin> set v \<Longrightarrow> versionMetaPath s name v = pkg_dir s name @ [''versions'', v @ ''.json'']"
    and "segment_ok f \<Longrightarrow> tarballPath s name f = pkg_dir s name @ [''tarballs'', f]"
    and "distTagsPath s name = pkg_dir s name @ [''dist-tags.json'']"
    and "packumentCachePath s name = pkg_dir s name @ [''packument.json'']"
    and "readmePath s name = pkg_dir s name @ [''readme.md'']"
    and "npm_path s [''packages'', name, ''versions''] = pkg_dir s name @ [''versions'']"
proof -
  have ok: "segment_ok ''packages''" "segment_ok ''versions''" "segment_ok ''tarballs''" "segment_ok ''dist-tags.json''"
    "segment_ok ''packument.json''" "segment_ok ''readme.md''" by (simp_all add: segment_ok_def)
  have p: "npm_path s (''packages'' # name # rest) = pkg_dir s name @ rest" if "list_all segment_ok rest" for rest
  proof -
    have r: "map (split_on CHR ''/'') rest = map (\<lambda>x. [x]) rest"
      using that by (auto simp: list_all_iff segment_ok_def split_on_single)
    have one: "split_on CHR ''/'' ''packages'' = [''packages'']" by (simp add: split_on_single)
    show ?thesis unfolding npm_path_def pkg_dir_def
      using abs_steps [of "''packages'' # split_on CHR ''/'' name @ rest" "pk_base s"] valid_segments [OF assms] that ok(1)
      by (simp add: r one concat_map_singleton)
  qed
  show "versionMetaPath s name v = pkg_dir s name @ [''versions'', v @ ''.json'']" if "CHR ''/'' \<notin> set v"
  proof -
    have "segment_ok (v @ ''.json'')" using that by (cases v) (auto simp: segment_ok_def)
    then show ?thesis using p [of "[''versions'', v @ ''.json'']"] ok by (simp add: versionMetaPath_def)
  qed
  show "tarballPath s name f = pkg_dir s name @ [''tarballs'', f]" if "segment_ok f"
    using p [of "[''tarballs'', f]"] ok that by (simp add: tarballPath_def)
  show "distTagsPath s name = pkg_dir s name @ [''dist-tags.json'']" "packumentCachePath s name = pkg_dir s name @ [''packument.json'']"
    "readmePath s name = pkg_dir s name @ [''readme.md'']" "npm_path s [''packages'', name, ''versions''] = pkg_dir s name @ [''versions'']"
    using p [of "[''dist-tags.json'']"] p [of "[''packument.json'']"] p [of "[''readme.md'']"] p [of "[''versions'']"] ok
    by (simp_all add: distTagsPath_def packumentCachePath_def readmePath_def)
qed

section \<open>What a packument is made from\<close>

lemma npm_put_get [simp]:
  "npm_put s p body now = Some s' \<Longrightarrow> npm_get s' q = (if q = p then Some body else npm_get s q)"
  "npm_get (npm_drop s p) q = (if q = p \<and> pk_writable s \<and> p \<notin> set (pk_stuck s) then None else npm_get s q)"
  by (auto simp: npm_put_def npm_drop_def npm_get_def split: if_splits)

text \<open>What the operations leave of a store: its base path, whether it is writable, the paths that cannot be deleted.\<close>

definition same_kind :: "pkg_store \<Rightarrow> pkg_store \<Rightarrow> bool" where
  "same_kind s s' \<longleftrightarrow> pk_base s' = pk_base s \<and> pk_writable s' = pk_writable s \<and> pk_stuck s' = pk_stuck s"

lemma same_kind_simps [simp]:
  "same_kind s s" "same_kind s (npm_drop s p)" "npm_put s p body now = Some s' \<Longrightarrow> same_kind s s'"
  by (auto simp: same_kind_def npm_drop_def npm_put_def split: if_splits)

lemma same_kind_trans: "same_kind a b \<Longrightarrow> same_kind b c \<Longrightarrow> same_kind a c"
  by (simp add: same_kind_def)

lemma same_kind_paths:
  assumes "same_kind s s'"
  shows "npm_path s' = npm_path s" "versionMetaPath s' = versionMetaPath s" "tarballPath s' = tarballPath s"
    "distTagsPath s' = distTagsPath s" "packumentCachePath s' = packumentCachePath s" "readmePath s' = readmePath s" "pkg_dir s' = pkg_dir s"
  using assms by (simp_all add: same_kind_def npm_path_def versionMetaPath_def tarballPath_def distTagsPath_def packumentCachePath_def
      readmePath_def pkg_dir_def fun_eq_iff)








section \<open>The cached packument\<close>
















lemmas npm_kinds = same_kind_simps(2,3)







lemma coherent_unwritable: "\<not> pk_writable s \<Longrightarrow> npm_put s p b now = None"
  by (simp add: npm_put_def)






section \<open>Runs of requests\<close>














section \<open>Properties\<close>



section \<open>What a publish leaves in the store\<close>

lemma drop_kept [simp]: "pk_stuck (npm_drop s p) = pk_stuck s" "pk_writable (npm_drop s p) = pk_writable s"
  by (simp_all add: npm_drop_def)

lemma put_writable: "npm_put s p b now = Some s' \<Longrightarrow> pk_writable s'"
  by (auto simp: npm_put_def split: if_splits)

definition published_readme :: "npm_publish \<Rightarrow> parsed_publish \<Rightarrow> string" where
  "published_readme q p = (if ps_Readme p \<noteq> [] then ps_Readme p else nq_readme q (ps_Tarball p))"

definition published_meta :: "npm_publish \<Rightarrow> parsed_publish \<Rightarrow> meta" where
  "published_meta q p = fst (RewriteVersionMetaTarball (ps_Meta p) (ps_Name p) (nq_base q))"

lemma write_readme_get:
  assumes "pk_writable s"
  shows "npm_get (WriteReadme s n rd now) x = (if x = readmePath s n then Some rd else npm_get s x)"
proof -
  have put: "npm_put s (readmePath s n) rd now = Some (s\<lparr>pk_fs := fs_write (pk_fs s) (readmePath s n) rd now\<rparr>)"
    using assms by (simp add: npm_put_def)
  show ?thesis unfolding WriteReadme_def put option.case by (rule npm_put_get(1) [OF put])
qed

lemma store_publish_get:
  assumes "store_publish c l q p now = (l', NpmCreated)" "packumentCachePath (np_store l) (ps_Name p) \<notin> set (pk_stuck (np_store l))"
  shows "\<exists>tags existing t. same_kind (np_store l) (np_store l') \<and>
    existing = (case ReadDistTags c t (ps_Name p) of None \<Rightarrow> [] | Some x \<Rightarrow> x) \<and>
    tags = merge_tags existing (ps_DistTags p) (ps_Version p) \<and>
    npm_get (np_store l') x =
     (if x = packumentCachePath (np_store l) (ps_Name p) then None
      else if x = distTagsPath (np_store l) (ps_Name p) then Some (nc_enc c (JObj (map (\<lambda>(k, v). (k, JStr v)) tags)))
      else if x = readmePath (np_store l) (ps_Name p) \<and> published_readme q p \<noteq> [] then Some (published_readme q p)
      else if x = versionMetaPath (np_store l) (ps_Name p) (ps_Version p) then Some (nc_enc c (JObj (published_meta q p)))
      else if x = tarballPath (np_store l) (ps_Name p) (published_file q p) then Some (ps_Tarball p)
      else npm_get (np_store l) x)"
proof -
  let ?n = "ps_Name p" and ?s = "np_store l"
  obtain m fn where r: "RewriteVersionMetaTarball (ps_Meta p) ?n (nq_base q) = (m, fn)" by fastforce
  have pm: "published_meta q p = m" and pf: "published_file q p = (if fn = [] then ps_TarballName p else fn)"
    by (simp_all add: published_meta_def published_file_def r)
  obtain s1 where s1: "WriteTarball ?s ?n (published_file q p) (ps_Tarball p) now = Some s1"
    using assms(1) by (cases "WriteTarball ?s ?n (published_file q p) (ps_Tarball p) now") (simp_all add: store_publish_def r pf Let_def)
  obtain s2 where s2: "WriteVersionMeta c s1 ?n (ps_Version p) m now = Some s2"
    using assms(1) s1 by (cases "WriteVersionMeta c s1 ?n (ps_Version p) m now") (simp_all add: store_publish_def r pf Let_def)
  define rd where "rd = published_readme q p"
  define s3 where "s3 = (if rd \<noteq> [] then WriteReadme s2 ?n rd now else s2)"
  define ts where "ts = merge_tags (case ReadDistTags c s3 ?n of None \<Rightarrow> [] | Some t \<Rightarrow> t) (ps_DistTags p) (ps_Version p)"
  have "store_publish c l q p now = (case WriteDistTags c s3 ?n ts now of
      None \<Rightarrow> (l\<lparr>np_store := s3\<rparr>, NpmStatus 500) | Some s4 \<Rightarrow> (l\<lparr>np_store := s4\<rparr>, NpmCreated))"
    unfolding store_publish_def ts_def s3_def rd_def published_readme_def using s1 s2 by (simp add: r pf Let_def)
  then obtain s4 where s4: "WriteDistTags c s3 ?n ts now = Some s4" and l': "np_store l' = s4"
    using assms(1) by (cases "WriteDistTags c s3 ?n ts now") auto
  obtain t1 where t1: "npm_put s1 (versionMetaPath s1 ?n (ps_Version p)) (nc_enc c (JObj m)) now = Some t1" "s2 = npm_drop t1 (packumentCachePath t1 ?n)"
    using s2 by (auto simp: WriteVersionMeta_def split: option.splits)
  obtain t2 where t2: "npm_put s3 (distTagsPath s3 ?n) (nc_enc c (JObj (map (\<lambda>(k, v). (k, JStr v)) ts))) now = Some t2"
      "s4 = npm_drop t2 (packumentCachePath t2 ?n)"
    using s4 by (auto simp: WriteDistTags_def split: option.splits)
  have put1: "npm_put ?s (tarballPath ?s ?n (published_file q p)) (ps_Tarball p) now = Some s1"
    using s1 by (simp add: WriteTarball_def)
  have k1: "same_kind ?s s1" using put1 by simp
  have k2: "same_kind ?s t1" using same_kind_trans [OF k1] t1(1) by simp
  have k3: "same_kind ?s s2" using same_kind_trans [OF k2] t1(2) by simp
  have rdm: "same_kind s2 s3" by (simp add: s3_def WriteReadme_def split: option.splits)
  have k4: "same_kind ?s s3" using same_kind_trans [OF k3 rdm] .
  have k5: "same_kind ?s t2" using same_kind_trans [OF k4] t2(1) by simp
  have k6: "same_kind ?s s4" using same_kind_trans [OF k5] t2(2) by simp
  have w: "pk_writable s2" using t1(2) put_writable [OF t1(1)] by simp
  have g3: "npm_get s3 x = (if x = readmePath ?s ?n \<and> rd \<noteq> [] then Some rd else npm_get s2 x)"
    by (simp add: s3_def write_readme_get [OF w] same_kind_paths(6) [OF k3])
  have g1: "npm_get s1 x = (if x = tarballPath ?s ?n (published_file q p) then Some (ps_Tarball p) else npm_get ?s x)"
    using put1 by simp
  have g2: "npm_get t1 x = (if x = versionMetaPath ?s ?n (ps_Version p) then Some (nc_enc c (JObj m)) else npm_get s1 x)"
    using t1(1) by (simp add: same_kind_paths(2) [OF k1])
  have "pk_stuck t1 = pk_stuck ?s" "pk_stuck t2 = pk_stuck ?s" using k2 k5 by (simp_all add: same_kind_def)
  then have nst: "packumentCachePath ?s ?n \<notin> set (pk_stuck t1)" "packumentCachePath ?s ?n \<notin> set (pk_stuck t2)"
    using assms(2) by simp_all
  have wr: "pk_writable t1" "pk_writable t2" using put_writable t1(1) t2(1) by blast+
  have g2': "npm_get s2 x = (if x = packumentCachePath ?s ?n then None else npm_get t1 x)"
    unfolding t1(2) same_kind_paths(5) [OF k2] using nst(1) wr(1) by simp
  have g5: "npm_get s4 x = (if x = packumentCachePath ?s ?n then None else npm_get t2 x)"
    unfolding t2(2) same_kind_paths(5) [OF k5] using nst(2) wr(2) by simp
  have g4: "npm_get t2 x = (if x = distTagsPath ?s ?n then Some (nc_enc c (JObj (map (\<lambda>(k, v). (k, JStr v)) ts))) else npm_get s3 x)"
    using t2(1) by (simp add: same_kind_paths(4) [OF k4])
  note g = g5 [unfolded g4 g3 g2' g2 g1]
  show ?thesis
  proof (intro exI conjI)
    show "same_kind ?s (np_store l')" using k6 by (simp add: l')
    show "(case ReadDistTags c s3 ?n of None \<Rightarrow> [] | Some t \<Rightarrow> t) = (case ReadDistTags c s3 ?n of None \<Rightarrow> [] | Some x \<Rightarrow> x)" by (rule refl)
    show "ts = merge_tags (case ReadDistTags c s3 ?n of None \<Rightarrow> [] | Some t \<Rightarrow> t) (ps_DistTags p) (ps_Version p)" by (rule ts_def)
    show "npm_get (np_store l') x =
     (if x = packumentCachePath ?s ?n then None
      else if x = distTagsPath ?s ?n then Some (nc_enc c (JObj (map (\<lambda>(k, v). (k, JStr v)) ts)))
      else if x = readmePath ?s ?n \<and> published_readme q p \<noteq> [] then Some (published_readme q p)
      else if x = versionMetaPath ?s ?n (ps_Version p) then Some (nc_enc c (JObj (published_meta q p)))
      else if x = tarballPath ?s ?n (published_file q p) then Some (ps_Tarball p)
      else npm_get ?s x)"
      unfolding l' pm rd_def [symmetric] g by (cases "x = packumentCachePath ?s ?n") auto
  qed
qed


lemma accepted_publish:
  assumes "servePublish c l name q now = (l', NpmCreated)"
    "ParsePublish c q (if np_MaxUpload l = 0 then 200 * 1024 * 1024 else np_MaxUpload l) now = Parsed p"
  shows "ps_Name p = name" "store_publish c l q p now = (l', NpmCreated)"
    "\<not> VersionMetaExists (np_store l) name (ps_Version p)"
  using assms by (auto simp: servePublish_def split: if_splits)

lemma string_members_strings [simp]: "string_members (map (\<lambda>(k, v). (k, JStr v)) tags) = Some tags"
  by (induction tags) auto

lemma set_key_get [simp]: "map_of (set_key k v m) x = (if x = k then Some v else map_of m x)"
  by (induction m) auto



lemma listed_version:
  assumes "v \<noteq> []" "npm_get s (npm_path s [''packages'', name, ''versions''] @ [v @ ''.json'']) \<noteq> None"
  shows "v \<in> set (npm_ListVersions s name)"
proof -
  have "v @ ''.json'' \<in> set (dir_files (pk_fs s) (npm_path s [''packages'', name, ''versions'']))"
    unfolding dir_files_iff using assms(2) read_key by (fastforce simp: npm_get_def)
  then show ?thesis using assms(1) by (force simp: npm_ListVersions_def has_suffix_iff image_iff)
qed


text \<open>A version that climbs out of the versions of its package.\<close>

lemma climbing_version:
  assumes "ValidatePackageName name" "CHR ''/'' \<notin> set name" "ValidatePackageName victim" "CHR ''/'' \<notin> set v"
  shows "versionMetaPath s name (''../../'' @ victim @ ''/versions/'' @ v) = pkg_dir s victim @ [''versions'', v @ ''.json'']"
proof -
  have n: "segment_ok name" using valid_segments [OF assms(1)] assms(2) by (simp add: split_on_single)
  have f: "segment_ok (v @ ''.json'')" using assms(4) by (cases v) (auto simp: segment_ok_def)
  have fix_ok: "segment_ok ''packages''" "segment_ok ''versions''" by (simp_all add: segment_ok_def)
  have "split_on CHR ''/'' (''../../'' @ victim @ ''/versions/'' @ v @ ''.json'')
      = ''..'' # ''..'' # split_on CHR ''/'' (victim @ CHR ''/'' # (''versions'' @ CHR ''/'' # (v @ ''.json'')))"
    using split_on_append [of "CHR ''/''" "''..''"] by simp
  also have "split_on CHR ''/'' (victim @ CHR ''/'' # (''versions'' @ CHR ''/'' # (v @ ''.json'')))
      = split_on CHR ''/'' victim @ [''versions'', v @ ''.json'']"
  proof -
    have t: "split_on CHR ''/'' (''versions'' @ CHR ''/'' # (v @ ''.json'')) = [''versions'', v @ ''.json'']"
      using split_on_append [of "CHR ''/''" "''versions''" "v @ ''.json''"] assms(4) by (simp add: split_on_single)
    show ?thesis
      using valid_name [OF assms(3)]
    proof (elim disjE exE conjE)
      assume "segment_ok victim"
      then show ?thesis using split_on_append [of "CHR ''/''" victim] t by (simp add: split_on_single segment_ok_def)
    next
      fix sc b assume s: "segment_ok (CHR ''@'' # sc)" "segment_ok b" "split_on CHR ''/'' victim = [CHR ''@'' # sc, b]"
      have "victim = (CHR ''@'' # sc) @ CHR ''/'' # b" using join_split [of "CHR ''/''" victim] s(3) by simp
      then show ?thesis using s split_on_append [of "CHR ''/''" "CHR ''@'' # sc" "b @ CHR ''/'' # (''versions'' @ CHR ''/'' # (v @ ''.json''))"]
          split_on_append [of "CHR ''/''" b] t by (simp add: segment_ok_def)
    qed
  qed
  finally have sp: "split_on CHR ''/'' (''../../'' @ victim @ ''/versions/'' @ v @ ''.json'')
      = ''..'' # ''..'' # split_on CHR ''/'' victim @ [''versions'', v @ ''.json'']" .
  have one: "split_on CHR ''/'' ''packages'' = [''packages'']" "split_on CHR ''/'' ''versions'' = [''versions'']" "split_on CHR ''/'' name = [name]"
    using assms(2) by (simp_all add: split_on_single)
  have ok: "list_all segment_ok (split_on CHR ''/'' victim @ [''versions'', v @ ''.json''])"
    using valid_segments [OF assms(3)] f fix_ok by simp
  have "versionMetaPath s name (''../../'' @ victim @ ''/versions/'' @ v)
      = foldl abs_step (pk_base s) ([''packages'', name, ''versions''] @ ''..'' # ''..'' # split_on CHR ''/'' victim @ [''versions'', v @ ''.json''])"
    using sp by (simp add: versionMetaPath_def npm_path_def one)
  also have "\<dots> = foldl abs_step (pk_base s @ [''packages'']) (split_on CHR ''/'' victim @ [''versions'', v @ ''.json''])"
    using n fix_ok abs_steps [of "[''packages'', name, ''versions'']" "pk_base s"] by (simp add: abs_step_def butlast_append segment_ok_def)
  also have "\<dots> = pkg_dir s victim @ [''versions'', v @ ''.json'']"
    using abs_steps [OF ok] by (simp add: pkg_dir_def)
  finally show ?thesis .
qed











section \<open>What is served\<close>

text \<open>Metadata as it is served: as it was given, but for the order of keys and the URL of the tarball.\<close>

definition meta_served :: "meta \<Rightarrow> meta \<Rightarrow> bool" where
  "meta_served m m' \<longleftrightarrow> (\<forall>k. k \<noteq> ''dist'' \<longrightarrow> map_of m' k = map_option json_canon (map_of m k)) \<and>
     (\<forall>dist. map_of m ''dist'' = Some (JObj dist) \<longrightarrow> (\<exists>dist'. map_of m' ''dist'' = Some (JObj dist') \<and>
        (\<forall>k. k \<noteq> ''tarball'' \<longrightarrow> map_of dist' k = map_option json_canon (map_of dist k))))"


lemma served_canon: "meta_served (canon_members m) m' \<Longrightarrow> meta_served m m'"
  by (fastforce simp: meta_served_def option.map_comp comp_def)











text \<open>
  C40: a publish to one package can write a version of another.  The version is not checked, and one that climbs, as
  \<open>../../victim/versions/9.9.9\<close> does, is accepted for the package the caller may write and then listed among the
  versions of \<open>victim\<close> with the metadata of the caller, as it reads back.
\<close>

theorem publish_climbs:
  assumes "packumentCachePath (np_store l) name \<notin> set (pk_stuck (np_store l))"
    and "nc_dec c (nc_enc c (JObj (published_meta q p))) = Some (JObj m)"
    and "ParsePublish c q (if np_MaxUpload l = 0 then 200 * 1024 * 1024 else np_MaxUpload l) now = Parsed p"
    and "servePublish c l name q now = (l', NpmCreated)"
    and "ValidatePackageName name" "CHR ''/'' \<notin> set name" "ValidatePackageName victim" "victim \<noteq> name"
    and "ps_Version p = ''../../'' @ victim @ ''/versions/'' @ v" "CHR ''/'' \<notin> set v" "v \<noteq> []" "segment_ok (published_file q p)"
  shows "v \<in> set (npm_ListVersions (np_store l') victim) \<and>
    ReadVersionMeta c (np_store l') victim v = Some m"
proof -
  note acc = accepted_publish [OF assms(4,3)]
  let ?s = "np_store l" and ?s' = "np_store l'"
  note path = npm_paths [OF assms(5)] and vpath = npm_paths [OF assms(7)]
  have nst: "packumentCachePath ?s (ps_Name p) \<notin> set (pk_stuck ?s)" using assms(1) by (simp add: acc(1))
  note get = store_publish_get [OF acc(2) nst, unfolded acc(1)]
  have k: "same_kind ?s ?s'" using get by blast
  note kp = same_kind_paths [OF k]
  have v: "versionMetaPath ?s name (ps_Version p) = pkg_dir ?s victim @ [''versions'', v @ ''.json'']"
    unfolding assms(9) by (rule climbing_version [OF assms(5-7,10)])
  have other: "pkg_dir ?s victim @ x \<noteq> pkg_dir ?s name @ y" for x y
    using pkg_dir_inj(1) [OF assms(7,5)] assms(8) by blast
  have meta: "npm_get ?s' (pkg_dir ?s victim @ [''versions'', v @ ''.json'']) = Some (nc_enc c (JObj (published_meta q p)))"
    using get [of "pkg_dir ?s victim @ [''versions'', v @ ''.json'']"] other by (auto simp: v path(3-5))
  have "v \<in> set (npm_ListVersions ?s' victim)"
    using listed_version [OF assms(11), of ?s' victim] meta by (simp add: kp vpath(6))
  moreover have "ReadVersionMeta c ?s' victim v = Some m"
    using meta assms(2) vpath(1) [OF assms(10)] by (simp add: ReadVersionMeta_def kp)
  ultimately show ?thesis by blast
qed

section \<open>Examples\<close>

definition demo_codec :: npm_codec where
  "demo_codec = \<lparr>nc_enc = \<lambda>j. json_text (json_canon j),
     nc_dec = \<lambda>b. (case text_json b of None \<Rightarrow> None | Some j \<Rightarrow> if json_ok j then Some j else None), nc_sha512 = \<lambda>_. ''abc'', nc_rfc3339 = \<lambda>_. ''2024-01-01''\<rparr>"

definition demo_repo :: npm_local where
  "demo_repo = \<lparr>np_store = \<lparr>pk_fs = [], pk_writable = True, pk_base = [''npm''], pk_stuck = []\<rparr>, np_AllowPush = True, np_MaxUpload = 0\<rparr>"

definition demo_publish :: "string \<Rightarrow> npm_publish" where
  "demo_publish version = \<lparr>nq_body = ''body'', nq_payload = Some \<lparr>pp_Name = ''mine'',
      pp_Versions = [(version, JObj [(''dist'', JObj [(''tarball'', JStr ''http://h/mine/-/mine.tgz'')])])],
      pp_Attachments = [(''mine.tgz'', ''Zm9v'')], pp_DistTags = [(''latest'', version)], pp_Readme = []\<rparr>,
    nq_readme = \<lambda>_. ''read me'', nq_base = ''http://r''\<rparr>"




definition demo_parsed :: "string \<Rightarrow> parsed_publish" where
  "demo_parsed version = (case ParsePublish demo_codec (demo_publish version) (200 * 1024 * 1024) 0 of Parsed p \<Rightarrow> p
     | _ \<Rightarrow> \<lparr>ps_Name = [], ps_Version = [], ps_Meta = [], ps_TarballName = [], ps_Tarball = [], ps_DistTags = [], ps_Readme = []\<rparr>)"



theorem publish_climbs_witness:
  "let l' = fst (servePublish demo_codec demo_repo ''mine'' (demo_publish ''../../victim/versions/9.9.9'') 0)
    in ''9.9.9'' \<in> set (npm_ListVersions (np_store l') ''victim'')"
proof -
  let ?q = "demo_publish ''../../victim/versions/9.9.9''" and ?p = "demo_parsed ''../../victim/versions/9.9.9''"
  have parse: "ParsePublish demo_codec ?q (if np_MaxUpload demo_repo = 0 then 200 * 1024 * 1024 else np_MaxUpload demo_repo) 0 = Parsed ?p"
    by code_simp
  have ok: "snd (servePublish demo_codec demo_repo ''mine'' ?q 0) = NpmCreated" by code_simp
  have side: "ValidatePackageName ''mine''" "CHR ''/'' \<notin> set ''mine''" "ValidatePackageName ''victim''" "''victim'' \<noteq> ''mine''"
    "ps_Version ?p = ''../../'' @ ''victim'' @ ''/versions/'' @ ''9.9.9''" "CHR ''/'' \<notin> set ''9.9.9''" "''9.9.9'' \<noteq> []"
    "segment_ok (published_file ?q ?p)" by code_simp+
  have law: "nc_dec demo_codec (nc_enc demo_codec (JObj (published_meta ?q ?p))) = Some (JObj (canon_members (published_meta ?q ?p)))"
    by code_simp
  have nst: "packumentCachePath (np_store demo_repo) ''mine'' \<notin> set (pk_stuck (np_store demo_repo))" by (simp add: demo_repo_def)
  have e: "servePublish demo_codec demo_repo ''mine'' ?q 0 = (fst (servePublish demo_codec demo_repo ''mine'' ?q 0), NpmCreated)"
    using ok by (metis prod.collapse)
  show ?thesis using publish_climbs [OF nst law parse e side] by (simp add: Let_def)
qed

text \<open>
  A failed deletion leaves a stale answer.  Writing a version and its tags ignores that the cached packument could not be
  deleted: whatever a plain publish then stores, clients are still given the packument that was cached before it.
\<close>

lemma stuck_kept:
  assumes "npm_put s p b now = Some s'" "p \<noteq> x" "x \<in> set (pk_stuck s)"
  shows "npm_get (npm_drop s' x) x = npm_get s x" "npm_get s' x = npm_get s x" "x \<in> set (pk_stuck (npm_drop s' x))"
  using assms same_kind_simps(3) [OF assms(1)] by (simp_all add: same_kind_def)

theorem failed_drop_stale:
  assumes "servePublish c l name q now = (l', NpmCreated)"
    and "ParsePublish c q (if np_MaxUpload l = 0 then 200 * 1024 * 1024 else np_MaxUpload l) now = Parsed p"
    and "ValidatePackageName name" "CHR ''/'' \<notin> set (ps_Version p)" "segment_ok (published_file q p)"
    and "packumentCachePath (np_store l) name \<in> set (pk_stuck (np_store l))"
    and "npm_get (np_store l) (packumentCachePath (np_store l) name) = Some b" "b \<noteq> []"
  shows "snd (servePackument c l' name base t) = NpmBody (rewritePackumentTarballs c b base)"
proof -
  note acc = accepted_publish [OF assms(1,2)]
  let ?s = "np_store l" and ?x = "packumentCachePath (np_store l) name"
  note path = npm_paths [OF assms(3)]
  have ne: "tarballPath ?s name (published_file q p) \<noteq> ?x" "versionMetaPath ?s name (ps_Version p) \<noteq> ?x"
    "readmePath ?s name \<noteq> ?x" "distTagsPath ?s name \<noteq> ?x"
    by (simp_all add: path(1) [OF assms(4)] path(2) [OF assms(5)] path(3-5))
  obtain m fn where r: "RewriteVersionMetaTarball (ps_Meta p) name (nq_base q) = (m, fn)" by fastforce
  have pf: "published_file q p = (if fn = [] then ps_TarballName p else fn)" by (simp add: published_file_def r acc(1))
  obtain s1 where s1: "WriteTarball ?s name (published_file q p) (ps_Tarball p) now = Some s1"
    using acc(2) by (cases "WriteTarball ?s name (published_file q p) (ps_Tarball p) now") (simp_all add: store_publish_def r pf Let_def acc(1))
  obtain s2 where s2: "WriteVersionMeta c s1 name (ps_Version p) m now = Some s2"
    using acc(2) s1 by (cases "WriteVersionMeta c s1 name (ps_Version p) m now") (simp_all add: store_publish_def r pf Let_def acc(1))
  define rd where "rd = published_readme q p"
  define s3 where "s3 = (if rd \<noteq> [] then WriteReadme s2 name rd now else s2)"
  define ts where "ts = merge_tags (case ReadDistTags c s3 name of None \<Rightarrow> [] | Some t \<Rightarrow> t) (ps_DistTags p) (ps_Version p)"
  have "store_publish c l q p now = (case WriteDistTags c s3 name ts now of
      None \<Rightarrow> (l\<lparr>np_store := s3\<rparr>, NpmStatus 500) | Some s4 \<Rightarrow> (l\<lparr>np_store := s4\<rparr>, NpmCreated))"
    unfolding store_publish_def ts_def s3_def rd_def published_readme_def using s1 s2 by (simp add: r pf Let_def acc(1))
  then obtain s4 where s4: "WriteDistTags c s3 name ts now = Some s4" and l': "np_store l' = s4"
    using acc(2) by (cases "WriteDistTags c s3 name ts now") auto
  have put1: "npm_put ?s (tarballPath ?s name (published_file q p)) (ps_Tarball p) now = Some s1" using s1 by (simp add: WriteTarball_def)
  have k1: "same_kind ?s s1" using put1 by simp
  note p1 = same_kind_paths [OF k1]
  obtain t1 where t1: "npm_put s1 (versionMetaPath ?s name (ps_Version p)) (nc_enc c (JObj m)) now = Some t1" "s2 = npm_drop t1 (packumentCachePath t1 name)"
    using s2 by (auto simp: WriteVersionMeta_def p1 split: option.splits)
  have "same_kind ?s t1" using same_kind_trans [OF k1] t1(1) by simp
  then have k2: "same_kind ?s t1" "same_kind ?s s2" using same_kind_trans t1(2) same_kind_simps(2) by blast+
  have e2: "s2 = npm_drop t1 ?x" using t1(2) same_kind_paths(5) [OF k2(1)] by simp
  have "same_kind s2 s3" by (simp add: s3_def WriteReadme_def split: option.split)
  then have k3: "same_kind ?s s3" using same_kind_trans k2(2) by blast
  note p3 = same_kind_paths [OF k3]
  obtain t2 bt where t2: "npm_put s3 (distTagsPath ?s name) bt now = Some t2" "s4 = npm_drop t2 (packumentCachePath t2 name)"
    using s4 by (auto simp: WriteDistTags_def p3 split: option.splits)
  have "same_kind ?s t2" using same_kind_trans [OF k3] t2(1) by simp
  then have k4: "same_kind ?s t2" "same_kind ?s s4" using same_kind_trans t2(2) same_kind_simps(2) by blast+
  have e4: "s4 = npm_drop t2 ?x" using t2(2) same_kind_paths(5) [OF k4(1)] by simp
  have st: "?x \<in> set (pk_stuck s1)" "?x \<in> set (pk_stuck s3)" using assms(6) k1 k3 by (simp_all add: same_kind_def)
  have "npm_get s1 ?x = Some b" using stuck_kept(2) [OF put1 ne(1) assms(6)] assms(7) by simp
  then have "npm_get s2 ?x = Some b" unfolding e2 using stuck_kept(1) [OF t1(1) ne(2) st(1)] by simp
  then have "npm_get s3 ?x = Some b"
    using ne(3) same_kind_paths(6) [OF k2(2)] by (auto simp: s3_def WriteReadme_def split: option.split)
  then have "npm_get s4 ?x = Some b" unfolding e4 using stuck_kept(1) [OF t2(1) ne(4) st(2)] by simp
  then show ?thesis using assms(8) same_kind_paths(5) [OF k4(2)] by (simp add: servePackument_def loadPackumentBody_def l' Let_def)
qed

theorem failed_drop_stale_witness:
  "let s = np_store demo_repo; x = packumentCachePath s ''mine''; l = demo_repo\<lparr>np_store := s\<lparr>pk_stuck := [x], pk_fs := [(x, \<lparr>rf_data = ''old'', rf_mtime = 0\<rparr>)]\<rparr>\<rparr>
   in snd (servePackument demo_codec (fst (servePublish demo_codec l ''mine'' (demo_publish ''1.0.0'') 0)) ''mine'' ''http://r'' 3) = NpmBody ''old''"
proof -
  let ?s = "np_store demo_repo" and ?q = "demo_publish ''1.0.0''" and ?p = "demo_parsed ''1.0.0''"
  let ?x = "packumentCachePath ?s ''mine''"
  let ?l = "demo_repo\<lparr>np_store := ?s\<lparr>pk_stuck := [?x], pk_fs := [(?x, \<lparr>rf_data = ''old'', rf_mtime = 0\<rparr>)]\<rparr>\<rparr>"
  have ok: "snd (servePublish demo_codec ?l ''mine'' ?q 0) = NpmCreated" by code_simp
  then have e: "servePublish demo_codec ?l ''mine'' ?q 0 = (fst (servePublish demo_codec ?l ''mine'' ?q 0), NpmCreated)" by (metis prod.collapse)
  have parse: "ParsePublish demo_codec ?q (if np_MaxUpload ?l = 0 then 200 * 1024 * 1024 else np_MaxUpload ?l) 0 = Parsed ?p" by code_simp
  have side: "ValidatePackageName ''mine''" "CHR ''/'' \<notin> set (ps_Version ?p)" "segment_ok (published_file ?q ?p)"
    "packumentCachePath (np_store ?l) ''mine'' \<in> set (pk_stuck (np_store ?l))"
    "npm_get (np_store ?l) (packumentCachePath (np_store ?l) ''mine'') = Some ''old''" "''old'' \<noteq> []"
    "rewritePackumentTarballs demo_codec ''old'' ''http://r'' = ''old''" by code_simp+
  show ?thesis using failed_drop_stale [OF e parse side(1-6), of "''http://r''" 3] side(7) by (simp add: Let_def)
qed

text \<open>
  A README that is extracted later is not served.  The page of a version stores the README it finds in the tarball and shows
  it, while clients are still given the packument that was cached without it.
\<close>

theorem lazy_readme_stale:
  assumes "ValidatePackageName name" "npm_get s (packumentCachePath s name) = Some b" "b \<noteq> []" "pk_writable s"
    and "npm_get s (tarballPath s name fname) = Some tarball" "extract tarball \<noteq> []"
  shows "case LazyExtractReadme extract s name fname now of (s', shown) \<Rightarrow>
    shown = extract tarball \<and> ReadReadme s' name = extract tarball \<and> loadPackumentBody c s' name t = (s', Some b)"
proof -
  let ?s' = "WriteReadme s name (extract tarball) now"
  have "same_kind s ?s'" by (auto simp: WriteReadme_def split: option.split)
  note k = same_kind_paths [OF this]
  have "packumentCachePath s name \<noteq> readmePath s name" by (simp add: npm_paths(4,5) [OF assms(1)])
  then have "npm_get ?s' (packumentCachePath s name) = Some b" "npm_get ?s' (readmePath s name) = Some (extract tarball)"
    using assms(2,4) by (simp_all add: write_readme_get)
  then show ?thesis using assms(3,5,6) by (simp add: LazyExtractReadme_def ReadReadme_def loadPackumentBody_def Let_def k)
qed

theorem lazy_readme_stale_witness:
  "let s = (np_store demo_repo)\<lparr>pk_fs := [([''npm'', ''packages'', ''mine'', ''packument.json''], \<lparr>rf_data = ''old'', rf_mtime = 0\<rparr>),
       ([''npm'', ''packages'', ''mine'', ''tarballs'', ''mine.tgz''], \<lparr>rf_data = ''foo'', rf_mtime = 0\<rparr>)]\<rparr>;
     s' = fst (LazyExtractReadme (\<lambda>_. ''read me'') s ''mine'' ''mine.tgz'' 1)
   in ReadReadme s' ''mine'' = ''read me'' \<and> snd (loadPackumentBody demo_codec s' ''mine'' 2) = Some ''old''"
proof -
  let ?s = "(np_store demo_repo)\<lparr>pk_fs := [([''npm'', ''packages'', ''mine'', ''packument.json''], \<lparr>rf_data = ''old'', rf_mtime = 0\<rparr>),
       ([''npm'', ''packages'', ''mine'', ''tarballs'', ''mine.tgz''], \<lparr>rf_data = ''foo'', rf_mtime = 0\<rparr>)]\<rparr>"
  have side: "ValidatePackageName ''mine''" "npm_get ?s (packumentCachePath ?s ''mine'') = Some ''old''" "''old'' \<noteq> []" "pk_writable ?s"
    "npm_get ?s (tarballPath ?s ''mine'' ''mine.tgz'') = Some ''foo''" by code_simp+
  have "(\<lambda>_. ''read me'') ''foo'' \<noteq> []" by simp
  from lazy_readme_stale [OF side this, of demo_codec 2 1] show ?thesis by (simp add: Let_def case_prod_beta)
qed

text \<open>The largest limit refuses every publish: the limit plus one is negative, and the body is not read.\<close>

theorem largest_limit_refuses:
  assumes "np_AllowPush l" "np_MaxUpload l = 2 ^ 63 - 1"
  shows "servePublish c l name q now = (l, NpmStatus 400)"
  using assms ParsePublish_overflow [of c q now] by (simp add: servePublish_def)

theorem largest_limit_refuses_witness:
  "servePublish demo_codec (demo_repo\<lparr>np_MaxUpload := 2 ^ 63 - 1\<rparr>) ''mine'' (demo_publish ''1.0.0'') 0
     = (demo_repo\<lparr>np_MaxUpload := 2 ^ 63 - 1\<rparr>, NpmStatus 400)"
  by (rule largest_limit_refuses) (simp_all add: demo_repo_def)

end
