(* ===== verification/Local_FS.thy ===== *)
theory Local_FS
  imports Pkg_Store
begin

text \<open>
  The local file system backend (\<open>internal/rawfs/localfs/localfs.go\<close>).  A mounted directory is its root path, the files
  below it and the directories below it, each a path from the root; the calls of \<open>os\<close> on these are spelled out.
  Symbolic links, permissions and concurrent changes by other programs are left out; sizes and times of directories are
  the operating system's and are zero here.  A written body is its bytes and whether it could be read to its end.
\<close>

section \<open>Paths\<close>

record local_fs =
  lf_root :: string
  lf_files :: rawfs
  lf_dirs :: "path list"

text \<open>The path below the root that \<open>safePath\<close> resolves to, \<open>None\<close> when it refuses.\<close>

definition safePath :: "string \<Rightarrow> string \<Rightarrow> path option" where
  "safePath root rel = (let cleaned = join_on CHR ''/'' (clean_abs rel);
       full = (if cleaned = [] then root else if root = ''/'' then root @ cleaned else root @ CHR ''/'' # cleaned)
     in if list_ex (\<lambda>part. part = ''..'') (split_on CHR ''/'' cleaned) then None
        else if has_prefix full (root @ ''/'') \<or> full = root then Some (clean_abs rel) else None)"

section \<open>Calls of the operating system\<close>

definition os_is_dir :: "local_fs \<Rightarrow> path \<Rightarrow> bool" where
  "os_is_dir fs p \<longleftrightarrow> p \<in> set (lf_dirs fs)"

definition path_prefixes :: "path \<Rightarrow> path list" where
  "path_prefixes p = map (\<lambda>i. take i p) [0..<Suc (length p)]"

definition os_MkdirAll :: "local_fs \<Rightarrow> path \<Rightarrow> local_fs option" where
  "os_MkdirAll fs p = (if list_ex (\<lambda>q. fs_read (lf_files fs) q \<noteq> None) (path_prefixes p) then None
     else Some (fs\<lparr>lf_dirs := lf_dirs fs @ filter (\<lambda>q. q \<notin> set (lf_dirs fs)) (path_prefixes p)\<rparr>))"

definition os_Create :: "local_fs \<Rightarrow> path \<Rightarrow> string \<Rightarrow> unix_time \<Rightarrow> local_fs option" where
  "os_Create fs p body now = (if os_is_dir fs p \<or> p \<noteq> [] \<and> \<not> os_is_dir fs (butlast p) then None
     else Some (fs\<lparr>lf_files := fs_write (lf_files fs) p body now\<rparr>))"

definition os_empty_dir :: "local_fs \<Rightarrow> path \<Rightarrow> bool" where
  "os_empty_dir fs p \<longleftrightarrow> \<not> list_ex (\<lambda>x. fst x \<noteq> [] \<and> butlast (fst x) = p) (lf_files fs) \<and> \<not> list_ex (\<lambda>d. d \<noteq> [] \<and> butlast d = p) (lf_dirs fs)"

text \<open>The directory that is made before a file is created in it.\<close>

definition make_parent :: "local_fs \<Rightarrow> path \<Rightarrow> local_fs option" where
  "make_parent fs p = (if p = [] then Some fs else os_MkdirAll fs (butlast p))"

section \<open>The backend\<close>

datatype fs_error = FsNotExist | FsFailed

record fs_info =
  fi_Size :: nat
  fi_IsDir :: bool
  fi_ModTime :: unix_time

definition lf_Stat :: "local_fs \<Rightarrow> string \<Rightarrow> fs_info option" where
  "lf_Stat fs rel = (case safePath (lf_root fs) rel of None \<Rightarrow> None
     | Some p \<Rightarrow> (case fs_read (lf_files fs) p of
         Some f \<Rightarrow> Some \<lparr>fi_Size = length (rf_data f), fi_IsDir = False, fi_ModTime = rf_mtime f\<rparr>
       | None \<Rightarrow> if os_is_dir fs p then Some \<lparr>fi_Size = 0, fi_IsDir = True, fi_ModTime = 0\<rparr> else None))"

record dir_entry =
  de_Name :: string
  de_IsDir :: bool
  de_Size :: nat

text \<open>\<open>os.ReadDir\<close> gives the entries sorted by name.\<close>

definition lf_entry :: "local_fs \<Rightarrow> path \<Rightarrow> string \<Rightarrow> dir_entry" where
  "lf_entry fs p name = (case fs_read (lf_files fs) (p @ [name]) of
     Some f \<Rightarrow> \<lparr>de_Name = name, de_IsDir = False, de_Size = length (rf_data f)\<rparr>
   | None \<Rightarrow> \<lparr>de_Name = name, de_IsDir = True, de_Size = 0\<rparr>)"

definition child_names :: "local_fs \<Rightarrow> path \<Rightarrow> string list" where
  "child_names fs p = map last (filter (\<lambda>q. q \<noteq> [] \<and> butlast q = p) (map fst (lf_files fs) @ lf_dirs fs))"

definition lf_ReadDir :: "local_fs \<Rightarrow> string \<Rightarrow> dir_entry list option" where
  "lf_ReadDir fs rel = (case safePath (lf_root fs) rel of None \<Rightarrow> None
     | Some p \<Rightarrow> if os_is_dir fs p then Some (map (lf_entry fs p) (sort (remdups (child_names fs p)))) else None)"

text \<open>The bytes of a file; a directory can be opened but not read.\<close>

definition lf_Open :: "local_fs \<Rightarrow> string \<Rightarrow> string option" where
  "lf_Open fs rel = (case safePath (lf_root fs) rel of None \<Rightarrow> None | Some p \<Rightarrow> map_option rf_data (fs_read (lf_files fs) p))"

type_synonym body = "string \<times> bool"

text \<open>The directories made for a path that then cannot be created stay.\<close>

definition lf_Write :: "local_fs \<Rightarrow> string \<Rightarrow> body \<Rightarrow> unix_time \<Rightarrow> local_fs \<times> fs_error option" where
  "lf_Write fs rel body now = (case safePath (lf_root fs) rel of None \<Rightarrow> (fs, Some FsFailed)
     | Some p \<Rightarrow> (case make_parent fs p of None \<Rightarrow> (fs, Some FsFailed)
       | Some fs1 \<Rightarrow> (case os_Create fs1 p (fst body) now of None \<Rightarrow> (fs1, Some FsFailed)
         | Some fs2 \<Rightarrow> (fs2, if snd body then None else Some FsFailed))))"

definition lf_Delete :: "local_fs \<Rightarrow> string \<Rightarrow> local_fs \<times> fs_error option" where
  "lf_Delete fs rel = (case safePath (lf_root fs) rel of None \<Rightarrow> (fs, Some FsFailed)
     | Some p \<Rightarrow>
         if fs_read (lf_files fs) p \<noteq> None then (fs\<lparr>lf_files := fs_delete (lf_files fs) p\<rparr>, None)
         else if os_is_dir fs p then
           (if os_empty_dir fs p then (fs\<lparr>lf_dirs := filter (\<lambda>d. d \<noteq> p) (lf_dirs fs)\<rparr>, None) else (fs, Some FsFailed))
         else (fs, Some (if list_ex (\<lambda>q. fs_read (lf_files fs) q \<noteq> None) (path_prefixes p) then FsFailed else FsNotExist)))"

definition lf_MkDir :: "local_fs \<Rightarrow> string \<Rightarrow> local_fs \<times> fs_error option" where
  "lf_MkDir fs rel = (case safePath (lf_root fs) rel of None \<Rightarrow> (fs, Some FsFailed)
     | Some p \<Rightarrow> (case os_MkdirAll fs p of None \<Rightarrow> (fs, Some FsFailed) | Some fs' \<Rightarrow> (fs', None)))"

text \<open>
  \<open>Copy\<close> opens the source, then creates the destination, which empties a file that is there, and reads the source after
  that.
\<close>

definition lf_Copy :: "local_fs \<Rightarrow> string \<Rightarrow> string \<Rightarrow> unix_time \<Rightarrow> local_fs \<times> fs_error option" where
  "lf_Copy fs src dst now = (case (safePath (lf_root fs) src, safePath (lf_root fs) dst) of
     (Some p, Some q) \<Rightarrow> (case make_parent fs q of None \<Rightarrow> (fs, Some FsFailed)
       | Some fs1 \<Rightarrow>
           if fs_read (lf_files fs1) p = None \<and> \<not> os_is_dir fs1 p then (fs1, Some FsFailed)
           else (case os_Create fs1 q [] now of None \<Rightarrow> (fs1, Some FsFailed)
             | Some fs2 \<Rightarrow> (case fs_read (lf_files fs2) p of None \<Rightarrow> (fs2, Some FsFailed)
               | Some f \<Rightarrow> (fs2\<lparr>lf_files := fs_write (lf_files fs2) q (rf_data f) now\<rparr>, None))))
   | _ \<Rightarrow> (fs, Some FsFailed))"

section \<open>Facts\<close>

lemma no_dots_split: "list_all segment_ok p \<Longrightarrow> p \<noteq> [] \<Longrightarrow> split_on CHR ''/'' (join_on CHR ''/'' p) = p"
  by (rule split_join) (auto simp: segment_ok_def list_all_iff)

lemma join_Nil_iff: "list_all segment_ok p \<Longrightarrow> join_on CHR ''/'' p = [] \<longleftrightarrow> p = []"
  using no_dots_split [of p] by (cases "p = []") (auto simp: segment_ok_def)

text \<open>Every path is resolved below the root, and refused only when the root is the root of the system.\<close>

lemma safePath_below: "root \<noteq> ''/'' \<Longrightarrow> safePath root rel = Some (clean_abs rel)"
proof -
  assume r: "root \<noteq> ''/''"
  have "\<not> list_ex (\<lambda>part. part = ''..'') (split_on CHR ''/'' (join_on CHR ''/'' (clean_abs rel)))"
    using no_dots_split [OF clean_abs_ok [of rel]] clean_abs_no_dots [of rel]
    by (cases "clean_abs rel = []") (auto simp: list_ex_iff)
  then show ?thesis using r by (simp add: safePath_def Let_def has_prefix_def)
qed

lemma root_mount_unusable: "clean_abs rel \<noteq> [] \<Longrightarrow> safePath ''/'' rel = None"
proof -
  assume n: "clean_abs rel \<noteq> []"
  then obtain a b where ab: "clean_abs rel = a # b" "segment_ok a" using clean_abs_ok [of rel] by (cases "clean_abs rel") auto
  have "\<not> has_prefix (join_on CHR ''/'' (a # b)) ''/''"
    using ab(2) by (cases b; cases a) (auto simp: has_prefix_iff segment_ok_def)
  moreover have "join_on CHR ''/'' (a # b) \<noteq> []" using join_Nil_iff [OF clean_abs_ok [of rel]] ab(1) by simp
  ultimately show ?thesis using ab(1) by (simp add: safePath_def Let_def has_prefix_def)
qed


text \<open>What every operation keeps: a file or directory lies in a directory, and nothing is both.\<close>

definition tree_ok :: "local_fs \<Rightarrow> bool" where
  "tree_ok fs \<longleftrightarrow> (\<forall>p\<in>fst ` set (lf_files fs) \<union> set (lf_dirs fs). list_all segment_ok p \<and> (p \<noteq> [] \<longrightarrow> butlast p \<in> set (lf_dirs fs))) \<and>
     fst ` set (lf_files fs) \<inter> set (lf_dirs fs) = {}"

lemma fs_read_None_iff: "fs_read fs p = None \<longleftrightarrow> p \<notin> fst ` set fs"
  by (simp add: fs_read_def map_of_eq_None_iff)

lemma keys_write: "fst ` set (fs_write fs p b t) = insert p (fst ` set fs)"
  by (auto simp: fs_write_def)

lemma keys_delete: "fst ` set (fs_delete fs p) = fst ` set fs - {p}"
  by (auto simp: fs_delete_def)

lemma prefixes_set: "set (path_prefixes p) = {q. \<exists>r. p = q @ r}"
proof -
  have "q \<in> set (path_prefixes p) \<longleftrightarrow> (\<exists>r. p = q @ r)" for q
  proof
    assume "q \<in> set (path_prefixes p)"
    then have "\<exists>i. q = take i p" unfolding path_prefixes_def by (auto intro: exI [of _ "length p"])
    then show "\<exists>r. p = q @ r" by (metis append_take_drop_id)
  next
    assume "\<exists>r. p = q @ r"
    then obtain r where "p = q @ r" by blast
    then have "q = take (length q) p" "length q < Suc (length p)" by simp_all
    then show "q \<in> set (path_prefixes p)" unfolding path_prefixes_def by (metis atLeastLessThan_iff image_eqI le0 set_map set_upt)
  qed
  then show ?thesis by blast
qed

lemma tree_MkdirAll:
  assumes "tree_ok fs" "list_all segment_ok p" "os_MkdirAll fs p = Some fs'"
  shows "tree_ok fs'" "set (lf_dirs fs') = set (lf_dirs fs) \<union> {q. \<exists>r. p = q @ r}" "lf_files fs' = lf_files fs" "lf_root fs' = lf_root fs"
proof -
  have n: "\<forall>q. (\<exists>r. p = q @ r) \<longrightarrow> q \<notin> fst ` set (lf_files fs)"
    and fs': "fs' = fs\<lparr>lf_dirs := lf_dirs fs @ filter (\<lambda>q. q \<notin> set (lf_dirs fs)) (path_prefixes p)\<rparr>"
    using assms(3) by (auto simp: os_MkdirAll_def list_ex_iff prefixes_set fs_read_None_iff split: if_splits)
  show d: "set (lf_dirs fs') = set (lf_dirs fs) \<union> {q. \<exists>r. p = q @ r}" by (auto simp: fs' prefixes_set)
  show "lf_files fs' = lf_files fs" "lf_root fs' = lf_root fs" by (simp_all add: fs')
  have pre: "list_all segment_ok q \<and> (q \<noteq> [] \<longrightarrow> (\<exists>r. p = butlast q @ r))" if "p = q @ r" for q r
    using that assms(2) by (cases q rule: rev_cases) auto
  show "tree_ok fs'" unfolding tree_ok_def d using assms(1) n pre by (auto simp: tree_ok_def fs')
qed

lemma tree_Create:
  assumes "tree_ok fs" "list_all segment_ok p" "os_Create fs p b now = Some fs'"
  shows "fs' = fs\<lparr>lf_files := fs_write (lf_files fs) p b now\<rparr>" "tree_ok fs'"
proof -
  have c: "p \<notin> set (lf_dirs fs)" "p \<noteq> [] \<longrightarrow> butlast p \<in> set (lf_dirs fs)"
    and fs': "fs' = fs\<lparr>lf_files := fs_write (lf_files fs) p b now\<rparr>"
    using assms(3) by (auto simp: os_Create_def os_is_dir_def split: if_splits)
  show "fs' = fs\<lparr>lf_files := fs_write (lf_files fs) p b now\<rparr>" by (rule fs')
  show "tree_ok fs'" using assms(1,2) c by (simp add: tree_ok_def fs' keys_write)
qed

lemma safePath_ok: "safePath root rel = Some p \<Longrightarrow> list_all segment_ok p \<and> p = clean_abs rel"
  by (auto simp: safePath_def Let_def split: if_splits)

lemma segs_butlast: "list_all segment_ok p \<Longrightarrow> list_all segment_ok (butlast p)"
  by (meson in_set_butlastD list_all_iff)

lemma tree_parent:
  assumes "tree_ok fs" "list_all segment_ok p" "make_parent fs p = Some fs'"
  shows "tree_ok fs'" "lf_files fs' = lf_files fs" "lf_root fs' = lf_root fs"
  using tree_MkdirAll [OF assms(1) segs_butlast [OF assms(2)], of fs'] assms(1,3) by (simp_all add: make_parent_def split: if_splits)

lemma tree_Write: "tree_ok fs \<Longrightarrow> tree_ok (fst (lf_Write fs rel body now))"
proof (cases "safePath (lf_root fs) rel")
  case (Some p)
  assume t: "tree_ok fs"
  note ok = safePath_ok [OF Some]
  show ?thesis
  proof (cases "make_parent fs p")
    case f1: (Some fs1)
    note t1 = tree_parent(1) [OF t _ f1]
    have "tree_ok fs2" if "os_Create fs1 p (fst body) now = Some fs2" for fs2 by (rule tree_Create(2) [OF t1 _ that]) (use ok in blast)+
    then show ?thesis using t1 ok Some f1 by (simp add: lf_Write_def split: option.split)
  qed (use t Some in \<open>simp add: lf_Write_def \<close>)
qed (simp add: lf_Write_def)

lemma tree_Delete: "tree_ok fs \<Longrightarrow> tree_ok (fst (lf_Delete fs rel))"
proof (cases "safePath (lf_root fs) rel")
  case (Some p)
  assume t: "tree_ok fs"
  have "tree_ok (fs\<lparr>lf_files := fs_delete (lf_files fs) p\<rparr>)" using t by (auto simp: tree_ok_def keys_delete)
  moreover have "tree_ok (fs\<lparr>lf_dirs := filter (\<lambda>d. d \<noteq> p) (lf_dirs fs)\<rparr>)" if "os_empty_dir fs p"
    using t that by (auto simp: tree_ok_def os_empty_dir_def list_ex_iff)
  ultimately show ?thesis using t Some by (simp add: lf_Delete_def)
qed (simp add: lf_Delete_def)

lemma tree_MkDir: "tree_ok fs \<Longrightarrow> tree_ok (fst (lf_MkDir fs rel))"
  using tree_MkdirAll(1) safePath_ok by (fastforce simp: lf_MkDir_def split: option.splits)

lemma tree_Copy: "tree_ok fs \<Longrightarrow> tree_ok (fst (lf_Copy fs src dst now))"
proof (cases "safePath (lf_root fs) src"; cases "safePath (lf_root fs) dst")
  fix p q assume t: "tree_ok fs" and s: "safePath (lf_root fs) src = Some p" "safePath (lf_root fs) dst = Some q"
  note ok = safePath_ok [OF s(2)]
  show ?thesis
  proof (cases "make_parent fs q")
    case f1: (Some fs1)
    note t1 = tree_parent(1) [OF t _ f1]
    show ?thesis
    proof (cases "os_Create fs1 q [] now")
      case f2: (Some fs2)
      have t2: "tree_ok fs2" "fs2 = fs1\<lparr>lf_files := fs_write (lf_files fs1) q [] now\<rparr>" using tree_Create t1 ok f2 by blast+
      have "tree_ok (fs2\<lparr>lf_files := fs_write (lf_files fs2) q x now\<rparr>)" for x
        using t2(1) by (simp add: t2(2) tree_ok_def keys_write)
      then show ?thesis using s f1 f2 t1 ok t2(1) by (simp add: lf_Copy_def split: option.split)
    qed (use t1 ok s f1 in \<open>simp add: lf_Copy_def\<close>)
  qed (use t s in \<open>simp add: lf_Copy_def \<close>)
qed (simp_all add: lf_Copy_def split: option.split)

text \<open>What an operation leaves alone: every path but its own.\<close>

lemma write_others:
  assumes "safePath (lf_root fs) rel = Some p" "q \<noteq> p"
  shows "fs_read (lf_files (fst (lf_Write fs rel body now))) q = fs_read (lf_files fs) q"
  using assms by (auto simp: lf_Write_def make_parent_def os_MkdirAll_def os_Create_def split: option.splits if_splits)

lemma delete_others:
  assumes "safePath (lf_root fs) rel = Some p" "q \<noteq> p"
  shows "fs_read (lf_files (fst (lf_Delete fs rel))) q = fs_read (lf_files fs) q"
  using assms by (simp add: lf_Delete_def)

lemma copy_others:
  assumes "safePath (lf_root fs) dst = Some p" "q \<noteq> p"
  shows "fs_read (lf_files (fst (lf_Copy fs src dst now))) q = fs_read (lf_files fs) q"
  using assms by (auto simp: lf_Copy_def make_parent_def os_MkdirAll_def os_Create_def split: option.splits if_splits)

lemma write_reads_back:
  assumes "snd (lf_Write fs rel (b, True) now) = None"
  shows "lf_Open (fst (lf_Write fs rel (b, True) now)) rel = Some b"
  using assms by (auto simp: lf_Write_def lf_Open_def make_parent_def os_MkdirAll_def os_Create_def split: option.splits if_splits)

lemma root_kept [simp]:
  "lf_root (fst (lf_Write fs rel body now)) = lf_root fs" "lf_root (fst (lf_Delete fs rel)) = lf_root fs"
  "lf_root (fst (lf_MkDir fs rel)) = lf_root fs" "lf_root (fst (lf_Copy fs src rel now)) = lf_root fs"
  by (auto simp: lf_Write_def lf_Delete_def lf_MkDir_def lf_Copy_def make_parent_def os_MkdirAll_def os_Create_def split: option.splits if_splits)

text \<open>A file copied onto itself is emptied: it is created before it is read.\<close>

lemma copy_onto_itself:
  assumes "snd (lf_Copy fs rel rel now) = None"
  shows "lf_Open (fst (lf_Copy fs rel rel now)) rel = Some []"
  using assms by (auto simp: lf_Copy_def lf_Open_def make_parent_def os_MkdirAll_def os_Create_def split: option.splits if_splits)

end
