(* ===== verification/S3_Shares.thy ===== *)
theory S3_Shares
  imports Local_FS Url_Hex
begin

text \<open>
  What the S3 server serves: the shares and users of \<open>internal/serve/ftpserve/driver.go\<close> and \<open>auth.go\<close> with the helpers
  of \<open>internal/serve/s3serve/server.go\<close>.  A share joins paths of mounted file systems, its sources; a mount is a local
  file system here, with a mark for backends that cannot be written.
\<close>

record share_source =
  ss_FS :: string
  ss_Path :: string

record serve_share =
  sh_Name :: string
  sh_Sources :: "share_source list"
  sh_ReadOnly :: bool

record serve_user =
  su_Username :: string
  su_Password :: string
  su_Shares :: "string list"
  su_ReadOnly :: bool

record mount =
  mt_fs :: local_fs
  mt_writable :: bool

type_synonym mounts = "string \<Rightarrow> mount"

definition set_mount :: "mounts \<Rightarrow> string \<Rightarrow> local_fs \<Rightarrow> mounts" where
  "set_mount ms m fs = ms(m := (ms m)\<lparr>mt_fs := fs\<rparr>)"

section \<open>Shares and users\<close>

definition lookupUser :: "serve_user list \<Rightarrow> string \<Rightarrow> serve_user option" where
  "lookupUser users accessKey = find (\<lambda>u. su_Username u = accessKey) users"

definition userShares :: "serve_share list \<Rightarrow> serve_user \<Rightarrow> serve_share list" where
  "userShares shares user = (if su_Shares user = [] then shares else filter (\<lambda>sh. sh_Name sh \<in> set (su_Shares user)) shares)"

definition findShare :: "serve_share list \<Rightarrow> serve_user \<Rightarrow> string \<Rightarrow> serve_share option" where
  "findShare shares user bucket = find (\<lambda>sh. sh_Name sh = bucket) (userShares shares user)"

definition isReadOnly :: "serve_user \<Rightarrow> serve_share \<Rightarrow> bool" where
  "isReadOnly user share \<longleftrightarrow> sh_ReadOnly share \<or> su_ReadOnly user"

definition splitBucketKey :: "string \<Rightarrow> string \<times> string" where
  "splitBucketKey p = (let p = trim_prefix p ''/'' in if p = [] then ([], [])
     else case index_byte p CHR ''/'' of Some i \<Rightarrow> (take i p, drop (Suc i) p) | None \<Rightarrow> (p, []))"

section \<open>Keys and sources\<close>

text \<open>The empty result of \<open>path_join\<close> is the dot.\<close>

definition cleanKey :: "string \<Rightarrow> string option" where
  "cleanKey key = (let k = trim_func (\<lambda>c. c = CHR ''/'') key in
     if k = [] then Some []
     else let cleaned = path_join [k] in
       if cleaned = [] \<or> cleaned = ''..'' \<or> has_prefix cleaned ''../'' then None else Some cleaned)"

definition sourceFSPath :: "share_source \<Rightarrow> string \<Rightarrow> string" where
  "sourceFSPath src relPath = (if ss_Path src = [] then relPath else if relPath = [] then ss_Path src
     else ss_Path src @ CHR ''/'' # relPath)"

definition source_fs :: "mounts \<Rightarrow> share_source \<Rightarrow> local_fs" where
  "source_fs ms src = mt_fs (ms (ss_FS src))"

definition findInSources :: "mounts \<Rightarrow> serve_share \<Rightarrow> string \<Rightarrow> share_source option" where
  "findInSources ms share relPath = find (\<lambda>src. lf_Stat (source_fs ms src) (sourceFSPath src relPath) \<noteq> None) (sh_Sources share)"

definition firstWritableSource :: "mounts \<Rightarrow> serve_share \<Rightarrow> share_source option" where
  "firstWritableSource ms share = find (\<lambda>src. mt_writable (ms (ss_FS src))) (sh_Sources share)"

section \<open>Facts\<close>

text \<open>A clean key is the join of its segments.\<close>

lemma foldl_rel_ok:
  assumes "list_all (\<lambda>x. CHR ''/'' \<notin> set x) segs" "acc = replicate n ''..'' @ oks" "list_all segment_ok oks"
  shows "\<exists>m ks. foldl rel_step acc segs = replicate m ''..'' @ ks \<and> list_all segment_ok ks"
  using assms
proof (induction segs arbitrary: acc n oks)
  case (Cons x segs)
  have dots: "segment_ok a \<Longrightarrow> a \<noteq> ''..''" for a by (simp add: segment_ok_def)
  have "\<exists>n' oks'. rel_step acc x = replicate n' ''..'' @ oks' \<and> list_all segment_ok oks'"
  proof (cases "x = [] \<or> x = ''.''")
    case False
    show ?thesis
    proof (cases "x = ''..''")
      case True
      show ?thesis
      proof (cases oks rule: rev_cases)
        case Nil
        then have "rel_step acc x = replicate (Suc n) ''..'' @ []" using Cons.prems(2) True
          by (cases n) (simp_all add: rel_step_def replicate_append_same)
        then show ?thesis by (intro exI [of _ "Suc n"] exI [of _ "[]"]) simp
      next
        case (snoc ks k)
        then have "rel_step acc x = replicate n ''..'' @ ks" using Cons.prems(2,3) True dots [of k]
          by (simp add: rel_step_def butlast_append)
        then show ?thesis using Cons.prems(3) snoc by auto
      qed
    next
      case no: False
      then have "rel_step acc x = replicate n ''..'' @ (oks @ [x])" "segment_ok x"
        using False Cons.prems by (simp_all add: rel_step_def segment_ok_def)
      then show ?thesis using Cons.prems(3) by (intro exI [of _ n] exI [of _ "oks @ [x]"]) simp
    qed
  qed (use Cons.prems in \<open>auto simp: rel_step_def\<close>)
  then show ?case using Cons.IH Cons.prems(1) by auto
qed auto

lemma join_dots: "has_prefix (join_on CHR ''/'' (replicate (Suc m) ''..'' @ ks)) ''../'' \<or> join_on CHR ''/'' (replicate (Suc m) ''..'' @ ks) = ''..''"
  by (cases m; cases ks) (auto simp: has_prefix_def)

lemma cleanKey_segs:
  assumes "cleanKey key = Some k"
  shows "\<exists>segs. list_all segment_ok segs \<and> k = join_on CHR ''/'' segs"
proof (cases "trim_func (\<lambda>c. c = CHR ''/'') key = []")
  case True
  then show ?thesis using assms by (intro exI [of _ "[]"]) (simp add: cleanKey_def)
next
  case False
  let ?k = "trim_func (\<lambda>c. c = CHR ''/'') key"
  obtain m ks where f: "foldl rel_step [] (split_on CHR ''/'' ?k) = replicate m ''..'' @ ks" "list_all segment_ok ks"
    using foldl_rel_ok [of "split_on CHR ''/'' ?k" "[]" 0 "[]"] split_on_no_sep by (fastforce simp: list_all_iff)
  then have j: "path_join [?k] = join_on CHR ''/'' (replicate m ''..'' @ ks)" by (simp add: path_join_def)
  then have "m = 0" using assms False join_dots [of "m - 1" ks] by (cases m) (auto simp: cleanKey_def Let_def split: if_splits)
  then show ?thesis using assms False f j by (auto simp: cleanKey_def Let_def split: if_splits)
qed

text \<open>Where a source looks for a clean key.\<close>

lemma clean_abs_append:
  "clean_abs (p @ CHR ''/'' # join_on CHR ''/'' segs) = foldl abs_step (clean_abs p) segs" if "list_all segment_ok segs" "segs \<noteq> []"
proof -
  have "split_on CHR ''/'' (p @ CHR ''/'' # q) = split_on CHR ''/'' p @ split_on CHR ''/'' q" for q
    by (induction p) (auto split: list.split)
  then show ?thesis using no_dots_split [OF that] by (simp add: clean_abs_def)
qed

lemma source_path:
  assumes "list_all segment_ok segs"
  shows "clean_abs (sourceFSPath src (join_on CHR ''/'' segs)) = clean_abs (ss_Path src) @ segs"
proof (cases "segs = []")
  case False
  then have "join_on CHR ''/'' segs \<noteq> []" using join_Nil_iff [OF assms] by simp
  then show ?thesis using clean_abs_append [OF assms False] clean_join [OF assms] abs_steps [OF assms]
    by (simp add: sourceFSPath_def)
qed (simp add: sourceFSPath_def)

end
