(* ===== verification/S3_List.thy ===== *)
theory S3_List
  imports S3_Shares
begin

text \<open>
  Listing a bucket: \<open>internal/serve/s3serve/list.go\<close>.  Keys compare as strings.  \<open>sort.Slice\<close> is a sort that may
  order entries with equal keys in any way; the model keeps them in place, and what is proved is about keys.  The
  recursion over directories is bounded by the depth of the file system, which is enough for every tree.
\<close>

section \<open>The listing\<close>

record list_entry =
  le_key :: string
  le_size :: nat
  le_isPrefix :: bool
  le_src :: share_source

definition splitPrefixDir :: "string \<Rightarrow> string \<times> string" where
  "splitPrefixDir prefix = (case last_index prefix CHR ''/'' of Some i \<Rightarrow> (take i prefix, drop (Suc i) prefix) | None \<Rightarrow> ([], prefix))"

definition joinKey :: "string \<Rightarrow> string \<Rightarrow> string" where
  "joinKey dir name = (if dir = [] then name else dir @ CHR ''/'' # name)"

definition dirMayContain :: "string \<Rightarrow> string \<Rightarrow> string \<Rightarrow> bool" where
  "dirMayContain dirKey prefix after = (if \<not> has_prefix dirKey prefix \<and> \<not> has_prefix prefix dirKey then False
     else after = [] \<or> after < dirKey \<or> has_prefix after dirKey)"

text \<open>The loop of \<open>collectSingleLevel\<close> stops when it has enough entries.\<close>

fun single_loop :: "share_source \<Rightarrow> string \<Rightarrow> string \<Rightarrow> string \<Rightarrow> nat \<Rightarrow> list_entry list \<Rightarrow> dir_entry list \<Rightarrow> list_entry list" where
  "single_loop src scanDir namePfx after limit out [] = out"
| "single_loop src scanDir namePfx after limit out (e # es) =
     (if \<not> has_prefix (de_Name e) namePfx then single_loop src scanDir namePfx after limit out es
      else let key = joinKey scanDir (de_Name e) @ (if de_IsDir e then ''/'' else []) in
        if key \<le> after then single_loop src scanDir namePfx after limit out es
        else let out' = out @ [\<lparr>le_key = key, le_size = de_Size e, le_isPrefix = de_IsDir e, le_src = src\<rparr>]
          in if length out' \<ge> limit then out' else single_loop src scanDir namePfx after limit out' es)"

definition collectSingleLevel :: "mounts \<Rightarrow> share_source \<Rightarrow> string \<Rightarrow> string \<Rightarrow> nat \<Rightarrow> list_entry list" where
  "collectSingleLevel ms src prefix after limit = (case splitPrefixDir prefix of (scanDir, namePfx) \<Rightarrow>
     (case lf_ReadDir (source_fs ms src) (sourceFSPath src scanDir) of None \<Rightarrow> []
      | Some es \<Rightarrow> sort_key le_key (single_loop src scanDir namePfx after limit [] es)))"

text \<open>The walk below a directory; the items are sorted with a slash behind directories.\<close>

definition item_key :: "string \<Rightarrow> dir_entry \<Rightarrow> string" where
  "item_key dir e = joinKey dir (de_Name e) @ (if de_IsDir e then ''/'' else [])"

primrec walk_dir :: "nat \<Rightarrow> mounts \<Rightarrow> share_source \<Rightarrow> string \<Rightarrow> string \<Rightarrow> nat \<Rightarrow> string \<Rightarrow> list_entry list \<Rightarrow> list_entry list" where
  "walk_dir 0 ms src prefix after limit dir out = out"
| "walk_dir (Suc n) ms src prefix after limit dir out =
     (if length out \<ge> limit then out
      else case lf_ReadDir (source_fs ms src) (sourceFSPath src dir) of None \<Rightarrow> out
      | Some es \<Rightarrow> foldl (\<lambda>out e.
          if length out \<ge> limit then out
          else if de_IsDir e then
            (if dirMayContain (item_key dir e) prefix after then walk_dir n ms src prefix after limit (joinKey dir (de_Name e)) out else out)
          else let key = joinKey dir (de_Name e) in
            if \<not> has_prefix key prefix \<or> key \<le> after then out
            else out @ [\<lparr>le_key = key, le_size = de_Size e, le_isPrefix = False, le_src = src\<rparr>])
        out (sort_key (item_key dir) es))"

definition tree_depth :: "local_fs \<Rightarrow> nat" where
  "tree_depth fs = Suc (fold max (map length (lf_dirs fs)) 0)"

definition collectRecursive :: "mounts \<Rightarrow> share_source \<Rightarrow> string \<Rightarrow> string \<Rightarrow> nat \<Rightarrow> list_entry list" where
  "collectRecursive ms src prefix after limit =
     walk_dir (tree_depth (source_fs ms src)) ms src prefix after limit (fst (splitPrefixDir prefix)) []"

definition collectSource :: "mounts \<Rightarrow> share_source \<Rightarrow> string \<Rightarrow> string \<Rightarrow> string \<Rightarrow> nat \<Rightarrow> list_entry list" where
  "collectSource ms src prefix delimiter after limit = (if delimiter = ''/'' then collectSingleLevel ms src prefix after limit
     else collectRecursive ms src prefix after limit)"

text \<open>Of entries with one key the first is kept; the argument is the key of the last entry kept.\<close>

fun dedup_keys :: "string option \<Rightarrow> list_entry list \<Rightarrow> list_entry list" where
  "dedup_keys prev [] = []"
| "dedup_keys prev (e # es) = (if prev = Some (le_key e) then dedup_keys prev es else e # dedup_keys (Some (le_key e)) es)"

definition listShare :: "mounts \<Rightarrow> serve_share \<Rightarrow> string \<Rightarrow> string \<Rightarrow> string \<Rightarrow> int \<Rightarrow> list_entry list \<times> bool" where
  "listShare ms share prefix delimiter after maxKeys = (let mx = (if maxKeys \<le> 0 then 1000 else nat maxKeys);
       all = concat (map (\<lambda>src. collectSource ms src prefix delimiter after (mx + 1)) (sh_Sources share));
       deduped = dedup_keys None (sort_key le_key all); truncated = length deduped > mx
     in (if truncated then take mx deduped else deduped, truncated))"

text \<open>A list prefix keeps its last slash.\<close>

definition cleanKeyPrefix :: "string \<Rightarrow> string option" where
  "cleanKeyPrefix prefix = (if prefix = [] then Some []
     else case cleanKey prefix of None \<Rightarrow> None
     | Some cleaned \<Rightarrow> Some (if has_suffix prefix ''/'' \<and> cleaned \<noteq> [] then cleaned @ ''/'' else cleaned))"


section \<open>Sorted lists of sets\<close>

lemma strict_eq_set:
  assumes "sorted_wrt (<) xs" "set xs = (A::'a::linorder set)"
  shows "xs = sorted_list_of_set A"
  using sorted_list_of_set.idem_if_sorted_distinct [of xs] assms by (simp add: strict_sorted_iff)

lemma take_sorted_set:
  assumes "finite (A::'a::linorder set)"
  shows "set (take n (sorted_list_of_set A)) = {x\<in>A. card {y\<in>A. y < x} < n}"
proof -
  let ?xs = "sorted_list_of_set A"
  have s: "sorted_wrt (<) ?xs" "set ?xs = A" using assms by simp_all
  have below: "{y\<in>A. y < ?xs ! i} = set (take i ?xs)" if "i < length ?xs" for i
  proof -
    have "y < ?xs ! i \<longleftrightarrow> y \<in> set (take i ?xs)" if y: "y \<in> set ?xs" for y
    proof -
      obtain j where j: "j < length ?xs" "y = ?xs ! j" using y by (metis in_set_conv_nth)
      have "?xs ! j < ?xs ! i \<longleftrightarrow> j < i"
        using s(1) j(1) \<open>i < length ?xs\<close> by (metis linorder_neqE_nat not_less_iff_gr_or_eq sorted_wrt_nth_less)
      moreover have "?xs ! j \<in> set (take i ?xs) \<longleftrightarrow> j < i"
        using s(1) j(1) \<open>i < length ?xs\<close> strict_sorted_iff [of ?xs]
        by (auto simp: in_set_conv_nth nth_eq_iff_index_eq)
      ultimately show ?thesis using j by simp
    qed
    then show ?thesis using s(2) by (auto dest: in_set_takeD)
  qed
  have card: "card {y\<in>A. y < ?xs ! i} = i" if "i < length ?xs" for i
    unfolding below [OF that] using that strict_sorted_iff [of ?xs] s(1) by (simp add: distinct_card)
  show ?thesis
  proof (intro set_eqI iffI)
    fix x assume "x \<in> set (take n ?xs)"
    then obtain i where "i < n" "i < length ?xs" "x = ?xs ! i" by (auto simp: in_set_conv_nth)
    moreover from this have "x \<in> A" using nth_mem s(2) by blast
    ultimately show "x \<in> {x\<in>A. card {y\<in>A. y < x} < n}" using card [of i] by simp
  next
    fix x assume x: "x \<in> {x\<in>A. card {y\<in>A. y < x} < n}"
    then have "x \<in> set ?xs" using s(2) by blast
    then obtain i where i: "i < length ?xs" "x = ?xs ! i" by (metis in_set_conv_nth)
    then have "i < n" using x card by simp
    then show "x \<in> set (take n ?xs)" using i by (auto simp: in_set_conv_nth)
  qed
qed

lemma take_merge:
  assumes "finite I" "\<And>i. i \<in> I \<Longrightarrow> finite (A i :: 'a::linorder set)"
  shows "take n (sorted_list_of_set (\<Union>i\<in>I. set (take n (sorted_list_of_set (A i))))) = take n (sorted_list_of_set (\<Union>i\<in>I. A i))"
proof -
  let ?U = "\<Union>i\<in>I. A i" and ?T = "\<Union>i\<in>I. set (take n (sorted_list_of_set (A i)))"
  have fin: "finite ?U" using assms by simp
  have fU: "finite {y\<in>?U. P y}" for P by (rule rev_finite_subset [OF fin]) auto
  have sub: "?T \<subseteq> ?U" using assms(2) by (auto dest!: in_set_takeD)
  then have finT: "finite ?T" using fin finite_subset by blast
  have up: "x \<in> ?T" if m: "x \<in> ?U" "card {y\<in>?U. y < x} < n" for x
  proof -
    obtain i where i: "i \<in> I" "x \<in> A i" using m(1) by blast
    have "card {y\<in>A i. y < x} \<le> card {y\<in>?U. y < x}" by (rule card_mono [OF fU]) (use i in auto)
    then show ?thesis using i m(2) take_sorted_set [OF assms(2) [OF i(1)], of n] by auto
  qed
  have "set (take n (sorted_list_of_set ?T)) = set (take n (sorted_list_of_set ?U))"
    unfolding take_sorted_set [OF fin] take_sorted_set [OF finT]
  proof (intro set_eqI iffI)
    fix x assume x: "x \<in> {x\<in>?U. card {y\<in>?U. y < x} < n}"
    have "card {y\<in>?T. y < x} \<le> card {y\<in>?U. y < x}" by (rule card_mono [OF fU]) (use sub in auto)
    then show "x \<in> {x\<in>?T. card {y\<in>?T. y < x} < n}" using x up by auto
  next
    fix x assume x: "x \<in> {x\<in>?T. card {y\<in>?T. y < x} < n}"
    show "x \<in> {x\<in>?U. card {y\<in>?U. y < x} < n}"
    proof (rule ccontr)
      assume "\<not> ?thesis"
      then have big: "n \<le> card {y\<in>?U. y < x}" using x sub by auto
      let ?B = "{y\<in>?U. y < x}"
      have fB: "finite ?B" by (rule fU)
      have "set (take n (sorted_list_of_set ?B)) \<subseteq> {y\<in>?T. y < x}"
      proof
        fix y assume "y \<in> set (take n (sorted_list_of_set ?B))"
        then have y: "y \<in> ?B" "card {z\<in>?B. z < y} < n" unfolding take_sorted_set [OF fB] by auto
        have "{z\<in>?U. z < y} = {z\<in>?B. z < y}" using y(1) by auto
        then show "y \<in> {y\<in>?T. y < x}" using up [of y] y by auto
      qed
      then have "card (set (take n (sorted_list_of_set ?B))) \<le> card {y\<in>?T. y < x}" by (intro card_mono rev_finite_subset [OF finT]) auto
      moreover have "card (set (take n (sorted_list_of_set ?B))) = n" using big fB by (simp add: distinct_card)
      ultimately show False using x by auto
    qed
  qed
  moreover have "sorted_wrt (<) (take n (sorted_list_of_set X))" for X :: "'a set" by (simp add: sorted_wrt_take)
  ultimately show ?thesis using strict_eq_set by metis
qed

lemma strict_concat:
  assumes "sorted_wrt R es" "\<And>a b x y. a \<in> set es \<Longrightarrow> b \<in> set es \<Longrightarrow> R a b \<Longrightarrow> x \<in> set (piece a) \<Longrightarrow> y \<in> set (piece b) \<Longrightarrow> x < y"
    "\<And>a. a \<in> set es \<Longrightarrow> sorted_wrt (<) (piece a)"
  shows "sorted_wrt (<) (concat (map piece es))"
  using assms by (induction es) (fastforce simp: sorted_wrt_append)+

lemma foldl_take:
  assumes "\<And>out e. e \<in> set es \<Longrightarrow> map key (step out e) = map key out @ take (limit - length out) (piece e)"
  shows "map key (foldl step out es) = map key out @ take (limit - length out) (concat (map piece es))"
  using assms
proof (induction es arbitrary: out)
  case (Cons e es)
  have one: "map key (step out e) = map key out @ take (limit - length out) (piece e)" using Cons.prems by simp
  then have "length (step out e) = length out + min (limit - length out) (length (piece e))"
    by (metis length_append length_map length_take min.commute)
  then have "limit - length (step out e) = limit - length out - length (piece e)" by auto
  then show ?case using Cons one by simp
qed simp

section \<open>The order of keys\<close>

lemma append_ge: "(a::string) \<le> a @ x"
  by (induction a) simp_all

lemma less_append: "(a::string) < b \<Longrightarrow> \<not> has_prefix b a \<Longrightarrow> a @ x < b @ y"
proof (induction a arbitrary: b)
  case (Cons c a)
  then show ?case by (cases b) (auto simp: has_prefix_iff)
qed (simp add: has_prefix_def)

section \<open>The keys below a directory\<close>

text \<open>A source on a well-formed file system whose root can be used.\<close>

definition source_ok :: "mounts \<Rightarrow> share_source \<Rightarrow> bool" where
  "source_ok ms src \<longleftrightarrow> tree_ok (source_fs ms src) \<and> lf_root (source_fs ms src) \<noteq> ''/''"

definition base_path :: "share_source \<Rightarrow> path" where
  "base_path src = clean_abs (ss_Path src)"

definition matching :: "mounts \<Rightarrow> share_source \<Rightarrow> string \<Rightarrow> string \<Rightarrow> path \<Rightarrow> string set" where
  "matching ms src prefix after segs = {k. \<exists>rest. rest \<noteq> [] \<and> base_path src @ segs @ rest \<in> fst ` set (lf_files (source_fs ms src)) \<and>
     k = join_on CHR ''/'' (segs @ rest) \<and> has_prefix k prefix \<and> after < k}"

lemma joinKey_snoc: "list_all segment_ok segs \<Longrightarrow> joinKey (join_on CHR ''/'' segs) n = join_on CHR ''/'' (segs @ [n])"
proof -
  assume ok: "list_all segment_ok segs"
  have "segs \<noteq> [] \<Longrightarrow> join_on CHR ''/'' (segs @ [n]) = join_on CHR ''/'' segs @ CHR ''/'' # n" for segs
    by (induction segs rule: join_on.induct [of _ "CHR ''/''"]) auto
  then show ?thesis using join_Nil_iff [OF ok] by (cases "segs = []") (auto simp: joinKey_def)
qed

lemma join_append: "a \<noteq> [] \<Longrightarrow> b \<noteq> [] \<Longrightarrow> join_on c (a @ b) = join_on c a @ c # join_on c b"
  by (induction c a rule: join_on.induct) (auto simp: neq_Nil_conv)

lemma join_inj:
  assumes "list_all segment_ok a" "list_all segment_ok b" "join_on CHR ''/'' a = join_on CHR ''/'' b"
  shows "a = b"
  using assms clean_join by metis

lemma finite_matching: "finite (matching ms src prefix after segs)"
proof (rule finite_subset)
  let ?f = "\<lambda>p. join_on CHR ''/'' (drop (length (base_path src)) p)"
  show "matching ms src prefix after segs \<subseteq> ?f ` fst ` set (lf_files (source_fs ms src))"
  proof
    fix k assume "k \<in> matching ms src prefix after segs"
    then obtain rest where "base_path src @ segs @ rest \<in> fst ` set (lf_files (source_fs ms src))" "k = join_on CHR ''/'' (segs @ rest)"
      unfolding matching_def by blast
    moreover have "?f (base_path src @ segs @ rest) = join_on CHR ''/'' (segs @ rest)" by simp
    ultimately show "k \<in> ?f ` fst ` set (lf_files (source_fs ms src))" by (metis imageI)
  qed
qed simp

text \<open>Directories lie on the way to every file.\<close>

lemma on_the_way:
  assumes "tree_ok fs" "p @ r \<in> fst ` set (lf_files fs)" "r \<noteq> []"
  shows "p \<in> set (lf_dirs fs)"
proof -
  have "p @ r \<in> set (lf_dirs fs) \<or> r \<noteq> [] \<and> p @ r \<in> fst ` set (lf_files fs) \<Longrightarrow> p \<in> set (lf_dirs fs)" for r
  proof (induction r rule: rev_induct)
    case (snoc x r)
    then have "p @ r @ [x] \<in> fst ` set (lf_files fs) \<union> set (lf_dirs fs)" by auto
    then have "butlast (p @ r @ [x]) \<in> set (lf_dirs fs)" using assms(1) unfolding tree_ok_def by blast
    then have "p @ r \<in> set (lf_dirs fs)" by (simp add: butlast_append)
    then show ?case using snoc.IH by blast
  qed auto
  then show ?thesis using assms(2,3) by blast
qed

lemma read_dir:
  assumes "source_ok ms src" "list_all segment_ok segs"
  shows "lf_ReadDir (source_fs ms src) (sourceFSPath src (join_on CHR ''/'' segs)) =
    (if base_path src @ segs \<in> set (lf_dirs (source_fs ms src))
     then Some (map (lf_entry (source_fs ms src) (base_path src @ segs)) (sort (remdups (child_names (source_fs ms src) (base_path src @ segs)))))
     else None)"
  using assms source_path [OF assms(2), of src] safePath_below
  by (simp add: lf_ReadDir_def source_ok_def base_path_def os_is_dir_def)

lemma child_iff: "n \<in> set (child_names fs p) \<longleftrightarrow> p @ [n] \<in> fst ` set (lf_files fs) \<union> set (lf_dirs fs)"
proof
  assume "n \<in> set (child_names fs p)"
  then obtain q where "q \<in> fst ` set (lf_files fs) \<union> set (lf_dirs fs)" "q \<noteq> []" "butlast q = p" "n = last q"
    by (auto simp: child_names_def)
  then show "p @ [n] \<in> fst ` set (lf_files fs) \<union> set (lf_dirs fs)" by (metis append_butlast_last_id)
next
  assume "p @ [n] \<in> fst ` set (lf_files fs) \<union> set (lf_dirs fs)"
  then have "p @ [n] \<in> set (filter (\<lambda>q. q \<noteq> [] \<and> butlast q = p) (map fst (lf_files fs) @ lf_dirs fs))" by auto
  then have "last (p @ [n]) \<in> last ` set (filter (\<lambda>q. q \<noteq> [] \<and> butlast q = p) (map fst (lf_files fs) @ lf_dirs fs))" by (rule imageI)
  then show "n \<in> set (child_names fs p)" by (simp add: child_names_def image_Un)
qed

lemma entry_facts [simp]:
  "de_Name (lf_entry fs p n) = n" "de_IsDir (lf_entry fs p n) \<longleftrightarrow> p @ [n] \<notin> fst ` set (lf_files fs)"
  by (auto simp: lf_entry_def fs_read_None_iff [symmetric] split: option.splits)

text \<open>The keys that come from one entry of a directory.\<close>

definition piece :: "mounts \<Rightarrow> share_source \<Rightarrow> string \<Rightarrow> string \<Rightarrow> path \<Rightarrow> dir_entry \<Rightarrow> string list" where
  "piece ms src prefix after segs e = (let k = join_on CHR ''/'' (segs @ [de_Name e]) in
     if de_IsDir e then sorted_list_of_set (matching ms src prefix after (segs @ [de_Name e]))
     else if has_prefix k prefix \<and> after < k then [k] else [])"

lemma matching_dir:
  assumes "k \<in> matching ms src prefix after (segs @ [n])"
  shows "\<exists>x. k = (join_on CHR ''/'' (segs @ [n]) @ ''/'') @ x"
proof -
  obtain rest where "rest \<noteq> []" "k = join_on CHR ''/'' ((segs @ [n]) @ rest)" using assms unfolding matching_def by force
  then have "k = (join_on CHR ''/'' (segs @ [n]) @ ''/'') @ join_on CHR ''/'' rest" using join_append [of "segs @ [n]" rest] by simp
  then show ?thesis by blast
qed

lemma piece_sorted: "sorted_wrt (<) (piece ms src prefix after segs e)"
  by (simp add: piece_def Let_def)

lemma set_piece: "set (piece ms src prefix after segs e) = (let k = join_on CHR ''/'' (segs @ [de_Name e]) in
     if de_IsDir e then matching ms src prefix after (segs @ [de_Name e]) else {x. x = k \<and> has_prefix k prefix \<and> after < k})"
  by (simp add: piece_def Let_def finite_matching)

lemma prefix_last_slash:
  assumes "segment_ok a" "segment_ok b" "has_prefix (join_on CHR ''/'' (segs @ [b]) @ t) (join_on CHR ''/'' (segs @ [a]) @ ''/'')"
    "t = [] \<or> t = ''/''"
  shows "a = b \<and> t = ''/''"
proof -
  have j: "join_on CHR ''/'' (segs @ [n]) = (if segs = [] then [] else join_on CHR ''/'' segs @ ''/'') @ n" for n
    using join_append [of segs "[n]" "CHR ''/''"] by simp
  have "has_prefix (b @ t) (a @ ''/'')" using assms(3) unfolding j by (auto simp: has_prefix_iff)
  then obtain x where x: "b @ t = a @ CHR ''/'' # x" by (auto simp: has_prefix_iff)
  have no: "CHR ''/'' \<notin> set a" "CHR ''/'' \<notin> set b" using assms(1,2) by (simp_all add: segment_ok_def)
  from x obtain us where "b = a @ us \<and> us @ t = CHR ''/'' # x \<or> b @ us = a \<and> t = us @ CHR ''/'' # x"
    by (auto simp: append_eq_append_conv2)
  then show ?thesis using no assms(4) by (cases us) auto
qed

lemma piece_order:
  assumes "segment_ok (de_Name e)" "segment_ok (de_Name e')" "item_key (join_on CHR ''/'' segs) e < item_key (join_on CHR ''/'' segs) e'"
    "list_all segment_ok segs"
    and "x \<in> set (piece ms src prefix after segs e)" "y \<in> set (piece ms src prefix after segs e')"
  shows "x < y"
proof -
  let ?k = "\<lambda>e. join_on CHR ''/'' (segs @ [de_Name e]) @ (if de_IsDir e then ''/'' else [])"
  have ik: "item_key (join_on CHR ''/'' segs) e = ?k e" for e using joinKey_snoc [OF assms(4)] by (simp add: item_key_def)
  have less: "?k e < ?k e'" using assms(3) unfolding ik .
  have ext: "\<exists>z. x = ?k e @ z \<and> (\<not> de_IsDir e \<longrightarrow> z = [])" if "x \<in> set (piece ms src prefix after segs e)" for x e
  proof (cases "de_IsDir e")
    case True
    then have "x \<in> matching ms src prefix after (segs @ [de_Name e])" using that by (simp add: set_piece Let_def)
    then show ?thesis using matching_dir True by fastforce
  next
    case False
    then show ?thesis using that by (simp add: set_piece Let_def)
  qed
  obtain u v where u: "x = ?k e @ u" "\<not> de_IsDir e \<longrightarrow> u = []" and v: "y = ?k e' @ v" using ext assms(5,6) by blast
  show ?thesis
  proof (cases "de_IsDir e")
    case False
    then show ?thesis using u v less append_ge [of "?k e'" v] by simp
  next
    case True
    have "\<not> has_prefix (?k e') (?k e)"
    proof
      assume "has_prefix (?k e') (?k e)"
      then have "de_Name e = de_Name e' \<and> de_IsDir e'"
        using prefix_last_slash [OF assms(1,2), of segs "if de_IsDir e' then ''/'' else []"] True by (auto split: if_splits)
      then show False using less True by simp
    qed
    then show ?thesis using less_append [OF less] u(1) v by blast
  qed
qed

lemma piece_union:
  assumes "source_ok ms src" "base_path src @ segs \<in> set (lf_dirs (source_fs ms src))"
  shows "(\<Union>e\<in>set (map (lf_entry (source_fs ms src) (base_path src @ segs)) (sort (remdups (child_names (source_fs ms src) (base_path src @ segs))))).
      set (piece ms src prefix after segs e)) = matching ms src prefix after segs"
proof (intro set_eqI iffI)
  let ?fs = "source_fs ms src" and ?p = "base_path src @ segs"
  fix k
  assume "k \<in> (\<Union>e\<in>set (map (lf_entry ?fs ?p) (sort (remdups (child_names ?fs ?p)))). set (piece ms src prefix after segs e))"
  then obtain n where n: "n \<in> set (child_names ?fs ?p)" "k \<in> set (piece ms src prefix after segs (lf_entry ?fs ?p n))" by auto
  show "k \<in> matching ms src prefix after segs"
  proof (cases "?p @ [n] \<in> fst ` set (lf_files ?fs)")
    case True
    then have "k = join_on CHR ''/'' (segs @ [n])" "has_prefix k prefix" "after < k" using n(2) by (simp_all add: set_piece Let_def)
    moreover have "base_path src @ segs @ [n] \<in> fst ` set (lf_files ?fs)" using True by simp
    ultimately show ?thesis unfolding matching_def by blast
  next
    case False
    then have "k \<in> matching ms src prefix after (segs @ [n])" using n(2) by (simp add: set_piece Let_def)
    then obtain rest where "rest \<noteq> []" "base_path src @ segs @ n # rest \<in> fst ` set (lf_files ?fs)" "k = join_on CHR ''/'' (segs @ n # rest)"
      "has_prefix k prefix" "after < k" unfolding matching_def by auto
    then show ?thesis unfolding matching_def by blast
  qed
next
  let ?fs = "source_fs ms src" and ?p = "base_path src @ segs"
  fix k assume "k \<in> matching ms src prefix after segs"
  then obtain n rest where k: "base_path src @ segs @ n # rest \<in> fst ` set (lf_files ?fs)" "k = join_on CHR ''/'' (segs @ n # rest)"
    "has_prefix k prefix" "after < k" unfolding matching_def by (auto simp: neq_Nil_conv)
  have t: "tree_ok ?fs" using assms(1) by (simp add: source_ok_def)
  show "k \<in> (\<Union>e\<in>set (map (lf_entry ?fs ?p) (sort (remdups (child_names ?fs ?p)))). set (piece ms src prefix after segs e))"
  proof (cases rest)
    case Nil
    then have "?p @ [n] \<in> fst ` set (lf_files ?fs)" using k(1) by simp
    then have "k \<in> set (piece ms src prefix after segs (lf_entry ?fs ?p n))" "n \<in> set (child_names ?fs ?p)"
      using k Nil unfolding child_iff by (simp_all add: set_piece Let_def)
    then show ?thesis by auto
  next
    case (Cons a b)
    then have d: "?p @ [n] \<in> set (lf_dirs ?fs)" using on_the_way [OF t, of "?p @ [n]" rest] k(1) by simp
    moreover have "?p @ [n] \<notin> fst ` set (lf_files ?fs)" using t d by (auto simp: tree_ok_def)
    moreover have "n \<in> set (child_names ?fs ?p)" unfolding child_iff using d by blast
    moreover have "k \<in> matching ms src prefix after (segs @ [n])" using k Cons unfolding matching_def by auto
    ultimately have "k \<in> set (piece ms src prefix after segs (lf_entry ?fs ?p n))" "n \<in> set (child_names ?fs ?p)"
      by (simp_all add: set_piece Let_def)
    then show ?thesis by auto
  qed
qed

lemma pruned_empty:
  assumes "\<not> dirMayContain (join_on CHR ''/'' (segs @ [n]) @ ''/'') prefix after"
  shows "matching ms src prefix after (segs @ [n]) = {}"
proof (rule ccontr)
  let ?d = "join_on CHR ''/'' (segs @ [n]) @ ''/''"
  assume "\<not> ?thesis"
  then obtain k where k: "k \<in> matching ms src prefix after (segs @ [n])" by blast
  then obtain x where x: "k = ?d @ x" using matching_dir by blast
  have p: "has_prefix k prefix" "after < k" using k by (auto simp: matching_def)
  then obtain y where y: "k = prefix @ y" by (auto simp: has_prefix_iff)
  have "has_prefix ?d prefix \<or> has_prefix prefix ?d"
    using x y by (metis append_eq_append_conv2 has_prefix_iff)
  then have "after \<noteq> []" "\<not> after < ?d" "\<not> has_prefix after ?d" using assms by (auto simp: dirMayContain_def)
  then have "?d < after" by (metis has_prefix_iff append_Nil2 linorder_cases)
  then have "?d @ x < after @ []" using less_append \<open>\<not> has_prefix after ?d\<close> by blast
  then show False using p(2) x by simp
qed

section \<open>The walk\<close>

lemma item_key_entry: "list_all segment_ok segs \<Longrightarrow>
  item_key (join_on CHR ''/'' segs) (lf_entry fs p n) = join_on CHR ''/'' (segs @ [n]) @ (if p @ [n] \<in> fst ` set (lf_files fs) then [] else ''/'')"
  by (simp add: item_key_def joinKey_snoc)

lemma walk_dir_keys:
  assumes "source_ok ms src" "list_all segment_ok segs" "\<forall>d\<in>set (lf_dirs (source_fs ms src)). length d < n + length (base_path src @ segs)"
  shows "map le_key (walk_dir n ms src prefix after limit (join_on CHR ''/'' segs) out) =
    map le_key out @ take (limit - length out) (sorted_list_of_set (matching ms src prefix after segs))"
  using assms(2,3)
proof (induction n arbitrary: segs out)
  case 0
  let ?fs = "source_fs ms src"
  have "base_path src @ segs \<notin> set (lf_dirs ?fs)" using 0(2) by auto
  then have "matching ms src prefix after segs = {}"
    using on_the_way [of ?fs "base_path src @ segs"] assms(1) unfolding matching_def source_ok_def by auto
  then show ?case by simp
next
  case (Suc n)
  let ?fs = "source_fs ms src" and ?p = "base_path src @ segs" and ?d = "join_on CHR ''/'' segs"
  note rd = read_dir [OF assms(1) Suc.prems(1)]
  show ?case
  proof (cases "limit \<le> length out \<or> ?p \<notin> set (lf_dirs ?fs)")
    case True
    show ?thesis
    proof (cases "limit \<le> length out")
      case False
      then have "?p \<notin> set (lf_dirs ?fs)" using True by simp
      moreover from this have "matching ms src prefix after segs = {}"
        using on_the_way [of ?fs ?p] assms(1) unfolding matching_def source_ok_def by auto
      ultimately show ?thesis using rd by simp
    qed simp
  next
    case False
    define es where "es = map (lf_entry ?fs ?p) (sort (remdups (child_names ?fs ?p)))"
    define items where "items = sort_key (item_key ?d) es"
    define step where "step = (\<lambda>out e. if length out \<ge> limit then out
          else if de_IsDir e then
            (if dirMayContain (item_key ?d e) prefix after then walk_dir n ms src prefix after limit (joinKey ?d (de_Name e)) out else out)
          else let key = joinKey ?d (de_Name e) in
            if \<not> has_prefix key prefix \<or> key \<le> after then out
            else out @ [\<lparr>le_key = key, le_size = de_Size e, le_isPrefix = False, le_src = src\<rparr>])"
    have walk: "walk_dir (Suc n) ms src prefix after limit ?d out = foldl step out items"
      using False rd by (simp add: step_def items_def es_def)
    have names: "segment_ok m" if "m \<in> set (child_names ?fs ?p)" for m
    proof -
      have "list_all segment_ok (?p @ [m])" using that assms(1) unfolding child_iff source_ok_def tree_ok_def by blast
      then show ?thesis by simp
    qed
    have entry: "\<exists>m. e = lf_entry ?fs ?p m \<and> m \<in> set (child_names ?fs ?p)" if "e \<in> set items" for e
      using that by (auto simp: items_def es_def)
    have one: "map le_key (step o1 e) = map le_key o1 @ take (limit - length o1) (piece ms src prefix after segs e)" if mem: "e \<in> set items" for o1 e
    proof -
      obtain m where m: "e = lf_entry ?fs ?p m" "segment_ok m" using entry [OF mem] names by blast
      show ?thesis
      proof (cases "limit \<le> length o1")
        case l: False
        show ?thesis
        proof (cases "de_IsDir e")
          case True
          have ik: "item_key ?d e = join_on CHR ''/'' (segs @ [m]) @ ''/''" using True Suc.prems(1) m(1) by (simp add: item_key_def joinKey_snoc)
          have ih: "map le_key (walk_dir n ms src prefix after limit (join_on CHR ''/'' (segs @ [m])) o1) =
              map le_key o1 @ take (limit - length o1) (sorted_list_of_set (matching ms src prefix after (segs @ [m])))"
            by (rule Suc.IH) (use Suc.prems m(2) in auto)
          show ?thesis
          proof (cases "dirMayContain (item_key ?d e) prefix after")
            case may: True
            then show ?thesis using l True ih m(1) Suc.prems(1) by (simp add: step_def piece_def joinKey_snoc)
          next
            case may: False
            then have "matching ms src prefix after (segs @ [m]) = {}" using pruned_empty ik by simp
            then show ?thesis using l True may m(1) by (simp add: step_def piece_def)
          qed
        next
          case plain: False
          then show ?thesis using l m(1) Suc.prems(1) by (auto simp: step_def piece_def joinKey_snoc Let_def not_le)
        qed
      qed (simp add: step_def)
    qed
    have sorted: "sorted_wrt (\<lambda>e e'. item_key ?d e < item_key ?d e') items"
    proof -
      have "distinct (map (item_key ?d) es)"
      proof -
        have inj: "inj_on (\<lambda>m. item_key ?d (lf_entry ?fs ?p m)) (set (child_names ?fs ?p))"
        proof (rule inj_onI)
          fix a b assume ab: "a \<in> set (child_names ?fs ?p)" "b \<in> set (child_names ?fs ?p)"
            "item_key ?d (lf_entry ?fs ?p a) = item_key ?d (lf_entry ?fs ?p b)"
          let ?t = "\<lambda>a. if ?p @ [a] \<in> fst ` set (lf_files ?fs) then [] else ''/''"
          have e: "join_on CHR ''/'' (segs @ [a]) @ ?t a = join_on CHR ''/'' (segs @ [b]) @ ?t b"
            using ab(3) unfolding item_key_entry [OF Suc.prems(1)] .
          have ok: "segment_ok a" "segment_ok b" using names ab by blast+
          have j: "join_on CHR ''/'' (segs @ [n]) = (if segs = [] then [] else join_on CHR ''/'' segs @ ''/'') @ n" for n
            using join_append [of segs "[n]" "CHR ''/''"] by simp
          have "a @ ?t a = b @ ?t b" using e unfolding j by (simp split: if_splits)
          then show "a = b" using ok by (auto simp: segment_ok_def append_eq_append_conv2 split: if_splits)
        qed
        have "map (item_key ?d) es = map (\<lambda>m. item_key ?d (lf_entry ?fs ?p m)) (sort (remdups (child_names ?fs ?p)))" by (simp add: es_def)
        then show ?thesis using inj by (simp add: distinct_map)
      qed
      then have "distinct (map (item_key ?d) items)" unfolding items_def by (metis distinct_map distinct_sort set_sort)
      moreover have "sorted (map (item_key ?d) items)" by (simp add: items_def)
      ultimately have "sorted_wrt (<) (map (item_key ?d) items)" by (simp add: strict_sorted_iff)
      then show ?thesis by (simp add: sorted_wrt_map)
    qed
    have "concat (map (piece ms src prefix after segs) items) = sorted_list_of_set (matching ms src prefix after segs)"
    proof (rule strict_eq_set)
      show "sorted_wrt (<) (concat (map (piece ms src prefix after segs) items))"
      proof (rule strict_concat [OF sorted])
        fix a b x y assume "a \<in> set items" "b \<in> set items" "item_key ?d a < item_key ?d b"
          "x \<in> set (piece ms src prefix after segs a)" "y \<in> set (piece ms src prefix after segs b)"
        moreover have "segment_ok (de_Name a)" "segment_ok (de_Name b)" using entry names calculation(1,2) by fastforce+
        ultimately show "x < y" using piece_order Suc.prems(1) by blast
      qed (rule piece_sorted)
      have "set items = set es" by (simp add: items_def)
      then show "set (concat (map (piece ms src prefix after segs) items)) = matching ms src prefix after segs"
        using piece_union [OF assms(1), of segs prefix after] False by (simp add: es_def)
    qed
    then show ?thesis using walk foldl_take [of items le_key step limit "piece ms src prefix after segs", OF one] by simp
  qed
qed

section \<open>A page of a share\<close>

lemma depth_bound: "d \<in> set (lf_dirs fs) \<Longrightarrow> length d < tree_depth fs"
proof -
  have "a \<le> fold max ns a \<and> (x \<in> set ns \<longrightarrow> x \<le> fold max ns a)" for x and ns :: "nat list" and a
    by (induction ns arbitrary: a) (auto, (metis max.cobounded1 max.cobounded2 order_trans)+)
  then show "d \<in> set (lf_dirs fs) \<Longrightarrow> length d < tree_depth fs" by (auto simp: tree_depth_def less_Suc_eq_le)
qed

lemma split_append: "split_on c (p @ c # q) = split_on c p @ split_on c q"
  by (induction p) (auto split: list.split)

lemma last_index_split:
  "last_index s c = Some i \<Longrightarrow> s = take i s @ c # drop (Suc i) s \<and> c \<notin> set (drop (Suc i) s)"
proof -
  assume i: "last_index s c = Some i"
  then obtain j where j: "index_byte (rev s) c = Some j" "i = length s - Suc j" by (auto simp: last_index_def split: option.splits)
  have jl: "j < length (rev s)" "rev s ! j = c" "c \<notin> set (take j (rev s))" using index_byte_Some [OF j(1)] by simp_all
  have "rev s = take j (rev s) @ c # drop (Suc j) (rev s)" using id_take_nth_drop [OF jl(1)] jl(2) by simp
  then have "s = rev (drop (Suc j) (rev s)) @ c # rev (take j (rev s))" by (metis append.assoc append_Cons append_Nil rev.simps(2) rev_append rev_rev_ident)
  moreover have "rev (drop (Suc j) (rev s)) = take i s" "rev (take j (rev s)) = drop (Suc i) s"
    using jl(1) j(2) by (simp_all add: rev_drop rev_take Suc_diff_Suc)
  ultimately show ?thesis using jl(3) by (metis set_rev)
qed

lemma cleanKeyPrefix_form:
  assumes "cleanKeyPrefix raw = Some prefix"
  shows "\<exists>segs. list_all segment_ok segs \<and> (prefix = join_on CHR ''/'' segs \<or> segs \<noteq> [] \<and> prefix = join_on CHR ''/'' segs @ ''/'')"
proof (cases "prefix = []")
  case False
  then obtain k where k: "cleanKey raw = Some k" "prefix = (if has_suffix raw ''/'' \<and> k \<noteq> [] then k @ ''/'' else k)"
    using assms by (auto simp: cleanKeyPrefix_def split: if_splits option.splits)
  obtain segs where segs: "list_all segment_ok segs" "k = join_on CHR ''/'' segs" using cleanKey_segs [OF k(1)] by blast
  then have "k \<noteq> [] \<Longrightarrow> segs \<noteq> []" by auto
  then show ?thesis using k(2) segs by (intro exI [of _ segs]) auto
qed (intro exI [of _ "[]"], simp)

text \<open>The directory the walk starts in holds every key with the prefix.\<close>

lemma start_dir:
  assumes "cleanKeyPrefix raw = Some prefix" "source_ok ms src"
  shows "\<exists>dsegs. list_all segment_ok dsegs \<and> fst (splitPrefixDir prefix) = join_on CHR ''/'' dsegs \<and>
    matching ms src prefix after dsegs = matching ms src prefix after []"
proof (cases "last_index prefix CHR ''/''")
  case None
  then show ?thesis by (intro exI [of _ "[]"]) (simp add: splitPrefixDir_def)
next
  case (Some i)
  let ?d = "take i prefix" and ?p = "drop (Suc i) prefix"
  have s: "prefix = ?d @ CHR ''/'' # ?p" "CHR ''/'' \<notin> set ?p" using last_index_split [OF Some] by blast+
  obtain segs where segs: "list_all segment_ok segs" "prefix = join_on CHR ''/'' segs \<or> segs \<noteq> [] \<and> prefix = join_on CHR ''/'' segs @ ''/''"
    using cleanKeyPrefix_form [OF assms(1)] by blast
  have sp: "split_on CHR ''/'' prefix = split_on CHR ''/'' ?d @ [?p]"
    using split_append [of "CHR ''/''" ?d ?p] s split_on_single by metis
  have dok: "list_all segment_ok (split_on CHR ''/'' ?d)"
  proof (cases "prefix = join_on CHR ''/'' segs")
    case True
    then have "segs \<noteq> []" using s by auto
    then have "split_on CHR ''/'' prefix = segs" using no_dots_split [OF segs(1)] True by simp
    then show ?thesis using sp segs(1) by (metis list_all_append)
  next
    case False
    then have e: "segs \<noteq> []" "prefix = join_on CHR ''/'' segs @ CHR ''/'' # []" using segs(2) by simp_all
    then have "split_on CHR ''/'' prefix = segs @ [[]]" using split_append [of "CHR ''/''" "join_on CHR ''/'' segs" "[]"] no_dots_split [OF segs(1)] by simp
    then show ?thesis using sp segs(1) by (metis append1_eq_conv)
  qed
  let ?ds = "split_on CHR ''/'' ?d"
  have "matching ms src prefix after [] \<subseteq> matching ms src prefix after ?ds"
  proof
    fix k assume "k \<in> matching ms src prefix after []"
    then obtain rest where r: "rest \<noteq> []" "base_path src @ rest \<in> fst ` set (lf_files (source_fs ms src))" "k = join_on CHR ''/'' rest"
      "has_prefix k prefix" "after < k" unfolding matching_def by auto
    have "list_all segment_ok (base_path src @ rest)"
      using r(2) assms(2) unfolding source_ok_def tree_ok_def by blast
    then have rok: "list_all segment_ok rest" by simp
    obtain y where "k = prefix @ y" using r(4) by (auto simp: has_prefix_iff)
    then have "k = ?d @ CHR ''/'' # (?p @ y)" using s(1) by (metis append.assoc append_Cons)
    then have "rest = ?ds @ split_on CHR ''/'' (?p @ y)"
      using split_append [of "CHR ''/''" ?d "?p @ y"] no_dots_split [OF rok r(1)] r(3) by simp
    then show "k \<in> matching ms src prefix after ?ds" using r unfolding matching_def
      by (intro CollectI exI [of _ "split_on CHR ''/'' (?p @ y)"]) simp
  qed
  moreover have "matching ms src prefix after ?ds \<subseteq> matching ms src prefix after []" unfolding matching_def by auto
  ultimately show ?thesis using dok Some by (intro exI [of _ ?ds]) (auto simp: splitPrefixDir_def)
qed

lemma recursive_keys:
  assumes "cleanKeyPrefix raw = Some prefix" "source_ok ms src"
  shows "map le_key (collectRecursive ms src prefix after limit) = take limit (sorted_list_of_set (matching ms src prefix after []))"
proof -
  obtain ds where ds: "list_all segment_ok ds" "fst (splitPrefixDir prefix) = join_on CHR ''/'' ds"
      "matching ms src prefix after ds = matching ms src prefix after []"
    using start_dir [OF assms] by blast
  have "\<forall>d\<in>set (lf_dirs (source_fs ms src)). length d < tree_depth (source_fs ms src) + length (base_path src @ ds)"
    using depth_bound by (meson trans_less_add1)
  then show ?thesis using walk_dir_keys [OF assms(2) ds(1), of _ prefix after limit "[]"] ds by (simp add: collectRecursive_def)
qed

lemma dedup_sorted:
  assumes "sorted (map le_key es)"
  shows "sorted_wrt (<) (map le_key (dedup_keys prev es)) \<and> set (map le_key (dedup_keys prev es)) \<subseteq> set (map le_key es) \<and>
     set (map le_key es) \<subseteq> set (map le_key (dedup_keys prev es)) \<union> set_option prev \<and>
     (\<forall>p. prev = Some p \<longrightarrow> (\<forall>k\<in>set (map le_key es). p \<le> k) \<longrightarrow> (\<forall>k\<in>set (map le_key (dedup_keys prev es)). p < k))"
  using assms
proof (induction prev es rule: dedup_keys.induct)
  case (2 prev e es)
  show ?case
  proof (cases "prev = Some (le_key e)")
    case True
    then show ?thesis using 2 by auto
  next
    case False
    have ih: "sorted_wrt (<) (map le_key (dedup_keys (Some (le_key e)) es))" "set (map le_key (dedup_keys (Some (le_key e)) es)) \<subseteq> set (map le_key es)"
      "set (map le_key es) \<subseteq> set (map le_key (dedup_keys (Some (le_key e)) es)) \<union> {le_key e}"
      "\<forall>k\<in>set (map le_key (dedup_keys (Some (le_key e)) es)). le_key e < k"
      using 2(2) [OF False] 2(3) by auto
    show ?thesis
    proof (intro conjI allI impI)
      fix p assume "prev = Some p" "\<forall>k\<in>set (map le_key (e # es)). p \<le> k"
      then show "\<forall>k\<in>set (map le_key (dedup_keys prev (e # es))). p < k" using False ih(4) by fastforce
    qed (use False ih in auto)
  qed
qed auto

definition share_keys :: "mounts \<Rightarrow> serve_share \<Rightarrow> string \<Rightarrow> string \<Rightarrow> string set" where
  "share_keys ms share prefix after = (\<Union>src\<in>set (sh_Sources share). matching ms src prefix after [])"

lemma finite_share_keys: "finite (share_keys ms share prefix after)"
  by (simp add: share_keys_def finite_matching)

definition page_size :: "int \<Rightarrow> nat" where
  "page_size maxKeys = (if maxKeys \<le> 0 then 1000 else nat maxKeys)"

lemma page_keys:
  assumes "cleanKeyPrefix raw = Some prefix" "\<forall>src\<in>set (sh_Sources share). source_ok ms src" "delimiter \<noteq> ''/''"
  shows "map le_key (fst (listShare ms share prefix delimiter after maxKeys)) = take (page_size maxKeys) (sorted_list_of_set (share_keys ms share prefix after))"
    "snd (listShare ms share prefix delimiter after maxKeys) \<longleftrightarrow> card (share_keys ms share prefix after) > page_size maxKeys"
proof -
  let ?m = "page_size maxKeys" and ?K = "share_keys ms share prefix after"
  define all where "all = concat (map (\<lambda>src. collectSource ms src prefix delimiter after (?m + 1)) (sh_Sources share))"
  define ded where "ded = dedup_keys None (sort_key le_key all)"
  have keys: "set (map le_key all) = (\<Union>src\<in>set (sh_Sources share). set (take (?m + 1) (sorted_list_of_set (matching ms src prefix after []))))"
  proof -
    have "set (map le_key (collectSource ms src prefix delimiter after (?m + 1))) = set (take (?m + 1) (sorted_list_of_set (matching ms src prefix after [])))"
      if "src \<in> set (sh_Sources share)" for src
      using recursive_keys [OF assms(1), of ms src after "?m + 1"] assms(2,3) that by (simp add: collectSource_def del: set_map)
    then show ?thesis by (auto simp: all_def image_UN)
  qed
  have "sorted (map le_key (sort_key le_key all))" by simp
  from dedup_sorted [OF this, of None] have "sorted_wrt (<) (map le_key ded)" "set (map le_key ded) = set (map le_key all)"
    by (auto simp: ded_def)
  then have ded: "map le_key ded = sorted_list_of_set (\<Union>src\<in>set (sh_Sources share). set (take (?m + 1) (sorted_list_of_set (matching ms src prefix after []))))"
    using strict_eq_set keys by metis
  have tk: "take (?m + 1) (map le_key ded) = take (?m + 1) (sorted_list_of_set ?K)"
    unfolding ded share_keys_def by (rule take_merge) (simp_all add: finite_matching)
  have len: "length (take (?m + 1) (map le_key ded)) = min (?m + 1) (card ?K)" unfolding tk by simp
  then have trunc: "length ded > ?m \<longleftrightarrow> card ?K > ?m" by (auto simp: min_def split: if_splits)
  have first: "take ?m (map le_key ded) = take ?m (sorted_list_of_set ?K)"
    using arg_cong [OF tk, of "take ?m"] by simp
  have e: "listShare ms share prefix delimiter after maxKeys = (if length ded > ?m then take ?m ded else ded, length ded > ?m)"
    by (simp add: listShare_def ded_def all_def page_size_def Let_def)
  show "snd (listShare ms share prefix delimiter after maxKeys) \<longleftrightarrow> card ?K > ?m" using e trunc by simp
  show "map le_key (fst (listShare ms share prefix delimiter after maxKeys)) = take ?m (sorted_list_of_set ?K)"
    using e first trunc by (auto simp: take_map)
qed

section \<open>Properties\<close>

text \<open>The pages a client gets that passes on the last key of a truncated page as the next starting point.\<close>

fun list_pages :: "nat \<Rightarrow> mounts \<Rightarrow> serve_share \<Rightarrow> string \<Rightarrow> string \<Rightarrow> string \<Rightarrow> int \<Rightarrow> string list" where
  "list_pages 0 ms share prefix delimiter after maxKeys = []"
| "list_pages (Suc n) ms share prefix delimiter after maxKeys = (case listShare ms share prefix delimiter after maxKeys of
     (es, truncated) \<Rightarrow> map le_key es @ (if truncated then list_pages n ms share prefix delimiter (le_key (last es)) maxKeys else []))"

lemma share_keys_after: "after \<le> x \<Longrightarrow> share_keys ms share prefix x = {k\<in>share_keys ms share prefix after. x < k}"
proof -
  assume le: "after \<le> x"
  have "matching ms src prefix x [] = {k\<in>matching ms src prefix after []. x < k}" for src
    using le le_less_trans unfolding matching_def by blast
  then show ?thesis by (auto simp: share_keys_def)
qed

lemma sorted_drop_set:
  assumes "finite (A::'a::linorder set)" "0 < m" "m \<le> card A"
  shows "drop m (sorted_list_of_set A) = sorted_list_of_set {k\<in>A. sorted_list_of_set A ! (m - 1) < k}"
proof (rule strict_eq_set)
  let ?L = "sorted_list_of_set A"
  have s: "sorted_wrt (<) ?L" "set ?L = A" "length ?L = card A" using assms(1) by simp_all
  show "sorted_wrt (<) (drop m ?L)" using s(1) by (rule sorted_wrt_drop)
  show "set (drop m ?L) = {k\<in>A. ?L ! (m - 1) < k}"
  proof (intro set_eqI iffI)
    fix k assume "k \<in> set (drop m ?L)"
    then obtain i where "i < length (drop m ?L)" "k = drop m ?L ! i" by (metis in_set_conv_nth)
    then have i: "m + i < length ?L" "k = ?L ! (m + i)" by simp_all
    then have "?L ! (m - 1) < k" using s(1) assms(2) by (simp add: sorted_wrt_nth_less)
    moreover have "k \<in> A" using i s(2) nth_mem by blast
    ultimately show "k \<in> {k\<in>A. ?L ! (m - 1) < k}" by simp
  next
    fix k assume k: "k \<in> {k\<in>A. ?L ! (m - 1) < k}"
    then have "k \<in> set ?L" using s(2) by blast
    then obtain i where i: "i < length ?L" "k = ?L ! i" by (metis in_set_conv_nth)
    have "m \<le> i"
    proof (rule ccontr)
      assume "\<not> m \<le> i"
      then have "i = m - 1 \<or> ?L ! i < ?L ! (m - 1)" using s(1,3) assms(2,3) by (cases "i = m - 1") (auto intro: sorted_wrt_nth_less)
      then show False using k i by auto
    qed
    then show "k \<in> set (drop m ?L)" using i by (auto simp: in_set_conv_nth intro!: exI [of _ "i - m"])
  qed
qed

text \<open>
  C34: a recursive listing is complete.  However small the pages are, a client that follows the continuation points gets
  every key of the share that has the prefix exactly once, in order, and nothing else, and comes to a last page; sources
  that hold the same key give it once.
\<close>

theorem listing_complete:
  assumes "cleanKeyPrefix raw = Some prefix" "\<forall>src\<in>set (sh_Sources share). source_ok ms src" "delimiter \<noteq> ''/''"
    and "card (share_keys ms share prefix after) < n"
  shows "list_pages n ms share prefix delimiter after maxKeys = sorted_list_of_set (share_keys ms share prefix after)"
  using assms(4)
proof (induction n arbitrary: after)
  case (Suc n)
  let ?K = "share_keys ms share prefix after" and ?m = "page_size maxKeys"
  let ?L = "sorted_list_of_set ?K"
  obtain es tr where page: "listShare ms share prefix delimiter after maxKeys = (es, tr)" by fastforce
  have keys: "map le_key es = take ?m ?L" and tr: "tr \<longleftrightarrow> card ?K > ?m"
    using page_keys [OF assms(1-3), of after maxKeys] page by simp_all
  have pos: "0 < ?m" by (simp add: page_size_def)
  show ?case
  proof (cases "card ?K > ?m")
    case False
    then show ?thesis using page keys tr by simp
  next
    case True
    have len: "length es = ?m" using keys True by (metis length_map length_take length_sorted_list_of_set min.absorb4 less_imp_le min.commute)
    then have "le_key (last es) = ?L ! (?m - 1)"
    proof -
      have "es \<noteq> []" using len pos by auto
      then have "le_key (last es) = last (take ?m ?L)" using keys by (metis last_map)
      moreover have n: "length (take ?m ?L) = ?m" using True by simp
      moreover have "take ?m ?L \<noteq> []" using n pos by (metis list.size(3) not_less_zero)
      ultimately have "last (take ?m ?L) = take ?m ?L ! (?m - 1)" by (metis last_conv_nth)
      then show ?thesis using \<open>le_key (last es) = last (take ?m ?L)\<close> pos by (metis nth_take diff_less zero_less_one)
    qed
    moreover have mem: "?L ! (?m - 1) \<in> ?K" using True nth_mem [of "?m - 1" ?L] finite_share_keys by simp
    moreover have "after \<le> ?L ! (?m - 1)" using mem by (auto simp: share_keys_def matching_def)
    ultimately have next_keys: "share_keys ms share prefix (le_key (last es)) = {k\<in>?K. ?L ! (?m - 1) < k}"
      using share_keys_after by metis
    have rest: "sorted_list_of_set (share_keys ms share prefix (le_key (last es))) = drop ?m ?L"
      unfolding next_keys using sorted_drop_set [OF finite_share_keys pos, of ms share prefix after] True by simp
    have "card (share_keys ms share prefix (le_key (last es))) = card ?K - ?m"
      using arg_cong [OF rest, of length] by simp
    then have "card (share_keys ms share prefix (le_key (last es))) < n" using Suc.prems pos True by simp
    then show ?thesis using Suc.IH rest page keys tr True by simp
  qed
qed simp

definition demo_source :: share_source where
  "demo_source = \<lparr>ss_FS = ''m'', ss_Path = []\<rparr>"

definition demo_share :: serve_share where
  "demo_share = \<lparr>sh_Name = ''s'', sh_Sources = [demo_source], sh_ReadOnly = False\<rparr>"

definition demo_mounts :: mounts where
  "demo_mounts = (\<lambda>_. \<lparr>mt_fs = \<lparr>lf_root = ''/srv'',
      lf_files = [([''a!!''], \<lparr>rf_data = ''1'', rf_mtime = 0\<rparr>), ([''a'', ''x''], \<lparr>rf_data = ''2'', rf_mtime = 0\<rparr>), ([''a!'', ''y''], \<lparr>rf_data = ''3'', rf_mtime = 0\<rparr>)],
      lf_dirs = [[], [''a''], [''a!'']]\<rparr>, mt_writable = True\<rparr>)"

text \<open>
  A listing by directory can lose keys.  The entries of a directory are cut off in the order of their names, before
  they are sorted with a slash behind directories: with the directories \<open>a\<close> and \<open>a!\<close> and the file \<open>a!!\<close>, pages of one
  entry never show the file, which a page of three entries does.
\<close>

theorem single_level_loses_keys:
  "list_pages 10 demo_mounts demo_share [] ''/'' [] 1 = [''a!/'', ''a/''] \<and>
   list_pages 10 demo_mounts demo_share [] ''/'' [] 3 = [''a!!'', ''a!/'', ''a/'']"
  by (rule conjI; code_simp)

lemma demo_source_ok: "source_ok demo_mounts demo_source"
  by (auto simp: source_ok_def tree_ok_def source_fs_def demo_mounts_def demo_source_def segment_ok_def)

theorem listing_complete_witness:
  "list_pages 10 demo_mounts demo_share [] [] ''a!'' 1 = sorted_list_of_set (share_keys demo_mounts demo_share [] ''a!'')"
proof (rule listing_complete [of "[]"])
  show "cleanKeyPrefix [] = Some []" by (simp add: cleanKeyPrefix_def)
  show "\<forall>src\<in>set (sh_Sources demo_share). source_ok demo_mounts src" using demo_source_ok by (simp add: demo_share_def)
  have "card (share_keys demo_mounts demo_share [] ''a!'') \<le> card {''a!!'', ''a!/y'', ''a/x''}"
    by (rule card_mono) (auto simp: share_keys_def matching_def demo_share_def demo_source_def base_path_def source_fs_def demo_mounts_def)
  then show "card (share_keys demo_mounts demo_share [] ''a!'') < 10" by simp
qed simp

end
