(* ===== verification/S3_Sig.thy ===== *)
theory S3_Sig
  imports S3_Shares
begin

text \<open>
  The requests of the S3 server, its errors (\<open>internal/serve/s3serve/error.go\<close>, without the texts) and the verification of
  AWS signatures (\<open>sigv4.go\<close>).  A request comes with its path and query decoded, as \<open>net/url\<close> gives them, the names of its
  headers in lower case and without the host, as \<open>net/http\<close> gives it.  SHA-256, HMAC-SHA-256 and MD5 are parameters that
  give the raw bytes; times are nanoseconds since 1970.
\<close>

section \<open>Requests and errors\<close>

record s3_request =
  sr_Method :: string
  sr_Path :: string
  sr_Query :: "(string \<times> string) list"
  sr_Host :: string
  sr_Header :: "(string \<times> string) list"
  sr_Body :: body
  sr_ContentLength :: int

record s3_env =
  sv_sha256 :: "string \<Rightarrow> string"
  sv_hmac :: "string \<Rightarrow> string \<Rightarrow> string"
  sv_md5 :: "string \<Rightarrow> string"
  sv_shares :: "serve_share list"
  sv_users :: "serve_user list"
  sv_region :: string
  sv_now :: int

definition values_of :: "(string \<times> string) list \<Rightarrow> string \<Rightarrow> string list" where
  "values_of kvs k = map snd (filter (\<lambda>kv. fst kv = k) kvs)"

definition first_of :: "(string \<times> string) list \<Rightarrow> string \<Rightarrow> string" where
  "first_of kvs k = (case values_of kvs k of [] \<Rightarrow> [] | v # _ \<Rightarrow> v)"

definition has_key :: "(string \<times> string) list \<Rightarrow> string \<Rightarrow> bool" where
  "has_key kvs k \<longleftrightarrow> list_ex (\<lambda>kv. fst kv = k) kvs"

datatype s3_error = S3_Error (se_Code: string) (se_Status: nat)

definition errNoSuchBucket :: s3_error where "errNoSuchBucket = S3_Error ''NoSuchBucket'' 404"
definition errNoSuchKey :: s3_error where "errNoSuchKey = S3_Error ''NoSuchKey'' 404"
definition errNoSuchUpload :: s3_error where "errNoSuchUpload = S3_Error ''NoSuchUpload'' 404"
definition errAccessDenied :: s3_error where "errAccessDenied = S3_Error ''AccessDenied'' 403"
definition errInvalidAccessKey :: s3_error where "errInvalidAccessKey = S3_Error ''InvalidAccessKeyId'' 403"
definition errSignatureMismatch :: s3_error where "errSignatureMismatch = S3_Error ''SignatureDoesNotMatch'' 403"
definition errAuthMalformed :: s3_error where "errAuthMalformed = S3_Error ''AuthorizationHeaderMalformed'' 400"
definition errMissingAuth :: s3_error where "errMissingAuth = S3_Error ''AccessDenied'' 403"
definition errTimeSkewed :: s3_error where "errTimeSkewed = S3_Error ''RequestTimeTooSkewed'' 403"
definition errExpiredPresign :: s3_error where "errExpiredPresign = S3_Error ''AccessDenied'' 403"
definition errInvalidArgument :: s3_error where "errInvalidArgument = S3_Error ''InvalidArgument'' 400"
definition errInvalidRequest :: s3_error where "errInvalidRequest = S3_Error ''InvalidRequest'' 400"
definition errMethodNotAllowed :: s3_error where "errMethodNotAllowed = S3_Error ''MethodNotAllowed'' 405"
definition errNotImplemented :: s3_error where "errNotImplemented = S3_Error ''NotImplemented'' 501"
definition errInternal :: s3_error where "errInternal = S3_Error ''InternalError'' 500"

section \<open>Times\<close>

text \<open>
  \<open>time.Parse\<close> with the layout \<open>20060102T150405Z\<close>: the hour may have one digit, and a fraction may follow the seconds.
\<close>

definition fixed_num :: "nat \<Rightarrow> string \<Rightarrow> (int \<times> string) option" where
  "fixed_num n s = (if n \<le> length s \<and> list_all is_digit (take n s)
     then Some (foldl (\<lambda>a c. 10 * a + int (digit_val c)) 0 (take n s), drop n s) else None)"

definition days_in :: "int \<Rightarrow> int \<Rightarrow> int" where
  "days_in y m = (if m = 2 then (if y mod 4 = 0 \<and> (y mod 100 \<noteq> 0 \<or> y mod 400 = 0) then 29 else 28)
     else if m \<in> {4, 6, 9, 11} then 30 else 31)"

definition civil_days :: "int \<Rightarrow> int \<Rightarrow> int \<Rightarrow> int" where
  "civil_days y m d = (let y' = (if m \<le> 2 then y - 1 else y); doy = (153 * (if m > 2 then m - 3 else m + 9) + 2) div 5 + d - 1
     in 365 * y' + y' div 4 - y' div 100 + y' div 400 + doy - 719468)"

definition fraction :: "string \<Rightarrow> int \<times> string" where
  "fraction s = (case s of c # t \<Rightarrow>
       (let ds = takeWhile is_digit t; used = take 9 ds
        in if (c = CHR ''.'' \<or> c = CHR '','') \<and> ds \<noteq> []
           then (foldl (\<lambda>a c. 10 * a + int (digit_val c)) 0 used * 10 ^ (9 - length used), drop (length ds) t) else (0, s))
     | [] \<Rightarrow> (0, s))"

definition parse_amz_date :: "string \<Rightarrow> int option" where
  "parse_amz_date s =
     Option.bind (fixed_num 4 s) (\<lambda>(y, s). Option.bind (fixed_num 2 s) (\<lambda>(mo, s). Option.bind (fixed_num 2 s) (\<lambda>(d, s).
     if \<not> has_prefix s ''T'' then None
     else Option.bind (case fixed_num 2 (drop 1 s) of Some r \<Rightarrow> Some r | None \<Rightarrow> fixed_num 1 (drop 1 s)) (\<lambda>(h, s).
     Option.bind (fixed_num 2 s) (\<lambda>(mi, s). Option.bind (fixed_num 2 s) (\<lambda>(sec, s). let (ns, s) = fraction s in
       if s \<noteq> ''Z'' \<or> mo < 1 \<or> 12 < mo \<or> d < 1 \<or> days_in y mo < d \<or> 24 \<le> h \<or> 60 \<le> mi \<or> 60 \<le> sec then None
       else Some ((((civil_days y mo d * 24 + h) * 60 + mi) * 60 + sec) * 10 ^ 9 + ns)))))))"

definition maxClockSkew :: int where "maxClockSkew = 15 * 60 * 10 ^ 9"

section \<open>The canonical request\<close>

definition sigV4Algorithm :: string where "sigV4Algorithm = ''AWS4-HMAC-SHA256''"
definition unsignedPayload :: string where "unsignedPayload = ''UNSIGNED-PAYLOAD''"
definition streamingSHAPref :: string where "streamingSHAPref = ''STREAMING-''"
abbreviation nl :: char where "nl \<equiv> CHR 0x0A"

definition trimAll :: "string \<Rightarrow> string" where
  "trimAll s = join_on CHR '' '' (str_fields s)"

definition unreserved :: "char \<Rightarrow> bool" where
  "unreserved c \<longleftrightarrow> is_upper c \<or> is_lower c \<or> is_digit c \<or> c \<in> {CHR ''-'', CHR ''.'', CHR ''_'', CHR ''~''}"

definition upperhex :: string where "upperhex = ''0123456789ABCDEF''"

definition uri_char :: "bool \<Rightarrow> char \<Rightarrow> string" where
  "uri_char keepSlash c = (if unreserved c \<or> c = CHR ''/'' \<and> keepSlash then [c]
     else [CHR ''%'', upperhex ! (of_char c div 16), upperhex ! (of_char c mod 16)])"

definition s3URIEncode :: "string \<Rightarrow> bool \<Rightarrow> string" where
  "s3URIEncode s keepSlash = concat (map (uri_char keepSlash) s)"

definition query_pairs :: "(string \<times> string) list \<Rightarrow> bool \<Rightarrow> (string \<times> string) list" where
  "query_pairs q presigned = concat (map (\<lambda>k. map (Pair k) (sort (values_of q k)))
     (sort (remdups (filter (\<lambda>k. \<not> (presigned \<and> k = ''X-Amz-Signature'')) (map fst q)))))"

definition canonicalQueryString :: "(string \<times> string) list \<Rightarrow> bool \<Rightarrow> string" where
  "canonicalQueryString q presigned =
     join_on CHR ''&'' (map (\<lambda>(k, v). s3URIEncode k False @ CHR ''='' # s3URIEncode v False) (query_pairs q presigned))"

definition header_line :: "s3_request \<Rightarrow> string \<Rightarrow> string" where
  "header_line r h = (let h = to_lower (trim_space h)
     in h @ CHR '':'' # trimAll (if h = ''host'' then sr_Host r else join_on CHR '','' (values_of (sr_Header r) h)))"

definition canonicalRequest :: "s3_request \<Rightarrow> string \<Rightarrow> string \<Rightarrow> bool \<Rightarrow> string" where
  "canonicalRequest r signedHeaders payloadHash presigned =
     sr_Method r @ nl # s3URIEncode (sr_Path r) True @ nl # canonicalQueryString (sr_Query r) presigned @ nl #
     concat (map (\<lambda>h. header_line r h @ [nl]) (split_on CHR '';'' signedHeaders)) @ nl # signedHeaders @ nl # payloadHash"

section \<open>Signatures\<close>

record credential_scope =
  cs_accessKey :: string
  cs_date :: string
  cs_region :: string
  cs_service :: string

definition parseCredential :: "string \<Rightarrow> s3_error + credential_scope" where
  "parseCredential cred = (case split_on CHR ''/'' cred of
     [key, date, region, service, terminator] \<Rightarrow>
       (if terminator = ''aws4_request'' then Ok \<lparr>cs_accessKey = key, cs_date = date, cs_region = region, cs_service = service\<rparr>
        else Err errAuthMalformed)
   | _ \<Rightarrow> Err errAuthMalformed)"

definition stringToSign :: "s3_env \<Rightarrow> credential_scope \<Rightarrow> string \<Rightarrow> string \<Rightarrow> string" where
  "stringToSign env cred amzDate canonical = sigV4Algorithm @ nl # amzDate @ nl #
     (cs_date cred @ CHR ''/'' # cs_region cred @ CHR ''/'' # cs_service cred @ ''/aws4_request'') @ nl #
     hex_string (sv_sha256 env canonical)"

definition signingKey :: "s3_env \<Rightarrow> string \<Rightarrow> credential_scope \<Rightarrow> string" where
  "signingKey env secretKey cred =
     sv_hmac env (sv_hmac env (sv_hmac env (sv_hmac env (''AWS4'' @ secretKey) (cs_date cred)) (cs_region cred)) (cs_service cred)) ''aws4_request''"

definition computeSignature :: "s3_env \<Rightarrow> string \<Rightarrow> credential_scope \<Rightarrow> string \<Rightarrow> string \<Rightarrow> string" where
  "computeSignature env secretKey cred amzDate canonical =
     hex_string (sv_hmac env (signingKey env secretKey cred) (stringToSign env cred amzDate canonical))"

text \<open>The last field of each name counts.\<close>

definition auth_field :: "string \<times> string \<times> string \<Rightarrow> string \<Rightarrow> string \<times> string \<times> string" where
  "auth_field st part = (case st of (cred, names, sig) \<Rightarrow> let part = trim_space part in
     if has_prefix part ''Credential='' then (trim_prefix part ''Credential='', names, sig)
     else if has_prefix part ''SignedHeaders='' then (cred, trim_prefix part ''SignedHeaders='', sig)
     else if has_prefix part ''Signature='' then (cred, names, trim_prefix part ''Signature='')
     else (cred, names, sig))"

definition auth_fields :: "string \<Rightarrow> string \<times> string \<times> string" where
  "auth_fields auth = foldl auth_field ([], [], []) (split_on CHR '','' (trim_prefix auth sigV4Algorithm))"

definition amz_date_of :: "s3_request \<Rightarrow> string" where
  "amz_date_of r = (let d = first_of (sr_Header r) ''x-amz-date'' in if d = [] then first_of (sr_Header r) ''date'' else d)"

definition payload_hash_of :: "s3_request \<Rightarrow> string" where
  "payload_hash_of r = (let h = first_of (sr_Header r) ''x-amz-content-sha256'' in if h = [] then unsignedPayload else h)"

definition verifyHeaderAuth :: "s3_env \<Rightarrow> s3_request \<Rightarrow> string \<Rightarrow> s3_error + serve_user" where
  "verifyHeaderAuth env r auth = (case auth_fields auth of (credStr, signedHeaders, sig) \<Rightarrow>
     if credStr = [] \<or> signedHeaders = [] \<or> sig = [] then Err errAuthMalformed
     else bind_res (parseCredential credStr) (\<lambda>cred.
       case lookupUser (sv_users env) (cs_accessKey cred) of None \<Rightarrow> Err errInvalidAccessKey
       | Some user \<Rightarrow> (case parse_amz_date (amz_date_of r) of None \<Rightarrow> Err errAuthMalformed
         | Some t \<Rightarrow>
             if sv_now env - t > maxClockSkew \<or> sv_now env - t < - maxClockSkew then Err errTimeSkewed
             else if computeSignature env (su_Password user) cred (amz_date_of r)
                 (canonicalRequest r signedHeaders (payload_hash_of r) False) \<noteq> sig then Err errSignatureMismatch
             else Ok user)))"

text \<open>The lifetime is a 64-bit number of nanoseconds.\<close>

definition presign_lifetime :: "int \<Rightarrow> int" where
  "presign_lifetime expires = sint (word_of_int (expires * 10 ^ 9) :: 64 word)"

definition verifyPresignedAuth :: "s3_env \<Rightarrow> s3_request \<Rightarrow> s3_error + serve_user" where
  "verifyPresignedAuth env r = (let q = sr_Query r in
     bind_res (parseCredential (first_of q ''X-Amz-Credential'')) (\<lambda>cred.
       case lookupUser (sv_users env) (cs_accessKey cred) of None \<Rightarrow> Err errInvalidAccessKey
       | Some user \<Rightarrow> (case parse_amz_date (first_of q ''X-Amz-Date'') of None \<Rightarrow> Err errAuthMalformed
         | Some t \<Rightarrow> (case ParseInt 10 (first_of q ''X-Amz-Expires'') of None \<Rightarrow> Err errInvalidArgument
           | Some expires \<Rightarrow>
               let signedHeaders = first_of q ''X-Amz-SignedHeaders''; sig = first_of q ''X-Amz-Signature'' in
               if expires < 1 then Err errInvalidArgument
               else if sv_now env > t + presign_lifetime expires then Err errExpiredPresign
               else if signedHeaders = [] \<or> sig = [] then Err errAuthMalformed
               else if computeSignature env (su_Password user) cred (first_of q ''X-Amz-Date'')
                   (canonicalRequest r signedHeaders unsignedPayload True) \<noteq> sig then Err errSignatureMismatch
               else Ok user))))"

definition authenticate :: "s3_env \<Rightarrow> s3_request \<Rightarrow> s3_error + serve_user" where
  "authenticate env r = (let auth = first_of (sr_Header r) ''authorization'' in
     if has_prefix auth sigV4Algorithm then verifyHeaderAuth env r auth
     else if first_of (sr_Query r) ''X-Amz-Algorithm'' = sigV4Algorithm then verifyPresignedAuth env r
     else Err errMissingAuth)"

definition isStreamingPayload :: "s3_request \<Rightarrow> bool" where
  "isStreamingPayload r \<longleftrightarrow> has_prefix (first_of (sr_Header r) ''x-amz-content-sha256'') streamingSHAPref \<or>
     list_ex (\<lambda>enc. list_ex (\<lambda>e. trim_space e = ''aws-chunked'') (split_on CHR '','' enc)) (values_of (sr_Header r) ''content-encoding'')"

section \<open>Facts\<close>

lemma upperhex_value: "n < 16 \<Longrightarrow> hex_value (upperhex ! n) = Some n \<and> upperhex ! n \<noteq> CHR ''&'' \<and> upperhex ! n \<noteq> CHR ''='' \<and> upperhex ! n \<noteq> nl"
proof -
  assume n: "n < 16"
  have "list_all (\<lambda>n. hex_value (upperhex ! n) = Some n \<and> upperhex ! n \<noteq> CHR ''&'' \<and> upperhex ! n \<noteq> CHR ''='' \<and> upperhex ! n \<noteq> nl) [0..<16]"
    by code_simp
  then show ?thesis using n by (simp add: list_all_iff)
qed

lemma encode_Cons [simp]: "s3URIEncode [] k = []" "s3URIEncode (c # s) k = uri_char k c @ s3URIEncode s k"
  by (simp_all add: s3URIEncode_def)

lemma nibbles: "of_char c div 16 < (16::nat)" "of_char c mod 16 < (16::nat)"
  using nat_of_char_less_256 [of c] by (simp_all add: less_mult_imp_div_less)

lemma unescape_char: "PathUnescape (uri_char k c @ t) = map_option ((#) c) (PathUnescape t)"
proof (cases "unreserved c \<or> c = CHR ''/'' \<and> k")
  case True
  then have "c \<noteq> CHR ''%''" by (auto simp: unreserved_def is_upper_def is_lower_def is_digit_def char_le_iff)
  then show ?thesis using True by (simp add: uri_char_def)
next
  case False
  have "char_of (16 * (of_char c div 16 :: nat) + of_char c mod 16) = c" by simp
  then show ?thesis using False upperhex_value [OF nibbles(1) [of c]] upperhex_value [OF nibbles(2) [of c]]
    by (simp add: uri_char_def)
qed

text \<open>The encoding of a path or a query is undone by \<open>url.PathUnescape\<close>, so nothing has the encoding of something else.\<close>

lemma unescape_encode: "PathUnescape (s3URIEncode s k) = Some s"
  by (induction s) (simp_all add: unescape_char)

lemma encode_inj: "s3URIEncode s k = s3URIEncode t k \<Longrightarrow> s = t"
  by (metis option.inject unescape_encode)

lemma encode_plain: "c \<in> set (s3URIEncode s k) \<Longrightarrow> c \<noteq> CHR ''&'' \<and> c \<noteq> CHR ''='' \<and> c \<noteq> nl"
proof -
  have "c \<noteq> CHR ''&'' \<and> c \<noteq> CHR ''='' \<and> c \<noteq> nl" if "c \<in> set (uri_char k x)" for x
    using that upperhex_value [OF nibbles(1) [of x]] upperhex_value [OF nibbles(2) [of x]]
    by (auto simp: uri_char_def unreserved_def is_upper_def is_lower_def is_digit_def char_le_iff split: if_splits)
  then show "c \<in> set (s3URIEncode s k) \<Longrightarrow> c \<noteq> CHR ''&'' \<and> c \<noteq> CHR ''='' \<and> c \<noteq> nl" by (auto simp: s3URIEncode_def)
qed


lemma encode_no [simp]: "CHR ''&'' \<notin> set (s3URIEncode s k)" "CHR ''='' \<notin> set (s3URIEncode s k)" "nl \<notin> set (s3URIEncode s k)"
  using encode_plain by blast+

lemma join_Nil: "\<forall>p\<in>set ps. p \<noteq> [] \<Longrightarrow> join_on c ps = [] \<Longrightarrow> ps = []"
  by (cases ps; cases "tl ps") (auto simp: tl_def split: list.splits)

lemma join_on_inj:
  assumes "\<forall>p\<in>set ps \<union> set qs. c \<notin> set p \<and> p \<noteq> []" "join_on c ps = join_on c qs"
  shows "ps = qs"
proof -
  have sp: "split_on c (join_on c xs) = xs" if "xs \<noteq> []" "set xs \<subseteq> set ps \<union> set qs" for xs
    by (rule split_join) (use that assms(1) in blast)+
  consider "ps = []" | "qs = []" | "ps \<noteq> []" "qs \<noteq> []" by blast
  then show ?thesis
  proof cases
    case 1
    then have "join_on c qs = []" using assms(2) by simp
    then show ?thesis using 1 join_Nil assms(1) by blast
  next
    case 2
    then have "join_on c ps = []" using assms(2) by simp
    then show ?thesis using 2 join_Nil assms(1) by blast
  next
    case 3
    then show ?thesis using sp [of ps] sp [of qs] assms(2) by (metis Un_upper1 Un_upper2)
  qed
qed

lemma query_string_inj: "canonicalQueryString q p = canonicalQueryString q' p \<Longrightarrow> query_pairs q p = query_pairs q' p"
proof -
  let ?enc = "\<lambda>(k, v). s3URIEncode k False @ CHR ''='' # s3URIEncode v False"
  assume "canonicalQueryString q p = canonicalQueryString q' p"
  moreover have "\<forall>x\<in>set (map ?enc (query_pairs q p)) \<union> set (map ?enc (query_pairs q' p)). CHR ''&'' \<notin> set x \<and> x \<noteq> []"
    by auto
  ultimately have e: "map ?enc (query_pairs q p) = map ?enc (query_pairs q' p)"
    unfolding canonicalQueryString_def by (metis join_on_inj)
  have "inj ?enc"
  proof (rule injI)
    fix x y assume eq: "?enc x = ?enc y"
    obtain k v k' v' where xy: "x = (k, v)" "y = (k', v')" by fastforce
    have sp: "split_on CHR ''='' (?enc (a, b)) = [s3URIEncode a False, s3URIEncode b False]" for a b
      by (simp add: split_on_append split_on_single)
    have "[s3URIEncode k False, s3URIEncode v False] = [s3URIEncode k' False, s3URIEncode v' False]"
      using arg_cong [OF eq [unfolded xy], of "split_on CHR ''=''"] unfolding sp .
    then have "s3URIEncode k False = s3URIEncode k' False \<and> s3URIEncode v False = s3URIEncode v' False" by blast
    then show "x = y" using encode_inj xy by blast
  qed
  then show ?thesis using e by (simp add: inj_map_eq_map)
qed

lemma fields_from_plain: "list_all (\<lambda>c. \<not> is_space c) acc \<Longrightarrow> f \<in> set (str_fields_from acc s) \<Longrightarrow> list_all (\<lambda>c. \<not> is_space c) f"
  by (induction acc s rule: str_fields_from.induct) (auto split: if_splits)

lemma join_chars: "c \<in> set (join_on d ps) \<Longrightarrow> c = d \<or> (\<exists>p\<in>set ps. c \<in> set p)"
  by (induction d ps rule: join_on.induct) auto

lemma in_set_join: "p \<in> set ps \<Longrightarrow> set p \<subseteq> set (join_on d ps)"
  by (induction d ps rule: join_on.induct) auto

lemma trimAll_line: "nl \<notin> set (trimAll s)"
proof
  assume "nl \<in> set (trimAll s)"
  then obtain f where "f \<in> set (str_fields s)" "nl \<in> set f" using join_chars by (fastforce simp: trimAll_def)
  then show False using fields_from_plain [of "[]" f s] by (auto simp: str_fields_def list_all_iff is_space_def)
qed

lemma trim_space_chars: "c \<in> set (trim_space s) \<Longrightarrow> c \<in> set s"
  by (auto simp: trim_space_def trim_func_def trim_left_func_def trim_right_func_def dest!: set_dropWhileD)

lemma lower_nl: "nl \<in> set (to_lower s) \<Longrightarrow> nl \<in> set s"
proof -
  have "lower_char c = nl \<Longrightarrow> c = nl" for c
  proof (rule ccontr)
    assume c: "lower_char c = nl" "c \<noteq> nl"
    then have u: "is_upper c" and "char_of (of_char c + 32 :: nat) = nl" by (auto simp: lower_char_def split: if_splits)
    then have "of_char (char_of (of_char c + 32 :: nat)) = (10::nat)" by simp
    then have "(of_char c + 32) mod 256 = (10::nat)" by (simp only: of_char_of)
    then show False using u by (simp add: is_upper_def char_le_iff)
  qed
  then show "nl \<in> set (to_lower s) \<Longrightarrow> nl \<in> set s" by (force simp: to_lower_def)
qed

lemma header_line_line: "nl \<notin> set h \<Longrightarrow> nl \<notin> set (header_line r h)"
  using lower_nl [of "trim_space h"] trim_space_chars [of nl h] trimAll_line by (auto simp: header_line_def Let_def)

text \<open>The lines of a canonical request.\<close>

lemma canonical_lines:
  assumes "nl \<notin> set (sr_Method r)" "nl \<notin> set S" "nl \<notin> set P"
  shows "split_on nl (canonicalRequest r S P pre) =
    sr_Method r # s3URIEncode (sr_Path r) True # canonicalQueryString (sr_Query r) pre # map (header_line r) (split_on CHR '';'' S) @ [[], S, P]"
proof -
  have q: "nl \<notin> set (canonicalQueryString (sr_Query r) pre)"
    by (auto simp: canonicalQueryString_def dest!: join_chars)
  have hl: "\<forall>h\<in>set hs. nl \<notin> set h \<Longrightarrow> split_on nl (concat (map (\<lambda>h. header_line r h @ [nl]) hs) @ t) = map (header_line r) hs @ split_on nl t" for hs t
    by (induction hs) (simp_all add: split_on_append header_line_line)
  have "\<forall>h\<in>set (split_on CHR '';'' S). nl \<notin> set h"
    using assms(2) join_split [of "CHR '';''" S] by (metis in_set_join subsetD)
  then show ?thesis using assms q
    by (simp add: canonicalRequest_def split_on_append hl split_on_single)
qed


text \<open>Requests as they come over the wire: no line feed in the method or in a header.\<close>

definition wire_request :: "s3_request \<Rightarrow> bool" where
  "wire_request r \<longleftrightarrow> nl \<notin> set (sr_Method r) \<and> (\<forall>kv\<in>set (sr_Header r). nl \<notin> set (snd kv))"

lemma first_of_line: "\<forall>kv\<in>set kvs. nl \<notin> set (snd kv) \<Longrightarrow> nl \<notin> set (first_of kvs k)"
  by (auto simp: first_of_def values_of_def filter_eq_Cons_iff split: list.split)

lemma in_split: "p \<in> set (split_on c s) \<Longrightarrow> set p \<subseteq> set s"
  using in_set_join [of p "split_on c s" c] by simp

lemma trim_prefix_chars: "set (trim_prefix s p) \<subseteq> set s"
  by (simp add: trim_prefix_def set_drop_subset)

lemma auth_fields_chars:
  assumes "auth_fields auth = (cred, S, sig)"
  shows "set cred \<union> set S \<union> set sig \<subseteq> set auth"
proof -
  have step: "set a \<union> set b \<union> set c \<subseteq> X"
    if "foldl auth_field st parts = (a, b, c)" "\<forall>p\<in>set parts. set p \<subseteq> X" "set (fst st) \<union> set (fst (snd st)) \<union> set (snd (snd st)) \<subseteq> X"
    for parts st a b c X using that
  proof (induction parts arbitrary: st)
    case (Cons p parts)
    have p: "set (trim_space p) \<subseteq> X" using Cons.prems(2) trim_space_chars by fastforce
    have "set (fst (auth_field st p)) \<union> set (fst (snd (auth_field st p))) \<union> set (snd (snd (auth_field st p))) \<subseteq> X"
      using Cons.prems(3) subset_trans [OF trim_prefix_chars p] by (cases st) (auto simp: auth_field_def Let_def)
    then show ?case using Cons.IH [of "auth_field st p"] Cons.prems by simp
  qed auto
  have "\<forall>p\<in>set (split_on CHR '','' (trim_prefix auth sigV4Algorithm)). set p \<subseteq> set auth"
    using in_split trim_prefix_chars by blast
  then show ?thesis using step [of "([], [], [])"] assms by (simp add: auth_fields_def)
qed

lemma parseCredential_chars:
  assumes "parseCredential s = Ok cred"
  shows "set (cs_accessKey cred) \<union> set (cs_date cred) \<union> set (cs_region cred) \<union> set (cs_service cred) \<subseteq> set s"
proof -
  have "\<forall>p\<in>set (split_on CHR ''/'' s). set p \<subseteq> set s" using in_split by blast
  then show ?thesis using assms by (auto simp: parseCredential_def split: list.splits if_splits)
qed

lemma hex_string_nl: "nl \<notin> set (hex_string s)"
proof -
  have "list_all (\<lambda>n. hex_digits ! n \<noteq> nl) [0..<16]" by code_simp
  then have "n < 16 \<Longrightarrow> nl \<noteq> hex_digits ! n" for n by (force simp: list_all_iff)
  then show ?thesis using nibbles by (simp add: hex_string_def)
qed

lemma hex_string_inj: "hex_string s = hex_string t \<Longrightarrow> s = t"
proof -
  have "list_all (\<lambda>n. hex_value (hex_digits ! n) = Some n) [0..<16]" by code_simp
  then have v: "n < 16 \<Longrightarrow> hex_value (hex_digits ! n) = Some n" for n by (simp add: list_all_iff)
  have "hex_decode (hex_string s) = Some s" for s
  proof (induction s)
    case (Cons c s)
    have "char_of (16 * (of_char c div 16 :: nat) + of_char c mod 16) = c" by simp
    then show ?case using Cons v [OF nibbles(1) [of c]] v [OF nibbles(2) [of c]] by (simp add: hex_string_def)
  qed (simp add: hex_string_def)
  then show "hex_string s = hex_string t \<Longrightarrow> s = t" by (metis option.inject)
qed

text \<open>What the signature of a request covers.\<close>

definition authorization :: "s3_request \<Rightarrow> string" where
  "authorization r = first_of (sr_Header r) ''authorization''"

definition signed_headers :: "s3_request \<Rightarrow> string" where
  "signed_headers r = fst (snd (auth_fields (authorization r)))"

definition signed_canonical :: "s3_request \<Rightarrow> string" where
  "signed_canonical r = canonicalRequest r (signed_headers r) (payload_hash_of r) False"

definition signed_parts :: "s3_request \<Rightarrow> string \<times> string \<times> (string \<times> string) list \<times> string \<times> string \<times> string list" where
  "signed_parts r = (sr_Method r, sr_Path r, query_pairs (sr_Query r) False, amz_date_of r, payload_hash_of r,
     map (header_line r) (split_on CHR '';'' (signed_headers r)))"

definition signed_scope :: "s3_request \<Rightarrow> credential_scope" where
  "signed_scope r = projr (parseCredential (fst (auth_fields (authorization r))))"

definition signed_message :: "s3_env \<Rightarrow> s3_request \<Rightarrow> serve_user \<Rightarrow> string \<times> string" where
  "signed_message env r user =
     (signingKey env (su_Password user) (signed_scope r), stringToSign env (signed_scope r) (amz_date_of r) (signed_canonical r))"

definition mac_of :: "s3_env \<Rightarrow> string \<times> string \<Rightarrow> string" where
  "mac_of env km = sv_hmac env (fst km) (snd km)"

lemma header_authD:
  assumes "verifyHeaderAuth env r (authorization r) = Ok user"
  obtains credStr S sig cred t where "auth_fields (authorization r) = (credStr, S, sig)" "parseCredential credStr = Ok cred"
    "lookupUser (sv_users env) (cs_accessKey cred) = Some user" "parse_amz_date (amz_date_of r) = Some t" "\<bar>sv_now env - t\<bar> \<le> maxClockSkew"
    "sig = hex_string (mac_of env (signed_message env r user))"
  using assms
  by (fastforce simp: verifyHeaderAuth_def bind_res_Ok_iff mac_of_def signed_message_def signed_scope_def signed_canonical_def signed_headers_def computeSignature_def Let_def
      split: prod.splits if_splits option.splits)

lemma canonical_binds:
  assumes "wire_request r" "wire_request r'" "signed_canonical r = signed_canonical r'"
    and "nl \<notin> set (signed_headers r)" "nl \<notin> set (signed_headers r')" "amz_date_of r = amz_date_of r'"
  shows "signed_parts r = signed_parts r'"
proof -
  have P: "nl \<notin> set (payload_hash_of x)" if "wire_request x" for x
    using that first_of_line by (simp add: payload_hash_of_def wire_request_def unsignedPayload_def Let_def)
  have l: "split_on nl (signed_canonical x) = sr_Method x # s3URIEncode (sr_Path x) True # canonicalQueryString (sr_Query x) False #
      map (header_line x) (split_on CHR '';'' (signed_headers x)) @ [[], signed_headers x, payload_hash_of x]"
    if "wire_request x" "nl \<notin> set (signed_headers x)" for x
    unfolding signed_canonical_def by (rule canonical_lines) (use that P in \<open>simp_all add: wire_request_def\<close>)
  have "sr_Method r = sr_Method r'" "s3URIEncode (sr_Path r) True = s3URIEncode (sr_Path r') True"
    "canonicalQueryString (sr_Query r) False = canonicalQueryString (sr_Query r') False"
    and e: "map (header_line r) (split_on CHR '';'' (signed_headers r)) @ [[], signed_headers r, payload_hash_of r] =
      map (header_line r') (split_on CHR '';'' (signed_headers r')) @ [[], signed_headers r', payload_hash_of r']"
    using arg_cong [OF assms(3), of "split_on nl"] unfolding l [OF assms(1,4)] l [OF assms(2,5)] by auto
  moreover have "map (header_line r) (split_on CHR '';'' (signed_headers r)) = map (header_line r') (split_on CHR '';'' (signed_headers r'))"
    "payload_hash_of r = payload_hash_of r'" using e by auto
  ultimately show ?thesis using encode_inj query_string_inj assms(6) unfolding signed_parts_def by metis
qed

text \<open>
  C13: a signature in the header is worth nothing for another request.  Two requests that are accepted with the same
  signature agree in the method, the path, the query, the date, the hash of the body and every signed header, and are
  accepted within half an hour, unless they show a collision of SHA-256 or of HMAC-SHA-256.
\<close>

theorem signature_binds:
  assumes "wire_request r" "wire_request r'" "sv_sha256 env' = sv_sha256 env" "sv_hmac env' = sv_hmac env"
    and "verifyHeaderAuth env r (authorization r) = Ok user" "verifyHeaderAuth env' r' (authorization r') = Ok user'"
    and "snd (snd (auth_fields (authorization r))) = snd (snd (auth_fields (authorization r')))"
    and no_sha: "sv_sha256 env (signed_canonical r) = sv_sha256 env (signed_canonical r') \<Longrightarrow> signed_canonical r = signed_canonical r'"
    and no_mac: "mac_of env (signed_message env r user) = mac_of env (signed_message env r' user') \<Longrightarrow>
      signed_message env r user = signed_message env r' user'"
  shows "signed_parts r = signed_parts r' \<and> \<bar>sv_now env - sv_now env'\<bar> \<le> 2 * maxClockSkew"
proof -
  obtain cs S sig cred t where a: "auth_fields (authorization r) = (cs, S, sig)" "parseCredential cs = Ok cred"
    "parse_amz_date (amz_date_of r) = Some t" "\<bar>sv_now env - t\<bar> \<le> maxClockSkew"
    "sig = hex_string (mac_of env (signed_message env r user))"
    using header_authD [OF assms(5)] by metis
  obtain cs' S' sig' cred' t' where b: "auth_fields (authorization r') = (cs', S', sig')" "parseCredential cs' = Ok cred'"
    "parse_amz_date (amz_date_of r') = Some t'" "\<bar>sv_now env' - t'\<bar> \<le> maxClockSkew"
    "sig' = hex_string (mac_of env' (signed_message env' r' user'))"
    using header_authD [OF assms(6)] by metis
  have sc: "signed_scope r = cred" "signed_scope r' = cred'" using a(1,2) b(1,2) by (simp_all add: signed_scope_def)
  have same: "mac_of env' (signed_message env' r' user') = mac_of env (signed_message env r' user')"
    using assms(3,4) by (simp add: mac_of_def signed_message_def signingKey_def stringToSign_def)
  have "hex_string (mac_of env (signed_message env r user)) = hex_string (mac_of env (signed_message env r' user'))"
    using a(1,5) b(1,5) assms(7) by (simp add: same)
  then have "signed_message env r user = signed_message env r' user'" using no_mac hex_string_inj by blast
  then have m: "stringToSign env cred (amz_date_of r) (signed_canonical r) = stringToSign env cred' (amz_date_of r') (signed_canonical r')"
    by (simp add: signed_message_def sc)
  have auth: "nl \<notin> set (authorization x) \<and> nl \<notin> set (amz_date_of x)" if "wire_request x" for x
    using that first_of_line by (simp add: authorization_def amz_date_of_def wire_request_def Let_def)
  have S: "nl \<notin> set S" "nl \<notin> set cs" "nl \<notin> set S'" "nl \<notin> set cs'"
    using auth_fields_chars [OF a(1)] auth_fields_chars [OF b(1)] auth assms(1,2) by blast+
  have sl: "split_on nl (stringToSign env c d x) = [sigV4Algorithm, d, cs_date c @ CHR ''/'' # cs_region c @ CHR ''/'' # cs_service c @ ''/aws4_request'', hex_string (sv_sha256 env x)]"
    if "parseCredential s = Ok c" "nl \<notin> set s" "nl \<notin> set d" for c d x s
    using that parseCredential_chars [OF that(1)] hex_string_nl
    by (subst stringToSign_def, subst split_on_append, simp add: sigV4Algorithm_def, subst split_on_append, simp, subst split_on_append, auto simp: split_on_single)
  have "[amz_date_of r, hex_string (sv_sha256 env (signed_canonical r))] = [amz_date_of r', hex_string (sv_sha256 env (signed_canonical r'))]"
    using arg_cong [OF m, of "split_on nl"] sl [OF a(2) S(2)] sl [OF b(2) S(4)] auth assms(1,2) by simp
  then have "amz_date_of r = amz_date_of r'" "signed_canonical r = signed_canonical r'"
    using no_sha hex_string_inj by auto
  moreover have "nl \<notin> set (signed_headers r)" "nl \<notin> set (signed_headers r')" using S a(1) b(1) by (simp_all add: signed_headers_def)
  ultimately show ?thesis using canonical_binds [OF assms(1,2)] a(3,4) b(3,4) by auto
qed


text \<open>What a signature does not cover.\<close>

definition signed_names :: "s3_request \<Rightarrow> string list" where
  "signed_names r = map (\<lambda>h. to_lower (trim_space h)) (split_on CHR '';'' (if has_prefix (authorization r) sigV4Algorithm
     then signed_headers r else first_of (sr_Query r) ''X-Amz-SignedHeaders''))"

lemma canonical_cong:
  assumes "\<forall>h\<in>set (split_on CHR '';'' S). values_of (sr_Header r') (to_lower (trim_space h)) = values_of (sr_Header r) (to_lower (trim_space h))"
    and "sr_Method r' = sr_Method r" "sr_Path r' = sr_Path r" "sr_Query r' = sr_Query r" "sr_Host r' = sr_Host r"
  shows "canonicalRequest r' S P pre = canonicalRequest r S P pre"
proof -
  have "map (\<lambda>h. header_line r' h @ [nl]) (split_on CHR '';'' S) = map (\<lambda>h. header_line r h @ [nl]) (split_on CHR '';'' S)"
    using assms(1,5) by (simp add: header_line_def Let_def)
  then show ?thesis unfolding canonicalRequest_def using assms(2-4) by presburger
qed

text \<open>
  An accepted signature says nothing of the body or of headers it does not name.  A request with another body, and
  with further or other headers outside the list it was signed with, is accepted or refused like the signed one; neither
  the hash of the body is compared nor must the \<open>x-amz-\<close> headers be signed.
\<close>

theorem unsigned_parts_free:
  assumes "\<forall>h\<in>set (signed_names r) \<union> {''authorization'', ''x-amz-date'', ''date'', ''x-amz-content-sha256''}.
      values_of hs h = values_of (sr_Header r) h"
  shows "authenticate env (r\<lparr>sr_Header := hs, sr_Body := b, sr_ContentLength := n\<rparr>) = authenticate env r"
proof -
  let ?r = "r\<lparr>sr_Header := hs, sr_Body := b, sr_ContentLength := n\<rparr>"
  have g: "\<forall>h\<in>{''authorization'', ''x-amz-date'', ''date'', ''x-amz-content-sha256''}. first_of hs h = first_of (sr_Header r) h"
    using assms by (simp add: first_of_def)
  then have f: "first_of hs ''authorization'' = first_of (sr_Header r) ''authorization''" "amz_date_of ?r = amz_date_of r"
    "payload_hash_of ?r = payload_hash_of r"
    by (simp_all add: amz_date_of_def payload_hash_of_def Let_def)
  show ?thesis
  proof (cases "has_prefix (authorization r) sigV4Algorithm")
    case True
    obtain cs S sig where a: "auth_fields (authorization r) = (cs, S, sig)" by (metis prod_cases3)
    have c: "canonicalRequest ?r S P pre = canonicalRequest r S P pre" for P pre
      by (rule canonical_cong) (use assms True a in \<open>simp_all add: signed_names_def signed_headers_def\<close>)
    have "verifyHeaderAuth env ?r (authorization r) = verifyHeaderAuth env r (authorization r)"
      unfolding verifyHeaderAuth_def a prod.case f(2,3) c by (rule refl)
    then show ?thesis using True f by (simp add: authenticate_def authorization_def Let_def)
  next
    case False
    have c: "canonicalRequest ?r (first_of (sr_Query r) ''X-Amz-SignedHeaders'') P pre =
        canonicalRequest r (first_of (sr_Query r) ''X-Amz-SignedHeaders'') P pre" for P pre
      by (rule canonical_cong) (use assms False in \<open>simp_all add: signed_names_def\<close>)
    have q: "sr_Query ?r = sr_Query r" by simp
    have "verifyPresignedAuth env ?r = verifyPresignedAuth env r"
      unfolding verifyPresignedAuth_def Let_def q c by (rule refl)
    then show ?thesis using False f by (simp add: authenticate_def authorization_def Let_def)
  qed
qed

text \<open>A request signed with a toy hash: the last characters stand for the hash of a text.\<close>

definition demo_user :: serve_user where
  "demo_user = \<lparr>su_Username = ''u'', su_Password = ''p'', su_Shares = [], su_ReadOnly = False\<rparr>"

definition demo_s3 :: "serve_share list \<Rightarrow> s3_env" where
  "demo_s3 shares = \<lparr>sv_sha256 = (\<lambda>s. take 1 (rev s)), sv_hmac = (\<lambda>k m. take 1 (rev k) @ take 1 (rev m)), sv_md5 = take 16,
     sv_shares = shares, sv_users = [demo_user], sv_region = ''us-east-1'', sv_now = 0\<rparr>"

definition demo_request :: s3_request where
  "demo_request = \<lparr>sr_Method = ''GET'', sr_Path = ''/s/k'', sr_Query = [], sr_Host = ''h'',
     sr_Header = [(''authorization'', ''AWS4-HMAC-SHA256 Credential=u/19700101/r/s3/aws4_request, SignedHeaders=host, Signature=7434''),
       (''x-amz-date'', ''19700101T000000Z'')], sr_Body = ([], True), sr_ContentLength = 0\<rparr>"

definition demo_altered :: s3_request where
  "demo_altered = demo_request\<lparr>sr_Header := sr_Header demo_request @ [(''x-amz-copy-source'', ''/s/private'')], sr_Body := (''other'', True)\<rparr>"

theorem unsigned_parts_free_witness:
  "authenticate (demo_s3 []) (demo_request\<lparr>sr_Header := sr_Header demo_request @ [(''x-amz-copy-source'', ''/s/private'')],
     sr_Body := (''other'', True), sr_ContentLength := 5\<rparr>) = authenticate (demo_s3 []) demo_request \<and>
   authenticate (demo_s3 []) demo_request = Ok demo_user"
proof (rule conjI, rule unsigned_parts_free)
  show "\<forall>h\<in>set (signed_names demo_request) \<union> {''authorization'', ''x-amz-date'', ''date'', ''x-amz-content-sha256''}.
      values_of (sr_Header demo_request @ [(''x-amz-copy-source'', ''/s/private'')]) h = values_of (sr_Header demo_request) h"
    by code_simp
  show "authenticate (demo_s3 []) demo_request = Ok demo_user" by code_simp
qed

lemma demo_accepted:
  "verifyHeaderAuth (demo_s3 []) demo_request (authorization demo_request) = Ok demo_user"
  "verifyHeaderAuth (demo_s3 []) demo_altered (authorization demo_altered) = Ok demo_user"
  "auth_fields (authorization demo_altered) = auth_fields (authorization demo_request)"
  "signed_canonical demo_altered = signed_canonical demo_request"
  "amz_date_of demo_altered = amz_date_of demo_request"
  by code_simp+

theorem signature_binds_witness:
  "signed_parts demo_request = signed_parts demo_altered \<and> \<bar>sv_now (demo_s3 []) - sv_now (demo_s3 [])\<bar> \<le> 2 * maxClockSkew"
proof (rule signature_binds)
  show "wire_request demo_request" "wire_request demo_altered" by code_simp+
qed (use demo_accepted in \<open>auto simp: signed_message_def signed_scope_def\<close>)

end
