(* ===== verification/S3_Upload.thy ===== *)
theory S3_Upload
  imports S3_Sig "HOL-Library.AList"
begin

text \<open>
  The bodies of uploads: the \<open>aws-chunked\<close> encoding (\<open>internal/serve/s3serve/chunked.go\<close>) and uploads in parts
  (\<open>multipart.go\<close>).  A body is its bytes and whether it ends properly; a body that breaks off gives an error at its end.
  The parts lie in a directory of the server's own, of which only the contents of the part files are modelled.
\<close>

section \<open>Chunked bodies\<close>

abbreviation crlf :: string where "crlf \<equiv> [CHR 0x0D, CHR 0x0A]"

text \<open>A line and what follows it; \<open>None\<close> at the end of the body.\<close>

definition readLine :: "string \<Rightarrow> (string \<times> string) option" where
  "readLine s = (if s = [] then None
     else case index_byte s nl of
       Some i \<Rightarrow> Some (trim_right_func (\<lambda>c. c \<in> set crlf) (take i s), drop (Suc i) s)
     | None \<Rightarrow> Some (trim_right_func (\<lambda>c. c \<in> set crlf) s, []))"

definition expectCRLF :: "string \<Rightarrow> string option" where
  "expectCRLF s = (case s of [] \<Rightarrow> Some []
     | b # t \<Rightarrow>
         if b = CHR 0x0D then (case t of [] \<Rightarrow> Some [] | b2 # u \<Rightarrow> if b2 = nl then Some u else None)
         else if b = nl then Some t else None)"

text \<open>The next chunk: \<open>Err\<close> when the body is over (with its own end) or malformed, else the size and the rest.\<close>

datatype chunk_end = BodyOver | Malformed

definition nextChunk :: "string \<Rightarrow> chunk_end + int \<times> string" where
  "nextChunk s = (case (case readLine s of None \<Rightarrow> None | Some (l, r) \<Rightarrow> if l = [] then readLine r else Some (l, r)) of
     None \<Rightarrow> Err BodyOver
   | Some (line, r) \<Rightarrow>
       (case ParseInt 16 (trim_space (fst (cut line CHR '';''))) of None \<Rightarrow> Err Malformed
        | Some n \<Rightarrow> if n < 0 then Err Malformed else Ok (n, r)))"

lemma readLine_less: "readLine s = Some (l, r) \<Longrightarrow> length r < length s"
  by (auto simp: readLine_def split: if_splits option.splits dest: index_byte_Some)

lemma nextChunk_less: "nextChunk s = Ok (n, r) \<Longrightarrow> length r < length s"
  by (auto simp: nextChunk_def split: option.splits if_splits dest!: readLine_less)

lemma expectCRLF_less: "expectCRLF s = Some r \<Longrightarrow> length r \<le> length s"
  by (auto simp: expectCRLF_def split: list.splits if_splits)

function chunked_body :: "bool \<Rightarrow> string \<Rightarrow> body" where
  "chunked_body ok s = (case nextChunk s of
     Inl BodyOver \<Rightarrow> ([], ok)
   | Inl Malformed \<Rightarrow> ([], False)
   | Inr (n, r) \<Rightarrow>
       if n = 0 then ([], True)
       else if int (length r) < n then (r, False)
       else (case expectCRLF (drop (nat n) r) of None \<Rightarrow> (take (nat n) r, False)
         | Some t \<Rightarrow> (case chunked_body ok t of (d, e) \<Rightarrow> (take (nat n) r @ d, e))))"
  by pat_completeness auto

termination
  by (relation "measure (\<lambda>(ok, s). length s)") (auto dest!: nextChunk_less expectCRLF_less)

declare chunked_body.simps [simp del]

definition requestBody :: "s3_request \<Rightarrow> s3_error + body \<times> int" where
  "requestBody r = (if isStreamingPayload r then
       (let v = first_of (sr_Header r) ''x-amz-decoded-content-length'';
            decoded = chunked_body (snd (sr_Body r)) (fst (sr_Body r))
        in if v = [] then Ok (decoded, -1)
           else case ParseInt 10 v of None \<Rightarrow> Err errInvalidRequest | Some n \<Rightarrow> Ok (decoded, n))
     else Ok (sr_Body r, sr_ContentLength r))"

section \<open>Uploads in parts\<close>

text \<open>A part whose file is gone has no data; its size and its ETag stay.\<close>

record part_info =
  pt_data :: "string option"
  pt_size :: nat
  pt_etag :: string

record part_upload =
  up_bucket :: string
  up_key :: string
  up_parts :: "(int \<times> part_info) list"

type_synonym uploads = "(string \<times> part_upload) list"

definition upload_create :: "uploads \<Rightarrow> string \<Rightarrow> string \<Rightarrow> string \<Rightarrow> uploads" where
  "upload_create ups uid bucket key = AList.update uid \<lparr>up_bucket = bucket, up_key = key, up_parts = []\<rparr> ups"

definition upload_get :: "uploads \<Rightarrow> string \<Rightarrow> string \<Rightarrow> string \<Rightarrow> part_upload option" where
  "upload_get ups uid bucket key = (case map_of ups uid of None \<Rightarrow> None
     | Some up \<Rightarrow> if up_bucket up \<noteq> bucket \<or> up_key up \<noteq> key then None else Some up)"

definition upload_remove :: "uploads \<Rightarrow> string \<Rightarrow> uploads" where
  "upload_remove ups uid = AList.delete uid ups"

text \<open>A body that breaks off removes the file that was there before.\<close>

definition putPart :: "(string \<Rightarrow> string) \<Rightarrow> part_upload \<Rightarrow> int \<Rightarrow> body \<Rightarrow> part_upload \<times> part_info option" where
  "putPart md5 up number body = (if number < 1 \<or> 10000 < number then (up, None)
     else if \<not> snd body then
       (up\<lparr>up_parts := (case map_of (up_parts up) number of None \<Rightarrow> up_parts up
          | Some p \<Rightarrow> AList.update number (p\<lparr>pt_data := None\<rparr>) (up_parts up))\<rparr>, None)
     else let p = \<lparr>pt_data = Some (fst body), pt_size = length (fst body), pt_etag = hex_string (md5 (fst body))\<rparr>
       in (up\<lparr>up_parts := AList.update number p (up_parts up)\<rparr>, Some p))"

definition upload_listParts :: "part_upload \<Rightarrow> (int \<times> part_info) list" where
  "upload_listParts up = sort_key fst (up_parts up)"

definition trimETag :: "string \<Rightarrow> string" where
  "trimETag s = (if 2 \<le> length s \<and> hd s = CHR 0x22 \<and> last s = CHR 0x22 then butlast (tl s) else s)"

text \<open>The parts in the order of the request, with the hashes of all.\<close>

fun assemble_loop :: "(int \<times> part_info) list \<Rightarrow> int \<Rightarrow> (int \<times> string) list \<Rightarrow> (part_info list \<times> string) option" where
  "assemble_loop stored prev [] = Some ([], [])"
| "assemble_loop stored prev ((number, etag) # req) =
     (if number \<le> prev then None
      else case map_of stored number of None \<Rightarrow> None
      | Some p \<Rightarrow>
          if trimETag etag \<noteq> [] \<and> trimETag etag \<noteq> pt_etag p then None
          else (case hex_decode (pt_etag p) of None \<Rightarrow> None
            | Some raw \<Rightarrow> map_option (\<lambda>(ps, raws). (p # ps, raw @ raws)) (assemble_loop stored number req)))"

definition assemble :: "(string \<Rightarrow> string) \<Rightarrow> part_upload \<Rightarrow> (int \<times> string) list \<Rightarrow> (part_info list \<times> string) option" where
  "assemble md5 up requested = (if requested = [] then None
     else map_option (\<lambda>(ps, raws). (ps, hex_string (md5 raws) @ CHR ''-'' # dec_nat (length ps))) (assemble_loop (up_parts up) 0 requested))"

text \<open>The stream of the parts breaks off at a part whose file is gone.\<close>

fun partsReader :: "part_info list \<Rightarrow> body" where
  "partsReader [] = ([], True)"
| "partsReader (p # ps) = (case pt_data p of None \<Rightarrow> ([], False) | Some d \<Rightarrow> (case partsReader ps of (ds, ok) \<Rightarrow> (d @ ds, ok)))"

section \<open>Facts\<close>

text \<open>A chunk as a client writes it, with an extension after its size.\<close>

fun hex_nat :: "nat \<Rightarrow> string" where
  "hex_nat n = (if n < 16 then [hex_digits ! n] else hex_nat (n div 16) @ [hex_digits ! (n mod 16)])"

declare hex_nat.simps [simp del]

definition extension_ok :: "string \<Rightarrow> bool" where
  "extension_ok ext \<longleftrightarrow> (ext = [] \<or> hd ext = CHR '';'') \<and> nl \<notin> set ext"

definition chunk_text :: "string \<times> string \<Rightarrow> string" where
  "chunk_text c = (case c of (ext, d) \<Rightarrow> hex_nat (length d) @ ext @ crlf @ d @ crlf)"

lemma digits_value_append:
  "digits_value b acc (s @ t) = (case digits_value b acc s of None \<Rightarrow> None | Some v \<Rightarrow> digits_value b v t)"
  by (induction b acc s rule: digits_value.induct) (auto split: option.splits)

definition plain_char :: "char \<Rightarrow> bool" where
  "plain_char c \<longleftrightarrow> c \<noteq> CHR ''-'' \<and> c \<noteq> CHR ''+'' \<and> c \<noteq> CHR '';'' \<and> \<not> is_space c"

lemma hex_digit_facts: "n < 16 \<Longrightarrow> hex_value (hex_digits ! n) = Some n \<and> plain_char (hex_digits ! n)"
proof -
  have "list_all (\<lambda>n. hex_value (hex_digits ! n) = Some n \<and> plain_char (hex_digits ! n)) [0..<16]"
    by code_simp
  then show "n < 16 \<Longrightarrow> hex_value (hex_digits ! n) = Some n \<and> plain_char (hex_digits ! n)"
    by (simp add: list_all_iff)
qed

lemma hex_nat_plain: "list_all plain_char (hex_nat n)"
proof (induction n rule: hex_nat.induct)
  case (1 n)
  have "n mod 16 < 16" by simp
  then show ?case using 1 hex_digit_facts by (subst hex_nat.simps) simp
qed

lemma hex_nat_chars: "c \<in> set (hex_nat n) \<Longrightarrow> c \<noteq> CHR ''-'' \<and> c \<noteq> CHR ''+'' \<and> c \<noteq> CHR '';'' \<and> \<not> is_space c"
  using hex_nat_plain [of n] by (simp add: list_all_iff plain_char_def)

lemma hex_nat_value: "digits_value 16 0 (hex_nat n) = Some (int n)"
proof (induction n rule: hex_nat.induct)
  case (1 n)
  show ?case
  proof (cases "n < 16")
    case True
    then show ?thesis using hex_digit_facts [of n] by (subst hex_nat.simps) simp
  next
    case False
    then have "digits_value 16 0 (hex_nat (n div 16)) = Some (int (n div 16))" using 1 by blast
    moreover have "int (n div 16) * 16 + int (n mod 16) = int n" by (simp add: zdiv_int zmod_int)
    ultimately show ?thesis using False hex_digit_facts [of "n mod 16"]
      by (subst hex_nat.simps) (simp add: digits_value_append)
  qed
qed

lemma hex_nat_nonempty: "hex_nat n \<noteq> []"
  by (subst hex_nat.simps) simp

lemma ParseInt_hex: "int n < 2 ^ 63 \<Longrightarrow> ParseInt 16 (hex_nat n) = Some (int n)"
proof -
  assume n: "int n < 2 ^ 63"
  obtain c t where ct: "hex_nat n = c # t" using hex_nat_nonempty by (cases "hex_nat n") auto
  then have "c \<noteq> CHR ''-''" "c \<noteq> CHR ''+''" using hex_nat_chars [of c n] by auto
  then show ?thesis using n hex_nat_value [of n] by (simp add: ParseInt_def ct has_prefix_def)
qed

lemma trim_right_id: "(\<forall>c\<in>set s. \<not> P c) \<Longrightarrow> trim_right_func P s = s"
  by (cases s rule: rev_cases) (auto simp: trim_right_func_def)

lemma trim_right_append: "P c \<Longrightarrow> trim_right_func P (s @ [c]) = trim_right_func P s"
  by (simp add: trim_right_func_def)

text \<open>A header line is read as the size it gives.\<close>

lemma nextChunk_header:
  assumes "int n < 2 ^ 63" "extension_ok ext"
  shows "nextChunk (hex_nat n @ ext @ crlf @ t) = Ok (int n, t)"
proof -
  have plain: "\<forall>c\<in>set (hex_nat n @ ext). c \<noteq> nl" using hex_nat_chars assms(2) by (auto simp: extension_ok_def is_space_def)
  have idx: "index_byte (hex_nat n @ ext @ crlf @ t) nl = Some (length (hex_nat n @ ext @ [CHR 0x0D]))"
    using index_byte_append [of nl "hex_nat n @ ext @ [CHR 0x0D]" t] plain by auto
  define line where "line = trim_right_func (\<lambda>c. c \<in> set crlf) (hex_nat n @ ext)"
  have rl: "readLine (hex_nat n @ ext @ crlf @ t) = Some (line, t)"
    using idx hex_nat_nonempty trim_right_append [of "\<lambda>c. c \<in> set crlf" "CHR 0x0D" "hex_nat n @ ext"]
    by (simp add: readLine_def line_def)
  have hexd: "fst (cut line CHR '';'') = hex_nat n \<and> line \<noteq> []"
  proof (cases "ext = []")
    case True
    have "line = hex_nat n" unfolding line_def True append_Nil2
      by (rule trim_right_id) (use hex_nat_chars in \<open>auto simp: is_space_def\<close>)
    moreover have "CHR '';'' \<notin> set (hex_nat n)" using hex_nat_chars by blast
    ultimately show ?thesis using hex_nat_nonempty by (simp add: cut_def index_byte_None_iff [THEN iffD2])
  next
    case False
    then obtain e where e: "ext = CHR '';'' # e" using assms(2) by (cases ext) (auto simp: extension_ok_def)
    have "\<exists>e'. trim_right_func P (a @ x # e) = a @ x # e'" if "\<not> P x" for P :: "char \<Rightarrow> bool" and a x e
      using that
    proof (induction e rule: rev_induct)
      case Nil
      then show ?case by (simp add: trim_right_func_def)
    next
      case (snoc y e)
      then show ?case by (cases "P y") (auto simp: trim_right_func_def)
    qed
    from this [of "\<lambda>c. c \<in> set crlf" "CHR '';''" "hex_nat n" e]
    obtain e' where "line = hex_nat n @ CHR '';'' # e'" by (auto simp: line_def e)
    moreover have "CHR '';'' \<notin> set (hex_nat n)" using hex_nat_chars by blast
    ultimately show ?thesis by (simp add: cut_def index_byte_append)
  qed
  have "trim_space (hex_nat n) = hex_nat n" unfolding trim_space_def by (rule trim_func_id) (use hex_nat_chars in blast)
  then show ?thesis using rl hexd ParseInt_hex [OF assms(1)] by (simp add: nextChunk_def)
qed

lemma chunked_chunk:
  assumes "d \<noteq> []" "int (length d) < 2 ^ 63" "extension_ok ext"
  shows "chunked_body ok (chunk_text (ext, d) @ t) = (d @ fst (chunked_body ok t), snd (chunked_body ok t))"
  using assms nextChunk_header [OF assms(2,3), of "d @ crlf @ t"]
  by (subst chunked_body.simps) (simp add: chunk_text_def expectCRLF_def case_prod_beta)

lemma chunked_chunks:
  assumes "\<forall>(ext, d)\<in>set cs. d \<noteq> [] \<and> int (length d) < 2 ^ 63 \<and> extension_ok ext"
  shows "chunked_body ok (concat (map chunk_text cs) @ t) = (concat (map snd cs) @ fst (chunked_body ok t), snd (chunked_body ok t))"
  using assms
proof (induction cs)
  case (Cons c cs)
  obtain ext d where c: "c = (ext, d)" by fastforce
  then show ?case using Cons chunked_chunk [of d ext ok "concat (map chunk_text cs) @ t"] by simp
qed simp

text \<open>What a client sends in chunks is what is read, with any trailer behind the last, empty chunk.\<close>

lemma chunked_complete:
  assumes "\<forall>(ext, d)\<in>set cs. d \<noteq> [] \<and> int (length d) < 2 ^ 63 \<and> extension_ok ext" "extension_ok ext"
  shows "chunked_body ok (concat (map chunk_text cs) @ hex_nat 0 @ ext @ crlf @ trailer) = (concat (map snd cs), True)"
proof -
  have "chunked_body ok (hex_nat 0 @ ext @ crlf @ trailer) = ([], True)"
    using nextChunk_header [of 0 ext trailer] assms(2) by (subst chunked_body.simps) simp
  then show ?thesis using chunked_chunks [OF assms(1), of ok "hex_nat 0 @ ext @ crlf @ trailer"] by simp
qed

text \<open>A body that ends after any number of chunks, without the empty one, is read as complete.\<close>

lemma chunked_cut_short:
  assumes "\<forall>(ext, d)\<in>set cs. d \<noteq> [] \<and> int (length d) < 2 ^ 63 \<and> extension_ok ext"
  shows "chunked_body True (concat (map chunk_text cs)) = (concat (map snd cs), True)"
proof -
  have "chunked_body True [] = ([], True)" by (subst chunked_body.simps) (simp add: nextChunk_def readLine_def)
  then show ?thesis using chunked_chunks [OF assms, of True "[]"] by simp
qed

end
