(* ===== verification/S3_Object.thy ===== *)
theory S3_Object
  imports S3_List S3_Upload Base64
begin

text \<open>
  The requests of the S3 server (\<open>internal/serve/s3serve/handlers.go\<close>, \<open>server.go\<close>): buckets, objects, copies, batch
  deletes and uploads in parts, over the mounts of \<open>S3_Shares\<close> and the uploads of \<open>S3_Upload\<close>.  A reply is its status and
  what the client learns; content types, dates as text, XML text and the ranges and conditions of \<open>http.ServeContent\<close>
  are left out.  The two XML requests are read by parameters, which get at most the first four megabytes of a body.
\<close>

section \<open>Replies\<close>

record s3_listing =
  ls_Prefix :: string
  ls_MaxKeys :: int
  ls_IsTruncated :: bool
  ls_Contents :: "(string \<times> string \<times> nat) list"
  ls_Prefixes :: "string list"
  ls_Next :: string

datatype s3_reply = RFail s3_error | RStatus nat | RBuckets string "string list" | RHeadBucket string | RLocation string
  | RListing s3_listing | RUploads string | RVersioning | RTagging | RObject string string unix_time | RMarker unix_time
  | RHead nat string unix_time | RETag string | RCopied string | RDeleted "string list" "(string \<times> s3_error) list"
  | RUpload string | RParts "(int \<times> string \<times> nat) list" | RCompleted string

record s3_state =
  s3_mounts :: mounts
  s3_uploads :: uploads

text \<open>What a request brings beside its parts: a fresh upload id and the readings of the two XML bodies.\<close>

record s3_input =
  si_id :: string
  si_delete :: "body \<Rightarrow> (bool \<times> string list) option"
  si_complete :: "body \<Rightarrow> (int \<times> string) list option"

definition maxXMLBodySize :: int where "maxXMLBodySize = 4 * 2 ^ 20"

definition limit_body :: "body \<Rightarrow> body" where
  "limit_body b = (if maxXMLBodySize \<le> int (length (fst b)) then (take (nat maxXMLBodySize) (fst b), True) else b)"

definition maxListKeys :: int where "maxListKeys = 1000"

definition now_seconds :: "s3_env \<Rightarrow> unix_time" where
  "now_seconds env = sv_now env div 10 ^ 9"

definition emptyMD5 :: string where "emptyMD5 = ''d41d8cd98f00b204e9800998ecf8427e''"

definition dec_int :: "int \<Rightarrow> string" where
  "dec_int n = (if n < 0 then CHR ''-'' # dec_nat (nat (- n)) else dec_nat (nat n))"

definition pseudoETag :: "s3_env \<Rightarrow> string \<Rightarrow> nat \<Rightarrow> unix_time \<Rightarrow> string" where
  "pseudoETag env key sz mtime = hex_string (sv_md5 env (key @ CHR 0x00 # dec_nat sz @ CHR 0x00 # dec_int mtime))"

section \<open>Buckets\<close>

definition listBuckets :: "s3_env \<Rightarrow> serve_user \<Rightarrow> s3_reply" where
  "listBuckets env user = RBuckets (su_Username user) (map sh_Name (userShares (sv_shares env) user))"

definition getBucketLocation :: "s3_env \<Rightarrow> s3_reply" where
  "getBucketLocation env = RLocation (if sv_region env = ''us-east-1'' then [] else sv_region env)"

definition list_start :: "(string \<times> string) list \<Rightarrow> string option" where
  "list_start q = (if first_of q ''list-type'' = ''2'' then
       (if first_of q ''continuation-token'' \<noteq> [] then std_decode (first_of q ''continuation-token'') else Some (first_of q ''start-after''))
     else Some (first_of q ''marker''))"

definition list_max :: "(string \<times> string) list \<Rightarrow> int option" where
  "list_max q = (if first_of q ''max-keys'' = [] then Some maxListKeys
     else case ParseInt 10 (first_of q ''max-keys'') of None \<Rightarrow> None
     | Some v \<Rightarrow> if v < 0 then None else Some (min v maxListKeys))"

definition list_content :: "s3_env \<Rightarrow> mounts \<Rightarrow> (string \<Rightarrow> string) \<Rightarrow> list_entry \<Rightarrow> string \<times> string \<times> nat" where
  "list_content env ms encode e = (case lf_Stat (source_fs ms (le_src e)) (sourceFSPath (le_src e) (le_key e)) of
     None \<Rightarrow> (encode (le_key e), pseudoETag env (le_key e) (le_size e) 0, le_size e)
   | Some fi \<Rightarrow> (encode (le_key e), pseudoETag env (le_key e) (fi_Size fi) (fi_ModTime fi), fi_Size fi))"

definition listObjects :: "s3_env \<Rightarrow> mounts \<Rightarrow> s3_request \<Rightarrow> serve_share \<Rightarrow> s3_reply" where
  "listObjects env ms r share = (let q = sr_Query r; delimiter = first_of q ''delimiter'' in
     if delimiter \<noteq> [] \<and> delimiter \<noteq> ''/'' then RFail errNotImplemented
     else case list_max q of None \<Rightarrow> RFail errInvalidArgument
     | Some maxKeys \<Rightarrow> (case list_start q of None \<Rightarrow> RFail errInvalidArgument
       | Some after \<Rightarrow> (case cleanKeyPrefix (first_of q ''prefix'') of None \<Rightarrow> RFail errInvalidArgument
         | Some prefix \<Rightarrow>
             let (entries, truncated) = listShare ms share prefix delimiter after maxKeys;
                 encode = (\<lambda>v. if first_of q ''encoding-type'' = ''url'' then s3URIEncode v True else v);
                 lastKey = (if entries = [] then [] else le_key (last entries))
             in RListing \<lparr>ls_Prefix = encode prefix, ls_MaxKeys = maxKeys, ls_IsTruncated = truncated,
                  ls_Contents = map (list_content env ms encode) (filter (\<lambda>e. \<not> le_isPrefix e) entries),
                  ls_Prefixes = map (\<lambda>e. encode (le_key e)) (filter le_isPrefix entries),
                  ls_Next = (if truncated \<and> lastKey \<noteq> [] then
                    (if first_of q ''list-type'' = ''2'' then std_encode lastKey else encode lastKey) else [])\<rparr>)))"

section \<open>Objects\<close>

definition find_info :: "mounts \<Rightarrow> serve_share \<Rightarrow> string \<Rightarrow> (share_source \<times> fs_info) option" where
  "find_info ms share key = (case findInSources ms share key of None \<Rightarrow> None
     | Some src \<Rightarrow> map_option (Pair src) (lf_Stat (source_fs ms src) (sourceFSPath src key)))"

definition getObject :: "s3_env \<Rightarrow> mounts \<Rightarrow> serve_share \<Rightarrow> string \<Rightarrow> bool \<Rightarrow> s3_reply" where
  "getObject env ms share key trailingSlash = (case find_info ms share key of None \<Rightarrow> RFail errNoSuchKey
     | Some (src, fi) \<Rightarrow>
         if fi_IsDir fi then (if \<not> trailingSlash then RFail errNoSuchKey else RMarker (fi_ModTime fi))
         else (case lf_Open (source_fs ms src) (sourceFSPath src key) of None \<Rightarrow> RFail errInternal
           | Some data \<Rightarrow> RObject data (pseudoETag env key (fi_Size fi) (fi_ModTime fi)) (fi_ModTime fi)))"

definition headObject :: "s3_env \<Rightarrow> mounts \<Rightarrow> serve_share \<Rightarrow> string \<Rightarrow> bool \<Rightarrow> s3_reply" where
  "headObject env ms share key trailingSlash = (case find_info ms share key of None \<Rightarrow> RFail errNoSuchKey
     | Some (src, fi) \<Rightarrow>
         if fi_IsDir fi \<and> \<not> trailingSlash then RFail errNoSuchKey
         else if fi_IsDir fi then RHead 0 emptyMD5 (fi_ModTime fi)
         else RHead (fi_Size fi) (pseudoETag env key (fi_Size fi) (fi_ModTime fi)) (fi_ModTime fi))"

definition writeTarget :: "mounts \<Rightarrow> serve_share \<Rightarrow> string \<Rightarrow> s3_error + share_source" where
  "writeTarget ms share key = (case findInSources ms share key of
     Some src \<Rightarrow> if mt_writable (ms (ss_FS src)) then Ok src else Err errAccessDenied
   | None \<Rightarrow> (case firstWritableSource ms share of None \<Rightarrow> Err errAccessDenied | Some src \<Rightarrow> Ok src))"

text \<open>A call on the mount of a source.\<close>

definition on_source :: "mounts \<Rightarrow> share_source \<Rightarrow> string \<Rightarrow> (local_fs \<Rightarrow> string \<Rightarrow> local_fs \<times> fs_error option) \<Rightarrow> mounts \<times> fs_error option" where
  "on_source ms src key call = (case call (source_fs ms src) (sourceFSPath src key) of (fs', e) \<Rightarrow> (set_mount ms (ss_FS src) fs', e))"

definition putObject :: "s3_env \<Rightarrow> mounts \<Rightarrow> s3_request \<Rightarrow> serve_user \<Rightarrow> serve_share \<Rightarrow> string \<Rightarrow> bool \<Rightarrow> mounts \<times> s3_reply" where
  "putObject env ms r user share key trailingSlash = (
     if isReadOnly user share then (ms, RFail errAccessDenied)
     else case requestBody r of Inl e \<Rightarrow> (ms, RFail e)
     | Inr (body, sz) \<Rightarrow>
         if trailingSlash \<and> sz = 0 then
           (case firstWritableSource ms share of None \<Rightarrow> (ms, RFail errAccessDenied)
            | Some src \<Rightarrow> (case on_source ms src key lf_MkDir of (ms', e) \<Rightarrow> (ms', if e \<noteq> None then RFail errInternal else RETag emptyMD5)))
         else (case writeTarget ms share key of Inl e \<Rightarrow> (ms, RFail e)
           | Inr src \<Rightarrow> (case on_source ms src key (\<lambda>fs p. lf_Write fs p body (now_seconds env)) of (ms', e) \<Rightarrow>
               (ms', if e \<noteq> None then RFail errInternal else RETag (hex_string (sv_md5 env (fst body)))))))"

definition parseCopySource :: "string \<Rightarrow> s3_error + string \<times> string" where
  "parseCopySource src = (let src = (case index_byte src CHR ''?'' of Some i \<Rightarrow> take i src | None \<Rightarrow> src);
       u = trim_prefix (case PathUnescape src of Some u \<Rightarrow> u | None \<Rightarrow> src) ''/''
     in case index_byte u CHR ''/'' of None \<Rightarrow> Err errInvalidArgument
        | Some i \<Rightarrow> if i = 0 \<or> i = length u - 1 then Err errInvalidArgument else Ok (take i u, drop (Suc i) u))"

text \<open>Across two backends the bytes are read and written; a directory opens but cannot be read.\<close>

definition generic_copy :: "local_fs \<Rightarrow> string \<Rightarrow> unix_time \<Rightarrow> local_fs \<Rightarrow> string \<Rightarrow> local_fs \<times> fs_error option" where
  "generic_copy from srcPath now fs dstPath = (case lf_Stat from srcPath of None \<Rightarrow> (fs, Some FsNotExist)
     | Some fi \<Rightarrow> lf_Write fs dstPath (case lf_Open from srcPath of Some d \<Rightarrow> (d, True) | None \<Rightarrow> ([], False)) now)"

definition copyObject :: "s3_env \<Rightarrow> mounts \<Rightarrow> s3_request \<Rightarrow> serve_user \<Rightarrow> serve_share \<Rightarrow> string \<Rightarrow> mounts \<times> s3_reply" where
  "copyObject env ms r user dstShare dstKey = (
     if isReadOnly user dstShare then (ms, RFail errAccessDenied)
     else case parseCopySource (first_of (sr_Header r) ''x-amz-copy-source'') of Inl e \<Rightarrow> (ms, RFail e)
     | Inr (srcBucket, srcKey) \<Rightarrow> (case findShare (sv_shares env) user srcBucket of None \<Rightarrow> (ms, RFail errNoSuchBucket)
       | Some srcShare \<Rightarrow> (case cleanKey srcKey of None \<Rightarrow> (ms, RFail errInvalidArgument)
         | Some cleanSrc \<Rightarrow>
             if cleanSrc = [] then (ms, RFail errInvalidArgument)
             else (case findInSources ms srcShare cleanSrc of None \<Rightarrow> (ms, RFail errNoSuchKey)
               | Some src \<Rightarrow> (case writeTarget ms dstShare dstKey of Inl e \<Rightarrow> (ms, RFail e)
                 | Inr dst \<Rightarrow>
                     let copy = (\<lambda>fs p. if ss_FS src = ss_FS dst then lf_Copy fs (sourceFSPath src cleanSrc) p (now_seconds env)
                       else generic_copy (source_fs ms src) (sourceFSPath src cleanSrc) (now_seconds env) fs p)
                     in (case on_source ms dst dstKey copy of (ms', e) \<Rightarrow>
                       (ms', if e \<noteq> None then RFail errInternal
                         else case lf_Stat (source_fs ms' dst) (sourceFSPath dst dstKey) of
                           None \<Rightarrow> RCopied (pseudoETag env dstKey 0 (now_seconds env))
                         | Some fi \<Rightarrow> RCopied (pseudoETag env dstKey (fi_Size fi) (fi_ModTime fi)))))))))"

text \<open>The backend says \<open>os.ErrNotExist\<close>, which is not the error that is let pass.\<close>

definition deleteFromShare :: "mounts \<Rightarrow> serve_share \<Rightarrow> string \<Rightarrow> mounts \<times> s3_error option" where
  "deleteFromShare ms share key = (case findInSources ms share key of None \<Rightarrow> (ms, None)
     | Some src \<Rightarrow>
         if \<not> mt_writable (ms (ss_FS src)) then (ms, Some errAccessDenied)
         else (case on_source ms src key lf_Delete of (ms', e) \<Rightarrow> (ms', if e \<noteq> None then Some errInternal else None)))"

definition deleteObject :: "mounts \<Rightarrow> serve_user \<Rightarrow> serve_share \<Rightarrow> string \<Rightarrow> mounts \<times> s3_reply" where
  "deleteObject ms user share key = (if isReadOnly user share then (ms, RFail errAccessDenied)
     else case deleteFromShare ms share key of (ms', Some e) \<Rightarrow> (ms', RFail e) | (ms', None) \<Rightarrow> (ms', RStatus 204))"

fun delete_keys :: "mounts \<Rightarrow> serve_share \<Rightarrow> bool \<Rightarrow> string list \<Rightarrow> mounts \<times> string list \<times> (string \<times> s3_error) list" where
  "delete_keys ms share quiet [] = (ms, [], [])"
| "delete_keys ms share quiet (k # ks) = (case cleanKey k of
     None \<Rightarrow> (case delete_keys ms share quiet ks of (ms', ds, es) \<Rightarrow> (ms', ds, (k, errInvalidArgument) # es))
   | Some key \<Rightarrow>
       if key = [] then (case delete_keys ms share quiet ks of (ms', ds, es) \<Rightarrow> (ms', ds, (k, errInvalidArgument) # es))
       else (case deleteFromShare ms share key of (ms1, e) \<Rightarrow> (case delete_keys ms1 share quiet ks of (ms', ds, es) \<Rightarrow>
         (case e of Some err \<Rightarrow> (ms', ds, (k, err) # es) | None \<Rightarrow> (ms', if quiet then ds else k # ds, es)))))"

definition deleteObjects :: "s3_input \<Rightarrow> mounts \<Rightarrow> s3_request \<Rightarrow> serve_user \<Rightarrow> serve_share \<Rightarrow> mounts \<times> s3_reply" where
  "deleteObjects inp ms r user share = (if isReadOnly user share then (ms, RFail errAccessDenied)
     else case requestBody r of Inl e \<Rightarrow> (ms, RFail e)
     | Inr (body, sz) \<Rightarrow> (case si_delete inp (limit_body body) of None \<Rightarrow> (ms, RFail errInvalidRequest)
       | Some (quiet, keys) \<Rightarrow> (case delete_keys ms share quiet keys of (ms', ds, es) \<Rightarrow> (ms', RDeleted ds es))))"

section \<open>Uploads in parts\<close>

definition createMultipartUpload :: "s3_input \<Rightarrow> s3_state \<Rightarrow> serve_user \<Rightarrow> serve_share \<Rightarrow> string \<Rightarrow> string \<Rightarrow> s3_state \<times> s3_reply" where
  "createMultipartUpload inp st user share bucket key = (if isReadOnly user share then (st, RFail errAccessDenied)
     else case writeTarget (s3_mounts st) share key of Inl e \<Rightarrow> (st, RFail e)
     | Inr src \<Rightarrow> (st\<lparr>s3_uploads := upload_create (s3_uploads st) (si_id inp) bucket key\<rparr>, RUpload (si_id inp)))"

definition uploadPart :: "s3_env \<Rightarrow> s3_state \<Rightarrow> s3_request \<Rightarrow> serve_user \<Rightarrow> serve_share \<Rightarrow> string \<Rightarrow> string \<Rightarrow> s3_state \<times> s3_reply" where
  "uploadPart env st r user share bucket key = (let uid = first_of (sr_Query r) ''uploadId'' in
     if isReadOnly user share then (st, RFail errAccessDenied)
     else case upload_get (s3_uploads st) uid bucket key of None \<Rightarrow> (st, RFail errNoSuchUpload)
     | Some up \<Rightarrow> (case ParseInt 10 (first_of (sr_Query r) ''partNumber'') of None \<Rightarrow> (st, RFail errInvalidArgument)
       | Some number \<Rightarrow> (case requestBody r of Inl e \<Rightarrow> (st, RFail e)
         | Inr (body, sz) \<Rightarrow> (case putPart (sv_md5 env) up number body of (up', p) \<Rightarrow>
             (st\<lparr>s3_uploads := AList.update uid up' (s3_uploads st)\<rparr>,
              case p of None \<Rightarrow> RFail errInvalidArgument | Some p \<Rightarrow> RETag (pt_etag p))))))"

definition completeMultipartUpload ::
  "s3_env \<Rightarrow> s3_input \<Rightarrow> s3_state \<Rightarrow> s3_request \<Rightarrow> serve_user \<Rightarrow> serve_share \<Rightarrow> string \<Rightarrow> string \<Rightarrow> s3_state \<times> s3_reply" where
  "completeMultipartUpload env inp st r user share bucket key = (let uid = first_of (sr_Query r) ''uploadId'' in
     if isReadOnly user share then (st, RFail errAccessDenied)
     else case upload_get (s3_uploads st) uid bucket key of None \<Rightarrow> (st, RFail errNoSuchUpload)
     | Some up \<Rightarrow> (case si_complete inp (limit_body (sr_Body r)) of None \<Rightarrow> (st, RFail errInvalidRequest)
       | Some req \<Rightarrow> (case assemble (sv_md5 env) up req of None \<Rightarrow> (st, RFail errInvalidRequest)
         | Some (parts, etag) \<Rightarrow> (case writeTarget (s3_mounts st) share key of Inl e \<Rightarrow> (st, RFail e)
           | Inr src \<Rightarrow> (case on_source (s3_mounts st) src key (\<lambda>fs p. lf_Write fs p (partsReader parts) (now_seconds env)) of (ms', e) \<Rightarrow>
               if e \<noteq> None then (st\<lparr>s3_mounts := ms'\<rparr>, RFail errInternal)
               else (st\<lparr>s3_mounts := ms', s3_uploads := upload_remove (s3_uploads st) uid\<rparr>, RCompleted etag))))))"

definition listParts :: "s3_state \<Rightarrow> s3_request \<Rightarrow> string \<Rightarrow> string \<Rightarrow> s3_reply" where
  "listParts st r bucket key = (case upload_get (s3_uploads st) (first_of (sr_Query r) ''uploadId'') bucket key of
     None \<Rightarrow> RFail errNoSuchUpload
   | Some up \<Rightarrow> RParts (map (\<lambda>(n, p). (n, pt_etag p, pt_size p)) (upload_listParts up)))"

section \<open>The server\<close>

definition unsupported_params :: "string list" where
  "unsupported_params = [''acl'', ''policy'', ''lifecycle'', ''cors'', ''encryption'', ''website'', ''replication'',
     ''tagging'', ''object-lock'', ''logging'', ''notification'']"

definition handleBucket :: "s3_env \<Rightarrow> s3_input \<Rightarrow> s3_state \<Rightarrow> s3_request \<Rightarrow> serve_user \<Rightarrow> string \<Rightarrow> s3_state \<times> s3_reply" where
  "handleBucket env inp st r user bucket = (let found = findShare (sv_shares env) user bucket; q = sr_Query r; m = sr_Method r in
     if m = ''HEAD'' then (st, if found = None then RFail errNoSuchBucket else RHeadBucket (sv_region env))
     else if m = ''GET'' then
       (st, case found of None \<Rightarrow> RFail errNoSuchBucket
        | Some share \<Rightarrow>
            if has_key q ''location'' then getBucketLocation env
            else if has_key q ''uploads'' then RUploads bucket
            else if has_key q ''versioning'' then RVersioning
            else if list_ex (has_key q) unsupported_params then RFail errNotImplemented
            else listObjects env (s3_mounts st) r share)
     else if m = ''PUT'' then (st, if q \<noteq> [] \<or> found = None then RFail errNotImplemented else RStatus 200)
     else if m = ''POST'' then
       (case found of None \<Rightarrow> (st, RFail errNoSuchBucket)
        | Some share \<Rightarrow>
            if has_key q ''delete'' then (case deleteObjects inp (s3_mounts st) r user share of (ms', reply) \<Rightarrow> (st\<lparr>s3_mounts := ms'\<rparr>, reply))
            else (st, RFail errMethodNotAllowed))
     else if m = ''DELETE'' then (st, RFail errNotImplemented)
     else (st, RFail errMethodNotAllowed))"

definition handle_put :: "s3_env \<Rightarrow> s3_state \<Rightarrow> s3_request \<Rightarrow> serve_user \<Rightarrow> serve_share \<Rightarrow> string \<Rightarrow> string \<Rightarrow> bool \<Rightarrow> s3_state \<times> s3_reply" where
  "handle_put env st r user share bucket key trailingSlash = (let q = sr_Query r in
     if first_of (sr_Header r) ''x-amz-copy-source'' \<noteq> [] then
       (if has_key q ''partNumber'' \<or> has_key q ''uploadId'' then (st, RFail errNotImplemented)
        else (case copyObject env (s3_mounts st) r user share key of (ms', reply) \<Rightarrow> (st\<lparr>s3_mounts := ms'\<rparr>, reply)))
     else if has_key q ''partNumber'' \<and> has_key q ''uploadId'' then uploadPart env st r user share bucket key
     else if has_key q ''tagging'' \<or> has_key q ''acl'' then (st, RStatus 200)
     else (case putObject env (s3_mounts st) r user share key trailingSlash of (ms', reply) \<Rightarrow> (st\<lparr>s3_mounts := ms'\<rparr>, reply)))"

text \<open>An upload is given up without a look at the share or the key of the request.\<close>

definition handle_delete :: "s3_state \<Rightarrow> s3_request \<Rightarrow> serve_user \<Rightarrow> serve_share \<Rightarrow> string \<Rightarrow> s3_state \<times> s3_reply" where
  "handle_delete st r user share key = (let q = sr_Query r in
     if has_key q ''uploadId'' then (st\<lparr>s3_uploads := upload_remove (s3_uploads st) (first_of q ''uploadId'')\<rparr>, RStatus 204)
     else if has_key q ''tagging'' then (st, RStatus 204)
     else (case deleteObject (s3_mounts st) user share key of (ms', reply) \<Rightarrow> (st\<lparr>s3_mounts := ms'\<rparr>, reply)))"

definition handleObject :: "s3_env \<Rightarrow> s3_input \<Rightarrow> s3_state \<Rightarrow> s3_request \<Rightarrow> serve_user \<Rightarrow> string \<Rightarrow> string \<Rightarrow> s3_state \<times> s3_reply" where
  "handleObject env inp st r user bucket rawKey = (case findShare (sv_shares env) user bucket of None \<Rightarrow> (st, RFail errNoSuchBucket)
     | Some share \<Rightarrow> (case cleanKey rawKey of None \<Rightarrow> (st, RFail errInvalidArgument)
       | Some key \<Rightarrow> let q = sr_Query r; m = sr_Method r; trailingSlash = has_suffix rawKey ''/'' in
           if key = [] then (st, RFail errInvalidArgument)
           else if m = ''GET'' then
             (st, if has_key q ''uploadId'' then listParts st r bucket key
                  else if has_key q ''tagging'' then RTagging
                  else if has_key q ''acl'' then RFail errNotImplemented
                  else getObject env (s3_mounts st) share key trailingSlash)
           else if m = ''HEAD'' then (st, headObject env (s3_mounts st) share key trailingSlash)
           else if m = ''PUT'' then handle_put env st r user share bucket key trailingSlash
           else if m = ''POST'' then
             (if has_key q ''uploads'' then createMultipartUpload inp st user share bucket key
              else if has_key q ''uploadId'' then completeMultipartUpload env inp st r user share bucket key
              else (st, RFail errMethodNotAllowed))
           else if m = ''DELETE'' then handle_delete st r user share key
           else (st, RFail errMethodNotAllowed)))"

definition s3_handle :: "s3_env \<Rightarrow> s3_input \<Rightarrow> s3_state \<Rightarrow> s3_request \<Rightarrow> s3_state \<times> s3_reply" where
  "s3_handle env inp st r = (case authenticate env r of Inl e \<Rightarrow> (st, RFail e)
     | Inr user \<Rightarrow> (case splitBucketKey (sr_Path r) of (bucket, key) \<Rightarrow>
         if bucket = [] then (st, if sr_Method r = ''GET'' then listBuckets env user else RFail errMethodNotAllowed)
         else if key = [] then handleBucket env inp st r user bucket
         else handleObject env inp st r user bucket key))"


section \<open>What a request may change\<close>

text \<open>The files of the mounts that differ between two states.\<close>

definition written :: "mounts \<Rightarrow> mounts \<Rightarrow> (string \<times> path) set" where
  "written ms ms' = {(m, p). fs_read (lf_files (mt_fs (ms m))) p \<noteq> fs_read (lf_files (mt_fs (ms' m))) p}"

text \<open>The files below the writable sources of a share that the user may write.\<close>

definition write_region :: "serve_user \<Rightarrow> serve_share \<Rightarrow> mounts \<Rightarrow> (string \<times> path) set" where
  "write_region user share ms = {(m, p). \<not> isReadOnly user share \<and> mt_writable (ms m) \<and>
     (\<exists>src\<in>set (sh_Sources share). ss_FS src = m \<and> (\<exists>rest. p = base_path src @ rest))}"

text \<open>The backend calls that change no file but the one they are given.\<close>

definition own_path :: "(local_fs \<Rightarrow> string \<Rightarrow> local_fs \<times> fs_error option) \<Rightarrow> bool" where
  "own_path call \<longleftrightarrow> (\<forall>fs rel q. q \<noteq> clean_abs rel \<longrightarrow> fs_read (lf_files (fst (call fs rel))) q = fs_read (lf_files fs) q)"

lemma written_refl [simp]: "written ms ms = {}"
  by (simp add: written_def)

lemma written_trans: "written ms ms'' \<subseteq> written ms ms' \<union> written ms' ms''"
  by (auto simp: written_def)

lemma own_write: "own_path (\<lambda>fs p. lf_Write fs p b t)"
proof -
  have "fs_read (lf_files (fst (lf_Write fs rel b t))) q = fs_read (lf_files fs) q" if "q \<noteq> clean_abs rel" for fs rel q
    using that safePath_ok [of "lf_root fs" rel] write_others [of fs rel]
    by (cases "safePath (lf_root fs) rel") (auto simp: lf_Write_def)
  then show ?thesis by (simp add: own_path_def)
qed

lemma own_delete: "own_path lf_Delete"
proof -
  have "fs_read (lf_files (fst (lf_Delete fs rel))) q = fs_read (lf_files fs) q" if "q \<noteq> clean_abs rel" for fs rel q
    using that safePath_ok [of "lf_root fs" rel] delete_others [of fs rel]
    by (cases "safePath (lf_root fs) rel") (auto simp: lf_Delete_def)
  then show ?thesis by (simp add: own_path_def)
qed

lemma own_mkdir: "own_path lf_MkDir"
  by (auto simp: own_path_def lf_MkDir_def os_MkdirAll_def split: option.split)

lemma own_copy: "own_path (\<lambda>fs p. lf_Copy fs src p t)"
proof -
  have "fs_read (lf_files (fst (lf_Copy fs src rel t))) q = fs_read (lf_files fs) q" if "q \<noteq> clean_abs rel" for fs rel q
    using that safePath_ok [of "lf_root fs" rel] copy_others [of fs rel]
    by (cases "safePath (lf_root fs) rel") (auto simp: lf_Copy_def split: option.split)
  then show ?thesis by (simp add: own_path_def)
qed

lemma own_generic: "own_path (\<lambda>fs p. generic_copy from src t fs p)"
  using own_write by (auto simp: own_path_def generic_copy_def split: option.split)

lemma on_source_written:
  assumes "own_path call"
  shows "written ms (fst (on_source ms src key call)) \<subseteq> {(ss_FS src, clean_abs (sourceFSPath src key))}"
  using assms by (auto simp: written_def on_source_def set_mount_def source_fs_def own_path_def split: prod.splits if_splits)
    (metis fst_conv)+

text \<open>Every source path of a clean key lies below the source.\<close>

lemma clean_below: "cleanKey raw = Some key \<Longrightarrow> \<exists>rest. clean_abs (sourceFSPath src key) = base_path src @ rest"
  using cleanKey_segs source_path by (metis base_path_def)

lemma find_source: "findInSources ms share key = Some src \<Longrightarrow> src \<in> set (sh_Sources share)"
  "firstWritableSource ms share = Some src \<Longrightarrow> src \<in> set (sh_Sources share) \<and> mt_writable (ms (ss_FS src))"
  by (auto simp: findInSources_def firstWritableSource_def dest: find_someD)

lemma target_source: "writeTarget ms share key = Ok src \<Longrightarrow> src \<in> set (sh_Sources share) \<and> mt_writable (ms (ss_FS src))"
  using find_source by (auto simp: writeTarget_def split: option.splits if_splits)

lemma region_call:
  assumes "own_path call" "\<not> isReadOnly user share" "src \<in> set (sh_Sources share)" "mt_writable (ms (ss_FS src))" "cleanKey raw = Some key"
  shows "written ms (fst (on_source ms src key call)) \<subseteq> write_region user share ms"
  using on_source_written [OF assms(1), of ms src key] clean_below [OF assms(5), of src] assms(2-4)
  by (auto simp: write_region_def)

lemma on_source_writable [simp]: "mt_writable (fst (on_source ms src key call) m) = mt_writable (ms m)"
  by (auto simp: on_source_def set_mount_def split: prod.split)

lemma put_written:
  assumes "cleanKey raw = Some key"
  shows "written ms (fst (putObject env ms r user share key slash)) \<subseteq> write_region user share ms"
proof (cases "isReadOnly user share")
  case False
  have w: "written ms (fst (on_source ms src key (\<lambda>fs p. lf_Write fs p b t))) \<subseteq> write_region user share ms"
    if "writeTarget ms share key = Ok src" for src b t
    using region_call [OF own_write False _ _ assms] target_source [OF that] by blast
  have d: "written ms (fst (on_source ms src key lf_MkDir)) \<subseteq> write_region user share ms"
    if "firstWritableSource ms share = Some src" for src
    using region_call [OF own_mkdir False _ _ assms] find_source(2) [OF that] by blast
  show ?thesis using False
    by (simp add: putObject_def case_prod_beta w d split: sum.split option.split)
qed (simp add: putObject_def)

lemma copy_written:
  assumes "cleanKey raw = Some key"
  shows "written ms (fst (copyObject env ms r user share key)) \<subseteq> write_region user share ms"
proof (cases "isReadOnly user share")
  case False
  have "own_path (\<lambda>fs p. if b then lf_Copy fs s p t else generic_copy f s t fs p)" for b f s t
    using own_copy own_generic by (cases b) simp_all
  then have w: "written ms (fst (on_source ms dst key (\<lambda>fs p. if b then lf_Copy fs s p t else generic_copy f s t fs p))) \<subseteq> write_region user share ms"
    if "writeTarget ms share key = Ok dst" for dst b f s t
    using region_call [OF _ False _ _ assms] target_source [OF that] by blast
  show ?thesis using False
    by (simp add: copyObject_def case_prod_beta Let_def w split: sum.split option.split)
qed (simp add: copyObject_def)

lemma delete_from_written:
  assumes "cleanKey raw = Some key" "\<not> isReadOnly user share"
  shows "written ms (fst (deleteFromShare ms share key)) \<subseteq> write_region user share ms"
proof -
  have "written ms (fst (on_source ms src key lf_Delete)) \<subseteq> write_region user share ms"
    if "findInSources ms share key = Some src" "mt_writable (ms (ss_FS src))" for src
    by (rule region_call [of lf_Delete user share src ms raw key]) (use own_delete assms find_source(1) that in blast)+
  then show ?thesis by (simp add: deleteFromShare_def case_prod_beta split: option.split)
qed

lemma delete_from_writable [simp]: "mt_writable (fst (deleteFromShare ms share key) m) = mt_writable (ms m)"
  by (simp add: deleteFromShare_def case_prod_beta split: option.split)

lemma delete_keys_written:
  assumes "\<not> isReadOnly user share"
  shows "written ms (fst (delete_keys ms share quiet ks)) \<subseteq> write_region user share ms"
proof (induction ks arbitrary: ms)
  case (Cons k ks)
  show ?case
  proof (cases "cleanKey k = None \<or> cleanKey k = Some []")
    case True
    then show ?thesis using Cons.IH [of ms] by (auto split: prod.split)
  next
    case False
    then obtain key where key: "cleanKey k = Some key" "key \<noteq> []" by auto
    obtain ms1 e where d: "deleteFromShare ms share key = (ms1, e)" by fastforce
    have "write_region user share ms1 = write_region user share ms"
      using delete_from_writable [of ms share key] by (simp add: write_region_def d)
    then have "written ms1 (fst (delete_keys ms1 share quiet ks)) \<subseteq> write_region user share ms" using Cons.IH [of ms1] by simp
    moreover have "written ms ms1 \<subseteq> write_region user share ms" using delete_from_written [OF key(1) assms, of ms] d by simp
    moreover have "fst (delete_keys ms share quiet (k # ks)) = fst (delete_keys ms1 share quiet ks)"
      using key d by (auto split: prod.split option.split)
    ultimately show ?thesis using written_trans [of ms "fst (delete_keys ms1 share quiet ks)" ms1] by auto
  qed
qed simp

lemma delete_objects_written:
  "written ms (fst (deleteObjects inp ms r user share)) \<subseteq> write_region user share ms"
proof (cases "isReadOnly user share")
  case False
  then show ?thesis by (simp add: deleteObjects_def case_prod_beta delete_keys_written split: sum.split option.split)
qed (simp add: deleteObjects_def)

lemma complete_written:
  assumes "cleanKey raw = Some key"
  shows "written (s3_mounts st) (s3_mounts (fst (completeMultipartUpload env inp st r user share bucket key)))
    \<subseteq> write_region user share (s3_mounts st)"
proof (cases "isReadOnly user share")
  case False
  have w: "written ms (fst (on_source ms src key (\<lambda>fs p. lf_Write fs p b t))) \<subseteq> write_region user share ms"
    if "writeTarget ms share key = Ok src" for ms src b t
    using region_call [OF own_write False _ _ assms] target_source [OF that] by blast
  show ?thesis using False
    by (simp add: completeMultipartUpload_def Let_def case_prod_beta w split: sum.split option.split)
qed (simp add: completeMultipartUpload_def Let_def)

lemma parts_mounts [simp]:
  "s3_mounts (fst (createMultipartUpload inp st user share bucket key)) = s3_mounts st"
  "s3_mounts (fst (uploadPart env st r user share bucket key)) = s3_mounts st"
  by (simp_all add: createMultipartUpload_def uploadPart_def Let_def case_prod_beta split: sum.split option.split)

lemma delete_object_written:
  assumes "cleanKey raw = Some key"
  shows "written ms (fst (deleteObject ms user share key)) \<subseteq> write_region user share ms"
proof (cases "isReadOnly user share")
  case False
  then show ?thesis using delete_from_written [OF assms False, of ms]
    by (cases "deleteFromShare ms share key") (auto simp: deleteObject_def split: option.split)
qed (simp add: deleteObject_def)

lemma bucket_written:
  assumes "findShare (sv_shares env) user bucket = Some share"
  shows "written (s3_mounts st) (s3_mounts (fst (handleBucket env inp st r user bucket))) \<subseteq> write_region user share (s3_mounts st)"
  using assms by (simp add: handleBucket_def Let_def case_prod_beta delete_objects_written)

lemma object_written:
  assumes "findShare (sv_shares env) user bucket = Some share"
  shows "written (s3_mounts st) (s3_mounts (fst (handleObject env inp st r user bucket raw))) \<subseteq> write_region user share (s3_mounts st)"
proof (cases "cleanKey raw")
  case (Some key)
  note w = put_written [OF Some] copy_written [OF Some] delete_object_written [OF Some] complete_written [OF Some]
  show ?thesis using assms Some
    by (simp add: handleObject_def handle_put_def handle_delete_def Let_def case_prod_beta w)
qed (simp add: handleObject_def assms)

text \<open>
  C11: an S3 request changes files only where its user may write.  Whatever the request, every file that differs after it
  lies on a writable backend below a source of the share that the path names, which the user the signature belongs to can
  see, and neither the share nor the user is read-only.
\<close>

theorem writes_confined:
  assumes "s3_handle env inp st r = (st', reply)" "(m, p) \<in> written (s3_mounts st) (s3_mounts st')"
  shows "\<exists>user share. authenticate env r = Ok user \<and> findShare (sv_shares env) user (fst (splitBucketKey (sr_Path r))) = Some share \<and>
     (m, p) \<in> write_region user share (s3_mounts st)"
proof -
  obtain user where u: "authenticate env r = Ok user" using assms by (cases "authenticate env r") (auto simp: s3_handle_def)
  obtain bucket key where b: "splitBucketKey (sr_Path r) = (bucket, key)" by fastforce
  have "\<exists>share. findShare (sv_shares env) user bucket = Some share \<and>
      written (s3_mounts st) (s3_mounts st') \<subseteq> write_region user share (s3_mounts st)"
  proof (cases "findShare (sv_shares env) user bucket")
    case None
    then have "s3_mounts st' = s3_mounts st" using assms(1) u b
      by (auto simp: s3_handle_def handleBucket_def handleObject_def Let_def split: if_splits)
    then show ?thesis using assms(2) by simp
  next
    case (Some share)
    have "written (s3_mounts st) (s3_mounts (fst (handleBucket env inp st r user bucket))) \<subseteq> write_region user share (s3_mounts st)"
      by (rule bucket_written [OF Some])
    moreover have "written (s3_mounts st) (s3_mounts (fst (handleObject env inp st r user bucket key))) \<subseteq> write_region user share (s3_mounts st)"
      by (rule object_written [OF Some])
    ultimately have "written (s3_mounts st) (s3_mounts (fst (s3_handle env inp st r))) \<subseteq> write_region user share (s3_mounts st)"
      using u b by (simp add: s3_handle_def)
    then show ?thesis using Some assms(1) by simp
  qed
  then show ?thesis using u b assms(2) by auto
qed


section \<open>What is stored is served\<close>

lemma find_split: "find P xs = Some x \<longleftrightarrow> (\<exists>before after. xs = before @ x # after \<and> P x \<and> (\<forall>y\<in>set before. \<not> P y))"
proof (induction xs)
  case (Cons y ys)
  show ?case
  proof (cases "P y")
    case True
    then show ?thesis by (auto simp: Cons_eq_append_conv)
  next
    case False
    have "(\<exists>before after. y # ys = before @ x # after \<and> P x \<and> (\<forall>z\<in>set before. \<not> P z)) \<longleftrightarrow>
        (\<exists>before after. ys = before @ x # after \<and> P x \<and> (\<forall>z\<in>set before. \<not> P z))" (is "?l \<longleftrightarrow> ?r")
    proof
      assume ?l
      then obtain before after where b: "y # ys = before @ x # after" "P x" "\<forall>z\<in>set before. \<not> P z" by blast
      then obtain b' where "before = y # b'" using False by (cases before) auto
      then show ?r using b by auto
    next
      assume ?r
      then obtain before after where "ys = before @ x # after" "P x" "\<forall>z\<in>set before. \<not> P z" by blast
      then have "y # ys = (y # before) @ x # after \<and> P x \<and> (\<forall>z\<in>set (y # before). \<not> P z)" using False by simp
      then show ?l by blast
    qed
    then show ?thesis using Cons.IH False by simp
  qed
qed simp

lemma findInSources_Some:
  "findInSources ms share key = Some src \<longleftrightarrow> (\<exists>before after. sh_Sources share = before @ src # after \<and>
     lf_Stat (source_fs ms src) (sourceFSPath src key) \<noteq> None \<and> (\<forall>s\<in>set before. lf_Stat (source_fs ms s) (sourceFSPath s key) = None))"
  by (auto simp: findInSources_def find_split)

lemma dirs_on_the_way: "tree_ok fs \<Longrightarrow> p @ r \<in> set (lf_dirs fs) \<Longrightarrow> p \<in> set (lf_dirs fs)"
proof (induction r rule: rev_induct)
  case (snoc x r)
  then have "butlast (p @ r @ [x]) \<in> set (lf_dirs fs)" unfolding tree_ok_def by (metis Nil_is_append_conv UnCI append.assoc not_Cons_self2)
  then show ?case using snoc by (simp add: butlast_append)
qed simp

lemma parent_there:
  assumes "tree_ok fs" "p \<in> fst ` set (lf_files fs) \<union> set (lf_dirs fs)"
  shows "\<exists>fs1. make_parent fs p = Some fs1 \<and> set (lf_dirs fs1) = set (lf_dirs fs) \<and> lf_files fs1 = lf_files fs \<and> lf_root fs1 = lf_root fs"
proof (cases "p = []")
  case False
  have ok: "list_all segment_ok p" "butlast p \<in> set (lf_dirs fs)" using assms False by (auto simp: tree_ok_def)
  then have pre: "q \<in> set (lf_dirs fs)" if "\<exists>r. butlast p = q @ r" for q using dirs_on_the_way [OF assms(1)] that by auto
  then have "q \<notin> fst ` set (lf_files fs)" if "\<exists>r. butlast p = q @ r" for q using assms(1) that unfolding tree_ok_def by blast
  then have "\<not> list_ex (\<lambda>q. fs_read (lf_files fs) q \<noteq> None) (path_prefixes (butlast p))"
    by (auto simp: list_ex_iff prefixes_set fs_read_None_iff [THEN iffD2])
  then obtain fs1 where m: "os_MkdirAll fs (butlast p) = Some fs1" by (simp add: os_MkdirAll_def)
  note t = tree_MkdirAll [OF assms(1) segs_butlast [OF ok(1)] m]
  have "set (lf_dirs fs1) = set (lf_dirs fs)" using t(2) pre by auto
  then show ?thesis using t m False by (simp add: make_parent_def)
qed (simp add: make_parent_def)

lemma write_existing:
  assumes "tree_ok fs" "safePath (lf_root fs) rel = Some p" "fs_read (lf_files fs) p = Some f"
  shows "\<exists>fs'. lf_Write fs rel b now = (fs', if snd b then None else Some FsFailed) \<and> lf_Open fs' rel = Some (fst b) \<and>
    lf_Stat fs' rel = Some \<lparr>fi_Size = length (fst b), fi_IsDir = False, fi_ModTime = now\<rparr>"
proof -
  have p: "p \<in> fst ` set (lf_files fs)" "p \<notin> set (lf_dirs fs)" "p \<noteq> [] \<longrightarrow> butlast p \<in> set (lf_dirs fs)"
    using assms(1,3) fs_read_None_iff [of "lf_files fs" p] by (auto simp: tree_ok_def)
  then obtain fs1 where f1: "make_parent fs p = Some fs1" "set (lf_dirs fs1) = set (lf_dirs fs)" "lf_root fs1 = lf_root fs"
    using parent_there [OF assms(1)] by blast
  then have "os_Create fs1 p (fst b) now = Some (fs1\<lparr>lf_files := fs_write (lf_files fs1) p (fst b) now\<rparr>)"
    using p by (auto simp: os_Create_def os_is_dir_def)
  then show ?thesis using assms(2) f1 by (simp add: lf_Write_def lf_Open_def lf_Stat_def)
qed

text \<open>Where something was, storing a file there makes nothing else appear.\<close>

lemma stat_write_None:
  assumes "lf_Write fs rel b now = (fs', e)" "lf_Stat fs rel \<noteq> None" "lf_Stat fs rel' = None" "tree_ok fs"
  shows "lf_Stat fs' rel' = None"
proof -
  obtain p where p: "safePath (lf_root fs) rel = Some p" "fs_read (lf_files fs) p \<noteq> None \<or> p \<in> set (lf_dirs fs)"
    using assms(2) by (auto simp: lf_Stat_def os_is_dir_def split: option.splits if_splits)
  then have "p \<in> fst ` set (lf_files fs) \<union> set (lf_dirs fs)" using p(2) by (simp add: fs_read_None_iff)
  then obtain fs1 where f1: "make_parent fs p = Some fs1" "set (lf_dirs fs1) = set (lf_dirs fs)" "lf_root fs1 = lf_root fs" "lf_files fs1 = lf_files fs"
    using parent_there [OF assms(4)] by blast
  show ?thesis
  proof (cases "safePath (lf_root fs) rel'")
    case None
    then show ?thesis using p(1) f1 assms(1) by (auto simp: lf_Write_def lf_Stat_def os_Create_def split: option.splits if_splits)
  next
    case (Some p')
    then have n: "fs_read (lf_files fs) p' = None" "p' \<notin> set (lf_dirs fs)"
      using assms(3) by (auto simp: lf_Stat_def os_is_dir_def split: option.splits if_splits)
    then have "p' \<noteq> p" using p(2) by auto
    have c: "fs2 = fs1\<lparr>lf_files := fs_write (lf_files fs1) p (fst b) now\<rparr>" if "os_Create fs1 p (fst b) now = Some fs2" for fs2
      using that by (simp add: os_Create_def split: if_splits)
    have "lf_root fs' = lf_root fs" "set (lf_dirs fs') = set (lf_dirs fs)" "fs_read (lf_files fs') p' = None"
    proof -
      have w: "fs' = fs1 \<or> fs' = fs1\<lparr>lf_files := fs_write (lf_files fs1) p (fst b) now\<rparr>"
        using assms(1) p(1) f1(1) c by (cases "os_Create fs1 p (fst b) now") (simp_all add: lf_Write_def)
      show "lf_root fs' = lf_root fs" using w f1(3) by (elim disjE) simp_all
      show "set (lf_dirs fs') = set (lf_dirs fs)" using w f1(2) by (elim disjE) simp_all
      show "fs_read (lf_files fs') p' = None" using w f1(4) n(1) \<open>p' \<noteq> p\<close> by (elim disjE) simp_all
    qed
    then show ?thesis using Some n by (simp add: lf_Stat_def os_is_dir_def)
  qed
qed

lemma target_found:
  assumes "writeTarget ms share key = Ok src" "on_source ms src key (\<lambda>fs p. lf_Write fs p b t) = (ms', e)"
    and "lf_Stat (source_fs ms' src) (sourceFSPath src key) \<noteq> None" "\<forall>s\<in>set (sh_Sources share). tree_ok (source_fs ms s)"
  shows "findInSources ms' share key = Some src"
proof -
  have mt: "source_fs ms' s = (if ss_FS s = ss_FS src then fst (lf_Write (source_fs ms src) (sourceFSPath src key) b t) else source_fs ms s)" for s
    using assms(2) by (auto simp: on_source_def set_mount_def source_fs_def split: prod.splits)
  show ?thesis
  proof (cases "findInSources ms share key")
    case (Some s)
    then have src: "s = src" using assms(1) by (auto simp: writeTarget_def split: if_splits)
    then obtain before after where ba: "sh_Sources share = before @ src # after" "lf_Stat (source_fs ms src) (sourceFSPath src key) \<noteq> None"
      "\<forall>s\<in>set before. lf_Stat (source_fs ms s) (sourceFSPath s key) = None" using Some by (auto simp: findInSources_Some)
    have "lf_Stat (source_fs ms' s) (sourceFSPath s key) = None" if "s \<in> set before" for s
    proof (cases "ss_FS s = ss_FS src")
      case True
      then have "source_fs ms s = source_fs ms src" by (simp add: source_fs_def)
      then show ?thesis using True ba that assms(4) mt [of s] stat_write_None [of "source_fs ms src" "sourceFSPath src key" b t _ _ "sourceFSPath s key"]
        by (cases "lf_Write (source_fs ms src) (sourceFSPath src key) b t") auto
    qed (use ba that mt in simp)
    then show ?thesis using ba(1) assms(3) by (auto simp: findInSources_Some)
  next
    case None
    then have "firstWritableSource ms share = Some src" using assms(1) by (auto simp: writeTarget_def split: option.splits)
    then obtain before after where ba: "sh_Sources share = before @ src # after" "mt_writable (ms (ss_FS src))" "\<forall>s\<in>set before. \<not> mt_writable (ms (ss_FS s))"
      by (auto simp: firstWritableSource_def find_split)
    have "\<forall>s\<in>set before. lf_Stat (source_fs ms s) (sourceFSPath s key) = None"
      using None ba(1) by (auto simp: findInSources_def find_None_iff)
    moreover have "ss_FS s \<noteq> ss_FS src" if "s \<in> set before" for s using ba that by metis
    ultimately have "\<forall>s\<in>set before. lf_Stat (source_fs ms' s) (sourceFSPath s key) = None" using mt by simp
    then show ?thesis using ba(1) assms(3) by (auto simp: findInSources_Some)
  qed
qed


lemma write_stored:
  assumes "lf_Write fs rel b now = (fs', None)"
  shows "snd b \<and> lf_Open fs' rel = Some (fst b) \<and> lf_Stat fs' rel = Some \<lparr>fi_Size = length (fst b), fi_IsDir = False, fi_ModTime = now\<rparr>"
proof -
  obtain p fs1 fs2 where w: "safePath (lf_root fs) rel = Some p" "make_parent fs p = Some fs1" "os_Create fs1 p (fst b) now = Some fs2"
    "fs' = fs2" "snd b"
    using assms by (auto simp: lf_Write_def split: option.splits if_splits)
  have "lf_root fs1 = lf_root fs" using w(2) by (auto simp: make_parent_def os_MkdirAll_def split: if_splits)
  moreover have "fs2 = fs1\<lparr>lf_files := fs_write (lf_files fs1) p (fst b) now\<rparr>" using w(3) by (simp add: os_Create_def split: if_splits)
  ultimately show ?thesis using w(1,4,5) by (simp add: lf_Open_def lf_Stat_def)
qed

text \<open>What every operation keeps: well-formed trees on every mount.\<close>

definition trees_ok :: "mounts \<Rightarrow> bool" where
  "trees_ok ms \<longleftrightarrow> (\<forall>m. tree_ok (mt_fs (ms m)))"

lemma source_tree: "trees_ok ms \<Longrightarrow> tree_ok (source_fs ms src)"
  by (simp add: trees_ok_def source_fs_def)

lemma on_source_trees:
  assumes "\<And>fs p. tree_ok fs \<Longrightarrow> tree_ok (fst (call fs p))" "trees_ok ms"
  shows "trees_ok (fst (on_source ms src key call))"
  using assms by (auto simp: trees_ok_def on_source_def set_mount_def source_fs_def split: prod.split) (metis fst_conv)

lemma generic_trees: "tree_ok fs \<Longrightarrow> tree_ok (fst (generic_copy from src now fs p))"
  by (simp add: generic_copy_def tree_Write split: option.split)

lemma copy_call_trees: "tree_ok fs \<Longrightarrow> tree_ok (fst (if b then lf_Copy fs s p t else generic_copy f s t fs p))"
  by (simp add: tree_Copy generic_trees)

lemma delete_from_trees: "trees_ok ms \<Longrightarrow> trees_ok (fst (deleteFromShare ms share key))"
  using on_source_trees [of lf_Delete ms, OF tree_Delete]
  by (simp add: deleteFromShare_def case_prod_beta split: option.split)

lemma delete_keys_trees: "trees_ok ms \<Longrightarrow> trees_ok (fst (delete_keys ms share quiet ks))"
proof (induction ks arbitrary: ms quiet)
  case (Cons k ks)
  have "trees_ok (fst (delete_keys (fst (deleteFromShare ms share key)) share q ks))" for key q
    using Cons.IH delete_from_trees [OF Cons.prems] by blast
  then show ?case using Cons by (simp add: case_prod_beta split: option.split)
qed simp

text \<open>
  The S3 server keeps the file systems well formed.  After any request every file and every directory of every mount
  lies in a directory that is there, and nothing is a file and a directory.
\<close>

theorem s3_keeps_trees:
  assumes "trees_ok (s3_mounts st)"
  shows "trees_ok (s3_mounts (fst (s3_handle env inp st r)))"
proof -
  note calls = on_source_trees [OF tree_Write assms] on_source_trees [OF tree_MkDir assms] on_source_trees [OF copy_call_trees assms]
  have "trees_ok (fst (putObject env (s3_mounts st) r user share key slash))" for user share key slash
    using assms by (simp add: putObject_def case_prod_beta calls split: sum.split option.split)
  moreover have "trees_ok (fst (copyObject env (s3_mounts st) r user share key))" for user share key
    using assms by (simp add: copyObject_def case_prod_beta Let_def calls split: sum.split option.split)
  moreover have "trees_ok (fst (deleteObject (s3_mounts st) user share key))" for user share key
    using assms delete_from_trees [OF assms, of share key] by (simp add: deleteObject_def case_prod_beta split: option.split)
  moreover have "trees_ok (fst (deleteObjects inp (s3_mounts st) r user share))" for user share
    using assms by (simp add: deleteObjects_def case_prod_beta delete_keys_trees split: sum.split option.split)
  moreover have "trees_ok (s3_mounts (fst (completeMultipartUpload env inp st r user share bucket key)))" for user share bucket key
    using assms by (simp add: completeMultipartUpload_def case_prod_beta Let_def calls split: sum.split option.split)
  ultimately show ?thesis using assms
    by (simp add: s3_handle_def handleBucket_def handleObject_def handle_put_def handle_delete_def case_prod_beta Let_def
        split: sum.split option.split)
qed

text \<open>An object that was written is found and read.\<close>

lemma written_is_got:
  assumes "writeTarget ms share key = Ok src" "on_source ms src key (\<lambda>fs p. lf_Write fs p b t) = (ms', None)" "trees_ok ms"
  shows "snd b \<and> getObject env ms' share key slash = RObject (fst b) (pseudoETag env key (length (fst b)) t) t"
proof -
  have fs: "lf_Write (source_fs ms src) (sourceFSPath src key) b t = (source_fs ms' src, None)"
    using assms(2) by (auto simp: on_source_def set_mount_def source_fs_def split: prod.splits)
  note w = write_stored [OF fs]
  have "findInSources ms' share key = Some src"
    by (rule target_found [OF assms(1,2)]) (use w source_tree [OF assms(3)] in auto)
  then show ?thesis using w by (simp add: getObject_def find_info_def)
qed

text \<open>A name stands for one share, whoever asks.\<close>

lemma findShare_same: "findShare shares u b = Some sh \<Longrightarrow> findShare shares u' b = Some sh' \<Longrightarrow> sh = sh'"
proof -
  have "findShare shares u b = find (\<lambda>sh. sh_Name sh = b) shares" if "findShare shares u b \<noteq> None" for u
  proof (cases "su_Shares u = []")
    case False
    then have "b \<in> set (su_Shares u)" using that by (auto simp: findShare_def userShares_def find_None_iff)
    then have "find (\<lambda>sh. sh_Name sh = b) (filter (\<lambda>sh. sh_Name sh \<in> set (su_Shares u)) shares) = find (\<lambda>sh. sh_Name sh = b) shares"
      by (induction shares) auto
    then show ?thesis using False by (simp add: findShare_def userShares_def)
  qed (simp add: findShare_def userShares_def)
  then show "findShare shares u b = Some sh \<Longrightarrow> findShare shares u' b = Some sh' \<Longrightarrow> sh = sh'" by (metis option.distinct(1) option.inject)
qed

definition plain_object_request :: "s3_request \<Rightarrow> bool" where
  "plain_object_request r \<longleftrightarrow> list_all (\<lambda>k. \<not> has_key (sr_Query r) k) [''partNumber'', ''uploadId'', ''tagging'', ''acl''] \<and>
     first_of (sr_Header r) ''x-amz-copy-source'' = []"

text \<open>
  C27: what a client stored is what it gets.  After an accepted upload of an object, a request for the path by any user who
  sees the share is answered with the bytes of the upload, out of the chunks if it came in chunks, and an upload is
  accepted only when its body came to its end.
\<close>

theorem put_then_get:
  assumes put: "s3_handle env inp st r = (st', RETag tag)" "sr_Method r = ''PUT''" "plain_object_request r" "requestBody r = Ok (body, sz)"
    and "\<not> has_suffix (snd (splitBucketKey (sr_Path r))) ''/''" "trees_ok (s3_mounts st)" "sv_shares env' = sv_shares env"
    and get: "sr_Method r' = ''GET''" "sr_Path r' = sr_Path r" "plain_object_request r'" "authenticate env' r' = Ok user'"
      "findShare (sv_shares env) user' (fst (splitBucketKey (sr_Path r))) \<noteq> None"
  shows "snd body \<and> (\<exists>tag' t. s3_handle env' inp' st' r' = (st', RObject (fst body) tag' t))"
proof -
  obtain bucket raw where b: "splitBucketKey (sr_Path r) = (bucket, raw)" by fastforce
  obtain user where u: "authenticate env r = Ok user" using put(1) by (cases "authenticate env r") (auto simp: s3_handle_def)
  have o: "bucket \<noteq> []" "raw \<noteq> []" "handleObject env inp st r user bucket raw = (st', RETag tag)"
    using put(1,2) u b by (auto simp: s3_handle_def handleBucket_def Let_def split: if_splits)
  obtain share where sh: "findShare (sv_shares env) user bucket = Some share"
    using o(3) by (cases "findShare (sv_shares env) user bucket") (auto simp: handleObject_def)
  obtain key where key: "cleanKey raw = Some key" "key \<noteq> []"
    using o(3) sh by (cases "cleanKey raw") (auto simp: handleObject_def Let_def split: if_splits)
  have "\<not> has_suffix raw ''/''" using assms(5) b by simp
  then have p: "s3_mounts st' = fst (putObject env (s3_mounts st) r user share key False)"
    "snd (putObject env (s3_mounts st) r user share key False) = RETag tag"
    using o(3) sh key put(2,3) by (auto simp: handleObject_def handle_put_def plain_object_request_def Let_def split: prod.splits)
  then obtain src where src: "writeTarget (s3_mounts st) share key = Ok src"
    "on_source (s3_mounts st) src key (\<lambda>fs p. lf_Write fs p body (now_seconds env)) = (s3_mounts st', None)"
    using put(4) by (auto simp: putObject_def split: if_splits sum.splits prod.splits)
  have "findShare (sv_shares env') user' bucket = Some share"
    using findShare_same [OF sh] get(5) b assms(7) by (metis fst_conv option.exhaust_sel)
  then have "s3_handle env' inp' st' r' = (st', getObject env' (s3_mounts st') share key False)"
    using get(1-4) b o(1,2) key \<open>\<not> has_suffix raw ''/''\<close>
    by (simp add: s3_handle_def handleObject_def plain_object_request_def Let_def)
  then show ?thesis using written_is_got [OF src assms(6)] by simp
qed


section \<open>What is lost\<close>

text \<open>
  C35: an upload that breaks off replaces the object.  When an object is overwritten and the body of the upload ends
  early, the client is told of an error, and the object is now the part that came through.
\<close>

theorem broken_put_replaces:
  assumes "trees_ok ms" "\<not> isReadOnly user share" "requestBody r = Ok (body, sz)" "\<not> snd body"
    and "find_info ms share key = Some (src, fi)" "\<not> fi_IsDir fi" "mt_writable (ms (ss_FS src))" "slash = False \<or> sz \<noteq> 0"
  shows "\<exists>ms' tag t. putObject env ms r user share key slash = (ms', RFail errInternal) \<and>
    getObject env ms' share key slash = RObject (fst body) tag t"
proof -
  have f: "findInSources ms share key = Some src" "lf_Stat (source_fs ms src) (sourceFSPath src key) = Some fi"
    using assms(5) by (auto simp: find_info_def split: option.splits)
  then have t: "writeTarget ms share key = Ok src" using assms(7) by (simp add: writeTarget_def)
  obtain p x where p: "safePath (lf_root (source_fs ms src)) (sourceFSPath src key) = Some p" "fs_read (lf_files (source_fs ms src)) p = Some x"
    using f(2) assms(6) by (auto simp: lf_Stat_def split: option.splits if_splits)
  obtain fs' where fs': "lf_Write (source_fs ms src) (sourceFSPath src key) body (now_seconds env) = (fs', Some FsFailed)"
    "lf_Open fs' (sourceFSPath src key) = Some (fst body)"
    "lf_Stat fs' (sourceFSPath src key) = Some \<lparr>fi_Size = length (fst body), fi_IsDir = False, fi_ModTime = now_seconds env\<rparr>"
    using write_existing [OF source_tree [OF assms(1)] p, of body "now_seconds env"] assms(4) by auto
  define ms' where "ms' = set_mount ms (ss_FS src) fs'"
  have o: "on_source ms src key (\<lambda>fs p. lf_Write fs p body (now_seconds env)) = (ms', Some FsFailed)"
    using fs'(1) by (simp add: on_source_def ms'_def)
  have m: "source_fs ms' src = fs'" by (simp add: ms'_def source_fs_def set_mount_def)
  have "findInSources ms' share key = Some src"
    by (rule target_found [OF t o]) (use fs' m source_tree [OF assms(1)] in auto)
  moreover have "putObject env ms r user share key slash = (ms', RFail errInternal)"
    using assms(2,3,8) t o by (auto simp: putObject_def)
  ultimately show ?thesis using fs' m by (simp add: getObject_def find_info_def)
qed

lemma dec_digit: "n < 10 \<Longrightarrow> hex_value (char_of (48 + n)) = Some n \<and> plain_char (char_of (48 + n))"
proof -
  have "list_all (\<lambda>n. hex_value (char_of (48 + n)) = Some n \<and> plain_char (char_of (48 + n))) [0..<10]" by code_simp
  then show "n < 10 \<Longrightarrow> hex_value (char_of (48 + n)) = Some n \<and> plain_char (char_of (48 + n))" by (simp add: list_all_iff)
qed

lemma dec_nat_value: "digits_value 10 0 (dec_nat n) = Some (int n) \<and> list_all plain_char (dec_nat n)"
proof (induction n rule: dec_nat.induct)
  case (1 n)
  show ?case
  proof (cases "n < 10")
    case True
    then show ?thesis using dec_digit [of n] by (subst (1 2) dec_nat.simps) simp
  next
    case False
    have "int (n div 10) * 10 + int (n mod 10) = int n" by (simp add: zdiv_int zmod_int)
    then show ?thesis using False 1 dec_digit [of "n mod 10"]
      by (subst (1 2) dec_nat.simps) (simp add: digits_value_append)
  qed
qed

lemma ParseInt_dec: "int n < 2 ^ 63 \<Longrightarrow> ParseInt 10 (dec_nat n) = Some (int n)"
proof -
  assume n: "int n < 2 ^ 63"
  have "dec_nat n \<noteq> []" by (subst dec_nat.simps) simp
  then obtain c t where ct: "dec_nat n = c # t" by (cases "dec_nat n") auto
  then have "c \<noteq> CHR ''-''" "c \<noteq> CHR ''+''" using dec_nat_value [of n] by (simp_all add: plain_char_def)
  then show ?thesis using n dec_nat_value [of n] by (simp add: ParseInt_def ct has_prefix_def)
qed

text \<open>
  An upload in chunks that ends between two chunks is stored as if it were complete: the reader takes the end of the
  body for the empty chunk that should come last, and the length the client announced is not compared.
\<close>

theorem cut_upload_accepted:
  assumes "isStreamingPayload r" "\<forall>(ext, d)\<in>set chunks. d \<noteq> [] \<and> int (length d) < 2 ^ 63 \<and> extension_ok ext"
    and "sr_Body r = (concat (map chunk_text chunks), True)" "first_of (sr_Header r) ''x-amz-decoded-content-length'' = dec_nat announced"
    and "int announced < 2 ^ 63"
  shows "requestBody r = Ok ((concat (map snd chunks), True), int announced)"
proof -
  have "dec_nat announced \<noteq> []" by (subst dec_nat.simps) simp
  then show ?thesis using assms chunked_cut_short [OF assms(2)] ParseInt_dec [OF assms(5)] by (simp add: requestBody_def Let_def)
qed

lemma copy_self_write:
  assumes "lf_Copy fs rel rel now = (fs', None)"
  shows "lf_Write fs rel ([], True) now = (fs', None)"
  using assms
  by (auto simp: lf_Copy_def lf_Write_def os_Create_def fs_write_def fs_read_def split: option.splits if_splits)

text \<open>
  C38: an object copied onto itself is emptied, and the client is told that it was copied.
\<close>

theorem copy_onto_itself_empties:
  assumes "copyObject env ms r user share key = (ms', RCopied tag)" "trees_ok ms"
    and "parseCopySource (first_of (sr_Header r) ''x-amz-copy-source'') = Ok (bucket, raw)" "cleanKey raw = Some key"
    and "findShare (sv_shares env) user bucket = Some share"
  shows "\<exists>tag' t. getObject env ms' share key slash = RObject [] tag' t"
proof -
  have w: "\<not> isReadOnly user share" using assms(1) by (auto simp: copyObject_def)
  obtain src where src: "findInSources ms share key = Some src" "key \<noteq> []"
    using assms(1,3-5) w by (auto simp: copyObject_def split: option.splits if_splits)
  then have t: "writeTarget ms share key = Ok src" if "writeTarget ms share key = Ok dst" for dst
    using that by (auto simp: writeTarget_def split: if_splits)
  obtain dst where dst: "writeTarget ms share key = Ok dst"
    using assms(1,3-5) w src by (cases "writeTarget ms share key") (auto simp: copyObject_def)
  have o: "on_source ms src key (\<lambda>fs p. lf_Copy fs (sourceFSPath src key) p (now_seconds env)) = (ms', None)"
    using assms(1,3-5) w src t [OF dst] by (auto simp: copyObject_def Let_def split: prod.splits if_splits)
  then have "lf_Copy (source_fs ms src) (sourceFSPath src key) (sourceFSPath src key) (now_seconds env) = (source_fs ms' src, None)"
    by (auto simp: on_source_def set_mount_def source_fs_def split: prod.splits)
  then have "on_source ms src key (\<lambda>fs p. lf_Write fs p ([], True) (now_seconds env)) = (ms', None)"
    using o copy_self_write by (auto simp: on_source_def split: prod.splits)
  then show ?thesis using written_is_got [OF t [OF dst] _ assms(2)] by fastforce
qed


section \<open>Uploads in parts\<close>

text \<open>The part a request brings, and what was sent last for a number.\<close>

definition sent_part :: "s3_request \<Rightarrow> (int \<times> string) option" where
  "sent_part r = (case (ParseInt 10 (first_of (sr_Query r) ''partNumber''), requestBody r) of
     (Some n, Inr (b, _)) \<Rightarrow> Some (n, fst b) | _ \<Rightarrow> None)"

definition last_sent :: "s3_request list \<Rightarrow> int \<Rightarrow> string option" where
  "last_sent rs = map_of (rev (List.map_filter sent_part rs))"

text \<open>A run of accepted part uploads.\<close>

fun upload_run :: "s3_env \<Rightarrow> serve_user \<Rightarrow> serve_share \<Rightarrow> string \<Rightarrow> string \<Rightarrow> s3_state \<Rightarrow> s3_request list \<Rightarrow> s3_state option" where
  "upload_run env user share bucket key st [] = Some st"
| "upload_run env user share bucket key st (r # rs) = (case uploadPart env st r user share bucket key of
     (st', RETag _) \<Rightarrow> upload_run env user share bucket key st' rs | _ \<Rightarrow> None)"

definition part_data :: "part_upload \<Rightarrow> int \<Rightarrow> string option" where
  "part_data up n = Option.bind (map_of (up_parts up) n) pt_data"

definition parts_whole :: "part_upload \<Rightarrow> bool" where
  "parts_whole up \<longleftrightarrow> (\<forall>n p. map_of (up_parts up) n = Some p \<longrightarrow> pt_data p \<noteq> None)"

lemma upload_get_Some: "upload_get ups uid b k = Some up \<longleftrightarrow> map_of ups uid = Some up \<and> up_bucket up = b \<and> up_key up = k"
  by (auto simp: upload_get_def split: option.splits if_splits)

lemma uploadPart_accepted:
  assumes "uploadPart env st r user share bucket key = (st', RETag tag)" "upload_get (s3_uploads st) (first_of (sr_Query r) ''uploadId'') bucket key = Some up"
    and "parts_whole up"
  obtains n d up' where "sent_part r = Some (n, d)" "parts_whole up'" "part_data up' = (part_data up)(n \<mapsto> d)" "s3_mounts st' = s3_mounts st"
    "upload_get (s3_uploads st') (first_of (sr_Query r) ''uploadId'') bucket key = Some up'"
proof -
  have ro: "\<not> isReadOnly user share" using assms(1) by (auto simp: uploadPart_def Let_def)
  obtain n b sz where n: "ParseInt 10 (first_of (sr_Query r) ''partNumber'') = Some n" "requestBody r = Ok (b, sz)"
    using assms(1,2) ro by (auto simp: uploadPart_def Let_def split: option.splits sum.splits)
  obtain up' p where pp: "putPart (sv_md5 env) up n b = (up', Some p)"
    and st': "st' = st\<lparr>s3_uploads := AList.update (first_of (sr_Query r) ''uploadId'') up' (s3_uploads st)\<rparr>"
    using assms(1,2) ro n by (auto simp: uploadPart_def Let_def split: option.splits prod.splits)
  then have up': "up' = up\<lparr>up_parts := AList.update n p (up_parts up)\<rparr>" "pt_data p = Some (fst b)"
    by (auto simp: putPart_def Let_def split: if_splits)
  have "part_data up' = (part_data up)(n \<mapsto> fst b)" using up' by (auto simp: part_data_def update_conv')
  moreover have "parts_whole up'" using assms(3) up' by (auto simp: parts_whole_def update_conv')
  moreover have "upload_get (s3_uploads st') (first_of (sr_Query r) ''uploadId'') bucket key = Some up'"
    using assms(2) up'(1) st' by (simp add: upload_get_Some update_conv')
  ultimately show ?thesis using that [of n "fst b" up'] n st' by (simp add: sent_part_def)
qed

lemma upload_run_parts:
  assumes "upload_run env user share bucket key st rs = Some st1" "\<forall>r\<in>set rs. first_of (sr_Query r) ''uploadId'' = uid"
    and "upload_get (s3_uploads st) uid bucket key = Some up" "parts_whole up"
  shows "s3_mounts st1 = s3_mounts st \<and> (\<exists>up1. upload_get (s3_uploads st1) uid bucket key = Some up1 \<and> parts_whole up1 \<and>
    part_data up1 = part_data up ++ last_sent rs)"
  using assms
proof (induction rs arbitrary: st up)
  case (Cons r rs)
  obtain st' tag where s: "uploadPart env st r user share bucket key = (st', RETag tag)" "upload_run env user share bucket key st' rs = Some st1"
    using Cons.prems(1) by (auto split: prod.splits s3_reply.splits)
  have uid: "first_of (sr_Query r) ''uploadId'' = uid" using Cons.prems(2) by simp
  obtain n d up' where p: "sent_part r = Some (n, d)" "parts_whole up'" "part_data up' = (part_data up)(n \<mapsto> d)" "s3_mounts st' = s3_mounts st"
    "upload_get (s3_uploads st') uid bucket key = Some up'"
    using uploadPart_accepted [OF s(1) _ Cons.prems(4)] Cons.prems(3) unfolding uid by metis
  have "part_data up ++ last_sent (r # rs) = part_data up' ++ last_sent rs"
    using p(1,3) by (simp add: last_sent_def List.map_filter_def map_add_assoc [symmetric])
  then show ?case using Cons.IH [OF s(2) _ p(5,2)] Cons.prems(2) p(4) by simp
qed (simp add: last_sent_def List.map_filter_def)

lemma assemble_parts:
  assumes "assemble_loop (up_parts up) prev req = Some (ps, raws)" "parts_whole up"
  shows "partsReader ps = (concat (map (\<lambda>x. the (part_data up (fst x))) req), True) \<and>
    (\<forall>x\<in>set req. part_data up (fst x) \<noteq> None \<and> prev < fst x) \<and> sorted_wrt (<) (map fst req)"
  using assms(1)
proof (induction req arbitrary: prev ps raws)
  case (Cons x req)
  obtain n etag where x: "x = (n, etag)" by fastforce
  obtain p ps' raws' where p: "map_of (up_parts up) n = Some p" "assemble_loop (up_parts up) n req = Some (ps', raws')" "ps = p # ps'" "prev < n"
    using Cons.prems by (auto simp: x split: if_splits option.splits)
  obtain d where d: "pt_data p = Some d" using p(1) assms(2) by (auto simp: parts_whole_def)
  then have "part_data up n = Some d" using p(1) by (simp add: part_data_def)
  then show ?case using Cons.IH [OF p(2)] p(3,4) d by (fastforce simp: x)
qed simp

text \<open>
  C31: uploads in parts.  A client that starts an upload, sends parts in any order, some of them again, and completes it with
  a list of parts stores the parts it sent last for the numbers of the list, one after the other, and gets them back; the
  numbers of an accepted list ascend and each was sent.
\<close>

theorem multipart_then_get:
  assumes create: "createMultipartUpload inp st user share bucket key = (st0, RUpload uid)"
    and parts: "upload_run env user share bucket key st0 rs = Some st1" "\<forall>r\<in>set rs. first_of (sr_Query r) ''uploadId'' = uid"
    and complete: "completeMultipartUpload env' inp' st1 rc user share bucket key = (st2, RCompleted etag)"
      "first_of (sr_Query rc) ''uploadId'' = uid" "si_complete inp' (limit_body (sr_Body rc)) = Some req"
    and "trees_ok (s3_mounts st)"
  shows "(\<exists>tag t. getObject env'' (s3_mounts st2) share key slash = RObject (concat (map (\<lambda>x. the (last_sent rs (fst x))) req)) tag t) \<and>
    sorted_wrt (<) (map fst req) \<and> (\<forall>x\<in>set req. last_sent rs (fst x) \<noteq> None)"
proof -
  have c: "uid = si_id inp" "st0 = st\<lparr>s3_uploads := upload_create (s3_uploads st) uid bucket key\<rparr>"
    using create by (auto simp: createMultipartUpload_def split: if_splits sum.splits)
  have "upload_get (s3_uploads st0) uid bucket key = Some \<lparr>up_bucket = bucket, up_key = key, up_parts = []\<rparr>"
    by (simp add: c(2) upload_get_Some upload_create_def update_conv')
  from upload_run_parts [OF parts this] obtain up where up: "s3_mounts st1 = s3_mounts st"
    "upload_get (s3_uploads st1) uid bucket key = Some up" "parts_whole up" "part_data up = last_sent rs"
    by (auto simp: parts_whole_def c(2) part_data_def [abs_def])
  have ro: "\<not> isReadOnly user share" using complete(1) by (auto simp: completeMultipartUpload_def Let_def)
  obtain ps raws where as: "assemble_loop (up_parts up) 0 req = Some (ps, raws)" "assemble (sv_md5 env') up req = Some (ps, etag)"
    using complete ro up(2) by (auto simp: completeMultipartUpload_def Let_def assemble_def split: option.splits sum.splits prod.splits if_splits)
  obtain src where src: "writeTarget (s3_mounts st) share key = Ok src"
    "on_source (s3_mounts st) src key (\<lambda>fs p. lf_Write fs p (partsReader ps) (now_seconds env')) = (s3_mounts st2, None)"
    using complete ro up(1,2) as(2) by (auto simp: completeMultipartUpload_def Let_def split: sum.splits prod.splits if_splits)
  show ?thesis using assemble_parts [OF as(1) up(3)] written_is_got [OF src assms(7), of env'' slash] up(4) by auto
qed


section \<open>Copies\<close>

lemma copy_writes:
  assumes "lf_Copy fs src dst now = (fs', None)" "lf_Open fs src = Some d" "clean_abs src \<noteq> clean_abs dst"
  shows "lf_Write fs dst (d, True) now = (fs', None)"
proof -
  obtain p q where sp: "safePath (lf_root fs) src = Some p" "safePath (lf_root fs) dst = Some q"
    using assms(1) by (cases "safePath (lf_root fs) src"; cases "safePath (lf_root fs) dst") (simp_all add: lf_Copy_def)
  then have "p \<noteq> q" using assms(3) safePath_ok by metis
  note pq = sp this
  obtain fs1 where f1: "make_parent fs q = Some fs1" using assms(1) pq by (cases "make_parent fs q") (auto simp: lf_Copy_def)
  have files: "lf_files fs1 = lf_files fs" using f1 by (auto simp: make_parent_def os_MkdirAll_def split: if_splits)
  obtain f where f: "fs_read (lf_files fs) p = Some f" "rf_data f = d" using assms(2) pq(1) by (auto simp: lf_Open_def)
  have "\<not> (os_is_dir fs1 q \<or> q \<noteq> [] \<and> \<not> os_is_dir fs1 (butlast q))"
    using assms(1) pq f1 f files by (auto simp: lf_Copy_def os_Create_def split: if_splits)
  moreover from this have "fs' = fs1\<lparr>lf_files := fs_write (fs_write (lf_files fs) q [] now) q d now\<rparr>"
    using assms(1) pq f1 f files by (simp add: lf_Copy_def os_Create_def split: if_splits)
  moreover have "fs_write (fs_write (lf_files fs) q [] now) q d now = fs_write (lf_files fs) q d now" by (simp add: fs_write_def)
  ultimately show ?thesis using pq f1 files by (simp add: lf_Write_def os_Create_def)
qed

text \<open>
  A copy is the object it was made from: after an accepted copy of an object to another place, a request for the copy is
  answered with the bytes of the object.
\<close>

theorem copy_then_get:
  assumes "copyObject env ms r user share key = (ms', RCopied tag)" "trees_ok ms"
    and "parseCopySource (first_of (sr_Header r) ''x-amz-copy-source'') = Ok (bucket, raw)" "cleanKey raw = Some srcKey"
    and "findShare (sv_shares env) user bucket = Some srcShare" "getObject env ms srcShare srcKey False = RObject d tag1 t1"
    and "\<And>src dst. findInSources ms srcShare srcKey = Some src \<Longrightarrow> writeTarget ms share key = Ok dst \<Longrightarrow>
      (ss_FS src, clean_abs (sourceFSPath src srcKey)) \<noteq> (ss_FS dst, clean_abs (sourceFSPath dst key))"
  shows "\<exists>tag2 t2. getObject env ms' share key slash = RObject d tag2 t2"
proof -
  have w: "\<not> isReadOnly user share" using assms(1) by (auto simp: copyObject_def)
  obtain src fi where src: "findInSources ms srcShare srcKey = Some src" "lf_Stat (source_fs ms src) (sourceFSPath src srcKey) = Some fi"
    "lf_Open (source_fs ms src) (sourceFSPath src srcKey) = Some d"
    using assms(6) by (auto simp: getObject_def find_info_def split: option.splits if_splits)
  have k: "srcKey \<noteq> []" using assms(1,3-5) w by (auto simp: copyObject_def split: if_splits)
  obtain dst where dst: "writeTarget ms share key = Ok dst"
    using assms(1,3-5) w src k by (cases "writeTarget ms share key") (auto simp: copyObject_def)
  define copy where "copy = (\<lambda>fs p. if ss_FS src = ss_FS dst then lf_Copy fs (sourceFSPath src srcKey) p (now_seconds env)
      else generic_copy (source_fs ms src) (sourceFSPath src srcKey) (now_seconds env) fs p)"
  have o: "on_source ms dst key copy = (ms', None)"
    using assms(1,3-5) w src(1) k dst by (auto simp: copyObject_def Let_def copy_def split: prod.splits if_splits)
  then have c: "copy (source_fs ms dst) (sourceFSPath dst key) = (source_fs ms' dst, None)"
    by (auto simp: on_source_def set_mount_def source_fs_def split: prod.splits)
  have "lf_Write (source_fs ms dst) (sourceFSPath dst key) (d, True) (now_seconds env) = (source_fs ms' dst, None)"
  proof (cases "ss_FS src = ss_FS dst")
    case True
    then have "source_fs ms src = source_fs ms dst" by (simp add: source_fs_def)
    then show ?thesis using c src(3) True assms(7) [OF src(1) dst] by (intro copy_writes) (auto simp: copy_def)
  qed (use c src in \<open>simp add: copy_def generic_copy_def\<close>)
  then have "on_source ms dst key (\<lambda>fs p. lf_Write fs p (d, True) (now_seconds env)) = (ms', None)"
    using o c by (auto simp: on_source_def split: prod.splits)
  then show ?thesis using written_is_got [OF dst _ assms(2)] by fastforce
qed

text \<open>
  C37: a signature for storing one object copies any other.  Whoever holds a signed request to store an object, as a
  presigned URL is, whose list of signed headers does not name \<open>x-amz-copy-source\<close>, adds that header and has the
  server copy whatever object the signing user can see.
\<close>

theorem signed_put_becomes_copy:
  assumes "authenticate env r = Ok user" "sr_Method r = ''PUT''" "''x-amz-copy-source'' \<notin> set (signed_names r)" "source \<noteq> []"
    and "splitBucketKey (sr_Path r) = (bucket, raw)" "bucket \<noteq> []" "raw \<noteq> []" "cleanKey raw = Some key" "key \<noteq> []"
    and "findShare (sv_shares env) user bucket = Some share" "\<not> has_key (sr_Query r) ''partNumber''" "\<not> has_key (sr_Query r) ''uploadId''"
  defines "forged \<equiv> r\<lparr>sr_Header := (''x-amz-copy-source'', source) # sr_Header r\<rparr>"
  shows "s3_handle env inp st forged = (case copyObject env (s3_mounts st) forged user share key of (ms', reply) \<Rightarrow> (st\<lparr>s3_mounts := ms'\<rparr>, reply))"
proof -
  have "authenticate env (r\<lparr>sr_Header := (''x-amz-copy-source'', source) # sr_Header r, sr_Body := sr_Body r, sr_ContentLength := sr_ContentLength r\<rparr>) =
      authenticate env r"
    by (rule unsigned_parts_free) (use assms(3) in \<open>auto simp: values_of_def\<close>)
  then have "authenticate env forged = Ok user" using assms(1) by (simp add: forged_def)
  moreover have "first_of (sr_Header forged) ''x-amz-copy-source'' = source" by (simp add: forged_def first_of_def values_of_def)
  moreover have "sr_Method forged = ''PUT''" "sr_Path forged = sr_Path r" "sr_Query forged = sr_Query r" using assms(2) by (simp_all add: forged_def)
  ultimately show ?thesis using assms(4-12) by (simp add: s3_handle_def handleObject_def handle_put_def Let_def)
qed


section \<open>Witnesses\<close>

definition object_mounts :: mounts where
  "object_mounts = (\<lambda>_. \<lparr>mt_fs = \<lparr>lf_root = ''/srv'',
      lf_files = [([''k''], \<lparr>rf_data = ''old'', rf_mtime = 0\<rparr>), ([''p''], \<lparr>rf_data = ''secret'', rf_mtime = 0\<rparr>)], lf_dirs = [[]]\<rparr>, mt_writable = True\<rparr>)"

definition object_state :: s3_state where
  "object_state = \<lparr>s3_mounts = object_mounts, s3_uploads = []\<rparr>"

definition object_input :: s3_input where
  "object_input = \<lparr>si_id = ''1'', si_delete = (\<lambda>_. None), si_complete = (\<lambda>_. Some [(1, []), (2, [])])\<rparr>"

definition put_request :: "body \<Rightarrow> s3_request" where
  "put_request b = demo_request\<lparr>sr_Method := ''PUT'', sr_Body := b, sr_ContentLength := 3\<rparr>"

lemma object_trees: "trees_ok object_mounts"
  by (auto simp: trees_ok_def tree_ok_def object_mounts_def segment_ok_def)

lemma pair_snd: "snd p = y \<Longrightarrow> p = (fst p, y)"
  by (cases p) simp

theorem s3_keeps_trees_witness:
  "trees_ok (s3_mounts (fst (s3_handle (demo_s3 [demo_share]) object_input object_state (put_request (''new'', True)))))"
  by (rule s3_keeps_trees) (simp add: object_state_def object_trees)

theorem writes_confined_witness:
  "\<exists>user share. authenticate (demo_s3 [demo_share]) (put_request (''new'', True)) = Ok user \<and>
     findShare [demo_share] user ''s'' = Some share \<and> (''m'', [''k'']) \<in> write_region user share object_mounts"
proof -
  let ?env = "demo_s3 [demo_share]" and ?r = "put_request (''new'', True)"
  have "fs_read (lf_files (mt_fs (s3_mounts (fst (s3_handle ?env object_input object_state ?r)) ''m''))) [''k''] \<noteq>
      fs_read (lf_files (mt_fs (s3_mounts object_state ''m''))) [''k'']" by code_simp
  then have "(''m'', [''k'']) \<in> written (s3_mounts object_state) (s3_mounts (fst (s3_handle ?env object_input object_state ?r)))"
    by (auto simp: written_def)
  from writes_confined [OF prod.collapse [symmetric] this]
  have "\<exists>user share. authenticate ?env ?r = Ok user \<and> findShare (sv_shares ?env) user (fst (splitBucketKey (sr_Path ?r))) = Some share \<and>
      (''m'', [''k'']) \<in> write_region user share (s3_mounts object_state)" .
  moreover have "sv_shares ?env = [demo_share]" "s3_mounts object_state = object_mounts" by (simp_all add: demo_s3_def object_state_def)
  moreover have "fst (splitBucketKey (sr_Path ?r)) = ''s''" by code_simp
  ultimately show ?thesis by metis
qed

theorem put_then_get_witness:
  "snd (''new'', True) \<and> (\<exists>tag' t. s3_handle (demo_s3 [demo_share]) object_input
     (fst (s3_handle (demo_s3 [demo_share]) object_input object_state (put_request (''new'', True)))) demo_request =
     (fst (s3_handle (demo_s3 [demo_share]) object_input object_state (put_request (''new'', True))), RObject ''new'' tag' t))"
proof -
  let ?env = "demo_s3 [demo_share]" and ?r = "put_request (''new'', True)"
  have "snd (s3_handle ?env object_input object_state ?r) = RETag ''6e6577''" by code_simp
  note put = put_then_get [OF pair_snd [OF this], of "(''new'', True)" 3 ?env demo_request demo_user object_input]
  have "trees_ok (s3_mounts object_state)" by (simp add: object_state_def object_trees)
  note put = put [OF _ _ _ _ this]
  have c: "sr_Method ?r = ''PUT''" "plain_object_request ?r" "requestBody ?r = Ok ((''new'', True), 3)"
    "\<not> has_suffix (snd (splitBucketKey (sr_Path ?r))) ''/''" "sr_Method demo_request = ''GET''" "sr_Path demo_request = sr_Path ?r"
    "plain_object_request demo_request" "authenticate ?env demo_request = Ok demo_user"
    "findShare (sv_shares ?env) demo_user (fst (splitBucketKey (sr_Path ?r))) \<noteq> None"
    by code_simp+
  show ?thesis using put [OF c(1-4) refl c(5-9)] by simp
qed

theorem broken_put_replaces_witness:
  "\<exists>ms' tag t. putObject (demo_s3 [demo_share]) object_mounts (put_request (''ne'', False)) demo_user demo_share ''k'' False = (ms', RFail errInternal) \<and>
     getObject (demo_s3 [demo_share]) ms' demo_share ''k'' False = RObject ''ne'' tag t"
proof -
  have "\<not> isReadOnly demo_user demo_share" "requestBody (put_request (''ne'', False)) = Ok ((''ne'', False), 3)"
    "find_info object_mounts demo_share ''k'' = Some (demo_source, \<lparr>fi_Size = 3, fi_IsDir = False, fi_ModTime = 0\<rparr>)"
    "mt_writable (object_mounts (ss_FS demo_source))" by code_simp+
  then show ?thesis using broken_put_replaces [OF object_trees, of demo_user demo_share "put_request (''ne'', False)" "(''ne'', False)" 3
      "''k''" demo_source "\<lparr>fi_Size = 3, fi_IsDir = False, fi_ModTime = 0\<rparr>" False "demo_s3 [demo_share]"] by simp
qed

definition chunked_request :: s3_request where
  "chunked_request = demo_request\<lparr>sr_Method := ''PUT'', sr_Header := [(''content-encoding'', ''aws-chunked''), (''x-amz-decoded-content-length'', ''9'')],
     sr_Body := (concat (map chunk_text [([], ''abc'')]), True), sr_ContentLength := 8\<rparr>"

theorem cut_upload_accepted_witness:
  "requestBody chunked_request = Ok ((''abc'', True), 9)"
proof -
  have "isStreamingPayload chunked_request" by code_simp
  moreover have "\<forall>(ext, d)\<in>set [([], ''abc'')]. d \<noteq> [] \<and> int (length d) < 2 ^ 63 \<and> extension_ok ext" by (simp add: extension_ok_def)
  moreover have "first_of (sr_Header chunked_request) ''x-amz-decoded-content-length'' = dec_nat 9" by code_simp
  moreover have "sr_Body chunked_request = (concat (map chunk_text [([], ''abc'')]), True)" by (simp add: chunked_request_def)
  ultimately show ?thesis using cut_upload_accepted [of chunked_request "[([], ''abc'')]" 9] by simp
qed

definition copy_request :: "string \<Rightarrow> s3_request" where
  "copy_request src = demo_request\<lparr>sr_Method := ''PUT'', sr_Header := sr_Header demo_request @ [(''x-amz-copy-source'', src)]\<rparr>"

theorem copy_onto_itself_empties_witness:
  "\<exists>tag' t. getObject (demo_s3 [demo_share]) (fst (copyObject (demo_s3 [demo_share]) object_mounts (copy_request ''/s/k'') demo_user demo_share ''k''))
     demo_share ''k'' False = RObject [] tag' t"
proof -
  let ?env = "demo_s3 [demo_share]" and ?r = "copy_request ''/s/k''"
  have c: "\<exists>tag. snd (copyObject ?env object_mounts ?r demo_user demo_share ''k'') = RCopied tag"
  proof -
    have "(case snd (copyObject ?env object_mounts ?r demo_user demo_share ''k'') of RCopied _ \<Rightarrow> True | _ \<Rightarrow> False)" by code_simp
    then show ?thesis by (auto split: s3_reply.splits)
  qed
  then obtain tag where t: "snd (copyObject ?env object_mounts ?r demo_user demo_share ''k'') = RCopied tag" by blast
  have "parseCopySource (first_of (sr_Header ?r) ''x-amz-copy-source'') = Ok (''s'', ''k'')" "cleanKey ''k'' = Some ''k''"
    "findShare (sv_shares ?env) demo_user ''s'' = Some demo_share" by code_simp+
  then show ?thesis by (rule copy_onto_itself_empties [OF pair_snd [OF t] object_trees])
qed

theorem copy_then_get_witness:
  "\<exists>tag' t. getObject (demo_s3 [demo_share]) (fst (copyObject (demo_s3 [demo_share]) object_mounts (copy_request ''/s/p'') demo_user demo_share ''k''))
     demo_share ''k'' False = RObject ''secret'' tag' t"
proof -
  let ?env = "demo_s3 [demo_share]" and ?r = "copy_request ''/s/p''"
  have "(case snd (copyObject ?env object_mounts ?r demo_user demo_share ''k'') of RCopied _ \<Rightarrow> True | _ \<Rightarrow> False)" by code_simp
  then obtain tag where t: "snd (copyObject ?env object_mounts ?r demo_user demo_share ''k'') = RCopied tag"
    by (auto split: s3_reply.splits)
  have "(case getObject ?env object_mounts demo_share ''p'' False of RObject d _ _ \<Rightarrow> d = ''secret'' | _ \<Rightarrow> False)" by code_simp
  then obtain tag1 t1 where g: "getObject ?env object_mounts demo_share ''p'' False = RObject ''secret'' tag1 t1"
    by (auto split: s3_reply.splits)
  have p: "parseCopySource (first_of (sr_Header ?r) ''x-amz-copy-source'') = Ok (''s'', ''p'')" "cleanKey ''p'' = Some ''p''"
    "findShare (sv_shares ?env) demo_user ''s'' = Some demo_share" by code_simp+
  have d: "findInSources object_mounts demo_share ''p'' = Some demo_source" "writeTarget object_mounts demo_share ''k'' = Ok demo_source"
    "clean_abs (sourceFSPath demo_source ''p'') \<noteq> clean_abs (sourceFSPath demo_source ''k'')" by code_simp+
  show ?thesis by (rule copy_then_get [OF pair_snd [OF t] object_trees p g]) (use d in auto)
qed

theorem signed_put_becomes_copy_witness:
  "s3_handle (demo_s3 [demo_share]) object_input object_state
     (put_request ([], True)\<lparr>sr_Header := (''x-amz-copy-source'', ''/s/p'') # sr_Header (put_request ([], True))\<rparr>) =
   (case copyObject (demo_s3 [demo_share]) (s3_mounts object_state)
       (put_request ([], True)\<lparr>sr_Header := (''x-amz-copy-source'', ''/s/p'') # sr_Header (put_request ([], True))\<rparr>) demo_user demo_share ''k'' of
     (ms', reply) \<Rightarrow> (object_state\<lparr>s3_mounts := ms'\<rparr>, reply))"
proof -
  let ?env = "demo_s3 [demo_share]" and ?r = "put_request ([], True)"
  have c: "authenticate ?env ?r = Ok demo_user" "sr_Method ?r = ''PUT''" "''x-amz-copy-source'' \<notin> set (signed_names ?r)" "''/s/p'' \<noteq> []"
    "splitBucketKey (sr_Path ?r) = (''s'', ''k'')" "''s'' \<noteq> []" "''k'' \<noteq> []" "cleanKey ''k'' = Some ''k''" "''k'' \<noteq> []"
    "findShare (sv_shares ?env) demo_user ''s'' = Some demo_share" "\<not> has_key (sr_Query ?r) ''partNumber''" "\<not> has_key (sr_Query ?r) ''uploadId''"
    by code_simp+
  show ?thesis by (rule signed_put_becomes_copy [OF c])
qed

definition part_request :: "string \<Rightarrow> string \<Rightarrow> s3_request" where
  "part_request n d = demo_request\<lparr>sr_Method := ''PUT'', sr_Query := [(''partNumber'', n), (''uploadId'', ''1'')], sr_Body := (d, True)\<rparr>"

definition demo_parts :: "s3_request list" where
  "demo_parts = [part_request ''2'' ''cd'', part_request ''1'' ''xx'', part_request ''1'' ''ab'']"

definition demo_started :: s3_state where
  "demo_started = fst (createMultipartUpload object_input object_state demo_user demo_share ''s'' ''k'')"

theorem multipart_then_get_witness:
  "\<exists>tag t. getObject (demo_s3 [demo_share]) (s3_mounts (fst (completeMultipartUpload (demo_s3 [demo_share]) object_input
       (the (upload_run (demo_s3 [demo_share]) demo_user demo_share ''s'' ''k'' demo_started demo_parts))
       (part_request [] []) demo_user demo_share ''s'' ''k''))) demo_share ''k'' False = RObject ''abcd'' tag t"
proof -
  let ?env = "demo_s3 [demo_share]"
  let ?run = "upload_run ?env demo_user demo_share ''s'' ''k'' demo_started demo_parts"
  have a: "snd (createMultipartUpload object_input object_state demo_user demo_share ''s'' ''k'') = RUpload ''1''" by code_simp
  have r: "?run \<noteq> None" by code_simp
  have u: "\<forall>r\<in>set demo_parts. first_of (sr_Query r) ''uploadId'' = ''1''" "first_of (sr_Query (part_request [] [])) ''uploadId'' = ''1''" by code_simp+
  have "(case snd (completeMultipartUpload ?env object_input (the ?run) (part_request [] []) demo_user demo_share ''s'' ''k'') of
      RCompleted _ \<Rightarrow> True | _ \<Rightarrow> False)" by code_simp
  then obtain etag where e: "snd (completeMultipartUpload ?env object_input (the ?run) (part_request [] []) demo_user demo_share ''s'' ''k'') = RCompleted etag"
    by (auto split: s3_reply.splits)
  have q: "si_complete object_input (limit_body (sr_Body (part_request [] []))) = Some [(1, []), (2, [])]" by (simp add: object_input_def)
  have run: "?run = Some (the ?run)" using r by simp
  have t: "trees_ok (s3_mounts object_state)" by (simp add: object_state_def object_trees)
  note m = multipart_then_get [OF pair_snd [OF a, folded demo_started_def] run u(1) pair_snd [OF e] u(2) q t, of ?env False]
  have "concat (map (\<lambda>x. the (last_sent demo_parts (fst x))) [(1, [] :: string), (2, [])]) = ''abcd''" by code_simp
  then show ?thesis using m [THEN conjunct1] by metis
qed

end
