(* ===== verification/Spec2Isabelle.thy ===== *)
theory Spec2Isabelle
  imports Semver Docker_GC_Safety Docker_Local Secret_Rows Data_Auth Retention_Stores Registry_Entry Login_Guard Npm_Cache S3_Object
begin

text \<open>
  A verification library for kutu, a self-hosted artifact registry and file server written in Go.  Paths below are
  relative to \<open>src/internal/\<close>.

  \<^bold>\<open>The program.\<close>  A request for a package enters through \<open>server/api/registry.go\<close> or a dedicated listener
  (\<open>registry-listen.go\<close>).  The entry finds the repository in the routing table (\<open>registry/manager.go\<close>, built from the
  settings of \<open>service/registry.go\<close>), finds the caller and what the caller may do (\<open>server/api/dataauth.go\<close>,
  \<open>registry_auth.go\<close>, \<open>server/authx\<close>, \<open>service/capabilities.go\<close>, \<open>permission.go\<close>, \<open>token.go\<close>), asks the policy of
  the repository (\<open>registry/policy\<close>) and hands the request to the repository: one of the package formats over a raw file
  system (\<open>registry/pkgbase\<close>, \<open>rawfs\<close>) or, for Docker, over a store of blobs (\<open>registry/blobstore\<close>) with a garbage
  collector.  Retention (\<open>registry/ops/retention.go\<close>) deletes old versions of any format.  Users sign in with a password and
  a second factor (\<open>service/auth.go\<close>, \<open>totp.go\<close>, \<open>server/authx/mfa_strategy.go\<close>).  The secrets of repositories are
  sealed in their rows under a server key (\<open>secret\<close>, \<open>storage/registry_store.go\<close>, \<open>service/keyops.go\<close>).  Apart from the
  registries, shares of the raw file systems are served over S3 (\<open>serve/s3serve\<close>).

  \<^bold>\<open>How it is modelled.\<close>  The state of a component is a record with the fields of its struct (a file system is the list of
  its files, or a tree where directories matter); an operation takes the state and returns it changed, with an error as a
  value of a sum, an option or a response; random bytes, clocks and the faults of system calls are arguments.  What clients,
  workers and restarts do in any order is an inductive relation of steps, and its invariants are proved by rule induction.
  Third-party code is a parameter with its documented behaviour as a named hypothesis: hash functions (\<open>sum_length\<close>), the
  sealing cipher (\<open>aead_ok\<close>, \<open>rejects\<close>), bcrypt, the TOTP algorithm, \<open>encoding/json\<close> (\<open>codec_ok\<close>), the password
  strategy of the sign-in library (\<open>inner_local\<close>).  Each has an instance in the examples.

  \<^bold>\<open>The theories.\<close>
  \<^item> Shared: \<open>Go_Prelude\<close> (strings, results, sorting, the locale \<open>comparator\<close>), \<open>Path_Match\<close>, \<open>Path_Clean\<close> (path.Join and
    path.Clean), \<open>Limited_Read\<close> (a body under a size limit, with the wrap of the limit), \<open>Base64\<close>, \<open>Url_Hex\<close>, \<open>Json\<close>,
    \<open>Json_Text\<close>, \<open>Json_Canon\<close> (what reads back from JSON), \<open>Raw_FS\<close>.
  \<^item> Versions: \<open>Semver\<close> (\<open>registry/common/semver\<close>, \<open>pkgbase/version.go\<close>); components are 64-bit words.  Both comparators
    interpret \<open>comparator\<close>.
  \<^item> Blobs: \<open>Digest\<close>, \<open>Blob_Store\<close> (the contract, locale \<open>blob_store\<close>), \<open>Mem_Blob\<close> and \<open>Local_Blob\<close>, which interpret it:
    in every reachable state a blob is stored under the digest of its bytes.
  \<^item> Docker: \<open>Docker_Store\<close> (\<open>docker/store.go\<close>, \<open>name.go\<close>, \<open>oci.go\<close>), \<open>Docker_Local\<close> (\<open>local.go\<close>: push, delete,
    immutable tags), \<open>Docker_GC\<close> and \<open>Docker_GC_Safety\<close> (\<open>gc.go\<close>; the locale \<open>gc_blobs\<close> is what the collector needs of a
    blob store, interpreted on both).  A collection keeps what tags reach and reclaims what nothing leads to.
  \<^item> Packages: \<open>Pkg_Store\<close> (\<open>pkgbase\<close>), \<open>Generic_Registry\<close>, \<open>Npm_Store\<close>, \<open>Npm_Local\<close>, \<open>Npm_Cache\<close> (\<open>registry/npm\<close>:
    the cached packument is the one that would be built), \<open>Retention\<close> (locale \<open>version_store\<close>) and \<open>Retention_Stores\<close>, its
    interpretations on the generic and the Docker repository.
  \<^item> Access: \<open>Capabilities\<close>, \<open>Token_Scopes\<close>, \<open>Cap_Resolver\<close> (who may do what, and why), \<open>Users\<close> (accounts, the last
    superadmin), \<open>Data_Auth\<close> (callers of the data plane), \<open>Two_Factor\<close>, \<open>Mfa_Login\<close>, \<open>Login_Guard\<close>.
  \<^item> Secrets: \<open>Key_Manager\<close>, \<open>Secret_Rows\<close> (sealing, reading back, rotation of the key as an abstract forgetting).
  \<^item> Settings and entry: \<open>License\<close>, \<open>Policy\<close>, \<open>Registry_Settings\<close>, \<open>Registry_Manager\<close>, \<open>Registry_Entry\<close> (all checks of a
    request in their order).
  \<^item> S3: \<open>Local_FS\<close> (\<open>rawfs/localfs\<close> over a tree), \<open>S3_Shares\<close>, \<open>S3_List\<close> (pages of a listing), \<open>S3_Sig\<close> (version 4
    signatures), \<open>S3_Upload\<close> (chunks and parts), \<open>S3_Object\<close> (the requests).

  \<^bold>\<open>What the lemmas show.\<close>  Each component has its invariant and that every operation keeps it, its behaviour on every
  branch, round trips, and the safety of what it deletes or lets through.  A theorem with side conditions states them in its
  text, and where the code fails without one, a theorem next to it shows how: for example \<open>gc_uppercase_digest_swept\<close>,
  \<open>subject_overwrites\<close>, \<open>largest_limit_stores_nothing\<close>, \<open>failed_drop_stale\<close>, \<open>stale_enrollment_accepted\<close>,
  \<open>rotate_locked_loses_all\<close>, \<open>publish_climbs\<close>.

  \<^bold>\<open>Fuel and numbers.\<close>  \<open>walkRepos\<close> has the length of the longest stored path plus one as fuel, the walk of \<open>S3_List\<close>
  the depth of the tree plus one, and the marking of the collector the number of child references in the store plus two;
  \<open>ListRepositories_exact\<close>, C34 and \<open>markManifest_closed\<close> show that this is enough.  Integers are unbounded, except where the
  code can wrap: version components, ages and durations, the lifetime of a presigned request, the limit of an upload.

  \<^bold>\<open>What is not modelled.\<close>  The other package formats, remote and virtual repositories beyond the pull-through cache and first
  hit, the HTTP layer (headers, texts of errors, encodings), events and metrics, the other raw file systems and file servers,
  sessions, passkeys and external sign-in beyond their identities, export and replication, the user interface.  Raw file
  systems below the registries do not fail except where a failing deletion matters (\<open>pk_stuck\<close>, the operations of the
  collector), and in \<open>Raw_FS\<close> a directory exists only as long as a file is below it, so empty directories a backend leaves
  behind are not seen by \<open>walkRepos\<close>.  Case mapping and white space are those of ASCII.  Concurrency is modelled as
  interleaved steps for the blob stores, and as operations that do not overlap elsewhere; where overlapping ones misbehave,
  the race is shown on the steps they consist of (\<open>check_then_act_races\<close>, \<open>stale_enrollment_accepted\<close>).
\<close>

end
